(* ===== verification/HalPrelude.thy ===== *)
theory HalPrelude
  imports Main "HOL-Library.Word"
begin

text \<open>
  Shared vocabulary of the development: the machine integers of the 32-bit Nios V core
  (\<open>alt_types.h\<close>), the error numbers of newlib that the HAL returns, the lemma collections
  the component theories fill, and generic facts on words, lists and options.
\<close>

unbundle bit_operations_syntax

section \<open>Machine types\<close>

type_synonym u8 = "8 word"
type_synonym u16 = "16 word"
type_synonym u32 = "32 word"
type_synonym u64 = "64 word"

text \<open>
  The collections: \<open>io_frame\<close> holds the facts that an operation leaves a part of the state
  alone, \<open>io_log\<close> the facts that give the register log an operation produces, and
  \<open>reg_defs\<close> the register numbers and masks, which are unfolded together.
\<close>

named_theorems io_frame \<open>parts of the state an operation leaves alone\<close>

named_theorems io_log \<open>the register accesses an operation performs\<close>

named_theorems reg_defs \<open>register numbers and bit masks\<close>

section \<open>Error numbers (newlib errno.h)\<close>

definition EIO :: int where "EIO = 5"

definition EAGAIN :: int where "EAGAIN = 11"

definition EWOULDBLOCK :: int where "EWOULDBLOCK = EAGAIN"

definition EACCES :: int where "EACCES = 13"

definition ENODEV :: int where "ENODEV = 19"

definition EINVAL :: int where "EINVAL = 22"

definition EMFILE :: int where "EMFILE = 24"

definition ENOTTY :: int where "ENOTTY = 25"

definition EBADFD :: int where "EBADFD = 81"

definition ENOSYS :: int where "ENOSYS = 88"

definition ENOTSUP :: int where "ENOTSUP = 134"

lemmas errno_defs =
  EIO_def EAGAIN_def EWOULDBLOCK_def EACCES_def ENODEV_def EINVAL_def EMFILE_def
  ENOTTY_def EBADFD_def ENOSYS_def ENOTSUP_def

section \<open>Generic lemmas\<close>

lemma unat_minus_one_less: "(x::'a::len word) \<noteq> 0 \<Longrightarrow> unat (x - 1) < unat x"
  by (metis One_nat_def Suc_pred lessI neq0_conv unat_eq_zero unat_minus_one)

lemma unat_minus_one_Suc: "(x::'a::len word) \<noteq> 0 \<Longrightarrow> unat x = Suc (unat (x - 1))"
  by (metis One_nat_def Suc_pred neq0_conv unat_eq_zero unat_minus_one)

lemma word_gr_one_iff: "(1 < (x::u32)) = (1 < unat x)"
  by (simp add: word_less_nat_alt)

lemma take_append_le: "k \<le> length xs \<Longrightarrow> take k (xs @ ys) = take k xs"
  by simp

lemma bit_push_bit_one: "bit (push_bit k (1::'a::len word)) n \<longleftrightarrow> n = k \<and> k < LENGTH('a)"
  by (auto simp: bit_simps)

text \<open>Setting and clearing one bit; simp writes \<open>push_bit k 1\<close> as a power.\<close>

lemma bit_set_line [simp]:
  fixes x :: "'a::len word"
  shows "bit (x OR 2 ^ k) n \<longleftrightarrow> n = k \<and> k < LENGTH('a) \<or> bit x n"
  by (auto simp: bit_or_iff bit_exp_iff dest: bit_imp_le_length)

lemma bit_clear_line [simp]:
  fixes x :: "'a::len word"
  shows "bit (x AND NOT (2 ^ k)) n \<longleftrightarrow> n \<noteq> k \<and> bit x n"
  by (auto simp: bit_and_iff bit_not_iff bit_exp_iff dest: bit_imp_le_length)

lemma and_push_bit_one_eq_0: "(x::'a::len word) AND push_bit k 1 = 0 \<longleftrightarrow> \<not> bit x k"
  using bit_iff_and_push_bit_not_eq_0 by blast

text \<open>Small machine integers are non-negative as signed values too.\<close>

lemma signed_take_bit_31_int:
  "n < 2 ^ 32 \<Longrightarrow> signed_take_bit 31 (int n) = (if n < 2 ^ 31 then int n else int n - 2 ^ 32)"
proof -
  assume a: "n < 2 ^ 32"
  have "signed_take_bit 31 (int n) = (int n + 2 ^ 31) mod 2 ^ 32 - 2 ^ 31"
    by (simp add: signed_take_bit_eq_take_bit_shift take_bit_eq_mod)
  moreover have "(int n + 2 ^ 31) mod 2 ^ 32 = (if n < 2 ^ 31 then int n + 2 ^ 31 else int n - 2 ^ 31)"
  proof (cases "n < 2 ^ 31")
    case True
    then show ?thesis by (subst mod_pos_pos_trivial) auto
  next
    case False
    then have "(int n + 2 ^ 31) mod 2 ^ 32 = (int n - 2 ^ 31) mod 2 ^ 32"
      using mod_add_self2[of "int n - 2 ^ 31" "2 ^ 32"] by (simp add: add.commute)
    also have "\<dots> = int n - 2 ^ 31"
      using False a by (intro mod_pos_pos_trivial) auto
    finally show ?thesis using False by simp
  qed
  ultimately show ?thesis by simp
qed

lemma sint_unat: "sint (x::u32) = (if unat x < 2 ^ 31 then int (unat x) else int (unat x) - 2 ^ 32)"
proof -
  have "sint x = signed_take_bit 31 (int (unat x))"
    by (simp add: sint_uint)
  also have "\<dots> = (if unat x < 2 ^ 31 then int (unat x) else int (unat x) - 2 ^ 32)"
    by (rule signed_take_bit_31_int) (use unsigned_less[where 'b=32, of x] in simp)
  finally show ?thesis .
qed

lemma sint_small: "(x::u32) < 0x80000000 \<Longrightarrow> sint x = uint x"
  by (simp add: sint_unat word_less_nat_alt)

lemma sint_big: "0x80000000 \<le> (x::u32) \<Longrightarrow> sint x = uint x - 2 ^ 32"
  by (simp add: sint_unat word_le_nat_alt)

lemma unat_bound_32: "unat (x::u32) < 2 ^ 32"
  using unsigned_less[where 'a=nat and 'b=32, of x] by simp

lemma uint_bound_32: "uint (x::u32) < 2 ^ 32"
  using unsigned_less[where 'b=32, of x] by simp

lemma unat_of_nat_32: "n < 2 ^ 32 \<Longrightarrow> unat (word_of_nat n :: u32) = n"
  by (simp add: unsigned_of_nat take_bit_nat_eq_self)

lemma uint_of_nat_32: "n < 2 ^ 32 \<Longrightarrow> uint (word_of_nat n :: u32) = int n"
  by (simp add: unsigned_of_nat take_bit_nat_eq_self)

lemma and_0xFFFF: "(x::u32) AND 0xFFFF = take_bit 16 x"
  by (simp add: take_bit_eq_mask mask_eq_exp_minus_1)

lemma ucast_16_32_16 [simp]: "ucast (take_bit 16 (ucast (x::u16)) :: u32) = x"
  by (rule bit_eqI) (simp add: bit_unsigned_iff bit_take_bit_iff)

lemma unat_Suc_bound: "(a::u32) < b \<Longrightarrow> unat (a + 1) = Suc (unat a)"
  using unat_bound_32[of b]
  by (subst unat_add_lem[THEN iffD1]) (simp_all add: word_less_nat_alt)

lemma unat_minus_two_less: "(x::u32) \<noteq> 1 \<Longrightarrow> unat (x - 2) < unat (x - 1)"
  using unat_minus_one_less[of "x - 1"] by simp

lemma ucast_8_32_8 [simp]: "ucast (ucast (c::u8) :: u32) = c"
  by (rule bit_eqI) (simp add: bit_unsigned_iff)

end
