(* ===== verification/Mmio.thy ===== *)
theory Mmio
  imports HalPrelude
begin

text \<open>
  Memory-mapped registers (\<open>HAL/inc/io.h\<close>). The C code touches hardware only through
  \<open>IORD\<close> and \<open>IOWR\<close>. The hardware itself is not part of the repository's C code, so it is a
  parameter: a function \<open>hw\<close> that gives the value a register reads as, from the whole history
  of accesses so far. The history is kept newest first in the state of every driver. Time is
  part of the history (\<open>BusySleep\<close> and every poll is an event), so any deterministic device
  whatsoever is some \<open>hw\<close>, and a theorem for all \<open>hw\<close> holds for all of them.
\<close>

section \<open>Accesses and histories\<close>

datatype io_event =
    Rd u32 u32 u32       \<comment> \<open>base, register number, value read\<close>
  | Wr u32 u32 u32       \<comment> \<open>base, register number, value written\<close>
  | BusySleep u32        \<comment> \<open>\<open>alt_busy_sleep (us)\<close>\<close>

type_synonym trace = "io_event list"

type_synonym hw = "trace \<Rightarrow> u32 \<Rightarrow> u32 \<Rightarrow> u32"

definition IORD :: "hw \<Rightarrow> u32 \<Rightarrow> u32 \<Rightarrow> trace \<Rightarrow> u32 \<times> trace" where
  "IORD hw base reg t = (let v = hw t base reg in (v, Rd base reg v # t))"

definition IOWR :: "u32 \<Rightarrow> u32 \<Rightarrow> u32 \<Rightarrow> trace \<Rightarrow> trace" where
  "IOWR base reg data t = Wr base reg data # t"

definition IORMW :: "hw \<Rightarrow> u32 \<Rightarrow> u32 \<Rightarrow> u32 \<Rightarrow> u32 \<Rightarrow> trace \<Rightarrow> trace" where
  "IORMW hw base reg data msk t =
     (let (v, t1) = IORD hw base reg t
      in IOWR base reg ((v AND NOT msk) OR (data AND msk)) t1)"

definition alt_busy_sleep_ev :: "u32 \<Rightarrow> trace \<Rightarrow> trace" where
  "alt_busy_sleep_ev us t = BusySleep us # t"

section \<open>The log of one register\<close>

text \<open>
  \<open>wr_log base reg t\<close> is the list of the values written to a register, oldest first;
  \<open>rd_log base reg t\<close> the values read from it.
\<close>

fun wr_log :: "u32 \<Rightarrow> u32 \<Rightarrow> trace \<Rightarrow> u32 list" where
  "wr_log base reg [] = []"
| "wr_log base reg (Wr b r v # t) =
     wr_log base reg t @ (if b = base \<and> r = reg then [v] else [])"
| "wr_log base reg (Rd b r v # t) = wr_log base reg t"
| "wr_log base reg (BusySleep us # t) = wr_log base reg t"

fun rd_log :: "u32 \<Rightarrow> u32 \<Rightarrow> trace \<Rightarrow> u32 list" where
  "rd_log base reg [] = []"
| "rd_log base reg (Rd b r v # t) =
     rd_log base reg t @ (if b = base \<and> r = reg then [v] else [])"
| "rd_log base reg (Wr b r v # t) = rd_log base reg t"
| "rd_log base reg (BusySleep us # t) = rd_log base reg t"

lemma wr_log_append: "wr_log base reg (d @ t) = wr_log base reg t @ wr_log base reg d"
  by (induction base reg d rule: wr_log.induct) auto

lemma rd_log_append: "rd_log base reg (d @ t) = rd_log base reg t @ rd_log base reg d"
  by (induction base reg d rule: rd_log.induct) auto

lemma fst_IORD [simp]: "fst (IORD hw base reg t) = hw t base reg"
  by (simp add: IORD_def Let_def)

lemma snd_IORD [simp]: "snd (IORD hw base reg t) = Rd base reg (hw t base reg) # t"
  by (simp add: IORD_def Let_def)

lemma IORMW_eq:
  "IORMW hw base reg data msk t =
     Wr base reg ((hw t base reg AND NOT msk) OR (data AND msk)) # Rd base reg (hw t base reg) # t"
  by (simp add: IORMW_def IORD_def IOWR_def Let_def)

text \<open>A read-modify-write keeps the bits outside the mask and takes the bits inside it.\<close>

lemma rmw_bit:
  fixes v d m :: "'a::len word"
  shows "bit ((v AND NOT m) OR (d AND m)) n = (if bit m n then bit d n else bit v n)"
  by (cases "n < LENGTH('a)")
     (auto simp: bit_simps dest: bit_imp_le_length)

section \<open>Registers that store\<close>

text \<open>
  The last value written to a register, and the documented behaviour of a read/write register:
  the bits \<open>msk\<close> read as they were last written. It is a hypothesis on \<open>hw\<close> of the theorems
  that need it.
\<close>

fun last_wr :: "u32 \<Rightarrow> u32 \<Rightarrow> trace \<Rightarrow> u32 option" where
  "last_wr base reg [] = None"
| "last_wr base reg (Wr b r v # t) = (if b = base \<and> r = reg then Some v else last_wr base reg t)"
| "last_wr base reg (Rd b r v # t) = last_wr base reg t"
| "last_wr base reg (BusySleep us # t) = last_wr base reg t"

definition stores :: "hw \<Rightarrow> u32 \<Rightarrow> u32 \<Rightarrow> u32 \<Rightarrow> bool" where
  "stores hw base reg msk \<longleftrightarrow>
     (\<forall>t v. last_wr base reg t = Some v \<longrightarrow> hw t base reg AND msk = v AND msk)"

lemma storesD: "stores hw base reg msk \<Longrightarrow> last_wr base reg t = Some v \<Longrightarrow>
    hw t base reg AND msk = v AND msk"
  by (simp add: stores_def)

lemma stores_sub:
  assumes "stores hw base reg msk" "last_wr base reg t = Some v" "m AND NOT msk = 0"
  shows "hw t base reg AND m = v AND m"
proof (rule bit_eqI)
  fix n
  have a: "bit (hw t base reg AND msk) n = bit (v AND msk) n"
    using storesD[OF assms(1,2)] by simp
  have b: "bit m n \<Longrightarrow> bit msk n"
    using arg_cong[OF assms(3), of "\<lambda>x. bit x n"] bit_imp_le_length[of m n]
    by (auto simp: bit_and_iff bit_not_iff)
  show "bit (hw t base reg AND m) n = bit (v AND m) n"
    using a b by (auto simp: bit_and_iff)
qed

text \<open>A register file: every register reads as it was last written, 0 before. Witnesses use it.\<close>

definition regfile :: hw where
  "regfile t base reg = (case last_wr base reg t of None \<Rightarrow> 0 | Some v \<Rightarrow> v)"

lemma stores_regfile: "stores regfile base reg msk"
  by (simp add: stores_def regfile_def)

section \<open>The access history as a part of a state\<close>

text \<open>
  Every stateful component extends \<open>io_state\<close>, so the register accesses below apply to the
  state of each of them.
\<close>

record io_state =
  io :: trace

definition iord :: "hw \<Rightarrow> u32 \<Rightarrow> u32 \<Rightarrow> 'a io_state_scheme \<Rightarrow> u32 \<times> 'a io_state_scheme" where
  "iord hw base reg w = (let (v, t) = IORD hw base reg (io w) in (v, w\<lparr>io := t\<rparr>))"

definition iowr :: "u32 \<Rightarrow> u32 \<Rightarrow> u32 \<Rightarrow> 'a io_state_scheme \<Rightarrow> 'a io_state_scheme" where
  "iowr base reg data w = w\<lparr>io := IOWR base reg data (io w)\<rparr>"

definition iormw :: "hw \<Rightarrow> u32 \<Rightarrow> u32 \<Rightarrow> u32 \<Rightarrow> u32 \<Rightarrow> 'a io_state_scheme \<Rightarrow> 'a io_state_scheme" where
  "iormw hw base reg data msk w = w\<lparr>io := IORMW hw base reg data msk (io w)\<rparr>"

definition busy_sleep :: "u32 \<Rightarrow> 'a io_state_scheme \<Rightarrow> 'a io_state_scheme" where
  "busy_sleep us w = w\<lparr>io := alt_busy_sleep_ev us (io w)\<rparr>"

lemma iord_eq:
  "iord hw base reg w = (hw (io w) base reg, w\<lparr>io := Rd base reg (hw (io w) base reg) # io w\<rparr>)"
  by (simp add: iord_def IORD_def Let_def)

lemma iowr_eq: "iowr base reg data w = w\<lparr>io := Wr base reg data # io w\<rparr>"
  by (simp add: iowr_def IOWR_def)

lemma busy_sleep_eq: "busy_sleep us w = w\<lparr>io := BusySleep us # io w\<rparr>"
  by (simp add: busy_sleep_def alt_busy_sleep_ev_def)

lemma iormw_eq:
  "iormw hw base reg data msk w =
     w\<lparr>io := Wr base reg ((hw (io w) base reg AND NOT msk) OR (data AND msk))
              # Rd base reg (hw (io w) base reg) # io w\<rparr>"
  by (simp add: iormw_def IORMW_eq)

lemmas io_eqs = iord_eq iowr_eq iormw_eq busy_sleep_eq

section \<open>The writes of a step\<close>

text \<open>
  \<open>wrs\<close> is the list of all register writes of a history, oldest first, as base, register and
  value. \<open>emits w w' ws\<close> says that a step from \<open>w\<close> to \<open>w'\<close> changes nothing but the history, and
  that the writes it adds are exactly \<open>ws\<close>.
\<close>

fun wrs :: "trace \<Rightarrow> (u32 \<times> u32 \<times> u32) list" where
  "wrs [] = []"
| "wrs (Wr b r v # t) = wrs t @ [(b, r, v)]"
| "wrs (Rd b r v # t) = wrs t"
| "wrs (BusySleep us # t) = wrs t"

lemma wrs_append [simp]: "wrs (d @ t) = wrs t @ wrs d"
  by (induction d rule: wrs.induct) auto

text \<open>
  Some registers change the device when they are read (a receive FIFO). The set \<open>R\<close> holds the
  registers the step does not read.
\<close>

fun reads_reg :: "u32 set \<Rightarrow> io_event \<Rightarrow> bool" where
  "reads_reg R (Rd b r v) \<longleftrightarrow> r \<in> R"
| "reads_reg R (Wr b r v) \<longleftrightarrow> False"
| "reads_reg R (BusySleep us) \<longleftrightarrow> False"

definition emits ::
  "u32 set \<Rightarrow> 'a io_state_scheme \<Rightarrow> 'a io_state_scheme \<Rightarrow> (u32 \<times> u32 \<times> u32) list \<Rightarrow> bool" where
  "emits R w w' ws \<longleftrightarrow>
     (\<exists>d. w' = w\<lparr>io := d @ io w\<rparr> \<and> wrs d = ws \<and> (\<forall>e\<in>set d. \<not> reads_reg R e))"

named_theorems emits_intros \<open>the writes of each operation\<close>

lemma emits_refl [emits_intros]: "emits R w w []"
  unfolding emits_def by (rule exI[of _ "[]"]) simp

lemma emits_trans: "emits R w w1 a \<Longrightarrow> emits R w1 w2 b \<Longrightarrow> emits R w w2 (a @ b)"
  unfolding emits_def
  by (elim exE conjE, rule_tac x = "da @ d" in exI) auto

lemma emits_wrs: "emits R w w' ws \<Longrightarrow> wrs (io w') = wrs (io w) @ ws"
  by (auto simp: emits_def)

lemma emits_iord [emits_intros]: "r \<notin> R \<Longrightarrow> emits R w (snd (iord hw b r w)) []"
  unfolding emits_def by (rule exI[of _ "[Rd b r (hw (io w) b r)]"]) (simp add: iord_eq)

lemma emits_iowr [emits_intros]: "emits R w (iowr b r v w) [(b, r, v)]"
  unfolding emits_def by (rule exI[of _ "[Wr b r v]"]) (simp add: iowr_eq)

lemma emits_iormw [emits_intros]:
  "r \<notin> R \<Longrightarrow> emits R w (iormw hw b r v m w) [(b, r, (hw (io w) b r AND NOT m) OR (v AND m))]"
  unfolding emits_def
  by (rule exI[of _ "[Wr b r ((hw (io w) b r AND NOT m) OR (v AND m)), Rd b r (hw (io w) b r)]"])
     (simp add: iormw_eq)

lemma emits_busy_sleep [emits_intros]: "emits R w (busy_sleep us w) []"
  unfolding emits_def by (rule exI[of _ "[BusySleep us]"]) (simp add: busy_sleep_eq)

text \<open>The logs of single registers, from the list of writes.\<close>

lemma wr_log_wrs:
  "wr_log b r t = map (\<lambda>(b', r', v). v) (filter (\<lambda>(b', r', v). b' = b \<and> r' = r) (wrs t))"
  by (induction b r t rule: wr_log.induct) auto

lemma rd_log_quiet: "\<forall>e\<in>set d. \<not> reads_reg R e \<Longrightarrow> r \<in> R \<Longrightarrow> rd_log b r d = []"
  by (induction b r d rule: rd_log.induct) auto

lemma last_wr_log:
  "last_wr b r t = (if wr_log b r t = [] then None else Some (last (wr_log b r t)))"
  by (induction b r t rule: wr_log.induct) auto

end
