(* ===== verification/IrqCtl.thy ===== *)
theory IrqCtl
  imports Mmio
begin

text \<open>
  Interrupts of the Nios V core (\<open>HAL/inc/sys/alt_irq.h\<close>, \<open>intel_niosv.h\<close>,
  \<open>alt_iic_isr_register.c\<close>, \<open>alt_iic.c\<close>, \<open>alt_irq_handler.c\<close>, \<open>intel_niosv_irq.c\<close>,
  \<open>alt_instruction_exception_register.c\<close>, \<open>alt_ecc_exception.c\<close>). The state is the two control
  registers the code writes, the handler table and the handler pointers. Pointers are 32-bit
  words with 0 for NULL. The table is a function of an integer index, so that an access outside
  the array is visible as an access to another slot. What a handler does is code outside this
  component: a parameter \<open>run\<close>.
\<close>

section \<open>State\<close>

record irq_slot =
  handler :: u32
  hcontext :: u32

record irq_state = io_state +
  mstatus :: u32
  mie :: u32
  alt_irq :: "int \<Rightarrow> irq_slot"
  timer_handler :: u32
  software_handler :: u32
  instruction_exception_handler :: u32
  ecc_exception_handler :: u32
  ebreaks :: nat

definition NIOSV_NIRQ :: u32 where [reg_defs]: "NIOSV_NIRQ = 16"

definition NIOSV_MSTATUS_MIE_MASK :: u32 where [reg_defs]: "NIOSV_MSTATUS_MIE_MASK = 0x8"

definition NIOSV_MIE_MASK :: u32 where [reg_defs]: "NIOSV_MIE_MASK = 0xFFFFFFFF"

definition NIOSV_MCAUSE_INTERRUPT_MASK :: u32 where
  [reg_defs]: "NIOSV_MCAUSE_INTERRUPT_MASK = 0x80000000"

definition NIOSV_SOFTWARE_IRQ :: u32 where [reg_defs]: "NIOSV_SOFTWARE_IRQ = 3"

definition NIOSV_TIMER_IRQ :: u32 where [reg_defs]: "NIOSV_TIMER_IRQ = 7"

definition NIOSV_ECC_EXCEPTION :: u32 where [reg_defs]: "NIOSV_ECC_EXCEPTION = 19"

section \<open>Masking interrupts\<close>

text \<open>\<open>irq > NIOSV_NIRQ - 1 ? -1 : irq + 16\<close>, with \<open>irq\<close> unsigned.\<close>

definition ALT_REMAP_IRQ_NUM :: "u32 \<Rightarrow> int" where
  "ALT_REMAP_IRQ_NUM irq = (if irq > NIOSV_NIRQ - 1 then -1 else sint (irq + 16))"

definition alt_irq_enabled :: "'a irq_state_scheme \<Rightarrow> u32" where
  "alt_irq_enabled w = mstatus w AND NIOSV_MSTATUS_MIE_MASK"

definition alt_irq_disable_all :: "'a irq_state_scheme \<Rightarrow> u32 \<times> 'a irq_state_scheme" where
  "alt_irq_disable_all w =
     (let context0 = mstatus w
      in (context0, w\<lparr>mstatus := mstatus w AND NOT NIOSV_MSTATUS_MIE_MASK\<rparr>))"

definition alt_irq_enable_all :: "u32 \<Rightarrow> 'a irq_state_scheme \<Rightarrow> 'a irq_state_scheme" where
  "alt_irq_enable_all context0 w =
     w\<lparr>mstatus := mstatus w OR (context0 AND NIOSV_MSTATUS_MIE_MASK)\<rparr>"

definition alt_irq_cpu_enable_interrupts :: "'a irq_state_scheme \<Rightarrow> 'a irq_state_scheme" where
  "alt_irq_cpu_enable_interrupts w = w\<lparr>mstatus := mstatus w OR NIOSV_MSTATUS_MIE_MASK\<rparr>"

definition alt_ic_irq_enable :: "u32 \<Rightarrow> u32 \<Rightarrow> 'a irq_state_scheme \<Rightarrow> int \<times> 'a irq_state_scheme" where
  "alt_ic_irq_enable ic_id irq w =
     (let rc = ALT_REMAP_IRQ_NUM irq
      in if rc < 0 then (rc, w)
         else (0, w\<lparr>mie := mie w OR push_bit (nat rc) 1\<rparr>))"

definition alt_ic_irq_disable :: "u32 \<Rightarrow> u32 \<Rightarrow> 'a irq_state_scheme \<Rightarrow> int \<times> 'a irq_state_scheme" where
  "alt_ic_irq_disable ic_id irq w =
     (let rc = ALT_REMAP_IRQ_NUM irq
      in if rc < 0 then (rc, w)
         else (0, w\<lparr>mie := mie w AND NOT (push_bit (nat rc) 1)\<rparr>))"

definition alt_ic_irq_enabled :: "u32 \<Rightarrow> u32 \<Rightarrow> 'a irq_state_scheme \<Rightarrow> u32" where
  "alt_ic_irq_enabled ic_id irq w =
     (let rc = ALT_REMAP_IRQ_NUM irq
      in if rc < 0 then 0 else mie w AND push_bit (nat rc) 1)"

definition alt_niosv_enable_timer_interrupt :: "'a irq_state_scheme \<Rightarrow> 'a irq_state_scheme" where
  "alt_niosv_enable_timer_interrupt w =
     w\<lparr>mie := mie w OR push_bit (unat NIOSV_TIMER_IRQ) 1\<rparr>"

definition alt_niosv_disable_timer_interrupt :: "'a irq_state_scheme \<Rightarrow> 'a irq_state_scheme" where
  "alt_niosv_disable_timer_interrupt w =
     w\<lparr>mie := mie w AND NOT (push_bit (unat NIOSV_TIMER_IRQ) 1)\<rparr>"

definition alt_niosv_is_timer_interrupt_enabled :: "'a irq_state_scheme \<Rightarrow> u32" where
  "alt_niosv_is_timer_interrupt_enabled w = mie w AND push_bit (unat NIOSV_TIMER_IRQ) 1"

definition alt_niosv_register_mtimecmp_interrupt_handle ::
  "u32 \<Rightarrow> 'a irq_state_scheme \<Rightarrow> 'a irq_state_scheme" where
  "alt_niosv_register_mtimecmp_interrupt_handle handle w = w\<lparr>timer_handler := handle\<rparr>"

definition intel_niosv_irq_init :: "'a irq_state_scheme \<Rightarrow> 'a irq_state_scheme" where
  "intel_niosv_irq_init w = w\<lparr>mie := mie w AND NOT NIOSV_MIE_MASK\<rparr>"

section \<open>Registering a handler\<close>

text \<open>
  \<open>int id = irq\<close> reinterprets the unsigned number as signed, and only \<open>id < ALT_NIRQ\<close> is
  tested.
\<close>

definition alt_iic_isr_register ::
  "u32 \<Rightarrow> u32 \<Rightarrow> u32 \<Rightarrow> u32 \<Rightarrow> u32 \<Rightarrow> 'a irq_state_scheme \<Rightarrow> int \<times> 'a irq_state_scheme" where
  "alt_iic_isr_register ic_id irq isr isr_context flags w =
     (let id0 = sint irq
      in if id0 < sint NIOSV_NIRQ then
           (let (status, w1) = alt_irq_disable_all w;
                w2 = w1\<lparr>alt_irq := (alt_irq w1)(id0 := \<lparr>handler = isr, hcontext = isr_context\<rparr>)\<rparr>;
                (rc, w3) = (if isr \<noteq> 0 then alt_ic_irq_enable ic_id (word_of_int id0) w2
                            else alt_ic_irq_disable ic_id (word_of_int id0) w2);
                w4 = alt_irq_enable_all status w3
            in (rc, w4))
         else (- EINVAL, w))"

definition alt_ic_isr_register ::
  "u32 \<Rightarrow> u32 \<Rightarrow> u32 \<Rightarrow> u32 \<Rightarrow> u32 \<Rightarrow> 'a irq_state_scheme \<Rightarrow> int \<times> 'a irq_state_scheme" where
  "alt_ic_isr_register ic_id irq isr isr_context flags w =
     alt_iic_isr_register ic_id irq isr isr_context flags w"

definition alt_instruction_exception_register ::
  "u32 \<Rightarrow> 'a irq_state_scheme \<Rightarrow> 'a irq_state_scheme" where
  "alt_instruction_exception_register exception_handler w =
     w\<lparr>instruction_exception_handler := exception_handler\<rparr>"

text \<open>The cache flush that follows the store changes no value the program reads.\<close>

definition alt_ecc_exception_register :: "u32 \<Rightarrow> 'a irq_state_scheme \<Rightarrow> 'a irq_state_scheme" where
  "alt_ecc_exception_register h w = w\<lparr>ecc_exception_handler := h\<rparr>"

section \<open>Dispatching\<close>

definition alt_irq_pending :: "u32 \<Rightarrow> 'a irq_state_scheme \<Rightarrow> u32" where
  "alt_irq_pending mip w = drop_bit 16 (mip AND mie w)"

text \<open>
  The inner loop tests one bit after the other and has no exit when none is set: \<open>None\<close> is a
  loop that does not end.
\<close>

partial_function (option) scan_active :: "u32 \<Rightarrow> u32 \<Rightarrow> u32 \<Rightarrow> u32 option" where
  "scan_active active msk i =
     (if active AND msk \<noteq> 0 then Some i else scan_active active (push_bit 1 msk) (i + 1))"

text \<open>
  \<open>mip\<close> gives the pending lines in a state of the system, \<open>run h c\<close> is the effect of the handler
  at address \<open>h\<close> called with context \<open>c\<close>. A call through a NULL pointer is \<open>None\<close>.
\<close>

partial_function (option) alt_irq_dispatch ::
  "('a irq_state_scheme \<Rightarrow> u32) \<Rightarrow> (u32 \<Rightarrow> u32 \<Rightarrow> 'a irq_state_scheme \<Rightarrow> 'a irq_state_scheme)
    \<Rightarrow> u32 \<Rightarrow> 'a irq_state_scheme \<Rightarrow> 'a irq_state_scheme option" where
  "alt_irq_dispatch mip run active w =
     (case scan_active active 1 0 of
        None \<Rightarrow> None
      | Some i \<Rightarrow>
          (let s = alt_irq w (uint i)
           in if handler s = 0 then None
              else (let w1 = run (handler s) (hcontext s) w;
                        active1 = alt_irq_pending (mip w1) w1
                    in if active1 \<noteq> 0 then alt_irq_dispatch mip run active1 w1 else Some w1)))"

definition alt_irq_handler ::
  "('a irq_state_scheme \<Rightarrow> u32) \<Rightarrow> (u32 \<Rightarrow> u32 \<Rightarrow> 'a irq_state_scheme \<Rightarrow> 'a irq_state_scheme)
    \<Rightarrow> 'a irq_state_scheme \<Rightarrow> 'a irq_state_scheme option" where
  "alt_irq_handler mip run w = alt_irq_dispatch mip run (alt_irq_pending (mip w) w) w"

text \<open>
  The build options the trap handler depends on: \<open>ALT_INCLUDE_INSTRUCTION_RELATED_EXCEPTION_API\<close>,
  \<open>ALT_CPU_ECC_PRESENT\<close>, \<open>ALT_CPU_HAS_DEBUG_STUB\<close>. This board's \<open>system.h\<close> defines only the last.
\<close>

record trap_config =
  exception_api :: bool
  ecc_present :: bool
  debug_stub :: bool

definition board_trap_config :: trap_config where
  "board_trap_config = \<lparr>exception_api = False, ecc_present = False, debug_stub = True\<rparr>"

definition is_ecc_handler_present :: "trap_config \<Rightarrow> u32 \<Rightarrow> 'a irq_state_scheme \<Rightarrow> u32" where
  "is_ecc_handler_present cfg e_code w =
     (if ecc_present cfg
      then (if e_code = NIOSV_ECC_EXCEPTION \<and> ecc_exception_handler w \<noteq> 0 then 1 else 0)
      else 0)"

text \<open>\<open>EBREAK\<close> enters the debugger; without a debug stub the core stays in an empty loop.\<close>

definition break_operation :: "trap_config \<Rightarrow> 'a irq_state_scheme \<Rightarrow> 'a irq_state_scheme option" where
  "break_operation cfg w = (if debug_stub cfg then Some (w\<lparr>ebreaks := Suc (ebreaks w)\<rparr>) else None)"

text \<open>
  \<open>run3\<close> is the effect of a timer or software interrupt handler called with
  \<open>cause\<close>, \<open>epc\<close> and \<open>tval\<close>; \<open>run_exn\<close> that of the instruction exception handler, with its result
  (0 is \<open>NIOSV_EXCEPTION_RETURN_REISSUE_INST\<close>).
\<close>

definition handle_trap ::
  "trap_config \<Rightarrow> ('a irq_state_scheme \<Rightarrow> u32)
    \<Rightarrow> (u32 \<Rightarrow> u32 \<Rightarrow> 'a irq_state_scheme \<Rightarrow> 'a irq_state_scheme)
    \<Rightarrow> (u32 \<Rightarrow> u32 \<Rightarrow> u32 \<Rightarrow> u32 \<Rightarrow> 'a irq_state_scheme \<Rightarrow> 'a irq_state_scheme)
    \<Rightarrow> (u32 \<Rightarrow> u32 \<Rightarrow> u32 \<Rightarrow> u32 \<Rightarrow> 'a irq_state_scheme \<Rightarrow> u32 \<times> 'a irq_state_scheme)
    \<Rightarrow> u32 \<Rightarrow> u32 \<Rightarrow> u32 \<Rightarrow> 'a irq_state_scheme \<Rightarrow> (u32 \<times> 'a irq_state_scheme) option" where
  "handle_trap cfg mip run run3 run_exn cause epc tval w =
     (let is_irq = cause AND NIOSV_MCAUSE_INTERRUPT_MASK;
          exception_code = cause AND NOT NIOSV_MCAUSE_INTERRUPT_MASK
      in if is_irq \<noteq> 0 then
           (if exception_code = NIOSV_TIMER_IRQ then
              Some (epc, if timer_handler w \<noteq> 0 then run3 (timer_handler w) cause epc tval w else w)
            else if exception_code = NIOSV_SOFTWARE_IRQ then
              Some (epc, if software_handler w \<noteq> 0
                         then run3 (software_handler w) cause epc tval w else w)
            else if exception_code \<ge> 16 then
              map_option (\<lambda>w1. (epc, w1)) (alt_irq_handler mip run w)
            else Some (epc, w))
         else if exception_api cfg \<and> instruction_exception_handler w \<noteq> 0 then
           (let (handler_rc, w1) =
                  run_exn (instruction_exception_handler w) exception_code epc tval w
            in Some (if handler_rc = 0 then epc else epc + 4, w1))
         else if is_ecc_handler_present cfg exception_code w = 0 then
           map_option (\<lambda>w1. (epc, w1)) (break_operation cfg w)
         else Some (epc, w))"

section \<open>The interrupt lock\<close>

text \<open>
  The interface the drivers use for critical sections: a lock that returns a context, an unlock
  that takes it back. Whatever is done between the two under the mask, the unlock gives back
  the interrupt state from before the lock, also when sections are nested.
\<close>

locale irq_lock =
  fixes lock :: "'s \<Rightarrow> 'c \<times> 's"
    and unlock :: "'c \<Rightarrow> 's \<Rightarrow> 's"
    and masked :: "'s \<Rightarrow> bool"
    and rest :: "'s \<Rightarrow> 'r"
  assumes masked_lock: "masked (snd (lock s))"
    and unlock_restores: "masked t \<Longrightarrow> masked (unlock (fst (lock s)) t) = masked s"
    and rest_lock: "rest (snd (lock s)) = rest s"
    and rest_unlock: "rest (unlock c s) = rest s"
begin

lemma section_restores:
  assumes "\<And>t. masked t \<Longrightarrow> masked (f t)"
  shows "masked (unlock (fst (lock s)) (f (snd (lock s)))) = masked s"
  using assms masked_lock unlock_restores by blast

lemma section_rest:
  assumes "\<And>t. masked t \<Longrightarrow> rest (f t) = rest t"
  shows "rest (unlock (fst (lock s)) (f (snd (lock s)))) = rest s"
  using assms masked_lock rest_lock rest_unlock by metis

lemma nested_section_masked:
  assumes "\<And>t. masked t \<Longrightarrow> masked (f t)" and "masked s"
  shows "masked (unlock (fst (lock s)) (f (snd (lock s))))"
  using assms section_restores by blast

end

definition irqs_masked :: "'a irq_state_scheme \<Rightarrow> bool" where
  "irqs_masked w \<longleftrightarrow> alt_irq_enabled w = 0"

lemma MIE_mask: "NIOSV_MSTATUS_MIE_MASK = push_bit 3 1"
  by (simp add: NIOSV_MSTATUS_MIE_MASK_def)

lemma MIE_bit [simp]: "bit NIOSV_MSTATUS_MIE_MASK n \<longleftrightarrow> n = 3"
  unfolding MIE_mask bit_push_bit_one by simp

lemma irqs_masked_bit: "irqs_masked w \<longleftrightarrow> \<not> bit (mstatus w) 3"
  unfolding irqs_masked_def alt_irq_enabled_def MIE_mask by (rule and_push_bit_one_eq_0)

interpretation cpu_lock: irq_lock
  "alt_irq_disable_all :: 'a irq_state_scheme \<Rightarrow> _" alt_irq_enable_all irqs_masked
  "\<lambda>w. mstatus_update (\<lambda>_. 0) w"
proof unfold_locales
  fix s t :: "'a irq_state_scheme" and c
  show "irqs_masked (snd (alt_irq_disable_all s))"
    by (simp add: alt_irq_disable_all_def irqs_masked_bit bit_simps)
  show "irqs_masked t \<Longrightarrow>
    irqs_masked (alt_irq_enable_all (fst (alt_irq_disable_all s)) t) = irqs_masked s"
    by (simp add: alt_irq_disable_all_def alt_irq_enable_all_def irqs_masked_bit bit_simps)
  show "snd (alt_irq_disable_all s)\<lparr>mstatus := 0\<rparr> = s\<lparr>mstatus := 0\<rparr>"
    by (simp add: alt_irq_disable_all_def)
  show "(alt_irq_enable_all c s)\<lparr>mstatus := 0\<rparr> = s\<lparr>mstatus := 0\<rparr>"
    by (simp add: alt_irq_enable_all_def)
qed

text \<open>The exact register value comes back when the section does not write \<open>mstatus\<close>.\<close>

lemma mstatus_restored: "(m AND NOT NIOSV_MSTATUS_MIE_MASK) OR (m AND NIOSV_MSTATUS_MIE_MASK) = m"
  by (rule bit_eqI) (auto simp: bit_simps)

section \<open>Registration\<close>

lemma NIRQ_less_signed: "irq < 16 \<Longrightarrow> (irq::u32) < 0x80000000"
  by (simp add: word_less_nat_alt)

lemma remap_valid:
  assumes "irq < 16"
  shows "ALT_REMAP_IRQ_NUM irq = uint irq + 16"
proof -
  have n: "unat irq < 16"
    using assms by (simp add: word_less_nat_alt)
  then have u: "unat (irq + 16) = unat irq + 16"
    by (subst unat_add_lem[THEN iffD1]) simp_all
  then have "irq + 16 < 0x80000000"
    using n by (simp add: word_less_nat_alt)
  moreover have "uint (irq + 16) = uint irq + 16"
    using arg_cong[OF u, of int] by simp
  ultimately show ?thesis
    using n by (simp add: ALT_REMAP_IRQ_NUM_def NIOSV_NIRQ_def word_less_nat_alt sint_small)
qed

lemma remap_invalid: "\<not> irq < 16 \<Longrightarrow> ALT_REMAP_IRQ_NUM irq = -1"
  by (simp add: ALT_REMAP_IRQ_NUM_def NIOSV_NIRQ_def word_less_nat_alt)

lemma isr_register_valid:
  assumes "irq < 16"
  shows "alt_iic_isr_register ic irq isr c flags w =
    (0, w\<lparr>mie := (if isr \<noteq> 0 then mie w OR push_bit (unat irq + 16) 1
                  else mie w AND NOT (push_bit (unat irq + 16) 1)),
          alt_irq := (alt_irq w)(uint irq := \<lparr>handler = isr, hcontext = c\<rparr>)\<rparr>)"
proof -
  have id0: "sint irq = uint irq" by (simp add: sint_small NIRQ_less_signed assms)
  have "uint irq < sint NIOSV_NIRQ"
    using assms by (simp add: NIOSV_NIRQ_def word_less_def)
  moreover have "nat (uint irq + 16) = unat irq + 16"
    by (simp add: nat_add_distrib)
  moreover have "0 \<le> uint irq + 16" by simp
  ultimately show ?thesis
    using remap_valid[OF assms]
    unfolding alt_iic_isr_register_def Let_def id0
    by (auto simp: alt_irq_disable_all_def alt_irq_enable_all_def alt_ic_irq_enable_def
        alt_ic_irq_disable_def mstatus_restored Let_def)
qed

lemma isr_register_out_of_range:
  assumes "\<not> irq < 16" "irq < 0x80000000"
  shows "alt_iic_isr_register ic irq isr c flags w = (- EINVAL, w)"
  using assms by (simp add: alt_iic_isr_register_def sint_small NIOSV_NIRQ_def word_less_def
      Let_def)

text \<open>
  Registering an interrupt handler for a valid interrupt number of the core returns 0,
  stores handler and context in that slot of the table and no other, enables exactly that line
  (disables it for a NULL handler) and leaves the global interrupt enable as it was; a number
  from 16 to \<open>INT_MAX\<close> is refused with \<open>-EINVAL\<close> and changes nothing.
\<close>

theorem isr_register_correct:
  assumes "irq < 0x80000000"
    and "alt_ic_isr_register ic irq isr c flags w = (rc, w')"
  shows "if irq < 16
    then rc = 0
       \<and> alt_irq w' = (alt_irq w)(uint irq := \<lparr>handler = isr, hcontext = c\<rparr>)
       \<and> (\<forall>n. bit (mie w') n = (if n = unat irq + 16 then isr \<noteq> 0 else bit (mie w) n))
       \<and> mstatus w' = mstatus w \<and> io w' = io w
    else rc = - EINVAL \<and> w' = w"
proof (cases "irq < 16")
  case True
  then have "unat irq + 16 < 32" by (simp add: word_less_nat_alt)
  with isr_register_valid[OF True, of ic isr c flags w] assms True show ?thesis
    by (cases "isr = 0") (simp_all add: alt_ic_isr_register_def, force+)
next
  case False
  from isr_register_out_of_range[OF this assms(1), of ic isr c flags w] assms False show ?thesis
    by (simp add: alt_ic_isr_register_def)
qed

definition boot_irq_state :: irq_state where
  "boot_irq_state = \<lparr>io = [], mstatus = 0, mie = 0,
     alt_irq = (\<lambda>_. \<lparr>handler = 0, hcontext = 0\<rparr>), timer_handler = 0, software_handler = 0,
     instruction_exception_handler = 0, ecc_exception_handler = 0, ebreaks = 0\<rparr>"

theorem isr_register_correct_witness:
  "fst (alt_ic_isr_register 0 3 0x100 0x200 0 boot_irq_state) = 0
   \<and> bit (mie (snd (alt_ic_isr_register 0 3 0x100 0x200 0 boot_irq_state))) 19"
  using isr_register_correct[of 3 0 "0x100" "0x200" 0 boot_irq_state
      "fst (alt_ic_isr_register 0 3 0x100 0x200 0 boot_irq_state)"
      "snd (alt_ic_isr_register 0 3 0x100 0x200 0 boot_irq_state)"]
  by simp

lemma isr_register_below:
  assumes "0x80000000 \<le> irq"
  shows "alt_ic_isr_register ic irq isr c flags w =
    (-1, w\<lparr>alt_irq := (alt_irq w)(uint irq - 2 ^ 32 := \<lparr>handler = isr, hcontext = c\<rparr>)\<rparr>)
    \<and> uint irq - 2 ^ 32 < 0"
proof -
  have id0: "sint irq = uint irq - 2 ^ 32" using sint_big[OF assms] .
  have lt: "uint irq - 2 ^ 32 < sint NIOSV_NIRQ"
    using uint_bound_32[of irq] by (simp add: NIOSV_NIRQ_def del: uint_bounded)
  have w: "word_of_int (uint irq - 2 ^ 32) = irq"
    unfolding id0[symmetric] by simp
  have r: "ALT_REMAP_IRQ_NUM irq = -1"
    using assms by (intro remap_invalid) (simp add: word_less_nat_alt word_le_nat_alt)
  show ?thesis
    using lt uint_bound_32[of irq] r
    unfolding alt_ic_isr_register_def alt_iic_isr_register_def Let_def id0 w
    by (auto simp: alt_irq_disable_all_def alt_irq_enable_all_def alt_ic_irq_enable_def
        alt_ic_irq_disable_def mstatus_restored Let_def w)
qed

text \<open>
  A number with the top bit set passes the range test as a negative table index: the store
  goes to a slot before the table, no line is enabled, and the only trace of it is the result
  -1. The boot code of this board does it: \<open>I2C_0_IRQ\<close> is -1.
\<close>

theorem isr_register_negative_index:
  assumes "0x80000000 \<le> irq"
  shows "alt_ic_isr_register ic irq isr c flags w =
    (-1, w\<lparr>alt_irq := (alt_irq w)(uint irq - 2 ^ 32 := \<lparr>handler = isr, hcontext = c\<rparr>)\<rparr>)
    \<and> uint irq - 2 ^ 32 < 0"
  using isr_register_below[OF assms] .

theorem isr_register_negative_index_witness:
  "alt_irq (snd (alt_ic_isr_register 0 0xFFFFFFFF 0x100 0x200 0 boot_irq_state)) (-1)
     = \<lparr>handler = 0x100, hcontext = 0x200\<rparr>"
  using isr_register_negative_index[of "0xFFFFFFFF" 0 "0x100" "0x200" 0 boot_irq_state]
  by simp

section \<open>Dispatching\<close>

text \<open>The numbers of the lines set in a word, in increasing order.\<close>

definition pending_lines :: "u32 \<Rightarrow> nat list" where
  "pending_lines p = filter (bit p) [0..<32]"

lemma set_pending_lines: "set (pending_lines p) = {i. bit p i}"
  by (auto simp: pending_lines_def dest: bit_imp_le_length)

lemma pending_lines_empty: "pending_lines p = [] \<longleftrightarrow> p = 0"
proof -
  have "pending_lines p = [] \<longleftrightarrow> (\<forall>i. \<not> bit p i)"
    using set_pending_lines[of p] by (metis Collect_empty_eq set_empty)
  then show ?thesis by (metis bit_0_eq bit_eqI bot_apply bot_bool_def)
qed

lemma pending_lines_Cons:
  assumes "bit p i" "\<forall>j<i. \<not> bit p j"
  shows "pending_lines p = i # pending_lines (p AND NOT (push_bit i 1))"
proof -
  have i: "i < 32" using assms(1) by (auto dest: bit_imp_le_length)
  then have split: "[0..<32] = [0..<i] @ i # [Suc i..<32]"
    using upt_add_eq_append[of 0 i "32 - i"] upt_conv_Cons[of i 32] by simp
  have a: "filter (bit p) [0..<i] = []"
    using assms(2) by (simp add: filter_empty_conv)
  have b: "filter (bit (p AND NOT (2 ^ i))) [0..<i] = []"
    using assms(2) by (simp add: filter_empty_conv)
  have c: "filter (bit (p AND NOT (2 ^ i))) [Suc i..<32] = filter (bit p) [Suc i..<32]"
    by (rule filter_cong) auto
  show ?thesis
    unfolding pending_lines_def split using assms(1) a b c by simp
qed

lemma scan_step:
  "k < 32 \<Longrightarrow> scan_active a (push_bit k 1) (of_nat k) =
     (if bit a k then Some (of_nat k) else scan_active a (push_bit (Suc k) 1) (of_nat (Suc k)))"
  by (subst scan_active.simps)
     (simp only: and_push_bit_one_eq_0 push_bit_push_bit of_nat_Suc add.commute plus_1_eq_Suc simp_thms if_not_P
        split: if_split)

lemma scan_finds:
  assumes "bit a i" "k \<le> i" "\<forall>j. k \<le> j \<and> j < i \<longrightarrow> \<not> bit a j"
  shows "scan_active a (push_bit k 1) (of_nat k) = Some (of_nat i)"
  using assms(2,3)
proof (induction "i - k" arbitrary: k)
  case 0
  moreover have "i < 32" using assms(1) by (auto dest: bit_imp_le_length)
  ultimately show ?case using assms(1) by (simp only: scan_step) simp
next
  case (Suc d)
  then have k: "k < i" "\<not> bit a k" by auto
  moreover have "i < 32" using assms(1) by (auto dest: bit_imp_le_length)
  ultimately have "scan_active a (push_bit k 1) (of_nat k)
      = scan_active a (push_bit (Suc k) 1) (of_nat (Suc k))"
    by (simp only: scan_step) simp
  also have "\<dots> = Some (of_nat i)"
    using Suc k by (intro Suc.hyps(1)) auto
  finally show ?case .
qed

lemma lowest_bit: "(a::u32) \<noteq> 0 \<Longrightarrow> \<exists>i. bit a i \<and> (\<forall>j<i. \<not> bit a j)"
  by (metis bit_0_eq bit_eqI bot_apply bot_bool_def exists_least_iff)

lemma scan_lowest:
  assumes "bit a i" "\<forall>j<i. \<not> bit a j"
  shows "scan_active a 1 0 = Some (of_nat i)"
  using scan_finds[of a i 0] assms by simp

lemma scan_nothing: "scan_active 0 msk i = None"
proof -
  have "a \<noteq> 0" if "scan_active a m j = Some r" for a m j r
  proof -
    from that show ?thesis
      by (rule scan_active.raw_induct[where P="\<lambda>a m j r. a \<noteq> 0", rotated])
         (auto split: if_splits)
  qed
  then show ?thesis by (cases "scan_active 0 msk i") blast+
qed

text \<open>One round of the handler, with the line found.\<close>

lemma dispatch_round:
  assumes "bit active i" "\<forall>j<i. \<not> bit active j" "handler (alt_irq w (int i)) \<noteq> 0"
  shows "alt_irq_dispatch mip run active w =
    (let s = alt_irq w (int i); w1 = run (handler s) (hcontext s) w;
         active1 = alt_irq_pending (mip w1) w1
     in if active1 \<noteq> 0 then alt_irq_dispatch mip run active1 w1 else Some w1)"
proof -
  have "i < 32" using assms(1) by (auto dest: bit_imp_le_length)
  then have "i < 2 ^ 32" by simp
  then have "uint (of_nat i :: u32) = int i"
    by (simp add: unsigned_of_nat take_bit_nat_eq_self)
  then show ?thesis
    using assms(3) by (subst alt_irq_dispatch.simps) (simp add: scan_lowest[OF assms(1,2)] Let_def)
qed

lemma dispatch_all:
  assumes run_spec: "\<And>v i. alt_irq v = tab \<Longrightarrow> bit (alt_irq_pending (mip v) v) i \<Longrightarrow>
      alt_irq (run (handler (tab (int i))) (hcontext (tab (int i))) v) = tab
      \<and> alt_irq_pending (mip (run (handler (tab (int i))) (hcontext (tab (int i))) v))
          (run (handler (tab (int i))) (hcontext (tab (int i))) v)
        = alt_irq_pending (mip v) v AND NOT (push_bit i 1)"
    and tab: "alt_irq w = tab"
    and nonnull: "\<forall>i. bit p i \<longrightarrow> handler (tab (int i)) \<noteq> 0"
    and p: "p = alt_irq_pending (mip w) w" "p \<noteq> 0"
  shows "alt_irq_dispatch mip run p w =
     Some (fold (\<lambda>i. run (handler (tab (int i))) (hcontext (tab (int i)))) (pending_lines p) w)"
  using tab nonnull p
proof (induction "length (pending_lines p)" arbitrary: p w)
  case 0
  then show ?case by (simp add: pending_lines_empty)
next
  case (Suc n)
  obtain i where i: "bit p i" "\<forall>j<i. \<not> bit p j"
    using lowest_bit[OF Suc.prems(4)] by blast
  define w1 where "w1 = run (handler (tab (int i))) (hcontext (tab (int i))) w"
  have next_w: "alt_irq w1 = tab" "alt_irq_pending (mip w1) w1 = p AND NOT (push_bit i 1)"
    using run_spec[OF Suc.prems(1)] i(1) Suc.prems(3) unfolding w1_def by blast+
  have cons: "pending_lines p = i # pending_lines (p AND NOT (push_bit i 1))"
    using pending_lines_Cons[OF i] .
  have round: "alt_irq_dispatch mip run p w =
    (if p AND NOT (push_bit i 1) \<noteq> 0
     then alt_irq_dispatch mip run (p AND NOT (push_bit i 1)) w1 else Some w1)"
    using dispatch_round[OF i, of w mip run] Suc.prems(1,2) i(1) next_w
    by (simp add: Let_def w1_def)
  show ?case
  proof (cases "p AND NOT (push_bit i 1) = 0")
    case True
    then show ?thesis using round cons
      by (simp add: w1_def pending_lines_empty[THEN iffD2])
  next
    case False
    have "alt_irq_dispatch mip run (p AND NOT (push_bit i 1)) w1 =
      Some (fold (\<lambda>i. run (handler (tab (int i))) (hcontext (tab (int i))))
              (pending_lines (p AND NOT (push_bit i 1))) w1)"
      using Suc.hyps(2) Suc.prems(2) next_w False cons
      by (intro Suc.hyps(1)) (simp_all add: bit_simps)
    then show ?thesis using round cons False by (simp add: w1_def)
  qed
qed

text \<open>
  C20: When every handler acknowledges its own line and only that, and every pending line has a
  handler, the interrupt handler returns; it has called the handler of each line that was
  pending exactly once, with the context registered for it, lowest line number first, and
  nothing is pending when it returns.
\<close>

theorem irq_handler_services_all:
  assumes run_spec: "\<And>v i. alt_irq v = tab \<Longrightarrow> bit (alt_irq_pending (mip v) v) i \<Longrightarrow>
      alt_irq (run (handler (tab (int i))) (hcontext (tab (int i))) v) = tab
      \<and> alt_irq_pending (mip (run (handler (tab (int i))) (hcontext (tab (int i))) v))
          (run (handler (tab (int i))) (hcontext (tab (int i))) v)
        = alt_irq_pending (mip v) v AND NOT (push_bit i 1)"
    and "alt_irq w = tab"
    and "\<forall>i. bit (alt_irq_pending (mip w) w) i \<longrightarrow> handler (tab (int i)) \<noteq> 0"
    and "alt_irq_pending (mip w) w \<noteq> 0"
  shows "alt_irq_handler mip run w =
     Some (fold (\<lambda>i. run (handler (tab (int i))) (hcontext (tab (int i))))
             (pending_lines (alt_irq_pending (mip w) w)) w)"
  unfolding alt_irq_handler_def using assms by (intro dispatch_all) auto

text \<open>
  The concrete system of the witness: a register of pending lines, and handlers that log their
  address and acknowledge the line their context names.
\<close>

record demo_state = irq_state +
  demo_lines :: u32
  demo_calls :: "u32 list"

definition demo_mip :: "demo_state \<Rightarrow> u32" where
  "demo_mip w = demo_lines w"

definition demo_run :: "u32 \<Rightarrow> u32 \<Rightarrow> demo_state \<Rightarrow> demo_state" where
  "demo_run h c w = w\<lparr>demo_lines := demo_lines w AND NOT c,
     demo_calls := demo_calls w @ [h]\<rparr>"

definition demo_tab :: "int \<Rightarrow> irq_slot" where
  "demo_tab i = \<lparr>handler = word_of_int i + 1, hcontext = push_bit (nat i + 16) 1\<rparr>"

definition demo_irq_state :: demo_state where
  "demo_irq_state = irq_state.extend (boot_irq_state\<lparr>mie := 0xFFFFFFFF, alt_irq := demo_tab\<rparr>)
     \<lparr>demo_lines = 0x50000, demo_calls = []\<rparr>"

lemma demo_clear_line:
  fixes m e :: u32
  shows "drop_bit 16 ((m AND NOT (2 ^ (i + 16))) AND e) = drop_bit 16 (m AND e) AND NOT (2 ^ i)"
proof (rule bit_eqI)
  fix n
  show "bit (drop_bit 16 ((m AND NOT (2 ^ (i + 16))) AND e)) n
      = bit (drop_bit 16 (m AND e) AND NOT (2 ^ i)) n"
    using bit_imp_le_length[of m "16 + n"] by (auto simp: bit_simps)
qed

lemma bit_5: "bit (5::u32) i \<longleftrightarrow> i = 0 \<or> i = 2"
proof -
  have "(5::u32) = push_bit 0 1 OR push_bit 2 1" by simp
  then have "bit (5::u32) i \<longleftrightarrow> bit (push_bit 0 1 OR push_bit 2 1 :: u32) i" by simp
  then show ?thesis unfolding bit_or_iff bit_push_bit_one by simp
qed

theorem irq_handler_services_all_witness:
  "map_option demo_calls (alt_irq_handler demo_mip demo_run demo_irq_state) = Some [1, 3]"
proof -
  have p: "alt_irq_pending (demo_mip demo_irq_state) demo_irq_state = 5"
    by (simp add: alt_irq_pending_def demo_mip_def demo_irq_state_def boot_irq_state_def
        irq_state.extend_def)
  have "alt_irq_handler demo_mip demo_run demo_irq_state =
     Some (fold (\<lambda>i. demo_run (handler (demo_tab (int i))) (hcontext (demo_tab (int i))))
             (pending_lines (alt_irq_pending (demo_mip demo_irq_state) demo_irq_state))
             demo_irq_state)"
  proof (rule irq_handler_services_all)
    show "alt_irq demo_irq_state = demo_tab"
      by (simp add: demo_irq_state_def irq_state.extend_def)
    show "alt_irq_pending (demo_mip demo_irq_state) demo_irq_state \<noteq> 0" by (simp add: p)
    show "\<forall>i. bit (alt_irq_pending (demo_mip demo_irq_state) demo_irq_state) i \<longrightarrow>
        handler (demo_tab (int i)) \<noteq> 0"
      unfolding p bit_5 by (auto simp: demo_tab_def)
  qed (simp_all add: alt_irq_pending_def demo_mip_def demo_run_def demo_tab_def demo_clear_line
      del: drop_bit_and)
  then show ?thesis
    unfolding p by (simp add: pending_lines_def upt_conv_Cons demo_run_def demo_tab_def
        demo_irq_state_def irq_state.extend_def)
qed

text \<open>
  The interrupt handler must not be entered without a pending line: it then scans for ever
  for a bit that is not there.
\<close>

theorem irq_handler_spurious_diverges:
  "alt_irq_pending (mip w) w = 0 \<Longrightarrow> alt_irq_handler mip run w = None"
  by (simp add: alt_irq_handler_def alt_irq_dispatch.simps scan_nothing)

theorem irq_handler_spurious_diverges_witness:
  "alt_irq_handler demo_mip demo_run (demo_irq_state\<lparr>demo_lines := 0\<rparr>) = None"
  by (rule irq_handler_spurious_diverges) (simp add: alt_irq_pending_def demo_mip_def)

text \<open>However it gets there, the handler returns only when nothing is pending any more.\<close>

lemma irq_handler_drains:
  assumes "alt_irq_handler mip run w = Some w'"
  shows "alt_irq_pending (mip w') w' = 0"
proof -
  have "alt_irq_pending (mip v') v' = 0" if "alt_irq_dispatch mip run a v = Some v'" for a v v'
    using that
    by (rule alt_irq_dispatch.raw_induct
          [where P="\<lambda>mip run a v v'. alt_irq_pending (mip v') v' = 0", rotated])
       (auto split: if_splits option.splits simp: Let_def)
  then show ?thesis using assms by (simp add: alt_irq_handler_def)
qed

end
