(* ===== verification/I2cCore.thy ===== *)
theory I2cCore
  imports IrqCtl
begin

text \<open>
  The Avalon I2C master driver, part 1 (\<open>drivers/src/altera_avalon_i2c.c\<close>,
  \<open>drivers/inc/altera_avalon_i2c.h\<close>, \<open>altera_avalon_i2c_regs.h\<close>): the registers, the data
  structures, interrupt masks, thresholds, enabling and disabling, and the clock configuration.
  One device instance is a part of the world, the \<open>IRQ_DATA_t\<close> structures are a store by address,
  the byte buffers are the memory \<open>mem\<close>.
\<close>

section \<open>Registers\<close>

definition TFR_CMD_REG :: u32 where [reg_defs]: "TFR_CMD_REG = 0"

definition TFR_CMD_STA_OFST :: nat where [reg_defs]: "TFR_CMD_STA_OFST = 9"

definition TFR_CMD_STO_OFST :: nat where [reg_defs]: "TFR_CMD_STO_OFST = 8"

definition RX_DATA_REG :: u32 where [reg_defs]: "RX_DATA_REG = 1"

definition CTRL_REG :: u32 where [reg_defs]: "CTRL_REG = 2"

definition CTRL_RX_DATA_FIFO_THD_OFST :: nat where [reg_defs]: "CTRL_RX_DATA_FIFO_THD_OFST = 4"

definition CTRL_RX_DATA_FIFO_THD_MSK :: u32 where [reg_defs]: "CTRL_RX_DATA_FIFO_THD_MSK = 0x30"

definition CTRL_TFR_CMD_FIFO_THD_OFST :: nat where [reg_defs]: "CTRL_TFR_CMD_FIFO_THD_OFST = 2"

definition CTRL_TFR_CMD_FIFO_THD_MSK :: u32 where [reg_defs]: "CTRL_TFR_CMD_FIFO_THD_MSK = 0xC"

definition CTRL_BUS_SPEED_OFST :: nat where [reg_defs]: "CTRL_BUS_SPEED_OFST = 1"

definition CTRL_BUS_SPEED_MSK :: u32 where [reg_defs]: "CTRL_BUS_SPEED_MSK = 0x2"

definition CTRL_EN_OFST :: nat where [reg_defs]: "CTRL_EN_OFST = 0"

definition CTRL_EN_MSK :: u32 where [reg_defs]: "CTRL_EN_MSK = 0x1"

definition ISER_REG :: u32 where [reg_defs]: "ISER_REG = 3"

definition ISER_RX_READY_EN_MSK :: u32 where [reg_defs]: "ISER_RX_READY_EN_MSK = 0x2"

definition ISER_TX_READY_EN_MSK :: u32 where [reg_defs]: "ISER_TX_READY_EN_MSK = 0x1"

definition ISR_REG :: u32 where [reg_defs]: "ISR_REG = 4"

definition ISR_ARBLOST_DET_MSK :: u32 where [reg_defs]: "ISR_ARBLOST_DET_MSK = 0x8"

definition ISR_NACK_DET_MSK :: u32 where [reg_defs]: "ISR_NACK_DET_MSK = 0x4"

definition ISR_TX_READY_MSK :: u32 where [reg_defs]: "ISR_TX_READY_MSK = 0x1"

definition ISR_ALLINTS_MSK :: u32 where [reg_defs]: "ISR_ALLINTS_MSK = 0x1F"

definition ISR_ALL_CLEARABLE_INTS_MSK :: u32 where [reg_defs]: "ISR_ALL_CLEARABLE_INTS_MSK = 0x1C"

definition STATUS_REG :: u32 where [reg_defs]: "STATUS_REG = 5"

definition STATUS_CORE_STATUS_MSK :: u32 where [reg_defs]: "STATUS_CORE_STATUS_MSK = 0x1"

definition RX_DATA_FIFO_LVL_REG :: u32 where [reg_defs]: "RX_DATA_FIFO_LVL_REG = 7"

definition SCL_LOW_REG :: u32 where [reg_defs]: "SCL_LOW_REG = 8"

definition SCL_HIGH_REG :: u32 where [reg_defs]: "SCL_HIGH_REG = 9"

definition SDA_HOLD_REG :: u32 where [reg_defs]: "SDA_HOLD_REG = 0xa"

definition COUNT_PERIOD_MSK :: u32 where [reg_defs]: "COUNT_PERIOD_MSK = 0xFFFF"

section \<open>Status codes and constants\<close>

type_synonym status_code = u32

definition I2C_TRUE :: status_code where "I2C_TRUE = 1"

definition I2C_FALSE :: status_code where "I2C_FALSE = 0"

definition I2C_SUCCESS :: status_code where "I2C_SUCCESS = 0"

definition I2C_TIMEOUT :: status_code where "I2C_TIMEOUT = -2"

definition I2C_BAD_ARG :: status_code where "I2C_BAD_ARG = -3"

definition I2C_RANGE :: status_code where "I2C_RANGE = -4"

definition I2C_NACK_ERR :: status_code where "I2C_NACK_ERR = -5"

definition I2C_ARB_LOST_ERR :: status_code where "I2C_ARB_LOST_ERR = -6"

definition I2C_BUSY :: status_code where "I2C_BUSY = -7"

lemmas status_defs =
  I2C_TRUE_def I2C_FALSE_def I2C_SUCCESS_def I2C_TIMEOUT_def I2C_BAD_ARG_def I2C_RANGE_def
  I2C_NACK_ERR_def I2C_ARB_LOST_ERR_def I2C_BUSY_def

definition ADDR_MODE_7_BIT :: u32 where "ADDR_MODE_7_BIT = 0"

definition ADDR_MODE_10_BIT :: u32 where "ADDR_MODE_10_BIT = 1"

definition SPEED_STANDARD :: u32 where "SPEED_STANDARD = 0"

definition SPEED_FAST :: u32 where "SPEED_FAST = 1"

definition FS_MAX_HZ :: u32 where "FS_MAX_HZ = 400000"

definition FS_MIN_HZ :: u32 where "FS_MIN_HZ = 100000"

definition SS_MAX_HZ :: u32 where "SS_MAX_HZ = 100000"

definition SS_MIN_HZ :: u32 where "SS_MIN_HZ = 1"

definition DIFF_LCNT_HCNT :: u32 where "DIFF_LCNT_HCNT = 60"

definition RX_DATA_FIFO_1_ENTRY :: u32 where "RX_DATA_FIFO_1_ENTRY = 0"

definition RX_DATA_FIFO_FULL :: u32 where "RX_DATA_FIFO_FULL = 3"

definition TFR_CMD_FIFO_EMPTY :: u32 where "TFR_CMD_FIFO_EMPTY = 0"

definition TFR_CMD_FIFO_NOT_FULL :: u32 where "TFR_CMD_FIFO_NOT_FULL = 3"

section \<open>State\<close>

text \<open>
  The callback pointer is NULL, the driver's own \<open>optional_irq_callback\<close>, or a routine of the
  application at some address.
\<close>

datatype i2c_callback = NoCallback | OptionalIrqCallback | UserCallback u32

record irq_data =
  irq_buffer :: u32
  irq_size :: u32
  irq_busy :: u32

record i2c_dev =
  i2c_base :: u32
  irq_controller_ID :: u32
  irq_ID :: u32
  callback :: i2c_callback
  callback_context :: u32
  control :: u32
  master_target_address :: u32
  cmd_fifo_size :: u32
  rx_fifo_size :: u32
  ip_freq_in_hz :: u32
  address_mode :: u32

record i2c_config =
  addr_mode :: u32
  speed_mode :: u32
  scl_hcnt :: u16
  scl_lcnt :: u16
  sda_cnt :: u16

record i2c_world = irq_state +
  dev :: i2c_dev
  irqs :: "u32 \<Rightarrow> irq_data"
  mem :: "u32 \<Rightarrow> u8"

text \<open>Accesses to the registers of the device, and to the structure at an address.\<close>

definition rd_reg :: "hw \<Rightarrow> u32 \<Rightarrow> i2c_world \<Rightarrow> u32 \<times> i2c_world" where
  "rd_reg hw r w = iord hw (i2c_base (dev w)) r w"

definition wr_reg :: "u32 \<Rightarrow> u32 \<Rightarrow> i2c_world \<Rightarrow> i2c_world" where
  "wr_reg r v w = iowr (i2c_base (dev w)) r v w"

definition rmw_reg :: "hw \<Rightarrow> u32 \<Rightarrow> u32 \<Rightarrow> u32 \<Rightarrow> i2c_world \<Rightarrow> i2c_world" where
  "rmw_reg hw r v msk w = iormw hw (i2c_base (dev w)) r v msk w"

definition irq_upd :: "u32 \<Rightarrow> (irq_data \<Rightarrow> irq_data) \<Rightarrow> i2c_world \<Rightarrow> i2c_world" where
  "irq_upd p f w = w\<lparr>irqs := (irqs w)(p := f (irqs w p))\<rparr>"

lemma rd_reg_eq:
  "rd_reg hw r w = (hw (io w) (i2c_base (dev w)) r,
     w\<lparr>io := Rd (i2c_base (dev w)) r (hw (io w) (i2c_base (dev w)) r) # io w\<rparr>)"
  by (simp add: rd_reg_def iord_eq)

lemma wr_reg_eq: "wr_reg r v w = w\<lparr>io := Wr (i2c_base (dev w)) r v # io w\<rparr>"
  by (simp add: wr_reg_def iowr_eq)

section \<open>Interrupt enables and thresholds\<close>

definition i2c_enabled_ints_get :: "hw \<Rightarrow> i2c_world \<Rightarrow> u32 \<times> i2c_world" where
  "i2c_enabled_ints_get hw w =
     (let (v, w1) = rd_reg hw ISER_REG w in (v AND ISR_ALLINTS_MSK, w1))"

definition i2c_int_status_get :: "hw \<Rightarrow> i2c_world \<Rightarrow> u32 \<times> i2c_world" where
  "i2c_int_status_get hw w =
     (let (isr, w1) = rd_reg hw ISR_REG w; (iser, w2) = rd_reg hw ISER_REG w1
      in (isr AND iser, w2))"

definition i2c_int_raw_status_get :: "hw \<Rightarrow> i2c_world \<Rightarrow> u32 \<times> i2c_world" where
  "i2c_int_raw_status_get hw w = rd_reg hw ISR_REG w"

definition i2c_int_clear :: "u32 \<Rightarrow> i2c_world \<Rightarrow> i2c_world" where
  "i2c_int_clear msk w = wr_reg ISR_REG msk w"

definition i2c_int_disable :: "hw \<Rightarrow> u32 \<Rightarrow> i2c_world \<Rightarrow> i2c_world" where
  "i2c_int_disable hw msk w =
     (let (enabled_ints, w1) = i2c_enabled_ints_get hw w
      in wr_reg ISER_REG (ISR_ALLINTS_MSK AND (enabled_ints AND NOT msk)) w1)"

definition i2c_int_enable :: "hw \<Rightarrow> u32 \<Rightarrow> i2c_world \<Rightarrow> i2c_world" where
  "i2c_int_enable hw msk w =
     (let (enabled_ints, w1) = i2c_enabled_ints_get hw w
      in wr_reg ISER_REG (ISR_ALLINTS_MSK AND (enabled_ints OR msk)) w1)"

definition i2c_rx_fifo_threshold_get :: "hw \<Rightarrow> i2c_world \<Rightarrow> u32 \<times> i2c_world" where
  "i2c_rx_fifo_threshold_get hw w =
     (let (v, w1) = rd_reg hw CTRL_REG w
      in (drop_bit CTRL_RX_DATA_FIFO_THD_OFST (v AND CTRL_RX_DATA_FIFO_THD_MSK), w1))"

definition i2c_rx_fifo_threshold_set :: "hw \<Rightarrow> u32 \<Rightarrow> i2c_world \<Rightarrow> i2c_world" where
  "i2c_rx_fifo_threshold_set hw threshold w =
     rmw_reg hw CTRL_REG (push_bit CTRL_RX_DATA_FIFO_THD_OFST threshold)
       CTRL_RX_DATA_FIFO_THD_MSK w"

definition i2c_tfr_cmd_fifo_threshold_get :: "hw \<Rightarrow> i2c_world \<Rightarrow> u32 \<times> i2c_world" where
  "i2c_tfr_cmd_fifo_threshold_get hw w =
     (let (v, w1) = rd_reg hw CTRL_REG w
      in (drop_bit CTRL_TFR_CMD_FIFO_THD_OFST (v AND CTRL_TFR_CMD_FIFO_THD_MSK), w1))"

definition i2c_tfr_cmd_fifo_threshold_set :: "hw \<Rightarrow> u32 \<Rightarrow> i2c_world \<Rightarrow> i2c_world" where
  "i2c_tfr_cmd_fifo_threshold_set hw threshold w =
     rmw_reg hw CTRL_REG (push_bit CTRL_TFR_CMD_FIFO_THD_OFST threshold)
       CTRL_TFR_CMD_FIFO_THD_MSK w"

section \<open>Enabling and disabling\<close>

definition i2c_enable :: "hw \<Rightarrow> i2c_world \<Rightarrow> status_code \<times> i2c_world" where
  "i2c_enable hw w =
     (let (v, w1) = rd_reg hw CTRL_REG w;
          enable_status = drop_bit CTRL_EN_OFST (v AND CTRL_EN_MSK)
      in if enable_status \<noteq> 0 then (I2C_BUSY, w1)
         else (let w2 = (if callback (dev w1) = OptionalIrqCallback
                         then irq_upd (callback_context (dev w1)) (irq_busy_update (\<lambda>_. 0)) w1
                         else w1)
               in (I2C_SUCCESS, rmw_reg hw CTRL_REG CTRL_EN_MSK CTRL_EN_MSK w2)))"

definition i2c_disable :: "hw \<Rightarrow> i2c_world \<Rightarrow> i2c_world" where
  "i2c_disable hw w = rmw_reg hw CTRL_REG 0 CTRL_EN_MSK w"

definition i2c_is_busy :: "hw \<Rightarrow> i2c_world \<Rightarrow> status_code \<times> i2c_world" where
  "i2c_is_busy hw w =
     (let (v, w1) = rd_reg hw STATUS_REG w
      in if v AND STATUS_CORE_STATUS_MSK \<noteq> 0 then (I2C_TRUE, w1) else (I2C_FALSE, w1))"

definition i2c_master_target_get :: "i2c_world \<Rightarrow> u32" where
  "i2c_master_target_get w = master_target_address (dev w)"

definition i2c_master_target_set :: "u32 \<Rightarrow> i2c_world \<Rightarrow> i2c_world" where
  "i2c_master_target_set target_addr w = w\<lparr>dev := (dev w)\<lparr>master_target_address := target_addr\<rparr>\<rparr>"

section \<open>Clock configuration\<close>

definition i2c_master_config_get :: "hw \<Rightarrow> i2c_world \<Rightarrow> i2c_config \<times> i2c_world" where
  "i2c_master_config_get hw w =
     (let (c, w1) = rd_reg hw CTRL_REG w;
          (h, w2) = rd_reg hw SCL_HIGH_REG w1;
          (l, w3) = rd_reg hw SCL_LOW_REG w2;
          (s, w4) = rd_reg hw SDA_HOLD_REG w3
      in (\<lparr>addr_mode = address_mode (dev w),
           speed_mode = drop_bit CTRL_BUS_SPEED_OFST (c AND CTRL_BUS_SPEED_MSK),
           scl_hcnt = ucast (h AND COUNT_PERIOD_MSK),
           scl_lcnt = ucast (l AND COUNT_PERIOD_MSK),
           sda_cnt = ucast (s AND COUNT_PERIOD_MSK)\<rparr>, w4))"

definition i2c_master_config_set :: "hw \<Rightarrow> i2c_config \<Rightarrow> i2c_world \<Rightarrow> i2c_world" where
  "i2c_master_config_set hw cfg w =
     (let w1 = w\<lparr>dev := (dev w)\<lparr>address_mode := addr_mode cfg\<rparr>\<rparr>;
          w2 = rmw_reg hw CTRL_REG (push_bit CTRL_BUS_SPEED_OFST (speed_mode cfg))
                 CTRL_BUS_SPEED_MSK w1;
          w3 = wr_reg SCL_HIGH_REG (ucast (scl_hcnt cfg)) w2;
          w4 = wr_reg SCL_LOW_REG (ucast (scl_lcnt cfg)) w3
      in wr_reg SDA_HOLD_REG (ucast (sda_cnt cfg)) w4)"

text \<open>\<open>None\<close> in place of the speed: the output parameter is not written.\<close>

definition i2c_master_config_speed_get :: "i2c_dev \<Rightarrow> i2c_config \<Rightarrow> status_code \<times> u32 option" where
  "i2c_master_config_speed_get d cfg =
     (if scl_lcnt cfg = 0 \<or> scl_hcnt cfg = 0 then (I2C_BAD_ARG, None)
      else (I2C_SUCCESS, Some (ip_freq_in_hz d div (ucast (scl_lcnt cfg) + ucast (scl_hcnt cfg)))))"

definition i2c_master_config_speed_set ::
  "i2c_dev \<Rightarrow> i2c_config \<Rightarrow> u32 \<Rightarrow> status_code \<times> i2c_config" where
  "i2c_master_config_speed_set d cfg speed_in_hz =
     (if speed_in_hz > FS_MAX_HZ \<or> speed_in_hz < SS_MIN_HZ \<or> speed_in_hz = 0 then (I2C_RANGE, cfg)
      else (let lcnt0 = ip_freq_in_hz d div push_bit 1 speed_in_hz;
                hcnt = lcnt0 + DIFF_LCNT_HCNT;
                lcnt = lcnt0 - DIFF_LCNT_HCNT;
                cfg1 = (if speed_in_hz > FS_MIN_HZ then cfg\<lparr>speed_mode := SPEED_FAST\<rparr>
                        else cfg\<lparr>speed_mode := SPEED_STANDARD\<rparr>)
            in (I2C_SUCCESS, cfg1\<lparr>scl_lcnt := ucast lcnt, scl_hcnt := ucast hcnt,
                                  sda_cnt := ucast (lcnt - lcnt div 2)\<rparr>)))"

section \<open>Properties of the register operations\<close>

lemma rmw_reg_eq:
  "rmw_reg hw r v msk w = w\<lparr>io := Wr (i2c_base (dev w)) r
       ((hw (io w) (i2c_base (dev w)) r AND NOT msk) OR (v AND msk))
     # Rd (i2c_base (dev w)) r (hw (io w) (i2c_base (dev w)) r) # io w\<rparr>"
  by (simp add: rmw_reg_def iormw_eq)

lemma irq_upd_simps [simp]:
  "io (irq_upd p f w) = io w" "dev (irq_upd p f w) = dev w" "mem (irq_upd p f w) = mem w"
  "mstatus (irq_upd p f w) = mstatus w" "mie (irq_upd p f w) = mie w"
  by (simp_all add: irq_upd_def)

lemmas reg_eqs = rd_reg_eq wr_reg_eq rmw_reg_eq

lemma and_not_or_same_disjoint:
  fixes v d m k :: "'a::len word"
  assumes "k AND m = 0"
  shows "((v AND NOT m) OR (d AND m)) AND k = v AND k"
proof (rule bit_eqI)
  fix n
  show "bit (((v AND NOT m) OR (d AND m)) AND k) n = bit (v AND k) n"
    using arg_cong[OF assms, of "\<lambda>x. bit x n"]
    by (auto simp: bit_and_iff bit_or_iff bit_not_iff dest: bit_imp_le_length)
qed

lemma and_not_or_same_mask:
  fixes v d m :: "'a::len word"
  shows "((v AND NOT m) OR (d AND m)) AND m = d AND m"
  by (rule bit_eqI) (auto simp: bit_and_iff bit_or_iff bit_not_iff)

text \<open>
  On a device whose CTRL, SCL and SDA registers store what is written, the clock
  configuration read back by \<open>master_config_get\<close> is the one \<open>master_config_set\<close> wrote, and the
  other fields of CTRL (enable, thresholds) are what they were.
\<close>

theorem config_set_get_roundtrip:
  assumes "stores hw b CTRL_REG 0x3F" "stores hw b SCL_HIGH_REG 0xFFFF"
    "stores hw b SCL_LOW_REG 0xFFFF" "stores hw b SDA_HOLD_REG 0xFFFF"
    and b: "b = i2c_base (dev w)"
    and "speed_mode cfg = SPEED_STANDARD \<or> speed_mode cfg = SPEED_FAST"
    and "i2c_master_config_set hw cfg w = w1"
  shows "fst (i2c_master_config_get hw w1) = cfg
    \<and> hw (io w1) b CTRL_REG AND 0x3D = hw (io w) b CTRL_REG AND 0x3D"
proof -
  define v where "v = hw (io w) b CTRL_REG"
  define c where "c = (v AND NOT CTRL_BUS_SPEED_MSK)
    OR (push_bit CTRL_BUS_SPEED_OFST (speed_mode cfg) AND CTRL_BUS_SPEED_MSK)"
  define t where "t = [Wr b SDA_HOLD_REG (ucast (sda_cnt cfg)), Wr b SCL_LOW_REG (ucast (scl_lcnt cfg)),
     Wr b SCL_HIGH_REG (ucast (scl_hcnt cfg)), Wr b CTRL_REG c, Rd b CTRL_REG v] @ io w"
  have w1: "w1 = w\<lparr>dev := (dev w)\<lparr>address_mode := addr_mode cfg\<rparr>, io := t\<rparr>"
    using assms(7) b
    by (simp add: i2c_master_config_set_def reg_eqs Let_def t_def c_def v_def)
  have lw: "last_wr b CTRL_REG t = Some c"
    "last_wr b SCL_HIGH_REG (Rd b' r' v' # t) = Some (ucast (scl_hcnt cfg))"
    "last_wr b SCL_LOW_REG (Rd b'' r'' v'' # Rd b' r' v' # t) = Some (ucast (scl_lcnt cfg))"
    "last_wr b SDA_HOLD_REG (Rd b3 r3 v3 # Rd b'' r'' v'' # Rd b' r' v' # t)
       = Some (ucast (sda_cnt cfg))"
    for b' r' v' b'' r'' v'' b3 r3 v3
    by (simp_all add: t_def reg_defs)
  have k: "ucast (ucast x AND COUNT_PERIOD_MSK :: u32) = x" for x :: u16
    unfolding COUNT_PERIOD_MSK_def and_0xFFFF by simp
  have ctrl: "hw t b CTRL_REG AND m = c AND m" if "m AND NOT 0x3F = 0" for m
    using stores_sub[OF assms(1) lw(1) that] .
  have speed: "drop_bit CTRL_BUS_SPEED_OFST (hw t b CTRL_REG AND CTRL_BUS_SPEED_MSK) = speed_mode cfg"
    using assms(6) ctrl[of CTRL_BUS_SPEED_MSK] and_not_or_same_mask[of v CTRL_BUS_SPEED_MSK]
    by (auto simp: c_def reg_defs SPEED_STANDARD_def SPEED_FAST_def)
  have "fst (i2c_master_config_get hw w1) = cfg"
    using storesD[OF assms(2) lw(2)] storesD[OF assms(3) lw(3)] storesD[OF assms(4) lw(4)]
      speed b k
    by (simp add: i2c_master_config_get_def w1 reg_eqs Let_def COUNT_PERIOD_MSK_def[symmetric])
  moreover have "hw (io w1) b CTRL_REG AND 0x3D = v AND 0x3D"
    using ctrl[of "0x3D"] and_not_or_same_disjoint[of "0x3D" CTRL_BUS_SPEED_MSK v]
    by (simp add: w1 c_def CTRL_BUS_SPEED_MSK_def)
  ultimately show ?thesis by (simp add: v_def)
qed

definition sample_i2c_dev :: i2c_dev where
  "sample_i2c_dev = \<lparr>i2c_base = 0x1000, irq_controller_ID = 0xFFFFFFFF, irq_ID = 0xFFFFFFFF,
     callback = NoCallback, callback_context = 0, control = 0, master_target_address = 0x1D,
     cmd_fifo_size = 4, rx_fifo_size = 4, ip_freq_in_hz = 50000000, address_mode = 0\<rparr>"

definition sample_i2c_world :: i2c_world where
  "sample_i2c_world = irq_state.extend boot_irq_state
     \<lparr>dev = sample_i2c_dev, irqs = (\<lambda>_. \<lparr>irq_buffer = 0, irq_size = 0, irq_busy = 0\<rparr>),
      mem = (\<lambda>a. ucast a)\<rparr>"

lemmas sample_i2c_defs =
  sample_i2c_world_def sample_i2c_dev_def boot_irq_state_def irq_state.extend_def

theorem config_set_get_roundtrip_witness:
  "fst (i2c_master_config_get regfile (i2c_master_config_set regfile
      \<lparr>addr_mode = 0, speed_mode = 1, scl_hcnt = 185, scl_lcnt = 65, sda_cnt = 33\<rparr> sample_i2c_world))
    = \<lparr>addr_mode = 0, speed_mode = 1, scl_hcnt = 185, scl_lcnt = 65, sda_cnt = 33\<rparr>"
  using config_set_get_roundtrip[OF stores_regfile stores_regfile stores_regfile stores_regfile refl,
      of "\<lparr>addr_mode = 0, speed_mode = 1, scl_hcnt = 185, scl_lcnt = 65, sda_cnt = 33\<rparr>"
        sample_i2c_world]
  by (simp add: SPEED_FAST_def)

lemma and_1_bit: "(v::u32) AND 1 = 0 \<longleftrightarrow> \<not> bit v 0"
  using and_push_bit_one_eq_0[of v 0] by simp

lemma enable_cases:
  "i2c_enable hw w =
    (let b = i2c_base (dev w); v = hw (io w) b CTRL_REG;
         w1 = w\<lparr>io := Rd b CTRL_REG v # io w\<rparr>;
         w2 = (if callback (dev w) = OptionalIrqCallback
               then irq_upd (callback_context (dev w)) (irq_busy_update (\<lambda>_. 0)) w1 else w1)
     in if bit v 0 then (I2C_BUSY, w1) else (I2C_SUCCESS, rmw_reg hw CTRL_REG 1 1 w2))"
  by (simp add: i2c_enable_def rd_reg_eq Let_def CTRL_EN_OFST_def CTRL_EN_MSK_def and_1_bit)

lemma rmw_reg_frame [simp]:
  "dev (rmw_reg hw r v m w) = dev w" "irqs (rmw_reg hw r v m w) = irqs w"
  "mem (rmw_reg hw r v m w) = mem w"
  by (simp_all add: rmw_reg_eq)

lemma enable_frame:
  "dev (snd (i2c_enable hw w)) = dev w" "mem (snd (i2c_enable hw w)) = mem w"
  by (simp_all add: enable_cases Let_def)

lemma rmw_ctrl_bit0:
  assumes "stores hw (i2c_base (dev w)) CTRL_REG 0x3F"
  shows "bit (hw (io (rmw_reg hw CTRL_REG v 1 w)) (i2c_base (dev w)) CTRL_REG) 0 = bit v 0"
proof -
  define t where "t = io (rmw_reg hw CTRL_REG v 1 w)"
  define c where "c = ((hw (io w) (i2c_base (dev w)) CTRL_REG AND NOT 1) OR (v AND 1))"
  have "last_wr (i2c_base (dev w)) CTRL_REG t = Some c"
    by (simp add: t_def c_def rmw_reg_eq)
  then have "hw t (i2c_base (dev w)) CTRL_REG AND 1 = c AND 1"
    by (intro stores_sub[OF assms]) auto
  also have "c AND 1 = v AND 1"
    unfolding c_def by (rule and_not_or_same_mask)
  finally show ?thesis
    unfolding t_def[symmetric] using and_1_bit by metis
qed

text \<open>
  The enable bit is the lock of a transaction: on a device whose CTRL register stores what
  is written, a second \<open>enable\<close> after a successful one is refused with BUSY and writes nothing,
  and after \<open>disable\<close> it succeeds again.
\<close>

theorem enable_excludes:
  assumes "stores hw (i2c_base (dev w)) CTRL_REG 0x3F"
    and "i2c_enable hw w = (I2C_SUCCESS, w1)"
  shows "fst (i2c_enable hw w1) = I2C_BUSY
    \<and> wr_log b r (io (snd (i2c_enable hw w1))) = wr_log b r (io w1)
    \<and> fst (i2c_enable hw (i2c_disable hw w1)) = I2C_SUCCESS"
proof -
  have "\<not> bit (hw (io w) (i2c_base (dev w)) CTRL_REG) 0"
    using assms(2) by (auto simp: enable_cases Let_def I2C_SUCCESS_def I2C_BUSY_def split: if_splits)
  then obtain w2 where w1: "w1 = rmw_reg hw CTRL_REG 1 1 w2" and d: "dev w2 = dev w"
    using assms(2) by (auto simp: enable_cases Let_def)
  have "bit (hw (io w1) (i2c_base (dev w1)) CTRL_REG) 0"
    using rmw_ctrl_bit0[of hw w2 1] assms(1) d by (simp add: w1)
  moreover have "\<not> bit (hw (io (i2c_disable hw w1)) (i2c_base (dev w1)) CTRL_REG) 0"
    using rmw_ctrl_bit0[of hw w1 0] assms(1) d w1
    by (simp add: i2c_disable_def CTRL_EN_MSK_def)
  moreover have "dev (i2c_disable hw w1) = dev w1" by (simp add: i2c_disable_def)
  ultimately show ?thesis by (simp add: enable_cases Let_def)
qed

lemma regfile_nil: "regfile [] b r = 0"
  by (simp add: regfile_def)

theorem enable_excludes_witness:
  "fst (i2c_enable regfile (snd (i2c_enable regfile sample_i2c_world))) = I2C_BUSY"
proof -
  have "i2c_enable regfile sample_i2c_world = (I2C_SUCCESS, snd (i2c_enable regfile sample_i2c_world))"
    by (simp add: enable_cases Let_def sample_i2c_defs regfile_nil)
  from enable_excludes[OF stores_regfile this] show ?thesis by blast
qed

lemma unat_ucast_16: "unat (ucast (x::u32) :: u16) = unat x mod 65536"
  by (simp add: unsigned_ucast_eq take_bit_eq_mod)

lemma unat_ucast_up: "unat (ucast (x::u16) :: u32) = unat x"
  by (simp add: unsigned_ucast_eq take_bit_nat_eq_self unsigned_less order_less_le_trans[OF unsigned_less])

text \<open>The half period in input clocks that a requested speed asks for.\<close>

definition half_period :: "i2c_dev \<Rightarrow> u32 \<Rightarrow> nat" where
  "half_period d s = unat (ip_freq_in_hz d) div (2 * unat s)"

lemma half_period_unat:
  assumes "unat s \<le> 400000"
  shows "unat (ip_freq_in_hz d div push_bit 1 s) = half_period d s"
proof -
  have "unat (s * 2) = unat s * 2"
    using assms by (subst unat_mult_lem[THEN iffD1]) simp_all
  then show ?thesis by (simp add: unat_div half_period_def mult.commute)
qed

lemma speed_set_range:
  "i2c_master_config_speed_set d cfg s =
    (if unat s = 0 \<or> 400000 < unat s then (I2C_RANGE, cfg)
     else (let q = ip_freq_in_hz d div push_bit 1 s
       in (I2C_SUCCESS, cfg\<lparr>speed_mode := (if 100000 < unat s then SPEED_FAST else SPEED_STANDARD),
            scl_lcnt := ucast (q - 60), scl_hcnt := ucast (q + 60),
            sda_cnt := ucast ((q - 60) - (q - 60) div 2)\<rparr>)))"
  by (auto simp: i2c_master_config_speed_set_def FS_MAX_HZ_def SS_MIN_HZ_def FS_MIN_HZ_def
      DIFF_LCNT_HCNT_def Let_def word_less_nat_alt unat_eq_zero)

lemma speed_set_counts:
  assumes "unat s \<noteq> 0" "unat s \<le> 400000" "60 \<le> half_period d s"
    and "i2c_master_config_speed_set d cfg s = (st, cfg')"
  shows "unat (scl_lcnt cfg') = (half_period d s - 60) mod 65536"
    and "unat (scl_hcnt cfg') = (half_period d s + 60) mod 65536"
proof -
  define q where "q = ip_freq_in_hz d div push_bit 1 s"
  have q: "unat q = half_period d s"
    unfolding q_def by (rule half_period_unat[OF assms(2)])
  have "half_period d s \<le> unat (ip_freq_in_hz d) div 2"
    using assms(1) by (simp add: half_period_def div_le_mono2)
  also have "\<dots> < 2 ^ 31"
    using unat_bound_32[of "ip_freq_in_hz d"] by simp
  finally have lt: "half_period d s < 2 ^ 31" .
  have "unat (q + 60) = unat q + 60"
    using lt q by (subst unat_add_lem[THEN iffD1]) simp_all
  moreover have "unat (q - 60) = unat q - 60"
    using q assms(3) by (subst unat_sub) (simp_all add: word_le_nat_alt)
  ultimately show "unat (scl_lcnt cfg') = (half_period d s - 60) mod 65536"
    and "unat (scl_hcnt cfg') = (half_period d s + 60) mod 65536"
    using assms(1,2,4) q by (auto simp: speed_set_range Let_def unat_ucast_16 q_def)
qed

text \<open>
  For every requested speed from 1 Hz to 400 kHz whose half period in input clocks is
  between 61 and 65475, the configuration computed by \<open>speed_set\<close> gives back, through \<open>speed_get\<close>,
  a speed that is at least the requested one and above it by at most one part in the half
  period; any other request outside 1..400000 Hz is refused with RANGE and changes nothing.
\<close>

theorem speed_set_get_accuracy:
  assumes "60 < half_period d s" "half_period d s \<le> 65475"
    and "i2c_master_config_speed_set d cfg s = (st, cfg')"
  shows "if unat s = 0 \<or> 400000 < unat s then st = I2C_RANGE \<and> cfg' = cfg
    else st = I2C_SUCCESS \<and> (\<exists>r. i2c_master_config_speed_get d cfg' = (I2C_SUCCESS, Some r)
      \<and> unat s \<le> unat r \<and> unat r * half_period d s < unat s * (half_period d s + 1))"
proof (cases "unat s = 0 \<or> 400000 < unat s")
  case True
  then show ?thesis using assms(3) by (simp add: speed_set_range)
next
  case False
  define q where "q = half_period d s"
  define f where "f = unat (ip_freq_in_hz d)"
  have q: "60 < q" "q \<le> 65475" using assms(1,2) by (simp_all add: q_def)
  have cnt: "unat (scl_lcnt cfg') = q - 60" "unat (scl_hcnt cfg') = q + 60"
    using speed_set_counts[OF _ _ _ assms(3)] False q by (simp_all add: q_def)
  then have nz: "scl_lcnt cfg' \<noteq> 0" "scl_hcnt cfg' \<noteq> 0"
    using q by (auto simp: unat_eq_zero[symmetric])
  define p :: u32 where "p = ucast (scl_lcnt cfg') + ucast (scl_hcnt cfg')"
  have "unat p = 2 * q"
    using cnt q unfolding p_def by (subst unat_add_lem[THEN iffD1]) (simp_all add: unat_ucast_up)
  define r where "r = ip_freq_in_hz d div p"
  have r: "unat r = f div (2 * q)"
    using \<open>unat p = 2 * q\<close> by (simp add: r_def unat_div f_def)
  have s: "0 < unat s" using False by simp
  have qf: "q = f div (2 * unat s)" by (simp add: q_def half_period_def f_def)
  have "unat s * (2 * q) \<le> f"
    using div_times_less_eq_dividend[of f "2 * unat s"] qf by (simp add: ac_simps)
  then have lo: "unat s \<le> unat r"
    unfolding r using q by (simp add: less_eq_div_iff_mult_less_eq)
  have "f < (q + 1) * (2 * unat s)"
    using dividend_less_div_times[of "2 * unat s" f] s qf by simp
  moreover have "unat r * (2 * q) \<le> f"
    unfolding r using div_times_less_eq_dividend[of f "2 * q"] by simp
  ultimately have "unat r * q < unat s * (q + 1)"
    by (simp add: algebra_simps)
  moreover have "st = I2C_SUCCESS"
    using assms(3) False by (simp add: speed_set_range Let_def)
  ultimately show ?thesis
    using False lo nz unfolding i2c_master_config_speed_get_def p_def[symmetric] r_def[symmetric]
    by (simp add: q_def)
qed

theorem speed_set_get_accuracy_witness:
  "\<exists>r. i2c_master_config_speed_get sample_i2c_dev
       (snd (i2c_master_config_speed_set sample_i2c_dev
          \<lparr>addr_mode = 0, speed_mode = 0, scl_hcnt = 0, scl_lcnt = 0, sda_cnt = 0\<rparr> 300000))
     = (I2C_SUCCESS, Some r) \<and> 300000 \<le> unat r \<and> unat r * 83 < 300000 * 84"
  using speed_set_get_accuracy[of sample_i2c_dev 300000
      "\<lparr>addr_mode = 0, speed_mode = 0, scl_hcnt = 0, scl_lcnt = 0, sda_cnt = 0\<rparr>"
      "fst (i2c_master_config_speed_set sample_i2c_dev
          \<lparr>addr_mode = 0, speed_mode = 0, scl_hcnt = 0, scl_lcnt = 0, sda_cnt = 0\<rparr> 300000)"
      "snd (i2c_master_config_speed_set sample_i2c_dev
          \<lparr>addr_mode = 0, speed_mode = 0, scl_hcnt = 0, scl_lcnt = 0, sda_cnt = 0\<rparr> 300000)"]
  by (simp add: half_period_def sample_i2c_dev_def)

text \<open>
  The accepted range is wider than what the 16-bit count registers hold: for a speed whose
  half period exceeds 65475 clocks the call reports SUCCESS, but the high count it computes is
  not the one the speed needs (it is cut to 16 bits). At the board's 50 MHz that is every speed
  from 1 to 381 Hz.
\<close>

theorem speed_set_overflow:
  assumes "unat s \<noteq> 0" "unat s \<le> 400000" "65475 < half_period d s"
    and "i2c_master_config_speed_set d cfg s = (st, cfg')"
  shows "st = I2C_SUCCESS \<and> unat (scl_hcnt cfg') \<noteq> half_period d s + 60"
proof -
  have "unat (scl_hcnt cfg') = (half_period d s + 60) mod 65536"
    by (rule speed_set_counts(2)[OF assms(1,2) _ assms(4)]) (use assms(3) in simp)
  also have "\<dots> < 65536" by simp
  finally have "unat (scl_hcnt cfg') \<noteq> half_period d s + 60" using assms(3) by simp
  then show ?thesis using assms by (simp add: speed_set_range Let_def)
qed

theorem speed_set_overflow_witness:
  "fst (i2c_master_config_speed_set sample_i2c_dev
     \<lparr>addr_mode = 0, speed_mode = 0, scl_hcnt = 0, scl_lcnt = 0, sda_cnt = 0\<rparr> 381) = I2C_SUCCESS"
  using speed_set_overflow[of 381 sample_i2c_dev
     "\<lparr>addr_mode = 0, speed_mode = 0, scl_hcnt = 0, scl_lcnt = 0, sda_cnt = 0\<rparr>"
     "fst (i2c_master_config_speed_set sample_i2c_dev
     \<lparr>addr_mode = 0, speed_mode = 0, scl_hcnt = 0, scl_lcnt = 0, sda_cnt = 0\<rparr> 381)"
     "snd (i2c_master_config_speed_set sample_i2c_dev
     \<lparr>addr_mode = 0, speed_mode = 0, scl_hcnt = 0, scl_lcnt = 0, sda_cnt = 0\<rparr> 381)"]
  by (simp add: half_period_def sample_i2c_dev_def)

text \<open>The interrupt enables, on a device whose ISER register stores its five bits.\<close>

lemma int_enable_gets:
  assumes "stores hw (i2c_base (dev w)) ISER_REG 0x1F"
  shows "fst (i2c_enabled_ints_get hw (i2c_int_enable hw m w))
    = (hw (io w) (i2c_base (dev w)) ISER_REG OR m) AND 0x1F"
proof -
  let ?v = "hw (io w) (i2c_base (dev w)) ISER_REG"
  let ?x = "0x1F AND (?v AND 0x1F OR m)"
  have "hw (Wr (i2c_base (dev w)) ISER_REG ?x # Rd (i2c_base (dev w)) ISER_REG ?v # io w)
      (i2c_base (dev w)) ISER_REG AND 0x1F = ?x AND 0x1F"
    by (rule storesD[OF assms]) simp
  also have "\<dots> = (?v OR m) AND 0x1F"
    by (rule bit_eqI) (auto simp: bit_and_iff bit_or_iff)
  finally show ?thesis
    by (simp add: i2c_int_enable_def i2c_enabled_ints_get_def reg_eqs Let_def ISR_ALLINTS_MSK_def)
qed

lemma int_disable_gets:
  assumes "stores hw (i2c_base (dev w)) ISER_REG 0x1F"
  shows "fst (i2c_enabled_ints_get hw (i2c_int_disable hw m w))
    = (hw (io w) (i2c_base (dev w)) ISER_REG AND NOT m) AND 0x1F"
proof -
  let ?v = "hw (io w) (i2c_base (dev w)) ISER_REG"
  let ?x = "0x1F AND ((?v AND 0x1F) AND NOT m)"
  have "hw (Wr (i2c_base (dev w)) ISER_REG ?x # Rd (i2c_base (dev w)) ISER_REG ?v # io w)
      (i2c_base (dev w)) ISER_REG AND 0x1F = ?x AND 0x1F"
    by (rule storesD[OF assms]) simp
  also have "\<dots> = (?v AND NOT m) AND 0x1F"
    by (rule bit_eqI) (auto simp: bit_and_iff bit_not_iff)
  finally show ?thesis
    by (simp add: i2c_int_disable_def i2c_enabled_ints_get_def reg_eqs Let_def ISR_ALLINTS_MSK_def)
qed

end
