(* ===== verification/I2cXfer.thy ===== *)
theory I2cXfer
  imports I2cCore
begin

text \<open>
  The Avalon I2C master driver, part 2 (\<open>drivers/src/altera_avalon_i2c.c\<close>): the command and
  receive FIFOs, polled transmit and receive. Every loop that polls a register
  has a timeout counter except the one of \<open>rx_read_available\<close>, which runs as long as the device
  reports bytes; it and what calls it are option valued, with \<open>None\<close> for a call that does not
  return.
\<close>

section \<open>Polling with a timeout\<close>

text \<open>
  The driver's polling loops have one shape: while the condition holds, sleep when the counter
  is below 10 (\<open>sleeps\<close>, not in the interrupt callback), decrement, and leave when it reaches 0.
  The result is whether the counter ran out. A counter that starts at 0 wraps around.
\<close>

function i2c_poll ::
  "(i2c_world \<Rightarrow> bool \<times> i2c_world) \<Rightarrow> bool \<Rightarrow> u32 \<Rightarrow> i2c_world \<Rightarrow> bool \<times> i2c_world" where
  "i2c_poll cond sleeps timeout w =
     (let (c, w1) = cond w
      in if \<not> c then (False, w1)
         else (let w2 = (if sleeps \<and> timeout < 10 then busy_sleep 10000 w1 else w1)
               in if timeout - 1 = 0 then (True, w2)
                  else i2c_poll cond sleeps (timeout - 1) w2))"
  by pat_completeness auto

termination
  by (relation "measure (\<lambda>(cond, sleeps, timeout, w). unat (timeout - 1))")
     (auto intro: unat_minus_two_less)

declare i2c_poll.simps [simp del]

definition busy_cond :: "hw \<Rightarrow> i2c_world \<Rightarrow> bool \<times> i2c_world" where
  "busy_cond hw w = (let (b, w1) = i2c_is_busy hw w in (b \<noteq> I2C_FALSE, w1))"

definition tx_not_ready_cond :: "hw \<Rightarrow> i2c_world \<Rightarrow> bool \<times> i2c_world" where
  "tx_not_ready_cond hw w =
     (let (v, w1) = rd_reg hw ISR_REG w in (v AND ISR_TX_READY_MSK = 0, w1))"

definition rx_empty_cond :: "hw \<Rightarrow> i2c_world \<Rightarrow> bool \<times> i2c_world" where
  "rx_empty_cond hw w =
     (let (v, w1) = rd_reg hw RX_DATA_FIFO_LVL_REG w in (v = 0, w1))"

text \<open>The wait for the idle state: a timeout replaces the status.\<close>

definition i2c_wait_idle :: "hw \<Rightarrow> u32 \<Rightarrow> status_code \<Rightarrow> i2c_world \<Rightarrow> status_code \<times> i2c_world" where
  "i2c_wait_idle hw timeout status w =
     (let (expired, w1) = i2c_poll (busy_cond hw) True timeout w
      in (if expired then I2C_TIMEOUT else status, w1))"

section \<open>The FIFOs\<close>

definition i2c_check_nack :: "hw \<Rightarrow> status_code \<Rightarrow> i2c_world \<Rightarrow> status_code \<times> i2c_world" where
  "i2c_check_nack hw status w =
     (let (v, w1) = rd_reg hw ISR_REG w
      in (if v AND ISR_NACK_DET_MSK \<noteq> 0 then I2C_NACK_ERR else status, w1))"

definition i2c_check_arblost :: "hw \<Rightarrow> status_code \<Rightarrow> i2c_world \<Rightarrow> status_code \<times> i2c_world" where
  "i2c_check_arblost hw status w =
     (let (v, w1) = rd_reg hw ISR_REG w
      in (if v AND ISR_ARBLOST_DET_MSK \<noteq> 0 then I2C_ARB_LOST_ERR else status, w1))"

partial_function (option) rx_drain ::
  "hw \<Rightarrow> u32 \<Rightarrow> u32 \<Rightarrow> u32 \<Rightarrow> i2c_world \<Rightarrow> (u32 \<times> i2c_world) option" where
  "rx_drain hw buf max_bytes_to_read bytes_read w =
     (let (lvl, w1) = rd_reg hw RX_DATA_FIFO_LVL_REG w
      in if lvl = 0 then Some (bytes_read, w1)
         else (let (v, w2) = rd_reg hw RX_DATA_REG w1;
                   w3 = w2\<lparr>mem := (mem w2)(buf + bytes_read := ucast v)\<rparr>;
                   n = bytes_read + 1
               in if n = max_bytes_to_read \<and> max_bytes_to_read \<noteq> 0 then Some (n, w3)
                  else rx_drain hw buf max_bytes_to_read n w3))"

definition i2c_rx_read_available ::
  "hw \<Rightarrow> u32 \<Rightarrow> u32 \<Rightarrow> i2c_world \<Rightarrow> (u32 \<times> i2c_world) option" where
  "i2c_rx_read_available hw buf max_bytes_to_read w = rx_drain hw buf max_bytes_to_read 0 w"

text \<open>The byte is read and stored also after a timeout.\<close>

definition i2c_rx_read :: "hw \<Rightarrow> u32 \<Rightarrow> i2c_world \<Rightarrow> status_code \<times> i2c_world" where
  "i2c_rx_read hw p w =
     (let (expired, w1) = i2c_poll (rx_empty_cond hw) True 100000 w;
          status = (if expired then I2C_TIMEOUT else I2C_SUCCESS);
          (v, w2) = rd_reg hw RX_DATA_REG w1
      in (status, w2\<lparr>mem := (mem w2)(p := ucast v)\<rparr>))"

definition cmd_word :: "u8 \<Rightarrow> u8 \<Rightarrow> u8 \<Rightarrow> u32" where
  "cmd_word val issue_restart issue_stop =
     ucast val OR push_bit TFR_CMD_STA_OFST (ucast issue_restart)
               OR push_bit TFR_CMD_STO_OFST (ucast issue_stop)"

definition i2c_cmd_write :: "hw \<Rightarrow> u8 \<Rightarrow> u8 \<Rightarrow> u8 \<Rightarrow> i2c_world \<Rightarrow> status_code \<times> i2c_world" where
  "i2c_cmd_write hw val issue_restart issue_stop w =
     (let (expired, w1) = i2c_poll (tx_not_ready_cond hw) True 10000 w
      in if expired then (I2C_TIMEOUT, w1)
         else (let w2 = wr_reg TFR_CMD_REG (cmd_word val issue_restart issue_stop) w1;
                   (status, w3) = i2c_check_nack hw I2C_SUCCESS w2
               in i2c_check_arblost hw status w3))"

definition TARGET_ADDR_MASK_10BIT :: u32 where "TARGET_ADDR_MASK_10BIT = 0x7800"

definition I2C_READ :: u32 where "I2C_READ = 1"

definition I2C_WRITE :: u32 where "I2C_WRITE = 0"

definition i2c_send_address :: "hw \<Rightarrow> u32 \<Rightarrow> u8 \<Rightarrow> i2c_world \<Rightarrow> status_code \<times> i2c_world" where
  "i2c_send_address hw rw_bit issue_restart w =
     (let target = master_target_address (dev w)
      in if address_mode (dev w) = ADDR_MODE_10_BIT then
           (let (status1, w1) = i2c_cmd_write hw
                  (ucast ((drop_bit 7 (target OR TARGET_ADDR_MASK_10BIT) AND 0xfe) OR rw_bit))
                  issue_restart 0 w
            in i2c_cmd_write hw (ucast (target AND 0xff)) 0 0 w1)
         else i2c_cmd_write hw (ucast (push_bit 1 target OR rw_bit)) issue_restart 0 w)"

section \<open>Polled transmit\<close>

function tx_bytes ::
  "hw \<Rightarrow> u32 \<Rightarrow> u32 \<Rightarrow> status_code \<Rightarrow> i2c_world \<Rightarrow> u32 \<times> u32 \<times> status_code \<times> i2c_world" where
  "tx_bytes hw buf size0 status w =
     (if size0 > 1 \<and> status = I2C_SUCCESS then
        (let (status1, w1) = i2c_cmd_write hw (mem w buf) 0 0 w
         in tx_bytes hw (buf + 1) (size0 - 1) status1 w1)
      else (buf, size0, status, w))"
  by pat_completeness auto

termination
  by (relation "measure (\<lambda>(hw, buf, size0, status, w). unat size0)")
     (auto intro!: unat_minus_one_less simp: word_less_nat_alt)

declare tx_bytes.simps [simp del]

text \<open>The bytes after the address, the last one with \<open>issue_stop\<close>; both transmit functions have it.\<close>

definition tx_body ::
  "hw \<Rightarrow> u32 \<Rightarrow> u32 \<Rightarrow> u8 \<Rightarrow> status_code \<Rightarrow> i2c_world \<Rightarrow> status_code \<times> i2c_world" where
  "tx_body hw buf size0 issue_stop status w =
     (if status = I2C_SUCCESS then
        (let (buf1, size1, status1, w1) = tx_bytes hw buf size0 status w
         in if status1 = I2C_SUCCESS then i2c_cmd_write hw (mem w1 buf1) 0 issue_stop w1
            else (status1, w1))
      else (status, w))"

definition i2c_master_transmit ::
  "hw \<Rightarrow> u32 \<Rightarrow> u32 \<Rightarrow> u8 \<Rightarrow> u8 \<Rightarrow> i2c_world \<Rightarrow> status_code \<times> i2c_world" where
  "i2c_master_transmit hw buf size0 issue_restart issue_stop w =
     (if size0 = 0 then (I2C_SUCCESS, w)
      else
        let timeout = size0 * 10000;
            (status0, w1) = (if issue_restart = 0 then i2c_enable hw w else (I2C_SUCCESS, w))
        in if status0 \<noteq> I2C_SUCCESS then (status0, w1)
           else
             let w2 = (if issue_restart = 0 then i2c_int_clear ISR_ALL_CLEARABLE_INTS_MSK w1 else w1);
                 (status1, w3) = i2c_send_address hw I2C_WRITE issue_restart w2;
                 (status2, w4) = tx_body hw buf size0 issue_stop status1 w3
             in if issue_stop \<noteq> 0 \<or> status2 \<noteq> I2C_SUCCESS then
                  (let (status3, w5) = i2c_wait_idle hw timeout status2 w4;
                       (status4, w6) = i2c_check_nack hw status3 w5
                   in (status4, i2c_disable hw w6))
                else (status2, w4))"

section \<open>Polled receive\<close>

function rx_cmds ::
  "hw \<Rightarrow> u32 \<Rightarrow> u32 \<Rightarrow> u32 \<Rightarrow> u32 \<Rightarrow> status_code \<Rightarrow> i2c_world
    \<Rightarrow> (u32 \<times> u32 \<times> status_code \<times> i2c_world) option" where
  "rx_cmds hw size0 bytes_written buf bytes_read status w =
     (if bytes_written < size0 - 1 \<and> status = I2C_SUCCESS then
        (let (status1, w1) = i2c_cmd_write hw 0 0 0 w
         in if status1 = I2C_SUCCESS then
              (case i2c_rx_read_available hw buf 0 w1 of
                 None \<Rightarrow> None
               | Some (n, w2) \<Rightarrow>
                   rx_cmds hw size0 (bytes_written + 1) (buf + n) (bytes_read + n) status1 w2)
            else rx_cmds hw size0 (bytes_written + 1) buf bytes_read status1 w1)
      else Some (buf, bytes_read, status, w))"
  by pat_completeness auto

termination
  by (relation "measure (\<lambda>(hw, size0, bytes_written, _). unat (size0 - 1) - unat bytes_written)")
     (auto simp: unat_Suc_bound word_less_nat_alt)

declare rx_cmds.simps [simp del]

function rx_rest ::
  "hw \<Rightarrow> u32 \<Rightarrow> u32 \<Rightarrow> u32 \<Rightarrow> status_code \<Rightarrow> i2c_world \<Rightarrow> status_code \<times> i2c_world" where
  "rx_rest hw size0 buf bytes_read status w =
     (if bytes_read < size0 \<and> status = I2C_SUCCESS then
        (let (status1, w1) = i2c_rx_read hw buf w
         in rx_rest hw size0 (buf + 1) (bytes_read + 1) status1 w1)
      else (status, w))"
  by pat_completeness auto

termination
  by (relation "measure (\<lambda>(hw, size0, buf, bytes_read, _). unat size0 - unat bytes_read)")
     (auto simp: unat_Suc_bound word_less_nat_alt)

declare rx_rest.simps [simp del]

definition i2c_master_receive ::
  "hw \<Rightarrow> u32 \<Rightarrow> u32 \<Rightarrow> u8 \<Rightarrow> u8 \<Rightarrow> i2c_world \<Rightarrow> (status_code \<times> i2c_world) option" where
  "i2c_master_receive hw buf size0 issue_restart issue_stop w =
     (if size0 = 0 then Some (I2C_SUCCESS, w)
      else
        let (status0, w1) = (if issue_restart = 0 then i2c_enable hw w else (I2C_SUCCESS, w))
        in if status0 \<noteq> I2C_SUCCESS then Some (status0, w1)
           else
             let w2 = (if issue_restart = 0 then i2c_int_clear ISR_ALL_CLEARABLE_INTS_MSK w1 else w1);
                 (status1, w3) = i2c_send_address hw I2C_READ issue_restart w2
             in (case (if status1 = I2C_SUCCESS then
                         (case rx_cmds hw size0 0 buf 0 status1 w3 of
                            None \<Rightarrow> None
                          | Some (buf1, n, st, wa) \<Rightarrow>
                              (if st = I2C_SUCCESS then
                                 (let (st1, wb) = i2c_cmd_write hw 0 0 issue_stop wa
                                  in Some (buf1, n, st1, wb))
                               else Some (buf1, n, st, wa)))
                       else Some (buf, 0, status1, w3)) of
                   None \<Rightarrow> None
                 | Some (buf2, bytes_read, status2, w4) \<Rightarrow>
                     (let (status3, w5) = rx_rest hw size0 buf2 bytes_read status2 w4
                      in if issue_stop \<noteq> 0 \<or> status3 \<noteq> I2C_SUCCESS then
                           (let (status4, w6) = i2c_wait_idle hw (10000 * size0) status3 w5;
                                (status5, w7) = i2c_check_nack hw status4 w6
                            in Some (status5, i2c_disable hw w7))
                         else Some (status3, w5))))"

end
