(* ===== verification/I2cBus.thy ===== *)
theory I2cBus
  imports I2cXfer
begin

text \<open>
  What the polled transfers of the I2C driver put on the bus and into memory: the writes of every operation
  (\<open>emits\<close>), the sequence of command words of a transmission, and the bytes a reception delivers.
\<close>

section \<open>The writes of the single operations\<close>

text \<open>The I2C steps below do not read the receive FIFO.\<close>

abbreviation bus_emits :: "i2c_world \<Rightarrow> i2c_world \<Rightarrow> (u32 \<times> u32 \<times> u32) list \<Rightarrow> bool" where
  "bus_emits \<equiv> emits {RX_DATA_REG}"

lemma emits_dev: "bus_emits w w' ws \<Longrightarrow> dev w' = dev w"
  by (auto simp: emits_def)

lemma emits_mem: "bus_emits w w' ws \<Longrightarrow> mem w' = mem w"
  by (auto simp: emits_def)

lemma emits_irqs: "bus_emits w w' ws \<Longrightarrow> irqs w' = irqs w"
  by (auto simp: emits_def)

lemmas emits_frame = emits_dev emits_mem emits_irqs

lemma regs_not_rx [simp]:
  "STATUS_REG \<noteq> RX_DATA_REG" "ISR_REG \<noteq> RX_DATA_REG" "RX_DATA_FIFO_LVL_REG \<noteq> RX_DATA_REG"
  "CTRL_REG \<noteq> RX_DATA_REG" "ISER_REG \<noteq> RX_DATA_REG" "TFR_CMD_REG \<noteq> RX_DATA_REG"
  by (simp_all add: reg_defs)

lemma emits_rd [emits_intros]: "r \<noteq> RX_DATA_REG \<Longrightarrow> bus_emits w (snd (rd_reg hw r w)) []"
  unfolding rd_reg_def by (rule emits_iord) simp

lemma emits_wr [emits_intros]: "bus_emits w (wr_reg r v w) [(i2c_base (dev w), r, v)]"
  unfolding wr_reg_def by (rule emits_iowr)

lemma emits_rmw [emits_intros]:
  "r \<noteq> RX_DATA_REG \<Longrightarrow> bus_emits w (rmw_reg hw r v m w)
     [(i2c_base (dev w), r, (hw (io w) (i2c_base (dev w)) r AND NOT m) OR (v AND m))]"
  unfolding rmw_reg_def by (rule emits_iormw) simp

lemma emits_is_busy [emits_intros]: "bus_emits w (snd (i2c_is_busy hw w)) []"
  using emits_rd[of STATUS_REG w hw] by (auto simp: i2c_is_busy_def split: prod.splits)

lemma emits_busy_cond [emits_intros]: "bus_emits w (snd (busy_cond hw w)) []"
  using emits_is_busy[of w hw] by (auto simp: busy_cond_def split: prod.splits)

lemma emits_tx_not_ready [emits_intros]: "bus_emits w (snd (tx_not_ready_cond hw w)) []"
  using emits_rd[of ISR_REG w hw] by (auto simp: tx_not_ready_cond_def split: prod.splits)

lemma emits_rx_empty [emits_intros]: "bus_emits w (snd (rx_empty_cond hw w)) []"
  using emits_rd[of RX_DATA_FIFO_LVL_REG w hw] by (auto simp: rx_empty_cond_def split: prod.splits)

lemma emits_poll:
  assumes "\<And>w. bus_emits w (snd (cond w)) []"
  shows "bus_emits w (snd (i2c_poll cond sleeps timeout w)) []"
  using assms
proof (induction cond sleeps timeout w rule: i2c_poll.induct)
  case (1 cond sleeps timeout w)
  obtain c w1 where c: "cond w = (c, w1)" by fastforce
  define w2 where "w2 = (if sleeps \<and> timeout < 10 then busy_sleep 10000 w1 else w1)"
  have e1: "bus_emits w w1 []" using "1.prems"[of w] c by simp
  have e2: "bus_emits w w2 []"
    using emits_trans[OF e1 emits_busy_sleep] e1 by (simp add: w2_def)
  show ?case
  proof (cases "c \<and> timeout - 1 \<noteq> 0")
    case True
    then have "bus_emits w2 (snd (i2c_poll cond sleeps (timeout - 1) w2)) []"
      using "1.IH"[OF c[symmetric] refl _ w2_def] "1.prems" by (simp add: c)
    with e2 have "bus_emits w (snd (i2c_poll cond sleeps (timeout - 1) w2)) []"
      using emits_trans by fastforce
    then show ?thesis using True by (subst i2c_poll.simps) (simp add: c w2_def Let_def)
  next
    case False
    then show ?thesis using e1 e2 by (subst i2c_poll.simps) (auto simp: c w2_def Let_def)
  qed
qed

lemma emits_wait_idle [emits_intros]: "bus_emits w (snd (i2c_wait_idle hw timeout status w)) []"
  using emits_poll[of "busy_cond hw" w True timeout] emits_busy_cond
  by (auto simp: i2c_wait_idle_def split: prod.splits)

lemma emits_check_nack [emits_intros]: "bus_emits w (snd (i2c_check_nack hw status w)) []"
  using emits_rd[of ISR_REG w hw] by (auto simp: i2c_check_nack_def split: prod.splits)

lemma emits_check_arblost [emits_intros]: "bus_emits w (snd (i2c_check_arblost hw status w)) []"
  using emits_rd[of ISR_REG w hw] by (auto simp: i2c_check_arblost_def split: prod.splits)

lemma emits_int_clear [emits_intros]:
  "bus_emits w (i2c_int_clear m w) [(i2c_base (dev w), ISR_REG, m)]"
  unfolding i2c_int_clear_def by (rule emits_wr)

lemma emits_disable:
  "\<exists>v. bus_emits w (i2c_disable hw w) [(i2c_base (dev w), CTRL_REG, v AND NOT CTRL_EN_MSK)]"
  using emits_rmw[of CTRL_REG w hw 0 CTRL_EN_MSK] by (auto simp: i2c_disable_def)

text \<open>The statuses of one command write, and the word it writes unless it times out.\<close>

definition cmd_status :: "status_code \<Rightarrow> bool" where
  "cmd_status st \<longleftrightarrow> st \<in> {I2C_SUCCESS, I2C_TIMEOUT, I2C_NACK_ERR, I2C_ARB_LOST_ERR}"

lemma cmd_write_emits:
  assumes "i2c_cmd_write hw v rs sp w = (st, w')"
  shows "cmd_status st"
    and "bus_emits w w' (if st = I2C_TIMEOUT then []
                     else [(i2c_base (dev w), TFR_CMD_REG, cmd_word v rs sp)])"
proof -
  obtain e w1 where p: "i2c_poll (tx_not_ready_cond hw) True 10000 w = (e, w1)" by fastforce
  have e1: "bus_emits w w1 []"
    using emits_poll[of "tx_not_ready_cond hw" w True 10000] emits_tx_not_ready by (simp add: p)
  define w2 where "w2 = wr_reg TFR_CMD_REG (cmd_word v rs sp) w1"
  obtain s3 w3 where n: "i2c_check_nack hw I2C_SUCCESS w2 = (s3, w3)" by fastforce
  obtain s4 w4 where a: "i2c_check_arblost hw s3 w3 = (s4, w4)" by fastforce
  have e2: "bus_emits w w2 [(i2c_base (dev w), TFR_CMD_REG, cmd_word v rs sp)]"
    unfolding w2_def using emits_trans[OF e1 emits_wr] e1 by (simp add: emits_dev)
  have e3: "bus_emits w2 w3 []" using emits_check_nack[of w2 hw I2C_SUCCESS] n by simp
  have e4: "bus_emits w3 w4 []" using emits_check_arblost[of w3 hw s3] a by simp
  have e: "bus_emits w w4 [(i2c_base (dev w), TFR_CMD_REG, cmd_word v rs sp)]"
    using emits_trans[OF e2 emits_trans[OF e3 e4]] by simp
  have s: "s4 \<in> {I2C_SUCCESS, I2C_NACK_ERR, I2C_ARB_LOST_ERR}"
    using n a by (auto simp: i2c_check_nack_def i2c_check_arblost_def split: prod.splits if_splits)
  have r: "(st, w') = (if e then (I2C_TIMEOUT, w1) else (s4, w4))"
    using assms by (simp add: i2c_cmd_write_def p n a Let_def w2_def[symmetric] split: if_splits)
  show "cmd_status st" using r s by (auto simp: cmd_status_def split: if_splits)
  show "bus_emits w w' (if st = I2C_TIMEOUT then []
                     else [(i2c_base (dev w), TFR_CMD_REG, cmd_word v rs sp)])"
    using r s e e1 by (auto simp: status_defs split: if_splits)
qed

lemma SUCCESS_not_TIMEOUT [simp]: "I2C_SUCCESS \<noteq> I2C_TIMEOUT" "I2C_TIMEOUT \<noteq> I2C_SUCCESS"
  by (simp_all add: status_defs)

section \<open>Transmission\<close>

text \<open>The bytes of a buffer in memory.\<close>

primrec mem_bytes :: "(u32 \<Rightarrow> u8) \<Rightarrow> u32 \<Rightarrow> nat \<Rightarrow> u8 list" where
  "mem_bytes m p 0 = []"
| "mem_bytes m p (Suc n) = m p # mem_bytes m (p + 1) n"

lemma length_mem_bytes [simp]: "length (mem_bytes m p n) = n"
  by (induction n arbitrary: p) auto

lemma mem_bytes_2: "mem_bytes m p 2 = [m p, m (p + 1)]"
  by (simp add: numeral_2_eq_2)

lemma nth_mem_bytes: "i < n \<Longrightarrow> mem_bytes m p n ! i = m (p + of_nat i)"
  by (induction n arbitrary: p i) (auto simp: nth_Cons' add.assoc gr0_conv_Suc)

lemma mem_bytes_snoc: "mem_bytes m p (Suc n) = mem_bytes m p n @ [m (p + of_nat n)]"
proof (induction n arbitrary: p)
  case (Suc n)
  have "mem_bytes m p (Suc (Suc n)) = m p # mem_bytes m (p + 1) (Suc n)" by simp
  also have "\<dots> = m p # (mem_bytes m (p + 1) n @ [m (p + 1 + of_nat n)])"
    by (rule arg_cong[OF Suc.IH])
  also have "\<dots> = mem_bytes m p (Suc n) @ [m (p + of_nat (Suc n))]"
    by (simp add: add.assoc)
  finally show ?case .
qed simp

definition cmd_writes :: "u32 \<Rightarrow> u32 list \<Rightarrow> (u32 \<times> u32 \<times> u32) list" where
  "cmd_writes b cs = map (\<lambda>c. (b, TFR_CMD_REG, c)) cs"

lemma cmd_writes_simps [simp]:
  "cmd_writes b [] = []" "cmd_writes b (c # cs) = (b, TFR_CMD_REG, c) # cmd_writes b cs"
  "cmd_writes b (cs @ ds) = cmd_writes b cs @ cmd_writes b ds"
  by (simp_all add: cmd_writes_def)

text \<open>
  All bytes but the last: a prefix of the words is written, all of them when the status is
  SUCCESS.
\<close>

lemma tx_bytes_emits:
  assumes "tx_bytes hw buf size0 st0 w = (buf', size1, st, w')" "st0 = I2C_SUCCESS"
    "unat size0 = Suc n"
  shows "cmd_status st \<and> (\<exists>k\<le>n.
      bus_emits w w' (cmd_writes (i2c_base (dev w))
         (map (\<lambda>x. cmd_word x 0 0) (take k (mem_bytes (mem w) buf n))))
      \<and> (st = I2C_SUCCESS \<longrightarrow> k = n \<and> buf' = buf + of_nat n))"
  using assms
proof (induction n arbitrary: buf size0 st0 w)
  case 0
  then have "\<not> size0 > 1" by (simp add: word_less_nat_alt)
  with 0 show ?case by (simp add: tx_bytes.simps emits_refl cmd_status_def)
next
  case (Suc n)
  then have gt: "size0 > 1" by (simp add: word_less_nat_alt)
  obtain s1 w1 where c: "i2c_cmd_write hw (mem w buf) 0 0 w = (s1, w1)" by fastforce
  note ce = cmd_write_emits[OF c]
  have rest: "tx_bytes hw (buf + 1) (size0 - 1) s1 w1 = (buf', size1, st, w')"
    using Suc.prems(1,2) gt by (subst (asm) tx_bytes.simps) (simp add: c)
  show ?case
  proof (cases "s1 = I2C_SUCCESS")
    case True
    have "unat (size0 - 1) = Suc n"
      using Suc.prems(3) unat_minus_one_Suc[of size0] by force
    from Suc.IH[OF rest True this] obtain k where k: "cmd_status st" "k \<le> n"
      "bus_emits w1 w' (cmd_writes (i2c_base (dev w1))
         (map (\<lambda>x. cmd_word x 0 0) (take k (mem_bytes (mem w1) (buf + 1) n))))"
      "st = I2C_SUCCESS \<longrightarrow> k = n \<and> buf' = buf + 1 + of_nat n"
      by blast
    have e1: "bus_emits w w1 [(i2c_base (dev w), TFR_CMD_REG, cmd_word (mem w buf) 0 0)]"
      using ce(2) True by simp
    have "bus_emits w w' (cmd_writes (i2c_base (dev w))
         (map (\<lambda>x. cmd_word x 0 0) (take (Suc k) (mem_bytes (mem w) buf (Suc n)))))"
      using emits_trans[OF e1 k(3)] e1 by (simp add: emits_frame)
    then show ?thesis using k by (intro conjI exI[of _ "Suc k"]) (auto simp: add.assoc)
  next
    case False
    then have r: "st = s1" "w' = w1"
      using rest by (simp_all add: tx_bytes.simps)
    show ?thesis
      using ce False r
      by (cases "s1 = I2C_TIMEOUT")
         (auto intro: exI[of _ 0] exI[of _ "1::nat"] simp: cmd_writes_def)
  qed
qed

text \<open>The words that address the target and then send the bytes.\<close>

definition address_words :: "i2c_dev \<Rightarrow> u32 \<Rightarrow> u8 \<Rightarrow> u32 list" where
  "address_words d rw rs =
     (let target = master_target_address d
      in if address_mode d = ADDR_MODE_10_BIT
         then [cmd_word (ucast ((drop_bit 7 (target OR TARGET_ADDR_MASK_10BIT) AND 0xfe) OR rw)) rs 0,
               cmd_word (ucast (target AND 0xff)) 0 0]
         else [cmd_word (ucast (push_bit 1 target OR rw)) rs 0])"

definition data_words :: "u8 list \<Rightarrow> u8 \<Rightarrow> u32 list" where
  "data_words bs stop = map (\<lambda>x. cmd_word x 0 0) (butlast bs) @ [cmd_word (last bs) 0 stop]"

lemma data_words_mem:
  "data_words (mem_bytes m p (Suc n)) stop
     = map (\<lambda>x. cmd_word x 0 0) (mem_bytes m p n) @ [cmd_word (m (p + of_nat n)) 0 stop]"
  unfolding data_words_def mem_bytes_snoc by simp

text \<open>With a 7-bit address the address word is written unless the status is TIMEOUT.\<close>

lemma send_address_7:
  assumes "i2c_send_address hw rw rs w = (st, w')" "address_mode (dev w) \<noteq> ADDR_MODE_10_BIT"
  shows "cmd_status st \<and> bus_emits w w' (cmd_writes (i2c_base (dev w))
    (if st = I2C_TIMEOUT then [] else address_words (dev w) rw rs))"
proof -
  have "i2c_cmd_write hw (ucast (push_bit 1 (master_target_address (dev w)) OR rw)) rs 0 w = (st, w')"
    using assms by (simp add: i2c_send_address_def Let_def)
  from cmd_write_emits[OF this] show ?thesis
    using assms(2) by (auto simp: address_words_def Let_def)
qed

lemma enable_success:
  assumes "i2c_enable hw w = (I2C_SUCCESS, w1)" "callback (dev w) \<noteq> OptionalIrqCallback"
  shows "\<exists>v. bus_emits w w1 [(i2c_base (dev w), CTRL_REG, v OR CTRL_EN_MSK)]"
proof -
  let ?v = "hw (io w) (i2c_base (dev w)) CTRL_REG"
  let ?wa = "w\<lparr>io := Rd (i2c_base (dev w)) CTRL_REG ?v # io w\<rparr>"
  have w1: "w1 = rmw_reg hw CTRL_REG 1 1 ?wa"
    using assms by (auto simp: enable_cases Let_def status_defs split: if_splits)
  have "bus_emits w ?wa []" using emits_rd[of CTRL_REG w hw] by (simp add: rd_reg_eq)
  from emits_trans[OF this emits_rmw[of CTRL_REG ?wa hw 1 1]]
  have e: "\<exists>x. bus_emits w w1 [(i2c_base (dev w), CTRL_REG, (x AND NOT 1) OR (1 AND 1))]"
    by (auto simp: w1)
  have "((x::u32) AND NOT 1) OR (1 AND 1) = x OR CTRL_EN_MSK" for x
    by (rule bit_eqI) (auto simp: CTRL_EN_MSK_def bit_simps)
  with e show ?thesis by simp
qed

lemma enable_busy:
  assumes "i2c_enable hw w = (st, w1)" "st \<noteq> I2C_SUCCESS"
  shows "st = I2C_BUSY \<and> bus_emits w w1 []"
  using assms emits_rd[of CTRL_REG w hw]
  by (auto simp: enable_cases Let_def rd_reg_eq split: if_splits)

text \<open>The part of a transmission between enabling and the wait for the idle state.\<close>

lemma transmit_body:
  assumes "i2c_send_address hw I2C_WRITE rs w2 = (status1, w3)"
    and body: "tx_body hw buf size0 stop status1 w3 = (status2, w4)"
    and "size0 \<noteq> 0" "address_mode (dev w2) \<noteq> ADDR_MODE_10_BIT"
    and ws: "ws = address_words (dev w2) I2C_WRITE rs
                  @ data_words (mem_bytes (mem w2) buf (unat size0)) stop"
  shows "cmd_status status2 \<and> (\<exists>k\<le>length ws. bus_emits w2 w4 (cmd_writes (i2c_base (dev w2)) (take k ws))
     \<and> (status2 = I2C_SUCCESS \<longrightarrow> k = length ws))"
proof -
  obtain n where n: "unat size0 = Suc n"
    using assms(3) unat_eq_zero not0_implies_Suc by blast
  note sa = send_address_7[OF assms(1,4)]
  have len: "length (address_words (dev w2) I2C_WRITE rs) = 1"
    using assms(4) by (simp add: address_words_def Let_def)
  show ?thesis
  proof (cases "status1 = I2C_SUCCESS")
    case False
    then have r: "status2 = status1" "w4 = w3" using body by (simp_all add: tx_body_def)
    show ?thesis
      using sa False r len ws
      by (cases "status1 = I2C_TIMEOUT") (auto intro: exI[of _ 0] exI[of _ "1::nat"])
  next
    case True
    obtain buf1 size1 st wa where t: "tx_bytes hw buf size0 status1 w3 = (buf1, size1, st, wa)"
      by (metis prod_cases4)
    have e3: "bus_emits w2 w3 (cmd_writes (i2c_base (dev w2)) (address_words (dev w2) I2C_WRITE rs))"
      using sa True by simp
    from tx_bytes_emits[OF t True n] obtain k where k: "cmd_status st" "k \<le> n"
      "bus_emits w3 wa (cmd_writes (i2c_base (dev w3))
         (map (\<lambda>x. cmd_word x 0 0) (take k (mem_bytes (mem w3) buf n))))"
      "st = I2C_SUCCESS \<longrightarrow> k = n \<and> buf1 = buf + of_nat n"
      by blast
    have ws': "ws = address_words (dev w2) I2C_WRITE rs
        @ map (\<lambda>x. cmd_word x 0 0) (mem_bytes (mem w2) buf n)
        @ [cmd_word (mem w2 (buf + of_nat n)) 0 stop]"
      unfolding ws n data_words_mem by simp
    have fr: "dev w3 = dev w2" "mem w3 = mem w2" using e3 by (simp_all add: emits_frame)
    have ea: "bus_emits w2 wa (cmd_writes (i2c_base (dev w2)) (take (Suc k) ws))"
      using emits_trans[OF e3 k(3)] k(2) len by (simp add: ws' fr take_map)
    show ?thesis
    proof (cases "st = I2C_SUCCESS")
      case False
      then have "status2 = st" "w4 = wa" using body True t by (simp_all add: tx_body_def)
      then show ?thesis using ea k(1,2) False len by (auto simp: ws' intro!: exI[of _ "Suc k"])
    next
      case stS: True
      have c: "i2c_cmd_write hw (mem wa buf1) 0 stop wa = (status2, w4)"
        using body True t stS by (simp add: tx_body_def)
      note ce = cmd_write_emits[OF c]
      have fra: "dev wa = dev w2" "mem wa = mem w2" using ea by (simp_all add: emits_frame)
      have full: "take (Suc k) ws @ [cmd_word (mem w2 (buf + of_nat n)) 0 stop] = ws"
        using k(4) stS len by (simp add: ws')
      show ?thesis
      proof (cases "status2 = I2C_TIMEOUT")
        case True
        then have "bus_emits wa w4 []" using ce(2) by simp
        from emits_trans[OF ea this] show ?thesis
          using True ce(1) k(2) len by (auto simp: ws' intro!: exI[of _ "Suc k"])
      next
        case False
        then have "bus_emits wa w4 [(i2c_base (dev w2), TFR_CMD_REG, cmd_word (mem w2 (buf + of_nat n)) 0 stop)]"
          using ce(2) k(4) stS fra by simp
        from emits_trans[OF ea this]
        have "bus_emits w2 w4 (cmd_writes (i2c_base (dev w2)) (take (Suc k) ws @ [cmd_word (mem w2 (buf + of_nat n)) 0 stop]))"
          by simp
        then show ?thesis unfolding full using ce(1) by (auto intro!: exI[of _ "length ws"])
      qed
    qed
  qed
qed

text \<open>The end of a transaction: wait for idle, look for a NACK, disable.\<close>

lemma finish_emits:
  assumes "i2c_wait_idle hw timeout st0 w4 = (st1, w5)" "i2c_check_nack hw st1 w5 = (st, w6)"
  shows "\<exists>v. bus_emits w4 (i2c_disable hw w6) [(i2c_base (dev w4), CTRL_REG, v AND NOT CTRL_EN_MSK)]"
    and "st = I2C_SUCCESS \<Longrightarrow> st0 = I2C_SUCCESS"
proof -
  have "bus_emits w4 w5 []" using emits_wait_idle[of w4 hw timeout st0] assms(1) by simp
  moreover have "bus_emits w5 w6 []" using emits_check_nack[of w5 hw st1] assms(2) by simp
  ultimately have e: "bus_emits w4 w6 []" using emits_trans by fastforce
  obtain v where "bus_emits w6 (i2c_disable hw w6) [(i2c_base (dev w6), CTRL_REG, v AND NOT CTRL_EN_MSK)]"
    using emits_disable by blast
  from emits_trans[OF e this] e
  show "\<exists>v. bus_emits w4 (i2c_disable hw w6) [(i2c_base (dev w4), CTRL_REG, v AND NOT CTRL_EN_MSK)]"
    by (auto simp: emits_frame)
  show "st = I2C_SUCCESS \<Longrightarrow> st0 = I2C_SUCCESS"
    using assms by (auto simp: i2c_wait_idle_def i2c_check_nack_def status_defs
        split: prod.splits if_splits)
qed

lemma finish_status:
  assumes "i2c_wait_idle hw timeout st0 w4 = (st1, w5)" "i2c_check_nack hw st1 w5 = (st, w6)"
  shows "st \<in> {st0, I2C_TIMEOUT, I2C_NACK_ERR}"
  using assms by (auto simp: i2c_wait_idle_def i2c_check_nack_def split: prod.splits if_splits)

text \<open>
  C1: A polled write transaction (7-bit address, not a continuation, with STOP) does the
  following on any device: it is refused with BUSY and writes nothing when the controller is in
  use; otherwise it sets the enable bit, clears the interrupt status, writes to the command FIFO
  the address with the write bit and then the bytes of the buffer in order, the last one with
  STOP, or a prefix of that when a command fails, and last of all clears the enable bit. The
  result is SUCCESS only if every word of the sequence was written. Nothing else is written, and
  the memory and the driver structures are left alone.
\<close>

theorem transmit_on_the_bus:
  assumes "size0 \<noteq> 0" "address_mode (dev w) \<noteq> ADDR_MODE_10_BIT"
    and "callback (dev w) \<noteq> OptionalIrqCallback"
    and "i2c_master_transmit hw buf size0 0 1 w = (st, w')"
    and "ws = address_words (dev w) I2C_WRITE 0 @ data_words (mem_bytes (mem w) buf (unat size0)) 1"
  shows "(if bit (hw (io w) (i2c_base (dev w)) CTRL_REG) 0 then st = I2C_BUSY \<and> bus_emits w w' []
    else \<exists>k\<le>length ws. \<exists>v1 v2.
         bus_emits w w' ((i2c_base (dev w), CTRL_REG, v1 OR CTRL_EN_MSK)
                   # (i2c_base (dev w), ISR_REG, ISR_ALL_CLEARABLE_INTS_MSK)
                   # cmd_writes (i2c_base (dev w)) (take k ws)
                   @ [(i2c_base (dev w), CTRL_REG, v2 AND NOT CTRL_EN_MSK)])
         \<and> (st = I2C_SUCCESS \<longrightarrow> k = length ws) \<and> st \<noteq> I2C_BUSY)"
proof -
  obtain st0 w1 where en: "i2c_enable hw w = (st0, w1)" by fastforce
  show ?thesis
  proof (cases "st0 = I2C_SUCCESS")
    case False
    then have "(st, w') = (st0, w1)"
      using assms(1,4) en by (simp add: i2c_master_transmit_def Let_def)
    moreover have "bit (hw (io w) (i2c_base (dev w)) CTRL_REG) 0"
      using en False by (auto simp: enable_cases Let_def split: if_splits)
    ultimately show ?thesis using enable_busy[OF en False] by simp
  next
    case True
    have free: "\<not> bit (hw (io w) (i2c_base (dev w)) CTRL_REG) 0"
      using en True by (auto simp: enable_cases Let_def status_defs split: if_splits)
    define w2 where "w2 = i2c_int_clear ISR_ALL_CLEARABLE_INTS_MSK w1"
    obtain s1 w3 where sa: "i2c_send_address hw I2C_WRITE 0 w2 = (s1, w3)" by fastforce
    obtain s2 w4 where body: "tx_body hw buf size0 1 s1 w3 = (s2, w4)" by fastforce
    obtain s3 w5 where wi: "i2c_wait_idle hw (size0 * 10000) s2 w4 = (s3, w5)" by fastforce
    obtain s4 w6 where cn: "i2c_check_nack hw s3 w5 = (s4, w6)" by fastforce
    have r: "st = s4" "w' = i2c_disable hw w6"
      using assms(1,4) en True sa wi cn
      by (simp_all add: i2c_master_transmit_def Let_def w2_def[symmetric] body)
    obtain v1 where e1: "bus_emits w w1 [(i2c_base (dev w), CTRL_REG, v1 OR CTRL_EN_MSK)]"
      using enable_success[OF en[unfolded True] assms(3)] by blast
    have e2: "bus_emits w w2 [(i2c_base (dev w), CTRL_REG, v1 OR CTRL_EN_MSK),
        (i2c_base (dev w), ISR_REG, ISR_ALL_CLEARABLE_INTS_MSK)]"
      using emits_trans[OF e1 emits_int_clear[of w1 ISR_ALL_CLEARABLE_INTS_MSK]] e1
      by (simp add: w2_def emits_dev)
    have fr2: "dev w2 = dev w" "mem w2 = mem w" using e2 by (simp_all add: emits_frame)
    from transmit_body[OF sa body assms(1)] assms(2,5) fr2
    obtain k where k: "k \<le> length ws"
      "bus_emits w2 w4 (cmd_writes (i2c_base (dev w)) (take k ws))" "s2 = I2C_SUCCESS \<longrightarrow> k = length ws"
      "cmd_status s2"
      by auto
    have e4: "dev w4 = dev w" using k(2) fr2 by (simp add: emits_dev)
    from finish_emits[OF wi cn] obtain v2 where
      e5: "bus_emits w4 w' [(i2c_base (dev w), CTRL_REG, v2 AND NOT CTRL_EN_MSK)]"
      and s: "st = I2C_SUCCESS \<longrightarrow> s2 = I2C_SUCCESS"
      using r e4 by auto
    have "bus_emits w w' ((i2c_base (dev w), CTRL_REG, v1 OR CTRL_EN_MSK)
                   # (i2c_base (dev w), ISR_REG, ISR_ALL_CLEARABLE_INTS_MSK)
                   # cmd_writes (i2c_base (dev w)) (take k ws)
                   @ [(i2c_base (dev w), CTRL_REG, v2 AND NOT CTRL_EN_MSK)])"
      using emits_trans[OF e2 emits_trans[OF k(2) e5]] by simp
    moreover have "st \<noteq> I2C_BUSY"
      using finish_status[OF wi cn] k(4) r(1) by (auto simp: cmd_status_def status_defs)
    ultimately show ?thesis using k(1,3) s free by auto
  qed
qed

text \<open>A device that is always ready and idle, for the witnesses.\<close>

definition idle_hw :: hw where
  "idle_hw t b r = (if r = ISR_REG then ISR_TX_READY_MSK else 0)"

theorem transmit_on_the_bus_witness:
  "\<exists>k\<le>3. \<exists>v1 v2. bus_emits sample_i2c_world (snd (i2c_master_transmit idle_hw 0x20 2 0 1 sample_i2c_world))
     ((0x1000, CTRL_REG, v1 OR 1) # (0x1000, ISR_REG, 0x1C)
      # cmd_writes 0x1000 (take k [0x3A, 0x20, 0x121]) @ [(0x1000, CTRL_REG, v2 AND NOT 1)])"
proof -
  let ?r = "i2c_master_transmit idle_hw 0x20 2 0 1 sample_i2c_world"
  have en: "\<not> bit (idle_hw (io sample_i2c_world) (i2c_base (dev sample_i2c_world)) CTRL_REG) 0"
    by (simp add: idle_hw_def reg_defs)
  have ws: "address_words (dev sample_i2c_world) I2C_WRITE 0
      @ data_words (mem_bytes (mem sample_i2c_world) 0x20 (unat (2::u32))) 1 = [0x3A, 0x20, 0x121]"
    by (simp add: address_words_def data_words_def mem_bytes_2 cmd_word_def sample_i2c_defs
        I2C_WRITE_def ADDR_MODE_10_BIT_def TFR_CMD_STA_OFST_def TFR_CMD_STO_OFST_def Let_def)
  have d: "i2c_base (dev sample_i2c_world) = 0x1000" by (simp add: sample_i2c_defs)
  have am: "address_mode (dev sample_i2c_world) \<noteq> ADDR_MODE_10_BIT"
    "callback (dev sample_i2c_world) \<noteq> OptionalIrqCallback"
    by (simp_all add: sample_i2c_defs ADDR_MODE_10_BIT_def)
  have l: "length [0x3A, 0x20, 0x121 :: u32] = 3" by simp
  have n: "(2::u32) \<noteq> 0" by simp
  from transmit_on_the_bus[OF n am prod.collapse[symmetric] refl, of idle_hw "0x20"]
  show ?thesis
    unfolding if_not_P[OF en] unfolding ws d l CTRL_EN_MSK_def ISR_ALL_CLEARABLE_INTS_MSK_def
    by blast
qed

end
