(* ===== verification/I2cRecv.thy ===== *)
theory I2cRecv
  imports I2cBus
begin

text \<open>
  What a polled read transaction delivers. The receive FIFO is a queue on the other side of the
  bus: the hypothesis \<open>rx_fifo\<close> says of the device what its documentation says, that it holds a
  byte only for a read command that was written and not yet answered. Under it every loop of
  \<open>master_receive\<close> ends and the buffer is filled exactly.
\<close>

section \<open>Bytes in memory\<close>

primrec put_bytes :: "(u32 \<Rightarrow> u8) \<Rightarrow> u32 \<Rightarrow> u8 list \<Rightarrow> (u32 \<Rightarrow> u8)" where
  "put_bytes m p [] = m"
| "put_bytes m p (x # xs) = put_bytes (m(p := x)) (p + 1) xs"

lemma put_bytes_snoc:
  "put_bytes m p (xs @ [x]) = (put_bytes m p xs)(p + of_nat (length xs) := x)"
  by (induction xs arbitrary: m p) (auto simp: add.assoc)

section \<open>The device\<close>

text \<open>
  Since \<open>t0\<close> one address word was written; each further command word asks for one byte. The fill
  level is not zero only while fewer bytes were read than asked for.
\<close>

definition rx_fifo :: "hw \<Rightarrow> u32 \<Rightarrow> trace \<Rightarrow> bool" where
  "rx_fifo hw b t0 \<longleftrightarrow> (\<forall>d. hw (d @ t0) b RX_DATA_FIFO_LVL_REG \<noteq> 0 \<longrightarrow>
     length (rd_log b RX_DATA_REG d) + 1 < length (wr_log b TFR_CMD_REG d))"

text \<open>
  The state during a reception that began in \<open>w0\<close>: \<open>vs\<close> are the words read from the receive
  FIFO since, \<open>cs\<close> the command words written, and memory holds the bytes from \<open>B\<close> on.
\<close>

definition receiving ::
  "i2c_world \<Rightarrow> u32 \<Rightarrow> u32 list \<Rightarrow> u32 list \<Rightarrow> i2c_world \<Rightarrow> bool" where
  "receiving w0 B vs cs w \<longleftrightarrow>
     (\<exists>d. w = w0\<lparr>io := d @ io w0, mem := put_bytes (mem w0) B (map ucast vs)\<rparr>
        \<and> rd_log (i2c_base (dev w0)) RX_DATA_REG d = vs
        \<and> wr_log (i2c_base (dev w0)) TFR_CMD_REG d = cs)"

lemma receivingE:
  assumes "receiving w0 B vs cs w"
  obtains d where "w = w0\<lparr>io := d @ io w0, mem := put_bytes (mem w0) B (map ucast vs)\<rparr>"
    "rd_log (i2c_base (dev w0)) RX_DATA_REG d = vs" "wr_log (i2c_base (dev w0)) TFR_CMD_REG d = cs"
  using assms by (auto simp: receiving_def)

lemma receiving_frame:
  assumes "receiving w0 B vs cs w"
  shows "dev w = dev w0" "irqs w = irqs w0" "mstatus w = mstatus w0" "mie w = mie w0"
    "mem w = put_bytes (mem w0) B (map ucast vs)"
  using assms by (auto elim!: receivingE)

lemma receiving_start: "receiving w B [] [] w"
  unfolding receiving_def by (rule exI[of _ "[]"]) simp

lemma receiving_emits:
  assumes "receiving w0 B vs cs w" "bus_emits w w' ws"
  shows "receiving w0 B vs
    (cs @ map (\<lambda>(b', r', v). v) (filter (\<lambda>(b', r', v). b' = i2c_base (dev w0) \<and> r' = TFR_CMD_REG) ws)) w'"
proof -
  from assms(1) obtain d where
    d: "w = w0\<lparr>io := d @ io w0, mem := put_bytes (mem w0) B (map ucast vs)\<rparr>"
    "rd_log (i2c_base (dev w0)) RX_DATA_REG d = vs" "wr_log (i2c_base (dev w0)) TFR_CMD_REG d = cs"
    by (rule receivingE)
  obtain e where e: "w' = w\<lparr>io := e @ io w\<rparr>" "wrs e = ws" "\<forall>x\<in>set e. \<not> reads_reg {RX_DATA_REG} x"
    using assms(2) by (auto simp: emits_def)
  have "rd_log (i2c_base (dev w0)) RX_DATA_REG (e @ d) = vs"
    using rd_log_quiet[OF e(3), of RX_DATA_REG] d by (simp add: rd_log_append)
  moreover have "wr_log (i2c_base (dev w0)) TFR_CMD_REG (e @ d)
    = cs @ map (\<lambda>(b', r', v). v) (filter (\<lambda>(b', r', v). b' = i2c_base (dev w0) \<and> r' = TFR_CMD_REG) ws)"
    using d e by (simp add: wr_log_append wr_log_wrs[of _ _ e])
  moreover have "w' = w0\<lparr>io := (e @ d) @ io w0, mem := put_bytes (mem w0) B (map ucast vs)\<rparr>"
    using d(1) e(1) by (cases w0) simp
  ultimately show ?thesis unfolding receiving_def by blast
qed

lemma receiving_quiet: "receiving w0 B vs cs w \<Longrightarrow> bus_emits w w' [] \<Longrightarrow> receiving w0 B vs cs w'"
  using receiving_emits by fastforce

text \<open>One byte taken from the FIFO and stored behind the others.\<close>

lemma receiving_byte:
  assumes "receiving w0 B vs cs w" "rd_reg hw RX_DATA_REG w = (v, w1)"
  shows "receiving w0 B (vs @ [v]) cs (w1\<lparr>mem := (mem w1)(B + of_nat (length vs) := ucast v)\<rparr>)"
proof -
  from assms(1) obtain d where
    d: "w = w0\<lparr>io := d @ io w0, mem := put_bytes (mem w0) B (map ucast vs)\<rparr>"
    "rd_log (i2c_base (dev w0)) RX_DATA_REG d = vs" "wr_log (i2c_base (dev w0)) TFR_CMD_REG d = cs"
    by (rule receivingE)
  show ?thesis unfolding receiving_def
  proof (intro exI[of _ "Rd (i2c_base (dev w0)) RX_DATA_REG v # d"] conjI)
    show "w1\<lparr>mem := (mem w1)(B + of_nat (length vs) := ucast v)\<rparr>
      = w0\<lparr>io := (Rd (i2c_base (dev w0)) RX_DATA_REG v # d) @ io w0,
           mem := put_bytes (mem w0) B (map ucast (vs @ [v]))\<rparr>"
      using assms(2) d(1) by (cases w0) (auto simp: rd_reg_eq put_bytes_snoc)
  qed (use d in simp_all)
qed

lemma receiving_level:
  assumes "receiving w0 B vs cs w" "rx_fifo hw (i2c_base (dev w0)) (io w0)"
    "hw (io w) (i2c_base (dev w)) RX_DATA_FIFO_LVL_REG \<noteq> 0"
  shows "length vs + 1 < length cs"
  using assms by (auto simp: rx_fifo_def elim!: receivingE)

lemma receiving_cmd:
  assumes "receiving w0 B vs cs w" "i2c_cmd_write hw v rs sp w = (st, w')"
  shows "cmd_status st"
    and "receiving w0 B vs (if st = I2C_TIMEOUT then cs else cs @ [cmd_word v rs sp]) w'"
proof -
  have d: "dev w = dev w0" using assms(1) by (rule receiving_frame)
  show "cmd_status st" using cmd_write_emits[OF assms(2)] by simp
  show "receiving w0 B vs (if st = I2C_TIMEOUT then cs else cs @ [cmd_word v rs sp]) w'"
    using receiving_emits[OF assms(1) cmd_write_emits(2)[OF assms(2)]] d by (auto split: if_splits)
qed

section \<open>The loops\<close>

text \<open>Draining ends, and takes no more bytes than were asked for.\<close>

lemma drain_ends:
  assumes "receiving w0 B vs cs w" "rx_fifo hw (i2c_base (dev w0)) (io w0)"
    "p + n = B + of_nat (length vs)" "length vs + 1 \<le> length cs"
  shows "\<exists>n' vs' w'. rx_drain hw p 0 n w = Some (n', w') \<and> receiving w0 B (vs @ vs') cs w'
    \<and> n' = n + of_nat (length vs') \<and> length vs + length vs' + 1 \<le> length cs"
  using assms
proof (induction "length cs - length vs" arbitrary: vs n w rule: less_induct)
  case less
  obtain lvl w1 where r1: "rd_reg hw RX_DATA_FIFO_LVL_REG w = (lvl, w1)" by fastforce
  have rec1: "receiving w0 B vs cs w1"
    using receiving_quiet[OF less.prems(1)] emits_rd[of RX_DATA_FIFO_LVL_REG w hw] r1 by simp
  show ?case
  proof (cases "lvl = 0")
    case True
    then show ?thesis using rec1 less.prems(4)
      by (subst rx_drain.simps) (auto simp: r1 intro!: exI[of _ "[]"])
  next
    case False
    then have more: "length vs + 1 < length cs"
      using receiving_level[OF less.prems(1,2)] r1 by (auto simp: rd_reg_eq)
    obtain v w2 where r2: "rd_reg hw RX_DATA_REG w1 = (v, w2)" by fastforce
    define w3 where "w3 = w2\<lparr>mem := (mem w2)(p + n := ucast v)\<rparr>"
    have rec3: "receiving w0 B (vs @ [v]) cs w3"
      using receiving_byte[OF rec1 r2] less.prems(3) by (simp add: w3_def)
    have pn: "p + (n + 1) = B + of_nat (length (vs @ [v]))"
      using less.prems(3) by (simp add: add.assoc[symmetric])
    have ln: "length cs - length (vs @ [v]) < length cs - length vs"
      "length (vs @ [v]) + 1 \<le> length cs" using more by simp_all
    from less.hyps[OF ln(1) rec3 less.prems(2) pn ln(2)]
    obtain n' vs' w' where ih: "rx_drain hw p 0 (n + 1) w3 = Some (n', w')"
      "receiving w0 B ((vs @ [v]) @ vs') cs w'" "n' = n + 1 + of_nat (length vs')"
      "length (vs @ [v]) + length vs' + 1 \<le> length cs" by blast
    have "rx_drain hw p 0 n w = Some (n', w')"
      using False ih(1) by (subst rx_drain.simps) (simp add: r1 r2 w3_def)
    then show ?thesis using ih(2-4) by (intro exI[of _ n'] exI[of _ "v # vs'"] exI[of _ w']) simp
  qed
qed

lemma cmds_end:
  assumes "receiving w0 B vs (aw @ replicate k (cmd_word 0 0 0)) w" "length aw = 1"
    "rx_fifo hw (i2c_base (dev w0)) (io w0)"
    "unat bw = k" "unat size0 = Suc m" "k \<le> m" "length vs \<le> k"
  shows "\<exists>vs' k' st' w'.
    rx_cmds hw size0 bw (B + of_nat (length vs)) (of_nat (length vs)) I2C_SUCCESS w
      = Some (B + of_nat (length vs'), of_nat (length vs'), st', w')
    \<and> receiving w0 B vs' (aw @ replicate k' (cmd_word 0 0 0)) w'
    \<and> length vs' \<le> k' \<and> k' \<le> m \<and> (st' = I2C_SUCCESS \<longrightarrow> k' = m) \<and> cmd_status st'"
  using assms
proof (induction "m - k" arbitrary: vs k bw w)
  case 0
  then have km: "k = m" by simp
  have "unat (size0 - 1) = m" using 0 unat_minus_one_Suc[of size0] by force
  then have "\<not> bw < size0 - 1" using 0 km by (simp add: word_less_nat_alt)
  then show ?case using 0 km by (subst rx_cmds.simps) (auto simp: cmd_status_def)
next
  case (Suc d)
  then have km: "k < m" by simp
  have um: "unat (size0 - 1) = m" using Suc.prems unat_minus_one_Suc[of size0] by force
  then have lt: "bw < size0 - 1" using Suc.prems km by (simp add: word_less_nat_alt)
  have ub: "unat (bw + 1) = Suc k" using unat_Suc_bound[OF lt] Suc.prems(4) by simp
  have nlt: "\<not> (st = I2C_SUCCESS)" if "st \<noteq> I2C_SUCCESS" for st :: u32 using that by simp
  obtain s1 w1 where c: "i2c_cmd_write hw 0 0 0 w = (s1, w1)" by fastforce
  note rc = receiving_cmd[OF Suc.prems(1) c]
  show ?case
  proof (cases "s1 = I2C_SUCCESS")
    case False
    define k' where "k' = (if s1 = I2C_TIMEOUT then k else Suc k)"
    have r: "receiving w0 B vs (aw @ replicate k' (cmd_word 0 0 0)) w1"
      using rc(2) by (auto simp: k'_def replicate_append_same[symmetric] split: if_splits)
    have "rx_cmds hw size0 bw (B + of_nat (length vs)) (of_nat (length vs)) I2C_SUCCESS w
      = Some (B + of_nat (length vs), of_nat (length vs), s1, w1)"
      using False lt by (subst rx_cmds.simps) (simp add: c, simp add: rx_cmds.simps)
    then show ?thesis using r rc(1) False km Suc.prems(7)
      by (intro exI[of _ vs] exI[of _ k'] exI[of _ s1] exI[of _ w1]) (auto simp: k'_def)
  next
    case True
    have r: "receiving w0 B vs (aw @ replicate (Suc k) (cmd_word 0 0 0)) w1"
      using rc(2) True by (simp add: replicate_append_same[symmetric])
    have "\<exists>n' vs' w'. rx_drain hw (B + of_nat (length vs)) 0 0 w1 = Some (n', w')
      \<and> receiving w0 B (vs @ vs') (aw @ replicate (Suc k) (cmd_word 0 0 0)) w'
      \<and> n' = 0 + of_nat (length vs')
      \<and> length vs + length vs' + 1 \<le> length (aw @ replicate (Suc k) (cmd_word 0 0 0))"
      by (rule drain_ends[OF r Suc.prems(3)]) (use Suc.prems(2,7) in simp_all)
    then obtain vs' w' where dr: "rx_drain hw (B + of_nat (length vs)) 0 0 w1 = Some (of_nat (length vs'), w')"
      "receiving w0 B (vs @ vs') (aw @ replicate (Suc k) (cmd_word 0 0 0)) w'"
      "length (vs @ vs') \<le> Suc k" using Suc.prems(2) by auto
    have "rx_cmds hw size0 bw (B + of_nat (length vs)) (of_nat (length vs)) I2C_SUCCESS w
      = rx_cmds hw size0 (bw + 1) (B + of_nat (length (vs @ vs'))) (of_nat (length (vs @ vs'))) I2C_SUCCESS w'"
      using lt True dr(1)
      by (subst rx_cmds.simps) (simp add: c i2c_rx_read_available_def add.assoc)
    moreover have "d = m - Suc k" "Suc k \<le> m" using Suc.hyps(2) km by simp_all
    ultimately show ?thesis
      using Suc.hyps(1)[OF _ dr(2) Suc.prems(2,3) ub Suc.prems(5) _ dr(3)] by simp
  qed
qed

text \<open>A blocking read takes one word in any case, and may report TIMEOUT.\<close>

lemma rx_read_byte:
  assumes "receiving w0 B vs cs w" "i2c_rx_read hw (B + of_nat (length vs)) w = (st, w')"
  shows "\<exists>v. receiving w0 B (vs @ [v]) cs w'" and "cmd_status st"
proof -
  obtain e w1 where p: "i2c_poll (rx_empty_cond hw) True 100000 w = (e, w1)" by fastforce
  have "receiving w0 B vs cs w1"
    using receiving_quiet[OF assms(1)] emits_poll[of "rx_empty_cond hw" w True 100000]
      emits_rx_empty by (simp add: p)
  moreover obtain v w2 where r: "rd_reg hw RX_DATA_REG w1 = (v, w2)" by fastforce
  ultimately have "receiving w0 B (vs @ [v]) cs (w2\<lparr>mem := (mem w2)(B + of_nat (length vs) := ucast v)\<rparr>)"
    using receiving_byte by blast
  moreover have "w' = w2\<lparr>mem := (mem w2)(B + of_nat (length vs) := ucast v)\<rparr>"
    and st: "st = (if e then I2C_TIMEOUT else I2C_SUCCESS)"
    using assms(2) by (simp_all add: i2c_rx_read_def p r)
  ultimately show "\<exists>v. receiving w0 B (vs @ [v]) cs w'" by blast
  show "cmd_status st" using st by (simp add: cmd_status_def)
qed

lemma rest_ends:
  assumes "receiving w0 B vs cs w" "length vs \<le> unat size0" "cmd_status st0"
    "rx_rest hw size0 (B + of_nat (length vs)) (of_nat (length vs)) st0 w = (st, w')"
  shows "\<exists>vs'. receiving w0 B vs' cs w' \<and> length vs' \<le> unat size0
    \<and> (st = I2C_SUCCESS \<longrightarrow> st0 = I2C_SUCCESS \<and> length vs' = unat size0) \<and> cmd_status st"
  using assms
proof (induction "unat size0 - length vs" arbitrary: vs st0 w)
  case 0
  then have "length vs = unat size0" by simp
  moreover from this have "\<not> of_nat (length vs) < size0" by simp
  ultimately show ?case using "0.prems" by (auto simp: rx_rest.simps)
next
  case (Suc d)
  then have lt: "length vs < unat size0" by simp
  then have lt32: "length vs < 2 ^ 32" using unat_bound_32[of size0] by linarith
  have "unat (of_nat (length vs) :: u32) = length vs" using unat_of_nat_32[OF lt32] .
  then have wl: "of_nat (length vs) < size0" using lt by (simp add: word_less_nat_alt)
  show ?case
  proof (cases "st0 = I2C_SUCCESS")
    case False
    then have "w' = w" "st = st0" using Suc.prems(4) by (simp_all add: rx_rest.simps)
    then show ?thesis using Suc.prems False by blast
  next
    case True
    obtain s1 w1 where r: "i2c_rx_read hw (B + of_nat (length vs)) w = (s1, w1)" by fastforce
    obtain v where v: "receiving w0 B (vs @ [v]) cs w1" and s1: "cmd_status s1"
      using rx_read_byte[OF Suc.prems(1) r] by blast
    have "rx_rest hw size0 (B + of_nat (length (vs @ [v]))) (of_nat (length (vs @ [v]))) s1 w1 = (st, w')"
      using Suc.prems(4) wl True by (subst (asm) rx_rest.simps) (simp add: r ac_simps)
    moreover have "d = unat size0 - length (vs @ [v])" "length (vs @ [v]) \<le> unat size0"
      using Suc.hyps(2) lt by simp_all
    ultimately show ?thesis using Suc.hyps(1)[OF _ v _ s1] True by blast
  qed
qed

section \<open>The transaction\<close>

text \<open>From the start to the address.\<close>

lemma receive_address:
  assumes "callback (dev w) \<noteq> OptionalIrqCallback" "address_mode (dev w) \<noteq> ADDR_MODE_10_BIT"
    and "i2c_enable hw w = (I2C_SUCCESS, w1)" "i2c_send_address hw I2C_READ 0 (i2c_int_clear ISR_ALL_CLEARABLE_INTS_MSK w1) = (s1, w3)"
  shows "cmd_status s1" "receiving w buf [] (if s1 = I2C_TIMEOUT then [] else address_words (dev w) I2C_READ 0) w3"
proof -
  let ?b = "i2c_base (dev w)" and ?w2 = "i2c_int_clear ISR_ALL_CLEARABLE_INTS_MSK w1"
  obtain v1 where e1: "bus_emits w w1 [(?b, CTRL_REG, v1 OR CTRL_EN_MSK)]"
    using enable_success[OF assms(3,1)] by blast
  have e2: "bus_emits w ?w2 [(?b, CTRL_REG, v1 OR CTRL_EN_MSK), (?b, ISR_REG, ISR_ALL_CLEARABLE_INTS_MSK)]"
    using emits_trans[OF e1 emits_int_clear[of w1 ISR_ALL_CLEARABLE_INTS_MSK]] e1 by (simp add: emits_dev)
  have r2: "receiving w buf [] [] ?w2" using receiving_emits[OF receiving_start e2] by (simp add: reg_defs)
  have d2: "dev ?w2 = dev w" using e2 by (simp add: emits_dev)
  have sa: "cmd_status s1" "bus_emits ?w2 w3 (cmd_writes ?b (if s1 = I2C_TIMEOUT then [] else address_words (dev w) I2C_READ 0))"
    using send_address_7[OF assms(4)] assms(2) d2 by (auto split: if_splits)
  show "cmd_status s1" by (rule sa(1))
  show "receiving w buf [] (if s1 = I2C_TIMEOUT then [] else address_words (dev w) I2C_READ 0) w3"
    using receiving_emits[OF r2 sa(2)] by (simp add: cmd_writes_def filter_map comp_def)
qed

text \<open>The read commands, the last with STOP.\<close>

definition recv_cmds :: "hw \<Rightarrow> u32 \<Rightarrow> u32 \<Rightarrow> u32 \<Rightarrow> i2c_world \<Rightarrow> (u32 \<times> u32 \<times> u32 \<times> i2c_world) option" where
  "recv_cmds hw buf size0 s1 w3 =
     (if s1 = I2C_SUCCESS then
        (case rx_cmds hw size0 0 buf 0 s1 w3 of
           None \<Rightarrow> None
         | Some (buf1, n, st, wa) \<Rightarrow>
             (if st = I2C_SUCCESS then (let (st1, wb) = i2c_cmd_write hw 0 0 1 wa in Some (buf1, n, st1, wb))
              else Some (buf1, n, st, wa)))
      else Some (buf, 0, s1, w3))"

lemma receive_cmds:
  assumes "cmd_status s1" "receiving w buf [] (if s1 = I2C_TIMEOUT then [] else aw) w3" "length aw = 1"
    and "rx_fifo hw (i2c_base (dev w)) (io w)" "unat size0 = Suc m"
  shows "\<exists>vs s4 w4 cs. recv_cmds hw buf size0 s1 w3 = Some (buf + of_nat (length vs), of_nat (length vs), s4, w4)
    \<and> receiving w buf vs cs w4 \<and> length vs \<le> unat size0 \<and> cmd_status s4
    \<and> (s4 = I2C_SUCCESS \<longrightarrow> cs = aw @ replicate m (cmd_word 0 0 0) @ [cmd_word 0 0 1])"
proof (cases "s1 = I2C_SUCCESS")
  case False
  then show ?thesis using assms(1,2)
    by (intro exI[of _ "[]"] exI[of _ s1] exI[of _ w3] exI[of _ "if s1 = I2C_TIMEOUT then [] else aw"]) (auto simp: recv_cmds_def)
next
  case True
  have "receiving w buf [] (aw @ replicate 0 (cmd_word 0 0 0)) w3" using assms(2) True by simp
  from cmds_end[OF this assms(3,4), of 0 size0 m] assms(5) obtain vs k st wa where
    c: "rx_cmds hw size0 0 buf 0 s1 w3 = Some (buf + of_nat (length vs), of_nat (length vs), st, wa)"
    "receiving w buf vs (aw @ replicate k (cmd_word 0 0 0)) wa" "length vs \<le> k" "k \<le> m"
    "st = I2C_SUCCESS \<longrightarrow> k = m" "cmd_status st" using True by auto
  show ?thesis
  proof (cases "st = I2C_SUCCESS")
    case False
    then show ?thesis using c True assms(5)
      by (intro exI[of _ vs] exI[of _ st] exI[of _ wa] exI[of _ "aw @ replicate k (cmd_word 0 0 0)"]) (auto simp: recv_cmds_def)
  next
    case stS: True
    obtain st1 wb where cw: "i2c_cmd_write hw 0 0 1 wa = (st1, wb)" by fastforce
    show ?thesis using c stS True assms(5) receiving_cmd[OF c(2) cw] cw
      by (intro exI[of _ vs] exI[of _ st1] exI[of _ wb] exI[of _ "if st1 = I2C_TIMEOUT then aw @ replicate k (cmd_word 0 0 0)
            else aw @ replicate k (cmd_word 0 0 0) @ [cmd_word 0 0 1]"]) (auto simp: recv_cmds_def)
  qed
qed

text \<open>The end: the controller is disabled, and the FIFO is not read again.\<close>

lemma receive_finish:
  assumes "receiving w buf vs cs w5" "i2c_wait_idle hw n s5 w5 = (s6, w6)" "i2c_check_nack hw s6 w6 = (s7, w7)"
  shows "\<exists>d. io (i2c_disable hw w7) = d @ io w \<and> mem (i2c_disable hw w7) = put_bytes (mem w) buf (map ucast vs)
    \<and> rd_log (i2c_base (dev w)) RX_DATA_REG d = vs \<and> wr_log (i2c_base (dev w)) TFR_CMD_REG d = cs
    \<and> (\<exists>v. last_wr (i2c_base (dev w)) CTRL_REG d = Some (v AND NOT CTRL_EN_MSK)) \<and> (s7 = I2C_SUCCESS \<longrightarrow> s5 = I2C_SUCCESS)"
proof -
  let ?b = "i2c_base (dev w)" and ?w = "i2c_disable hw w7"
  obtain v where fin: "bus_emits w5 ?w [(i2c_base (dev w5), CTRL_REG, v AND NOT CTRL_EN_MSK)]"
    and fs: "s7 = I2C_SUCCESS \<longrightarrow> s5 = I2C_SUCCESS" using finish_emits[OF assms(2,3)] by auto
  have m5: "mem w5 = put_bytes (mem w) buf (map ucast vs)" "dev w5 = dev w" by (rule receiving_frame[OF assms(1)])+
  obtain d where d: "io w5 = d @ io w" "rd_log ?b RX_DATA_REG d = vs" "wr_log ?b TFR_CMD_REG d = cs"
    using assms(1) by (auto elim!: receivingE)
  obtain e where e: "?w = w5\<lparr>io := e @ io w5\<rparr>" "wrs e = [(?b, CTRL_REG, v AND NOT CTRL_EN_MSK)]"
    "\<forall>x\<in>set e. \<not> reads_reg {RX_DATA_REG} x" using fin m5(2) by (auto simp: emits_def)
  have "rd_log ?b RX_DATA_REG (e @ d) = vs" "wr_log ?b TFR_CMD_REG (e @ d) = cs"
    "last_wr ?b CTRL_REG (e @ d) = Some (v AND NOT CTRL_EN_MSK)"
    using d e(2) rd_log_quiet[OF e(3), of RX_DATA_REG]
    by (simp_all add: rd_log_append wr_log_append wr_log_wrs[of _ _ e] last_wr_log reg_defs)
  then show ?thesis using fs e(1) d(1) m5(1) by (intro exI[of _ "e @ d"]) auto
qed

text \<open>
  C2: A polled read transaction (7-bit address, not a continuation, with STOP) returns on every
  device whose receive FIFO holds only bytes it was asked for. It never stores more than the
  requested number of bytes; what it stores is the bytes read from the FIFO, in order, from the
  start of the buffer, and nothing else of memory changes. When it reports SUCCESS it has
  delivered exactly the requested number, and the controller is disabled again in any case.
\<close>

theorem receive_delivers:
  assumes "size0 \<noteq> 0" "address_mode (dev w) \<noteq> ADDR_MODE_10_BIT"
    and "callback (dev w) \<noteq> OptionalIrqCallback"
    and "\<not> bit (hw (io w) (i2c_base (dev w)) CTRL_REG) 0"
    and "rx_fifo hw (i2c_base (dev w)) (io w)"
  shows "\<exists>st w' d. i2c_master_receive hw buf size0 0 1 w = Some (st, w') \<and> io w' = d @ io w
    \<and> mem w' = put_bytes (mem w) buf (map ucast (rd_log (i2c_base (dev w)) RX_DATA_REG d))
    \<and> length (rd_log (i2c_base (dev w)) RX_DATA_REG d) \<le> unat size0
    \<and> (st = I2C_SUCCESS \<longrightarrow>
         length (rd_log (i2c_base (dev w)) RX_DATA_REG d) = unat size0
       \<and> wr_log (i2c_base (dev w)) TFR_CMD_REG d
         = address_words (dev w) I2C_READ 0 @ data_words (replicate (unat size0) 0) 1)
    \<and> (\<exists>v. last_wr (i2c_base (dev w)) CTRL_REG d = Some (v AND NOT CTRL_EN_MSK))"
proof -
  obtain w1 where en: "i2c_enable hw w = (I2C_SUCCESS, w1)" using assms(4) by (simp add: enable_cases Let_def)
  obtain s1 w3 where sa: "i2c_send_address hw I2C_READ 0 (i2c_int_clear ISR_ALL_CLEARABLE_INTS_MSK w1) = (s1, w3)" by fastforce
  obtain m where m: "unat size0 = Suc m" using assms(1) unat_eq_zero not0_implies_Suc by blast
  let ?aw = "address_words (dev w) I2C_READ 0"
  have "length ?aw = 1" using assms(2) by (simp add: address_words_def Let_def)
  from receive_cmds[OF receive_address[OF assms(3,2) en sa] this assms(5) m] obtain vs s4 w4 cs where
    c4: "recv_cmds hw buf size0 s1 w3 = Some (buf + of_nat (length vs), of_nat (length vs), s4, w4)"
    "receiving w buf vs cs w4" "length vs \<le> unat size0" "cmd_status s4"
    "s4 = I2C_SUCCESS \<longrightarrow> cs = ?aw @ replicate m (cmd_word 0 0 0) @ [cmd_word 0 0 1]" by blast
  obtain s5 w5 where rr: "rx_rest hw size0 (buf + of_nat (length vs)) (of_nat (length vs)) s4 w4 = (s5, w5)" by fastforce
  from rest_ends[OF c4(2,3,4) rr] obtain vs' where r5: "receiving w buf vs' cs w5"
    "length vs' \<le> unat size0" "s5 = I2C_SUCCESS \<longrightarrow> s4 = I2C_SUCCESS \<and> length vs' = unat size0" by blast
  obtain s6 w6 where wi: "i2c_wait_idle hw (10000 * size0) s5 w5 = (s6, w6)" by fastforce
  obtain s7 w7 where cn: "i2c_check_nack hw s6 w6 = (s7, w7)" by fastforce
  have res: "i2c_master_receive hw buf size0 0 1 w = Some (s7, i2c_disable hw w7)"
    using assms(1) c4(1)[unfolded recv_cmds_def] by (simp add: i2c_master_receive_def en sa rr wi cn)
  have "?aw @ replicate m (cmd_word 0 0 0) @ [cmd_word 0 0 1] = ?aw @ data_words (replicate (unat size0) 0) 1"
    using replicate_append_same[of m "0 :: u8"] by (simp add: m data_words_def flip: replicate_append_same)
  then show ?thesis using res receive_finish[OF r5(1) wi cn] r5(2,3) c4(5)
    by (intro exI[of _ s7] exI[of _ "i2c_disable hw w7"]) auto
qed

text \<open>A device for the witness: ready, idle, with a byte in the FIFO for every unanswered command.\<close>

definition echo_hw :: hw where
  "echo_hw t b r = (if r = ISR_REG then ISR_TX_READY_MSK
     else if r = RX_DATA_FIFO_LVL_REG
       then (if length (rd_log b RX_DATA_REG t) + 1 < length (wr_log b TFR_CMD_REG t) then 1 else 0)
     else if r = RX_DATA_REG then 0x41 else 0)"

lemma echo_rx_fifo: "rx_fifo echo_hw b []"
  by (simp add: rx_fifo_def echo_hw_def reg_defs)

theorem receive_delivers_witness:
  "\<exists>st w' d. i2c_master_receive echo_hw 0x80 3 0 1 sample_i2c_world = Some (st, w')
     \<and> io w' = d @ io sample_i2c_world
     \<and> mem w' = put_bytes (mem sample_i2c_world) 0x80 (map ucast (rd_log 0x1000 RX_DATA_REG d))
     \<and> length (rd_log 0x1000 RX_DATA_REG d) \<le> 3"
proof -
  have a: "(3::u32) \<noteq> 0" "address_mode (dev sample_i2c_world) \<noteq> ADDR_MODE_10_BIT"
    "callback (dev sample_i2c_world) \<noteq> OptionalIrqCallback"
    "\<not> bit (echo_hw (io sample_i2c_world) (i2c_base (dev sample_i2c_world)) CTRL_REG) 0"
    by (simp_all add: sample_i2c_defs ADDR_MODE_10_BIT_def echo_hw_def reg_defs)
  have b: "io sample_i2c_world = []" "i2c_base (dev sample_i2c_world) = 0x1000" "unat (3::u32) = 3"
    by (simp_all add: sample_i2c_defs)
  have c: "rx_fifo echo_hw (i2c_base (dev sample_i2c_world)) (io sample_i2c_world)"
    unfolding b(1) by (rule echo_rx_fifo)
  from receive_delivers[OF a c, of "0x80"] show ?thesis unfolding b by blast
qed

end
