(* ===== verification/I2cIrq.thy ===== *)
theory I2cIrq
  imports I2cRecv
begin

text \<open>
  The Avalon I2C master driver, part 3 (\<open>drivers/src/altera_avalon_i2c.c\<close>): the interrupt
  handler and the optional callback, the interrupt-driven transfers, their completion status,
  and the transfers with retry. A dereference of the NULL pointer, like a loop that does not
  end, is \<open>None\<close>.
\<close>

section \<open>Callbacks and the interrupt handler\<close>

definition i2c_register_callback ::
  "i2c_callback \<Rightarrow> u32 \<Rightarrow> u32 \<Rightarrow> i2c_world \<Rightarrow> i2c_world" where
  "i2c_register_callback cb control0 context0 w =
     w\<lparr>dev := (dev w)\<lparr>callback := cb, callback_context := context0, control := control0\<rparr>\<rparr>"

definition i2c_register_optional_irq_handler :: "u32 \<Rightarrow> i2c_world \<Rightarrow> i2c_world" where
  "i2c_register_optional_irq_handler p w =
     i2c_register_callback OptionalIrqCallback 0 p (irq_upd p (irq_busy_update (\<lambda>_. 0)) w)"

text \<open>The tail of the callback: wait without sleeping, disable, mark the transaction done.\<close>

definition callback_finish :: "hw \<Rightarrow> u32 \<Rightarrow> i2c_world \<Rightarrow> i2c_world" where
  "callback_finish hw p w =
     (let (expired, w1) = i2c_poll (busy_cond hw) False 100000 w
      in irq_upd p (irq_busy_update (\<lambda>_. 0)) (i2c_disable hw w1))"

definition optional_irq_callback :: "hw \<Rightarrow> i2c_world \<Rightarrow> i2c_world option" where
  "optional_irq_callback hw w =
     (let p = callback_context (dev w)
      in if p = 0 then None
         else if irq_busy (irqs w p) = 2 then
           (case i2c_rx_read_available hw (irq_buffer (irqs w p)) (irq_size (irqs w p)) w of
              None \<Rightarrow> None
            | Some (bytes_read, w1) \<Rightarrow>
                (let w2 = irq_upd p (\<lambda>d. d\<lparr>irq_size := irq_size d - bytes_read,
                                         irq_buffer := irq_buffer d + bytes_read\<rparr>) w1
                 in if irq_size (irqs w2 p) > 0
                    then Some (i2c_int_enable hw ISER_RX_READY_EN_MSK
                                (i2c_int_clear ISR_ALL_CLEARABLE_INTS_MSK w2))
                    else Some (callback_finish hw p w2)))
         else Some (callback_finish hw p w))"

text \<open>\<open>user f\<close> is the effect of a callback of the application at address \<open>f\<close>.\<close>

definition alt_avalon_i2c_irq ::
  "hw \<Rightarrow> (u32 \<Rightarrow> i2c_world \<Rightarrow> i2c_world) \<Rightarrow> i2c_world \<Rightarrow> i2c_world option" where
  "alt_avalon_i2c_irq hw user w =
     (let w1 = i2c_int_disable hw ISR_ALLINTS_MSK w;
          w2 = i2c_int_clear ISR_ALL_CLEARABLE_INTS_MSK w1
      in if callback (dev w2) = NoCallback then Some w2
         else (let (cpu_sr, w3) = alt_irq_disable_all w2
               in map_option (alt_irq_enable_all cpu_sr)
                    (case callback (dev w3) of
                       OptionalIrqCallback \<Rightarrow> optional_irq_callback hw w3
                     | UserCallback f \<Rightarrow> Some (user f w3)
                     | NoCallback \<Rightarrow> None)))"

section \<open>Interrupt-driven transfers\<close>

text \<open>After a failure: wait for idle and disable.\<close>

definition abort_transfer :: "hw \<Rightarrow> u32 \<Rightarrow> status_code \<Rightarrow> i2c_world \<Rightarrow> status_code \<times> i2c_world" where
  "abort_transfer hw timeout status w =
     (let (status1, w1) = i2c_wait_idle hw timeout status w in (status1, i2c_disable hw w1))"

definition i2c_master_transmit_using_interrupts ::
  "hw \<Rightarrow> u32 \<Rightarrow> u32 \<Rightarrow> u8 \<Rightarrow> u8 \<Rightarrow> i2c_world \<Rightarrow> status_code \<times> i2c_world" where
  "i2c_master_transmit_using_interrupts hw buf size0 issue_restart issue_stop w =
     (if size0 = 0 then (I2C_SUCCESS, w)
      else if callback (dev w) \<noteq> OptionalIrqCallback then (I2C_BAD_ARG, w)
      else
        let p = callback_context (dev w);
            (status0, w1) = (if issue_restart = 0 then i2c_enable hw w else (I2C_SUCCESS, w))
        in if status0 \<noteq> I2C_SUCCESS then (status0, w1)
           else
             let w2 = (if issue_restart = 0 then i2c_int_clear ISR_ALL_CLEARABLE_INTS_MSK w1 else w1);
                 (status1, w3) = i2c_send_address hw I2C_WRITE issue_restart w2;
                 (status2, w4) = tx_body hw buf size0 issue_stop status1 w3
             in if status2 \<noteq> I2C_SUCCESS then abort_transfer hw (size0 * 10000) status2 w4
                else if issue_stop \<noteq> 0 then
                  (let w5 = i2c_int_clear ISR_ALL_CLEARABLE_INTS_MSK w4;
                       w6 = i2c_tfr_cmd_fifo_threshold_set hw TFR_CMD_FIFO_EMPTY w5;
                       w7 = irq_upd p (irq_busy_update (\<lambda>_. 1)) w6
                   in (status2, i2c_int_enable hw ISER_TX_READY_EN_MSK w7))
                else (status2, w4))"

function rx_cmds_irq :: "hw \<Rightarrow> u32 \<Rightarrow> u32 \<Rightarrow> status_code \<Rightarrow> i2c_world \<Rightarrow> status_code \<times> i2c_world" where
  "rx_cmds_irq hw size0 bytes_written status w =
     (if bytes_written < size0 - 1 \<and> status = I2C_SUCCESS then
        (let (status1, w1) = i2c_cmd_write hw 0 0 0 w
         in rx_cmds_irq hw size0 (bytes_written + 1) status1 w1)
      else (status, w))"
  by pat_completeness auto

termination
  by (relation "measure (\<lambda>(hw, size0, bytes_written, _). unat (size0 - 1) - unat bytes_written)")
     (auto simp: unat_Suc_bound word_less_nat_alt)

declare rx_cmds_irq.simps [simp del]

definition i2c_master_receive_using_interrupts ::
  "hw \<Rightarrow> u32 \<Rightarrow> u32 \<Rightarrow> u8 \<Rightarrow> u8 \<Rightarrow> i2c_world \<Rightarrow> status_code \<times> i2c_world" where
  "i2c_master_receive_using_interrupts hw buf size0 issue_restart issue_stop w =
     (if size0 = 0 then (I2C_SUCCESS, w)
      else if callback (dev w) \<noteq> OptionalIrqCallback then (I2C_BAD_ARG, w)
      else
        let p = callback_context (dev w);
            (status0, w1) = (if issue_restart = 0 then i2c_enable hw w else (I2C_SUCCESS, w))
        in if status0 \<noteq> I2C_SUCCESS then (status0, w1)
           else
             let w2 = (if issue_restart = 0 then i2c_int_clear ISR_ALL_CLEARABLE_INTS_MSK w1 else w1);
                 (status1, w3) = i2c_send_address hw I2C_READ issue_restart w2;
                 (status2, w4) =
                   (if status1 = I2C_SUCCESS then
                      (let (st, wa) = rx_cmds_irq hw size0 0 status1 w3
                       in if st = I2C_SUCCESS then i2c_cmd_write hw 0 0 issue_stop wa else (st, wa))
                    else (status1, w3))
             in if status2 \<noteq> I2C_SUCCESS then abort_transfer hw (10000 * size0) status2 w4
                else if issue_stop \<noteq> 0 then
                  (let w5 = i2c_int_clear ISR_ALL_CLEARABLE_INTS_MSK w4;
                       w6 = i2c_rx_fifo_threshold_set hw RX_DATA_FIFO_1_ENTRY w5;
                       w7 = irq_upd p (\<lambda>d. d\<lparr>irq_busy := 2, irq_buffer := buf, irq_size := size0\<rparr>) w6
                   in (status2, i2c_int_enable hw ISER_RX_READY_EN_MSK w7))
                else (status2, w4))"

definition i2c_interrupt_transaction_status ::
  "hw \<Rightarrow> i2c_world \<Rightarrow> (status_code \<times> i2c_world) option" where
  "i2c_interrupt_transaction_status hw w =
     (let p = callback_context (dev w)
      in if p = 0 then None
         else
           let timeout = 10000 * irq_size (irqs w p) + 10000;
               (saveints, w1) = i2c_enabled_ints_get hw w;
               w2 = i2c_int_disable hw saveints w1;
               (status, w3) = i2c_check_nack hw I2C_SUCCESS w2
           in if status \<noteq> I2C_SUCCESS then
                (if irq_busy (irqs w3 p) \<noteq> 0 then
                   (let (status1, w4) = i2c_wait_idle hw timeout status w3
                    in case i2c_rx_read_available hw (irq_buffer (irqs w4 p)) 0 w4 of
                         None \<Rightarrow> None
                       | Some (n, w5) \<Rightarrow>
                           Some (status1, irq_upd p (irq_busy_update (\<lambda>_. 0)) (i2c_disable hw w5)))
                 else Some (status, w3))
              else if irq_busy (irqs w3 p) \<noteq> 0 then
                Some (I2C_BUSY, i2c_int_enable hw saveints w3)
              else Some (I2C_SUCCESS, w3))"

section \<open>Transfers with retry\<close>

text \<open>
  \<open>while (retry--)\<close> around one attempt, shared by the three functions: sleep in the last ten
  rounds, go again after ARB_LOST, NACK or BUSY. The status parameter is the C variable, which
  the first round overwrites.
\<close>

definition retryable :: "status_code \<Rightarrow> bool" where
  "retryable status \<longleftrightarrow> status = I2C_ARB_LOST_ERR \<or> status = I2C_NACK_ERR \<or> status = I2C_BUSY"

function i2c_retry ::
  "(i2c_world \<Rightarrow> (status_code \<times> i2c_world) option) \<Rightarrow> u32 \<Rightarrow> status_code \<Rightarrow> i2c_world
    \<Rightarrow> (status_code \<times> i2c_world) option" where
  "i2c_retry attempt retry status w =
     (if retry = 0 then Some (status, w)
      else
        let retry1 = retry - 1;
            w1 = (if retry1 < 10 then busy_sleep 10000 w else w)
        in (case attempt w1 of
              None \<Rightarrow> None
            | Some (status1, w2) \<Rightarrow>
                if retryable status1 then i2c_retry attempt retry1 status1 w2
                else Some (status1, w2)))"
  by pat_completeness auto

termination
  by (relation "measure (\<lambda>(attempt, retry, status, w). unat retry)")
     (auto intro: unat_minus_one_less)

declare i2c_retry.simps [simp del]

definition i2c_master_tx :: "hw \<Rightarrow> u32 \<Rightarrow> u32 \<Rightarrow> u8 \<Rightarrow> i2c_world \<Rightarrow> (status_code \<times> i2c_world) option" where
  "i2c_master_tx hw buf size0 use_interrupts w =
     i2c_retry (\<lambda>w. Some (if use_interrupts \<noteq> 0
                          then i2c_master_transmit_using_interrupts hw buf size0 0 1 w
                          else i2c_master_transmit hw buf size0 0 1 w)) 10000 0 w"

definition i2c_master_rx :: "hw \<Rightarrow> u32 \<Rightarrow> u32 \<Rightarrow> u8 \<Rightarrow> i2c_world \<Rightarrow> (status_code \<times> i2c_world) option" where
  "i2c_master_rx hw buf size0 use_interrupts w =
     (if use_interrupts \<noteq> 0
      then i2c_retry (\<lambda>w. Some (i2c_master_receive_using_interrupts hw buf size0 0 1 w)) 10000 0 w
      else i2c_retry (\<lambda>w. i2c_master_receive hw buf size0 0 1 w) 10000 0 w)"

text \<open>One attempt of transmit, restart, receive. Only the three retryable codes stop it early.\<close>

definition tx_rx_attempt ::
  "hw \<Rightarrow> u32 \<Rightarrow> u32 \<Rightarrow> u32 \<Rightarrow> u32 \<Rightarrow> u8 \<Rightarrow> i2c_world \<Rightarrow> (status_code \<times> i2c_world) option" where
  "tx_rx_attempt hw txbuf txsize rxbuf rxsize use_interrupts w =
     (let (status1, w1) = (if use_interrupts \<noteq> 0
                           then i2c_master_transmit_using_interrupts hw txbuf txsize 0 0 w
                           else i2c_master_transmit hw txbuf txsize 0 0 w)
      in if retryable status1 then Some (status1, w1)
         else if use_interrupts \<noteq> 0
         then Some (i2c_master_receive_using_interrupts hw rxbuf rxsize 1 1 w1)
         else i2c_master_receive hw rxbuf rxsize 1 1 w1)"

definition i2c_master_tx_rx ::
  "hw \<Rightarrow> u32 \<Rightarrow> u32 \<Rightarrow> u32 \<Rightarrow> u32 \<Rightarrow> u8 \<Rightarrow> i2c_world \<Rightarrow> (status_code \<times> i2c_world) option" where
  "i2c_master_tx_rx hw txbuf txsize rxbuf rxsize use_interrupts w =
     i2c_retry (tx_rx_attempt hw txbuf txsize rxbuf rxsize use_interrupts) 10000 0 w"

section \<open>The interrupt-driven reception\<close>

text \<open>
  With a limit, draining ends on every device. \<open>drained\<close>: \<open>vs\<close> are the words read from the FIFO, each after a fill
  level that is not zero, and unless the limit is reached the last level is zero.
\<close>

definition drained :: "u32 \<Rightarrow> bool \<Rightarrow> u32 list \<Rightarrow> trace \<Rightarrow> bool" where
  "drained b full vs d \<longleftrightarrow> rd_log b RX_DATA_REG d = vs
     \<and> (\<exists>ls. rd_log b RX_DATA_FIFO_LVL_REG d = ls @ (if full then [] else [0]) \<and> length ls = length vs \<and> 0 \<notin> set ls)"

lemma drain_limit:
  assumes "k < unat mx"
  shows "\<exists>d vs w'. rx_drain hw B mx (of_nat k) w = Some (of_nat (k + length vs), w') \<and> k + length vs \<le> unat mx
    \<and> w' = w\<lparr>io := d @ io w, mem := put_bytes (mem w) (B + of_nat k) (map ucast vs)\<rparr>
    \<and> wrs d = [] \<and> drained (i2c_base (dev w)) (k + length vs = unat mx) vs d"
  using assms
proof (induction "unat mx - k" arbitrary: k w)
  case 0
  then show ?case by simp
next
  case (Suc m)
  let ?b = "i2c_base (dev w)"
  obtain lvl where r1: "rd_reg hw RX_DATA_FIFO_LVL_REG w = (lvl, w\<lparr>io := Rd ?b RX_DATA_FIFO_LVL_REG lvl # io w\<rparr>)"
    by (simp add: rd_reg_eq)
  have mx0: "mx \<noteq> 0" using Suc.prems by auto
  show ?case
  proof (cases "lvl = 0")
    case True
    then have "rx_drain hw B mx (of_nat k) w = Some (of_nat k, w\<lparr>io := Rd ?b RX_DATA_FIFO_LVL_REG 0 # io w\<rparr>)"
      by (subst rx_drain.simps) (simp add: r1)
    then show ?thesis using Suc.prems
      by (intro exI[of _ "[Rd ?b RX_DATA_FIFO_LVL_REG 0]"] exI[of _ "[]"] exI[of _ "w\<lparr>io := Rd ?b RX_DATA_FIFO_LVL_REG 0 # io w\<rparr>"])
         (simp add: drained_def RX_DATA_REG_def RX_DATA_FIFO_LVL_REG_def)
  next
    case False
    let ?w1 = "w\<lparr>io := Rd ?b RX_DATA_FIFO_LVL_REG lvl # io w\<rparr>"
    obtain v where r2: "rd_reg hw RX_DATA_REG ?w1 = (v, ?w1\<lparr>io := Rd ?b RX_DATA_REG v # io ?w1\<rparr>)"
      by (simp add: rd_reg_eq)
    define w3 where "w3 = w\<lparr>io := [Rd ?b RX_DATA_REG v, Rd ?b RX_DATA_FIFO_LVL_REG lvl] @ io w, mem := (mem w)(B + of_nat k := ucast v)\<rparr>"
    have len: "of_nat k + 1 = (of_nat (Suc k) :: u32)" by simp
    have lt32: "Suc k < 2 ^ 32" using Suc.prems unat_bound_32[of mx] by simp
    have eq: "of_nat (Suc k) = mx \<longleftrightarrow> Suc k = unat mx" using unat_of_nat_32[OF lt32] by (metis word_unat_eq_iff)
    have unfold: "rx_drain hw B mx (of_nat k) w =
      (if Suc k = unat mx then Some (of_nat (Suc k), w3) else rx_drain hw B mx (of_nat (Suc k)) w3)"
      using False mx0 unfolding eq[symmetric] by (subst rx_drain.simps) (simp add: r1 r2 w3_def len)
    show ?thesis
    proof (cases "Suc k = unat mx")
      case True
      then have "drained ?b (k + length [v] = unat mx) [v] [Rd ?b RX_DATA_REG v, Rd ?b RX_DATA_FIFO_LVL_REG lvl]"
        using False by (auto simp: drained_def reg_defs intro!: exI[of _ "[lvl]"])
      then show ?thesis using unfold True
        by (intro exI[of _ "[Rd ?b RX_DATA_REG v, Rd ?b RX_DATA_FIFO_LVL_REG lvl]"] exI[of _ "[v]"] exI[of _ w3]) (simp add: w3_def)
    next
      case ne: False
      then have "Suc k < unat mx" "m = unat mx - Suc k" using Suc.prems Suc.hyps(2) by simp_all
      from Suc.hyps(1)[OF this(2,1), of w3] obtain d vs w' where
        ih: "rx_drain hw B mx (of_nat (Suc k)) w3 = Some (of_nat (Suc k + length vs), w')" "Suc k + length vs \<le> unat mx"
        "w' = w3\<lparr>io := d @ io w3, mem := put_bytes (mem w3) (B + of_nat (Suc k)) (map ucast vs)\<rparr>"
        "wrs d = []" "drained ?b (Suc k + length vs = unat mx) vs d" by (auto simp: w3_def)
      let ?d = "d @ [Rd ?b RX_DATA_REG v, Rd ?b RX_DATA_FIFO_LVL_REG lvl]"
      obtain ls where ls: "rd_log ?b RX_DATA_FIFO_LVL_REG d = ls @ (if Suc k + length vs = unat mx then [] else [0])"
        "length ls = length vs" "0 \<notin> set ls" using ih(5) by (auto simp: drained_def)
      have "rd_log ?b RX_DATA_FIFO_LVL_REG ?d = (lvl # ls) @ (if k + length (v # vs) = unat mx then [] else [0])"
        "rd_log ?b RX_DATA_REG ?d = v # vs"
        using ls(1) ih(5) by (simp_all add: rd_log_append reg_defs drained_def)
      then have dr: "drained ?b (k + length (v # vs) = unat mx) (v # vs) ?d"
        unfolding drained_def by (intro conjI exI[of _ "lvl # ls"]) (use ls False in auto)
      have "w' = w\<lparr>io := ?d @ io w, mem := put_bytes (mem w) (B + of_nat k) (map ucast (v # vs))\<rparr>"
        using ih(3) by (simp add: w3_def ac_simps)
      then show ?thesis using unfold ne ih(1,2,4) dr
        by (intro exI[of _ ?d] exI[of _ "v # vs"] exI[of _ w']) (simp add: wrs_append)
    qed
  qed
qed

text \<open>Switching interrupts of the device off and on, access by access.\<close>

lemma int_disable_all_io:
  "\<exists>x. i2c_int_disable hw ISR_ALLINTS_MSK w = w\<lparr>io := [Wr (i2c_base (dev w)) ISER_REG 0, Rd (i2c_base (dev w)) ISER_REG x] @ io w\<rparr>"
proof -
  have "ISR_ALLINTS_MSK AND ((x AND ISR_ALLINTS_MSK) AND NOT ISR_ALLINTS_MSK) = 0" for x :: u32
    by (simp add: and.assoc)
  then show ?thesis by (auto simp: i2c_int_disable_def i2c_enabled_ints_get_def rd_reg_eq wr_reg_eq)
qed

lemma int_enable_rx_io:
  "\<exists>x v. i2c_int_enable hw ISER_RX_READY_EN_MSK w = w\<lparr>io := [Wr (i2c_base (dev w)) ISER_REG v, Rd (i2c_base (dev w)) ISER_REG x] @ io w\<rparr>
     \<and> v AND ISER_RX_READY_EN_MSK = ISER_RX_READY_EN_MSK"
proof -
  have "(y OR r) AND r = r" for y r :: u32 by (rule bit_word_eqI) (auto simp: bit_and_iff bit_or_iff)
  moreover have "ISR_ALLINTS_MSK AND ISER_RX_READY_EN_MSK = ISER_RX_READY_EN_MSK" by (simp add: reg_defs)
  ultimately have "(ISR_ALLINTS_MSK AND (y OR ISER_RX_READY_EN_MSK)) AND ISER_RX_READY_EN_MSK = ISER_RX_READY_EN_MSK" for y :: u32
    by (simp only: and.assoc)
  then show ?thesis by (auto simp: i2c_int_enable_def i2c_enabled_ints_get_def rd_reg_eq wr_reg_eq)
qed

text \<open>The statement about the callback's two ways out.\<close>

lemma callback_finish_props:
  "mstatus (callback_finish hw p w) = mstatus w \<and> mem (callback_finish hw p w) = mem w
   \<and> irqs (callback_finish hw p w) = (irqs w)(p := (irqs w p)\<lparr>irq_busy := 0\<rparr>)
   \<and> (\<exists>e v. io (callback_finish hw p w) = e @ io w \<and> rd_log (i2c_base (dev w)) RX_DATA_REG e = []
        \<and> wrs e = [(i2c_base (dev w), CTRL_REG, v AND NOT CTRL_EN_MSK)])"
proof -
  obtain x w1 where p: "i2c_poll (busy_cond hw) False 100000 w = (x, w1)" by fastforce
  have e1: "bus_emits w w1 []"
    using emits_poll[of "busy_cond hw" w False 100000] emits_busy_cond by (simp add: p)
  obtain v where e2: "bus_emits w1 (i2c_disable hw w1) [(i2c_base (dev w1), CTRL_REG, v AND NOT CTRL_EN_MSK)]"
    using emits_disable by blast
  have e: "bus_emits w (i2c_disable hw w1) [(i2c_base (dev w), CTRL_REG, v AND NOT CTRL_EN_MSK)]"
    using emits_trans[OF e1 e2] e1 by (simp add: emits_dev)
  obtain d where d: "i2c_disable hw w1 = w\<lparr>io := d @ io w\<rparr>" "wrs d = [(i2c_base (dev w), CTRL_REG, v AND NOT CTRL_EN_MSK)]"
    "\<forall>y\<in>set d. \<not> reads_reg {RX_DATA_REG} y" using e by (auto simp: emits_def)
  have "rd_log (i2c_base (dev w)) RX_DATA_REG d = []" using rd_log_quiet[OF d(3)] by simp
  then show ?thesis using d(1,2) by (auto simp: callback_finish_def p irq_upd_def)
qed

text \<open>What follows the draining of the FIFO: another interrupt is asked for, or the request is done.\<close>

definition recv_next :: "hw \<Rightarrow> u32 \<Rightarrow> bool \<Rightarrow> i2c_world \<Rightarrow> i2c_world" where
  "recv_next hw p again w =
     (if again then i2c_int_enable hw ISER_RX_READY_EN_MSK (i2c_int_clear ISR_ALL_CLEARABLE_INTS_MSK w) else callback_finish hw p w)"

lemma last_wr_quiet: "\<forall>(b', r', v)\<in>set (wrs d). r' \<noteq> r \<Longrightarrow> last_wr b r (d @ t) = last_wr b r t"
proof (induction d)
  case (Cons e d)
  then show ?case by (cases e) auto
qed simp

lemma recv_next_props:
  assumes "irq_busy (irqs w p) = 2" "w' = recv_next hw p again w"
  shows "mstatus w' = mstatus w \<and> mem w' = mem w \<and> irqs w' = (irqs w)(p := (irqs w p)\<lparr>irq_busy := (if again then 2 else 0)\<rparr>)
    \<and> (\<exists>e. io w' = e @ io w \<and> rd_log (i2c_base (dev w)) RX_DATA_REG e = []
         \<and> (again \<longrightarrow> rd_log (i2c_base (dev w)) RX_DATA_FIFO_LVL_REG e = []
              \<and> (\<exists>v. last_wr (i2c_base (dev w)) ISER_REG (io w') = Some v \<and> v AND ISER_RX_READY_EN_MSK = ISER_RX_READY_EN_MSK))
         \<and> (\<not> again \<longrightarrow> last_wr (i2c_base (dev w)) ISER_REG (io w') = last_wr (i2c_base (dev w)) ISER_REG (io w)
              \<and> (\<exists>v. last_wr (i2c_base (dev w)) CTRL_REG (io w') = Some (v AND NOT CTRL_EN_MSK))))"
proof (cases again)
  case True
  let ?b = "i2c_base (dev w)" and ?w1 = "i2c_int_clear ISR_ALL_CLEARABLE_INTS_MSK w"
  obtain x v where e: "w' = ?w1\<lparr>io := [Wr ?b ISER_REG v, Rd ?b ISER_REG x] @ io ?w1\<rparr>" "v AND ISER_RX_READY_EN_MSK = ISER_RX_READY_EN_MSK"
    using int_enable_rx_io[of hw ?w1] True assms(2) by (auto simp: recv_next_def i2c_int_clear_def wr_reg_eq)
  have "(irqs w)(p := (irqs w p)\<lparr>irq_busy := 2\<rparr>) = irqs w" using assms(1) by (cases "irqs w p") auto
  then show ?thesis using e True
    by (auto simp: i2c_int_clear_def wr_reg_eq reg_defs intro!: exI[of _ "[Wr ?b ISER_REG v, Rd ?b ISER_REG x, Wr ?b ISR_REG ISR_ALL_CLEARABLE_INTS_MSK]"])
next
  case False
  let ?b = "i2c_base (dev w)"
  obtain e v where e: "io w' = e @ io w" "rd_log ?b RX_DATA_REG e = []" "wrs e = [(?b, CTRL_REG, v AND NOT CTRL_EN_MSK)]"
    "mstatus w' = mstatus w" "mem w' = mem w" "irqs w' = (irqs w)(p := (irqs w p)\<lparr>irq_busy := 0\<rparr>)"
    using callback_finish_props[of hw p w] False assms(2) by (auto simp: recv_next_def)
  have "last_wr ?b CTRL_REG (e @ io w) = Some (v AND NOT CTRL_EN_MSK)"
    using e(3) by (simp add: last_wr_log wr_log_append wr_log_wrs[of _ _ e])
  moreover have "last_wr ?b ISER_REG (e @ io w) = last_wr ?b ISER_REG (io w)"
    by (rule last_wr_quiet) (simp add: e(3) reg_defs)
  ultimately show ?thesis using e False by auto
qed


text \<open>A device that has three bytes for a request of four.\<close>

definition three_bytes_hw :: hw where
  "three_bytes_hw t b r = (let k = length (rd_log b RX_DATA_REG t) in
     if r = RX_DATA_FIFO_LVL_REG then (if k < 3 then 3 - of_nat k else 0)
     else if r = RX_DATA_REG then 0x41 + of_nat k else 0)"

definition recv_world :: i2c_world where
  "recv_world = i2c_register_optional_irq_handler 0x500 sample_i2c_world
     \<lparr>irqs := (\<lambda>_. \<lparr>irq_buffer = 0x80, irq_size = 4, irq_busy = 2\<rparr>)\<rparr>"

lemma three_bytes_read:
  "map_option (\<lambda>w'. ([mem w' 0x80, mem w' 0x81, mem w' 0x82], irqs w' 0x500)) (alt_avalon_i2c_irq three_bytes_hw (\<lambda>f w. w) recv_world)
     = Some ([0x41, 0x42, 0x43], \<lparr>irq_buffer = 0x83, irq_size = 1, irq_busy = 2\<rparr>)"
proof -
  have b: "i2c_base (dev recv_world) = 0x1000" "callback (dev recv_world) = OptionalIrqCallback" "callback_context (dev recv_world) = 0x500"
    "irqs recv_world 0x500 = \<lparr>irq_buffer = 0x80, irq_size = 4, irq_busy = 2\<rparr>" "io recv_world = []"
    by (simp_all add: recv_world_def i2c_register_optional_irq_handler_def i2c_register_callback_def irq_upd_def sample_i2c_defs)
  show ?thesis
    by (simp add: alt_avalon_i2c_irq_def i2c_int_disable_def i2c_int_enable_def i2c_enabled_ints_get_def i2c_int_clear_def rd_reg_eq wr_reg_eq b
        alt_irq_disable_all_def alt_irq_enable_all_def optional_irq_callback_def i2c_rx_read_available_def rx_drain.simps Let_def
        three_bytes_hw_def reg_defs irq_upd_def)
qed


section \<open>A lost timeout\<close>

lemma poll_expires:
  assumes "\<And>w. fst (cond w)"
  shows "fst (i2c_poll cond sleeps timeout w)"
  using assms
proof (induction cond sleeps timeout w rule: i2c_poll.induct)
  case (1 cond sleeps timeout w)
  obtain w1 where c: "cond w = (True, w1)" using "1.prems"[of w] by (metis (full_types) surj_pair fst_conv)
  show ?case
    using "1.IH"[OF c[symmetric] refl _ refl] "1.prems"
    by (subst i2c_poll.simps) (auto simp: c Let_def)
qed

text \<open>
  In the combined write-then-read transfer the result of the write is looked at for ARB_LOST,
  NACK and BUSY only. After a write that timed out the function goes on to the read as if the
  write had been sent; with nothing to read it reports SUCCESS.
\<close>

theorem tx_rx_loses_timeout:
  assumes "fst (i2c_master_transmit hw txbuf txsize 0 0 w) = I2C_TIMEOUT"
  shows "i2c_master_tx_rx hw txbuf txsize rxbuf 0 0 w
     = Some (I2C_SUCCESS, snd (i2c_master_transmit hw txbuf txsize 0 0 w))"
proof -
  obtain w1 where t: "i2c_master_transmit hw txbuf txsize 0 0 w = (I2C_TIMEOUT, w1)"
    using assms by (metis prod.collapse)
  have "tx_rx_attempt hw txbuf txsize rxbuf 0 0 w = Some (I2C_SUCCESS, w1)"
    by (simp add: tx_rx_attempt_def t i2c_master_receive_def retryable_def status_defs)
  then show ?thesis
    by (simp add: i2c_master_tx_rx_def i2c_retry.simps t retryable_def status_defs Let_def)
qed

lemma dead_device_times_out:
  assumes "size0 \<noteq> 0" "address_mode (dev w) \<noteq> ADDR_MODE_10_BIT"
  shows "fst (i2c_master_transmit (\<lambda>t b r. 0) buf size0 0 0 w) = I2C_TIMEOUT"
proof -
  let ?hw = "(\<lambda>t b r. 0) :: hw"
  obtain w1 where en: "i2c_enable ?hw w = (I2C_SUCCESS, w1)" by (simp add: enable_cases Let_def)
  have d1: "dev w1 = dev w" using enable_frame(1)[of ?hw w] en by simp
  define w2 where "w2 = i2c_int_clear ISR_ALL_CLEARABLE_INTS_MSK w1"
  have d2: "dev w2 = dev w" using d1 by (simp add: w2_def i2c_int_clear_def wr_reg_eq)
  have cw: "fst (i2c_cmd_write ?hw v rs sp u) = I2C_TIMEOUT" for v rs sp u
    using poll_expires[of "tx_not_ready_cond ?hw" True 10000 u]
    by (auto simp: i2c_cmd_write_def tx_not_ready_cond_def rd_reg_eq split: prod.splits)
  obtain w3 where sa: "i2c_send_address ?hw I2C_WRITE 0 w2 = (I2C_TIMEOUT, w3)"
    using cw assms(2) d2 by (auto simp: i2c_send_address_def Let_def) (metis prod.collapse)
  have wi: "fst (i2c_wait_idle ?hw t I2C_TIMEOUT u) = I2C_TIMEOUT" for t u
    by (auto simp: i2c_wait_idle_def split: prod.splits)
  obtain w5 where wi': "i2c_wait_idle ?hw (size0 * 10000) I2C_TIMEOUT w3 = (I2C_TIMEOUT, w5)"
    using wi by (metis prod.collapse)
  show ?thesis using assms(1)
    by (simp add: i2c_master_transmit_def en w2_def[symmetric] sa tx_body_def wi' i2c_check_nack_def
        rd_reg_eq Let_def)
qed

theorem tx_rx_loses_timeout_witness:
  "map_option fst (i2c_master_tx_rx (\<lambda>t b r. 0) 0x20 5 0x80 0 0 sample_i2c_world) = Some I2C_SUCCESS"
proof -
  have "fst (i2c_master_transmit (\<lambda>t b r. 0) 0x20 5 0 0 sample_i2c_world) = I2C_TIMEOUT"
    by (rule dead_device_times_out) (simp_all add: sample_i2c_defs ADDR_MODE_10_BIT_def)
  from tx_rx_loses_timeout[OF this] show ?thesis by simp
qed

end
