(* ===== verification/Llist.thy ===== *)
theory Llist
  imports HalPrelude
begin

text \<open>
  The doubly linked lists of \<open>HAL/inc/sys/alt_llist.h\<close>. A list is circular through a head element;
  an element is known by its address, and \<open>links\<close> is the memory of all elements. The relation
  \<open>ring_list\<close> says which addresses a head leads to. The locale \<open>list_store\<close> is what the device
  registry and the alarm list rely on.
\<close>

section \<open>Elements and operations\<close>

record llist =
  ln_next :: u32
  ln_prev :: u32

type_synonym links = "u32 \<Rightarrow> llist"

definition set_next :: "u32 \<Rightarrow> u32 \<Rightarrow> links \<Rightarrow> links" where
  "set_next p q m = m(p := (m p)\<lparr>ln_next := q\<rparr>)"

definition set_prev :: "u32 \<Rightarrow> u32 \<Rightarrow> links \<Rightarrow> links" where
  "set_prev p q m = m(p := (m p)\<lparr>ln_prev := q\<rparr>)"

text \<open>The head of an empty list, and an element that is in no list.\<close>

definition ALT_LLIST_HEAD :: "u32 \<Rightarrow> links \<Rightarrow> links" where
  "ALT_LLIST_HEAD h m = m(h := \<lparr>ln_next = h, ln_prev = h\<rparr>)"

definition ALT_LLIST_ENTRY :: llist where
  "ALT_LLIST_ENTRY = \<lparr>ln_next = 0, ln_prev = 0\<rparr>"

definition alt_llist_insert :: "u32 \<Rightarrow> u32 \<Rightarrow> links \<Rightarrow> links" where
  "alt_llist_insert l entry m =
     (let m1 = set_prev entry l m;
          m2 = set_next entry (ln_next (m1 l)) m1;
          m3 = set_prev (ln_next (m2 l)) entry m2
      in set_next l entry m3)"

definition alt_llist_remove :: "u32 \<Rightarrow> links \<Rightarrow> links" where
  "alt_llist_remove entry m =
     (let m1 = set_prev (ln_next (m entry)) (ln_prev (m entry)) m;
          m2 = set_next (ln_prev (m1 entry)) (ln_next (m1 entry)) m1;
          m3 = set_prev entry entry m2
      in set_next entry entry m3)"

lemma set_next_simps [simp]:
  "ln_next (set_next p q m r) = (if r = p then q else ln_next (m r))"
  "ln_prev (set_next p q m r) = ln_prev (m r)"
  by (simp_all add: set_next_def)

lemma set_prev_simps [simp]:
  "ln_prev (set_prev p q m r) = (if r = p then q else ln_prev (m r))"
  "ln_next (set_prev p q m r) = ln_next (m r)"
  by (simp_all add: set_prev_def)

section \<open>Chains and circular lists\<close>

text \<open>From element \<open>p\<close> through the elements \<open>xs\<close> to element \<open>q\<close>, in both directions.\<close>

fun chain :: "links \<Rightarrow> u32 \<Rightarrow> u32 list \<Rightarrow> u32 \<Rightarrow> bool" where
  "chain m p [] q \<longleftrightarrow> ln_next (m p) = q \<and> ln_prev (m q) = p"
| "chain m p (x # xs) q \<longleftrightarrow> ln_next (m p) = x \<and> ln_prev (m x) = p \<and> chain m x xs q"

definition ring_list :: "links \<Rightarrow> u32 \<Rightarrow> u32 list \<Rightarrow> bool" where
  "ring_list m h xs \<longleftrightarrow> distinct (h # xs) \<and> chain m h xs h"

lemma chain_append:
  "chain m p (xs @ x # ys) q \<longleftrightarrow> chain m p xs x \<and> chain m x ys q"
  by (induction xs arbitrary: p) auto

lemma chain_cong:
  assumes "\<And>r. r \<in> set (p # xs) \<Longrightarrow> ln_next (m' r) = ln_next (m r)"
    and "\<And>r. r \<in> set (q # xs) \<Longrightarrow> ln_prev (m' r) = ln_prev (m r)"
  shows "chain m' p xs q = chain m p xs q"
  using assms by (induction xs arbitrary: p) auto

lemma chain_first: "chain m p xs q \<Longrightarrow> ln_next (m p) = hd (xs @ [q])"
  by (cases xs) auto

lemma chain_last: "chain m p xs q \<Longrightarrow> ln_prev (m q) = last (p # xs)"
  by (induction xs arbitrary: p) auto

lemma ring_list_distinct: "ring_list m h xs \<Longrightarrow> distinct xs \<and> h \<notin> set xs"
  by (simp add: ring_list_def)

lemma ring_list_next: "ring_list m h xs \<Longrightarrow> ln_next (m h) = hd (xs @ [h])"
  by (auto simp: ring_list_def dest: chain_first)

lemma ring_list_cong:
  assumes "\<And>r. r \<in> set (h # xs) \<Longrightarrow> m' r = m r"
  shows "ring_list m' h xs = ring_list m h xs"
  unfolding ring_list_def using assms by (intro conj_cong refl chain_cong) auto

lemma ring_list_unique:
  assumes "ring_list m h xs" "ring_list m h ys" shows "xs = ys"
proof -
  have "xs = ys" if "chain m p xs h" "chain m p ys h" "h \<notin> set xs" "h \<notin> set ys" for p
    using that
  proof (induction xs arbitrary: p ys)
    case Nil
    then show ?case by (cases ys) auto
  next
    case (Cons x xs)
    then show ?case by (cases ys) auto
  qed
  then show ?thesis using assms by (auto simp: ring_list_def)
qed

lemma ring_list_empty: "ring_list (ALT_LLIST_HEAD h m) h []"
  by (simp add: ring_list_def ALT_LLIST_HEAD_def)

section \<open>Insertion and removal\<close>

lemma insert_next [simp]:
  "ln_next (alt_llist_insert l e m r) = (if r = l then e else if r = e then ln_next (m l) else ln_next (m r))"
  by (simp add: alt_llist_insert_def)

lemma insert_prev [simp]:
  "l \<noteq> e \<Longrightarrow> ln_prev (alt_llist_insert l e m r) =
     (if r = ln_next (m l) then e else if r = e then l else ln_prev (m r))"
  by (simp add: alt_llist_insert_def)

lemma insert_ring:
  assumes "ring_list m h xs" "e \<notin> set (h # xs)"
  shows "ring_list (alt_llist_insert h e m) h (e # xs)"
proof -
  have eh: "e \<noteq> h" using assms(2) by simp
  show ?thesis
  proof (cases xs)
    case Nil
    then show ?thesis using assms eh by (auto simp: ring_list_def)
  next
    case (Cons y ys)
    then have n: "ln_next (m h) = y" and c: "chain m y ys h" and d: "distinct (h # y # ys)"
      using assms by (auto simp: ring_list_def)
    have "chain (alt_llist_insert h e m) y ys h = chain m y ys h"
      using n d assms(2) Cons eh by (intro chain_cong) auto
    then show ?thesis using n c d eh assms Cons by (auto simp: ring_list_def)
  qed
qed

lemma insert_other:
  assumes "r \<noteq> h" "r \<noteq> e" "r \<noteq> ln_next (m h)" "h \<noteq> e"
  shows "alt_llist_insert h e m r = m r"
  by (rule llist.equality) (use assms in simp_all)

lemma remove_next:
  "ln_next (alt_llist_remove e m r) =
     (if r = e then e else if r = ln_prev (m e) then ln_next (m e) else ln_next (m r))"
  by (simp add: alt_llist_remove_def)

lemma remove_prev:
  "ln_prev (alt_llist_remove e m r) =
     (if r = e then e else if r = ln_next (m e) then ln_prev (m e) else ln_prev (m r))"
  by (simp add: alt_llist_remove_def)

lemma remove_chain:
  assumes "chain m p (xs @ e # ys) q" "distinct (p # xs @ e # ys)" "q \<notin> set (xs @ e # ys)"
  shows "chain (alt_llist_remove e m) p (xs @ ys) q"
proof -
  have c: "chain m p xs e" "chain m e ys q" using assms(1) by (simp_all add: chain_append)
  have pv: "ln_prev (m e) = last (p # xs)" using c(1) by (rule chain_last)
  have nx: "ln_next (m e) = hd (ys @ [q])" using c(2) by (rule chain_first)
  show ?thesis
  proof (cases ys)
    case Nil
    show ?thesis
    proof (cases xs rule: rev_cases)
      case Nil
      then show ?thesis using assms \<open>ys = []\<close> pv nx by (auto simp: remove_next remove_prev)
    next
      case (snoc zs z)
      then have z: "ln_prev (m e) = z" "ln_next (m e) = q" using pv nx \<open>ys = []\<close> by simp_all
      have "chain m p zs z" using c(1) snoc by (simp add: chain_append)
      moreover have "chain (alt_llist_remove e m) p zs z = chain m p zs z"
        using assms(2,3) snoc z by (intro chain_cong) (auto simp: remove_next remove_prev)
      moreover have "chain (alt_llist_remove e m) z [] q"
        using assms snoc z \<open>ys = []\<close> by (auto simp: remove_next remove_prev)
      ultimately show ?thesis using snoc \<open>ys = []\<close> by (simp add: chain_append)
    qed
  next
    case (Cons y yt)
    have n: "ln_next (m e) = y" using nx Cons by simp
    have cy: "chain m y yt q" using c(2) Cons by simp
    have "ln_prev (m e) \<in> set (p # xs)" using pv by (metis last_in_set list.discI)
    then have "ln_prev (m e) \<notin> set ys" "ln_prev (m e) \<noteq> e" using assms(2) by auto
    then have tail: "chain (alt_llist_remove e m) y yt q"
      using cy assms(2,3) Cons n
      by (subst chain_cong[where m = m]) (auto simp: remove_next remove_prev)
    have head: "chain (alt_llist_remove e m) p xs y"
    proof (cases xs rule: rev_cases)
      case Nil
      then show ?thesis using assms Cons pv n by (auto simp: remove_next remove_prev)
    next
      case (snoc zs z)
      then have z: "ln_prev (m e) = z" using pv by simp
      have "chain m p zs z" using c(1) snoc by (simp add: chain_append)
      moreover have "chain (alt_llist_remove e m) p zs z = chain m p zs z"
        using assms(2,3) snoc z n Cons by (intro chain_cong) (auto simp: remove_next remove_prev)
      moreover have "chain (alt_llist_remove e m) z [] y"
        using assms snoc z n Cons by (auto simp: remove_next remove_prev)
      ultimately show ?thesis using snoc by (simp add: chain_append)
    qed
    show ?thesis using head tail Cons by (simp add: chain_append)
  qed
qed

lemma remove_ring:
  assumes "ring_list m h (xs @ e # ys)" shows "ring_list (alt_llist_remove e m) h (xs @ ys)"
  using assms remove_chain[of m h xs e ys h] by (auto simp: ring_list_def)

lemma remove_self: "ring_list (alt_llist_remove e m) e []"
  by (simp add: ring_list_def remove_next remove_prev)

lemma remove_alone: "ring_list m e [] \<Longrightarrow> alt_llist_remove e m = m"
  by (rule ext, rule llist.equality) (auto simp: ring_list_def remove_next remove_prev)

lemma remove_twice: "alt_llist_remove e (alt_llist_remove e m) = alt_llist_remove e m"
  by (rule remove_alone[OF remove_self])

text \<open>Operations on one list leave every other list alone.\<close>

lemma insert_frame:
  assumes "ring_list m h xs" "set (k # ys) \<inter> set (h # xs) = {}" "e \<notin> set (k # ys)" "e \<noteq> h"
  shows "ring_list (alt_llist_insert h e m) k ys = ring_list m k ys"
proof (rule ring_list_cong)
  fix r assume "r \<in> set (k # ys)"
  moreover have "ln_next (m h) \<in> set (h # xs)"
    using ring_list_next[OF assms(1)] by (cases xs) auto
  ultimately show "alt_llist_insert h e m r = m r" using assms by (intro insert_other) auto
qed

lemma remove_frame:
  assumes "ring_list m h (xs @ e # zs)" "set (k # ys) \<inter> set (h # xs @ e # zs) = {}"
  shows "ring_list (alt_llist_remove e m) k ys = ring_list m k ys"
proof (rule ring_list_cong)
  fix r assume r: "r \<in> set (k # ys)"
  have c: "chain m h xs e" "chain m e zs h" using assms(1) by (simp_all add: ring_list_def chain_append)
  have "ln_prev (m e) \<in> set (h # xs)" using chain_last[OF c(1)] by (metis last_in_set list.discI)
  moreover have "ln_next (m e) \<in> set (zs @ [h])" using chain_first[OF c(2)] by (metis hd_in_set snoc_eq_iff_butlast)
  ultimately show "alt_llist_remove e m r = m r" using r assms(2)
    by (intro llist.equality) (auto simp: remove_next remove_prev)
qed

section \<open>The contract\<close>

text \<open>A history of insertions at the front and removals, on a list and on the memory.\<close>

datatype 'p list_op = Ins 'p | Rem 'p

fun list_legal :: "'p \<Rightarrow> 'p list_op list \<Rightarrow> 'p list \<Rightarrow> bool" where
  "list_legal h [] xs \<longleftrightarrow> True"
| "list_legal h (Ins e # ops) xs \<longleftrightarrow> e \<noteq> h \<and> e \<notin> set xs \<and> list_legal h ops (e # xs)"
| "list_legal h (Rem e # ops) xs \<longleftrightarrow> e \<in> set xs \<and> list_legal h ops (remove1 e xs)"

fun list_apply :: "'p list_op list \<Rightarrow> 'p list \<Rightarrow> 'p list" where
  "list_apply [] xs = xs"
| "list_apply (Ins e # ops) xs = list_apply ops (e # xs)"
| "list_apply (Rem e # ops) xs = list_apply ops (remove1 e xs)"

fun store_run :: "('p \<Rightarrow> 'p \<Rightarrow> 'm \<Rightarrow> 'm) \<Rightarrow> ('p \<Rightarrow> 'm \<Rightarrow> 'm) \<Rightarrow> 'p \<Rightarrow> 'p list_op list \<Rightarrow> 'm \<Rightarrow> 'm" where
  "store_run ins rem h [] m = m"
| "store_run ins rem h (Ins e # ops) m = store_run ins rem h ops (ins h e m)"
| "store_run ins rem h (Rem e # ops) m = store_run ins rem h ops (rem e m)"

locale list_store =
  fixes ins :: "'p \<Rightarrow> 'p \<Rightarrow> 'm \<Rightarrow> 'm"
    and rem :: "'p \<Rightarrow> 'm \<Rightarrow> 'm"
    and is_list :: "'m \<Rightarrow> 'p \<Rightarrow> 'p list \<Rightarrow> bool"
  assumes ins_list: "is_list m h xs \<Longrightarrow> e \<notin> set (h # xs) \<Longrightarrow> is_list (ins h e m) h (e # xs)"
    and rem_list: "is_list m h (xs @ e # ys) \<Longrightarrow> is_list (rem e m) h (xs @ ys)"
begin

lemma rem1_list: "is_list m h xs \<Longrightarrow> e \<in> set xs \<Longrightarrow> is_list (rem e m) h (remove1 e xs)"
  using rem_list by (metis split_list_first remove1_append remove1.simps(2))

lemma run_list:
  "is_list m h xs \<Longrightarrow> list_legal h ops xs \<Longrightarrow> is_list (store_run ins rem h ops m) h (list_apply ops xs)"
proof (induction ops arbitrary: m xs)
  case (Cons op ops)
  then show ?case by (cases op) (auto simp: ins_list rem1_list)
qed simp

lemma ins_all:
  "is_list m h xs \<Longrightarrow> distinct (rev es @ h # xs) \<Longrightarrow> is_list (fold (ins h) es m) h (rev es @ xs)"
proof (induction es arbitrary: m xs)
  case (Cons e es)
  have "is_list (ins h e m) h (e # xs)" using Cons.prems by (intro ins_list) auto
  from Cons.IH[OF this] Cons.prems show ?case by auto
qed simp

end

interpretation ll: list_store alt_llist_insert alt_llist_remove ring_list
  by unfold_locales (simp_all add: insert_ring remove_ring)

fun list_elems :: "'p list_op list \<Rightarrow> 'p set" where
  "list_elems [] = {}"
| "list_elems (Ins e # ops) = insert e (list_elems ops)"
| "list_elems (Rem e # ops) = insert e (list_elems ops)"

lemma run_frame:
  assumes "ring_list m h xs" "list_legal h ops xs"
    and "set (k # ys) \<inter> (set (h # xs) \<union> list_elems ops) = {}"
  shows "ring_list (store_run alt_llist_insert alt_llist_remove h ops m) k ys = ring_list m k ys"
  using assms
proof (induction ops arbitrary: m xs)
  case (Cons op ops)
  show ?case
  proof (cases op)
    case (Ins e)
    then have "ring_list (alt_llist_insert h e m) h (e # xs)"
      using Cons.prems by (intro insert_ring) auto
    moreover have "ring_list (alt_llist_insert h e m) k ys = ring_list m k ys"
      using Cons.prems Ins by (intro insert_frame[of m h xs]) auto
    ultimately show ?thesis using Cons.IH[of "alt_llist_insert h e m" "e # xs"] Cons.prems Ins by auto
  next
    case (Rem e)
    then obtain as bs where x: "xs = as @ e # bs" "e \<notin> set as"
      using Cons.prems(2) by (auto dest: split_list_first)
    have "ring_list (alt_llist_remove e m) h (as @ bs)"
      using Cons.prems(1) x by (simp add: remove_ring)
    moreover have "ring_list (alt_llist_remove e m) k ys = ring_list m k ys"
      using Cons.prems x by (intro remove_frame[of m h as e bs]) auto
    ultimately show ?thesis using Cons.IH[of "alt_llist_remove e m" "as @ bs"] Cons.prems Rem x
      by (auto simp: remove1_append)
  qed
qed simp

text \<open>
  C18: The doubly linked list behaves as a list under any history of insertions and removals of
  elements: forward and backward links agree, the head closes the circle, the order is that of
  the insertions, newest first, and another list in the same memory stays what it was.
\<close>

theorem llist_refines_list:
  assumes "ring_list m h xs" "list_legal h ops xs"
    and "ring_list m k ys" "set (k # ys) \<inter> (set (h # xs) \<union> list_elems ops) = {}"
  shows "ring_list (store_run alt_llist_insert alt_llist_remove h ops m) h (list_apply ops xs)
    \<and> ring_list (store_run alt_llist_insert alt_llist_remove h ops m) k ys"
  using ll.run_list[OF assms(1,2)] run_frame[OF assms(1,2,4)] assms(3) by simp

theorem llist_refines_list_witness:
  "ring_list (store_run alt_llist_insert alt_llist_remove 0x100 [Ins 0x200, Ins 0x300, Rem 0x200]
     (ALT_LLIST_HEAD 0x100 (ALT_LLIST_HEAD 0x500 (\<lambda>_. ALT_LLIST_ENTRY)))) 0x100 [0x300]"
proof -
  have "ring_list (ALT_LLIST_HEAD 0x100 (ALT_LLIST_HEAD 0x500 (\<lambda>_. ALT_LLIST_ENTRY))) 0x500 []"
    by (simp add: ring_list_def ALT_LLIST_HEAD_def)
  from llist_refines_list[OF ring_list_empty _ this, of "[Ins 0x200, Ins 0x300, Rem 0x200]"]
  show ?thesis by simp
qed

end
