(* ===== verification/Clock.thy ===== *)
theory Clock
  imports IrqCtl Llist
begin

text \<open>
  The machine timer and the system clock (\<open>HAL/src/mtimer.c\<close>, \<open>alt_tick.c\<close>, \<open>alt_alarm_start.c\<close>,
  \<open>alt_busy_sleep.c\<close>, \<open>alt_usleep.c\<close>, \<open>HAL/inc/sys/alt_alarm.h\<close>, \<open>intel_niosv.h\<close>): the 64-bit counter
  read and compared through 32-bit registers, the tick count, and the list of alarms with their
  callbacks. A callback is a code address, run by the parameter \<open>run\<close> on its context; it returns the
  number of ticks to the next call. The state extends that of the interrupts.
\<close>

section \<open>State\<close>

record alarm =
  al_time :: u64
  al_callback :: u32
  al_context :: u32

record clock_state = irq_state +
  alarm_links :: links
  alarms :: "u32 \<Rightarrow> alarm"
  nticks :: u64
  tick_rate :: u32
  timestamp_offset :: u64

type_synonym 'a alarm_run = "u32 \<Rightarrow> u32 \<Rightarrow> 'a clock_state_scheme \<Rightarrow> u32 \<times> 'a clock_state_scheme"

text \<open>The head of the alarm list, where the linker put it.\<close>

definition ALT_ALARM_LIST :: u32 where "ALT_ALARM_LIST = 0x1058"

definition NIOSV_MTIME_ADDR :: u32 where "NIOSV_MTIME_ADDR = 0x30040"

definition NIOSV_MTIMECMP_ADDR :: u32 where "NIOSV_MTIMECMP_ADDR = NIOSV_MTIME_ADDR + 8"

definition ALT_CPU_CPU_FREQ :: u32 where "ALT_CPU_CPU_FREQ = 50000000"

definition ALT_CPU_TICKS_PER_SEC :: u32 where "ALT_CPU_TICKS_PER_SEC = 1000"

definition MTIMECMP_DELTA_AMT :: u32 where "MTIMECMP_DELTA_AMT = ALT_CPU_CPU_FREQ div ALT_CPU_TICKS_PER_SEC"

definition CPU_FREQUENCY_MHZ :: u32 where "CPU_FREQUENCY_MHZ = ALT_CPU_CPU_FREQ div 1000000"

section \<open>The machine timer\<close>

definition join64 :: "u32 \<Rightarrow> u32 \<Rightarrow> u64" where
  "join64 hi lo = push_bit 32 (ucast hi) OR ucast lo"

partial_function (option) alt_niosv_mtime_get ::
  "hw \<Rightarrow> 'a clock_state_scheme \<Rightarrow> (u64 \<times> 'a clock_state_scheme) option" where
  "alt_niosv_mtime_get hw w =
     (let (highbits, w1) = iord hw NIOSV_MTIME_ADDR 1 w;
          (lowbits, w2) = iord hw NIOSV_MTIME_ADDR 0 w1;
          (again, w3) = iord hw NIOSV_MTIME_ADDR 1 w2
      in if again \<noteq> highbits then alt_niosv_mtime_get hw w3
         else Some (join64 highbits lowbits, w3))"

text \<open>\<open>hart\<close> is the processor's number, read from \<open>mhartid\<close>.\<close>

definition alt_niosv_get_mtimecmp_addr :: "u32 \<Rightarrow> u32" where
  "alt_niosv_get_mtimecmp_addr hart = NIOSV_MTIMECMP_ADDR + 8 * hart"

definition alt_niosv_mtimecmp_set :: "u32 \<Rightarrow> u64 \<Rightarrow> 'a clock_state_scheme \<Rightarrow> 'a clock_state_scheme" where
  "alt_niosv_mtimecmp_set hart time0 w =
     (let a = alt_niosv_get_mtimecmp_addr hart;
          w1 = iowr a 1 0xFFFFFFFF w;
          w2 = iowr a 0 (ucast time0) w1
      in iowr a 1 (ucast (drop_bit 32 time0)) w2)"

definition alt_niosv_mtimecmp_get :: "hw \<Rightarrow> u32 \<Rightarrow> 'a clock_state_scheme \<Rightarrow> u64 \<times> 'a clock_state_scheme" where
  "alt_niosv_mtimecmp_get hw hart w =
     (let a = alt_niosv_get_mtimecmp_addr hart;
          (lowbits, w1) = iord hw a 0 w;
          (highbits, w2) = iord hw a 1 w1
      in (join64 highbits lowbits, w2))"

definition alt_timestamp_start :: "hw \<Rightarrow> 'a clock_state_scheme \<Rightarrow> (int \<times> 'a clock_state_scheme) option" where
  "alt_timestamp_start hw w =
     map_option (\<lambda>(t, w1). (0, w1\<lparr>timestamp_offset := t\<rparr>)) (alt_niosv_mtime_get hw w)"

definition alt_timestamp :: "hw \<Rightarrow> 'a clock_state_scheme \<Rightarrow> (u64 \<times> 'a clock_state_scheme) option" where
  "alt_timestamp hw w =
     map_option (\<lambda>(t, w1). (t - timestamp_offset w1, w1)) (alt_niosv_mtime_get hw w)"

definition alt_timestamp_freq :: u32 where
  "alt_timestamp_freq = ALT_CPU_CPU_FREQ"

text \<open>
  The busy wait of this board, which has a timestamp device. The end time is computed in 32 bits.
\<close>

partial_function (option) busy_wait ::
  "hw \<Rightarrow> u64 \<Rightarrow> 'a clock_state_scheme \<Rightarrow> ('a clock_state_scheme) option" where
  "busy_wait hw end_time w =
     (case alt_timestamp hw w of
        None \<Rightarrow> None
      | Some (t, w1) \<Rightarrow> if t < end_time then busy_wait hw end_time w1 else Some w1)"

definition alt_busy_sleep :: "hw \<Rightarrow> u32 \<Rightarrow> 'a clock_state_scheme \<Rightarrow> (u32 \<times> 'a clock_state_scheme) option" where
  "alt_busy_sleep hw us w =
     (case alt_timestamp_start hw w of
        None \<Rightarrow> None
      | Some (r, w1) \<Rightarrow> map_option (\<lambda>w2. (0, w2)) (busy_wait hw (ucast (CPU_FREQUENCY_MHZ * us)) w1))"

definition alt_usleep :: "hw \<Rightarrow> u32 \<Rightarrow> 'a clock_state_scheme \<Rightarrow> (u32 \<times> 'a clock_state_scheme) option" where
  "alt_usleep hw us w = alt_busy_sleep hw us w"

section \<open>The clock and its alarms\<close>

definition alt_ticks_per_second :: "'a clock_state_scheme \<Rightarrow> u32" where
  "alt_ticks_per_second w = tick_rate w"

definition alt_nticks :: "'a clock_state_scheme \<Rightarrow> u64" where
  "alt_nticks w = nticks w"

definition alt_sysclk_init :: "u32 \<Rightarrow> 'a clock_state_scheme \<Rightarrow> int \<times> 'a clock_state_scheme" where
  "alt_sysclk_init n w = (if tick_rate w = 0 then (0, w\<lparr>tick_rate := n\<rparr>) else (- 1, w))"

definition upd_alarm :: "u32 \<Rightarrow> (alarm \<Rightarrow> alarm) \<Rightarrow> 'a clock_state_scheme \<Rightarrow> 'a clock_state_scheme" where
  "upd_alarm a f w = w\<lparr>alarms := (alarms w)(a := f (alarms w a))\<rparr>"

definition alt_alarm_start ::
  "u32 \<Rightarrow> u32 \<Rightarrow> u32 \<Rightarrow> u32 \<Rightarrow> 'a clock_state_scheme \<Rightarrow> int \<times> 'a clock_state_scheme" where
  "alt_alarm_start a n callback ctx w =
     (if alt_ticks_per_second w \<noteq> 0 then
        (if a \<noteq> 0 then
           (let w1 = upd_alarm a (\<lambda>r. r\<lparr>al_callback := callback, al_context := ctx\<rparr>) w;
                (irq_context, w2) = alt_irq_disable_all w1;
                current_nticks = alt_nticks w2;
                w3 = upd_alarm a (\<lambda>r. r\<lparr>al_time := ucast n + current_nticks + 1\<rparr>) w2;
                w4 = w3\<lparr>alarm_links := alt_llist_insert ALT_ALARM_LIST a (alarm_links w3)\<rparr>
            in (0, alt_irq_enable_all irq_context w4))
         else (- EINVAL, w))
      else (- ENOTSUP, w))"

definition alt_alarm_stop :: "u32 \<Rightarrow> 'a clock_state_scheme \<Rightarrow> 'a clock_state_scheme" where
  "alt_alarm_stop a w =
     (let (irq_context, w1) = alt_irq_disable_all w;
          w2 = w1\<lparr>alarm_links := alt_llist_remove a (alarm_links w1)\<rparr>
      in alt_irq_enable_all irq_context w2)"

partial_function (option) tick_walk ::
  "'a alarm_run \<Rightarrow> u32 \<Rightarrow> 'a clock_state_scheme \<Rightarrow> ('a clock_state_scheme) option" where
  "tick_walk run a w =
     (if a = ALT_ALARM_LIST then Some w
      else (let next0 = ln_next (alarm_links w a)
            in if al_time (alarms w a) \<le> nticks w then
                 (let (next_callback, w1) = run (al_callback (alarms w a)) (al_context (alarms w a)) w
                  in tick_walk run next0
                       (if next_callback = 0 then alt_alarm_stop a w1
                        else upd_alarm a (\<lambda>r. r\<lparr>al_time := al_time r + ucast next_callback\<rparr>) w1))
               else tick_walk run next0 w))"

definition alt_tick :: "'a alarm_run \<Rightarrow> 'a clock_state_scheme \<Rightarrow> ('a clock_state_scheme) option" where
  "alt_tick run w =
     (let w1 = w\<lparr>nticks := nticks w + 1\<rparr>
      in tick_walk run (ln_next (alarm_links w ALT_ALARM_LIST)) w1)"

text \<open>The timer's interrupt, and starting it.\<close>

definition alt_niosv_timer_sc_isr ::
  "hw \<Rightarrow> u32 \<Rightarrow> 'a alarm_run \<Rightarrow> 'a clock_state_scheme \<Rightarrow> ('a clock_state_scheme) option" where
  "alt_niosv_timer_sc_isr hw hart run w =
     (case alt_niosv_mtime_get hw w of
        None \<Rightarrow> None
      | Some (curr_time, w1) \<Rightarrow>
          (let w2 = alt_niosv_mtimecmp_set hart (curr_time + ucast MTIMECMP_DELTA_AMT) w1;
               (cpu_sr, w3) = alt_irq_disable_all w2
           in map_option (alt_irq_enable_all cpu_sr) (alt_tick run w3)))"

definition alt_niosv_mtimecmp_interrupt_init ::
  "hw \<Rightarrow> u32 \<Rightarrow> 'a clock_state_scheme \<Rightarrow> ('a clock_state_scheme) option" where
  "alt_niosv_mtimecmp_interrupt_init hw hart w =
     map_option (\<lambda>(curr_time, w1).
         alt_niosv_enable_timer_interrupt
           (alt_niosv_mtimecmp_set hart (curr_time + ucast MTIMECMP_DELTA_AMT) w1))
       (alt_niosv_mtime_get hw w)"

text \<open>The clock as the image initialises it: no tick rate, no alarm.\<close>

definition boot_clock :: clock_state where
  "boot_clock = irq_state.extend boot_irq_state \<lparr>alarm_links = ALT_LLIST_HEAD ALT_ALARM_LIST (\<lambda>_. ALT_LLIST_ENTRY),
     alarms = (\<lambda>_. \<lparr>al_time = 0, al_callback = 0, al_context = 0\<rparr>), nticks = 0, tick_rate = 0, timestamp_offset = 0\<rparr>"

end
