(* ===== verification/TimeOfDay.thy ===== *)
theory TimeOfDay
  imports Clock
begin

text \<open>
  The wall clock (\<open>HAL/src/alt_gettod.c\<close>, \<open>alt_settod.c\<close>) and the process times
  (\<open>alt_times.c\<close>) over the tick count. Seconds are the 64-bit \<open>time_t\<close>, microseconds a 32-bit long;
  both are integers here, with the conversions to their width written out.
\<close>

section \<open>State\<close>

record timeval =
  tv_sec :: int
  tv_usec :: int

record timezone =
  tz_minuteswest :: int
  tz_dsttime :: int

record tms =
  tms_utime :: int
  tms_stime :: int
  tms_cutime :: int
  tms_cstime :: int

record tod_state = clock_state +
  alt_timezone :: timezone
  alt_resettime :: timeval
  tod_errno :: int

definition ALT_US :: int where "ALT_US = 1000000"

definition to_time :: "int \<Rightarrow> int" where "to_time x = signed_take_bit 63 x"

definition to_long :: "int \<Rightarrow> int" where "to_long x = signed_take_bit 31 x"

section \<open>Reading and setting\<close>

text \<open>Whole seconds of the tick count, and the microseconds on top, in the C code's unsigned arithmetic.\<close>

definition tick_secs :: "u64 \<Rightarrow> u32 \<Rightarrow> u64" where
  "tick_secs n rate = n div ucast rate"

definition tick_usecs :: "u64 \<Rightarrow> u32 \<Rightarrow> u64" where
  "tick_usecs n rate = (n * ucast ((1000000 :: u32) div rate)) mod 1000000"

function usec_borrow :: "int \<Rightarrow> int \<Rightarrow> int \<times> int" where
  "usec_borrow s u =
     (if u < 0 then (if s \<le> 0 then (0, 0) else usec_borrow (s - 1) (u + ALT_US)) else (s, u))"
  by pat_completeness auto

termination
  by (relation "measure (\<lambda>(s, u). nat (- u))") (auto simp: ALT_US_def)

declare usec_borrow.simps [simp del]

function usec_carry :: "int \<Rightarrow> int \<Rightarrow> int \<times> int" where
  "usec_carry s u = (if u \<ge> ALT_US then usec_carry (s + 1) (u - ALT_US) else (s, u))"
  by pat_completeness auto

termination
  by (relation "measure (\<lambda>(s, u). nat u)") (auto simp: ALT_US_def)

declare usec_carry.simps [simp del]

definition alt_gettimeofday :: "'a tod_state_scheme \<Rightarrow> int \<times> (timeval \<times> timezone) option" where
  "alt_gettimeofday w =
     (let n = alt_nticks w; rate = alt_ticks_per_second w
      in if rate \<noteq> 0 then
           (let s0 = to_time (tv_sec (alt_resettime w) + uint (tick_secs n rate));
                u0 = to_long (tv_usec (alt_resettime w) + uint (ucast (tick_usecs n rate) :: u32));
                (s1, u1) = usec_borrow s0 u0;
                (s2, u2) = usec_carry s1 u1
            in (0, Some (\<lparr>tv_sec = s2, tv_usec = u2\<rparr>, alt_timezone w)))
         else (- ENOTSUP, None))"

definition alt_settimeofday :: "timeval \<Rightarrow> timezone \<Rightarrow> 'a tod_state_scheme \<Rightarrow> int \<times> 'a tod_state_scheme" where
  "alt_settimeofday t tz w =
     (let n = alt_nticks w; rate = alt_ticks_per_second w
      in if rate \<noteq> 0 then
           (0, w\<lparr>alt_resettime := \<lparr>tv_sec = to_time (tv_sec t - uint (tick_secs n rate)),
                                   tv_usec = to_long (tv_usec t - uint (tick_usecs n rate))\<rparr>,
                 alt_timezone := tz\<rparr>)
         else (- 1, w\<lparr>tod_errno := ENOSYS\<rparr>))"

text \<open>\<open>clock_t\<close> is a 32-bit unsigned long. The state is written only when there is a clock.\<close>

definition alt_times :: "'a tod_state_scheme \<Rightarrow> int \<times> tms option \<times> 'a tod_state_scheme" where
  "alt_times w =
     (let ticks = uint (ucast (alt_nticks w) :: u32)
      in if alt_ticks_per_second w = 0 then (0, None, w\<lparr>tod_errno := ENOSYS\<rparr>)
         else (ticks, Some \<lparr>tms_utime = 0, tms_stime = ticks, tms_cutime = 0, tms_cstime = 0\<rparr>, w))"

section \<open>The clock goes right\<close>

lemma to_time_small: "- (2 ^ 62) \<le> x \<Longrightarrow> x < 2 ^ 62 \<Longrightarrow> to_time x = x"
  unfolding to_time_def by (rule signed_take_bit_int_eq_self) auto

lemma to_long_small: "- (2 ^ 30) \<le> x \<Longrightarrow> x < 2 ^ 30 \<Longrightarrow> to_long x = x"
  unfolding to_long_def by (rule signed_take_bit_int_eq_self) auto

lemma usec_borrow_once:
  assumes "- ALT_US \<le> u" "0 \<le> s * ALT_US + u"
  shows "usec_borrow s u = (if u < 0 then (s - 1, u + ALT_US) else (s, u))"
proof (cases "u < 0")
  case True
  then have "\<not> s \<le> 0" using assms by (auto simp: ALT_US_def)
  then show ?thesis using True assms by (subst usec_borrow.simps, subst usec_borrow.simps) auto
next
  case False
  then show ?thesis by (subst usec_borrow.simps) simp
qed

lemma usec_carry_once:
  assumes "u < 2 * ALT_US"
  shows "usec_carry s u = (if u \<ge> ALT_US then (s + 1, u - ALT_US) else (s, u))"
  using assms by (subst usec_carry.simps, subst usec_carry.simps) auto

text \<open>With a rate that divides a million, seconds and microseconds are the ticks exactly.\<close>

lemma tick_parts:
  assumes "unat n < 2 ^ 40" "rate \<noteq> 0" "unat rate dvd 1000000"
  shows "unat (tick_secs n rate) * 1000000 + unat (tick_usecs n rate) = unat n * (1000000 div unat rate)"
    "unat (tick_usecs n rate) < 1000000" "unat (tick_secs n rate) < 2 ^ 40"
proof -
  let ?m = "1000000 div unat rate"
  have c: "unat (ucast x :: u64) = unat x" for x :: u32
    using unat_bound_32[of x] by (simp add: unsigned_ucast_eq take_bit_nat_eq_self)
  have r: "unat (ucast rate :: u64) = unat rate" "unat rate \<noteq> 0" using assms(2) by (auto simp: c unat_eq_0)
  have m: "unat (ucast ((1000000 :: u32) div rate) :: u64) = ?m" by (simp add: c unat_div)
  have "?m < 2 ^ 20" by (rule le_less_trans[OF div_le_dividend]) simp
  with assms(1) have "unat n * ?m < 2 ^ 40 * 2 ^ 20" by (rule mult_strict_mono') simp_all
  then have p: "unat (n * ucast ((1000000 :: u32) div rate)) = unat n * ?m"
    by (simp add: unat_word_ariths(2) m)
  have u: "unat (tick_usecs n rate) = (unat n * ?m) mod 1000000"
    unfolding tick_usecs_def by (simp add: unat_mod p)
  have s: "unat (tick_secs n rate) = unat n div unat rate" by (simp add: tick_secs_def unat_div r)
  have rm: "unat rate * ?m = 1000000" using assms(3) by simp
  then have "(unat n * ?m) mod 1000000 = (unat n mod unat rate) * ?m"
    by (metis mult_mod_left)
  moreover have "unat n div unat rate * 1000000 = (unat n div unat rate * unat rate) * ?m"
    using rm by (simp add: mult.assoc)
  ultimately have "unat n div unat rate * 1000000 + (unat n * ?m) mod 1000000
      = (unat n div unat rate * unat rate + unat n mod unat rate) * ?m"
    by (simp only: add_mult_distrib)
  then have "unat n div unat rate * 1000000 + (unat n * ?m) mod 1000000 = unat n * ?m"
    by (simp only: div_mult_mod_eq)
  then show "unat (tick_secs n rate) * 1000000 + unat (tick_usecs n rate) = unat n * ?m"
    using u s by simp
  show "unat (tick_usecs n rate) < 1000000" using u by simp
  show "unat (tick_secs n rate) < 2 ^ 40" using s assms(1) by (metis div_le_dividend order_le_less_trans)
qed

lemma tick_bounds:
  assumes "unat n < 2 ^ 40" "rate \<noteq> 0" "unat rate dvd 1000000"
  shows "0 \<le> uint (tick_usecs n rate)" "uint (tick_usecs n rate) < 1000000"
    "0 \<le> uint (tick_secs n rate)" "uint (tick_secs n rate) < 2 ^ 40"
    "uint (tick_secs n rate) * ALT_US + uint (tick_usecs n rate) = int (unat n * (1000000 div unat rate))"
proof -
  note p = tick_parts[OF assms]
  have "int (unat (tick_usecs n rate)) < int 1000000" "int (unat (tick_secs n rate)) < int (2 ^ 40)"
    using p(2,3) by (simp_all only: of_nat_less_iff)
  then show "uint (tick_usecs n rate) < 1000000" "uint (tick_secs n rate) < 2 ^ 40"
    unfolding uint_nat by (simp_all only: of_nat_power of_nat_numeral)
  show "uint (tick_secs n rate) * ALT_US + uint (tick_usecs n rate) = int (unat n * (1000000 div unat rate))"
    using arg_cong[OF p(1), of int] unfolding uint_nat ALT_US_def
    by (simp only: of_nat_add of_nat_mult of_nat_numeral)
qed (rule uint_ge_0)+

lemma set_time_eq:
  assumes "tick_rate w \<noteq> 0" "unat (tick_rate w) dvd 1000000" "unat (nticks w) < 2 ^ 40"
    and "0 \<le> tv_sec t" "tv_sec t < 2 ^ 40" "0 \<le> tv_usec t" "tv_usec t < ALT_US"
  shows "alt_settimeofday t tz w = (0, w\<lparr>alt_resettime :=
      \<lparr>tv_sec = tv_sec t - uint (tick_secs (nticks w) (tick_rate w)),
       tv_usec = tv_usec t - uint (tick_usecs (nticks w) (tick_rate w))\<rparr>, alt_timezone := tz\<rparr>)"
proof -
  define S U where SU: "S = uint (tick_secs (nticks w) (tick_rate w))" "U = uint (tick_usecs (nticks w) (tick_rate w))"
  note p = tick_bounds(1-4)[OF assms(3,1,2), folded SU]
  have "to_time (tv_sec t - S) = tv_sec t - S" "to_long (tv_usec t - U) = tv_usec t - U"
    using p assms(4-7) by (auto intro!: to_time_small to_long_small simp: ALT_US_def)
  then show ?thesis
    using assms(1) by (simp add: alt_settimeofday_def alt_nticks_def alt_ticks_per_second_def SU Let_def)
qed

lemma usec_norm:
  assumes "- ALT_US \<le> u" "u < 2 * ALT_US" "0 \<le> s * ALT_US + u"
  shows "\<exists>s2 u2. (case usec_borrow s u of (s1, u1) \<Rightarrow> usec_carry s1 u1) = (s2, u2)
    \<and> 0 \<le> u2 \<and> u2 < ALT_US \<and> s2 * ALT_US + u2 = s * ALT_US + u"
  unfolding usec_borrow_once[OF assms(1,3)]
  using assms by (auto simp: usec_carry_once ALT_US_def split: if_splits)

lemma uint_tick_usecs:
  assumes "uint (tick_usecs n r) < 1000000"
  shows "uint (ucast (tick_usecs n r) :: u32) = uint (tick_usecs n r)"
  using assms by (simp add: unsigned_ucast_eq take_bit_int_eq_self[OF uint_ge_0])

lemma get_time_eq:
  assumes "tick_rate w \<noteq> 0" "unat (tick_rate w) dvd 1000000" "unat (nticks w) < 2 ^ 40"
    and "\<bar>tv_sec (alt_resettime w)\<bar> < 2 ^ 41" "- ALT_US < tv_usec (alt_resettime w)" "tv_usec (alt_resettime w) < ALT_US"
    and "0 \<le> tv_sec (alt_resettime w) * ALT_US + tv_usec (alt_resettime w)
       + int (unat (nticks w) * (1000000 div unat (tick_rate w)))"
  shows "\<exists>t. alt_gettimeofday w = (0, Some (t, alt_timezone w)) \<and> 0 \<le> tv_usec t \<and> tv_usec t < ALT_US
    \<and> tv_sec t * ALT_US + tv_usec t = tv_sec (alt_resettime w) * ALT_US + tv_usec (alt_resettime w)
       + int (unat (nticks w) * (1000000 div unat (tick_rate w)))"
proof -
  define S U where SU: "S = uint (tick_secs (nticks w) (tick_rate w))" "U = uint (tick_usecs (nticks w) (tick_rate w))"
  let ?s = "tv_sec (alt_resettime w) + S" and ?u = "tv_usec (alt_resettime w) + U"
  note p = tick_bounds[OF assms(3,1,2), folded SU]
  have b: "to_time ?s = ?s" "to_long ?u = ?u"
    using p(1-4) assms(4-6) by (auto intro!: to_time_small to_long_small simp: ALT_US_def)
  have nn: "0 \<le> ?s * ALT_US + ?u" using assms(7) p(5) by (simp add: algebra_simps)
  obtain s2 u2 where n: "(case usec_borrow ?s ?u of (s1, u1) \<Rightarrow> usec_carry s1 u1) = (s2, u2)"
    "0 \<le> u2" "u2 < ALT_US" "s2 * ALT_US + u2 = ?s * ALT_US + ?u"
    using usec_norm[OF _ _ nn] p(1,2) assms(5,6) by (auto simp: ALT_US_def)
  have "alt_gettimeofday w = (0, Some (\<lparr>tv_sec = s2, tv_usec = u2\<rparr>, alt_timezone w))"
    using n(1) assms(1) uint_tick_usecs[OF p(2)[unfolded SU]] b
    by (simp add: alt_gettimeofday_def alt_nticks_def alt_ticks_per_second_def Let_def SU split: prod.splits)
  then show ?thesis using n(2-4) p(5) by (simp add: algebra_simps)
qed

text \<open>
  The wall clock: when the tick rate divides a million, the time read any number of ticks after it was
  set is the time set plus exactly that many ticks, in normal form (between 0 and 999999
  microseconds), with the time zone that was set.
\<close>

theorem gettimeofday_after_set:
  assumes "alt_settimeofday t tz w = (0, w1)" "unat (tick_rate w) dvd 1000000" "unat (nticks w) + k < 2 ^ 40"
    and "0 \<le> tv_sec t" "tv_sec t < 2 ^ 40" "0 \<le> tv_usec t" "tv_usec t < ALT_US"
  shows "\<exists>t'. alt_gettimeofday (w1\<lparr>nticks := nticks w1 + of_nat k\<rparr>) = (0, Some (t', tz))
    \<and> 0 \<le> tv_usec t' \<and> tv_usec t' < ALT_US
    \<and> tv_sec t' * ALT_US + tv_usec t'
       = tv_sec t * ALT_US + tv_usec t + int k * (ALT_US div uint (tick_rate w))"
proof -
  have r: "tick_rate w \<noteq> 0" using assms(1) by (auto simp: alt_settimeofday_def Let_def alt_ticks_per_second_def)
  have n: "unat (nticks w) < 2 ^ 40" using assms(3) by simp
  let ?m = "1000000 div unat (tick_rate w)"
  define S U where SU: "S = uint (tick_secs (nticks w) (tick_rate w))" "U = uint (tick_usecs (nticks w) (tick_rate w))"
  note p = tick_bounds[OF n r assms(2), folded SU]
  have w1: "w1 = w\<lparr>alt_resettime := \<lparr>tv_sec = tv_sec t - S, tv_usec = tv_usec t - U\<rparr>, alt_timezone := tz\<rparr>"
    using assms(1) set_time_eq[OF r assms(2) n assms(4-7)] by (simp add: SU)
  let ?w = "w1\<lparr>nticks := nticks w1 + of_nat k\<rparr>"
  have k: "unat (nticks w + word_of_nat k) = unat (nticks w) + k"
    using assms(3) by (simp add: unat_word_ariths(1) unsigned_of_nat take_bit_nat_eq_self)
  have e: "(tv_sec t - S) * ALT_US + (tv_usec t - U) + int ((unat (nticks w) + k) * ?m)
      = tv_sec t * ALT_US + tv_usec t + int k * int ?m"
    using p(5) by (simp add: algebra_simps)
  have m: "int ?m = ALT_US div uint (tick_rate w)" by (simp add: ALT_US_def zdiv_int)
  have U: "- ALT_US < tv_usec t - U" "tv_usec t - U < ALT_US" using p(1,2) assms(6,7) by (auto simp: ALT_US_def)
  have nn: "0 \<le> tv_sec t * ALT_US + tv_usec t + int k * int ?m" using assms(4,6) by (simp add: ALT_US_def)
  have "\<exists>t'. alt_gettimeofday ?w = (0, Some (t', alt_timezone ?w)) \<and> 0 \<le> tv_usec t' \<and> tv_usec t' < ALT_US
    \<and> tv_sec t' * ALT_US + tv_usec t' = tv_sec (alt_resettime ?w) * ALT_US + tv_usec (alt_resettime ?w)
       + int (unat (nticks ?w) * (1000000 div unat (tick_rate ?w)))"
    by (rule get_time_eq) (use r assms(2-7) p(1-4) nn U in \<open>simp_all add: w1 k e del: of_nat_mult of_nat_add\<close>)
  moreover have "tv_sec (alt_resettime ?w) * ALT_US + tv_usec (alt_resettime ?w)
       + int (unat (nticks ?w) * (1000000 div unat (tick_rate ?w))) = tv_sec t * ALT_US + tv_usec t + int k * int ?m"
    using e by (simp add: w1 k del: of_nat_mult of_nat_add)
  moreover have "alt_timezone ?w = tz" by (simp add: w1)
  ultimately show ?thesis unfolding m by simp
qed

definition hundred_ms :: tod_state where
  "hundred_ms = clock_state.extend boot_clock
     \<lparr>alt_timezone = \<lparr>tz_minuteswest = 0, tz_dsttime = 0\<rparr>, alt_resettime = \<lparr>tv_sec = 0, tv_usec = 0\<rparr>,
      tod_errno = 0\<rparr>\<lparr>tick_rate := 1000, nticks := 100\<rparr>"

theorem gettimeofday_after_set_witness:
  "\<exists>w1 t'. alt_settimeofday \<lparr>tv_sec = 5, tv_usec = 999000\<rparr> \<lparr>tz_minuteswest = 60, tz_dsttime = 0\<rparr> hundred_ms = (0, w1)
     \<and> alt_gettimeofday (w1\<lparr>nticks := nticks w1 + 3\<rparr>) = (0, Some (t', \<lparr>tz_minuteswest = 60, tz_dsttime = 0\<rparr>))
     \<and> tv_sec t' * ALT_US + tv_usec t' = 6002000"
proof -
  let ?t = "\<lparr>tv_sec = 5, tv_usec = 999000\<rparr>" and ?z = "\<lparr>tz_minuteswest = 60, tz_dsttime = 0\<rparr>"
  have h: "tick_rate hundred_ms = 1000" "nticks hundred_ms = 100" by (simp_all add: hundred_ms_def)
  have d: "(1000 :: nat) dvd 1000000" by (rule dvdI[of _ _ 1000]) simp
  obtain w1 where w1: "alt_settimeofday ?t ?z hundred_ms = (0, w1)"
    by (simp add: alt_settimeofday_def alt_ticks_per_second_def h Let_def)
  from gettimeofday_after_set[OF w1, of 3] show ?thesis
    using w1 d h by (auto simp: ALT_US_def)
qed

end
