(* ===== verification/FpgaIntf.thy ===== *)
theory FpgaIntf
  imports IrqCtl
begin

text \<open>
  The table of FPGA interfaces (\<open>HAL/src/intel_fpga_api_cmn_inf.c\<close>, \<open>intel_fpga_api_niosv.c\<close>,
  \<open>intel_fpga_api_cmn_msg.c\<close>) and the register and interrupt functions on an open interface
  (\<open>HAL/inc/sys/intel_fpga_api_niosv.h\<close>). Memory comes from the C library: the parameter \<open>al\<close> says
  whether a request for that many bytes is granted. An exception ends the program, as the default
  handler does; it is the left side of the results.
\<close>

section \<open>State\<close>

datatype fpga_exn = OutOfMemory nat | BadDataSize nat | Truncating | StackEmpty

record fpga_param =
  fp_version :: u16
  fp_id :: u16
  fp_size :: u32
  fp_data :: "u64 list option"

record fpga_info =
  guid_l :: u64
  guid_h :: u64
  instance_id :: u16
  group_id :: u16
  parameters :: "fpga_param list"
  dfh_parent :: int
  base_address :: u32
  interrupt :: u16
  is_mmio_opened :: bool
  is_interrupt_opened :: bool

text \<open>
  \<open>v_reserved\<close> elements are allocated and \<open>v_size\<close> of them are in use. The array of parameters is a
  list: \<open>num_of_parameters\<close> is its length, and the pointer is \<open>NULL\<close> when it is empty.
\<close>

record fpga_state =
  v_at :: "nat \<Rightarrow> fpga_info"
  v_size :: nat
  v_reserved :: nat

type_synonym alloc = "nat \<Rightarrow> bool"

definition zero_param :: fpga_param where
  "zero_param = \<lparr>fp_version = 0, fp_id = 0, fp_size = 0, fp_data = None\<rparr>"

definition zero_info :: fpga_info where
  "zero_info = \<lparr>guid_l = 0, guid_h = 0, instance_id = 0, group_id = 0, parameters = [], dfh_parent = 0,
     base_address = 0, interrupt = 0, is_mmio_opened = False, is_interrupt_opened = False\<rparr>"

definition INFO_SIZE :: nat where "INFO_SIZE = 40"

definition PARAM_SIZE :: nat where "PARAM_SIZE = 12"

text \<open>A size in bytes, computed in the 32-bit \<open>size_t\<close>.\<close>

definition bytes :: "nat \<Rightarrow> nat \<Rightarrow> nat" where
  "bytes n sz = n * sz mod 2 ^ 32"

definition upd_info :: "nat \<Rightarrow> (fpga_info \<Rightarrow> fpga_info) \<Rightarrow> 'a fpga_state_scheme \<Rightarrow> 'a fpga_state_scheme" where
  "upd_info i f s = s\<lparr>v_at := (v_at s)(i := f (v_at s i))\<rparr>"

section \<open>The vector\<close>

text \<open>New elements are zero; those above \<open>v_reserved\<close> do not exist, and are zero too.\<close>

definition common_fpga_interface_info_vec_reserve ::
  "alloc \<Rightarrow> nat \<Rightarrow> 'a fpga_state_scheme \<Rightarrow> fpga_exn + 'a fpga_state_scheme" where
  "common_fpga_interface_info_vec_reserve al n s =
     (if n > v_reserved s then
        (if al (bytes n INFO_SIZE)
         then Inr (s\<lparr>v_at := (\<lambda>i. if i < v_reserved s then v_at s i else zero_info), v_reserved := n\<rparr>)
         else Inl (OutOfMemory n))
      else
        (let s1 = (if n < v_size s
                   then s\<lparr>v_at := (\<lambda>i. if n \<le> i \<and> i < v_size s then zero_info else v_at s i), v_size := n\<rparr>
                   else s)
         in Inr (if n = 0 then s1\<lparr>v_reserved := 0, v_size := 0\<rparr> else s1)))"

definition common_fpga_interface_info_vec_resize ::
  "alloc \<Rightarrow> nat \<Rightarrow> 'a fpga_state_scheme \<Rightarrow> fpga_exn + 'a fpga_state_scheme" where
  "common_fpga_interface_info_vec_resize al n s =
     (case common_fpga_interface_info_vec_reserve al n s of
        Inl e \<Rightarrow> Inl e
      | Inr s1 \<Rightarrow> Inr (s1\<lparr>v_size := n\<rparr>))"

section \<open>Using an interface\<close>

definition fpga_get_num_of_interfaces :: "'a fpga_state_scheme \<Rightarrow> u32" where
  "fpga_get_num_of_interfaces s = of_nat (v_size s)"

definition fpga_get_interface_at :: "u32 \<Rightarrow> 'a fpga_state_scheme \<Rightarrow> fpga_info option" where
  "fpga_get_interface_at index s = (if unat index < v_size s then Some (v_at s (unat index)) else None)"

definition FPGA_MMIO_INTERFACE_INVALID_HANDLE :: u32 where "FPGA_MMIO_INTERFACE_INVALID_HANDLE = - 1"

definition FPGA_INTERRUPT_INVALID_HANDLE :: int where "FPGA_INTERRUPT_INVALID_HANDLE = - 1"

definition fpga_open :: "u32 \<Rightarrow> 'a fpga_state_scheme \<Rightarrow> u32 \<times> 'a fpga_state_scheme" where
  "fpga_open index s =
     (if unat index < v_size s \<and> \<not> is_mmio_opened (v_at s (unat index))
      then (base_address (v_at s (unat index)), upd_info (unat index) (is_mmio_opened_update (\<lambda>_. True)) s)
      else (FPGA_MMIO_INTERFACE_INVALID_HANDLE, s))"

definition fpga_close :: "u32 \<Rightarrow> 'a fpga_state_scheme \<Rightarrow> 'a fpga_state_scheme" where
  "fpga_close index s =
     (if unat index < v_size s then upd_info (unat index) (is_mmio_opened_update (\<lambda>_. False)) s else s)"

definition fpga_interrupt_open :: "u32 \<Rightarrow> 'a fpga_state_scheme \<Rightarrow> int \<times> 'a fpga_state_scheme" where
  "fpga_interrupt_open index s =
     (if unat index < v_size s \<and> \<not> is_interrupt_opened (v_at s (unat index))
      then (sint index, upd_info (unat index) (is_interrupt_opened_update (\<lambda>_. True)) s)
      else (FPGA_INTERRUPT_INVALID_HANDLE, s))"

definition fpga_interrupt_close :: "u32 \<Rightarrow> 'a fpga_state_scheme \<Rightarrow> 'a fpga_state_scheme" where
  "fpga_interrupt_close index s =
     (if unat index < v_size s then upd_info (unat index) (is_interrupt_opened_update (\<lambda>_. False)) s else s)"

definition fpga_platform_cleanup :: "alloc \<Rightarrow> 'a fpga_state_scheme \<Rightarrow> fpga_exn + 'a fpga_state_scheme" where
  "fpga_platform_cleanup al s =
     (if v_size s > 0 then common_fpga_interface_info_vec_resize al 0 s else Inr s)"

section \<open>Registers and interrupts of an interface\<close>

text \<open>
  A 32-bit access at a byte offset; \<open>IORD_32DIRECT\<close> and \<open>IOWR_32DIRECT\<close> have no register number. On an address that is not a
  multiple of 4 the load or the store is an exception, and no access is made: \<open>None\<close>. A 64-bit access is two of 32 bits,
  the low half first.
\<close>

definition aligned :: "u32 \<Rightarrow> u32 \<Rightarrow> bool" where
  "aligned width a \<longleftrightarrow> a AND (width - 1) = 0"

definition fpga_read_32 :: "hw \<Rightarrow> u32 \<Rightarrow> u32 \<Rightarrow> 'a io_state_scheme \<Rightarrow> (u32 \<times> 'a io_state_scheme) option" where
  "fpga_read_32 hw h offset w = (if aligned 4 (h + offset) then Some (iord hw (h + offset) 0 w) else None)"

definition fpga_write_32 :: "u32 \<Rightarrow> u32 \<Rightarrow> u32 \<Rightarrow> 'a io_state_scheme \<Rightarrow> 'a io_state_scheme option" where
  "fpga_write_32 h offset v w = (if aligned 4 (h + offset) then Some (iowr (h + offset) 0 v w) else None)"

definition fpga_read_64 :: "hw \<Rightarrow> u32 \<Rightarrow> u32 \<Rightarrow> 'a io_state_scheme \<Rightarrow> (u64 \<times> 'a io_state_scheme) option" where
  "fpga_read_64 hw h offset w =
     Option.bind (fpga_read_32 hw h offset w) (\<lambda>(lo, w1).
     map_option (\<lambda>(hi, w2). (push_bit 32 (ucast hi) OR ucast lo, w2)) (fpga_read_32 hw h (offset + 4) w1))"

definition fpga_write_64 :: "u32 \<Rightarrow> u32 \<Rightarrow> u64 \<Rightarrow> 'a io_state_scheme \<Rightarrow> 'a io_state_scheme option" where
  "fpga_write_64 h offset v w =
     Option.bind (fpga_write_32 h offset (ucast v) w) (fpga_write_32 h (offset + 4) (ucast (drop_bit 32 v)))"

fun read_words :: "hw \<Rightarrow> u32 \<Rightarrow> u32 \<Rightarrow> nat \<Rightarrow> 'a io_state_scheme \<Rightarrow> (u32 list \<times> 'a io_state_scheme) option" where
  "read_words hw h offset 0 w = Some ([], w)"
| "read_words hw h offset (Suc n) w =
     Option.bind (fpga_read_32 hw h offset w) (\<lambda>(v, w1).
     map_option (\<lambda>(vs, w2). (v # vs, w2)) (read_words hw h (offset + 4) n w1))"

definition fpga_read_512 :: "hw \<Rightarrow> u32 \<Rightarrow> u32 \<Rightarrow> 'a io_state_scheme \<Rightarrow> (u32 list \<times> 'a io_state_scheme) option" where
  "fpga_read_512 hw h offset w = read_words hw h offset 16 w"

fun write_words :: "u32 \<Rightarrow> u32 \<Rightarrow> u32 list \<Rightarrow> 'a io_state_scheme \<Rightarrow> 'a io_state_scheme option" where
  "write_words h offset [] w = Some w"
| "write_words h offset (v # vs) w = Option.bind (fpga_write_32 h offset v w) (write_words h (offset + 4) vs)"

text \<open>The 64 bytes at the pointer, as the 16 words the loop reads.\<close>

definition fpga_write_512 :: "u32 \<Rightarrow> u32 \<Rightarrow> u32 list \<Rightarrow> 'a io_state_scheme \<Rightarrow> 'a io_state_scheme option" where
  "fpga_write_512 h offset vs w = write_words h offset (take 16 vs) w"

definition fpga_enable_interrupt :: "int \<Rightarrow> 'a irq_state_scheme \<Rightarrow> int \<times> 'a irq_state_scheme" where
  "fpga_enable_interrupt h w =
     (if handler (alt_irq w h) = 0 then (- 1, w)
      else (let (ret, w1) = alt_ic_irq_enable 0 (word_of_int h) w in (if ret < 0 then - 2 else ret, w1)))"

definition fpga_disable_interrupt :: "int \<Rightarrow> 'a irq_state_scheme \<Rightarrow> int \<times> 'a irq_state_scheme" where
  "fpga_disable_interrupt h w =
     (if handler (alt_irq w h) = 0 then (- 1, w)
      else if alt_ic_irq_enabled 0 (word_of_int h) w \<noteq> 0 then
        (let (ret, w1) = alt_ic_irq_disable 0 (word_of_int h) w in (if ret < 0 then - 2 else ret, w1))
      else (- 3, w))"

text \<open>\<open>rc | (1 << 31)\<close> on 32-bit integers.\<close>

definition fpga_register_isr :: "int \<Rightarrow> u32 \<Rightarrow> u32 \<Rightarrow> 'a irq_state_scheme \<Rightarrow> int \<times> 'a irq_state_scheme" where
  "fpga_register_isr h isr isr_context w =
     (let ret = (if handler (alt_irq w h) \<noteq> 0 \<and> isr \<noteq> 0 then 1 else 0);
          (rc, w1) = alt_ic_isr_register 0 (word_of_int h) isr isr_context 0 w
      in (if rc \<noteq> 0 then sint (word_of_int rc OR 0x80000000 :: u32) else ret, w1))"

end
