(* ===== verification/DflWalk.thy ===== *)
theory DflWalk
  imports FpgaIntf
begin

text \<open>
  The device feature list walker (\<open>HAL/src/intel_fpga_api_cmn_dfl.c\<close>, \<open>intel_fpga_platform_api_niosv.c\<close>):
  two walks over lists of feature headers in device memory, which branch into lower lists through
  parameter blocks; the first counts the features, the second fills the table of
  interfaces. The memory is \<open>rom\<close>, the 64-bit value read at each address. A walk that does not end is
  \<open>None\<close>.
\<close>

section \<open>State\<close>

text \<open>
  The stack of parents: the cells of the array, the index of the top and the number of cells.
  \<open>oob\<close> records the indices written outside the array.
\<close>

record dfl_state = fpga_state +
  scanned_count :: nat
  interface_index :: int
  st_head :: "int \<Rightarrow> int"
  st_top :: int
  st_size :: nat
  oob :: "int list"

type_synonym rom = "u32 \<Rightarrow> u64"

definition DFH_PARENT_STACK_INCR_SIZE :: nat where "DFH_PARENT_STACK_INCR_SIZE = 8"

definition PARAM_HEADER_SIZE :: u32 where "PARAM_HEADER_SIZE = 8"

section \<open>The stack of parents\<close>

definition dfh_parent_stack_resize :: "alloc \<Rightarrow> nat \<Rightarrow> dfl_state \<Rightarrow> fpga_exn + dfl_state" where
  "dfh_parent_stack_resize al n s =
     (if n > st_size s then
        (if al (bytes n 4)
         then Inr (s\<lparr>st_head := (\<lambda>i. if int (st_size s) \<le> i \<and> i < int n then 0 else st_head s i), st_size := n\<rparr>)
         else Inl (OutOfMemory n))
      else if n = 0 then Inr (s\<lparr>st_size := 0\<rparr>)
      else if n < st_size s then Inl Truncating
      else Inr s)"

definition dfh_parent_stack_isempty :: "dfl_state \<Rightarrow> bool" where
  "dfh_parent_stack_isempty s \<longleftrightarrow> st_top s = - 1"

definition dfh_parent_stack_peek :: "dfl_state \<Rightarrow> int" where
  "dfh_parent_stack_peek s = st_head s (st_top s)"

definition dfh_parent_stack_pop :: "dfl_state \<Rightarrow> fpga_exn + dfl_state" where
  "dfh_parent_stack_pop s =
     (if \<not> dfh_parent_stack_isempty s then Inr (s\<lparr>st_top := st_top s - 1\<rparr>) else Inl StackEmpty)"

definition dfh_parent_stack_push :: "alloc \<Rightarrow> int \<Rightarrow> dfl_state \<Rightarrow> fpga_exn + dfl_state" where
  "dfh_parent_stack_push al data s =
     (case (if st_top s = int (st_size s) then dfh_parent_stack_resize al (st_size s + DFH_PARENT_STACK_INCR_SIZE) s
            else Inr s) of
        Inl e \<Rightarrow> Inl e
      | Inr s1 \<Rightarrow>
          (let t = st_top s1 + 1
           in Inr (s1\<lparr>st_top := t, st_head := (st_head s1)(t := data),
                      oob := (if 0 \<le> t \<and> t < int (st_size s1) then oob s1 else oob s1 @ [t])\<rparr>)))"

section \<open>Fields of the headers\<close>

definition is_eol :: "u64 \<Rightarrow> bool" where
  "is_eol d \<longleftrightarrow> d AND 0x0000010000000000 > 0"

text \<open>The 64-bit words of a feature's header.\<close>

definition get_x_feature_dfh_start_64_data :: "rom \<Rightarrow> u32 \<Rightarrow> u64" where
  [simp]: "get_x_feature_dfh_start_64_data rom a = rom (a + 0x00)"

definition get_x_feature_guid_l_64 :: "rom \<Rightarrow> u32 \<Rightarrow> u64" where
  [simp]: "get_x_feature_guid_l_64 rom a = rom (a + 0x08)"

definition get_x_feature_guid_h_64 :: "rom \<Rightarrow> u32 \<Rightarrow> u64" where
  [simp]: "get_x_feature_guid_h_64 rom a = rom (a + 0x10)"

text \<open>The high and the low half.\<close>

definition get_x_feature_guid_128 :: "rom \<Rightarrow> u32 \<Rightarrow> u64 \<times> u64" where
  [simp]: "get_x_feature_guid_128 rom a = (get_x_feature_guid_h_64 rom a, get_x_feature_guid_l_64 rom a)"

definition get_x_feature_csr_group_size_64_data :: "rom \<Rightarrow> u32 \<Rightarrow> u64" where
  [simp]: "get_x_feature_csr_group_size_64_data rom a = rom (a + 0x20)"

definition get_next_dfh_byte_offset :: "u64 \<Rightarrow> u32" where
  "get_next_dfh_byte_offset d = ucast (drop_bit 16 (d AND 0x0000007fffff0000))"

definition get_next_dfh_addr :: "u64 \<Rightarrow> u32 \<Rightarrow> u32" where
  "get_next_dfh_addr d a = a + get_next_dfh_byte_offset d"

definition get_instance_id :: "rom \<Rightarrow> u32 \<Rightarrow> u16" where
  "get_instance_id rom a = ucast (get_x_feature_csr_group_size_64_data rom a AND 0xffff)"

definition get_group_id :: "rom \<Rightarrow> u32 \<Rightarrow> u16" where
  "get_group_id rom a = ucast (drop_bit 16 (get_x_feature_csr_group_size_64_data rom a AND 0x7fff0000))"

definition has_params :: "u64 \<Rightarrow> bool" where
  "has_params d \<longleftrightarrow> d AND 0x80000000 > 0"

definition get_base_address :: "rom \<Rightarrow> u32 \<Rightarrow> u32" where
  "get_base_address rom a =
     (let csr_addr = rom (a + 0x18)
      in if csr_addr AND 1 \<noteq> 0 then ucast (csr_addr AND 0xFFFFFFFFFFFFFFFE)
         else ucast (ucast a + csr_addr))"

definition get_first_param_header_addr :: "u32 \<Rightarrow> u32" where
  "get_first_param_header_addr a = a + 0x28"

definition is_last_param_block :: "u64 \<Rightarrow> bool" where
  "is_last_param_block h \<longleftrightarrow> drop_bit 32 h AND 1 \<noteq> 0"

definition get_next_param_byte_offset :: "u64 \<Rightarrow> u64" where
  "get_next_param_byte_offset h = push_bit 3 (drop_bit 35 h)"

definition get_param_block_version :: "u64 \<Rightarrow> u16" where
  "get_param_block_version h = ucast (drop_bit 16 h AND 0xFFFF)"

definition get_param_block_param_id :: "u64 \<Rightarrow> u16" where
  "get_param_block_param_id h = ucast (h AND 0xFFFF)"

definition get_param_id :: "u64 \<Rightarrow> u32" where
  "get_param_id h = ucast (h AND 0xFFFF)"

definition next_param_block :: "u32 \<Rightarrow> u64 \<Rightarrow> u32" where
  "next_param_block p h = ucast (ucast p + get_next_param_byte_offset h)"

definition branch_target :: "rom \<Rightarrow> u32 \<Rightarrow> u32 \<Rightarrow> u32" where
  "branch_target rom a p =
     (let d = rom (p + 8)
      in if d AND 1 \<noteq> 0 then ucast (d AND 0xFFFFFFFFFFFFFFF8)
         else ucast (ucast a + (d AND 0xFFFFFFFFFFFFFFF8)))"

text \<open>The loop condition of both loops over parameter blocks: not yet at the closing empty block.\<close>

definition more_params :: "u64 \<Rightarrow> bool" where
  "more_params h \<longleftrightarrow> \<not> is_last_param_block h \<or> get_next_param_byte_offset h > 0"

section \<open>Filling in one interface\<close>

definition upd_param :: "nat \<Rightarrow> nat \<Rightarrow> (fpga_param \<Rightarrow> fpga_param) \<Rightarrow> dfl_state \<Rightarrow> dfl_state" where
  "upd_param i j f s = upd_info i (\<lambda>r. r\<lparr>parameters := (parameters r)[j := f (parameters r ! j)]\<rparr>) s"

text \<open>The block from \<open>malloc\<close> is written before it is read; it is modelled as zero.\<close>

definition param_block_init :: "alloc \<Rightarrow> nat \<Rightarrow> dfl_state \<Rightarrow> fpga_exn + dfl_state" where
  "param_block_init al i s =
     (if al PARAM_SIZE then Inr (upd_info i (\<lambda>r. r\<lparr>parameters := [zero_param]\<rparr>) s) else Inl (OutOfMemory 1))"

definition param_block_resize :: "alloc \<Rightarrow> nat \<Rightarrow> nat \<Rightarrow> dfl_state \<Rightarrow> fpga_exn + dfl_state" where
  "param_block_resize al i n s =
     (let ps = parameters (v_at s i)
      in if n > length ps then
           (if al (bytes n PARAM_SIZE)
            then Inr (upd_info i (\<lambda>r. r\<lparr>parameters := ps @ replicate (n - length ps) zero_param\<rparr>) s)
            else Inl (OutOfMemory n))
         else if n = 0 then Inr (upd_info i (\<lambda>r. r\<lparr>parameters := []\<rparr>) s)
         else if n < length ps then Inl Truncating
         else Inr s)"

definition param_data_allocate :: "alloc \<Rightarrow> nat \<Rightarrow> nat \<Rightarrow> u32 \<Rightarrow> dfl_state \<Rightarrow> fpga_exn + dfl_state" where
  "param_data_allocate al i j n s =
     (if n mod 8 \<noteq> 0 then Inl (BadDataSize (unat n))
      else if al (unat n)
      then Inr (upd_param i j (\<lambda>q. q\<lparr>fp_data := Some (replicate (unat n div 8) 0), fp_size := n\<rparr>) s)
      else Inl (OutOfMemory (unat n)))"

definition param_words :: "rom \<Rightarrow> u32 \<Rightarrow> nat \<Rightarrow> u64 list" where
  "param_words rom p k = map (\<lambda>i. rom (p + 8 * of_nat i)) [0..<k]"

definition param_data_copy :: "rom \<Rightarrow> nat \<Rightarrow> nat \<Rightarrow> u32 \<Rightarrow> dfl_state \<Rightarrow> dfl_state" where
  "param_data_copy rom i j p s =
     upd_param i j (\<lambda>q. q\<lparr>fp_data := Some (param_words rom p (unat (fp_size q) div 8))\<rparr>) s"

text \<open>The data size of a block, truncated to \<open>size_t\<close>.\<close>

definition param_size :: "u64 \<Rightarrow> u32" where
  "param_size h =
     ucast (if is_last_param_block h then get_next_param_byte_offset h
            else get_next_param_byte_offset h - ucast PARAM_HEADER_SIZE)"

text \<open>One block: its version, number and data.\<close>

definition set_param :: "alloc \<Rightarrow> rom \<Rightarrow> nat \<Rightarrow> nat \<Rightarrow> u32 \<Rightarrow> u64 \<Rightarrow> dfl_state \<Rightarrow> fpga_exn + dfl_state" where
  "set_param al rom i j p h s =
     (case (if j = 0 then param_block_init al i s else Inr s) of
        Inl e \<Rightarrow> Inl e
      | Inr s1 \<Rightarrow>
          (let s2 = upd_param i j (\<lambda>q. q\<lparr>fp_version := get_param_block_version h,
                                          fp_id := get_param_block_param_id h\<rparr>) s1
           in case param_data_allocate al i j (param_size h) s2 of
                Inl e \<Rightarrow> Inl e
              | Inr s3 \<Rightarrow> Inr (param_data_copy rom i j (p + PARAM_HEADER_SIZE) s3)))"

partial_function (option) set_params ::
  "alloc \<Rightarrow> rom \<Rightarrow> nat \<Rightarrow> nat \<Rightarrow> u32 \<Rightarrow> u64 \<Rightarrow> dfl_state \<Rightarrow> (fpga_exn + dfl_state) option" where
  "set_params al rom i j p h s =
     (if more_params h then
        (case set_param al rom i j p h s of
           Inl e \<Rightarrow> Some (Inl e)
         | Inr s1 \<Rightarrow>
             if \<not> is_last_param_block h then
               (case param_block_resize al i (j + 2) s1 of
                  Inl e \<Rightarrow> Some (Inl e)
                | Inr s2 \<Rightarrow> set_params al rom i (j + 1) (next_param_block p h) (rom (next_param_block p h)) s2)
             else Some (Inr s1))
      else Some (Inr s))"

definition set_parameter_properties ::
  "alloc \<Rightarrow> rom \<Rightarrow> nat \<Rightarrow> u32 \<Rightarrow> dfl_state \<Rightarrow> (fpga_exn + dfl_state) option" where
  "set_parameter_properties al rom i a s =
     (if has_params (get_x_feature_csr_group_size_64_data rom a)
      then set_params al rom i 0 (get_first_param_header_addr a) (rom (get_first_param_header_addr a)) s
      else Some (Inr s))"

definition set_interface_properties ::
  "alloc \<Rightarrow> rom \<Rightarrow> nat \<Rightarrow> u32 \<Rightarrow> dfl_state \<Rightarrow> (fpga_exn + dfl_state) option" where
  "set_interface_properties al rom i a s =
     set_parameter_properties al rom i a
       (upd_info i (\<lambda>r. r\<lparr>base_address := get_base_address rom a, guid_h := fst (get_x_feature_guid_128 rom a), guid_l := snd (get_x_feature_guid_128 rom a),
          instance_id := get_instance_id rom a, group_id := get_group_id rom a,
          dfh_parent := dfh_parent_stack_peek s, is_mmio_opened := False, is_interrupt_opened := False\<rparr>) s)"

section \<open>The walk\<close>

text \<open>
  \<open>Level a\<close> is the feature at \<open>a\<close> and those after it; \<open>Blocks a p h\<close> the parameter blocks of the feature at
  \<open>a\<close> from the one at \<open>p\<close> on, whose header has been read as \<open>h\<close>. The functions that call each other
  become one function of what they work on.
\<close>

datatype dfl_task = Level u32 | Blocks u32 u32 u64

definition enter_interface :: "alloc \<Rightarrow> rom \<Rightarrow> bool \<Rightarrow> u32 \<Rightarrow> dfl_state \<Rightarrow> (fpga_exn + dfl_state) option" where
  "enter_interface al rom collect a s =
     (if \<not> collect then Some (Inr (s\<lparr>scanned_count := scanned_count s + 1\<rparr>))
      else (let s1 = s\<lparr>interface_index := interface_index s + 1\<rparr>
            in set_interface_properties al rom (nat (interface_index s1)) a s1))"

partial_function (option) dfl_walk ::
  "alloc \<Rightarrow> rom \<Rightarrow> bool \<Rightarrow> dfl_task \<Rightarrow> dfl_state \<Rightarrow> (fpga_exn + dfl_state) option" where
  "dfl_walk al rom collect t s =
     (case t of
        Level a \<Rightarrow>
          (case enter_interface al rom collect a s of
             None \<Rightarrow> None
           | Some (Inl e) \<Rightarrow> Some (Inl e)
           | Some (Inr s1) \<Rightarrow>
               Option.bind
                 (if has_params (get_x_feature_csr_group_size_64_data rom a)
                  then dfl_walk al rom collect
                         (Blocks a (get_first_param_header_addr a) (rom (get_first_param_header_addr a))) s1
                  else Some (Inr s1))
                 (\<lambda>r. case r of
                    Inl e \<Rightarrow> Some (Inl e)
                  | Inr s2 \<Rightarrow>
                      if \<not> is_eol (get_x_feature_dfh_start_64_data rom a)
                      then dfl_walk al rom collect (Level (get_next_dfh_addr (get_x_feature_dfh_start_64_data rom a) a)) s2
                      else Some (dfh_parent_stack_pop s2)))
      | Blocks a p h \<Rightarrow>
          if more_params h then
            Option.bind
              (if get_param_id h = 0xc then
                 (case dfh_parent_stack_push al (interface_index s) s of
                    Inl e \<Rightarrow> Some (Inl e)
                  | Inr s1 \<Rightarrow> dfl_walk al rom collect (Level (branch_target rom a p)) s1)
               else Some (Inr s))
              (\<lambda>r. case r of
                 Inl e \<Rightarrow> Some (Inl e)
               | Inr s2 \<Rightarrow>
                   if \<not> is_last_param_block h
                   then dfl_walk al rom collect (Blocks a (next_param_block p h) (rom (next_param_block p h))) s2
                   else Some (Inr s2))
          else Some (Inr s))"

definition scan_the_num_interfaces :: "alloc \<Rightarrow> rom \<Rightarrow> u32 \<Rightarrow> dfl_state \<Rightarrow> (fpga_exn + dfl_state) option" where
  "scan_the_num_interfaces al rom first s =
     (case dfh_parent_stack_push al (- 1) s of
        Inl e \<Rightarrow> Some (Inl e)
      | Inr s1 \<Rightarrow> dfl_walk al rom False (Level first) s1)"

definition dfl_collect_interfaces_info :: "alloc \<Rightarrow> rom \<Rightarrow> u32 \<Rightarrow> dfl_state \<Rightarrow> (fpga_exn + dfl_state) option" where
  "dfl_collect_interfaces_info al rom first s =
     (case dfh_parent_stack_push al (- 1) s of
        Inl e \<Rightarrow> Some (Inl e)
      | Inr s1 \<Rightarrow>
          (case common_fpga_interface_info_vec_resize al (v_size s1) s1 of
             Inl e \<Rightarrow> Some (Inl e)
           | Inr s2 \<Rightarrow> dfl_walk al rom True (Level first) s2))"

definition common_dfl_scan_multi_interfaces ::
  "alloc \<Rightarrow> rom \<Rightarrow> u32 \<Rightarrow> dfl_state \<Rightarrow> (fpga_exn + dfl_state) option" where
  "common_dfl_scan_multi_interfaces al rom first s =
     (case common_fpga_interface_info_vec_resize al 0 (s\<lparr>scanned_count := 0\<rparr>) of
        Inl e \<Rightarrow> Some (Inl e)
      | Inr s1 \<Rightarrow>
          (case scan_the_num_interfaces al rom first s1 of
             None \<Rightarrow> None
           | Some (Inl e) \<Rightarrow> Some (Inl e)
           | Some (Inr s2) \<Rightarrow>
               (case common_fpga_interface_info_vec_resize al (scanned_count s2) s2 of
                  Inl e \<Rightarrow> Some (Inl e)
                | Inr s3 \<Rightarrow>
                    (case dfl_collect_interfaces_info al rom first (s3\<lparr>interface_index := - 1\<rparr>) of
                       None \<Rightarrow> None
                     | Some (Inl e) \<Rightarrow> Some (Inl e)
                     | Some (Inr s4) \<Rightarrow> Some (dfh_parent_stack_resize al 0 s4)))))"

text \<open>The address of the list is a constant of the system; this board has none.\<close>

definition fpga_platform_init :: "alloc \<Rightarrow> rom \<Rightarrow> u32 \<Rightarrow> dfl_state \<Rightarrow> (fpga_exn + bool \<times> dfl_state) option" where
  "fpga_platform_init al rom start s =
     map_option (map_sum id (\<lambda>s1. (True, s1))) (common_dfl_scan_multi_interfaces al rom start s)"

definition dfl_boot :: dfl_state where
  "dfl_boot = \<lparr>v_at = (\<lambda>_. zero_info), v_size = 0, v_reserved = 0, scanned_count = 0, interface_index = 0,
     st_head = (\<lambda>_. 0), st_top = 0, st_size = 0, oob = []\<rparr>"

end
