(* ===== verification/DflProps.thy ===== *)
theory DflProps
  imports DflWalk
begin

text \<open>
  What the walker does on a well-formed feature list: the lists in device memory are described by a tree,
  and the walk ends and gives one interface per feature of the tree, in the order of the tree, with
  the fields, parameters and parent of each; the bounds under which the stack of parents holds.
\<close>

section \<open>Feature trees\<close>

text \<open>
  A list of features, each at its address, and the parameter blocks of a feature: none at all, the
  closing empty block, a data block, a branch into a lower list, or a last block with data, which
  may be a branch too.
\<close>

datatype dfl_list = DLast u32 dfl_blocks | DNext u32 dfl_blocks dfl_list
  and dfl_blocks = BNone | BNull | BData dfl_blocks | BBranch dfl_list dfl_blocks | BEndData | BEndBranch dfl_list

primrec dfl_first :: "dfl_list \<Rightarrow> u32" where
  "dfl_first (DLast a bs) = a"
| "dfl_first (DNext a bs l) = a"

text \<open>The device memory holds the tree.\<close>

primrec list_at :: "rom \<Rightarrow> dfl_list \<Rightarrow> bool" and blocks_at :: "rom \<Rightarrow> u32 \<Rightarrow> u32 \<Rightarrow> dfl_blocks \<Rightarrow> bool" where
  "list_at rom (DLast a bs) \<longleftrightarrow> is_eol (rom a) \<and> has_params (rom (a + 0x20)) = (bs \<noteq> BNone)
     \<and> blocks_at rom a (a + 0x28) bs"
| "list_at rom (DNext a bs l) \<longleftrightarrow> \<not> is_eol (rom a) \<and> has_params (rom (a + 0x20)) = (bs \<noteq> BNone)
     \<and> blocks_at rom a (a + 0x28) bs \<and> dfl_first l = get_next_dfh_addr (rom a) a \<and> list_at rom l"
| "blocks_at rom a p BNone \<longleftrightarrow> True"
| "blocks_at rom a p BNull \<longleftrightarrow> \<not> more_params (rom p)"
| "blocks_at rom a p (BData bs) \<longleftrightarrow> \<not> is_last_param_block (rom p) \<and> get_param_id (rom p) \<noteq> 0xc
     \<and> bs \<noteq> BNone \<and> blocks_at rom a (next_param_block p (rom p)) bs"
| "blocks_at rom a p (BBranch l bs) \<longleftrightarrow> \<not> is_last_param_block (rom p) \<and> get_param_id (rom p) = 0xc
     \<and> dfl_first l = branch_target rom a p \<and> list_at rom l
     \<and> bs \<noteq> BNone \<and> blocks_at rom a (next_param_block p (rom p)) bs"
| "blocks_at rom a p BEndData \<longleftrightarrow> is_last_param_block (rom p) \<and> more_params (rom p) \<and> get_param_id (rom p) \<noteq> 0xc"
| "blocks_at rom a p (BEndBranch l) \<longleftrightarrow> is_last_param_block (rom p) \<and> more_params (rom p)
     \<and> get_param_id (rom p) = 0xc \<and> dfl_first l = branch_target rom a p \<and> list_at rom l"

text \<open>How many lists deep a tree is.\<close>

primrec list_deep :: "dfl_list \<Rightarrow> nat" and blocks_deep :: "dfl_blocks \<Rightarrow> nat" where
  "list_deep (DLast a bs) = 1 + blocks_deep bs"
| "list_deep (DNext a bs l) = max (1 + blocks_deep bs) (list_deep l)"
| "blocks_deep BNone = 0"
| "blocks_deep BNull = 0"
| "blocks_deep (BData bs) = blocks_deep bs"
| "blocks_deep (BBranch l bs) = max (list_deep l) (blocks_deep bs)"
| "blocks_deep BEndData = 0"
| "blocks_deep (BEndBranch l) = list_deep l"

text \<open>The parameters of a feature. After the closing empty block one more, all zero, is left over.\<close>

definition param_of :: "rom \<Rightarrow> u32 \<Rightarrow> fpga_param" where
  "param_of rom p = \<lparr>fp_version = get_param_block_version (rom p), fp_id = get_param_block_param_id (rom p),
     fp_size = param_size (rom p), fp_data = Some (param_words rom (p + 8) (unat (param_size (rom p)) div 8))\<rparr>"

primrec blocks_params :: "rom \<Rightarrow> dfl_blocks \<Rightarrow> u32 \<Rightarrow> fpga_param list" where
  "blocks_params rom BNone = (\<lambda>p. [])"
| "blocks_params rom BNull = (\<lambda>p. [zero_param])"
| "blocks_params rom (BData bs) = (\<lambda>p. param_of rom p # blocks_params rom bs (next_param_block p (rom p)))"
| "blocks_params rom (BBranch l bs) = (\<lambda>p. param_of rom p # blocks_params rom bs (next_param_block p (rom p)))"
| "blocks_params rom BEndData = (\<lambda>p. [param_of rom p])"
| "blocks_params rom (BEndBranch l) = (\<lambda>p. [param_of rom p])"

definition feature_params :: "rom \<Rightarrow> u32 \<Rightarrow> dfl_blocks \<Rightarrow> fpga_param list" where
  "feature_params rom a bs = (if bs = BNull then [] else blocks_params rom bs (a + 0x28))"

definition feature_info :: "rom \<Rightarrow> int \<Rightarrow> u32 \<Rightarrow> dfl_blocks \<Rightarrow> fpga_info" where
  "feature_info rom par a bs = \<lparr>guid_l = rom (a + 0x08), guid_h = rom (a + 0x10), instance_id = get_instance_id rom a,
     group_id = get_group_id rom a, parameters = feature_params rom a bs, dfh_parent = par,
     base_address = get_base_address rom a, interrupt = 0, is_mmio_opened = False, is_interrupt_opened = False\<rparr>"

text \<open>
  The interfaces of a tree, in order. \<open>k\<close> is the number of the list's first feature, \<open>f\<close> that of the
  feature whose blocks these are and \<open>c\<close> that of the last feature met. The parent of a
  feature is the one that branches to it (\<open>right\<close>); what the walker takes is the last one met.
\<close>

primrec list_infos :: "bool \<Rightarrow> rom \<Rightarrow> dfl_list \<Rightarrow> int \<Rightarrow> int \<Rightarrow> fpga_info list"
  and blocks_infos :: "bool \<Rightarrow> rom \<Rightarrow> dfl_blocks \<Rightarrow> int \<Rightarrow> int \<Rightarrow> fpga_info list" where
  "list_infos right rom (DLast a bs) = (\<lambda>par k. feature_info rom par a bs # blocks_infos right rom bs k k)"
| "list_infos right rom (DNext a bs l) = (\<lambda>par k. (let ys = blocks_infos right rom bs k k
     in feature_info rom par a bs # ys @ list_infos right rom l par (k + 1 + int (length ys))))"
| "blocks_infos right rom BNone = (\<lambda>f c. [])"
| "blocks_infos right rom BNull = (\<lambda>f c. [])"
| "blocks_infos right rom (BData bs) = blocks_infos right rom bs"
| "blocks_infos right rom (BBranch l bs) = (\<lambda>f c. (let ys = list_infos right rom l (if right then f else c) (c + 1)
     in ys @ blocks_infos right rom bs f (c + int (length ys))))"
| "blocks_infos right rom BEndData = (\<lambda>f c. [])"
| "blocks_infos right rom (BEndBranch l) = (\<lambda>f c. list_infos right rom l (if right then f else c) (c + 1))"

section \<open>The parameters of one feature\<close>

lemma upd_info_simps [simp]:
  "v_at (upd_info i f s) i = f (v_at s i)" "upd_info i g (upd_info i f s) = upd_info i (\<lambda>r. g (f r)) s"
  "v_size (upd_info i f s) = v_size s" "v_reserved (upd_info i f s) = v_reserved s"
  by (simp_all add: upd_info_def)

lemma ucast_shifted: "(ucast (push_bit 3 (y :: u64)) :: u32) mod 8 = 0"
proof -
  have "(ucast (push_bit 3 y) :: u32) mod 2 ^ 3 = take_bit 3 (ucast (push_bit 3 y))" by (simp only: take_bit_eq_mod)
  also have "\<dots> = 0"
    by (rule bit_eqI) (simp only: bit_take_bit_iff bit_unsigned_iff bit_push_bit_iff bit_0_eq bot_apply, auto)
  finally show ?thesis by simp
qed

lemma param_size_mod: "param_size h mod 8 = 0"
proof -
  have "push_bit 3 y - 8 = push_bit 3 (y - 1)" for y :: u64 by (simp add: push_bit_eq_mult algebra_simps)
  then show ?thesis
    by (simp add: param_size_def get_next_param_byte_offset_def PARAM_HEADER_SIZE_def ucast_shifted)
qed

lemma param_update_last:
  assumes "parameters (v_at s i) = ps @ [q]" "length ps = j"
  shows "upd_param i j f s = upd_info i (\<lambda>r. r\<lparr>parameters := ps @ [f q]\<rparr>) s"
  using assms by (auto simp: upd_param_def upd_info_def nth_append)

lemma set_param_ok:
  assumes "\<forall>n. al n" "j = 0 \<and> ps = [] \<or> parameters (v_at s i) = ps @ [q] \<and> length ps = j \<and> j > 0"
  shows "set_param al rom i j p (rom p) s = Inr (upd_info i (\<lambda>r. r\<lparr>parameters := ps @ [param_of rom p]\<rparr>) s)"
proof -
  obtain s1 q1 where s1: "(if j = 0 then param_block_init al i s else Inr s) = Inr s1"
    "s1 = upd_info i (\<lambda>r. r\<lparr>parameters := ps @ [q1]\<rparr>) s" "length ps = j"
  proof (cases "j = 0")
    case True
    then show thesis using that[of "upd_info i (\<lambda>r. r\<lparr>parameters := [zero_param]\<rparr>) s" zero_param] assms
      by (auto simp: param_block_init_def)
  next
    case False
    then have "v_at s i = (v_at s i)\<lparr>parameters := ps @ [q]\<rparr>" using assms(2) by simp
    then have "upd_info i (\<lambda>r. r\<lparr>parameters := ps @ [q]\<rparr>) s = s" by (simp add: upd_info_def)
    then show thesis using that[of s q] assms(2) False by auto
  qed
  have l: "parameters (v_at s1 i) = ps @ [q1]" by (simp add: s1(2))
  let ?f = "\<lambda>q. q\<lparr>fp_version := get_param_block_version (rom p), fp_id := get_param_block_param_id (rom p)\<rparr>"
  have s2: "upd_param i j ?f s1 = upd_info i (\<lambda>r. r\<lparr>parameters := ps @ [?f q1]\<rparr>) s"
    using param_update_last[OF l s1(3), of ?f] by (simp add: s1(2))
  let ?g = "\<lambda>q. q\<lparr>fp_data := Some (replicate (unat (param_size (rom p)) div 8) 0), fp_size := param_size (rom p)\<rparr>"
  have "parameters (v_at (upd_param i j ?f s1) i) = ps @ [?f q1]" by (simp add: s2)
  from param_update_last[OF this s1(3), of ?g]
  have s3: "param_data_allocate al i j (param_size (rom p)) (upd_param i j ?f s1)
      = Inr (upd_info i (\<lambda>r. r\<lparr>parameters := ps @ [?g (?f q1)]\<rparr>) s)"
    using assms(1) by (simp add: param_data_allocate_def param_size_mod s2)
  let ?h = "\<lambda>q. q\<lparr>fp_data := Some (param_words rom (p + 8) (unat (fp_size q) div 8))\<rparr>"
  define s4 where "s4 = upd_info i (\<lambda>r. r\<lparr>parameters := ps @ [?g (?f q1)]\<rparr>) s"
  have "parameters (v_at s4 i) = ps @ [?g (?f q1)]" by (simp add: s4_def)
  from param_update_last[OF this s1(3), of ?h]
  have "param_data_copy rom i j (p + PARAM_HEADER_SIZE) s4 = upd_info i (\<lambda>r. r\<lparr>parameters := ps @ [?h (?g (?f q1))]\<rparr>) s4"
    unfolding param_data_copy_def PARAM_HEADER_SIZE_def .
  moreover have "?h (?g (?f q1)) = param_of rom p" by (cases q1) (simp add: param_of_def)
  ultimately have "param_data_copy rom i j (p + PARAM_HEADER_SIZE) s4 = upd_info i (\<lambda>r. r\<lparr>parameters := ps @ [param_of rom p]\<rparr>) s4"
    by (simp only:)
  then have "param_data_copy rom i j (p + PARAM_HEADER_SIZE) (upd_info i (\<lambda>r. r\<lparr>parameters := ps @ [?g (?f q1)]\<rparr>) s)
      = upd_info i (\<lambda>r. r\<lparr>parameters := ps @ [param_of rom p]\<rparr>) s"
    by (simp add: s4_def)
  then show ?thesis using s1(1) s3 by (simp add: set_param_def Let_def)
qed

lemma set_params_ok:
  assumes "\<forall>n. al n" "blocks_at rom a p bs" "bs \<noteq> BNone"
    and "j = 0 \<and> ps = [] \<and> bs \<noteq> BNull \<or> parameters (v_at s i) = ps @ [zero_param] \<and> length ps = j \<and> j > 0"
  shows "set_params al rom i j p (rom p) s = Some (Inr (upd_info i (\<lambda>r. r\<lparr>parameters := ps @ blocks_params rom bs p\<rparr>) s))"
  using assms(2-4)
proof (induction bs arbitrary: j ps p s rule: dfl_blocks.induct[where ?P1.0 = "\<lambda>_. True"])
  case BNull
  then have "v_at s i = (v_at s i)\<lparr>parameters := ps @ [zero_param]\<rparr>" by simp
  then have "upd_info i (\<lambda>r. r\<lparr>parameters := ps @ [zero_param]\<rparr>) s = s" by (simp add: upd_info_def)
  then show ?case using BNull by (subst set_params.simps) simp
next
  case (BData bs)
  have m: "more_params (rom p)" using BData.prems(1) by (simp add: more_params_def)
  have sp: "set_param al rom i j p (rom p) s = Inr (upd_info i (\<lambda>r. r\<lparr>parameters := ps @ [param_of rom p]\<rparr>) s)"
    using set_param_ok[OF assms(1)] BData.prems(3) by blast
  have "length ps = j" using BData.prems(3) by auto
  then have rs: "param_block_resize al i (j + 2) (upd_info i (\<lambda>r. r\<lparr>parameters := ps @ [param_of rom p]\<rparr>) s)
      = Inr (upd_info i (\<lambda>r. r\<lparr>parameters := (ps @ [param_of rom p]) @ [zero_param]\<rparr>) s)"
    using assms(1) by (simp add: param_block_resize_def)
  let ?s = "upd_info i (\<lambda>r. r\<lparr>parameters := (ps @ [param_of rom p]) @ [zero_param]\<rparr>) s"
  have "set_params al rom i (j + 1) (next_param_block p (rom p)) (rom (next_param_block p (rom p))) ?s
      = Some (Inr (upd_info i (\<lambda>r. r\<lparr>parameters := (ps @ [param_of rom p]) @ blocks_params rom bs (next_param_block p (rom p))\<rparr>) ?s))"
    by (rule BData.IH) (use BData.prems(1) \<open>length ps = j\<close> in auto)
  then show ?case
    unfolding set_params.simps[of al rom i j] using m BData.prems(1) sp rs by simp
next
  case (BBranch l bs)
  have m: "more_params (rom p)" using BBranch.prems(1) by (simp add: more_params_def)
  have sp: "set_param al rom i j p (rom p) s = Inr (upd_info i (\<lambda>r. r\<lparr>parameters := ps @ [param_of rom p]\<rparr>) s)"
    using set_param_ok[OF assms(1)] BBranch.prems(3) by blast
  have "length ps = j" using BBranch.prems(3) by auto
  then have rs: "param_block_resize al i (j + 2) (upd_info i (\<lambda>r. r\<lparr>parameters := ps @ [param_of rom p]\<rparr>) s)
      = Inr (upd_info i (\<lambda>r. r\<lparr>parameters := (ps @ [param_of rom p]) @ [zero_param]\<rparr>) s)"
    using assms(1) by (simp add: param_block_resize_def)
  let ?s = "upd_info i (\<lambda>r. r\<lparr>parameters := (ps @ [param_of rom p]) @ [zero_param]\<rparr>) s"
  have "set_params al rom i (j + 1) (next_param_block p (rom p)) (rom (next_param_block p (rom p))) ?s
      = Some (Inr (upd_info i (\<lambda>r. r\<lparr>parameters := (ps @ [param_of rom p]) @ blocks_params rom bs (next_param_block p (rom p))\<rparr>) ?s))"
    by (rule BBranch.IH) (use BBranch.prems(1) \<open>length ps = j\<close> in auto)
  then show ?case
    unfolding set_params.simps[of al rom i j] using m BBranch.prems(1) sp rs by simp
next
  case BEndData
  then show ?case using set_param_ok[OF assms(1), of j ps s i zero_param rom p] by (subst set_params.simps) auto
next
  case (BEndBranch l)
  then show ?case using set_param_ok[OF assms(1), of j ps s i zero_param rom p] by (subst set_params.simps) auto
qed simp_all

section \<open>The walk\<close>

definition put_infos :: "(nat \<Rightarrow> fpga_info) \<Rightarrow> nat \<Rightarrow> fpga_info list \<Rightarrow> nat \<Rightarrow> fpga_info" where
  "put_infos f k xs = (\<lambda>i. if k \<le> i \<and> i < k + length xs then xs ! (i - k) else f i)"

lemma put_infos_append: "put_infos (put_infos f k xs) (k + length xs) ys = put_infos f k (xs @ ys)"
  by (auto simp: put_infos_def nth_append fun_eq_iff)

lemma put_infos_one: "put_infos f k [x] = f(k := x)"
  by (auto simp: put_infos_def)

lemma put_infos_nil [simp]: "put_infos f k [] = f"
  by (auto simp: put_infos_def fun_eq_iff)

text \<open>The effect of a walk that meets the interfaces \<open>xs\<close>.\<close>

definition walked :: "bool \<Rightarrow> fpga_info list \<Rightarrow> dfl_state \<Rightarrow> dfl_state \<Rightarrow> bool" where
  "walked collect xs s s' \<longleftrightarrow> st_size s' = st_size s \<and> oob s' = oob s \<and> v_size s' = v_size s \<and> v_reserved s' = v_reserved s
     \<and> (if collect
        then scanned_count s' = scanned_count s \<and> interface_index s' = interface_index s + int (length xs)
           \<and> v_at s' = put_infos (v_at s) (nat (interface_index s + 1)) xs
        else scanned_count s' = scanned_count s + length xs \<and> interface_index s' = interface_index s \<and> v_at s' = v_at s)"

definition heads_kept :: "dfl_state \<Rightarrow> dfl_state \<Rightarrow> bool" where
  "heads_kept s s' \<longleftrightarrow> (\<forall>i \<le> st_top s. st_head s' i = st_head s i)"

definition fresh_from :: "bool \<Rightarrow> dfl_state \<Rightarrow> bool" where
  "fresh_from collect s \<longleftrightarrow> (collect \<longrightarrow> 0 \<le> interface_index s + 1
     \<and> (\<forall>i \<ge> nat (interface_index s + 1). parameters (v_at s i) = [] \<and> interrupt (v_at s i) = 0))"

lemma walked_trans:
  assumes "walked collect xs s s1" "walked collect ys s1 s2" "fresh_from collect s"
  shows "walked collect (xs @ ys) s s2"
proof (cases collect)
  case True
  then have "nat (interface_index s1 + 1) = nat (interface_index s + 1) + length xs"
    using assms(1,3) by (auto simp: walked_def fresh_from_def)
  then show ?thesis using assms(1,2) True by (simp add: walked_def put_infos_append)
next
  case False
  then show ?thesis using assms(1,2) by (auto simp: walked_def)
qed

lemma fresh_walked: "walked collect xs s s1 \<Longrightarrow> fresh_from collect s \<Longrightarrow> fresh_from collect s1"
  by (auto simp: walked_def fresh_from_def put_infos_def)

lemma enter_ok:
  assumes "\<forall>n. al n" "has_params (rom (a + 0x20)) = (bs \<noteq> BNone)" "blocks_at rom a (a + 0x28) bs" "fresh_from collect s"
    and "collect \<longrightarrow> st_head s (st_top s) = par"
  shows "\<exists>s1. enter_interface al rom collect a s = Some (Inr s1) \<and> walked collect [feature_info rom par a bs] s s1
    \<and> st_top s1 = st_top s \<and> st_head s1 = st_head s"
proof (cases collect)
  case False
  then show ?thesis by (auto simp: enter_interface_def walked_def)
next
  case True
  let ?k = "nat (interface_index s + 1)"
  have k: "0 \<le> interface_index s + 1" "parameters (v_at s ?k) = []" "interrupt (v_at s ?k) = 0" using assms(4) True by (auto simp: fresh_from_def)
  define s0 where "s0 = s\<lparr>interface_index := interface_index s + 1\<rparr>"
  let ?f = "\<lambda>r. r\<lparr>base_address := get_base_address rom a, guid_h := rom (a + 0x10), guid_l := rom (a + 0x08),
          instance_id := get_instance_id rom a, group_id := get_group_id rom a,
          dfh_parent := dfh_parent_stack_peek s0, is_mmio_opened := False, is_interrupt_opened := False\<rparr>"
  let ?s1 = "s0\<lparr>v_at := (v_at s0)(?k := feature_info rom par a bs)\<rparr>"
  have pk: "dfh_parent_stack_peek s0 = par" using assms(5) True by (simp add: s0_def dfh_parent_stack_peek_def)
  have "set_parameter_properties al rom ?k a (upd_info ?k ?f s0) = Some (Inr ?s1)"
  proof (cases "bs = BNone \<or> bs = BNull")
    case t: True
    have "set_parameter_properties al rom ?k a (upd_info ?k ?f s0) = Some (Inr (upd_info ?k ?f s0))"
      using t assms(2,3) by (auto simp: set_parameter_properties_def get_first_param_header_addr_def set_params.simps)
    moreover have "upd_info ?k ?f s0 = ?s1"
      using t k pk by (cases "v_at s ?k") (auto simp: upd_info_def feature_info_def feature_params_def s0_def)
    ultimately show ?thesis by simp
  next
    case f: False
    have "set_params al rom ?k 0 (a + 0x28) (rom (a + 0x28)) (upd_info ?k ?f s0)
        = Some (Inr (upd_info ?k (\<lambda>r. r\<lparr>parameters := [] @ blocks_params rom bs (a + 0x28)\<rparr>) (upd_info ?k ?f s0)))"
      by (rule set_params_ok[OF assms(1,3)]) (use f in auto)
    moreover have "upd_info ?k (\<lambda>r. r\<lparr>parameters := blocks_params rom bs (a + 0x28)\<rparr>) (upd_info ?k ?f s0) = ?s1"
      using f k pk by (cases "v_at s ?k") (auto simp: upd_info_def feature_info_def feature_params_def s0_def)
    ultimately show ?thesis using assms(2) f by (simp add: set_parameter_properties_def get_first_param_header_addr_def)
  qed
  then have "enter_interface al rom collect a s = Some (Inr ?s1)"
    using True by (simp add: enter_interface_def set_interface_properties_def s0_def Let_def)
  then show ?thesis using True k by (auto simp: walked_def s0_def put_infos_one intro!: exI[of _ ?s1])
qed

lemma push_ok:
  assumes "0 \<le> st_top s" "st_top s + 1 < int (st_size s)"
  shows "dfh_parent_stack_push al data s = Inr (s\<lparr>st_top := st_top s + 1, st_head := (st_head s)(st_top s + 1 := data)\<rparr>)"
  using assms by (simp add: dfh_parent_stack_push_def Let_def)

lemma heads_trans: "heads_kept s s1 \<Longrightarrow> heads_kept s1 s2 \<Longrightarrow> st_top s \<le> st_top s1 \<Longrightarrow> heads_kept s s2"
  by (auto simp: heads_kept_def)

text \<open>The walk of a list, and of the blocks of a feature, from a state with room on the stack.\<close>

definition list_walks :: "alloc \<Rightarrow> rom \<Rightarrow> bool \<Rightarrow> dfl_list \<Rightarrow> int \<Rightarrow> int \<Rightarrow> dfl_state \<Rightarrow> bool" where
  "list_walks al rom collect l par k s \<longleftrightarrow>
     (\<exists>s'. dfl_walk al rom collect (Level (dfl_first l)) s = Some (Inr s')
        \<and> walked collect (list_infos False rom l par k) s s' \<and> st_top s' = st_top s - 1 \<and> heads_kept s s')"

definition blocks_walk :: "alloc \<Rightarrow> rom \<Rightarrow> bool \<Rightarrow> u32 \<Rightarrow> u32 \<Rightarrow> dfl_blocks \<Rightarrow> int \<Rightarrow> int \<Rightarrow> dfl_state \<Rightarrow> bool" where
  "blocks_walk al rom collect a p bs f c s \<longleftrightarrow>
     (\<exists>s'. dfl_walk al rom collect (Blocks a p (rom p)) s = Some (Inr s')
        \<and> walked collect (blocks_infos False rom bs f c) s s' \<and> st_top s' = st_top s \<and> heads_kept s s')"

definition stack_room :: "dfl_state \<Rightarrow> int \<Rightarrow> bool" where
  "stack_room s d \<longleftrightarrow> st_size s = 8 \<and> 0 \<le> st_top s \<and> st_top s + d \<le> 8"

lemma branch_walks:
  assumes "\<And>par k s. fresh_from collect s \<Longrightarrow> stack_room s (int (list_deep l))
      \<Longrightarrow> collect \<longrightarrow> st_head s (st_top s) = par \<and> interface_index s = k - 1 \<Longrightarrow> list_walks al rom collect l par k s"
    and "dfl_first l = branch_target rom a p" "fresh_from collect s" "stack_room s (1 + int (list_deep l))"
    and "collect \<longrightarrow> interface_index s = c" "0 < list_deep l"
  shows "\<exists>s1 s2. dfh_parent_stack_push al (interface_index s) s = Inr s1
    \<and> dfl_walk al rom collect (Level (branch_target rom a p)) s1 = Some (Inr s2)
    \<and> walked collect (list_infos False rom l c (c + 1)) s s2 \<and> st_top s2 = st_top s \<and> heads_kept s s2"
proof -
  let ?s1 = "s\<lparr>st_top := st_top s + 1, st_head := (st_head s)(st_top s + 1 := interface_index s)\<rparr>"
  have pu: "dfh_parent_stack_push al (interface_index s) s = Inr ?s1"
    by (rule push_ok) (use assms(4,6) in \<open>auto simp: stack_room_def\<close>)
  have "list_walks al rom collect l c (c + 1) ?s1"
    by (rule assms(1)) (use assms(3-5) in \<open>auto simp: fresh_from_def stack_room_def\<close>)
  then obtain s2 where s2: "dfl_walk al rom collect (Level (branch_target rom a p)) ?s1 = Some (Inr s2)"
    "walked collect (list_infos False rom l c (c + 1)) ?s1 s2" "st_top s2 = st_top s" "heads_kept ?s1 s2"
    using assms(2) by (auto simp: list_walks_def)
  have "walked collect (list_infos False rom l c (c + 1)) s s2" using s2(2) by (simp add: walked_def)
  moreover have "heads_kept s s2" using s2(4) by (auto simp: heads_kept_def)
  ultimately show ?thesis using pu s2(1,3) by blast
qed

lemma list_deep_pos: "0 < list_deep l"
  by (cases l) (auto simp: max_def)

lemma room_mono: "stack_room s d \<Longrightarrow> st_size s' = st_size s \<Longrightarrow> st_top s' = st_top s \<Longrightarrow> e \<le> d \<Longrightarrow> stack_room s' e"
  by (auto simp: stack_room_def)

lemma feature_walks:
  assumes al: "\<forall>n. al n"
    and at: "has_params (rom (a + 0x20)) = (bs \<noteq> BNone)" "blocks_at rom a (a + 0x28) bs"
    and ih: "\<And>p f c s. blocks_at rom a p bs \<Longrightarrow> bs \<noteq> BNone \<Longrightarrow> fresh_from collect s
      \<Longrightarrow> stack_room s (1 + int (blocks_deep bs)) \<Longrightarrow> collect \<longrightarrow> interface_index s = c \<Longrightarrow> blocks_walk al rom collect a p bs f c s"
    and s: "fresh_from collect s" "stack_room s (1 + int (blocks_deep bs))"
      "collect \<longrightarrow> st_head s (st_top s) = par \<and> interface_index s = k - 1"
  shows "\<exists>s2. dfl_walk al rom collect (Level a) s =
      (if \<not> is_eol (rom a) then dfl_walk al rom collect (Level (get_next_dfh_addr (rom a) a)) s2
       else Some (dfh_parent_stack_pop s2))
    \<and> walked collect (feature_info rom par a bs # blocks_infos False rom bs k k) s s2
    \<and> st_top s2 = st_top s \<and> heads_kept s s2"
proof -
  obtain s1 where s1: "enter_interface al rom collect a s = Some (Inr s1)" "walked collect [feature_info rom par a bs] s s1"
    "st_top s1 = st_top s" "st_head s1 = st_head s"
    using enter_ok[OF al at s(1)] s(3) by blast
  have r1: "stack_room s1 (1 + int (blocks_deep bs))" using s(2) s1(2,3) by (auto simp: stack_room_def walked_def)
  have "\<exists>s2. (if has_params (rom (a + 0x20)) then dfl_walk al rom collect (Blocks a (a + 0x28) (rom (a + 0x28))) s1 else Some (Inr s1))
      = Some (Inr s2) \<and> walked collect (blocks_infos False rom bs k k) s1 s2 \<and> st_top s2 = st_top s1 \<and> heads_kept s1 s2"
  proof (cases "bs = BNone")
    case True
    then show ?thesis using at by (auto simp: walked_def heads_kept_def)
  next
    case False
    have "blocks_walk al rom collect a (a + 0x28) bs k k s1"
      by (rule ih[OF at(2) False fresh_walked[OF s1(2) s(1)] r1]) (use s1(2) s(3) in \<open>auto simp: walked_def\<close>)
    then show ?thesis using False at by (auto simp: blocks_walk_def)
  qed
  then obtain s2 where s2: "(if has_params (rom (a + 0x20)) then dfl_walk al rom collect (Blocks a (a + 0x28) (rom (a + 0x28))) s1 else Some (Inr s1))
      = Some (Inr s2)" "walked collect (blocks_infos False rom bs k k) s1 s2" "st_top s2 = st_top s1" "heads_kept s1 s2"
    by blast
  have "walked collect ([feature_info rom par a bs] @ blocks_infos False rom bs k k) s s2"
    by (rule walked_trans[OF s1(2) s2(2) s(1)])
  moreover have "heads_kept s s2" using s2(4) s1(3,4) by (simp add: heads_kept_def)
  moreover have "dfl_walk al rom collect (Level a) s =
      (if \<not> is_eol (rom a) then dfl_walk al rom collect (Level (get_next_dfh_addr (rom a) a)) s2
       else Some (dfh_parent_stack_pop s2))"
    using s2(1) by (subst dfl_walk.simps) (cases "has_params (rom (a + 0x20))"; simp add: s1(1) get_first_param_header_addr_def)
  ultimately show ?thesis using s2(3) s1(3) by (intro exI[of _ s2]) simp
qed

lemma pop_ok: "0 \<le> st_top s \<Longrightarrow> dfh_parent_stack_pop s = Inr (s\<lparr>st_top := st_top s - 1\<rparr>)"
  by (simp add: dfh_parent_stack_pop_def dfh_parent_stack_isempty_def)

lemma dfl_walk_ok:
  assumes al: "\<forall>n. al n"
  shows "list_at rom l \<Longrightarrow> fresh_from collect s \<Longrightarrow> stack_room s (int (list_deep l))
      \<Longrightarrow> collect \<longrightarrow> st_head s (st_top s) = par \<and> interface_index s = k - 1 \<Longrightarrow> list_walks al rom collect l par k s"
    and "blocks_at rom a p bs \<Longrightarrow> bs \<noteq> BNone \<Longrightarrow> fresh_from collect s
      \<Longrightarrow> stack_room s (1 + int (blocks_deep bs)) \<Longrightarrow> collect \<longrightarrow> interface_index s = c \<Longrightarrow> blocks_walk al rom collect a p bs f c s"
proof (induction l and bs arbitrary: s par k and a p s f c rule: dfl_list.induct dfl_blocks.induct)
  case (DLast a bs)
  obtain s2 where s2: "dfl_walk al rom collect (Level a) s = Some (dfh_parent_stack_pop s2)"
    "walked collect (feature_info rom par a bs # blocks_infos False rom bs k k) s s2" "st_top s2 = st_top s" "heads_kept s s2"
    using feature_walks[where rom = rom and a = a and bs = bs and s = s and par = par and k = k and al = al and collect = collect, OF al _ _ DLast.IH] DLast.prems by auto
  let ?s = "s2\<lparr>st_top := st_top s2 - 1\<rparr>"
  have "walked collect (feature_info rom par a bs # blocks_infos False rom bs k k) s ?s" "heads_kept s ?s"
    using s2(2,4) by (simp_all add: walked_def heads_kept_def)
  then show ?case using s2(1,3) DLast.prems(3) by (auto simp: list_walks_def pop_ok stack_room_def intro!: exI[of _ ?s])
next
  case (DNext a bs l)
  have d: "stack_room s (1 + int (blocks_deep bs))" "stack_room s (int (list_deep l))"
    using DNext.prems(3) by (auto simp: stack_room_def)
  obtain s2 where s2: "dfl_walk al rom collect (Level a) s = dfl_walk al rom collect (Level (dfl_first l)) s2"
    "walked collect (feature_info rom par a bs # blocks_infos False rom bs k k) s s2" "st_top s2 = st_top s" "heads_kept s s2"
    using feature_walks[where rom = rom and a = a and bs = bs and s = s and par = par and k = k and al = al and collect = collect, OF al _ _ DNext.IH(1)] DNext.prems d by auto
  let ?k = "k + 1 + int (length (blocks_infos False rom bs k k))"
  have "list_walks al rom collect l par ?k s2"
  proof (rule DNext.IH(2)[OF _ fresh_walked[OF s2(2) DNext.prems(2)]])
    show "stack_room s2 (int (list_deep l))" using d(2) s2(2,3) by (auto simp: stack_room_def walked_def)
    show "collect \<longrightarrow> st_head s2 (st_top s2) = par \<and> interface_index s2 = ?k - 1"
      using s2(2-4) DNext.prems(4) by (auto simp: walked_def heads_kept_def)
  qed (use DNext.prems(1) in simp)
  then obtain s3 where s3: "dfl_walk al rom collect (Level (dfl_first l)) s2 = Some (Inr s3)"
    "walked collect (list_infos False rom l par ?k) s2 s3" "st_top s3 = st_top s2 - 1" "heads_kept s2 s3"
    by (auto simp: list_walks_def)
  show ?case
    using s2(1,3) s3(1,3) walked_trans[OF s2(2) s3(2) DNext.prems(2)] heads_trans[OF s2(4) s3(4)]
    by (auto simp: list_walks_def Let_def)
next
  case BNull
  then show ?case by (auto simp: blocks_walk_def dfl_walk.simps walked_def heads_kept_def)
next
  case (BData bs)
  have "blocks_walk al rom collect a (next_param_block p (rom p)) bs f c s" using BData by simp
  then show ?case using BData.prems(1)
    by (auto simp: blocks_walk_def dfl_walk.simps[of al rom collect "Blocks a p h" for h] more_params_def)
next
  case (BBranch l bs)
  have f: "dfl_first l = branch_target rom a p" using BBranch.prems(1) by simp
  have d: "stack_room s (1 + int (list_deep l))" "stack_room s (1 + int (blocks_deep bs))"
    using BBranch.prems(4) by (auto simp: stack_room_def)
  obtain s1 s2 where s2: "dfh_parent_stack_push al (interface_index s) s = Inr s1"
    "dfl_walk al rom collect (Level (branch_target rom a p)) s1 = Some (Inr s2)"
    "walked collect (list_infos False rom l c (c + 1)) s s2" "st_top s2 = st_top s" "heads_kept s s2"
    using branch_walks[OF BBranch.IH(1) f BBranch.prems(3) d(1) BBranch.prems(5) list_deep_pos] BBranch.prems(1) by auto
  let ?c = "c + int (length (list_infos False rom l c (c + 1)))"
  have "blocks_walk al rom collect a (next_param_block p (rom p)) bs f ?c s2"
  proof (rule BBranch.IH(2)[OF _ _ fresh_walked[OF s2(3) BBranch.prems(3)]])
    show "stack_room s2 (1 + int (blocks_deep bs))" using d(2) s2(3,4) by (auto simp: stack_room_def walked_def)
    show "collect \<longrightarrow> interface_index s2 = ?c" using s2(3) BBranch.prems(5) by (auto simp: walked_def)
  qed (use BBranch.prems(1) in auto)
  then obtain s3 where s3: "dfl_walk al rom collect (Blocks a (next_param_block p (rom p)) (rom (next_param_block p (rom p)))) s2 = Some (Inr s3)"
    "walked collect (blocks_infos False rom bs f ?c) s2 s3" "st_top s3 = st_top s2" "heads_kept s2 s3"
    by (auto simp: blocks_walk_def)
  have "dfl_walk al rom collect (Blocks a p (rom p)) s = Some (Inr s3)"
    using BBranch.prems(1) by (subst dfl_walk.simps) (simp add: more_params_def s2(1,2) s3(1))
  then show ?case
    using s2(4) s3(3) walked_trans[OF s2(3) s3(2) BBranch.prems(3)] heads_trans[OF s2(5) s3(4)]
    by (auto simp: blocks_walk_def Let_def)
next
  case BEndData
  then show ?case by (auto simp: blocks_walk_def dfl_walk.simps walked_def heads_kept_def)
next
  case (BEndBranch l)
  have f: "dfl_first l = branch_target rom a p" using BEndBranch.prems(1) by simp
  have d: "stack_room s (1 + int (list_deep l))" using BEndBranch.prems(4) by (auto simp: stack_room_def)
  obtain s1 s2 where s2: "dfh_parent_stack_push al (interface_index s) s = Inr s1"
    "dfl_walk al rom collect (Level (branch_target rom a p)) s1 = Some (Inr s2)"
    "walked collect (list_infos False rom l c (c + 1)) s s2" "st_top s2 = st_top s" "heads_kept s s2"
    using branch_walks[OF BEndBranch.IH f BEndBranch.prems(3) d BEndBranch.prems(5) list_deep_pos] BEndBranch.prems(1) by auto
  have "dfl_walk al rom collect (Blocks a p (rom p)) s = Some (Inr s2)"
    using BEndBranch.prems(1) by (subst dfl_walk.simps) (simp add: s2(1,2))
  then show ?case using s2 by (auto simp: blocks_walk_def)
qed simp

section \<open>The whole scan\<close>

text \<open>At most one branch per feature: then the last feature met is the one that branches.\<close>

primrec no_branch :: "dfl_blocks \<Rightarrow> bool" where
  "no_branch BNone \<longleftrightarrow> True"
| "no_branch BNull \<longleftrightarrow> True"
| "no_branch (BData bs) \<longleftrightarrow> no_branch bs"
| "no_branch (BBranch l bs) \<longleftrightarrow> False"
| "no_branch BEndData \<longleftrightarrow> True"
| "no_branch (BEndBranch l) \<longleftrightarrow> False"

primrec list_one :: "dfl_list \<Rightarrow> bool" and blocks_one :: "dfl_blocks \<Rightarrow> bool" where
  "list_one (DLast a bs) \<longleftrightarrow> blocks_one bs"
| "list_one (DNext a bs l) \<longleftrightarrow> blocks_one bs \<and> list_one l"
| "blocks_one BNone \<longleftrightarrow> True"
| "blocks_one BNull \<longleftrightarrow> True"
| "blocks_one (BData bs) \<longleftrightarrow> blocks_one bs"
| "blocks_one (BBranch l bs) \<longleftrightarrow> list_one l \<and> no_branch bs"
| "blocks_one BEndData \<longleftrightarrow> True"
| "blocks_one (BEndBranch l) \<longleftrightarrow> list_one l"

lemma no_branch_infos: "no_branch bs \<Longrightarrow> blocks_infos right rom bs f c = []"
  by (induction bs rule: dfl_blocks.induct[where ?P1.0 = "\<lambda>_. True"]) auto

lemma right_infos:
  "list_one l \<Longrightarrow> list_infos False rom l par k = list_infos True rom l par k"
  "blocks_one bs \<Longrightarrow> blocks_infos False rom bs n n = blocks_infos True rom bs n n"
  by (induction l and bs arbitrary: par k and n rule: dfl_list.induct dfl_blocks.induct)
     (simp_all add: no_branch_infos Let_def)

lemma vec_resize_same:
  "v_size s = n \<Longrightarrow> v_reserved s = n \<Longrightarrow> 0 < n \<Longrightarrow> common_fpga_interface_info_vec_resize al n s = Inr s"
  by (auto simp: common_fpga_interface_info_vec_resize_def common_fpga_interface_info_vec_reserve_def)

lemma scan_ok:
  assumes al: "\<forall>n. al n" and at: "list_at rom l" "list_deep l \<le> 7"
    and s: "st_top s = 0" "st_size s = 0"
  shows "\<exists>s'. common_dfl_scan_multi_interfaces al rom (dfl_first l) s = Some (Inr s')
    \<and> v_size s' = length (list_infos False rom l (- 1) 0)
    \<and> (\<forall>i < v_size s'. v_at s' i = list_infos False rom l (- 1) 0 ! i)
    \<and> st_top s' = 0 \<and> st_size s' = 0 \<and> oob s' = oob s"
proof -
  let ?xs = "list_infos False rom l (- 1) 0"
  have p: "dfh_parent_stack_push al (- 1) v = Inr (v\<lparr>st_size := 8, st_top := 1,
      st_head := (\<lambda>i. if 0 \<le> i \<and> i < 8 then 0 else st_head v i)(1 := - 1)\<rparr>)" if "st_top v = 0" "st_size v = 0" for v
    using that al by (simp add: dfh_parent_stack_push_def dfh_parent_stack_resize_def DFH_PARENT_STACK_INCR_SIZE_def Let_def)
  have p8: "dfh_parent_stack_push al (- 1) v = Inr (v\<lparr>st_top := 1, st_head := (st_head v)(1 := - 1)\<rparr>)"
    if "st_top v = 0" "st_size v = 8" for v using that push_ok[of v al "- 1"] by simp
  obtain s1 where s1: "common_fpga_interface_info_vec_resize al 0 (s\<lparr>scanned_count := 0\<rparr>) = Inr s1"
    "v_reserved s1 = 0" "v_size s1 = 0" "st_top s1 = 0" "st_size s1 = 0" "oob s1 = oob s" "scanned_count s1 = 0"
    using s by (auto simp: common_fpga_interface_info_vec_resize_def common_fpga_interface_info_vec_reserve_def Let_def)
  obtain s1' where s1': "dfh_parent_stack_push al (- 1) s1 = Inr s1'" "v_reserved s1' = 0" "v_size s1' = 0" "st_top s1' = 1"
    "st_size s1' = 8" "oob s1' = oob s" "scanned_count s1' = 0"
    using p[of s1] s1 by auto
  have "list_walks al rom False l (- 1) 0 s1'"
    by (rule dfl_walk_ok(1)[OF al at(1)]) (use s1' at(2) in \<open>auto simp: fresh_from_def stack_room_def\<close>)
  then obtain s2 where s2: "scan_the_num_interfaces al rom (dfl_first l) s1 = Some (Inr s2)" "scanned_count s2 = length ?xs"
    "v_reserved s2 = 0" "st_top s2 = 0" "st_size s2 = 8" "oob s2 = oob s" "v_size s2 = 0"
    using s1' by (auto simp: scan_the_num_interfaces_def list_walks_def walked_def)
  have ne: "?xs \<noteq> []" by (cases l) (simp_all add: Let_def)
  obtain s3 where s3: "common_fpga_interface_info_vec_resize al (scanned_count s2) s2 = Inr s3" "v_size s3 = length ?xs"
    "v_reserved s3 = length ?xs" "v_at s3 = (\<lambda>_. zero_info)" "st_top s3 = 0" "st_size s3 = 8" "oob s3 = oob s"
    using s2 al ne by (auto simp: common_fpga_interface_info_vec_resize_def common_fpga_interface_info_vec_reserve_def Let_def)
  let ?s3 = "s3\<lparr>interface_index := - 1\<rparr>"
  let ?s4 = "?s3\<lparr>st_top := 1, st_head := (st_head s3)(1 := - 1)\<rparr>"
  have c: "dfl_collect_interfaces_info al rom (dfl_first l) ?s3 = dfl_walk al rom True (Level (dfl_first l)) ?s4"
    using p8[of ?s3] s3(2,3,5,6) ne vec_resize_same[of ?s4 "length ?xs" al]
    by (simp add: dfl_collect_interfaces_info_def)
  have "list_walks al rom True l (- 1) 0 ?s4"
    by (rule dfl_walk_ok(1)[OF al at(1)])
       (use s3 at(2) ne in \<open>auto simp: fresh_from_def stack_room_def zero_info_def\<close>)
  then obtain s5 where s5: "dfl_walk al rom True (Level (dfl_first l)) ?s4 = Some (Inr s5)" "v_size s5 = length ?xs"
    "v_at s5 = put_infos (v_at s3) 0 ?xs" "st_top s5 = 0" "oob s5 = oob s"
    using s3 by (auto simp: list_walks_def walked_def)
  have "dfh_parent_stack_resize al 0 s5 = Inr (s5\<lparr>st_size := 0\<rparr>)" by (simp add: dfh_parent_stack_resize_def)
  then show ?thesis using s1(1) s2(1) s3(1) c s5
    by (simp add: common_dfl_scan_multi_interfaces_def put_infos_def)
qed

text \<open>
  C15: On a device memory that holds a feature tree at most seven lists deep, whose features branch at
  most once, and with enough memory, the scan ends, whatever the table held before: it has one
  interface per feature, in the order of the tree, with the GUID, the numbers, the address and the
  parameters of its header and the number of the feature that branches to its list as parent
  (-1 at the top); the stack of parents is never overrun and empty again.
\<close>

theorem dfl_scan_finds_features:
  assumes "\<forall>n. al n" "list_at rom l" "list_deep l \<le> 7" "list_one l" "st_top s = 0" "st_size s = 0"
  shows "\<exists>s'. common_dfl_scan_multi_interfaces al rom (dfl_first l) s = Some (Inr s')
    \<and> v_size s' = length (list_infos True rom l (- 1) 0)
    \<and> (\<forall>i < v_size s'. v_at s' i = list_infos True rom l (- 1) 0 ! i)
    \<and> st_top s' = 0 \<and> st_size s' = 0 \<and> oob s' = oob s"
  using scan_ok[OF assms(1-3,5,6)] right_infos(1)[OF assms(4)] by simp

text \<open>A feature at 0x100 whose only, last parameter block branches to a feature at 0x200.\<close>

definition two_rom :: rom where
  "two_rom a = (if a = 0x100 \<or> a = 0x200 then 0x10000000000 else if a = 0x120 then 0x80000007
     else if a = 0x128 then 0x90001000C else if a = 0x130 then 0x201 else if a = 0x208 then 0xABCD else 0)"

definition two_tree :: dfl_list where
  "two_tree = DLast 0x100 (BEndBranch (DLast 0x200 BNone))"

lemmas dfl_field_defs = is_eol_def has_params_def is_last_param_block_def get_next_param_byte_offset_def
  get_param_id_def more_params_def branch_target_def next_param_block_def get_next_dfh_addr_def
  get_next_dfh_byte_offset_def

lemma two_tree_at: "list_at two_rom two_tree"
  by (simp add: two_tree_def two_rom_def dfl_field_defs)

theorem dfl_scan_finds_features_witness:
  "\<exists>s'. common_dfl_scan_multi_interfaces (\<lambda>_. True) two_rom 0x100 dfl_boot = Some (Inr s')
     \<and> v_size s' = 2 \<and> dfh_parent (v_at s' 1) = 0 \<and> guid_l (v_at s' 1) = 0xABCD \<and> instance_id (v_at s' 0) = 7"
proof -
  have "list_deep two_tree \<le> 7" "list_one two_tree" "dfl_first two_tree = 0x100" "st_top dfl_boot = 0" "st_size dfl_boot = 0"
    by (simp_all add: two_tree_def dfl_boot_def)
  note w = dfl_scan_finds_features[OF _ two_tree_at this(1,2,4,5), of "\<lambda>_. True", unfolded this(3)]
  have "list_infos True two_rom two_tree (- 1) 0 = [feature_info two_rom (- 1) 0x100 (BEndBranch (DLast 0x200 BNone)),
      feature_info two_rom 0 0x200 BNone]" by (simp add: two_tree_def)
  then show ?thesis using w by (auto simp: feature_info_def get_instance_id_def two_rom_def)
qed

section \<open>Where the parents go wrong\<close>

text \<open>
  A feature that branches twice: the list of its second branch gets the last feature of the first
  branch as its parent, not the feature that branches to it.
\<close>

theorem dfl_second_branch_parent:
  assumes "\<forall>n. al n" "list_at rom (DLast a (BBranch (DLast b BNone) (BEndBranch (DLast c BNone))))"
    and "st_top s = 0" "st_size s = 0"
  shows "\<exists>s'. common_dfl_scan_multi_interfaces al rom a s = Some (Inr s') \<and> v_size s' = 3
    \<and> dfh_parent (v_at s' 1) = 0 \<and> dfh_parent (v_at s' 2) = 1
    \<and> dfh_parent (list_infos True rom (DLast a (BBranch (DLast b BNone) (BEndBranch (DLast c BNone)))) (- 1) 0 ! 2) = 0"
  using scan_ok[OF assms(1,2) _ assms(3,4)] by (fastforce simp: feature_info_def Let_def)

definition three_rom :: rom where
  "three_rom a = (if a = 0x100 \<or> a = 0x200 \<or> a = 0x300 then 0x10000000000 else if a = 0x120 then 0x80000000
     else if a = 0x128 then 0x100000000C else if a = 0x130 then 0x201 else if a = 0x138 then 0x90000000C
     else if a = 0x140 then 0x301 else 0)"

theorem dfl_second_branch_parent_witness:
  "\<exists>s'. common_dfl_scan_multi_interfaces (\<lambda>_. True) three_rom 0x100 dfl_boot = Some (Inr s') \<and> dfh_parent (v_at s' 2) = 1"
proof -
  have "list_at three_rom (DLast 0x100 (BBranch (DLast 0x200 BNone) (BEndBranch (DLast 0x300 BNone))))"
    by (simp add: three_rom_def dfl_field_defs)
  from dfl_second_branch_parent[OF _ this, of "\<lambda>_. True" dfl_boot] show ?thesis by (auto simp: dfl_boot_def)
qed

section \<open>Where the stack overflows\<close>

text \<open>Lists nested one in the other, one feature each.\<close>

fun chain_tree :: "u32 \<Rightarrow> u32 list \<Rightarrow> dfl_list" where
  "chain_tree a [] = DLast a BNone"
| "chain_tree a (b # bs) = DLast a (BEndBranch (chain_tree b bs))"

lemma first_chain [simp]: "dfl_first (chain_tree a bs) = a"
  by (cases bs) simp_all

lemma chain_step:
  assumes "list_at rom (chain_tree a (b # bs))" "dfh_parent_stack_push al (interface_index s) (s\<lparr>scanned_count := scanned_count s + 1\<rparr>) = Inr s1"
    and "dfl_walk al rom False (Level b) s1 = Some (Inr s2)"
  shows "dfl_walk al rom False (Level a) s = Some (dfh_parent_stack_pop s2)"
  using assms
  by (subst dfl_walk.simps, simp add: enter_interface_def get_first_param_header_addr_def, subst dfl_walk.simps) simp

lemma chain_overflows:
  assumes "list_at rom (chain_tree a bs)" "st_size s = 8" "st_top s = 8 - int (length bs)" "length bs \<le> 7"
  shows "\<exists>s'. dfl_walk al rom False (Level a) s = Some (Inr s') \<and> st_top s' = st_top s - 1
    \<and> oob s' = oob s @ (if bs = [] then [] else [8])"
  using assms
proof (induction bs arbitrary: a s)
  case Nil
  then show ?case
    by (subst dfl_walk.simps) (simp add: enter_interface_def dfh_parent_stack_pop_def dfh_parent_stack_isempty_def)
next
  case (Cons b bs)
  let ?s0 = "s\<lparr>scanned_count := scanned_count s + 1\<rparr>"
  have t: "st_top s \<noteq> 8" "0 \<le> st_top s" "st_top s + 1 < 8 \<longleftrightarrow> bs \<noteq> []" using Cons.prems(3,4) by (cases bs; simp)+
  obtain s1 where s1: "dfh_parent_stack_push al (interface_index s) ?s0 = Inr s1" "st_size s1 = 8"
    "st_top s1 = st_top s + 1" "oob s1 = oob s @ (if bs = [] then [8] else [])"
    using t Cons.prems(2,3) by (auto simp: dfh_parent_stack_push_def Let_def)
  have "list_at rom (chain_tree b bs)" using Cons.prems(1) by auto
  from Cons.IH[OF this s1(2)] s1(3) Cons.prems(3,4)
  obtain s2 where s2: "dfl_walk al rom False (Level b) s1 = Some (Inr s2)" "st_top s2 = st_top s1 - 1"
    "oob s2 = oob s1 @ (if bs = [] then [] else [8])" by auto
  have "dfl_walk al rom False (Level a) s = Some (dfh_parent_stack_pop s2)"
    by (rule chain_step[OF Cons.prems(1) s1(1) s2(1)])
  then show ?case using s1(3,4) s2(2,3) t(2) by (auto simp: pop_ok)
qed

text \<open>
  C26: Feature lists nested eight deep: the stack of parents grows only when its top index equals its size,
  so that the eighth push writes cell 8 of an array of 8, outside the memory allocated.
\<close>

theorem dfl_eighth_level_overflows:
  assumes "\<forall>n. al n" "list_at rom (chain_tree a bs)" "length bs = 7" "st_top s = 0" "st_size s = 0"
  shows "\<exists>s'. scan_the_num_interfaces al rom a s = Some (Inr s') \<and> oob s' = oob s @ [8]"
proof -
  obtain s1 where s1: "dfh_parent_stack_push al (- 1) s = Inr s1" "st_size s1 = 8" "st_top s1 = 1" "oob s1 = oob s"
    using assms(1,4,5) by (auto simp: dfh_parent_stack_push_def dfh_parent_stack_resize_def DFH_PARENT_STACK_INCR_SIZE_def Let_def)
  have "st_top s1 = 8 - int (length bs)" "length bs \<le> 7" "bs \<noteq> []" using s1(3) assms(3) by auto
  with chain_overflows[OF assms(2) s1(2), of al] show ?thesis
    using s1(1,4) by (auto simp: scan_the_num_interfaces_def)
qed

text \<open>Eight features, 0x100 bytes apart, each branching to the next.\<close>

definition deep_rom :: rom where
  "deep_rom a = (if a AND 0xFF = 0 then 0x10000000000 else if a = 0x820 then 0 else if a AND 0xFF = 0x20 then 0x80000000
     else if a AND 0xFF = 0x28 then 0x90000000C else if a AND 0xFF = 0x30 then 0x100 else 0)"

theorem dfl_eighth_level_overflows_witness:
  "\<exists>s'. scan_the_num_interfaces (\<lambda>_. True) deep_rom 0x100 dfl_boot = Some (Inr s') \<and> oob s' = [8]"
proof -
  have "list_at deep_rom (chain_tree 0x100 [0x200, 0x300, 0x400, 0x500, 0x600, 0x700, 0x800])"
    by (simp add: deep_rom_def dfl_field_defs)
  from dfl_eighth_level_overflows[OF _ this, of "\<lambda>_. True" dfl_boot] show ?thesis by (simp add: dfl_boot_def)
qed

section \<open>Opening interfaces\<close>

text \<open>
  An interface that is open is not handed out again until it is closed, and the interrupt side is
  independent of it.
\<close>

lemma open_twice:
  assumes "fpga_open i s = (h, s1)" "unat i < v_size s"
  shows "fst (fpga_open i s1) = FPGA_MMIO_INTERFACE_INVALID_HANDLE
    \<and> fst (fpga_open i (fpga_close i s1)) = base_address (v_at s (unat i))"
  using assms by (auto simp: fpga_open_def fpga_close_def split: if_splits)

end
