(* ===== verification/RingBuffer.thy ===== *)
theory RingBuffer
  imports HalPrelude
begin

text \<open>
  The circular buffers of the JTAG UART driver as queues. A ring is an array, an index \<open>i\<close> where
  the next byte goes and an index \<open>o\<close> of the oldest byte, both below the length 2048 and kept there
  with \<open>%\<close>; one slot stays free. \<open>ring\<close> is the list of the bytes in it, oldest first. The locale
  \<open>byte_queue\<close> is the contract between the two sides, thread and interrupt handler.
\<close>

section \<open>Indices\<close>

definition BUF_LEN :: u32 where "BUF_LEN = 2048"

lemma unat_mod_len: "unat (x mod BUF_LEN) = unat x mod 2048"
  by (simp add: BUF_LEN_def unat_mod)

lemma mod_2_32_2048: "(n::nat) mod 4294967296 mod 2048 = n mod 2048"
  by (rule mod_mod_cancel) simp

lemma unat_add_mod_len: "unat ((x + y) mod BUF_LEN) = (unat x + unat y) mod 2048"
  by (simp only: unat_mod_len unat_word_ariths(1)) (simp add: mod_2_32_2048)

lemma mod_len_less: "x mod BUF_LEN < BUF_LEN"
  by (simp add: BUF_LEN_def word_mod_less_divisor)

lemma less_len: "x < BUF_LEN \<longleftrightarrow> unat x < 2048"
  by (simp add: BUF_LEN_def word_less_nat_alt)

definition ring_count :: "u32 \<Rightarrow> u32 \<Rightarrow> nat" where
  "ring_count i out = (unat i + 2048 - unat out) mod 2048"

lemma ring_count_less: "ring_count i out < 2048"
  by (simp add: ring_count_def)

lemma ring_count_cases:
  assumes "i < BUF_LEN" "out < BUF_LEN"
  shows "ring_count i out = (if out \<le> i then unat i - unat out else unat i + 2048 - unat out)"
proof -
  have a: "unat i < 2048" "unat out < 2048" using assms by (simp_all add: less_len)
  show ?thesis
  proof (cases "out \<le> i")
    case True
    then have "unat out \<le> unat i" by (simp add: word_le_nat_alt)
    then have "ring_count i out = ((unat i - unat out) + 2048) mod 2048"
      unfolding ring_count_def by (intro arg_cong2[where f = "(mod)"]) simp_all
    also have "\<dots> = unat i - unat out" using a by simp
    finally show ?thesis using True by simp
  next
    case False
    then have "unat i < unat out" by (simp add: word_le_nat_alt)
    then show ?thesis using a False by (simp add: ring_count_def)
  qed
qed

lemma ring_count_0:
  assumes "i < BUF_LEN" "out < BUF_LEN"
  shows "ring_count i out = 0 \<longleftrightarrow> i = out"
proof -
  have a: "unat i < 2048" "unat out < 2048" using assms by (simp_all add: less_len)
  have "ring_count i out = 0 \<longleftrightarrow> unat i = unat out"
    using a unfolding ring_count_cases[OF assms] word_le_nat_alt by (simp split: if_split)
  then show ?thesis by (simp add: word_unat_eq_iff)
qed

lemma ring_count_in:
  assumes "i < BUF_LEN" "out < BUF_LEN" "ring_count i out + k < 2048"
  shows "ring_count ((i + of_nat k) mod BUF_LEN) out = ring_count i out + k"
proof -
  have k: "k < 2 ^ 32" using assms(3) by simp
  have a: "unat i < 2048" "unat out < 2048" using assms by (simp_all add: less_len)
  have "ring_count ((i + of_nat k) mod BUF_LEN) out = ((unat i + k) mod 2048 + 2048 - unat out) mod 2048"
    by (simp add: ring_count_def unat_add_mod_len unat_of_nat_32[OF k])
  also have "\<dots> = ((unat i + k) mod 2048 + (2048 - unat out)) mod 2048"
    using a by simp
  also have "\<dots> = (unat i + k + (2048 - unat out)) mod 2048"
    by (rule mod_add_left_eq)
  also have "\<dots> = ((unat i + (2048 - unat out)) mod 2048 + k) mod 2048"
    by (simp add: mod_simps ac_simps)
  also have "\<dots> = (ring_count i out + k) mod 2048"
    using a by (simp add: ring_count_def)
  finally show ?thesis using assms(3) by simp
qed

lemma ring_count_out:
  assumes "i < BUF_LEN" "out < BUF_LEN" "k \<le> ring_count i out"
  shows "ring_count i ((out + of_nat k) mod BUF_LEN) = ring_count i out - k"
proof -
  have k: "k < 2048" using assms(3) ring_count_less[of i out] by simp
  then have k32: "k < 2 ^ 32" by simp
  have a: "unat i < 2048" "unat out < 2048" using assms by (simp_all add: less_len)
  define q where "q = (unat out + k) mod 2048"
  have q: "unat ((out + of_nat k) mod BUF_LEN) = q" "q < 2048"
    by (simp_all add: unat_add_mod_len unat_of_nat_32[OF k32] q_def)
  have qv: "q = (if unat out + k < 2048 then unat out + k else unat out + k - 2048)"
    using a k by (simp add: q_def mod_if)
  have c: "ring_count i out = (if unat out \<le> unat i then unat i - unat out else unat i + 2048 - unat out)"
    using ring_count_cases[OF assms(1,2)] by (simp add: word_le_nat_alt)
  have c': "ring_count i ((out + of_nat k) mod BUF_LEN) = (if q \<le> unat i then unat i - q else unat i + 2048 - q)"
    using ring_count_cases[OF assms(1) mod_len_less[of "out + of_nat k"]] q
    by (simp add: word_le_nat_alt)
  show ?thesis unfolding c' using assms(3) c qv a k by (auto split: if_splits)
qed

section \<open>Contents\<close>

primrec ring_n :: "(u32 \<Rightarrow> u8) \<Rightarrow> u32 \<Rightarrow> nat \<Rightarrow> u8 list" where
  "ring_n buf out 0 = []"
| "ring_n buf out (Suc n) = buf out # ring_n buf ((out + 1) mod BUF_LEN) n"

definition ring :: "(u32 \<Rightarrow> u8) \<Rightarrow> u32 \<Rightarrow> u32 \<Rightarrow> u8 list" where
  "ring buf i out = ring_n buf out (ring_count i out)"

lemma length_ring_n [simp]: "length (ring_n buf out n) = n"
  by (induction n arbitrary: out) auto

lemma length_ring: "length (ring buf i out) = ring_count i out"
  by (simp add: ring_def)

lemma mod_len_add: "((x mod BUF_LEN) + y) mod BUF_LEN = (x + y) mod BUF_LEN"
  by (simp only: word_unat_eq_iff, simp only: unat_add_mod_len, simp only: unat_mod_len mod_add_left_eq)

lemma ring_n_add:
  "ring_n buf out (m + n) = ring_n buf out m @ ring_n buf ((out + of_nat m) mod BUF_LEN) n"
  if "out < BUF_LEN"
  using that
proof (induction m arbitrary: out)
  case 0
  then have "out mod BUF_LEN = out" by (simp add: word_unat_eq_iff unat_mod_len less_len)
  then show ?case by simp
next
  case (Suc m)
  show ?case using Suc.IH[OF mod_len_less, of "out + 1"]
    by (simp add: mod_len_add add.assoc)
qed

lemma ring_n_cong:
  assumes "\<And>k. k < n \<Longrightarrow> buf ((out + of_nat k) mod BUF_LEN) = buf' ((out + of_nat k) mod BUF_LEN)"
    "out < BUF_LEN"
  shows "ring_n buf out n = ring_n buf' out n"
  using assms
proof (induction n arbitrary: out)
  case (Suc n)
  have o: "out mod BUF_LEN = out"
    using Suc.prems(2) by (simp add: word_unat_eq_iff unat_mod_len less_len)
  have "ring_n buf ((out + 1) mod BUF_LEN) n = ring_n buf' ((out + 1) mod BUF_LEN) n"
  proof (rule Suc.IH[OF _ mod_len_less])
    fix k assume "k < n"
    then show "buf ((((out + 1) mod BUF_LEN) + of_nat k) mod BUF_LEN)
        = buf' ((((out + 1) mod BUF_LEN) + of_nat k) mod BUF_LEN)"
      using Suc.prems(1)[of "Suc k"] by (simp add: mod_len_add add.assoc)
  qed
  then show ?case using Suc.prems(1)[of 0] o by simp
qed simp

text \<open>Within the array, the bytes of a run are the array cells in order.\<close>

definition cells :: "(u32 \<Rightarrow> u8) \<Rightarrow> u32 \<Rightarrow> nat \<Rightarrow> u8 list" where
  "cells buf p n = map (\<lambda>k. buf (p + of_nat k)) [0..<n]"

lemma length_cells [simp]: "length (cells buf p n) = n"
  by (simp add: cells_def)

lemma cells_Suc: "cells buf p (Suc n) = buf p # cells buf (p + 1) n"
  unfolding cells_def by (simp add: upt_conv_Cons map_Suc_upt[symmetric] add.assoc del: upt_Suc)

lemma ring_n_cells:
  "unat out + n \<le> 2048 \<Longrightarrow> ring_n buf out n = cells buf out n"
proof (induction n arbitrary: out)
  case 0
  then show ?case by (simp add: cells_def)
next
  case (Suc n)
  show ?case
  proof (cases "n = 0")
    case True
    then show ?thesis by (simp add: cells_def)
  next
    case False
    then have u: "unat (out + 1) = unat out + 1"
      using Suc.prems by (subst unat_add_lem[THEN iffD1]) simp_all
    then have "(out + 1) mod BUF_LEN = out + 1"
      using Suc.prems False by (simp add: word_unat_eq_iff unat_mod_len)
    then show ?thesis using Suc u by (simp add: cells_Suc)
  qed
qed

section \<open>Taking bytes out and putting bytes in\<close>

lemma ring_take:
  assumes "i < BUF_LEN" "out < BUF_LEN" "n \<le> ring_count i out" "unat out + n \<le> 2048"
  shows "ring buf i out = cells buf out n @ ring buf i ((out + of_nat n) mod BUF_LEN)"
proof -
  have "ring_count i out = n + (ring_count i out - n)" using assms(3) by simp
  then have "ring buf i out = ring_n buf out (n + (ring_count i out - n))" by (simp add: ring_def)
  also have "\<dots> = ring_n buf out n @ ring_n buf ((out + of_nat n) mod BUF_LEN) (ring_count i out - n)"
    by (rule ring_n_add[OF assms(2)])
  finally show ?thesis
    using ring_n_cells[OF assms(4)] ring_count_out[OF assms(1-3)] by (simp add: ring_def)
qed

lemma ring_pop:
  assumes "i < BUF_LEN" "out < BUF_LEN" "i \<noteq> out"
  shows "ring buf i out = buf out # ring buf i ((out + 1) mod BUF_LEN)"
proof -
  have "1 \<le> ring_count i out" using ring_count_0[OF assms(1,2)] assms(3) by simp
  then show ?thesis using ring_take[OF assms(1,2), of 1 buf] assms(2)
    by (simp add: less_len cells_def)
qed

definition put_cells :: "(u32 \<Rightarrow> u8) \<Rightarrow> u32 \<Rightarrow> u8 list \<Rightarrow> (u32 \<Rightarrow> u8)" where
  "put_cells buf p bs =
     (\<lambda>a. if unat p \<le> unat a \<and> unat a < unat p + length bs then bs ! (unat a - unat p) else buf a)"

lemma index_after:
  assumes "i < BUF_LEN" "out < BUF_LEN"
  shows "(out + of_nat (ring_count i out)) mod BUF_LEN = i"
proof -
  have k32: "ring_count i out < 2 ^ 32" using ring_count_less[of i out] by simp
  have a: "unat i < 2048" "unat out < 2048" using assms by (simp_all add: less_len)
  have "unat ((out + of_nat (ring_count i out)) mod BUF_LEN) = (unat out + ring_count i out) mod 2048"
    by (simp add: unat_add_mod_len unat_of_nat_32[OF k32])
  also have "\<dots> = unat i"
    using a ring_count_cases[OF assms] by (auto simp: word_le_nat_alt split: if_splits)
  finally show ?thesis by (simp add: word_unat_eq_iff)
qed

lemma ring_put:
  assumes "i < BUF_LEN" "out < BUF_LEN" "ring_count i out + length bs < 2048"
    "unat i + length bs \<le> 2048"
  shows "ring (put_cells buf i bs) ((i + of_nat (length bs)) mod BUF_LEN) out = ring buf i out @ bs"
proof -
  let ?b = "put_cells buf i bs" and ?c = "ring_count i out"
  have a: "unat i < 2048" "unat out < 2048" using assms by (simp_all add: less_len)
  have cnt: "ring_count ((i + of_nat (length bs)) mod BUF_LEN) out = ?c + length bs"
    by (rule ring_count_in[OF assms(1-3)])
  have old: "ring_n ?b out ?c = ring_n buf out ?c"
  proof (rule ring_n_cong[OF _ assms(2)])
    fix k assume k: "k < ?c"
    then have k32: "k < 2 ^ 32" using ring_count_less[of i out] by simp
    define u where "u = (unat out + k) mod 2048"
    have u: "unat ((out + of_nat k) mod BUF_LEN) = u"
      by (simp add: unat_add_mod_len unat_of_nat_32[OF k32] u_def)
    have uv: "u = (if unat out + k < 2048 then unat out + k else unat out + k - 2048)"
      using a k ring_count_less[of i out] by (simp add: u_def mod_if)
    have "\<not> (unat i \<le> u \<and> u < unat i + length bs)"
      using k assms(3,4) a uv ring_count_cases[OF assms(1,2)]
      by (auto simp: word_le_nat_alt split: if_splits)
    then show "?b ((out + of_nat k) mod BUF_LEN) = buf ((out + of_nat k) mod BUF_LEN)"
      by (auto simp: put_cells_def u)
  qed
  have new: "ring_n ?b i (length bs) = bs"
  proof -
    have "ring_n ?b i (length bs) = cells ?b i (length bs)" by (rule ring_n_cells[OF assms(4)])
    also have "\<dots> = bs"
    proof (rule nth_equalityI)
      fix k assume "k < length (cells ?b i (length bs))"
      then have k: "k < length bs" by simp
      then have "unat (i + of_nat k) = unat i + k"
        using assms(4) unat_of_nat_32[of k] by (subst unat_add_lem[THEN iffD1]) simp_all
      then show "cells ?b i (length bs) ! k = bs ! k" using k by (simp add: cells_def put_cells_def)
    qed simp
    finally show ?thesis .
  qed
  show ?thesis
    unfolding ring_def cnt ring_n_add[OF assms(2)] index_after[OF assms(1,2)] old new ..
qed

lemma put_cells_single: "put_cells buf p [x] = buf(p := x)"
  by (rule ext) (auto simp: put_cells_def word_unat_eq_iff)

lemma ring_push:
  assumes "i < BUF_LEN" "out < BUF_LEN" "(i + 1) mod BUF_LEN \<noteq> out"
  shows "ring (buf(i := x)) ((i + 1) mod BUF_LEN) out = ring buf i out @ [x]"
proof -
  have "ring_count i out + 1 < 2048"
  proof (rule ccontr)
    assume "\<not> ring_count i out + 1 < 2048"
    then have "ring_count i out = 2047" using ring_count_less[of i out] by simp
    then have "unat ((i + 1) mod BUF_LEN) = unat out"
      using ring_count_cases[OF assms(1,2)] assms(1,2)
      by (auto simp: unat_add_mod_len less_len mod_if word_le_nat_alt split: if_splits)
    then show False using assms(3) by (simp add: word_unat_eq_iff)
  qed
  then show ?thesis
    using ring_put[OF assms(1,2), of "[x]" buf] assms(1) by (simp add: put_cells_single less_len)
qed

section \<open>The contract of a one-producer, one-consumer queue\<close>

text \<open>
  The producer may \<open>put\<close> a block when it \<open>fits\<close>, the consumer may \<open>get\<close> \<open>n\<close> elements when that many
  are \<open>avail\<close>able in one piece. A run is any interleaving of the two sides.
\<close>

datatype 'a fifo_op = Put "'a list" | Get nat

fun fifo_run ::
  "('a list \<Rightarrow> 's \<Rightarrow> 's) \<Rightarrow> (nat \<Rightarrow> 's \<Rightarrow> 'a list \<times> 's) \<Rightarrow> 'a fifo_op list \<Rightarrow> 's \<Rightarrow> 'a list \<times> 's" where
  "fifo_run put get [] s = ([], s)"
| "fifo_run put get (Put bs # ops) s = fifo_run put get ops (put bs s)"
| "fifo_run put get (Get n # ops) s =
     (let (bs, s1) = get n s; (cs, s2) = fifo_run put get ops s1 in (bs @ cs, s2))"

fun fifo_legal ::
  "(nat \<Rightarrow> 's \<Rightarrow> bool) \<Rightarrow> (nat \<Rightarrow> 's \<Rightarrow> bool) \<Rightarrow> ('a list \<Rightarrow> 's \<Rightarrow> 's) \<Rightarrow> (nat \<Rightarrow> 's \<Rightarrow> 'a list \<times> 's)
    \<Rightarrow> 'a fifo_op list \<Rightarrow> 's \<Rightarrow> bool" where
  "fifo_legal fits avail put get [] s = True"
| "fifo_legal fits avail put get (Put bs # ops) s =
     (fits (length bs) s \<and> fifo_legal fits avail put get ops (put bs s))"
| "fifo_legal fits avail put get (Get n # ops) s =
     (avail n s \<and> fifo_legal fits avail put get ops (snd (get n s)))"

fun puts_of :: "'a fifo_op list \<Rightarrow> 'a list" where
  "puts_of [] = []"
| "puts_of (Put bs # ops) = bs @ puts_of ops"
| "puts_of (Get n # ops) = puts_of ops"

locale fifo =
  fixes ok :: "'s \<Rightarrow> bool"
    and contents :: "'s \<Rightarrow> 'a list"
    and fits avail :: "nat \<Rightarrow> 's \<Rightarrow> bool"
    and put :: "'a list \<Rightarrow> 's \<Rightarrow> 's"
    and get :: "nat \<Rightarrow> 's \<Rightarrow> 'a list \<times> 's"
  assumes put_ok: "ok s \<Longrightarrow> fits (length bs) s \<Longrightarrow> ok (put bs s)"
    and put_contents: "ok s \<Longrightarrow> fits (length bs) s \<Longrightarrow> contents (put bs s) = contents s @ bs"
    and get_ok: "ok s \<Longrightarrow> avail n s \<Longrightarrow> ok (snd (get n s))"
    and get_contents: "ok s \<Longrightarrow> avail n s \<Longrightarrow> contents s = fst (get n s) @ contents (snd (get n s))"
    and get_length: "ok s \<Longrightarrow> avail n s \<Longrightarrow> length (fst (get n s)) = n"
    and put_avail: "ok s \<Longrightarrow> fits (length bs) s \<Longrightarrow> avail n s \<Longrightarrow> avail n (put bs s)"
begin

lemma run_ok:
  "ok s \<Longrightarrow> fifo_legal fits avail put get ops s \<Longrightarrow> ok (snd (fifo_run put get ops s))"
proof (induction ops arbitrary: s)
  case (Cons x ops)
  show ?case
  proof (cases x)
    case (Put bs)
    then show ?thesis using Cons put_ok by simp
  next
    case (Get n)
    have "ok (snd (get n s))" using Cons.prems Get get_ok by simp
    then have "ok (snd (fifo_run put get ops (snd (get n s))))" using Cons Get by simp
    then show ?thesis using Get by (auto split: prod.splits)
  qed
qed simp

text \<open>Nothing is lost, duplicated or reordered in any interleaving.\<close>

lemma fifo_order:
  assumes "ok s" "fifo_legal fits avail put get ops s"
  shows "contents s @ puts_of ops
    = fst (fifo_run put get ops s) @ contents (snd (fifo_run put get ops s))"
  using assms
proof (induction ops arbitrary: s)
  case (Cons x ops)
  show ?case
  proof (cases x)
    case (Put bs)
    then have "contents (put bs s) @ puts_of ops
      = fst (fifo_run put get ops (put bs s)) @ contents (snd (fifo_run put get ops (put bs s)))"
      using Cons put_ok by simp
    then show ?thesis using Put Cons.prems put_contents by simp
  next
    case (Get n)
    obtain bs s1 where g: "get n s = (bs, s1)" by fastforce
    have "contents s1 @ puts_of ops
      = fst (fifo_run put get ops s1) @ contents (snd (fifo_run put get ops s1))"
      using Cons Get g get_ok[of s n] by simp
    then show ?thesis using Get Cons.prems get_contents[of s n] g by (simp split: prod.splits)
  qed
qed simp

text \<open>
  A consumer that read its indices before the producer went on still gets the same elements:
  the blocks put in between neither move nor overwrite them.
\<close>

lemma get_stable:
  assumes "ok s" "avail n s" "fifo_legal fits avail put get (map Put bss) s"
  shows "fst (get n (snd (fifo_run put get (map Put bss) s))) = fst (get n s)
    \<and> avail n (snd (fifo_run put get (map Put bss) s))"
  using assms
proof (induction bss arbitrary: s)
  case (Cons bs bss)
  have f: "fits (length bs) s" using Cons.prems(3) by simp
  note s1 = put_ok[OF Cons.prems(1) f] put_avail[OF Cons.prems(1) f Cons.prems(2)]
  have "take n (contents (put bs s)) = take n (contents s)"
    using put_contents[OF Cons.prems(1) f] get_contents[OF Cons.prems(1,2)]
      get_length[OF Cons.prems(1,2)] by simp
  moreover have "take n (contents (put bs s)) = fst (get n (put bs s))"
    using get_contents[OF s1] get_length[OF s1] by simp
  moreover have "take n (contents s) = fst (get n s)"
    using get_contents[OF Cons.prems(1,2)] get_length[OF Cons.prems(1,2)] by simp
  ultimately show ?case using Cons.IH[OF s1] Cons.prems(3) by simp
qed simp

end

end
