(* ===== verification/JtagUart.thy ===== *)
theory JtagUart
  imports Clock RingBuffer
begin

text \<open>
  The JTAG UART driver, interrupt-driven version (\<open>drivers/src/altera_avalon_jtag_uart_init.c\<close>,
  \<open>_read.c\<close>, \<open>_write.c\<close>, \<open>_ioctl.c\<close>), and the polled small version of read and write. The thread
  and the interrupt handler share the state; where the code spins on a variable the handler
  changes, the model takes a schedule: the list of what interrupts the spinning thread, in
  order. A schedule that runs out is a wait that does not end, \<open>None\<close>.
\<close>

section \<open>Registers\<close>

definition JU_DATA_REG :: u32 where [reg_defs]: "JU_DATA_REG = 0"

definition JU_DATA_DATA_MSK :: u32 where [reg_defs]: "JU_DATA_DATA_MSK = 0xFF"

definition JU_DATA_RVALID_MSK :: u32 where [reg_defs]: "JU_DATA_RVALID_MSK = 0x8000"

definition JU_DATA_RAVAIL_MSK :: u32 where [reg_defs]: "JU_DATA_RAVAIL_MSK = 0xFFFF0000"

definition JU_DATA_RAVAIL_OFST :: nat where [reg_defs]: "JU_DATA_RAVAIL_OFST = 16"

definition JU_CONTROL_REG :: u32 where [reg_defs]: "JU_CONTROL_REG = 1"

definition JU_CONTROL_RE_MSK :: u32 where [reg_defs]: "JU_CONTROL_RE_MSK = 0x1"

definition JU_CONTROL_WE_MSK :: u32 where [reg_defs]: "JU_CONTROL_WE_MSK = 0x2"

definition JU_CONTROL_RI_MSK :: u32 where [reg_defs]: "JU_CONTROL_RI_MSK = 0x100"

definition JU_CONTROL_WI_MSK :: u32 where [reg_defs]: "JU_CONTROL_WI_MSK = 0x200"

definition JU_CONTROL_AC_MSK :: u32 where [reg_defs]: "JU_CONTROL_AC_MSK = 0x400"

definition JU_CONTROL_WSPACE_MSK :: u32 where [reg_defs]: "JU_CONTROL_WSPACE_MSK = 0xFFFF0000"

definition JU_CONTROL_WSPACE_OFST :: nat where [reg_defs]: "JU_CONTROL_WSPACE_OFST = 16"

definition INT_MAX :: u32 where "INT_MAX = 0x7FFFFFFF"

section \<open>State\<close>

record jtag_state =
  ju_base :: u32
  ju_timeout :: u32
  ju_irq_enable :: u32
  ju_host_inactive :: u32
  rx_in :: u32
  rx_out :: u32
  tx_in :: u32
  tx_out :: u32
  rx_buf :: "u32 \<Rightarrow> u8"
  tx_buf :: "u32 \<Rightarrow> u8"

record jtag_world = clock_state +
  sp :: jtag_state

definition sp_upd :: "(jtag_state \<Rightarrow> jtag_state) \<Rightarrow> jtag_world \<Rightarrow> jtag_world" where
  "sp_upd f w = w\<lparr>sp := f (sp w)\<rparr>"

section \<open>The interrupt handler\<close>

text \<open>Storing one received byte, and sending the oldest byte of the transmit buffer.\<close>

definition rx_push :: "u8 \<Rightarrow> jtag_state \<Rightarrow> jtag_state" where
  "rx_push c s = s\<lparr>rx_buf := (rx_buf s)(rx_in s := c), rx_in := (rx_in s + 1) mod BUF_LEN\<rparr>"

definition tx_pop :: "jtag_state \<Rightarrow> u8 \<times> jtag_state" where
  "tx_pop s = (tx_buf s (tx_out s), s\<lparr>tx_out := (tx_out s + 1) mod BUF_LEN\<rparr>)"

partial_function (option) jtag_isr_rx :: "hw \<Rightarrow> u32 \<Rightarrow> jtag_world \<Rightarrow> (u32 \<times> jtag_world) option" where
  "jtag_isr_rx hw data w =
     (let next0 = (rx_in (sp w) + 1) mod BUF_LEN
      in if next0 = rx_out (sp w) then Some (data, w)
         else (let (data1, w1) = iord hw (ju_base (sp w)) JU_DATA_REG w
               in if data1 AND JU_DATA_RVALID_MSK = 0 then Some (data1, w1)
                  else jtag_isr_rx hw data1
                         (sp_upd (rx_push (ucast (data1 AND JU_DATA_DATA_MSK))) w1)))"

text \<open>Clearing a bit of the interrupt enables, with the dummy read that follows.\<close>

definition isr_mask_off :: "hw \<Rightarrow> u32 \<Rightarrow> jtag_world \<Rightarrow> jtag_world" where
  "isr_mask_off hw msk w =
     (let w1 = sp_upd (\<lambda>s. s\<lparr>ju_irq_enable := ju_irq_enable s AND NOT msk\<rparr>) w;
          w2 = iowr (ju_base (sp w1)) JU_CONTROL_REG (ju_irq_enable (sp w1)) w1
      in snd (iord hw (ju_base (sp w2)) JU_CONTROL_REG w2))"

definition jtag_isr_receive :: "hw \<Rightarrow> jtag_world \<Rightarrow> jtag_world option" where
  "jtag_isr_receive hw w =
     (case jtag_isr_rx hw (push_bit JU_DATA_RAVAIL_OFST 1) w of
        None \<Rightarrow> None
      | Some (data, w1) \<Rightarrow>
          Some (if data AND JU_DATA_RAVAIL_MSK \<noteq> 0 then isr_mask_off hw JU_CONTROL_RE_MSK w1 else w1))"

function jtag_isr_tx :: "u32 \<Rightarrow> jtag_world \<Rightarrow> u32 \<times> jtag_world" where
  "jtag_isr_tx space w =
     (if space > 0 \<and> tx_out (sp w) \<noteq> tx_in (sp w) then
        (let (c, s1) = tx_pop (sp w);
             w1 = iowr (ju_base (sp w)) JU_DATA_REG (ucast c) w
         in jtag_isr_tx (space - 1) (w1\<lparr>sp := s1\<rparr>))
      else (space, w))"
  by pat_completeness auto

termination
  by (relation "measure (\<lambda>(space, w). unat space)")
     (auto intro!: unat_minus_one_less simp: word_less_nat_alt)

declare jtag_isr_tx.simps [simp del]

definition jtag_isr_send :: "hw \<Rightarrow> u32 \<Rightarrow> jtag_world \<Rightarrow> jtag_world" where
  "jtag_isr_send hw control w =
     (let space = drop_bit JU_CONTROL_WSPACE_OFST (control AND JU_CONTROL_WSPACE_MSK);
          (space1, w1) = jtag_isr_tx space w
      in if space1 > 0 then isr_mask_off hw JU_CONTROL_WE_MSK w1 else w1)"

text \<open>
  One round of the handler's endless loop, and the loop. The event flags it posts exist only
  under an operating system; here \<open>ALT_FLAG_POST\<close> does nothing.
\<close>

definition jtag_isr_round :: "hw \<Rightarrow> u32 \<Rightarrow> jtag_world \<Rightarrow> jtag_world option" where
  "jtag_isr_round hw control w =
     (case (if control AND JU_CONTROL_RI_MSK \<noteq> 0 then jtag_isr_receive hw w else Some w) of
        None \<Rightarrow> None
      | Some w1 \<Rightarrow> Some (if control AND JU_CONTROL_WI_MSK \<noteq> 0 then jtag_isr_send hw control w1 else w1))"

partial_function (option) altera_avalon_jtag_uart_irq :: "hw \<Rightarrow> jtag_world \<Rightarrow> jtag_world option" where
  "altera_avalon_jtag_uart_irq hw w =
     (let (control, w1) = iord hw (ju_base (sp w)) JU_CONTROL_REG w
      in if control AND (JU_CONTROL_RI_MSK OR JU_CONTROL_WI_MSK) = 0 then Some w1
         else (case jtag_isr_round hw control w1 of
                 None \<Rightarrow> None
               | Some w2 \<Rightarrow> altera_avalon_jtag_uart_irq hw w2))"

section \<open>The alarm that watches the host\<close>

definition altera_avalon_jtag_uart_timeout :: "hw \<Rightarrow> u32 \<Rightarrow> jtag_world \<Rightarrow> u32 \<times> jtag_world" where
  "altera_avalon_jtag_uart_timeout hw ticks_per_second w =
     (let (control, w1) = iord hw (ju_base (sp w)) JU_CONTROL_REG w
      in (ticks_per_second,
          if control AND JU_CONTROL_AC_MSK \<noteq> 0 then
            sp_upd (\<lambda>s. s\<lparr>ju_host_inactive := 0\<rparr>)
              (iowr (ju_base (sp w1)) JU_CONTROL_REG (ju_irq_enable (sp w1) OR JU_CONTROL_AC_MSK) w1)
          else if ju_host_inactive (sp w1) < INT_MAX - 2 then
            sp_upd (\<lambda>s. s\<lparr>ju_host_inactive := ju_host_inactive s + 1\<rparr>) w1
          else w1))"

section \<open>The thread's side\<close>

text \<open>What may interrupt the thread: any change of the state, in particular the two above.\<close>

type_synonym jtag_schedule = "(jtag_world \<Rightarrow> jtag_world) list"

fun spin :: "(jtag_world \<Rightarrow> bool) \<Rightarrow> jtag_schedule \<Rightarrow> jtag_world \<Rightarrow> (jtag_schedule \<times> jtag_world) option" where
  "spin cond [] w = (if cond w then None else Some ([], w))"
| "spin cond (a # sched) w = (if cond w then spin cond sched (a w) else Some (a # sched, w))"

definition host_active :: "jtag_world \<Rightarrow> bool" where
  "host_active w \<longleftrightarrow> ju_host_inactive (sp w) < ju_timeout (sp w)"

text \<open>Enabling an interrupt of the device, with interrupts of the processor masked.\<close>

definition jtag_enable :: "u32 \<Rightarrow> jtag_world \<Rightarrow> jtag_world" where
  "jtag_enable msk w =
     (let (ctx0, w1) = alt_irq_disable_all w;
          w2 = sp_upd (\<lambda>s. s\<lparr>ju_irq_enable := ju_irq_enable s OR msk\<rparr>) w1;
          w3 = iowr (ju_base (sp w2)) JU_CONTROL_REG (ju_irq_enable (sp w2)) w2
      in alt_irq_enable_all ctx0 w3)"

definition rx_take :: "nat \<Rightarrow> jtag_state \<Rightarrow> u8 list \<times> jtag_state" where
  "rx_take n s = (cells (rx_buf s) (rx_out s) n, s\<lparr>rx_out := (rx_out s + of_nat n) mod BUF_LEN\<rparr>)"

definition tx_put :: "u8 list \<Rightarrow> jtag_state \<Rightarrow> jtag_state" where
  "tx_put bs s = s\<lparr>tx_buf := put_cells (tx_buf s) (tx_in s) bs,
                   tx_in := (tx_in s + of_nat (length bs)) mod BUF_LEN\<rparr>"

text \<open>
  The copying loop of read: the bytes it delivers, and the value of \<open>in\<close> it read last.
  \<open>space\<close> is the number of bytes the caller still has room for.
\<close>

function rx_copy :: "nat \<Rightarrow> jtag_state \<Rightarrow> u8 list \<times> u32 \<times> jtag_state" where
  "rx_copy space s =
     (let in0 = rx_in s; out = rx_out s;
          n0 = unat (if in0 \<ge> out then in0 - out else BUF_LEN - out)
      in if n0 = 0 then ([], in0, s)
         else (let n = (if n0 > space then space else n0);
                   (bs, s1) = rx_take n s
               in if space - n > 0
                  then (let (cs, in1, s2) = rx_copy (space - n) s1 in (bs @ cs, in1, s2))
                  else (bs, in0, s1)))"
  by pat_completeness auto

termination
  by (relation "measure (\<lambda>(space, s). space)") auto

declare rx_copy.simps [simp del]

text \<open>
  The outer loop of read. The result is the list of bytes stored in the caller's buffer.
\<close>

partial_function (option) jtag_read_loop ::
  "bool \<Rightarrow> nat \<Rightarrow> jtag_schedule \<Rightarrow> jtag_world \<Rightarrow> (u8 list \<times> jtag_schedule \<times> jtag_world) option" where
  "jtag_read_loop nonblock space sched w =
     (if space > 0 then
        (let (bs, in0, s1) = rx_copy space (sp w); w1 = w\<lparr>sp := s1\<rparr>
         in if bs \<noteq> [] then Some (bs, sched, w1)
            else if nonblock then Some ([], sched, w1)
            else (case spin (\<lambda>w. in0 = rx_in (sp w) \<and> host_active w) sched w1 of
                    None \<Rightarrow> None
                  | Some (sched2, w2) \<Rightarrow>
                      if in0 = rx_in (sp w2) then Some ([], sched2, w2)
                      else jtag_read_loop nonblock space sched2 w2))
      else Some ([], sched, w))"

text \<open>
  \<open>space\<close> is a C int; a value that is not positive reads nothing. \<open>nonblock\<close> is the test
  \<open>flags & O_NONBLOCK\<close>.
\<close>

definition altera_avalon_jtag_uart_read ::
  "int \<Rightarrow> bool \<Rightarrow> jtag_schedule \<Rightarrow> jtag_world \<Rightarrow> (int \<times> u8 list \<times> jtag_schedule \<times> jtag_world) option" where
  "altera_avalon_jtag_uart_read space nonblock sched w =
     (case jtag_read_loop nonblock (nat space) sched w of
        None \<Rightarrow> None
      | Some (bs, sched1, w1) \<Rightarrow>
          Some (if bs \<noteq> [] then (int (length bs), bs, sched1, jtag_enable JU_CONTROL_RE_MSK w1)
                else if nonblock then (- EWOULDBLOCK, [], sched1, w1)
                else (- EIO, [], sched1, w1)))"

text \<open>The copying loop of write: the bytes left over, and the value of \<open>out\<close> it read last.\<close>

definition tx_room :: "jtag_state \<Rightarrow> u32" where
  "tx_room s = (let in0 = tx_in s; out = tx_out s
     in if in0 < out then out - 1 - in0
        else if out > 0 then BUF_LEN - in0
        else BUF_LEN - 1 - in0)"

function tx_copy :: "u8 list \<Rightarrow> u32 \<Rightarrow> jtag_state \<Rightarrow> u8 list \<times> u32 \<times> jtag_state" where
  "tx_copy data out0 s =
     (if data \<noteq> [] then
        (let out = tx_out s; n0 = unat (tx_room s)
         in if n0 = 0 then (data, out, s)
            else (let n = (if n0 > length data then length data else n0)
                  in tx_copy (drop n data) out (tx_put (take n data) s)))
      else (data, out0, s))"
  by pat_completeness auto

termination
  by (relation "measure (\<lambda>(data, out0, s). length data)") auto

declare tx_copy.simps [simp del]

partial_function (option) jtag_write_loop ::
  "bool \<Rightarrow> u8 list \<Rightarrow> u32 \<Rightarrow> jtag_schedule \<Rightarrow> jtag_world \<Rightarrow> (u8 list \<times> jtag_schedule \<times> jtag_world) option" where
  "jtag_write_loop nonblock data out0 sched w =
     (let (data1, out1, s1) = tx_copy data out0 (sp w);
          w1 = jtag_enable JU_CONTROL_WE_MSK (w\<lparr>sp := s1\<rparr>)
      in if data1 \<noteq> [] then
           (if nonblock then Some (data1, sched, w1)
            else (case spin (\<lambda>w. out1 = tx_out (sp w) \<and> host_active w) sched w1 of
                    None \<Rightarrow> None
                  | Some (sched2, w2) \<Rightarrow>
                      if ju_host_inactive (sp w2) \<noteq> 0 then Some (data1, sched2, w2)
                      else jtag_write_loop nonblock data1 out1 sched2 w2))
         else Some ([], sched, w1))"

text \<open>The result is the return value; the bytes accepted are a prefix of that length.\<close>

definition altera_avalon_jtag_uart_write ::
  "u8 list \<Rightarrow> bool \<Rightarrow> jtag_schedule \<Rightarrow> jtag_world \<Rightarrow> (int \<times> jtag_schedule \<times> jtag_world) option" where
  "altera_avalon_jtag_uart_write data nonblock sched w =
     (case jtag_write_loop nonblock data 0 sched w of
        None \<Rightarrow> None
      | Some (rest, sched1, w1) \<Rightarrow>
          Some (if length rest < length data then int (length data) - int (length rest)
                else if nonblock then - EWOULDBLOCK
                else - EIO, sched1, w1))"

definition altera_avalon_jtag_uart_close ::
  "bool \<Rightarrow> jtag_schedule \<Rightarrow> jtag_world \<Rightarrow> (int \<times> jtag_schedule \<times> jtag_world) option" where
  "altera_avalon_jtag_uart_close nonblock sched w =
     (if (tx_out (sp w) \<noteq> tx_in (sp w) \<and> host_active w) \<and> nonblock then Some (- EWOULDBLOCK, sched, w)
      else (case spin (\<lambda>w. tx_out (sp w) \<noteq> tx_in (sp w) \<and> host_active w) sched w of
              None \<Rightarrow> None
            | Some (sched1, w1) \<Rightarrow> Some (0, sched1, w1)))"

text \<open>\<open>arg\<close> is the int the argument points to; the result gives its value afterwards.\<close>

definition TIOCSTIMEOUT :: u32 where "TIOCSTIMEOUT = 0x6a01"

definition TIOCGCONNECTED :: u32 where "TIOCGCONNECTED = 0x6a02"

definition altera_avalon_jtag_uart_ioctl ::
  "u32 \<Rightarrow> int \<Rightarrow> jtag_state \<Rightarrow> int \<times> int \<times> jtag_state" where
  "altera_avalon_jtag_uart_ioctl req arg s =
     (if req = TIOCSTIMEOUT then
        (if ju_timeout s \<noteq> INT_MAX
         then (0, arg, s\<lparr>ju_timeout :=
                 (if arg \<ge> 2 \<and> arg < uint INT_MAX then word_of_int arg else INT_MAX - 1)\<rparr>)
         else (- ENOTTY, arg, s))
      else if req = TIOCGCONNECTED then
        (if ju_timeout s \<noteq> INT_MAX
         then (0, if ju_host_inactive s < ju_timeout s then 1 else 0, s)
         else (- ENOTTY, arg, s))
      else (- ENOTTY, arg, s))"

section \<open>The small driver\<close>

text \<open>Without interrupts: read polls the data register, write polls for space.\<close>

partial_function (option) small_read_loop ::
  "hw \<Rightarrow> u32 \<Rightarrow> nat \<Rightarrow> bool \<Rightarrow> u8 list \<Rightarrow> trace \<Rightarrow> (u8 list \<times> trace) option" where
  "small_read_loop hw b space nonblock got t =
     (if length got < space then
        (let (data, t1) = IORD hw b JU_DATA_REG t
         in if data AND JU_DATA_RVALID_MSK \<noteq> 0 then
              small_read_loop hw b space nonblock (got @ [ucast (data AND JU_DATA_DATA_MSK)]) t1
            else if got \<noteq> [] then Some (got, t1)
            else if nonblock then Some (got, t1)
            else small_read_loop hw b space nonblock got t1)
      else Some (got, t))"

definition jtag_small_read ::
  "hw \<Rightarrow> u32 \<Rightarrow> int \<Rightarrow> bool \<Rightarrow> trace \<Rightarrow> (int \<times> u8 list \<times> trace) option" where
  "jtag_small_read hw b space nonblock t =
     (case small_read_loop hw b (nat space) nonblock [] t of
        None \<Rightarrow> None
      | Some (bs, t1) \<Rightarrow>
          Some (if bs \<noteq> [] then (int (length bs), bs, t1)
                else if nonblock then (- EWOULDBLOCK, [], t1)
                else (- EIO, [], t1)))"

partial_function (option) small_write_loop :: "hw \<Rightarrow> u32 \<Rightarrow> u8 list \<Rightarrow> trace \<Rightarrow> trace option" where
  "small_write_loop hw b data t =
     (case data of
        [] \<Rightarrow> Some t
      | c # rest \<Rightarrow>
          (let (v, t1) = IORD hw b JU_CONTROL_REG t
           in if v AND JU_CONTROL_WSPACE_MSK \<noteq> 0
              then small_write_loop hw b rest (IOWR b JU_DATA_REG (ucast c) t1)
              else small_write_loop hw b data t1))"

definition jtag_small_write :: "hw \<Rightarrow> u32 \<Rightarrow> u8 list \<Rightarrow> trace \<Rightarrow> (int \<times> trace) option" where
  "jtag_small_write hw b data t =
     map_option (\<lambda>t1. (int (length data), t1)) (small_write_loop hw b data t)"

end
