(* ===== verification/Printf.thy ===== *)
theory Printf
  imports HalPrelude
begin

text \<open>
  The small printf of the HAL (\<open>HAL/src/alt_printf.c\<close>) and what both printfs share: the arguments of a
  variadic call and the reference digits of a number. A format is the string before its terminator.
\<close>

section \<open>Variadic arguments\<close>

text \<open>
  On this machine \<open>int\<close>, \<open>long\<close> and their unsigned forms are one word; a string argument is the bytes before
  its terminator. \<open>va_arg\<close> with no argument left, or one of the other kind, is undefined: \<open>None\<close>.
\<close>

datatype va_arg = Num u32 | Str string

fun va_num :: "va_arg list \<Rightarrow> (u32 \<times> va_arg list) option" where
  "va_num (Num v # args) = Some (v, args)"
| "va_num args = None"

fun va_str :: "va_arg list \<Rightarrow> (string \<times> va_arg list) option" where
  "va_str (Str s # args) = Some (s, args)"
| "va_str args = None"

section \<open>The small printf\<close>

text \<open>
  Its output is the characters given to \<open>alt_putchar\<close>, which as \<open>putchar\<close> does takes the low byte of its
  argument. A digit shift is four times the number of a digit; a shift below zero is undefined.
\<close>

definition low_char :: "u32 \<Rightarrow> char" where
  "low_char v = char_of (unat v)"

fun first_digit :: "u32 \<Rightarrow> nat \<Rightarrow> nat option" where
  "first_digit v 0 = (if v AND 0xF = 0 then None else Some 0)"
| "first_digit v (Suc k) = (if v AND push_bit (4 * Suc k) 0xF = 0 then first_digit v k else Some (Suc k))"

definition hex_char :: "u32 \<Rightarrow> nat \<Rightarrow> char" where
  "hex_char v k =
     (let digit = drop_bit (4 * k) (v AND push_bit (4 * k) 0xF)
      in if digit \<le> 9 then low_char (48 + digit) else low_char (97 + digit - 10))"

fun hex_print :: "u32 \<Rightarrow> nat \<Rightarrow> string" where
  "hex_print v 0 = [hex_char v 0]"
| "hex_print v (Suc k) = hex_char v (Suc k) # hex_print v k"

fun alt_printf :: "string \<Rightarrow> va_arg list \<Rightarrow> string option" where
  "alt_printf [] args = Some []"
| "alt_printf (c # w) args =
     (if c \<noteq> CHR ''%'' then map_option (Cons c) (alt_printf w args)
      else (case w of
        [] \<Rightarrow> Some []
      | d # w' \<Rightarrow>
          if d = CHR ''%'' then map_option (Cons d) (alt_printf w' args)
          else if d = CHR ''c'' then
            (case va_num args of
               None \<Rightarrow> None
             | Some (v, args1) \<Rightarrow> map_option (Cons (low_char v)) (alt_printf w' args1))
          else if d = CHR ''x'' then
            (case va_num args of
               None \<Rightarrow> None
             | Some (v, args1) \<Rightarrow>
                 if v = 0 then map_option (Cons (CHR ''0'')) (alt_printf w' args1)
                 else (case first_digit v 7 of
                         None \<Rightarrow> None
                       | Some k \<Rightarrow> map_option ((@) (hex_print v k)) (alt_printf w' args1)))
          else if d = CHR ''s'' then
            (case va_str args of
               None \<Rightarrow> None
             | Some (s, args1) \<Rightarrow> map_option ((@) s) (alt_printf w' args1))
          else alt_printf w' args))"

section \<open>Reference digits\<close>

fun digits :: "nat \<Rightarrow> nat \<Rightarrow> nat list" where
  "digits b n = (if n < b \<or> b < 2 then [n] else digits b (n div b) @ [n mod b])"

declare digits.simps [simp del]

definition digit_char :: "bool \<Rightarrow> nat \<Rightarrow> char" where
  "digit_char upper d = char_of (if d < 10 then 48 + d else (if upper then 65 else 97) + d - 10)"

lemma digit_char_low:
  "digit_char up 0 = CHR ''0''" "digit_char up (Suc 0) = CHR ''1''" "digit_char up 2 = CHR ''2''"
  "digit_char up 3 = CHR ''3''" "digit_char up 4 = CHR ''4''" "digit_char up 5 = CHR ''5''"
  "digit_char up 6 = CHR ''6''" "digit_char up 7 = CHR ''7''" "digit_char up 8 = CHR ''8''"
  "digit_char up 9 = CHR ''9''" "digit_char False 10 = CHR ''a''" "digit_char False 11 = CHR ''b''"
  by (simp_all add: digit_char_def char_of_def bit_Suc_0_iff)

text \<open>The value of a list of digits, most significant first.\<close>

definition digits_value :: "nat \<Rightarrow> nat list \<Rightarrow> nat" where
  "digits_value b ds = foldl (\<lambda>x d. x * b + d) 0 ds"

lemma digits_value_digits: "digits_value b (digits b n) = n"
proof (induction b n rule: digits.induct)
  case (1 b n)
  then show ?case by (subst digits.simps) (auto simp: digits_value_def)
qed

lemma digits_lt: "2 \<le> b \<Longrightarrow> \<forall>d \<in> set (digits b n). d < b"
proof (induction b n rule: digits.induct)
  case (1 b n)
  then show ?case by (subst digits.simps) auto
qed

lemma hd_digits: "0 < n \<Longrightarrow> hd (digits b n) \<noteq> 0 \<and> digits b n \<noteq> []"
proof (induction b n rule: digits.induct)
  case (1 b n)
  show ?case
  proof (cases "n < b \<or> b < 2")
    case True
    then show ?thesis using 1(2) by (subst (1 2) digits.simps) simp
  next
    case False
    then have "0 < n div b" by (simp add: div_greater_zero_iff)
    with 1(1)[OF False] False show ?thesis by (subst (1 2) digits.simps) simp
  qed
qed

text \<open>The same digits printed from the top: \<open>k\<close> is the number of the first one.\<close>

fun top_digits :: "nat \<Rightarrow> nat \<Rightarrow> nat \<Rightarrow> nat list" where
  "top_digits b n 0 = [n]"
| "top_digits b n (Suc k) = n div b ^ Suc k # top_digits b (n mod b ^ Suc k) k"

lemma length_top_digits [simp]: "length (top_digits b n k) = Suc k"
  by (induction b n k rule: top_digits.induct) auto

lemma top_digits_snoc:
  "0 < b \<Longrightarrow> top_digits b n (Suc k) = top_digits b (n div b) k @ [n mod b]"
proof (induction k arbitrary: n)
  case 0
  then show ?case by simp
next
  case (Suc k)
  have a: "n mod b ^ Suc (Suc k) div b = n div b mod b ^ Suc k"
    by (simp add: mod_mult2_eq Suc.prems mult.commute)
  have c: "n mod b ^ Suc (Suc k) mod b = n mod b"
    by (simp add: mod_mod_cancel)
  have d: "n div b div b ^ Suc k = n div b ^ Suc (Suc k)"
    by (simp add: div_mult2_eq)
  have "top_digits b n (Suc (Suc k)) = n div b ^ Suc (Suc k) # top_digits b (n mod b ^ Suc (Suc k)) (Suc k)"
    by (rule top_digits.simps)
  also have "\<dots> = n div b ^ Suc (Suc k) # top_digits b (n div b mod b ^ Suc k) k @ [n mod b]"
    unfolding Suc.IH[OF Suc.prems, of "n mod b ^ Suc (Suc k)"] a c by (rule refl)
  also have "\<dots> = top_digits b (n div b) (Suc k) @ [n mod b]"
    by (simp only: top_digits.simps d append_Cons)
  finally show ?case .
qed

lemma top_digits_eq:
  assumes "2 \<le> b"
  shows "n < b ^ Suc k \<Longrightarrow> k = 0 \<or> b ^ k \<le> n \<Longrightarrow> top_digits b n k = digits b n"
proof (induction k arbitrary: n)
  case 0
  then show ?case by (subst digits.simps) simp
next
  case (Suc k)
  from Suc.prems have ge: "b ^ Suc k \<le> n" and lt: "n < b ^ Suc (Suc k)" by auto
  have "b \<le> b ^ Suc k" using assms by simp
  then have big: "\<not> (n < b \<or> b < 2)" using ge assms by linarith
  have "n div b < b ^ Suc k" using lt assms by (simp add: less_mult_imp_div_less mult.commute)
  moreover have "b ^ k \<le> n div b"
    using ge assms by (simp add: less_eq_div_iff_mult_less_eq mult.commute)
  ultimately have "top_digits b (n div b) k = digits b (n div b)" using Suc.IH by blast
  then show ?case
    using assms big by (simp add: top_digits_snoc digits.simps[of b n] del: top_digits.simps)
qed

section \<open>Hexadecimal numbers\<close>

lemma mask_F: "(0xF::u32) = mask 4"
  by (simp add: mask_eq_exp_minus_1)

lemma nibble: "drop_bit m (v AND push_bit m 0xF) = take_bit 4 (drop_bit m (v::u32))"
  unfolding mask_F
  by (rule bit_eqI) (auto simp: bit_simps dest: bit_imp_le_length)

lemma nibble_0: "v AND push_bit m 0xF = 0 \<longleftrightarrow> take_bit 4 (drop_bit m (v::u32)) = 0"
proof
  assume "v AND push_bit m 0xF = 0"
  then show "take_bit 4 (drop_bit m v) = 0" using nibble[of m v] by simp
next
  assume a: "take_bit 4 (drop_bit m v) = 0"
  show "v AND push_bit m 0xF = 0"
  proof (rule bit_eqI)
    fix n
    have "bit (take_bit 4 (drop_bit m v)) (n - m) = False" using a by simp
    then show "bit (v AND push_bit m 0xF) n = bit (0::u32) n"
      unfolding mask_F by (auto simp: bit_simps)
  qed
qed

lemma unat_nibble: "unat (take_bit 4 (drop_bit (4 * k) (v::u32))) = unat v div 16 ^ k mod 16"
  unfolding unsigned_take_bit_eq unat_drop_bit_eq
  by (simp add: take_bit_eq_mod drop_bit_eq_div power_mult)

lemma hex_char_eq: "hex_char v k = digit_char False (unat v div 16 ^ k mod 16)"
proof -
  define d where "d = take_bit 4 (drop_bit (4 * k) v)"
  have u: "unat d = unat v div 16 ^ k mod 16" unfolding d_def by (rule unat_nibble)
  then have lt: "unat d < 16" by simp
  have a: "unat (48 + d) = 48 + unat d" "unat (97 + d - 10) = 87 + unat d"
    using lt by (auto simp: unat_word_ariths word_less_nat_alt unat_sub_if')
  have "hex_char v k = (if d \<le> 9 then low_char (48 + d) else low_char (97 + d - 10))"
    unfolding hex_char_def nibble d_def[symmetric] Let_def by (rule refl)
  also have "\<dots> = digit_char False (unat d)"
    using a by (auto simp: low_char_def digit_char_def word_le_nat_alt)
  finally show ?thesis unfolding u .
qed

lemma hex_print_top:
  "unat v < 16 ^ Suc k \<Longrightarrow> hex_print v k = map (digit_char False) (top_digits 16 (unat v) k)"
proof -
  have "\<And>m. hex_print v k = map (digit_char False) (top_digits 16 (unat v mod 16 ^ Suc k) k)"
  proof (induction k)
    case 0
    then show ?case by (simp add: hex_char_eq)
  next
    case (Suc k)
    have a: "unat v mod 16 ^ Suc (Suc k) div 16 ^ Suc k = unat v div 16 ^ Suc k mod 16"
      using mod_mult2_eq[of "unat v" "16 ^ Suc k" 16] by (simp add: mult.commute)
    have b: "unat v mod 16 ^ Suc (Suc k) mod 16 ^ Suc k = unat v mod 16 ^ Suc k"
      by (simp add: mod_mod_cancel)
    show ?case using Suc by (simp only: hex_print.simps top_digits.simps list.map a b hex_char_eq)
  qed
  then show "unat v < 16 ^ Suc k \<Longrightarrow> ?thesis" by simp
qed

lemma first_digit_top:
  "v \<noteq> 0 \<Longrightarrow> unat v < 16 ^ Suc k \<Longrightarrow>
   \<exists>j. first_digit v k = Some j \<and> unat v < 16 ^ Suc j \<and> (j = 0 \<or> 16 ^ j \<le> unat v)"
proof (induction k)
  case 0
  have "v AND 0xF = 0 \<longleftrightarrow> unat v mod 16 = 0"
    using nibble_0[of v 0] unat_nibble[of 0 v] by (simp flip: unat_eq_0)
  moreover have "unat v \<noteq> 0" using 0(1) by (simp add: unat_eq_0)
  ultimately show ?case using 0 by simp
next
  case (Suc k)
  let ?d = "unat v div 16 ^ Suc k mod 16"
  have z: "v AND push_bit (4 * Suc k) 0xF = 0 \<longleftrightarrow> ?d = 0"
    using nibble_0[of v "4 * Suc k"] unat_nibble[of "Suc k" v] by (metis unat_eq_0)
  have "unat v div 16 ^ Suc k < 16"
    using Suc.prems(2) by (simp add: less_mult_imp_div_less mult.commute)
  then have d: "?d = unat v div 16 ^ Suc k" by simp
  show ?case
  proof (cases "?d = 0")
    case True
    then have "unat v < 16 ^ Suc k" using d by (simp add: div_eq_0_iff)
    with Suc.IH[OF Suc.prems(1)] z True show ?thesis by simp
  next
    case False
    then have "16 ^ Suc k \<le> unat v" using d by (metis div_less not_le)
    with z False Suc.prems show ?thesis by simp
  qed
qed

text \<open>The digits that are printed are those of the number, with no zero in front.\<close>

lemma hex_digits:
  assumes "v \<noteq> 0"
  shows "\<exists>k. first_digit v 7 = Some k \<and> hex_print v k = map (digit_char False) (digits 16 (unat v))"
proof -
  have "unat v < 16 ^ Suc 7" using unat_bound_32[of v] by simp
  with first_digit_top[OF assms] obtain j
    where j: "first_digit v 7 = Some j" "unat v < 16 ^ Suc j" "j = 0 \<or> 16 ^ j \<le> unat v" by blast
  with hex_print_top[OF j(2)] top_digits_eq[of 16 "unat v" j] show ?thesis by simp
qed

section \<open>Formats and arguments that fit\<close>

datatype va_kind = NumK | StrK

fun kind_of :: "va_arg \<Rightarrow> va_kind" where
  "kind_of (Num v) = NumK"
| "kind_of (Str s) = StrK"

text \<open>The arguments a format takes.\<close>

fun printf_kinds :: "string \<Rightarrow> va_kind list" where
  "printf_kinds [] = []"
| "printf_kinds (c # w) =
     (if c \<noteq> CHR ''%'' then printf_kinds w
      else (case w of
        [] \<Rightarrow> []
      | d # w' \<Rightarrow>
          if d = CHR ''c'' \<or> d = CHR ''x'' then NumK # printf_kinds w'
          else if d = CHR ''s'' then StrK # printf_kinds w'
          else printf_kinds w'))"

lemma va_num_Some: "(\<exists>v as. va_num args = Some (v, as)) \<longleftrightarrow> (\<exists>as. map kind_of args = NumK # as)"
  by (cases args rule: va_num.cases) auto

lemma va_num_kinds: "va_num args = Some (v, as) \<Longrightarrow> map kind_of args = NumK # map kind_of as"
  by (cases args rule: va_num.cases) auto

lemma va_str_kinds: "va_str args = Some (s, as) \<Longrightarrow> map kind_of args = StrK # map kind_of as"
  by (cases args rule: va_str.cases) auto

lemma va_num_None: "va_num args = None \<Longrightarrow> take (length (NumK # ks)) (map kind_of args) \<noteq> NumK # ks"
  by (cases args rule: va_num.cases) auto

lemma va_str_None: "va_str args = None \<Longrightarrow> take (length (StrK # ks)) (map kind_of args) \<noteq> StrK # ks"
  by (cases args rule: va_str.cases) auto

text \<open>
  C29: The small printf is defined on exactly the arguments its format asks for: it reads one argument
  of the right kind for each \<open>%c\<close>, \<open>%x\<close> and \<open>%s\<close> and prints, or the call is undefined.
\<close>

theorem alt_printf_type_safe:
  "(\<exists>out. alt_printf fmt args = Some out)
     \<longleftrightarrow> take (length (printf_kinds fmt)) (map kind_of args) = printf_kinds fmt"
proof (induction fmt args rule: alt_printf.induct)
  case (1 args)
  then show ?case by simp
next
  case (2 c w args)
  show ?case
  proof (cases "c = CHR ''%'' \<and> w \<noteq> []")
    case False
    then show ?thesis using 2(1) by (cases w) auto
  next
    case True
    then obtain d w' where w: "c = CHR ''%''" "w = d # w'" by (cases w) auto
    consider (num) "d = CHR ''c'' \<or> d = CHR ''x''" | (str) "d = CHR ''s''"
      | (other) "d \<noteq> CHR ''c''" "d \<noteq> CHR ''x''" "d \<noteq> CHR ''s''" by blast
    then show ?thesis
    proof cases
      case num
      show ?thesis
      proof (cases "va_num args")
        case None
        then show ?thesis using num w va_num_None[OF None, of "printf_kinds w'"] by auto
      next
        case (Some r)
        then obtain v as where r: "va_num args = Some (v, as)" by (cases r) auto
        have "(\<exists>out. alt_printf w' as = Some out)
            \<longleftrightarrow> take (length (printf_kinds w')) (map kind_of as) = printf_kinds w'"
          using num 2(3,4,5) w r by (cases "v = 0") (use hex_digits[of v] in auto)
        then show ?thesis using num w r va_num_kinds[OF r] hex_digits[of v] by auto
      qed
    next
      case str
      show ?thesis
      proof (cases "va_str args")
        case None
        then show ?thesis using str w va_str_None[OF None, of "printf_kinds w'"] by auto
      next
        case (Some r)
        then obtain s as where r: "va_str args = Some (s, as)" by (cases r) auto
        have "(\<exists>out. alt_printf w' as = Some out)
            \<longleftrightarrow> take (length (printf_kinds w')) (map kind_of as) = printf_kinds w'"
          using str 2(6) w r by auto
        then show ?thesis using str w r va_str_kinds[OF r] by auto
      qed
    next
      case other
      then show ?thesis using 2(2,7) w by (cases "d = CHR ''%''") auto
    qed
  qed
qed

section \<open>What is printed\<close>

text \<open>A format as a list of items, and what each of them should print.\<close>

datatype pitem = PText char | PPercent | PChar | PHex | PStr

fun pitem_string :: "pitem \<Rightarrow> string" where
  "pitem_string (PText c) = [c]"
| "pitem_string PPercent = ''%%''"
| "pitem_string PChar = ''%c''"
| "pitem_string PHex = ''%x''"
| "pitem_string PStr = ''%s''"

fun pitem_output :: "pitem list \<Rightarrow> va_arg list \<Rightarrow> string" where
  "pitem_output [] args = []"
| "pitem_output (PText c # is) args = c # pitem_output is args"
| "pitem_output (PPercent # is) args = CHR ''%'' # pitem_output is args"
| "pitem_output (PChar # is) (Num v # args) = low_char v # pitem_output is args"
| "pitem_output (PHex # is) (Num v # args) = map (digit_char False) (digits 16 (unat v)) @ pitem_output is args"
| "pitem_output (PStr # is) (Str s # args) = s @ pitem_output is args"
| "pitem_output is args = []"

fun pitem_kinds :: "pitem list \<Rightarrow> va_kind list" where
  "pitem_kinds [] = []"
| "pitem_kinds (PText c # is) = pitem_kinds is"
| "pitem_kinds (PPercent # is) = pitem_kinds is"
| "pitem_kinds (PStr # is) = StrK # pitem_kinds is"
| "pitem_kinds (i # is) = NumK # pitem_kinds is"

lemma alt_printf_hex:
  "alt_printf (CHR ''%'' # CHR ''x'' # w) (Num v # args) =
     map_option ((@) (map (digit_char False) (digits 16 (unat v)))) (alt_printf w args)"
proof (cases "v = 0")
  case True
  have "(#) (CHR ''0'') = (@) [CHR ''0'']" by (rule ext) simp
  with True show ?thesis by (simp add: digits.simps digit_char_low)
next
  case False
  with hex_digits[of v] show ?thesis by auto
qed

lemma alt_printf_items:
  "\<forall>c. PText c \<in> set is \<longrightarrow> c \<noteq> CHR ''%'' \<Longrightarrow> map kind_of args = pitem_kinds is \<Longrightarrow>
   alt_printf (concat (map pitem_string is)) args = Some (pitem_output is args)"
proof (induction "is" args rule: pitem_output.induct)
  case (5 "is" v args)
  then show ?case by (simp add: alt_printf_hex del: alt_printf.simps)
qed auto

text \<open>
  C28: On arguments that fit, the small printf prints what its format says: text as it is, characters and
  strings, and numbers in hexadecimal with the digits of their value and no leading zeros.
\<close>

theorem alt_printf_renders:
  assumes "\<forall>c. PText c \<in> set is \<longrightarrow> c \<noteq> CHR ''%''" "map kind_of args = pitem_kinds is"
  shows "alt_printf (concat (map pitem_string is)) args = Some (pitem_output is args)"
  using assms by (rule alt_printf_items)

theorem alt_printf_renders_witness:
  "alt_printf ''a=%x, %s%%'' [Num 0xB05, Str ''ok''] = Some ''a=b05, ok%''"
  using alt_printf_renders[of "[PText (CHR ''a''), PText (CHR ''=''), PHex, PText (CHR '',''), PText (CHR '' ''), PStr, PPercent]"
      "[Num 0xB05, Str ''ok'']"]
  by (simp add: digits.simps digit_char_low del: alt_printf.simps)

end
