(* ===== verification/LogPrintf.thy ===== *)
theory LogPrintf
  imports JtagUart Printf
begin

text \<open>
  The logging printf (\<open>HAL/src/alt_log_printf.c\<close>), with the JTAG UART as its port, and the logging
  functions built on it. A call gives no state, \<open>None\<close>, when the port never gets ready or when the
  arguments do not fit the format, which is undefined.
\<close>

section \<open>The port\<close>

partial_function (option) alt_log_txchar ::
  "hw \<Rightarrow> u32 \<Rightarrow> u32 \<Rightarrow> 'a io_state_scheme \<Rightarrow> 'a io_state_scheme option" where
  "alt_log_txchar hw c base w =
     (let (v, w1) = iord hw base JU_CONTROL_REG w
      in if v AND JU_CONTROL_WSPACE_MSK = 0 then alt_log_txchar hw c base w1
         else Some (iowr base JU_DATA_REG c w1))"

fun log_repeat :: "hw \<Rightarrow> u32 \<Rightarrow> nat \<Rightarrow> u32 \<Rightarrow> 'a io_state_scheme \<Rightarrow> 'a io_state_scheme option" where
  "log_repeat hw c 0 base w = Some w"
| "log_repeat hw c (Suc n) base w = Option.bind (alt_log_txchar hw c base w) (log_repeat hw c n base)"

definition alt_log_repchar :: "hw \<Rightarrow> char \<Rightarrow> int \<Rightarrow> u32 \<Rightarrow> 'a io_state_scheme \<Rightarrow> 'a io_state_scheme option" where
  "alt_log_repchar hw c r base w = log_repeat hw (of_char c) (nat r) base w"

fun log_puts :: "hw \<Rightarrow> string \<Rightarrow> u32 \<Rightarrow> 'a io_state_scheme \<Rightarrow> 'a io_state_scheme option" where
  "log_puts hw [] base w = Some w"
| "log_puts hw (c # s) base w = Option.bind (alt_log_txchar hw (of_char c) base w) (log_puts hw s base)"

text \<open>
  The messages of the startup code (\<open>tx_log_str\<close> of \<open>alt_log_macro.S\<close>): \<open>lb\<close> extends the sign of a character, and the
  wait is the loop of \<open>alt_log_txchar\<close>. \<open>s\<close> are the bytes up to the zero.
\<close>

fun tx_log_str :: "hw \<Rightarrow> u8 list \<Rightarrow> u32 \<Rightarrow> 'a io_state_scheme \<Rightarrow> 'a io_state_scheme option" where
  "tx_log_str hw [] base w = Some w"
| "tx_log_str hw (c # s) base w = Option.bind (alt_log_txchar hw (scast c) base w) (tx_log_str hw s base)"

lemma ascii_scast: "(c :: u8) < 0x80 \<Longrightarrow> (scast c :: u32) = of_char (char_of (unat c))"
proof -
  assume c: "c < 0x80"
  have "signed_take_bit 7 (uint c) = uint c"
    using c by (simp add: signed_take_bit_eq_if_positive bit_iff_odd word_less_def take_bit_eq_mod)
  then have "(scast c :: u32) = word_of_int (uint c)" by (simp add: scast_eq sint_uint)
  also have "\<dots> = of_nat (unat c)" by (simp only: uint_nat of_int_of_nat_eq)
  also have "unat c = of_char (char_of (unat c) :: char)" using c by (simp add: word_less_nat_alt)
  also have "of_nat \<dots> = (of_char (char_of (unat c) :: char) :: u32)" by (rule of_nat_of_char)
  finally show ?thesis .
qed

lemma tx_log_str_puts:
  "list_all (\<lambda>c. c < 0x80) s \<Longrightarrow> tx_log_str hw s base w = log_puts hw (map (char_of \<circ> unat) s) base w"
  by (induction s arbitrary: w) (auto simp: ascii_scast split: bind_split)

section \<open>Numbers\<close>

text \<open>
  The variables of a conversion. The widths are C integers; a format whose width does not fit one is
  undefined, so that they are integers here.
\<close>

record pf =
  leading_zero :: bool
  fmt_long :: bool
  before_decimal :: int
  after_decimal :: int
  fmt_base :: u32
  fmt_signed :: bool
  fmt_case :: bool

definition pf_start :: pf where
  "pf_start = \<lparr>leading_zero = False, fmt_long = False, before_decimal = - 1, after_decimal = - 1, fmt_base = 10,
     fmt_signed = True, fmt_case = False\<rparr>"

text \<open>The number of digits and the place value of the first one; then the digits from there down.\<close>

partial_function (option) count_digits :: "u32 \<Rightarrow> u32 \<Rightarrow> u32 \<Rightarrow> int \<Rightarrow> (u32 \<times> int) option" where
  "count_digits base v_shrink p n =
     (if v_shrink div base > 0 then count_digits base (v_shrink div base) (p * base) (n + 1) else Some (p, n))"

definition digit_byte :: "bool \<Rightarrow> u32 \<Rightarrow> u8" where
  "digit_byte upper d0 =
     (let d = ucast d0 + 48
      in if d > 57 then d + ((if upper then 65 else 97) - 48 - 10) else d)"

partial_function (option) print_digits ::
  "hw \<Rightarrow> u32 \<Rightarrow> bool \<Rightarrow> u32 \<Rightarrow> u32 \<Rightarrow> u32 \<Rightarrow> 'a io_state_scheme \<Rightarrow> 'a io_state_scheme option" where
  "print_digits hw fbase upper v p base w =
     (if p \<noteq> 0 then
        (case alt_log_txchar hw (ucast (digit_byte upper (v div p))) base w of
           None \<Rightarrow> None
         | Some w1 \<Rightarrow> print_digits hw fbase upper (v mod p) (p div fbase) base w1)
      else Some w)"

definition print_sign :: "hw \<Rightarrow> bool \<Rightarrow> u32 \<Rightarrow> 'a io_state_scheme \<Rightarrow> 'a io_state_scheme option" where
  "print_sign hw sign base w = (if sign then alt_log_txchar hw (of_char (CHR ''-'')) base w else Some w)"

text \<open>
  A number with its sign and padding. The four \<open>va_arg\<close> of the code read the same word on this machine.
\<close>

definition print_integer :: "hw \<Rightarrow> u32 \<Rightarrow> pf \<Rightarrow> u32 \<Rightarrow> 'a io_state_scheme \<Rightarrow> 'a io_state_scheme option" where
  "print_integer hw base f v0 w =
     (let sign = (fmt_signed f \<and> v0 AND 0x80000000 \<noteq> 0);
          v = (if sign then NOT v0 + 1 else v0)
      in Option.bind (count_digits (fmt_base f) v 1 1)
           (\<lambda>(p, digit_count).
              let r = before_decimal f - digit_count - (if sign then 1 else 0)
              in Option.bind
                   (if leading_zero f
                    then Option.bind (print_sign hw sign base w) (alt_log_repchar hw (CHR ''0'') r base)
                    else Option.bind (alt_log_repchar hw (CHR '' '') r base w) (print_sign hw sign base))
                   (print_digits hw (fmt_base f) (fmt_case f) v p base)))"

definition print_number ::
  "hw \<Rightarrow> u32 \<Rightarrow> pf \<Rightarrow> va_arg list \<Rightarrow> 'a io_state_scheme \<Rightarrow> (va_arg list \<times> 'a io_state_scheme) option" where
  "print_number hw base f args w =
     Option.bind (va_num args) (\<lambda>(v, args1). map_option (Pair args1) (print_integer hw base f v w))"

section \<open>The format\<close>

text \<open>The letter that ends a conversion; an unknown one prints nothing and takes no argument.\<close>

definition conversion ::
  "hw \<Rightarrow> u32 \<Rightarrow> char \<Rightarrow> pf \<Rightarrow> va_arg list \<Rightarrow> 'a io_state_scheme \<Rightarrow> (va_arg list \<times> 'a io_state_scheme) option" where
  "conversion hw base c f args w =
     (if c = CHR ''d'' \<or> c = CHR ''i'' then print_number hw base f args w
      else if c = CHR ''u'' then print_number hw base (f\<lparr>fmt_signed := False\<rparr>) args w
      else if c = CHR ''o'' then print_number hw base (f\<lparr>fmt_signed := False, fmt_base := 8\<rparr>) args w
      else if c = CHR ''x'' then print_number hw base (f\<lparr>fmt_signed := False, fmt_base := 16\<rparr>) args w
      else if c = CHR ''X'' then
        print_number hw base (f\<lparr>fmt_signed := False, fmt_base := 16, fmt_case := True\<rparr>) args w
      else if c = CHR ''c'' then
        Option.bind (alt_log_repchar hw (CHR '' '') (before_decimal f - 1) base w)
          (\<lambda>w1. Option.bind (va_num args)
             (\<lambda>(v, args1). map_option (Pair args1) (alt_log_txchar hw v base w1)))
      else if c = CHR ''s'' then
        Option.bind (va_str args)
          (\<lambda>(s, args1).
             Option.bind
               (alt_log_repchar hw (CHR '' '')
                  (sint (word_of_int (before_decimal f) - of_nat (length s) :: u32)) base w)
               (\<lambda>w1. map_option (Pair args1) (log_puts hw s base w1)))
      else Some (args, w))"

datatype pf_mode = Chars | FirstFmtChar | OtherFmtChar

type_synonym 'a pf_state = "pf_mode \<times> pf \<times> va_arg list \<times> 'a"

definition digit_value :: "char \<Rightarrow> int" where
  "digit_value c = of_char c - 48"

definition other_fmt_char ::
  "hw \<Rightarrow> u32 \<Rightarrow> char \<Rightarrow> pf \<Rightarrow> va_arg list \<Rightarrow> 'a io_state_scheme \<Rightarrow> 'a io_state_scheme pf_state option" where
  "other_fmt_char hw base c f args w =
     (if c = CHR ''.'' then Some (OtherFmtChar, f\<lparr>after_decimal := 0\<rparr>, args, w)
      else if 0 \<le> digit_value c \<and> digit_value c \<le> 9 then
        Some (OtherFmtChar,
              (if after_decimal f < 0
               then f\<lparr>before_decimal := (if before_decimal f < 0 then 0 else before_decimal f * 10) + digit_value c\<rparr>
               else f\<lparr>after_decimal := after_decimal f * 10 + digit_value c\<rparr>),
              args, w)
      else if c = CHR ''l'' then Some (OtherFmtChar, f\<lparr>fmt_long := True\<rparr>, args, w)
      else map_option (\<lambda>(args1, w1). (Chars, f, args1, w1)) (conversion hw base c f args w))"

fun pf_step :: "hw \<Rightarrow> u32 \<Rightarrow> char \<Rightarrow> 'a io_state_scheme pf_state \<Rightarrow> 'a io_state_scheme pf_state option" where
  "pf_step hw base c (Chars, f, args, w) =
     (if c = CHR ''%'' then Some (FirstFmtChar, pf_start, args, w)
      else map_option (\<lambda>w1. (Chars, f, args, w1)) (alt_log_txchar hw (of_char c) base w))"
| "pf_step hw base c (FirstFmtChar, f, args, w) =
     (if c = CHR ''0'' then Some (OtherFmtChar, f\<lparr>leading_zero := True\<rparr>, args, w)
      else if c = CHR ''%'' then
        map_option (\<lambda>w1. (Chars, f, args, w1)) (alt_log_txchar hw (of_char c) base w)
      else other_fmt_char hw base c f args w)"
| "pf_step hw base c (OtherFmtChar, f, args, w) = other_fmt_char hw base c f args w"

fun pf_run :: "hw \<Rightarrow> u32 \<Rightarrow> string \<Rightarrow> 'a io_state_scheme pf_state \<Rightarrow> 'a io_state_scheme pf_state option" where
  "pf_run hw base [] st = Some st"
| "pf_run hw base (c # fmt) st = Option.bind (pf_step hw base c st) (pf_run hw base fmt)"

text \<open>The variables are zero before the first conversion.\<close>

definition pf_init :: pf where
  "pf_init = \<lparr>leading_zero = False, fmt_long = False, before_decimal = 0, after_decimal = 0, fmt_base = 0,
     fmt_signed = False, fmt_case = False\<rparr>"

definition alt_log_private_printf ::
  "hw \<Rightarrow> string \<Rightarrow> u32 \<Rightarrow> va_arg list \<Rightarrow> 'a io_state_scheme \<Rightarrow> 'a io_state_scheme option" where
  "alt_log_private_printf hw fmt base args w =
     map_option (\<lambda>(m, f, args1, w1). w1) (pf_run hw base fmt (Chars, pf_init, args, w))"

text \<open>\<open>port\<close> is \<open>ALT_LOG_PORT_BASE\<close>, which the build chooses.\<close>

definition alt_log_printf_proc ::
  "hw \<Rightarrow> u32 \<Rightarrow> string \<Rightarrow> va_arg list \<Rightarrow> 'a io_state_scheme \<Rightarrow> 'a io_state_scheme option" where
  "alt_log_printf_proc hw port fmt args w = alt_log_private_printf hw fmt port args w"

section \<open>The logging functions\<close>

record log_world = jtag_world +
  alt_log_boot_on_flag :: u32
  alt_log_write_on_flag :: u8
  alt_log_sys_clk_on_flag :: u8
  alt_log_jtag_uart_alarm_on_flag :: u8
  alt_log_jtag_uart_isr_on_flag :: u8
  alt_log_jtag_uart_startup_info_on_flag :: u8
  alt_log_sys_clk_count :: u32
  alt_system_clock_in_sec :: u32

definition CRLF :: string where "CRLF = [CHR 0x0D, CHR 0x0A]"

definition ALT_LOG_PRINT_BOOT :: "hw \<Rightarrow> u32 \<Rightarrow> string \<Rightarrow> va_arg list \<Rightarrow> log_world \<Rightarrow> log_world option" where
  "ALT_LOG_PRINT_BOOT hw port fmt args w =
     (if alt_log_boot_on_flag w = 1 then alt_log_printf_proc hw port fmt args w else Some w)"

definition ctrl_field :: "u32 \<Rightarrow> u32 \<Rightarrow> nat \<Rightarrow> va_arg" where
  "ctrl_field control msk ofst = Num (drop_bit ofst (control AND msk))"

definition alt_log_jtag_uart_print_control_reg ::
  "hw \<Rightarrow> u32 \<Rightarrow> u32 \<Rightarrow> string \<Rightarrow> log_world \<Rightarrow> log_world option" where
  "alt_log_jtag_uart_print_control_reg hw port base header w =
     (let (control, w1) = iord hw base JU_CONTROL_REG w
      in alt_log_printf_proc hw port
           (''%s SW CirBuf = %d, HW FIFO wspace=%d AC=%d WI=%d RI=%d WE=%d RE=%d'' @ CRLF)
           [Str header, Num (tx_out (sp w1) - tx_in (sp w1)),
            ctrl_field control JU_CONTROL_WSPACE_MSK JU_CONTROL_WSPACE_OFST,
            ctrl_field control JU_CONTROL_AC_MSK 10, ctrl_field control JU_CONTROL_WI_MSK 9,
            ctrl_field control JU_CONTROL_RI_MSK 8, ctrl_field control JU_CONTROL_WE_MSK 1,
            ctrl_field control JU_CONTROL_RE_MSK 0] w1)"

definition altera_avalon_jtag_uart_report_log :: "hw \<Rightarrow> u32 \<Rightarrow> log_world \<Rightarrow> (u32 \<times> log_world) option" where
  "altera_avalon_jtag_uart_report_log hw port w =
     (if alt_log_jtag_uart_alarm_on_flag w \<noteq> 0
      then map_option (\<lambda>w1. (alt_ticks_per_second w1 div 10, w1))
             (alt_log_jtag_uart_print_control_reg hw port (ju_base (sp w)) ''JTAG Alarm:'' w)
      else Some (0, w))"

definition alt_log_jtag_uart_startup_info :: "hw \<Rightarrow> u32 \<Rightarrow> u32 \<Rightarrow> log_world \<Rightarrow> log_world option" where
  "alt_log_jtag_uart_startup_info hw port base w =
     alt_log_jtag_uart_print_control_reg hw port base ''JTAG Startup Info:'' w"

definition alt_log_jtag_uart_isr_proc :: "hw \<Rightarrow> u32 \<Rightarrow> u32 \<Rightarrow> log_world \<Rightarrow> log_world option" where
  "alt_log_jtag_uart_isr_proc hw port base w =
     (if alt_log_jtag_uart_isr_on_flag w \<noteq> 0
      then alt_log_jtag_uart_print_control_reg hw port base ''JTAG IRQ:'' w else Some w)"

text \<open>\<open>alarm\<close> is the address of the alarm object, \<open>report\<close> that of the function above, \<open>dev\<close> that of the state.\<close>

definition ALT_LOG_JTAG_UART_ALARM_REGISTER ::
  "hw \<Rightarrow> u32 \<Rightarrow> u32 \<Rightarrow> u32 \<Rightarrow> u32 \<Rightarrow> u32 \<Rightarrow> log_world \<Rightarrow> log_world option" where
  "ALT_LOG_JTAG_UART_ALARM_REGISTER hw port alarm report dev base w =
     (let w1 = (if alt_log_jtag_uart_alarm_on_flag w = 1
                then snd (alt_alarm_start alarm (alt_ticks_per_second w div 10) report dev w) else w)
      in if alt_log_jtag_uart_startup_info_on_flag w1 = 1
         then alt_log_jtag_uart_startup_info hw port base w1 else Some w1)"

definition ALT_LOG_WRITE_ECHO_LEN :: nat where "ALT_LOG_WRITE_ECHO_LEN = 15"

text \<open>
  The echo buffer for the bytes written: \<open>data\<close> are the \<open>len\<close> bytes at the pointer. A byte \<open>0x04\<close> would
  end the terminal session.
\<close>

definition echo_buf :: "u8 list \<Rightarrow> u8 list" where
  "echo_buf data =
     (let n = min (length data) ALT_LOG_WRITE_ECHO_LEN;
          buf = (take n data)[n - 1 := 0x0A]
      in map (\<lambda>b. if b = 4 then of_char (CHR ''D'') else b) buf @ [0x0D, 0])"

definition c_string :: "u8 list \<Rightarrow> string" where
  "c_string bs = map (\<lambda>b. char_of (unat b)) (takeWhile (\<lambda>b. b \<noteq> 0) bs)"

definition alt_log_write :: "hw \<Rightarrow> u32 \<Rightarrow> u8 list \<Rightarrow> log_world \<Rightarrow> log_world option" where
  "alt_log_write hw port data w =
     (if alt_log_write_on_flag w \<noteq> 0 then
        (if min (length data) ALT_LOG_WRITE_ECHO_LEN < 2 then Some w
         else alt_log_printf_proc hw port ''Write Echo: %s'' [Str (c_string (echo_buf data))] w)
      else Some w)"

definition alt_log_system_clock :: "hw \<Rightarrow> u32 \<Rightarrow> log_world \<Rightarrow> log_world option" where
  "alt_log_system_clock hw port w =
     (if alt_log_sys_clk_on_flag w \<noteq> 0 then
        (let w1 = w\<lparr>alt_log_sys_clk_count := alt_log_sys_clk_count w + 1\<rparr>
         in if alt_log_sys_clk_count w1 > alt_ticks_per_second w1 then
              alt_log_printf_proc hw port (''System Clock On %u'' @ CRLF) [Num (alt_system_clock_in_sec w1)]
                (w1\<lparr>alt_log_sys_clk_count := 0, alt_system_clock_in_sec := alt_system_clock_in_sec w1 + 1\<rparr>)
            else Some w1)
      else Some w)"

end
