(* ===== verification/LogProps.thy ===== *)
theory LogProps
  imports LogPrintf
begin

text \<open>
  What reaches the port: the logging printf writes exactly the characters its format asks for to the data
  register, padded, signed and in the base of each conversion.
\<close>

section \<open>A port that gets ready\<close>

definition log_poll :: "hw \<Rightarrow> u32 \<Rightarrow> trace \<Rightarrow> trace" where
  "log_poll hw base t = Rd base JU_CONTROL_REG (hw t base JU_CONTROL_REG) # t"

text \<open>Reading the control register often enough always ends with room in the transmit FIFO.\<close>

definition port_ready :: "hw \<Rightarrow> u32 \<Rightarrow> bool" where
  "port_ready hw base \<longleftrightarrow>
     (\<forall>t. \<exists>n. hw ((log_poll hw base ^^ n) t) base JU_CONTROL_REG AND JU_CONTROL_WSPACE_MSK \<noteq> 0)"

text \<open>A call that returns and sends these values to the data register, and changes nothing else.\<close>

definition outputs ::
  "u32 \<Rightarrow> 'a io_state_scheme \<Rightarrow> 'a io_state_scheme option \<Rightarrow> u32 list \<Rightarrow> bool" where
  "outputs base w r vs \<longleftrightarrow>
     (\<exists>w'. r = Some w' \<and> emits {JU_DATA_REG} w w' (map (\<lambda>v. (base, JU_DATA_REG, v)) vs))"

lemma outputs_Some: "outputs base w (Some w) []"
  by (simp add: outputs_def emits_refl)

lemma outputs_bind:
  assumes "outputs base w r a" "\<And>w1. outputs base w1 (g w1) b"
  shows "outputs base w (Option.bind r g) (a @ b)"
proof -
  from assms(1) obtain w1 where w1: "r = Some w1" "emits {JU_DATA_REG} w w1 (map (\<lambda>v. (base, JU_DATA_REG, v)) a)"
    unfolding outputs_def by blast
  from assms(2)[of w1] obtain w2
    where "g w1 = Some w2" "emits {JU_DATA_REG} w1 w2 (map (\<lambda>v. (base, JU_DATA_REG, v)) b)"
    unfolding outputs_def by blast
  then show ?thesis using w1 by (auto simp: outputs_def intro: emits_trans)
qed

lemma outputs_bind_eq:
  "outputs base w r a \<Longrightarrow> (\<And>w1. outputs base w1 (g w1) b) \<Longrightarrow> c = a @ b \<Longrightarrow>
   outputs base w (Option.bind r g) c"
  using outputs_bind by blast

lemma txchar_polls:
  "hw ((log_poll hw base ^^ n) (io w)) base JU_CONTROL_REG AND JU_CONTROL_WSPACE_MSK \<noteq> 0 \<Longrightarrow>
   outputs base w (alt_log_txchar hw c base w) [c]"
proof (induction n arbitrary: w)
  case 0
  have "emits {JU_DATA_REG} w (iowr base JU_DATA_REG c (snd (iord hw base JU_CONTROL_REG w)))
      ([] @ [(base, JU_DATA_REG, c)])"
    by (rule emits_trans[OF emits_iord emits_iowr]) (simp add: reg_defs)
  with 0 show ?case
    by (subst alt_log_txchar.simps) (auto simp: outputs_def iord_eq Let_def)
next
  case (Suc n)
  let ?v = "hw (io w) base JU_CONTROL_REG"
  let ?w1 = "snd (iord hw base JU_CONTROL_REG w)"
  have r: "emits {JU_DATA_REG} w ?w1 []" by (rule emits_iord) (simp add: reg_defs)
  have t: "io ?w1 = log_poll hw base (io w)" by (simp add: iord_eq log_poll_def)
  show ?case
  proof (cases "?v AND JU_CONTROL_WSPACE_MSK = 0")
    case True
    have "outputs base ?w1 (alt_log_txchar hw c base ?w1) [c]"
      by (rule Suc.IH) (use Suc.prems t in \<open>simp add: funpow_swap1\<close>)
    then obtain w' where w': "alt_log_txchar hw c base ?w1 = Some w'"
        "emits {JU_DATA_REG} ?w1 w' [(base, JU_DATA_REG, c)]"
      by (auto simp: outputs_def)
    have "alt_log_txchar hw c base w = Some w'"
      using True w'(1) by (subst alt_log_txchar.simps) (simp add: iord_eq Let_def)
    with emits_trans[OF r w'(2)] show ?thesis by (simp add: outputs_def)
  next
    case False
    have "emits {JU_DATA_REG} w (iowr base JU_DATA_REG c ?w1) ([] @ [(base, JU_DATA_REG, c)])"
      by (rule emits_trans[OF r emits_iowr])
    with False show ?thesis
      by (subst alt_log_txchar.simps) (auto simp: outputs_def iord_eq Let_def)
  qed
qed

lemma txchar_outputs: "port_ready hw base \<Longrightarrow> outputs base w (alt_log_txchar hw c base w) [c]"
  using txchar_polls unfolding port_ready_def by blast

lemma log_repeat_outputs: "port_ready hw base \<Longrightarrow> outputs base w (log_repeat hw c n base w) (replicate n c)"
proof (induction n arbitrary: w)
  case 0
  show ?case by (simp add: outputs_Some)
next
  case (Suc n)
  have "outputs base w (Option.bind (alt_log_txchar hw c base w) (log_repeat hw c n base)) ([c] @ replicate n c)"
    by (rule outputs_bind) (use Suc in \<open>auto intro: txchar_outputs\<close>)
  then show ?case by simp
qed

lemma repchar_outputs:
  "port_ready hw base \<Longrightarrow> outputs base w (alt_log_repchar hw c r base w) (replicate (nat r) (of_char c))"
  by (simp add: alt_log_repchar_def log_repeat_outputs)

lemma puts_outputs: "port_ready hw base \<Longrightarrow> outputs base w (log_puts hw s base w) (map of_char s)"
proof (induction s arbitrary: w)
  case Nil
  show ?case by (simp add: outputs_Some)
next
  case (Cons c s)
  have "outputs base w (Option.bind (alt_log_txchar hw (of_char c) base w) (log_puts hw s base))
      ([of_char c] @ map of_char s)"
    by (rule outputs_bind) (use Cons in \<open>auto intro: txchar_outputs\<close>)
  then show ?case by simp
qed

section \<open>Numbers\<close>

lemma count_digits_top:
  fixes b v :: u32
  assumes "2 \<le> unat b"
  shows "unat p = unat b ^ k \<Longrightarrow> unat s = unat v div unat b ^ k \<Longrightarrow> k = 0 \<or> unat b ^ k \<le> unat v \<Longrightarrow>
    \<exists>j p'. count_digits b s p n = Some (p', n + int j - int k) \<and> unat p' = unat b ^ j
      \<and> unat v < unat b ^ Suc j \<and> (j = 0 \<or> unat b ^ j \<le> unat v)"
proof (induction "unat s" arbitrary: s p k n rule: less_induct)
  case less
  let ?B = "unat b"
  have d: "unat (s div b) = unat v div ?B ^ Suc k"
    using less.prems(2) by (simp add: unat_div power_Suc2 div_mult2_eq del: power_Suc)
  show ?case
  proof (cases "s div b > 0")
    case False
    then have "unat v div ?B ^ Suc k = 0" using d[symmetric] by (simp add: word_less_nat_alt)
    then have "unat v < ?B ^ Suc k" using assms by (simp add: div_eq_0_iff)
    moreover have "count_digits b s p n = Some (p, n + int k - int k)"
      using False by (subst count_digits.simps) simp
    ultimately show ?thesis using less.prems by blast
  next
    case True
    then have pos: "0 < unat v div ?B ^ Suc k" using d by (simp add: word_less_nat_alt)
    then have ge: "?B ^ Suc k \<le> unat v" by (simp add: div_greater_zero_iff)
    have "unat s \<noteq> 0" using True by (auto simp: word_less_nat_alt unat_div intro: gr0I)
    then have dec: "unat (s div b) < unat s" using assms by (simp add: unat_div)
    have p: "unat (p * b) = ?B ^ Suc k"
      using less.prems(1) ge unat_bound_32[of v] by (simp add: unat_word_ariths mult.commute)
    from less.hyps[OF dec p d disjI2[OF ge], of "n + 1"] obtain j p' where
      j: "count_digits b (s div b) (p * b) (n + 1) = Some (p', n + 1 + int j - int (Suc k))" "unat p' = ?B ^ j"
         "unat v < ?B ^ Suc j" "j = 0 \<or> ?B ^ j \<le> unat v" by blast
    have "count_digits b s p n = Some (p', n + int j - int k)"
      using True j(1) by (subst count_digits.simps) simp
    with j show ?thesis by blast
  qed
qed

lemma of_char_digit:
  assumes "d < 16"
  shows "(of_char (digit_char up d) :: u32) = of_nat (if d < 10 then 48 + d else (if up then 55 else 87) + d)"
proof -
  have "(of_char (digit_char up d) :: u32) = of_nat (of_char (digit_char up d))" by (simp add: of_nat_of_char)
  also have "(of_char (digit_char up d) :: nat) = (if d < 10 then 48 + d else (if up then 55 else 87) + d)"
    using assms by (simp add: digit_char_def)
  finally show ?thesis .
qed

lemma digit_byte_char:
  assumes "unat x < 16"
  shows "(ucast (digit_byte up x) :: u32) = of_char (digit_char up (unat x))"
proof -
  define y :: u8 where "y = ucast x"
  have y: "unat y = unat x" unfolding y_def using assms by (simp add: unsigned_ucast_eq take_bit_nat_eq_self)
  have a: "unat (y + 48) = unat x + 48" "unat (y + 55) = unat x + 55" "unat (y + 87) = unat x + 87"
    using assms y by (simp_all add: unat_word_ariths)
  have "unat (ucast (digit_byte up x) :: u32) = (if unat x < 10 then 48 + unat x else (if up then 55 else 87) + unat x)"
    using assms a by (auto simp: digit_byte_def Let_def y_def[symmetric] unsigned_ucast_eq take_bit_nat_eq_self
        word_less_nat_alt add.assoc)
  moreover have "\<dots> = unat (of_char (digit_char up (unat x)) :: u32)"
    using assms unfolding of_char_digit[OF assms] by (subst unat_of_nat_32) auto
  ultimately show ?thesis by (simp add: word_unat_eq_iff)
qed

lemma print_digits_outputs:
  assumes ready: "port_ready hw base" and b: "2 \<le> unat b" "unat b \<le> 16"
  shows "unat p = unat b ^ k \<Longrightarrow> unat v < unat b ^ Suc k \<Longrightarrow>
    outputs base w (print_digits hw b up v p base w) (map (\<lambda>d. of_char (digit_char up d)) (top_digits (unat b) (unat v) k))"
proof (induction k arbitrary: p v w)
  case 0
  then have p: "p = 1" by (simp add: word_unat_eq_iff)
  have lt: "unat v < 16" using 0 b by simp
  have z: "p div b = 0" using b p by (simp add: word_unat_eq_iff unat_div)
  have "outputs base w (Option.bind (alt_log_txchar hw (of_char (digit_char up (unat v))) base w) Some)
      ([of_char (digit_char up (unat v))] @ [])"
    by (rule outputs_bind[OF txchar_outputs[OF ready] outputs_Some])
  moreover have "print_digits hw b up v p base w
      = Option.bind (alt_log_txchar hw (of_char (digit_char up (unat v))) base w) Some"
    using p z digit_byte_char[OF lt, of up]
    by (subst print_digits.simps) (auto split: option.splits simp: print_digits.simps[of _ _ _ _ 0])
  ultimately show ?case by simp
next
  case (Suc k)
  let ?B = "unat b"
  have p0: "p \<noteq> 0" using Suc.prems(1) b by auto
  have vp: "unat (v div p) = unat v div ?B ^ Suc k" using Suc.prems(1) by (simp add: unat_div)
  have lt: "unat (v div p) < 16"
    using Suc.prems(2) b unfolding vp by (metis less_le_trans less_mult_imp_div_less power_Suc)
  have m: "unat (v mod p) = unat v mod ?B ^ Suc k" using Suc.prems(1) by (simp add: unat_mod)
  have q: "unat (p div b) = ?B ^ k" using Suc.prems(1) b by (simp add: unat_div)
  have "unat (v mod p) < ?B ^ Suc k" unfolding m using b by simp
  note IH = Suc.IH[OF q this]
  have "outputs base w (Option.bind (alt_log_txchar hw (of_char (digit_char up (unat (v div p)))) base w)
        (print_digits hw b up (v mod p) (p div b) base))
      ([of_char (digit_char up (unat (v div p)))]
        @ map (\<lambda>d. of_char (digit_char up d)) (top_digits ?B (unat (v mod p)) k))"
    by (rule outputs_bind[OF txchar_outputs[OF ready] IH])
  moreover have "print_digits hw b up v p base w
      = Option.bind (alt_log_txchar hw (of_char (digit_char up (unat (v div p)))) base w)
          (print_digits hw b up (v mod p) (p div b) base)"
    using p0 digit_byte_char[OF lt, of up] by (subst print_digits.simps) (auto split: option.splits)
  ultimately show ?case by (simp add: vp m)
qed

text \<open>A number in a field: its sign, the digits of its absolute value, and the padding.\<close>

definition num_output :: "bool \<Rightarrow> int \<Rightarrow> bool \<Rightarrow> nat \<Rightarrow> bool \<Rightarrow> u32 \<Rightarrow> string" where
  "num_output zero width neg_ok b up v =
     (let sg = (if neg_ok \<and> sint v < 0 then ''-'' else '''');
          ds = map (digit_char up) (digits b (nat (if neg_ok then \<bar>sint v\<bar> else uint v)));
          fill = nat (width - int (length sg + length ds))
      in if zero then sg @ replicate fill (CHR ''0'') @ ds else replicate fill (CHR '' '') @ sg @ ds)"

lemma sign_bit: "(v::u32) AND 0x80000000 \<noteq> 0 \<longleftrightarrow> sint v < 0"
proof -
  have "(0x80000000::u32) = push_bit 31 1" by simp
  then have "v AND 0x80000000 \<noteq> 0 \<longleftrightarrow> bit v 31" by (metis and_push_bit_one_eq_0)
  also have "\<dots> \<longleftrightarrow> sint v < 0" using bit_last_iff[of v] by simp
  finally show ?thesis .
qed

lemma strip_sign:
  "unat (if s \<and> sint v < 0 then NOT v + 1 else v) = nat (if s then \<bar>sint v\<bar> else uint (v::u32))"
proof (cases "s \<and> sint v < 0")
  case True
  then have big: "2 ^ 31 \<le> unat v" by (auto simp: sint_unat split: if_splits)
  have "NOT v + 1 = - v" by (simp add: minus_eq_not_plus_1)
  moreover have "unat (- v) = 2 ^ 32 - unat v" using big unat_sub_if'[of 0 v] by auto
  ultimately show ?thesis using True big unat_bound_32[of v] by (simp add: sint_unat nat_diff_distrib)
next
  case False
  then show ?thesis using uint_bound_32[of v] by (auto simp: sint_unat split: if_splits)
qed

lemma sign_outputs:
  "port_ready hw base \<Longrightarrow> outputs base w (print_sign hw sg base w) (map of_char (if sg then ''-'' else ''''))"
  using txchar_outputs[of hw base w "of_char (CHR ''-'')"] outputs_Some[of base w] by (simp add: print_sign_def)

lemma integer_outputs:
  assumes ready: "port_ready hw base" and b: "2 \<le> unat (fmt_base f)" "unat (fmt_base f) \<le> 16"
  shows "outputs base w (print_integer hw base f v0 w)
    (map of_char (num_output (leading_zero f) (before_decimal f) (fmt_signed f) (unat (fmt_base f)) (fmt_case f) v0))"
proof -
  let ?B = "unat (fmt_base f)"
  define sg where "sg = (fmt_signed f \<and> sint v0 < 0)"
  define v where "v = (if sg then NOT v0 + 1 else v0)"
  define m where "m = nat (if fmt_signed f then \<bar>sint v0\<bar> else uint v0)"
  have vm: "unat v = m" unfolding v_def m_def sg_def by (rule strip_sign)
  obtain j p where j: "count_digits (fmt_base f) v 1 1 = Some (p, 1 + int j)" "unat p = ?B ^ j"
      "unat v < ?B ^ Suc j" "j = 0 \<or> ?B ^ j \<le> unat v"
    using count_digits_top[OF b(1), of 1 0 v v 1] by auto
  have td: "top_digits ?B (unat v) j = digits ?B m"
    using top_digits_eq[OF b(1) j(3)] j(4) vm by simp
  then have len: "length (digits ?B m) = Suc j" by (metis length_top_digits)
  define r where "r = before_decimal f - (1 + int j) - (if sg then 1 else 0)"
  have fill: "nat (before_decimal f - int (length (if sg then ''-'' else '''')
      + length (map (digit_char (fmt_case f)) (digits ?B m)))) = nat r"
    by (auto simp: r_def len)
  have digs: "\<And>w1. outputs base w1 (print_digits hw (fmt_base f) (fmt_case f) v p base w1)
      (map of_char (map (digit_char (fmt_case f)) (digits ?B m)))"
    using print_digits_outputs[OF ready b j(2,3)] by (simp add: td comp_def)
  have front: "outputs base w
      (if leading_zero f
       then Option.bind (print_sign hw sg base w) (alt_log_repchar hw (CHR ''0'') r base)
       else Option.bind (alt_log_repchar hw (CHR '' '') r base w) (print_sign hw sg base))
      (if leading_zero f then map of_char (if sg then ''-'' else '''') @ replicate (nat r) (of_char (CHR ''0''))
       else replicate (nat r) (of_char (CHR '' '')) @ map of_char (if sg then ''-'' else ''''))"
    by (cases "leading_zero f"; simp only: if_True if_False)
       (rule outputs_bind[OF sign_outputs[OF ready] repchar_outputs[OF ready]]
          outputs_bind[OF repchar_outputs[OF ready] sign_outputs[OF ready]])+
  have "print_integer hw base f v0 w = Option.bind
      (if leading_zero f
       then Option.bind (print_sign hw sg base w) (alt_log_repchar hw (CHR ''0'') r base)
       else Option.bind (alt_log_repchar hw (CHR '' '') r base w) (print_sign hw sg base))
      (print_digits hw (fmt_base f) (fmt_case f) v p base)"
    unfolding print_integer_def Let_def sign_bit sg_def[symmetric] v_def[symmetric] j(1) r_def by simp
  moreover have "num_output (leading_zero f) (before_decimal f) (fmt_signed f) ?B (fmt_case f) v0
      = (if leading_zero f then (if sg then ''-'' else '''') @ replicate (nat r) (CHR ''0'') @ map (digit_char (fmt_case f)) (digits ?B m)
         else replicate (nat r) (CHR '' '') @ (if sg then ''-'' else '''') @ map (digit_char (fmt_case f)) (digits ?B m))"
    unfolding num_output_def Let_def sg_def[symmetric] m_def[symmetric] fill by (rule refl)
  ultimately show ?thesis
    using outputs_bind[OF front digs] by (cases "leading_zero f") (simp_all add: map_replicate)
qed

section \<open>Conversions\<close>

lemma outputs_SomeE: "outputs base w r vs \<Longrightarrow> (\<And>w'. r = Some w' \<Longrightarrow> outputs base w (Some w') vs \<Longrightarrow> P) \<Longrightarrow> P"
  by (auto simp: outputs_def)

lemma outputs_trans: "outputs base w (Some w1) a \<Longrightarrow> outputs base w1 (Some w2) b \<Longrightarrow> outputs base w (Some w2) (a @ b)"
  by (auto simp: outputs_def intro: emits_trans)

fun conv_output :: "bool \<Rightarrow> int \<Rightarrow> char \<Rightarrow> va_arg \<Rightarrow> u32 list" where
  "conv_output zero width c (Num v) =
     (if c = CHR ''c'' then replicate (nat (width - 1)) (of_char (CHR '' '')) @ [v]
      else map of_char (num_output zero width (c = CHR ''d'' \<or> c = CHR ''i'')
             (if c = CHR ''o'' then 8 else if c = CHR ''x'' \<or> c = CHR ''X'' then 16 else 10) (c = CHR ''X'') v))"
| "conv_output zero width c (Str s) =
     replicate (nat (width - int (length s))) (of_char (CHR '' '')) @ map of_char s"

definition conv_kind :: "char \<Rightarrow> va_kind" where
  "conv_kind c = (if c = CHR ''s'' then StrK else NumK)"

lemma sint_word_of_int_small: "- (2 ^ 31) \<le> x \<Longrightarrow> x < 2 ^ 31 \<Longrightarrow> sint (word_of_int x :: u32) = x"
  by (simp add: signed_of_int signed_take_bit_int_eq_self)

lemma conversion_outputs:
  assumes ready: "port_ready hw base" and c: "c \<in> set ''diuoxXcs''" and k: "kind_of a = conv_kind c"
    and f: "fmt_base f = 10" "fmt_signed f" "\<not> fmt_case f" "- 1 \<le> before_decimal f" "before_decimal f < 2 ^ 31"
    and len: "\<And>s. a = Str s \<Longrightarrow> length s < 2 ^ 31"
  shows "\<exists>w'. conversion hw base c f (a # args) w = Some (args, w')
    \<and> outputs base w (Some w') (conv_output (leading_zero f) (before_decimal f) c a)"
proof (cases a)
  case (Str s)
  then have s: "c = CHR ''s''" using k by (simp add: conv_kind_def split: if_splits)
  have r: "sint (word_of_int (before_decimal f) - of_nat (length s) :: u32) = before_decimal f - int (length s)"
  proof -
    have "word_of_int (before_decimal f) - of_nat (length s) = (word_of_int (before_decimal f - int (length s)) :: u32)"
      by simp
    moreover have "- (2 ^ 31) \<le> before_decimal f - int (length s)" "before_decimal f - int (length s) < 2 ^ 31"
      using f len[OF Str] by auto
    ultimately show ?thesis by (simp only: sint_word_of_int_small)
  qed
  have "outputs base w
      (Option.bind (alt_log_repchar hw (CHR '' '') (before_decimal f - int (length s)) base w) (log_puts hw s base))
      (replicate (nat (before_decimal f - int (length s))) (of_char (CHR '' '')) @ map of_char s)"
    by (rule outputs_bind[OF repchar_outputs[OF ready] puts_outputs[OF ready]])
  then show ?thesis
    by (rule outputs_SomeE) (auto simp: conversion_def s Str r Option.bind_eq_Some_conv)
next
  case (Num v)
  then have s: "c \<noteq> CHR ''s''" using k by (simp add: conv_kind_def split: if_splits)
  show ?thesis
  proof (cases "c = CHR ''c''")
    case True
    have "outputs base w
        (Option.bind (alt_log_repchar hw (CHR '' '') (before_decimal f - 1) base w) (alt_log_txchar hw v base))
        (replicate (nat (before_decimal f - 1)) (of_char (CHR '' '')) @ [v])"
      by (rule outputs_bind[OF repchar_outputs[OF ready] txchar_outputs[OF ready]])
    then show ?thesis
      by (rule outputs_SomeE) (auto simp: conversion_def True Num Option.bind_eq_Some_conv)
  next
    case False
    define g where "g = f\<lparr>fmt_signed := (c = CHR ''d'' \<or> c = CHR ''i''),
        fmt_base := (if c = CHR ''o'' then 8 else if c = CHR ''x'' \<or> c = CHR ''X'' then 16 else 10), fmt_case := (c = CHR ''X'')\<rparr>"
    have g: "conversion hw base c f (a # args) w = print_number hw base g (a # args) w"
      using c s False f by (cases f) (auto simp: conversion_def g_def)
    have b: "2 \<le> unat (fmt_base g)" "unat (fmt_base g) \<le> 16"
      by (auto simp: g_def)
    have o: "conv_output (leading_zero f) (before_decimal f) c a
        = map of_char (num_output (leading_zero g) (before_decimal g) (fmt_signed g) (unat (fmt_base g)) (fmt_case g) v)"
      using False by (simp add: Num g_def)
    show ?thesis
      unfolding g o by (rule outputs_SomeE[OF integer_outputs[OF ready b, of w v]]) (simp add: print_number_def Num)
  qed
qed

section \<open>Reading the format\<close>

text \<open>
  A format as a list of items: text, \<open>%%\<close>, and conversions with the zero flag, a width, a precision, an \<open>l\<close>
  and a letter.
\<close>

datatype log_item = LText char | LPercent | LConv bool "nat option" "nat option" bool char

definition decimal :: "nat \<Rightarrow> string" where
  "decimal n = map (digit_char False) (digits 10 n)"

fun modifiers :: "nat option \<Rightarrow> nat option \<Rightarrow> bool \<Rightarrow> string" where
  "modifiers width prec long =
     (case width of None \<Rightarrow> '''' | Some n \<Rightarrow> decimal n) @ (case prec of None \<Rightarrow> '''' | Some n \<Rightarrow> ''.'' @ decimal n)
       @ (if long then ''l'' else '''')"

fun log_item_string :: "log_item \<Rightarrow> string" where
  "log_item_string (LText c) = [c]"
| "log_item_string LPercent = ''%%''"
| "log_item_string (LConv zero width prec long c) =
     ''%'' @ (if zero then ''0'' else '''') @ modifiers width prec long @ [c]"

fun log_item_ok :: "log_item \<Rightarrow> bool" where
  "log_item_ok (LText c) \<longleftrightarrow> c \<noteq> CHR ''%''"
| "log_item_ok LPercent \<longleftrightarrow> True"
| "log_item_ok (LConv zero width prec long c) \<longleftrightarrow>
     c \<in> set ''diuoxXcs'' \<and> (case width of None \<Rightarrow> True | Some n \<Rightarrow> 0 < n \<and> n < 2 ^ 31)"

fun log_kinds :: "log_item list \<Rightarrow> va_kind list" where
  "log_kinds [] = []"
| "log_kinds (LConv zero width prec long c # is) = conv_kind c # log_kinds is"
| "log_kinds (i # is) = log_kinds is"

definition width_of :: "nat option \<Rightarrow> int" where
  "width_of width = (case width of None \<Rightarrow> - 1 | Some n \<Rightarrow> int n)"

text \<open>The values that should reach the data register.\<close>

fun log_output :: "log_item list \<Rightarrow> va_arg list \<Rightarrow> u32 list" where
  "log_output [] args = []"
| "log_output (LText c # is) args = of_char c # log_output is args"
| "log_output (LPercent # is) args = of_char (CHR ''%'') # log_output is args"
| "log_output (LConv zero width prec long c # is) (a # args) = conv_output zero (width_of width) c a @ log_output is args"
| "log_output is args = []"

lemma pf_run_append:
  fixes st :: "'a io_state_scheme pf_state"
  shows "pf_run hw base (a @ b) st = Option.bind (pf_run hw base a st) (pf_run hw base b)"
proof (induction a arbitrary: st)
  case (Cons c a)
  have "pf_run hw base (a @ b) = (\<lambda>st :: 'a io_state_scheme pf_state. Option.bind (pf_run hw base a st) (pf_run hw base b))"
    by (rule ext) (rule Cons.IH)
  then show ?case by (simp del: split_paired_All)
qed simp

lemma digit_value_char: "d < 10 \<Longrightarrow> digit_value (digit_char False d) = int d"
proof -
  assume d: "d < 10"
  have "(of_char (digit_char False d) :: int) = int (of_char (digit_char False d))" by (simp only: of_nat_of_char)
  also have "(of_char (digit_char False d) :: nat) = 48 + d" using d by (simp add: digit_char_def)
  finally show ?thesis by (simp add: digit_value_def)
qed

lemma digit_char_not: "d < 10 \<Longrightarrow> digit_char False d \<noteq> CHR ''.''" "d < 10 \<Longrightarrow> digit_char False d \<noteq> CHR ''%''"
  using digit_value_char[of d] by (auto simp: digit_value_def)

lemma digit_char_zero: "d < 10 \<Longrightarrow> digit_char False d = CHR ''0'' \<longleftrightarrow> d = 0"
  using digit_value_char[of d] by (auto simp: digit_value_def digit_char_low)

lemma digits_run:
  "\<forall>d\<in>set ds. d < 10 \<Longrightarrow> after_decimal f < 0 \<Longrightarrow> before_decimal f = int n \<Longrightarrow>
   pf_run hw base (map (digit_char False) ds) (OtherFmtChar, f, args, w)
     = Some (OtherFmtChar, f\<lparr>before_decimal := int (foldl (\<lambda>x d. x * 10 + d) n ds)\<rparr>, args, w)"
proof (induction ds arbitrary: f n)
  case Nil
  then show ?case by (cases f) simp
next
  case (Cons d ds)
  have "pf_step hw base (digit_char False d) (OtherFmtChar, f, args, w)
      = Some (OtherFmtChar, f\<lparr>before_decimal := int (n * 10 + d)\<rparr>, args, w)"
    using Cons.prems by (simp add: other_fmt_char_def digit_value_char digit_char_not)
  then show ?case using Cons.IH[of "f\<lparr>before_decimal := int (n * 10 + d)\<rparr>" "n * 10 + d"] Cons.prems by simp
qed

lemma prec_run:
  "\<forall>d\<in>set ds. d < 10 \<Longrightarrow> 0 \<le> after_decimal f \<Longrightarrow>
   \<exists>x. pf_run hw base (map (digit_char False) ds) (OtherFmtChar, f, args, w)
     = Some (OtherFmtChar, f\<lparr>after_decimal := x\<rparr>, args, w)"
proof (induction ds arbitrary: f)
  case Nil
  then show ?case by (intro exI[of _ "after_decimal f"]) simp
next
  case (Cons d ds)
  let ?f = "f\<lparr>after_decimal := after_decimal f * 10 + int d\<rparr>"
  have "pf_step hw base (digit_char False d) (OtherFmtChar, f, args, w) = Some (OtherFmtChar, ?f, args, w)"
    using Cons.prems by (simp add: other_fmt_char_def digit_value_char digit_char_not)
  then show ?case using Cons.IH[of ?f] Cons.prems by auto
qed

lemma decimal_run:
  assumes "after_decimal f < 0" "before_decimal f < 0"
  shows "pf_run hw base (decimal n) (OtherFmtChar, f, args, w)
    = Some (OtherFmtChar, f\<lparr>before_decimal := int n\<rparr>, args, w)"
proof -
  have ds: "\<forall>d\<in>set (digits 10 n). d < 10" by (rule digits_lt) simp
  have "digits 10 n \<noteq> []" by (subst digits.simps) simp
  then obtain d ds where c: "digits 10 n = d # ds" by (cases "digits 10 n") auto
  have "pf_step hw base (digit_char False d) (OtherFmtChar, f, args, w)
      = Some (OtherFmtChar, f\<lparr>before_decimal := int d\<rparr>, args, w)"
    using ds c assms by (simp add: other_fmt_char_def digit_value_char digit_char_not)
  moreover have "foldl (\<lambda>x d. x * 10 + d) d ds = n"
    using digits_value_digits[of 10 n] by (simp add: digits_value_def c)
  ultimately show ?thesis
    using digits_run[of ds "f\<lparr>before_decimal := int d\<rparr>" d hw base args w] ds assms by (simp add: decimal_def c)
qed

lemma modifiers_run:
  assumes "f = pf_start\<lparr>leading_zero := zero\<rparr>"
  shows "\<exists>x lg. pf_run hw base (modifiers width prec long) (OtherFmtChar, f, args, w)
    = Some (OtherFmtChar, f\<lparr>before_decimal := width_of width, after_decimal := x, fmt_long := lg\<rparr>, args, w)"
proof -
  let ?g = "f\<lparr>before_decimal := width_of width\<rparr>"
  have 1: "pf_run hw base (case width of None \<Rightarrow> '''' | Some n \<Rightarrow> decimal n) (OtherFmtChar, f, args, w)
      = Some (OtherFmtChar, ?g, args, w)"
    using assms decimal_run[of f] by (auto simp: pf_start_def width_of_def split: option.splits)
  have 2: "\<exists>x. pf_run hw base (case prec of None \<Rightarrow> '''' | Some n \<Rightarrow> ''.'' @ decimal n) (OtherFmtChar, ?g, args, w)
      = Some (OtherFmtChar, ?g\<lparr>after_decimal := x\<rparr>, args, w)"
  proof (cases prec)
    case None
    then show ?thesis by (intro exI[of _ "after_decimal ?g"]) simp
  next
    case (Some n)
    have "\<forall>d\<in>set (digits 10 n). d < 10" by (rule digits_lt) simp
    from prec_run[OF this, of "?g\<lparr>after_decimal := 0\<rparr>" hw base args w] Some show ?thesis
      by (simp add: other_fmt_char_def decimal_def)
  qed
  have 3: "\<And>g. \<exists>lg. pf_run hw base (if long then ''l'' else '''') (OtherFmtChar, g, args, w)
      = Some (OtherFmtChar, g\<lparr>fmt_long := lg\<rparr>, args, w)"
  proof -
    fix g :: pf
    show "\<exists>lg. pf_run hw base (if long then ''l'' else '''') (OtherFmtChar, g, args, w)
        = Some (OtherFmtChar, g\<lparr>fmt_long := lg\<rparr>, args, w)"
      by (cases long) (auto simp: other_fmt_char_def digit_value_def intro: exI[of _ "fmt_long g"])
  qed
  from 2 obtain x where x: "pf_run hw base (case prec of None \<Rightarrow> '''' | Some n \<Rightarrow> ''.'' @ decimal n) (OtherFmtChar, ?g, args, w)
      = Some (OtherFmtChar, ?g\<lparr>after_decimal := x\<rparr>, args, w)" ..
  from 3[of "?g\<lparr>after_decimal := x\<rparr>"] obtain lg where lg: "pf_run hw base (if long then ''l'' else '''')
      (OtherFmtChar, ?g\<lparr>after_decimal := x\<rparr>, args, w)
      = Some (OtherFmtChar, ?g\<lparr>after_decimal := x, fmt_long := lg\<rparr>, args, w)" ..
  show ?thesis by (auto simp: pf_run_append 1 x lg)
qed

lemma first_char_run:
  "fmt \<noteq> [] \<Longrightarrow> hd fmt \<noteq> CHR ''0'' \<Longrightarrow> hd fmt \<noteq> CHR ''%'' \<Longrightarrow>
   pf_run hw base fmt (FirstFmtChar, f, args, w) = pf_run hw base fmt (OtherFmtChar, f, args, w)"
  by (cases fmt) auto

lemma decimal_hd: "0 < n \<Longrightarrow> decimal n \<noteq> [] \<and> hd (decimal n) \<noteq> CHR ''0'' \<and> hd (decimal n) \<noteq> CHR ''%''"
proof -
  assume n: "0 < n"
  have ds: "\<forall>d\<in>set (digits 10 n). d < 10" by (rule digits_lt) simp
  with hd_digits[OF n, of 10] show ?thesis
    by (cases "digits 10 n") (auto simp: decimal_def digit_char_zero digit_char_not)
qed

lemma conv_letter: "c \<in> set ''diuoxXcs'' \<Longrightarrow>
    c \<noteq> CHR ''0'' \<and> c \<noteq> CHR ''%'' \<and> c \<noteq> CHR ''.'' \<and> c \<noteq> CHR ''l'' \<and> 9 < digit_value c"
  by (auto simp: digit_value_def)

lemma modifiers_hd:
  assumes "log_item_ok (LConv zero width prec long c)"
  shows "hd (modifiers width prec long @ [c]) \<noteq> CHR ''0''" "hd (modifiers width prec long @ [c]) \<noteq> CHR ''%''"
  using assms conv_letter[of c] by (auto simp: hd_append decimal_hd split: option.splits)

lemma conv_start:
  assumes "log_item_ok (LConv zero width prec long c)"
  shows "pf_run hw base (log_item_string (LConv zero width prec long c)) (Chars, f, args, w)
    = pf_run hw base (modifiers width prec long @ [c]) (OtherFmtChar, pf_start\<lparr>leading_zero := zero\<rparr>, args, w)"
proof (cases zero)
  case True
  then show ?thesis by simp
next
  case False
  have s: "pf_start\<lparr>leading_zero := False\<rparr> = pf_start" by (simp add: pf_start_def)
  have "pf_run hw base (modifiers width prec long @ [c]) (FirstFmtChar, pf_start, args, w)
      = pf_run hw base (modifiers width prec long @ [c]) (OtherFmtChar, pf_start, args, w)"
    by (rule first_char_run) (use modifiers_hd[OF assms] in auto)
  with False s show ?thesis by simp
qed

lemma conv_run:
  assumes ready: "port_ready hw base" and ok: "log_item_ok (LConv zero width prec long c)"
    and k: "kind_of a = conv_kind c" and len: "\<And>s. a = Str s \<Longrightarrow> length s < 2 ^ 31"
  shows "\<exists>f' w'. pf_run hw base (log_item_string (LConv zero width prec long c)) (Chars, f, a # args, w)
      = Some (Chars, f', args, w') \<and> outputs base w (Some w') (conv_output zero (width_of width) c a)"
proof -
  from ok have c: "c \<in> set ''diuoxXcs''" by simp
  obtain x lg where m: "pf_run hw base (modifiers width prec long)
        (OtherFmtChar, pf_start\<lparr>leading_zero := zero\<rparr>, a # args, w)
      = Some (OtherFmtChar, pf_start\<lparr>leading_zero := zero, before_decimal := width_of width, after_decimal := x, fmt_long := lg\<rparr>, a # args, w)"
    using modifiers_run[OF refl] by blast
  let ?g = "pf_start\<lparr>leading_zero := zero, before_decimal := width_of width, after_decimal := x, fmt_long := lg\<rparr>"
  have g: "fmt_base ?g = 10" "fmt_signed ?g" "\<not> fmt_case ?g" "- 1 \<le> before_decimal ?g" "before_decimal ?g < 2 ^ 31"
    using ok by (auto simp: pf_start_def width_of_def split: option.splits)
  from conversion_outputs[OF ready c k g len] obtain w' where w': "conversion hw base c ?g (a # args) w = Some (args, w')"
      "outputs base w (Some w') (conv_output (leading_zero ?g) (before_decimal ?g) c a)" by blast
  have "pf_step hw base c (OtherFmtChar, ?g, a # args, w) = Some (Chars, ?g, args, w')"
    using conv_letter[OF c] w'(1) by (simp add: other_fmt_char_def)
  then show ?thesis
    using w'(2) unfolding conv_start[OF ok] pf_run_append m by (simp add: pf_start_def)
qed

lemma text_run:
  assumes ready: "port_ready hw base" and "log_item_ok (LText c)"
  shows "\<exists>f' w'. pf_run hw base [c] (Chars, f, args, w) = Some (Chars, f', args, w') \<and> outputs base w (Some w') [of_char c]"
  by (rule outputs_SomeE[OF txchar_outputs[OF ready, of w "of_char c"]]) (use assms(2) in simp)

lemma percent_run:
  assumes ready: "port_ready hw base"
  shows "\<exists>f' w'. pf_run hw base ''%%'' (Chars, f, args, w) = Some (Chars, f', args, w') \<and> outputs base w (Some w') [of_char (CHR ''%'')]"
  by (rule outputs_SomeE[OF txchar_outputs[OF ready, of w "of_char (CHR ''%'')"]]) simp

lemma items_run:
  assumes ready: "port_ready hw base"
  shows "\<forall>i\<in>set is. log_item_ok i \<Longrightarrow> map kind_of args = log_kinds is \<Longrightarrow> \<forall>s. Str s \<in> set args \<longrightarrow> length s < 2 ^ 31 \<Longrightarrow>
    \<exists>f' w'. pf_run hw base (concat (map log_item_string is)) (Chars, f, args, w) = Some (Chars, f', [], w')
      \<and> outputs base w (Some w') (log_output is args)"
proof (induction "is" arbitrary: f args w)
  case Nil
  then show ?case by (auto simp: outputs_Some)
next
  case (Cons i "is")
  have step: "\<exists>f' w'. pf_run hw base (concat (map log_item_string (i # is))) (Chars, f, args, w) = Some (Chars, f', [], w')
      \<and> outputs base w (Some w') (log_output (i # is) args)"
    if a: "pf_run hw base (log_item_string i) (Chars, f, args, w) = Some (Chars, f1, args1, w1)"
      "outputs base w (Some w1) vs" and b: "map kind_of args1 = log_kinds is" "set args1 \<subseteq> set args"
      and c: "log_output (i # is) args = vs @ log_output is args1" for f1 args1 w1 vs
  proof -
    from Cons.IH[OF _ b(1), of f1 w1] Cons.prems(1,3) b(2) obtain f2 w2
      where "pf_run hw base (concat (map log_item_string is)) (Chars, f1, args1, w1) = Some (Chars, f2, [], w2)"
        "outputs base w1 (Some w2) (log_output is args1)" by auto
    then show ?thesis using a(1) outputs_trans[OF a(2)] unfolding c by (simp add: pf_run_append)
  qed
  show ?case
  proof (cases i)
    case (LText c)
    then have ok: "log_item_ok (LText c)" using Cons.prems(1) by simp
    from text_run[OF ready ok, of f args w] obtain f1 w1
      where "pf_run hw base (log_item_string i) (Chars, f, args, w) = Some (Chars, f1, args, w1)"
        "outputs base w (Some w1) [of_char c]"
      unfolding LText log_item_string.simps by blast
    then show ?thesis by (rule step) (use Cons.prems(2) LText in simp_all)
  next
    case LPercent
    from percent_run[OF ready, of f args w] obtain f1 w1
      where "pf_run hw base (log_item_string i) (Chars, f, args, w) = Some (Chars, f1, args, w1)"
        "outputs base w (Some w1) [of_char (CHR ''%'')]"
      unfolding LPercent log_item_string.simps by blast
    then show ?thesis by (rule step) (use Cons.prems(2) LPercent in simp_all)
  next
    case (LConv zero width prec long c)
    then obtain a args1 where args: "args = a # args1" "kind_of a = conv_kind c" "map kind_of args1 = log_kinds is"
      using Cons.prems(2) by (cases args) auto
    from LConv Cons.prems(1) have ok: "log_item_ok (LConv zero width prec long c)" by simp
    from conv_run[OF ready ok args(2), of f args1 w] Cons.prems(3) args(1) obtain f1 w1
      where r: "pf_run hw base (log_item_string i) (Chars, f, args, w) = Some (Chars, f1, args1, w1)"
        "outputs base w (Some w1) (conv_output zero (width_of width) c a)"
      unfolding LConv args(1) by auto
    show ?thesis by (rule step[OF r args(3)]) (auto simp: args(1) LConv)
  qed
qed

text \<open>
  C27: On a port that gets ready, the logging printf returns and sends to the data register exactly what
  its format asks for: text as it is, and each conversion of its argument with sign, base, width and
  zero or space padding; it changes nothing else and leaves no argument unread.
\<close>

theorem log_printf_renders:
  assumes "port_ready hw port" "\<forall>i\<in>set is. log_item_ok i" "map kind_of args = log_kinds is"
    and "\<forall>s. Str s \<in> set args \<longrightarrow> length s < 2 ^ 31"
  shows "\<exists>w'. alt_log_printf_proc hw port (concat (map log_item_string is)) args w = Some w'
    \<and> emits {JU_DATA_REG} w w' (map (\<lambda>v. (port, JU_DATA_REG, v)) (log_output is args))"
  using items_run[OF assms, of pf_init w] by (auto simp: alt_log_printf_proc_def alt_log_private_printf_def outputs_def)

text \<open>A port that always has room.\<close>

definition free_port :: hw where "free_port t base reg = 0xFFFF0000"

theorem log_printf_renders_witness:
  "\<exists>w'. alt_log_printf_proc free_port 0x30050 ''a=%3d %04x %s'' [Num (- 5), Num 0xAB, Str ''ok''] \<lparr>io = []\<rparr> = Some w'
    \<and> wrs (io w') = map (\<lambda>c. (0x30050, JU_DATA_REG, of_char c)) ''a= -5 00ab ok''"
proof -
  let ?is = "[LText (CHR ''a''), LText (CHR ''=''), LConv False (Some 3) None False (CHR ''d''), LText (CHR '' ''),
      LConv True (Some 4) None False (CHR ''x''), LText (CHR '' ''), LConv False None None False (CHR ''s'')]"
  let ?args = "[Num (- 5), Num 0xAB, Str ''ok'']"
  have ready: "port_ready free_port 0x30050"
    unfolding port_ready_def by (intro allI exI[of _ 0]) (simp add: free_port_def reg_defs)
  have rep: "\<And>x. replicate 2 x = [x, x]" by (simp add: numeral_2_eq_2)
  have "sint (- 5 :: u32) = - 5" by (simp add: sint_unat)
  then have out: "log_output ?is ?args = map of_char ''a= -5 00ab ok''"
    by (simp add: width_of_def num_output_def digits.simps digit_char_low Let_def rep)
  have fmt: "concat (map log_item_string ?is) = ''a=%3d %04x %s''"
    by (simp add: decimal_def digits.simps digit_char_low)
  have "\<forall>i\<in>set ?is. log_item_ok i" "map kind_of ?args = log_kinds ?is" "\<forall>s. Str s \<in> set ?args \<longrightarrow> length s < 2 ^ 31"
    by (auto simp: conv_kind_def)
  from log_printf_renders[OF ready this, of "\<lparr>io = []\<rparr>"] show ?thesis
    unfolding fmt out by (auto simp: comp_def dest: emits_wrs)
qed

section \<open>The echo of a write\<close>

lemma echo_buf_text:
  assumes "2 \<le> length data" "\<forall>b\<in>set data. b \<noteq> 0 \<and> b \<noteq> 4"
  shows "takeWhile (\<lambda>b. b \<noteq> 0) (echo_buf data) = take (min (length data) 15 - 1) data @ [0x0A, 0x0D]"
proof -
  define n where "n = min (length data) 15 - 1"
  have n: "min (length data) ALT_LOG_WRITE_ECHO_LEN = Suc n" "n < length data"
    using assms(1) by (auto simp: n_def ALT_LOG_WRITE_ECHO_LEN_def)
  have "(take (Suc n) data)[n := 0x0A] = take n data @ [0x0A]"
    using n(2) by (simp add: take_Suc_conv_app_nth list_update_append)
  moreover have "map (\<lambda>b. if b = 4 then of_char (CHR ''D'') else b) (take n data) = take n data"
    by (rule map_idI) (use assms(2) in \<open>auto dest: in_set_takeD\<close>)
  ultimately have "echo_buf data = take n data @ [0x0A, 0x0D, 0]"
    unfolding echo_buf_def Let_def n(1) by simp
  moreover have "takeWhile (\<lambda>b. b \<noteq> 0) (take n data @ [0x0A, 0x0D, 0]) = take n data @ [0x0A, 0x0D]"
    by (subst takeWhile_append2) (use assms(2) in \<open>auto dest: in_set_takeD\<close>)
  ultimately show ?thesis by (simp add: n_def)
qed

lemma of_char_byte: "(of_char (char_of (unat (b::u8))) :: u32) = ucast b"
proof -
  have "(of_char (char_of (unat b)) :: u32) = of_nat (of_char (char_of (unat b)))" by (simp only: of_nat_of_char)
  also have "\<dots> = of_nat (unat b)" using unsigned_less[where 'a=nat, of b] by simp
  finally show ?thesis by simp
qed

lemma ucast_line_end: "(ucast (0x0A::u8) :: u32) = 0x0A" "(ucast (0x0D::u8) :: u32) = 0x0D"
  by simp_all

text \<open>
  With the echo switched on, a write of two bytes or more logs its first bytes, one less than the
  fifteen of the limit or than its length: the line end takes the place of the last byte.
\<close>

theorem log_write_echo:
  assumes "port_ready hw port" "alt_log_write_on_flag w \<noteq> 0" "2 \<le> length data" "\<forall>b\<in>set data. b \<noteq> 0 \<and> b \<noteq> 4"
  shows "\<exists>w'. alt_log_write hw port data w = Some w'
    \<and> emits {JU_DATA_REG} w w' (map (\<lambda>v. (port, JU_DATA_REG, v))
        (map of_char ''Write Echo: '' @ map ucast (take (min (length data) 15 - 1) data) @ [0x0A, 0x0D]))"
proof -
  let ?s = "c_string (echo_buf data)"
  let ?is = "map LText ''Write Echo: '' @ [LConv False None None False (CHR ''s'')]"
  have s: "map of_char ?s = (map ucast (take (min (length data) 15 - 1) data) @ [0x0A, 0x0D] :: u32 list)"
    unfolding c_string_def echo_buf_text[OF assms(3,4)]
    by (simp only: map_append map_map comp_def of_char_byte list.map ucast_line_end)
  have "length ?s < 2 ^ 31"
    using arg_cong[OF s, of length] by simp
  moreover have "\<forall>i\<in>set ?is. log_item_ok i" "map kind_of [Str ?s] = log_kinds ?is"
    by (auto simp: conv_kind_def)
  ultimately obtain w' where w': "pf_run hw port (concat (map log_item_string ?is)) (Chars, pf_init, [Str ?s], w) = Some (Chars, w')"
      "outputs port w (Some (snd (snd w'))) (log_output ?is [Str ?s])"
    using items_run[OF assms(1), of ?is "[Str ?s]" pf_init w] by auto
  have f: "concat (map log_item_string ?is) = ''Write Echo: %s''" by simp
  have o: "log_output ?is [Str ?s] = map of_char ''Write Echo: '' @ map ucast (take (min (length data) 15 - 1) data) @ [0x0A, 0x0D]"
    using s by (simp add: width_of_def)
  have "alt_log_write hw port data w = Some (snd (snd w'))"
    using w'(1) assms(2,3) unfolding f
    by (auto simp: alt_log_write_def alt_log_printf_proc_def alt_log_private_printf_def ALT_LOG_WRITE_ECHO_LEN_def split: prod.splits)
  then show ?thesis using w'(2) unfolding o outputs_def by auto
qed

text \<open>A board that logs everything.\<close>

definition log_boot :: log_world where
  "log_boot = clock_state.extend boot_clock
     \<lparr>sp = \<lparr>ju_base = 0x30050, ju_timeout = 0, ju_irq_enable = 0, ju_host_inactive = 0,
        rx_in = 0, rx_out = 0, tx_in = 0, tx_out = 0, rx_buf = (\<lambda>_. 0), tx_buf = (\<lambda>_. 0)\<rparr>,
      alt_log_boot_on_flag = 1, alt_log_write_on_flag = 1, alt_log_sys_clk_on_flag = 1, alt_log_jtag_uart_alarm_on_flag = 1,
      alt_log_jtag_uart_isr_on_flag = 1, alt_log_jtag_uart_startup_info_on_flag = 1, alt_log_sys_clk_count = 0,
      alt_system_clock_in_sec = 0\<rparr>"

theorem log_write_echo_witness:
  "\<exists>w'. alt_log_write free_port 0x30050 [0x48, 0x69, 0x21] log_boot = Some w'
    \<and> wrs (io w') = wrs (io log_boot) @ map (\<lambda>c. (0x30050, JU_DATA_REG, of_char c)) ''Write Echo: Hi'' @ [(0x30050, JU_DATA_REG, 0x0A), (0x30050, JU_DATA_REG, 0x0D)]"
proof -
  have ready: "port_ready free_port 0x30050"
    unfolding port_ready_def by (intro allI exI[of _ 0]) (simp add: free_port_def reg_defs)
  have "alt_log_write_on_flag log_boot \<noteq> 0" by (simp add: log_boot_def clock_state.defs)
  from log_write_echo[OF ready this, of "[0x48, 0x69, 0x21]"] obtain w'
    where w': "alt_log_write free_port 0x30050 [0x48, 0x69, 0x21] log_boot = Some w'"
      "emits {JU_DATA_REG} log_boot w' (map (\<lambda>v. (0x30050, JU_DATA_REG, v))
         (map of_char ''Write Echo: '' @ map ucast (take (min (length [0x48::u8, 0x69, 0x21]) 15 - 1) [0x48::u8, 0x69, 0x21])
           @ [0x0A, 0x0D]))"
    by auto
  have "map of_char ''Write Echo: '' @ map ucast (take (min (length [0x48::u8, 0x69, 0x21]) 15 - 1) [0x48::u8, 0x69, 0x21])
      @ [0x0A, 0x0D] = (map of_char ''Write Echo: Hi'' @ [0x0A, 0x0D] :: u32 list)"
    by simp
  with w'(1) emits_wrs[OF w'(2)] show ?thesis by (simp only: map_append) auto
qed

end
