(* ===== verification/LogFlags.thy ===== *)
theory LogFlags
  imports LogPrintf
begin

text \<open>
  What the logging build prints (\<open>HAL/inc/sys/alt_log_printf.h\<close>): the flags of every kind of message,
  chosen by the level \<open>ALT_LOG_FLAGS\<close> (0 when it is not defined) unless they are set one by one. \<open>jtag\<close>
  tells whether the system has a JTAG UART.
\<close>

definition ALT_LOG_BOOT_ON_FLAG_SETTING :: "int \<Rightarrow> nat" where
  "ALT_LOG_BOOT_ON_FLAG_SETTING flags =
     (if flags = 1 then 1 else if flags = 2 then 1 else if flags = 3 then 1 else if flags = - 1 then 0 else 1)"

definition ALT_LOG_SYS_CLK_ON_FLAG_SETTING :: "int \<Rightarrow> nat" where
  "ALT_LOG_SYS_CLK_ON_FLAG_SETTING flags =
     (if flags = 1 then 1 else if flags = 2 then 1 else if flags = 3 then 1 else if flags = - 1 then 0 else 0)"

definition ALT_LOG_WRITE_ON_FLAG_SETTING :: "int \<Rightarrow> nat" where
  "ALT_LOG_WRITE_ON_FLAG_SETTING flags =
     (if flags = 1 then 0 else if flags = 2 then 1 else if flags = 3 then 1 else if flags = - 1 then 0 else 0)"

definition ALT_LOG_JTAG_UART_ALARM_ON_FLAG_SETTING :: "bool \<Rightarrow> int \<Rightarrow> nat" where
  "ALT_LOG_JTAG_UART_ALARM_ON_FLAG_SETTING jtag flags =
     (if \<not> jtag then 0 else if flags = 1 then 0 else if flags = 2 then 1 else if flags = 3 then 1
      else if flags = - 1 then 0 else 0)"

definition ALT_LOG_JTAG_UART_STARTUP_INFO_ON_FLAG_SETTING :: "bool \<Rightarrow> int \<Rightarrow> nat" where
  "ALT_LOG_JTAG_UART_STARTUP_INFO_ON_FLAG_SETTING jtag flags =
     (if \<not> jtag then 0 else if flags = 1 then 1 else if flags = 2 then 1 else if flags = 3 then 1
      else if flags = - 1 then 0 else 0)"

definition ALT_LOG_JTAG_UART_ISR_ON_FLAG_SETTING :: "bool \<Rightarrow> int \<Rightarrow> nat" where
  "ALT_LOG_JTAG_UART_ISR_ON_FLAG_SETTING jtag flags =
     (if \<not> jtag then 0 else if flags = 1 then 0 else if flags = 2 then 0 else if flags = 3 then 1
      else if flags = - 1 then 0 else 0)"

text \<open>The flags as the image has them, with the counts of the system clock's messages at 0.\<close>

definition log_flags_start :: "bool \<Rightarrow> int \<Rightarrow> log_world \<Rightarrow> log_world" where
  "log_flags_start jtag flags w =
     w\<lparr>alt_log_boot_on_flag := of_nat (ALT_LOG_BOOT_ON_FLAG_SETTING flags),
       alt_log_write_on_flag := of_nat (ALT_LOG_WRITE_ON_FLAG_SETTING flags),
       alt_log_sys_clk_on_flag := of_nat (ALT_LOG_SYS_CLK_ON_FLAG_SETTING flags),
       alt_log_jtag_uart_alarm_on_flag := of_nat (ALT_LOG_JTAG_UART_ALARM_ON_FLAG_SETTING jtag flags),
       alt_log_jtag_uart_isr_on_flag := of_nat (ALT_LOG_JTAG_UART_ISR_ON_FLAG_SETTING jtag flags),
       alt_log_jtag_uart_startup_info_on_flag := of_nat (ALT_LOG_JTAG_UART_STARTUP_INFO_ON_FLAG_SETTING jtag flags),
       alt_log_sys_clk_count := 0, alt_system_clock_in_sec := 0\<rparr>"

lemmas log_flag_defs = ALT_LOG_BOOT_ON_FLAG_SETTING_def ALT_LOG_SYS_CLK_ON_FLAG_SETTING_def
  ALT_LOG_WRITE_ON_FLAG_SETTING_def ALT_LOG_JTAG_UART_ALARM_ON_FLAG_SETTING_def
  ALT_LOG_JTAG_UART_STARTUP_INFO_ON_FLAG_SETTING_def ALT_LOG_JTAG_UART_ISR_ON_FLAG_SETTING_def

text \<open>A higher level, of those the header describes, only turns more messages on.\<close>

lemma log_levels_grow:
  assumes "- 1 \<le> a" "a \<le> b" "b \<le> 3"
  shows "ALT_LOG_BOOT_ON_FLAG_SETTING a \<le> ALT_LOG_BOOT_ON_FLAG_SETTING b"
    "ALT_LOG_SYS_CLK_ON_FLAG_SETTING a \<le> ALT_LOG_SYS_CLK_ON_FLAG_SETTING b"
    "ALT_LOG_WRITE_ON_FLAG_SETTING a \<le> ALT_LOG_WRITE_ON_FLAG_SETTING b"
    "ALT_LOG_JTAG_UART_ALARM_ON_FLAG_SETTING j a \<le> ALT_LOG_JTAG_UART_ALARM_ON_FLAG_SETTING j b"
    "ALT_LOG_JTAG_UART_STARTUP_INFO_ON_FLAG_SETTING j a \<le> ALT_LOG_JTAG_UART_STARTUP_INFO_ON_FLAG_SETTING j b"
    "ALT_LOG_JTAG_UART_ISR_ON_FLAG_SETTING j a \<le> ALT_LOG_JTAG_UART_ISR_ON_FLAG_SETTING j b"
  using assms by (auto simp: log_flag_defs)

text \<open>Above the highest level only the boot messages are left.\<close>

lemma log_levels_end:
  "3 < flags \<Longrightarrow> log_flags_start jtag flags w = log_flags_start jtag 0 w"
  by (simp add: log_flags_start_def log_flag_defs)

text \<open>In silent mode a boot message prints nothing.\<close>

lemma silent_boot: "ALT_LOG_PRINT_BOOT hw port fmt args (log_flags_start jtag (- 1) w) = Some (log_flags_start jtag (- 1) w)"
  by (simp add: ALT_LOG_PRINT_BOOT_def log_flags_start_def log_flag_defs)

end
