(* ===== verification/Heap.thy ===== *)
theory Heap
  imports Clock
begin

text \<open>
  The heap (\<open>HAL/src/alt_sbrk.c\<close>): blocks are taken from below the limit the linker sets, and never given
  back. The build defines neither \<open>ALT_MAX_HEAP_BYTES\<close> nor \<open>ALT_STACK_CHECK\<close>.
\<close>

section \<open>sbrk\<close>

record heap_state = clock_state +
  heap_end :: u32

text \<open>\<open>limit\<close> is \<open>__alt_heap_limit\<close>. The increment is a signed number in a word.\<close>

definition alt_sbrk :: "u32 \<Rightarrow> u32 \<Rightarrow> 'a heap_state_scheme \<Rightarrow> u32 \<times> 'a heap_state_scheme" where
  "alt_sbrk limit incr w =
     (let (context0, w1) = alt_irq_disable_all w;
          w2 = w1\<lparr>heap_end := (heap_end w1 + 3) AND NOT 3\<rparr>
      in if heap_end w2 + incr > limit then (- 1, alt_irq_enable_all context0 w2)
         else (let prev_heap_end = heap_end w2;
                   w3 = w2\<lparr>heap_end := heap_end w2 + incr\<rparr>
               in (prev_heap_end, alt_irq_enable_all context0 w3)))"

lemma alt_sbrk_eq:
  "alt_sbrk limit incr w =
     (let e = (heap_end w + 3) AND NOT 3
      in if e + incr > limit then (- 1, w\<lparr>heap_end := e\<rparr>) else (e, w\<lparr>heap_end := e + incr\<rparr>))"
  by (cases w) (simp add: alt_sbrk_def alt_irq_disable_all_def alt_irq_enable_all_def Let_def mstatus_restored)

section \<open>Allocators that only grow\<close>

text \<open>The blocks that a sequence of requests gets, with the requests.\<close>

fun alloc_run :: "('n \<Rightarrow> 's \<Rightarrow> nat option \<times> 's) \<Rightarrow> 'n list \<Rightarrow> 's \<Rightarrow> (nat \<times> 'n) list \<times> 's" where
  "alloc_run alloc [] s = ([], s)"
| "alloc_run alloc (n # ns) s =
     (let (r, s1) = alloc n s; (bs, s2) = alloc_run alloc ns s1
      in (case r of None \<Rightarrow> bs | Some p \<Rightarrow> (p, n) # bs, s2))"

text \<open>
  The contract of such an allocator: everything below the frontier is taken; a block lies between the
  old frontier and the new one, below the top.
\<close>

locale bump_allocator =
  fixes alloc :: "'n \<Rightarrow> 's \<Rightarrow> nat option \<times> 's"
    and frontier :: "'s \<Rightarrow> nat"
    and extent :: "'n \<Rightarrow> nat"
    and top :: nat
    and good :: "'n \<Rightarrow> bool"
  assumes alloc_top: "good n \<Longrightarrow> frontier s \<le> top \<Longrightarrow> frontier (snd (alloc n s)) \<le> top"
    and alloc_mono: "good n \<Longrightarrow> frontier s \<le> top \<Longrightarrow> frontier s \<le> frontier (snd (alloc n s))"
    and alloc_block: "good n \<Longrightarrow> frontier s \<le> top \<Longrightarrow> fst (alloc n s) = Some p \<Longrightarrow>
      frontier s \<le> p \<and> p + extent n \<le> frontier (snd (alloc n s))"
begin

lemma run_bounds:
  "\<forall>n\<in>set ns. good n \<Longrightarrow> frontier s \<le> top \<Longrightarrow>
   frontier s \<le> frontier (snd (alloc_run alloc ns s)) \<and> frontier (snd (alloc_run alloc ns s)) \<le> top
   \<and> (\<forall>(p, n)\<in>set (fst (alloc_run alloc ns s)). frontier s \<le> p \<and> p + extent n \<le> frontier (snd (alloc_run alloc ns s)))"
proof (induction ns arbitrary: s)
  case Nil
  then show ?case by simp
next
  case (Cons n ns)
  obtain r s1 where a: "alloc n s = (r, s1)" by (cases "alloc n s")
  obtain bs s2 where b: "alloc_run alloc ns s1 = (bs, s2)" by (cases "alloc_run alloc ns s1")
  have s1: "frontier s \<le> frontier s1" "frontier s1 \<le> top"
    using alloc_mono[of n s] alloc_top[of n s] Cons.prems a by auto
  note IH = Cons.IH[of s1]
  have r: "\<And>p. r = Some p \<Longrightarrow> frontier s \<le> p \<and> p + extent n \<le> frontier s1"
    using alloc_block[of n s] Cons.prems a by auto
  show ?case using IH s1 r Cons.prems(1) by (fastforce simp: a b split: option.splits)
qed

lemma run_disjoint:
  "\<forall>n\<in>set ns. good n \<Longrightarrow> frontier s \<le> top \<Longrightarrow>
   sorted_wrt (\<lambda>(p, n) (q, m). p + extent n \<le> q) (fst (alloc_run alloc ns s))"
proof (induction ns arbitrary: s)
  case Nil
  then show ?case by simp
next
  case (Cons n ns)
  obtain r s1 where a: "alloc n s = (r, s1)" by (cases "alloc n s")
  obtain bs s2 where b: "alloc_run alloc ns s1 = (bs, s2)" by (cases "alloc_run alloc ns s1")
  have s1: "frontier s1 \<le> top" using alloc_top[of n s] Cons.prems a by auto
  have r: "\<And>p. r = Some p \<Longrightarrow> p + extent n \<le> frontier s1"
    using alloc_block[of n s] Cons.prems a by auto
  show ?case
    using Cons.IH[of s1] run_bounds[of ns s1] s1 r Cons.prems(1)
    by (fastforce simp: a b split: option.splits)
qed

end

section \<open>sbrk is one\<close>

definition sbrk_block :: "u32 \<Rightarrow> u32 \<Rightarrow> 'a heap_state_scheme \<Rightarrow> nat option \<times> 'a heap_state_scheme" where
  "sbrk_block limit incr w =
     (let (p, w1) = alt_sbrk limit incr w in (if p = - 1 then None else Some (unat p), w1))"

lemma unat_and_not_3: "unat ((x::u32) AND NOT 3) = unat x div 4 * 4"
proof -
  have "(3::u32) = mask 2" by (simp add: mask_eq_exp_minus_1)
  moreover have "x AND NOT (mask 2) = push_bit 2 (drop_bit 2 x)"
  proof (rule bit_eqI)
    fix n
    have "2 \<le> n \<Longrightarrow> Suc (Suc (n - 2)) = n" by arith
    then show "bit (x AND NOT (mask 2)) n = bit (push_bit 2 (drop_bit 2 x)) n"
      by (auto simp: bit_simps not_less dest: bit_imp_le_length)
  qed
  moreover have "push_bit 2 (drop_bit 2 x) = x - take_bit 2 x"
    using bits_ident[of 2 x] by (simp add: eq_diff_eq)
  moreover have t: "unat (take_bit 2 x) = unat x mod 4"
    unfolding unsigned_take_bit_eq by (simp add: take_bit_eq_mod)
  moreover have "unat (x - take_bit 2 x) = unat x - unat (take_bit 2 x)"
    by (rule unat_sub) (simp add: word_le_nat_alt t)
  ultimately show ?thesis by (simp add: minus_mod_eq_div_mult)
qed

lemma word_align_up: "unat (e::u32) \<le> 2 ^ 31 \<Longrightarrow> unat ((e + 3) AND NOT 3) = (unat e + 3) div 4 * 4"
  unfolding unat_and_not_3 by (simp add: unat_word_ariths)

text \<open>One call, for a request that is not negative and a heap in the lower half of the memory.\<close>

lemma sbrk_result:
  fixes w :: "'a heap_state_scheme"
  assumes "unat limit \<le> 2 ^ 31" "unat (heap_end w) \<le> unat limit" "0 \<le> sint incr"
  defines "e \<equiv> (unat (heap_end w) + 3) div 4 * 4"
  shows "alt_sbrk limit incr w =
    (if e + unat incr > unat limit then (- 1, w\<lparr>heap_end := of_nat e\<rparr>)
     else (of_nat e, w\<lparr>heap_end := of_nat (e + unat incr)\<rparr>))"
proof -
  let ?e = "(heap_end w + 3) AND NOT 3"
  have e: "unat ?e = e" unfolding e_def using assms(1,2) word_align_up[of "heap_end w"] by simp
  have e4: "e \<le> 2 ^ 31" using assms(1,2) unfolding e_def by simp
  have i: "unat incr < 2 ^ 31" using assms(3) uint_bound_32[of incr] by (auto simp: sint_unat split: if_splits)
  have "unat (?e + incr) = e + unat incr" using e e4 i by (simp add: unat_word_ariths)
  moreover have "?e = of_nat e" unfolding e[symmetric] by simp
  ultimately show ?thesis
    by (simp add: alt_sbrk_eq Let_def word_less_nat_alt e)
qed

lemma sbrk_block_result:
  fixes w :: "'a heap_state_scheme"
  assumes "unat limit \<le> 2 ^ 31" "unat (heap_end w) \<le> unat limit" "0 \<le> sint incr"
  defines "e \<equiv> (unat (heap_end w) + 3) div 4 * 4"
  shows "sbrk_block limit incr w =
    (if e + unat incr > unat limit then (None, w\<lparr>heap_end := of_nat e\<rparr>)
     else (Some e, w\<lparr>heap_end := of_nat (e + unat incr)\<rparr>))"
proof -
  have "e \<le> 2 ^ 31" using assms(1,2) unfolding e_def by simp
  then have "unat (of_nat e :: u32) = e" by (intro unat_of_nat_32) simp
  moreover have "unat (- 1 :: u32) = 2 ^ 32 - 1" by (simp add: unsigned_minus_1_eq_mask mask_eq_exp_minus_1)
  ultimately have "(of_nat e :: u32) \<noteq> - 1" using \<open>e \<le> 2 ^ 31\<close> by (auto simp: word_unat_eq_iff)
  with \<open>unat (of_nat e :: u32) = e\<close> show ?thesis
    unfolding sbrk_block_def sbrk_result[OF assms(1,2,3), folded e_def] by auto
qed

text \<open>The linker sets the limit to the end of the memory, which is aligned.\<close>

definition good_incr :: "u32 \<Rightarrow> u32 \<Rightarrow> bool" where
  "good_incr limit n \<longleftrightarrow> 0 \<le> sint n \<and> unat limit \<le> 2 ^ 31 \<and> 4 dvd unat limit"

lemma sbrk_frontier:
  fixes s :: "'a heap_state_scheme"
  assumes g: "good_incr limit n" and s: "unat (heap_end s) \<le> unat limit"
  shows "unat (heap_end (snd (sbrk_block limit n s))) \<le> unat limit"
    and "unat (heap_end s) \<le> unat (heap_end (snd (sbrk_block limit n s)))"
    and "fst (sbrk_block limit n s) = Some p \<Longrightarrow>
      unat (heap_end s) \<le> p \<and> p + unat n \<le> unat (heap_end (snd (sbrk_block limit n s))) \<and> 4 dvd p"
proof -
  from g have n: "0 \<le> sint n" "unat limit \<le> 2 ^ 31" "4 dvd unat limit" by (auto simp: good_incr_def)
  define e where "e = (unat (heap_end s) + 3) div 4 * 4"
  have e: "e \<le> unat limit" "unat (heap_end s) \<le> e" "4 dvd e" using s n(3) unfolding e_def by presburger+
  have u: "unat (of_nat e :: u32) = e" using e(1) n(2) by (intro unat_of_nat_32) simp
  have v: "e + unat n \<le> unat limit \<Longrightarrow> unat (of_nat (e + unat n) :: u32) = e + unat n"
    using n(2) by (intro unat_of_nat_32) simp
  note r = sbrk_block_result[OF n(2) s n(1), folded e_def]
  show "unat (heap_end (snd (sbrk_block limit n s))) \<le> unat limit"
    unfolding r using e(1) u v by (auto simp del: of_nat_add)
  show "unat (heap_end s) \<le> unat (heap_end (snd (sbrk_block limit n s)))"
    unfolding r using e(2) u v by (auto simp del: of_nat_add)
  show "fst (sbrk_block limit n s) = Some p \<Longrightarrow>
      unat (heap_end s) \<le> p \<and> p + unat n \<le> unat (heap_end (snd (sbrk_block limit n s))) \<and> 4 dvd p"
    unfolding r using e u v by (auto simp del: of_nat_add split: if_splits)
qed

interpretation sbrk_heap: bump_allocator
  "sbrk_block (limit :: u32) :: u32 \<Rightarrow> 'a heap_state_scheme \<Rightarrow> _" "\<lambda>w. unat (heap_end w)" unat "unat limit" "good_incr limit"
proof (unfold_locales, goal_cases)
  case (1 n s)
  then show ?case using sbrk_frontier by blast
next
  case (2 n s)
  then show ?case using sbrk_frontier by blast
next
  case (3 n s p)
  then show ?case using sbrk_frontier by blast
qed

lemma run_aligned:
  fixes w :: "'a heap_state_scheme"
  shows "\<forall>n\<in>set ns. good_incr limit n \<Longrightarrow> unat (heap_end w) \<le> unat limit \<Longrightarrow>
   (\<forall>(p, n)\<in>set (fst (alloc_run (sbrk_block limit) ns w)). 4 dvd p)
   \<and> snd (alloc_run (sbrk_block limit) ns w) = w\<lparr>heap_end := heap_end (snd (alloc_run (sbrk_block limit) ns w))\<rparr>"
proof (induction ns arbitrary: w)
  case Nil
  then show ?case by simp
next
  case (Cons n ns)
  obtain r s1 where a: "sbrk_block limit n w = (r, s1)" by (cases "sbrk_block limit n w")
  obtain bs s2 where b: "alloc_run (sbrk_block limit) ns s1 = (bs, s2)" by (cases "alloc_run (sbrk_block limit) ns s1")
  have g: "good_incr limit n" using Cons.prems by simp
  have s1: "unat (heap_end s1) \<le> unat limit" "\<And>p. r = Some p \<Longrightarrow> 4 dvd p"
    using sbrk_frontier[OF g Cons.prems(2)] a by auto
  have f: "s1 = w\<lparr>heap_end := heap_end s1\<rparr>"
    using sbrk_block_result[of limit w n] g Cons.prems(2) a by (auto simp: good_incr_def split: if_splits)
  have "s2 = s1\<lparr>heap_end := heap_end s2\<rparr>" "\<forall>(p, n)\<in>set bs. 4 dvd p"
    using Cons.IH[of s1] Cons.prems(1) s1(1) b by auto
  moreover have "s1\<lparr>heap_end := heap_end s2\<rparr> = w\<lparr>heap_end := heap_end s2\<rparr>" by (subst f) simp
  ultimately show ?case using s1(2) by (auto simp: a b split: option.splits)
qed

text \<open>
  C31: Over any sequence of requests of non-negative size, the blocks sbrk hands out are aligned, lie
  between the old heap end and the limit and do not overlap, in the order of the requests; a request is
  refused exactly when it does not fit, and the interrupt state comes back as it was.
\<close>

theorem sbrk_blocks:
  fixes w :: "'a heap_state_scheme"
  assumes "unat limit \<le> 2 ^ 31" "4 dvd unat limit" "unat (heap_end w) \<le> unat limit" "\<forall>n\<in>set ns. 0 \<le> sint n"
    and run: "alloc_run (sbrk_block limit) ns w = (bs, w')"
  shows "sorted_wrt (\<lambda>(p, n) (q, m). p + unat n \<le> q) bs
    \<and> (\<forall>(p, n)\<in>set bs. 4 dvd p \<and> unat (heap_end w) \<le> p \<and> p + unat n \<le> unat limit)
    \<and> w' = w\<lparr>heap_end := heap_end w'\<rparr>
    \<and> (\<forall>n. 0 \<le> sint n \<longrightarrow> (fst (sbrk_block limit n w') = None \<longleftrightarrow> unat limit < (unat (heap_end w') + 3) div 4 * 4 + unat n))"
proof -
  have g: "\<forall>n\<in>set ns. good_incr limit n" using assms(1,2,4) by (simp add: good_incr_def)
  have b: "unat (heap_end w') \<le> unat limit"
    "\<forall>(p, n)\<in>set bs. unat (heap_end w) \<le> p \<and> p + unat n \<le> unat (heap_end w')"
    using sbrk_heap.run_bounds[OF g assms(3)] run by auto
  have "\<forall>(p, n)\<in>set bs. 4 dvd p" "w' = w\<lparr>heap_end := heap_end w'\<rparr>"
    using run_aligned[OF g assms(3)] run by auto
  moreover have "sorted_wrt (\<lambda>(p, n) (q, m). p + unat n \<le> q) bs"
    using sbrk_heap.run_disjoint[OF g assms(3)] run by simp
  moreover have "0 \<le> sint n \<longrightarrow> (fst (sbrk_block limit n w') = None \<longleftrightarrow> unat limit < (unat (heap_end w') + 3) div 4 * 4 + unat n)" for n
    using sbrk_block_result[OF assms(1) b(1), of n] by simp
  ultimately show ?thesis using b by fastforce
qed

text \<open>The heap of this board, when the program ends at \<open>0x1F001\<close>.\<close>

definition boot_heap :: heap_state where
  "boot_heap = clock_state.extend boot_clock \<lparr>heap_end = 0x1F001\<rparr>"

theorem sbrk_blocks_witness:
  "alloc_run (sbrk_block 0x20000) [10, 0x2000, 20] boot_heap = ([(0x1F004, 10), (0x1F010, 20)], boot_heap\<lparr>heap_end := 0x1F024\<rparr>)
   \<and> sorted_wrt (\<lambda>(p, n) (q, m). p + unat n \<le> q) [(0x1F004, 10 :: u32), (0x1F010, 20)]"
proof -
  have h: "heap_end boot_heap = 0x1F001" by (simp add: boot_heap_def clock_state.defs)
  have r: "alloc_run (sbrk_block 0x20000) [10, 0x2000, 20] boot_heap = ([(0x1F004, 10), (0x1F010, 20)], boot_heap\<lparr>heap_end := 0x1F024\<rparr>)"
    by (simp add: sbrk_block_def alt_sbrk_eq h Let_def)
  have "\<forall>n\<in>set [10, 0x2000, 20 :: u32]. 0 \<le> sint n" by (simp add: sint_unat)
  from sbrk_blocks[OF _ _ _ this r] h r show ?thesis by simp
qed

end
