(* ===== verification/Profile.thy ===== *)
theory Profile
  imports Heap
begin

text \<open>
  The profiler (\<open>HAL/src/alt_gmon.c\<close> and the search that leads to it in \<open>HAL/src/alt_mcount.S\<close>): the
  call graph, kept in records taken from the heap, and the histogram of program counters. Each field of
  the two kinds of records is a map from their addresses.
\<close>

section \<open>State\<close>

record prof_state = heap_state +
  pcsample_need_init :: bool
  fn_head :: "u32 \<Rightarrow> u32"
  fn_next :: "u32 \<Rightarrow> u32"
  fn_self :: "u32 \<Rightarrow> u32"
  fn_arcs :: "u32 \<Rightarrow> u32"
  arc_next :: "u32 \<Rightarrow> u32"
  arc_from :: "u32 \<Rightarrow> u32"
  arc_count :: "u32 \<Rightarrow> u32"
  slab_ptr :: u32
  slab_size :: u32
  s_pcsamples :: u32
  samples :: "u32 \<Rightarrow> u16"
  gmon_profile_data :: u32
  gmon_profile_rate :: u32

text \<open>What the linker fixes: the limit of the heap, the text section, the alarm and its function.\<close>

record prof_cfg =
  heap_limit :: u32
  s_low_pc :: u32
  s_high_pc :: u32
  pcsample_alarm :: u32
  pcsample_fn :: u32

definition PCSAMPLE_BYTES_PER_BUCKET :: u32 where "PCSAMPLE_BYTES_PER_BUCKET = 32"

definition HASH_BUCKETS :: u32 where "HASH_BUCKETS = 64"

definition MCOUNT_SLAB_INCREMENT :: u32 where "MCOUNT_SLAB_INCREMENT = 1020"

text \<open>The sizes of \<open>struct mcount_fn_entry\<close> and \<open>struct mcount_fn_arc\<close>.\<close>

definition MCOUNT_RECORD_SIZE :: u32 where "MCOUNT_RECORD_SIZE = 12"

section \<open>Sampling\<close>

definition pcsamples_size :: "prof_cfg \<Rightarrow> u32" where
  "pcsamples_size cfg = (s_high_pc cfg - s_low_pc cfg) div PCSAMPLE_BYTES_PER_BUCKET"

definition niosv_pcsample_init :: "prof_cfg \<Rightarrow> prof_state \<Rightarrow> bool \<times> prof_state" where
  "niosv_pcsample_init cfg w =
     (let prof_rate = alt_ticks_per_second w
      in if prof_rate = 0 then (True, w)
         else (let bytes = pcsamples_size cfg * 2;
                   (p, w1) = alt_sbrk (heap_limit cfg) bytes w;
                   w2 = w1\<lparr>s_pcsamples := p\<rparr>
               in (False,
                   if p \<noteq> 0 then
                     snd (alt_alarm_start (pcsample_alarm cfg) 1 (pcsample_fn cfg) 0
                       (w2\<lparr>samples := (\<lambda>a. if a - p < bytes then 0 else samples w2 a),
                           gmon_profile_data := p, gmon_profile_rate := prof_rate\<rparr>))
                   else w2)))"

text \<open>\<open>pc\<close> is the exception return address.\<close>

definition niosv_pcsample :: "prof_cfg \<Rightarrow> u32 \<Rightarrow> prof_state \<Rightarrow> u32 \<times> prof_state" where
  "niosv_pcsample cfg pc w =
     (if s_low_pc cfg \<le> pc \<and> pc < s_high_pc cfg \<and> s_pcsamples w \<noteq> 0 then
        (let bucket = (pc - s_low_pc cfg) div PCSAMPLE_BYTES_PER_BUCKET;
             a = s_pcsamples w + 2 * bucket
         in (1, w\<lparr>samples := (samples w)(a := samples w a + 1)\<rparr>))
      else (1, w))"

section \<open>The call graph\<close>

definition mcount_allocate :: "prof_cfg \<Rightarrow> u32 \<Rightarrow> prof_state \<Rightarrow> u32 \<times> prof_state" where
  "mcount_allocate cfg n w =
     (let w1 = (if n > slab_size w then
                  (let (p, w0) = alt_sbrk (heap_limit cfg) MCOUNT_SLAB_INCREMENT w
                   in w0\<lparr>slab_ptr := p, slab_size := MCOUNT_SLAB_INCREMENT\<rparr>)
                else w)
      in (slab_ptr w1, w1\<lparr>slab_ptr := slab_ptr w1 + n, slab_size := slab_size w1 - n\<rparr>))"

text \<open>A new function at the head of its bucket, and a new arc at the head of its function.\<close>

definition new_fn_entry :: "prof_cfg \<Rightarrow> u32 \<Rightarrow> u32 \<Rightarrow> prof_state \<Rightarrow> u32 \<times> prof_state" where
  "new_fn_entry cfg self_pc b w =
     (let (f, w1) = mcount_allocate cfg MCOUNT_RECORD_SIZE w;
          w2 = w1\<lparr>fn_self := (fn_self w1)(f := self_pc), fn_arcs := (fn_arcs w1)(f := 0)\<rparr>;
          w3 = w2\<lparr>fn_next := (fn_next w2)(f := fn_head w2 b)\<rparr>
      in (f, w3\<lparr>fn_head := (fn_head w3)(b := f)\<rparr>))"

definition new_arc :: "prof_cfg \<Rightarrow> u32 \<Rightarrow> u32 \<Rightarrow> prof_state \<Rightarrow> prof_state" where
  "new_arc cfg from_pc f w =
     (let (a, w1) = mcount_allocate cfg MCOUNT_RECORD_SIZE w;
          w2 = w1\<lparr>arc_from := (arc_from w1)(a := from_pc), arc_count := (arc_count w1)(a := 1)\<rparr>;
          w3 = w2\<lparr>arc_next := (arc_next w2)(a := (if fn_arcs w2 f = 0 then 0 else fn_arcs w2 f))\<rparr>
      in w3\<lparr>fn_arcs := (fn_arcs w3)(f := a)\<rparr>)"

text \<open>\<open>b\<close> is the index of the bucket \<open>fn_head\<close> points to; 0 is the null pointer.\<close>

definition mcount_record :: "prof_cfg \<Rightarrow> u32 \<Rightarrow> u32 \<Rightarrow> u32 \<Rightarrow> u32 \<Rightarrow> prof_state \<Rightarrow> prof_state" where
  "mcount_record cfg self_pc from_pc fn_entry b w =
     (let w1 = (if pcsample_need_init w then
                  (let (r, w0) = niosv_pcsample_init cfg (w\<lparr>pcsample_need_init := False\<rparr>)
                   in w0\<lparr>pcsample_need_init := r\<rparr>)
                else w);
          (context0, w2) = alt_irq_disable_all w1;
          (f, w3) = (if fn_entry = 0 then new_fn_entry cfg self_pc b w2 else (fn_entry, w2))
      in alt_irq_enable_all context0 (new_arc cfg from_pc f w3))"

partial_function (option) find_fn :: "prof_state \<Rightarrow> u32 \<Rightarrow> u32 \<Rightarrow> u32 option" where
  "find_fn w f self_pc =
     (if f = 0 then Some 0 else if fn_self w f = self_pc then Some f else find_fn w (fn_next w f) self_pc)"

partial_function (option) find_arc :: "prof_state \<Rightarrow> u32 \<Rightarrow> u32 \<Rightarrow> u32 option" where
  "find_arc w a from_pc =
     (if arc_from w a = from_pc then Some a
      else if arc_next w a \<noteq> 0 then find_arc w (arc_next w a) from_pc else Some 0)"

definition bucket_of :: "u32 \<Rightarrow> u32" where
  "bucket_of self_pc = drop_bit 5 self_pc AND (HASH_BUCKETS - 1)"

definition mcount :: "prof_cfg \<Rightarrow> u32 \<Rightarrow> u32 \<Rightarrow> prof_state \<Rightarrow> prof_state option" where
  "mcount cfg self_pc from_pc w =
     (case find_fn w (fn_head w (bucket_of self_pc)) self_pc of
        None \<Rightarrow> None
      | Some f \<Rightarrow>
          if f = 0 then Some (mcount_record cfg self_pc from_pc 0 (bucket_of self_pc) w)
          else (case find_arc w (fn_arcs w f) from_pc of
                  None \<Rightarrow> None
                | Some a \<Rightarrow>
                    if a = 0 then Some (mcount_record cfg self_pc from_pc f (bucket_of self_pc) w)
                    else Some (w\<lparr>arc_count := (arc_count w)(a := arc_count w a + 1)\<rparr>)))"

fun mcounts :: "prof_cfg \<Rightarrow> (u32 \<times> u32) list \<Rightarrow> prof_state \<Rightarrow> prof_state option" where
  "mcounts cfg [] w = Some w"
| "mcounts cfg ((self_pc, from_pc) # calls) w = Option.bind (mcount cfg self_pc from_pc w) (mcounts cfg calls)"

end
