(* ===== verification/ProfileProps.thy ===== *)
theory ProfileProps
  imports Profile
begin

text \<open>
  The call graph in memory refines an abstract one, so that after any sequence of instrumented calls the
  count of every arc is the number of its calls; the histogram can be written one element too far.
\<close>

section \<open>The abstract call graph\<close>

text \<open>For each bucket the functions with their arcs, newest first.\<close>

type_synonym call_graph = "u32 \<Rightarrow> (u32 \<times> (u32 \<times> u32) list) list"

definition add_arc :: "u32 \<Rightarrow> (u32 \<times> u32) list \<Rightarrow> (u32 \<times> u32) list" where
  "add_arc from_pc L =
     (if from_pc \<in> fst ` set L then map (\<lambda>(p, c). (p, if p = from_pc then c + 1 else c)) L else (from_pc, 1) # L)"

definition add_fn :: "u32 \<Rightarrow> u32 \<Rightarrow> (u32 \<times> (u32 \<times> u32) list) list \<Rightarrow> (u32 \<times> (u32 \<times> u32) list) list" where
  "add_fn self_pc from_pc B =
     (if self_pc \<in> fst ` set B then map (\<lambda>(s, L). (s, if s = self_pc then add_arc from_pc L else L)) B
      else (self_pc, [(from_pc, 1)]) # B)"

definition add_call :: "u32 \<Rightarrow> u32 \<Rightarrow> call_graph \<Rightarrow> call_graph" where
  "add_call self_pc from_pc G = G(bucket_of self_pc := add_fn self_pc from_pc (G (bucket_of self_pc)))"

definition count_of :: "call_graph \<Rightarrow> u32 \<Rightarrow> u32 \<Rightarrow> u32" where
  "count_of G self_pc from_pc =
     (case map_of (G (bucket_of self_pc)) self_pc of
        None \<Rightarrow> 0
      | Some L \<Rightarrow> (case map_of L from_pc of None \<Rightarrow> 0 | Some c \<Rightarrow> c))"

lemma map_of_upd_values:
  "map_of (map (\<lambda>(p, c). (p, if p = k then f c else c)) L) q
     = (if q = k then map_option f (map_of L q) else map_of L q)"
  by (induction L) auto

lemma key_map_of: "k \<in> fst ` set L \<longleftrightarrow> map_of L k \<noteq> None"
  by (simp add: map_of_eq_None_iff)

lemma count_add_call:
  "count_of (add_call self_pc from_pc G) s f = count_of G s f + (if s = self_pc \<and> f = from_pc then 1 else 0)"
proof -
  have a: "(case map_of (add_arc from_pc L) q of None \<Rightarrow> 0 | Some c \<Rightarrow> c)
      = (case map_of L q of None \<Rightarrow> 0 | Some c \<Rightarrow> c) + (if q = from_pc then 1 else 0)" for L q
    by (auto simp: add_arc_def map_of_upd_values key_map_of split: option.splits)
  have upd: "map_of (add_fn self_pc from_pc B) q
      = (if q = self_pc then Some (case map_of B q of None \<Rightarrow> [(from_pc, 1)] | Some L \<Rightarrow> add_arc from_pc L)
         else map_of B q)" for B q
    by (auto simp: add_fn_def map_of_upd_values key_map_of split: option.splits)
  show ?thesis
    by (cases "map_of (G (bucket_of self_pc)) self_pc") (auto simp: count_of_def add_call_def upd a)
qed

section \<open>Lists in memory\<close>

fun linked :: "(u32 \<Rightarrow> u32) \<Rightarrow> u32 \<Rightarrow> u32 list \<Rightarrow> bool" where
  "linked nx a [] \<longleftrightarrow> a = 0"
| "linked nx a (x # xs) \<longleftrightarrow> a = x \<and> x \<noteq> 0 \<and> linked nx (nx x) xs"

lemma linked_cong: "\<forall>x\<in>set xs. nx' x = nx x \<Longrightarrow> linked nx' a xs = linked nx a xs"
  by (induction xs arbitrary: a) auto

lemma linked_nonzero: "linked nx a xs \<Longrightarrow> x \<in> set xs \<Longrightarrow> x \<noteq> 0"
  by (induction xs arbitrary: a) auto

lemma linked_0: "linked nx 0 xs \<longleftrightarrow> xs = []"
  by (cases xs) auto

lemma find_fn_linked:
  "linked (fn_next w) a xs \<Longrightarrow>
   find_fn w a s = Some (case find (\<lambda>f. fn_self w f = s) xs of None \<Rightarrow> 0 | Some f \<Rightarrow> f)"
proof (induction xs arbitrary: a)
  case Nil
  then show ?case by (subst find_fn.simps) simp
next
  case (Cons x xs)
  then show ?case by (subst find_fn.simps) auto
qed

lemma find_arc_linked:
  "linked (arc_next w) a xs \<Longrightarrow> xs \<noteq> [] \<Longrightarrow>
   find_arc w a p = Some (case find (\<lambda>x. arc_from w x = p) xs of None \<Rightarrow> 0 | Some x \<Rightarrow> x)"
proof (induction xs arbitrary: a)
  case Nil
  then show ?case by simp
next
  case (Cons x xs)
  show ?case
  proof (cases xs)
    case Nil
    then show ?thesis using Cons.prems by (subst find_arc.simps) auto
  next
    case (Cons y ys)
    then show ?thesis using Cons.prems Cons.IH[of "arc_next w x"] by (subst find_arc.simps) auto
  qed
qed

text \<open>
  \<open>fs b\<close> are the function records of bucket \<open>b\<close>, \<open>as f\<close> the arcs of the function record \<open>f\<close>. All records
  lie below the slab pointer, and no arc record belongs to two functions.
\<close>

definition fns :: "(u32 \<Rightarrow> u32 list) \<Rightarrow> u32 set" where
  "fns fs = (\<Union>b. set (fs b))"

definition below_slab :: "prof_state \<Rightarrow> u32 \<Rightarrow> bool" where
  "below_slab w x \<longleftrightarrow> unat x + 12 \<le> unat (slab_ptr w)"

definition graph_inv :: "prof_state \<Rightarrow> (u32 \<Rightarrow> u32 list) \<Rightarrow> (u32 \<Rightarrow> u32 list) \<Rightarrow> bool" where
  "graph_inv w fs as \<longleftrightarrow>
     (\<forall>b. linked (fn_next w) (fn_head w b) (fs b) \<and> distinct (map (fn_self w) (fs b)))
     \<and> (\<forall>f\<in>fns fs. below_slab w f \<and> linked (arc_next w) (fn_arcs w f) (as f)
          \<and> distinct (map (arc_from w) (as f)) \<and> (\<forall>x\<in>set (as f). below_slab w x))
     \<and> (\<forall>f\<in>fns fs. \<forall>g\<in>fns fs. f \<noteq> g \<longrightarrow> set (as f) \<inter> set (as g) = {})
     \<and> (\<forall>b c. b \<noteq> c \<longrightarrow> set (fs b) \<inter> set (fs c) = {})"

definition arcs_at :: "prof_state \<Rightarrow> u32 list \<Rightarrow> (u32 \<times> u32) list" where
  "arcs_at w xs = map (\<lambda>x. (arc_from w x, arc_count w x)) xs"

definition graph_at :: "prof_state \<Rightarrow> (u32 \<Rightarrow> u32 list) \<Rightarrow> (u32 \<Rightarrow> u32 list) \<Rightarrow> call_graph" where
  "graph_at w fs as = (\<lambda>b. map (\<lambda>f. (fn_self w f, arcs_at w (as f))) (fs b))"

section \<open>Records from the heap\<close>

definition slab_ok :: "prof_cfg \<Rightarrow> prof_state \<Rightarrow> bool" where
  "slab_ok cfg w \<longleftrightarrow>
     unat (heap_limit cfg) \<le> 2 ^ 31 \<and> unat (slab_ptr w) + unat (slab_size w) \<le> unat (heap_end w)
     \<and> 0 < unat (heap_end w) \<and> (slab_size w \<noteq> 0 \<longrightarrow> slab_ptr w \<noteq> 0)"

lemma mcount_allocate_ok:
  assumes ok: "slab_ok cfg w" and room: "unat (heap_end w) + 1023 \<le> unat (heap_limit cfg)"
  obtains x w' where "mcount_allocate cfg MCOUNT_RECORD_SIZE w = (x, w')" "x \<noteq> 0"
    "unat (slab_ptr w) \<le> unat x" "unat x + 12 \<le> unat (slab_ptr w')" "slab_ok cfg w'"
    "unat (heap_end w') \<le> unat (heap_end w) + 1023"
    "w' = w\<lparr>heap_end := heap_end w', slab_ptr := slab_ptr w', slab_size := slab_size w'\<rparr>"
proof -
  let ?L = "unat (heap_limit cfg)"
  have l: "?L \<le> 2 ^ 31" using ok by (simp add: slab_ok_def)
  show ?thesis
  proof (cases "12 > slab_size w")
    case False
    then have s: "12 \<le> unat (slab_size w)" by (simp add: word_le_nat_alt not_less)
    let ?w = "w\<lparr>slab_ptr := slab_ptr w + 12, slab_size := slab_size w - 12\<rparr>"
    have b: "unat (slab_ptr w) + unat (slab_size w) \<le> unat (heap_end w)" using ok by (simp add: slab_ok_def)
    have p: "unat (slab_ptr w + 12) = unat (slab_ptr w) + 12"
      using s b unat_bound_32[of "heap_end w"] by (simp add: unat_word_ariths)
    have q: "unat (slab_size w - 12) = unat (slab_size w) - 12"
      using s by (subst unat_sub) (auto simp: word_le_nat_alt)
    have nz: "slab_ptr w \<noteq> 0" using ok s by (auto simp: slab_ok_def)
    have "slab_ok cfg ?w"
      using ok p q s nz unfolding slab_ok_def by (auto simp: word_unat_eq_iff)
    moreover have "mcount_allocate cfg MCOUNT_RECORD_SIZE w = (slab_ptr w, ?w)"
      using False by (simp add: mcount_allocate_def MCOUNT_RECORD_SIZE_def Let_def)
    ultimately show ?thesis using that[of "slab_ptr w" ?w] nz p by (cases w) simp
  next
    case True
    define e where "e = (unat (heap_end w) + 3) div 4 * 4"
    have e: "unat (heap_end w) \<le> e" "e \<le> unat (heap_end w) + 3" unfolding e_def by presburger+
    have h: "0 < unat (heap_end w)" using ok by (simp add: slab_ok_def)
    have "unat (1020 :: u32) = 1020" by simp
    with sbrk_result[OF l, of w 1020, folded e_def] room e
    have r: "alt_sbrk (heap_limit cfg) 1020 w = (of_nat e, w\<lparr>heap_end := of_nat (e + 1020)\<rparr>)"
      by (simp add: sint_unat)
    have u: "unat (of_nat e :: u32) = e" "unat (of_nat (e + 1020) :: u32) = e + 1020"
      "unat (of_nat e + 12 :: u32) = e + 12"
      using e room l unat_of_nat_32[of "e + 12"] by (auto simp del: of_nat_add intro!: unat_of_nat_32) (simp add: add.commute)
    let ?w = "w\<lparr>heap_end := of_nat (e + 1020), slab_ptr := of_nat e + 12, slab_size := 1008\<rparr>"
    have "mcount_allocate cfg MCOUNT_RECORD_SIZE w = (of_nat e, ?w)"
      using True r by (simp add: mcount_allocate_def MCOUNT_RECORD_SIZE_def MCOUNT_SLAB_INCREMENT_def)
    moreover have "slab_ok cfg ?w" using l h u e unfolding slab_ok_def by (simp add: word_unat_eq_iff del: of_nat_add)
    moreover have "unat (slab_ptr w) \<le> e" using ok e by (simp add: slab_ok_def)
    ultimately show ?thesis
      using that[of "of_nat e" ?w] u e h by (cases w) (auto simp: word_unat_eq_iff simp del: of_nat_add)
  qed
qed

section \<open>The steps\<close>

text \<open>What the allocator and the sampler change leaves the graph alone.\<close>

definition same_graph :: "prof_state \<Rightarrow> prof_state \<Rightarrow> bool" where
  "same_graph w w' \<longleftrightarrow>
     fn_head w' = fn_head w \<and> fn_next w' = fn_next w \<and> fn_self w' = fn_self w \<and> fn_arcs w' = fn_arcs w
     \<and> arc_next w' = arc_next w \<and> arc_from w' = arc_from w \<and> arc_count w' = arc_count w
     \<and> unat (slab_ptr w) \<le> unat (slab_ptr w') \<and> pcsample_need_init w' = pcsample_need_init w"

lemma graph_frame:
  assumes "same_graph w w'"
  shows "graph_inv w fs as \<Longrightarrow> graph_inv w' fs as" "graph_at w' fs as = graph_at w fs as"
proof -
  have below: "below_slab w y \<Longrightarrow> below_slab w' y" for y using assms by (auto simp: same_graph_def below_slab_def)
  show "graph_inv w fs as \<Longrightarrow> graph_inv w' fs as" using assms below by (auto simp: same_graph_def graph_inv_def)
  show "graph_at w' fs as = graph_at w fs as" using assms by (auto simp: same_graph_def graph_at_def arcs_at_def)
qed

lemma graph_invD:
  assumes "graph_inv w fs as"
  shows "linked (fn_next w) (fn_head w b) (fs b)" "distinct (map (fn_self w) (fs b))"
    "f \<in> fns fs \<Longrightarrow> linked (arc_next w) (fn_arcs w f) (as f)"
    "f \<in> fns fs \<Longrightarrow> distinct (map (arc_from w) (as f))"
    "f \<in> fns fs \<Longrightarrow> below_slab w f" "f \<in> fns fs \<Longrightarrow> x \<in> set (as f) \<Longrightarrow> below_slab w x"
    "f \<in> fns fs \<Longrightarrow> g \<in> fns fs \<Longrightarrow> f \<noteq> g \<Longrightarrow> x \<in> set (as f) \<Longrightarrow> x \<notin> set (as g)"
  using assms unfolding graph_inv_def by blast+

lemma fresh_record: "below_slab w y \<Longrightarrow> unat (slab_ptr w) \<le> unat x \<Longrightarrow> y \<noteq> x"
  by (auto simp: below_slab_def)

lemma fns_mem: "f \<in> set (fs b) \<Longrightarrow> f \<in> fns fs"
  by (auto simp: fns_def)

text \<open>One more call of an arc that is there.\<close>

lemma count_step:
  assumes inv: "graph_inv w fs as" and f: "f \<in> fns fs" and x: "x \<in> set (as f)"
  defines "w' \<equiv> w\<lparr>arc_count := (arc_count w)(x := arc_count w x + 1)\<rparr>"
  shows "graph_inv w' fs as"
    and "graph_at w' fs as b = map (\<lambda>g. (fn_self w g, if g = f then add_arc (arc_from w x) (arcs_at w (as f)) else arcs_at w (as g))) (fs b)"
proof -
  show "graph_inv w' fs as" using inv by (auto simp: graph_inv_def w'_def below_slab_def)
  have d: "distinct (map (arc_from w) (as f))" using graph_invD(4)[OF inv f] .
  have eq: "\<And>y. y \<in> set (as f) \<Longrightarrow> (y = x) = (arc_from w y = arc_from w x)"
    using d x by (auto simp: distinct_map inj_on_def)
  have "arc_from w x \<in> fst ` set (arcs_at w (as f))" using x by (auto simp: arcs_at_def image_iff)
  then have 1: "arcs_at w' (as f) = add_arc (arc_from w x) (arcs_at w (as f))"
    using eq by (auto simp: add_arc_def arcs_at_def w'_def)
  have 2: "arcs_at w' (as g) = arcs_at w (as g)" if "g \<in> fns fs" "g \<noteq> f" for g
    using graph_invD(7)[OF inv f that(1) that(2)[symmetric] x] by (auto simp: arcs_at_def w'_def)
  show "graph_at w' fs as b = map (\<lambda>g. (fn_self w g, if g = f then add_arc (arc_from w x) (arcs_at w (as f)) else arcs_at w (as g))) (fs b)"
    unfolding graph_at_def using 1 2 by (auto intro: fns_mem simp: w'_def)
qed

text \<open>A new arc of a function.\<close>

lemma new_arc_step:
  assumes inv: "graph_inv w fs as" and f: "f \<in> fns fs" and p: "p \<notin> set (map (arc_from w) (as f))"
    and ok: "slab_ok cfg w" and room: "unat (heap_end w) + 1023 \<le> unat (heap_limit cfg)"
  obtains x w' where "new_arc cfg p f w = w'" "graph_inv w' fs (as(f := x # as f))"
    "\<And>b. graph_at w' fs (as(f := x # as f)) b
        = map (\<lambda>g. (fn_self w g, if g = f then (p, 1) # arcs_at w (as f) else arcs_at w (as g))) (fs b)"
    "slab_ok cfg w'" "unat (heap_end w') \<le> unat (heap_end w) + 1023" "pcsample_need_init w' = pcsample_need_init w"
proof -
  obtain x w1 where a: "mcount_allocate cfg MCOUNT_RECORD_SIZE w = (x, w1)" "x \<noteq> 0"
    "unat (slab_ptr w) \<le> unat x" "unat x + 12 \<le> unat (slab_ptr w1)" "slab_ok cfg w1"
    "unat (heap_end w1) \<le> unat (heap_end w) + 1023"
    "w1 = w\<lparr>heap_end := heap_end w1, slab_ptr := slab_ptr w1, slab_size := slab_size w1\<rparr>"
    by (rule mcount_allocate_ok[OF ok room])
  have s: "fn_head w1 = fn_head w" "fn_next w1 = fn_next w" "fn_self w1 = fn_self w" "fn_arcs w1 = fn_arcs w"
    "arc_next w1 = arc_next w" "arc_from w1 = arc_from w" "arc_count w1 = arc_count w" "pcsample_need_init w1 = pcsample_need_init w"
    by (subst a(7), simp)+
  let ?w = "w1\<lparr>arc_from := (arc_from w1)(x := p), arc_count := (arc_count w1)(x := 1),
      arc_next := (arc_next w1)(x := fn_arcs w1 f), fn_arcs := (fn_arcs w1)(f := x)\<rparr>"
  have new: "new_arc cfg p f w = ?w" by (simp add: new_arc_def a(1) Let_def)
  have fresh: "\<And>g y. g \<in> fns fs \<Longrightarrow> y \<in> set (as g) \<Longrightarrow> y \<noteq> x"
    using graph_invD(6)[OF inv] fresh_record a(3) by blast
  have below: "\<And>y. below_slab w y \<Longrightarrow> below_slab ?w y" using a(3,4) by (auto simp: below_slab_def)
  have cx: "\<And>g. g \<in> fns fs \<Longrightarrow> linked (arc_next ?w) (fn_arcs w g) (as g)"
    using graph_invD(3)[OF inv] fresh by (subst linked_cong[where nx = "arc_next w"]) (auto simp: s)
  have fx: "\<And>g. g \<in> fns fs \<Longrightarrow> map (arc_from ?w) (as g) = map (arc_from w) (as g)"
    using fresh by (auto simp: s)
  have "graph_inv ?w fs (as(f := x # as f))"
    unfolding graph_inv_def
  proof (intro conjI allI ballI impI)
    fix b
    show "linked (fn_next ?w) (fn_head ?w b) (fs b)" "distinct (map (fn_self ?w) (fs b))"
      using graph_invD(1,2)[OF inv] by (simp_all add: s)
  next
    fix g assume g: "g \<in> fns fs"
    show "below_slab ?w g" by (rule below[OF graph_invD(5)[OF inv g]])
    show "linked (arc_next ?w) (fn_arcs ?w g) ((as(f := x # as f)) g)"
      using cx[OF g] a(2) by (auto simp: s)
    show "distinct (map (arc_from ?w) ((as(f := x # as f)) g))"
    proof (cases "g = f")
      case True
      have "arc_from ?w x = p" by simp
      moreover have "arc_from ?w x \<notin> set (map (arc_from ?w) (as f))" unfolding fx[OF f] using p by simp
      moreover have "distinct (map (arc_from ?w) (as f))" unfolding fx[OF f] by (rule graph_invD(4)[OF inv f])
      ultimately show ?thesis unfolding True fun_upd_same list.map distinct.simps by blast
    next
      case False
      then have "(as(f := x # as f)) g = as g" by simp
      then show ?thesis using graph_invD(4)[OF inv g] fx[OF g] by metis
    qed
    fix y assume "y \<in> set ((as(f := x # as f)) g)"
    then show "below_slab ?w y"
      using below graph_invD(6)[OF inv g] a(4) by (auto simp: below_slab_def split: if_splits)
  next
    fix g h assume gh: "g \<in> fns fs" "h \<in> fns fs" "g \<noteq> h"
    show "set ((as(f := x # as f)) g) \<inter> set ((as(f := x # as f)) h) = {}"
    proof -
      have "set (as g) \<inter> set (as h) = {}" using inv gh by (simp add: graph_inv_def)
      moreover have "x \<notin> set (as g)" "x \<notin> set (as h)" using fresh gh by blast+
      ultimately show ?thesis using gh(3) by (cases "g = f"; cases "h = f") auto
    qed
  next
    fix b c :: u32 assume "b \<noteq> c"
    then show "set (fs b) \<inter> set (fs c) = {}" using inv by (auto simp: graph_inv_def)
  qed
  moreover have "graph_at ?w fs (as(f := x # as f)) b
      = map (\<lambda>g. (fn_self w g, if g = f then (p, 1) # arcs_at w (as f) else arcs_at w (as g))) (fs b)" for b
    using fresh by (auto simp: graph_at_def arcs_at_def s intro!: fns_mem)
  moreover have "slab_ok cfg ?w" "unat (heap_end ?w) \<le> unat (heap_end w) + 1023"
    using a(5,6) by (auto simp: slab_ok_def)
  ultimately show ?thesis using that[OF new] by (simp add: s)
qed

text \<open>A new function, still without arcs.\<close>

lemma new_fn_step:
  assumes inv: "graph_inv w fs as" and s: "self \<notin> set (map (fn_self w) (fs b))"
    and ok: "slab_ok cfg w" and room: "unat (heap_end w) + 1023 \<le> unat (heap_limit cfg)"
  obtains f w' where "new_fn_entry cfg self b w = (f, w')" "f \<noteq> 0" "f \<notin> fns fs"
    "graph_inv w' (fs(b := f # fs b)) (as(f := []))" "fn_self w' f = self"
    "\<And>c. graph_at w' (fs(b := f # fs b)) (as(f := [])) c
        = (if c = b then (self, []) # graph_at w fs as b else graph_at w fs as c)"
    "slab_ok cfg w'" "unat (heap_end w') \<le> unat (heap_end w) + 1023" "pcsample_need_init w' = pcsample_need_init w"
proof -
  obtain f w1 where a: "mcount_allocate cfg MCOUNT_RECORD_SIZE w = (f, w1)" "f \<noteq> 0"
    "unat (slab_ptr w) \<le> unat f" "unat f + 12 \<le> unat (slab_ptr w1)" "slab_ok cfg w1"
    "unat (heap_end w1) \<le> unat (heap_end w) + 1023"
    "w1 = w\<lparr>heap_end := heap_end w1, slab_ptr := slab_ptr w1, slab_size := slab_size w1\<rparr>"
    by (rule mcount_allocate_ok[OF ok room])
  have e: "fn_head w1 = fn_head w" "fn_next w1 = fn_next w" "fn_self w1 = fn_self w" "fn_arcs w1 = fn_arcs w"
    "arc_next w1 = arc_next w" "arc_from w1 = arc_from w" "arc_count w1 = arc_count w" "pcsample_need_init w1 = pcsample_need_init w"
    by (subst a(7), simp)+
  let ?w = "w1\<lparr>fn_self := (fn_self w1)(f := self), fn_arcs := (fn_arcs w1)(f := 0),
      fn_next := (fn_next w1)(f := fn_head w1 b), fn_head := (fn_head w1)(b := f)\<rparr>"
  let ?fs = "fs(b := f # fs b)" and ?as = "as(f := [])"
  have new: "new_fn_entry cfg self b w = (f, ?w)" by (simp add: new_fn_entry_def a(1) Let_def)
  have fresh: "\<And>g. g \<in> fns fs \<Longrightarrow> g \<noteq> f" using graph_invD(5)[OF inv] fresh_record a(3) by blast
  then have ff: "f \<notin> fns fs" by blast
  have mem: "\<And>c g. g \<in> set (fs c) \<Longrightarrow> g \<noteq> f" using fresh fns_mem by blast
  have fns: "fns ?fs = insert f (fns fs)" by (auto simp: fns_def split: if_splits)
  have below: "\<And>y. below_slab w y \<Longrightarrow> below_slab ?w y" using a(3,4) by (auto simp: below_slab_def)
  have chains: "linked (fn_next ?w) (fn_head w c) (fs c)" for c
    using graph_invD(1)[OF inv] mem by (subst linked_cong[where nx = "fn_next w"]) (auto simp: e)
  have selfs: "map (fn_self ?w) (fs c) = map (fn_self w) (fs c)" for c
    using mem by (auto simp: e)
  have "graph_inv ?w ?fs ?as"
    unfolding graph_inv_def
  proof (intro conjI allI ballI impI)
    fix c
    show "linked (fn_next ?w) (fn_head ?w c) (?fs c)"
      using chains[of c] chains[of b] a(2) by (auto simp: e)
    show "distinct (map (fn_self ?w) (?fs c))"
    proof (cases "c = b")
      case True
      have "fn_self ?w f = self" by simp
      moreover have "fn_self ?w f \<notin> set (map (fn_self ?w) (fs b))" unfolding selfs using s by simp
      moreover have "distinct (map (fn_self ?w) (fs b))" unfolding selfs by (rule graph_invD(2)[OF inv])
      ultimately show ?thesis unfolding True fun_upd_same list.map distinct.simps by blast
    next
      case False
      then have "?fs c = fs c" by simp
      then show ?thesis using graph_invD(2)[OF inv] selfs by metis
    qed
  next
    fix g assume g: "g \<in> fns ?fs"
    show "below_slab ?w g"
      using g below graph_invD(5)[OF inv] a(4) unfolding fns by (auto simp: below_slab_def)
    show "linked (arc_next ?w) (fn_arcs ?w g) (?as g)" "distinct (map (arc_from ?w) (?as g))"
      using g graph_invD(3,4)[OF inv] unfolding fns by (auto simp: e)
    fix y assume "y \<in> set (?as g)"
    then show "below_slab ?w y"
      using g below graph_invD(6)[OF inv, of g y] unfolding fns by (auto split: if_splits)
  next
    fix g h assume gh: "g \<in> fns ?fs" "h \<in> fns ?fs" "g \<noteq> h"
    then show "set (?as g) \<inter> set (?as h) = {}"
      using inv unfolding fns graph_inv_def by (cases "g = f"; cases "h = f") auto
  next
    fix c d :: u32 assume "c \<noteq> d"
    then have "set (fs c) \<inter> set (fs d) = {}" using inv by (simp add: graph_inv_def)
    with \<open>c \<noteq> d\<close> show "set (?fs c) \<inter> set (?fs d) = {}"
      using mem by (cases "c = b"; cases "d = b") auto
  qed
  moreover have "graph_at ?w ?fs ?as c = (if c = b then (self, []) # graph_at w fs as b else graph_at w fs as c)" for c
    using mem[of _ c] mem[of _ b] by (auto simp: graph_at_def arcs_at_def e)
  moreover have "slab_ok cfg ?w" "unat (heap_end ?w) \<le> unat (heap_end w) + 1023"
    using a(5,6) by (auto simp: slab_ok_def)
  ultimately show ?thesis using that[OF new a(2) ff] by (simp add: e)
qed

text \<open>Starting the sampler takes the histogram from the heap.\<close>

definition hist_bytes :: "prof_cfg \<Rightarrow> nat" where
  "hist_bytes cfg = unat (pcsamples_size cfg * 2)"

lemma hist_small: "hist_bytes cfg < 2 ^ 28" "0 \<le> sint (pcsamples_size cfg * 2)"
proof -
  have "unat (pcsamples_size cfg) < 2 ^ 27"
    using unat_bound_32[of "s_high_pc cfg - s_low_pc cfg"]
    by (simp add: pcsamples_size_def PCSAMPLE_BYTES_PER_BUCKET_def unat_div less_mult_imp_div_less)
  then have u: "unat (pcsamples_size cfg * 2) = unat (pcsamples_size cfg) * 2" "unat (pcsamples_size cfg) * 2 < 2 ^ 28"
    by (simp_all add: unat_word_ariths)
  then show "hist_bytes cfg < 2 ^ 28" by (simp add: hist_bytes_def)
  show "0 \<le> sint (pcsamples_size cfg * 2)" using u by (simp add: sint_unat)
qed

lemma alarm_start_frame:
  fixes w :: prof_state
  shows "same_graph w (snd (alt_alarm_start a n f c w))" "heap_end (snd (alt_alarm_start a n f c w)) = heap_end w"
    "slab_ptr (snd (alt_alarm_start a n f c w)) = slab_ptr w" "slab_size (snd (alt_alarm_start a n f c w)) = slab_size w"
  by (auto simp: alt_alarm_start_def same_graph_def alt_irq_disable_all_def alt_irq_enable_all_def upd_alarm_def Let_def)

lemma pcsample_init_step:
  assumes ok: "slab_ok cfg w" and room: "unat (heap_end w) + 3 + hist_bytes cfg \<le> unat (heap_limit cfg)"
  obtains r w' where "niosv_pcsample_init cfg w = (r, w')" "same_graph w w'" "slab_ok cfg w'"
    "unat (heap_end w') \<le> unat (heap_end w) + 3 + hist_bytes cfg" "r \<longrightarrow> w' = w"
proof (cases "alt_ticks_per_second w = 0")
  case True
  then show ?thesis using that[of True w] ok by (simp add: niosv_pcsample_init_def same_graph_def)
next
  case False
  let ?n = "pcsamples_size cfg * 2"
  define e where "e = (unat (heap_end w) + 3) div 4 * 4"
  have e: "unat (heap_end w) \<le> e" "e \<le> unat (heap_end w) + 3" unfolding e_def by presburger+
  have l: "unat (heap_limit cfg) \<le> 2 ^ 31" using ok by (simp add: slab_ok_def)
  have r: "alt_sbrk (heap_limit cfg) ?n w = (of_nat e, w\<lparr>heap_end := of_nat (e + hist_bytes cfg)\<rparr>)"
    using sbrk_result[OF l _ hist_small(2), of w cfg, folded e_def] room e by (simp add: hist_bytes_def)
  define h :: u32 where "h = of_nat (e + hist_bytes cfg)"
  have u: "unat h = e + hist_bytes cfg"
    unfolding h_def using e room l by (intro unat_of_nat_32) simp
  note r = r[folded h_def]
  let ?w1 = "w\<lparr>heap_end := h, s_pcsamples := of_nat e\<rparr>"
  let ?w2 = "?w1\<lparr>samples := (\<lambda>a. if a - of_nat e < ?n then 0 else samples ?w1 a),
      gmon_profile_data := of_nat e, gmon_profile_rate := alt_ticks_per_second w\<rparr>"
  let ?w' = "if (of_nat e :: u32) \<noteq> 0 then snd (alt_alarm_start (pcsample_alarm cfg) 1 (pcsample_fn cfg) 0 ?w2) else ?w1"
  have "niosv_pcsample_init cfg w = (False, ?w')"
    using False r by (simp add: niosv_pcsample_init_def Let_def)
  moreover have "same_graph w ?w'"
    using alarm_start_frame(1)[of ?w2] by (simp add: same_graph_def)
  moreover have "slab_ok cfg ?w'" "unat (heap_end ?w') \<le> unat (heap_end w) + 3 + hist_bytes cfg"
    using ok e u by (auto simp: slab_ok_def alarm_start_frame simp del: of_nat_add)
  ultimately show ?thesis using that by blast
qed

section \<open>Recording a call\<close>

text \<open>The heap that is taken, with what starting the sampler may still take.\<close>

definition heap_use :: "prof_cfg \<Rightarrow> prof_state \<Rightarrow> nat" where
  "heap_use cfg w = unat (heap_end w) + (if pcsample_need_init w then 3 + hist_bytes cfg else 0)"

definition prof_ok :: "prof_cfg \<Rightarrow> prof_state \<Rightarrow> (u32 \<Rightarrow> u32 list) \<Rightarrow> (u32 \<Rightarrow> u32 list) \<Rightarrow> bool" where
  "prof_ok cfg w fs as \<longleftrightarrow> graph_inv w fs as \<and> (\<forall>f\<in>fns fs. as f \<noteq> []) \<and> slab_ok cfg w"

text \<open>The first part of recording: the sampler, and interrupts off.\<close>

definition record_start :: "prof_cfg \<Rightarrow> prof_state \<Rightarrow> u32 \<times> prof_state" where
  "record_start cfg w =
     alt_irq_disable_all
       (if pcsample_need_init w then
          (let (r, w0) = niosv_pcsample_init cfg (w\<lparr>pcsample_need_init := False\<rparr>) in w0\<lparr>pcsample_need_init := r\<rparr>)
        else w)"

lemma mcount_record_eq:
  "mcount_record cfg self p f b w =
     (let (c, w2) = record_start cfg w; (f1, w3) = (if f = 0 then new_fn_entry cfg self b w2 else (f, w2))
      in alt_irq_enable_all c (new_arc cfg p f1 w3))"
  by (simp add: mcount_record_def record_start_def Let_def)

definition same_lists :: "prof_state \<Rightarrow> prof_state \<Rightarrow> bool" where
  "same_lists w w' \<longleftrightarrow> same_graph w (w'\<lparr>pcsample_need_init := pcsample_need_init w\<rparr>)"

lemma same_lists_frame:
  assumes "same_lists w w'"
  shows "graph_inv w fs as \<Longrightarrow> graph_inv w' fs as" "graph_at w' fs as = graph_at w fs as"
    "fn_self w' = fn_self w" "arc_from w' = arc_from w"
proof -
  show "graph_inv w fs as \<Longrightarrow> graph_inv w' fs as"
    using graph_frame(1)[of w "w'\<lparr>pcsample_need_init := pcsample_need_init w\<rparr>" fs as] assms
    by (simp add: same_lists_def graph_inv_def below_slab_def)
  show "graph_at w' fs as = graph_at w fs as"
    using graph_frame(2)[of w "w'\<lparr>pcsample_need_init := pcsample_need_init w\<rparr>" fs as] assms
    by (simp add: same_lists_def graph_at_def arcs_at_def)
  show "fn_self w' = fn_self w" "arc_from w' = arc_from w"
    using assms by (simp_all add: same_lists_def same_graph_def)
qed

lemma record_start_step:
  assumes ok: "slab_ok cfg w" and room: "heap_use cfg w \<le> unat (heap_limit cfg)"
  obtains c w' where "record_start cfg w = (c, w')" "same_lists w w'" "slab_ok cfg w'" "heap_use cfg w' \<le> heap_use cfg w"
proof (cases "pcsample_need_init w")
  case False
  let ?w' = "snd (alt_irq_disable_all w)"
  have "record_start cfg w = (fst (alt_irq_disable_all w), ?w')" using False by (simp add: record_start_def)
  moreover have "same_lists w ?w'" "slab_ok cfg ?w'" "heap_use cfg ?w' \<le> heap_use cfg w"
    using ok by (simp_all add: alt_irq_disable_all_def same_lists_def same_graph_def slab_ok_def heap_use_def)
  ultimately show ?thesis using that by blast
next
  case True
  let ?w = "w\<lparr>pcsample_need_init := False\<rparr>"
  have "slab_ok cfg ?w" "unat (heap_end ?w) + 3 + hist_bytes cfg \<le> unat (heap_limit cfg)"
    using ok room True by (simp_all add: slab_ok_def heap_use_def)
  then obtain r w1 where r: "niosv_pcsample_init cfg ?w = (r, w1)" "same_graph ?w w1" "slab_ok cfg w1"
    "unat (heap_end w1) \<le> unat (heap_end ?w) + 3 + hist_bytes cfg" "r \<longrightarrow> w1 = ?w"
    by (rule pcsample_init_step)
  let ?w' = "snd (alt_irq_disable_all (w1\<lparr>pcsample_need_init := r\<rparr>))"
  have "record_start cfg w = (fst (alt_irq_disable_all (w1\<lparr>pcsample_need_init := r\<rparr>)), ?w')"
    using True r(1) by (simp add: record_start_def)
  moreover have "same_lists w ?w'" "slab_ok cfg ?w'"
    using r(2,3) True by (simp_all add: alt_irq_disable_all_def same_lists_def same_graph_def slab_ok_def)
  moreover have "heap_use cfg ?w' \<le> heap_use cfg w"
    using r(4,5) True by (cases r) (simp_all add: alt_irq_disable_all_def heap_use_def)
  ultimately show ?thesis using that by blast
qed

lemma enable_all_frame:
  fixes w :: prof_state
  shows "same_graph w (alt_irq_enable_all c w)" "slab_ok cfg (alt_irq_enable_all c w) = slab_ok cfg w"
    "heap_use cfg (alt_irq_enable_all c w) = heap_use cfg w"
  by (simp_all add: alt_irq_enable_all_def same_graph_def slab_ok_def heap_use_def)

text \<open>Recording a call of a function that is known, from a place that is not.\<close>

lemma record_known:
  assumes ok: "prof_ok cfg w fs as" and f: "f \<in> fns fs" "f \<noteq> 0" and p: "p \<notin> set (map (arc_from w) (as f))"
    and room: "heap_use cfg w + 2046 \<le> unat (heap_limit cfg)"
  obtains x w' where "mcount_record cfg self p f b w = w'" "prof_ok cfg w' fs (as(f := x # as f))"
    "\<And>c. graph_at w' fs (as(f := x # as f)) c
        = map (\<lambda>g. (fn_self w g, if g = f then add_arc p (arcs_at w (as f)) else arcs_at w (as g))) (fs c)"
    "heap_use cfg w' \<le> heap_use cfg w + 2046"
proof -
  from ok have inv: "graph_inv w fs as" "\<forall>f\<in>fns fs. as f \<noteq> []" "slab_ok cfg w" by (auto simp: prof_ok_def)
  from room have "heap_use cfg w \<le> unat (heap_limit cfg)" by simp
  with inv(3) obtain c w2 where w2: "record_start cfg w = (c, w2)" "same_lists w w2" "slab_ok cfg w2" "heap_use cfg w2 \<le> heap_use cfg w"
    by (rule record_start_step)
  note fr = same_lists_frame[OF w2(2)]
  have r2: "unat (heap_end w2) + 1023 \<le> unat (heap_limit cfg)" using room w2(4) by (auto simp: heap_use_def split: if_splits)
  have p2: "p \<notin> set (map (arc_from w2) (as f))" using p fr(4) by simp
  obtain x w3 where n: "new_arc cfg p f w2 = w3" "graph_inv w3 fs (as(f := x # as f))"
    "\<And>b. graph_at w3 fs (as(f := x # as f)) b
        = map (\<lambda>g. (fn_self w2 g, if g = f then (p, 1) # arcs_at w2 (as f) else arcs_at w2 (as g))) (fs b)"
    "slab_ok cfg w3" "unat (heap_end w3) \<le> unat (heap_end w2) + 1023" "pcsample_need_init w3 = pcsample_need_init w2"
    by (rule new_arc_step[OF fr(1)[OF inv(1)] f(1) p2 w2(3) r2]) blast
  have a: "arcs_at w2 xs = arcs_at w xs" for xs
    using w2(2) by (simp add: arcs_at_def same_lists_def same_graph_def)
  have add: "add_arc p (arcs_at w (as f)) = (p, 1) # arcs_at w (as f)"
    using p by (auto simp: add_arc_def arcs_at_def image_iff)
  have "mcount_record cfg self p f b w = alt_irq_enable_all c w3"
    using f(2) by (simp add: mcount_record_eq w2(1) n(1))
  moreover have "prof_ok cfg (alt_irq_enable_all c w3) fs (as(f := x # as f))"
    using graph_frame(1)[OF enable_all_frame(1) n(2)] n(4) inv(2) by (simp add: prof_ok_def enable_all_frame)
  moreover have "graph_at (alt_irq_enable_all c w3) fs (as(f := x # as f)) d
      = map (\<lambda>g. (fn_self w g, if g = f then add_arc p (arcs_at w (as f)) else arcs_at w (as g))) (fs d)" for d
    unfolding graph_frame(2)[OF enable_all_frame(1)] n(3) fr(3) a add by (rule refl)
  moreover have "heap_use cfg (alt_irq_enable_all c w3) \<le> heap_use cfg w + 2046"
    unfolding enable_all_frame(3) using n(5,6) w2(4) by (simp add: heap_use_def)
  ultimately show ?thesis using that by blast
qed

text \<open>Recording the first call of a function.\<close>

lemma record_new:
  assumes ok: "prof_ok cfg w fs as" and s: "self \<notin> set (map (fn_self w) (fs b))"
    and room: "heap_use cfg w + 2046 \<le> unat (heap_limit cfg)"
  obtains f x w' where "mcount_record cfg self p 0 b w = w'" "prof_ok cfg w' (fs(b := f # fs b)) (as(f := [x]))"
    "\<And>c. graph_at w' (fs(b := f # fs b)) (as(f := [x])) c
        = (if c = b then (self, [(p, 1)]) # graph_at w fs as b else graph_at w fs as c)"
    "heap_use cfg w' \<le> heap_use cfg w + 2046"
proof -
  from ok have inv: "graph_inv w fs as" "\<forall>f\<in>fns fs. as f \<noteq> []" "slab_ok cfg w" by (auto simp: prof_ok_def)
  from room have "heap_use cfg w \<le> unat (heap_limit cfg)" by simp
  with inv(3) obtain c w2 where w2: "record_start cfg w = (c, w2)" "same_lists w w2" "slab_ok cfg w2" "heap_use cfg w2 \<le> heap_use cfg w"
    by (rule record_start_step)
  note fr = same_lists_frame[OF w2(2)]
  have r2: "unat (heap_end w2) + 1023 \<le> unat (heap_limit cfg)" using room w2(4) by (auto simp: heap_use_def split: if_splits)
  have s2: "self \<notin> set (map (fn_self w2) (fs b))" using s fr(3) by simp
  let ?fs = "\<lambda>f. fs(b := f # fs b)"
  obtain f w3 where n: "new_fn_entry cfg self b w2 = (f, w3)" "f \<noteq> 0" "f \<notin> fns fs"
    "graph_inv w3 (?fs f) (as(f := []))" "fn_self w3 f = self"
    "\<And>c. graph_at w3 (?fs f) (as(f := [])) c = (if c = b then (self, []) # graph_at w2 fs as b else graph_at w2 fs as c)"
    "slab_ok cfg w3" "unat (heap_end w3) \<le> unat (heap_end w2) + 1023" "pcsample_need_init w3 = pcsample_need_init w2"
    by (rule new_fn_step[OF fr(1)[OF inv(1)] s2 w2(3) r2]) blast
  have ff: "f \<in> fns (?fs f)" by (auto simp: fns_def intro: exI[of _ b])
  have r3: "unat (heap_end w3) + 1023 \<le> unat (heap_limit cfg)"
    using room w2(4) n(8) by (auto simp: heap_use_def split: if_splits)
  have p3: "p \<notin> set (map (arc_from w3) ((as(f := [])) f))" by simp
  obtain x w4 where m: "new_arc cfg p f w3 = w4" "graph_inv w4 (?fs f) ((as(f := []))(f := x # (as(f := [])) f))"
    "\<And>d. graph_at w4 (?fs f) ((as(f := []))(f := x # (as(f := [])) f)) d
        = map (\<lambda>g. (fn_self w3 g, if g = f then (p, 1) # arcs_at w3 ((as(f := [])) f) else arcs_at w3 ((as(f := [])) g))) (?fs f d)"
    "slab_ok cfg w4" "unat (heap_end w4) \<le> unat (heap_end w3) + 1023" "pcsample_need_init w4 = pcsample_need_init w3"
    by (rule new_arc_step[OF n(4) ff p3 n(7) r3]) blast
  have as: "(as(f := []))(f := x # (as(f := [])) f) = as(f := [x])" by simp
  have g: "graph_at w4 (?fs f) (as(f := [x])) d = (if d = b then (self, [(p, 1)]) # graph_at w fs as b else graph_at w fs as d)" for d
  proof -
    have old: "map (\<lambda>g. (fn_self w3 g, if g = f then (p, 1) # arcs_at w3 ((as(f := [])) f) else arcs_at w3 ((as(f := [])) g))) (fs d)
        = map (\<lambda>g. (fn_self w3 g, arcs_at w3 ((as(f := [])) g))) (fs d)"
      using n(3) by (auto simp: fns_def)
    have "graph_at w3 (?fs f) (as(f := [])) d = (if d = b then (self, []) # graph_at w fs as b else graph_at w fs as d)"
      unfolding n(6) fr(2) by (rule refl)
    then have "map (\<lambda>g. (fn_self w3 g, arcs_at w3 ((as(f := [])) g))) (fs d) = graph_at w fs as d"
      by (auto simp: graph_at_def split: if_splits)
    note tl = trans[OF old this]
    have hd: "(fn_self w3 f, if f = f then (p, 1) # arcs_at w3 ((as(f := [])) f) else arcs_at w3 ((as(f := [])) f)) = (self, [(p, 1)])"
      by (simp add: n(5) arcs_at_def)
    show ?thesis
    proof (cases "d = b")
      case True
      then have "?fs f d = f # fs d" by simp
      then show ?thesis unfolding m(3)[of d, unfolded as] using tl hd True by (simp only: list.map if_True refl)
    next
      case False
      then have "?fs f d = fs d" by simp
      then show ?thesis unfolding m(3)[of d, unfolded as] using tl False by (simp only: if_False)
    qed
  qed
  have "mcount_record cfg self p 0 b w = alt_irq_enable_all c w4"
    by (simp add: mcount_record_eq w2(1) n(1) m(1))
  moreover have "\<forall>g\<in>fns (?fs f). (as(f := [x])) g \<noteq> []"
    using inv(2) by (auto simp: fns_def split: if_splits)
  then have "prof_ok cfg (alt_irq_enable_all c w4) (?fs f) (as(f := [x]))"
    using graph_frame(1)[OF enable_all_frame(1) m(2)[unfolded as]] m(4) by (simp add: prof_ok_def enable_all_frame)
  moreover have "graph_at (alt_irq_enable_all c w4) (?fs f) (as(f := [x])) d
      = (if d = b then (self, [(p, 1)]) # graph_at w fs as b else graph_at w fs as d)" for d
    unfolding graph_frame(2)[OF enable_all_frame(1)] g by (rule refl)
  moreover have "heap_use cfg (alt_irq_enable_all c w4) \<le> heap_use cfg w + 2046"
    unfolding enable_all_frame(3) using m(5,6) n(8,9) w2(4) by (simp add: heap_use_def)
  ultimately show ?thesis using that by blast
qed

section \<open>Any sequence of calls\<close>

lemma graph_upd:
  assumes inv: "graph_inv w fs as" and f: "f \<in> set (fs (bucket_of (fn_self w f)))"
    and G: "\<And>c. G c = map (\<lambda>g. (fn_self w g, if g = f then add_arc p (arcs_at w (as f)) else arcs_at w (as g))) (fs c)"
  shows "G = add_call (fn_self w f) p (graph_at w fs as)"
proof
  fix c
  let ?b = "bucket_of (fn_self w f)"
  have in_b: "fn_self w f \<in> fst ` set (graph_at w fs as ?b)"
    using f by (auto simp: graph_at_def image_iff)
  show "G c = add_call (fn_self w f) p (graph_at w fs as) c"
  proof (cases "c = ?b")
    case True
    have "\<And>g. g \<in> set (fs ?b) \<Longrightarrow> (fn_self w g = fn_self w f) = (g = f)"
      using graph_invD(2)[OF inv, of ?b] f by (auto simp: distinct_map inj_on_def)
    then show ?thesis
      using in_b unfolding G True by (auto simp: add_call_def add_fn_def graph_at_def)
  next
    case False
    then have "set (fs c) \<inter> set (fs ?b) = {}" using inv by (simp add: graph_inv_def)
    then have "f \<notin> set (fs c)" using f by blast
    with False show ?thesis unfolding G by (auto simp: add_call_def graph_at_def)
  qed
qed

lemma mcount_step:
  assumes ok: "prof_ok cfg w fs as" and room: "heap_use cfg w + 2046 \<le> unat (heap_limit cfg)"
  shows "\<exists>w' fs' as'. mcount cfg self p w = Some w' \<and> prof_ok cfg w' fs' as'
    \<and> graph_at w' fs' as' = add_call self p (graph_at w fs as) \<and> heap_use cfg w' \<le> heap_use cfg w + 2046"
proof -
  let ?b = "bucket_of self"
  from ok have inv: "graph_inv w fs as" "\<forall>f\<in>fns fs. as f \<noteq> []" "slab_ok cfg w" by (auto simp: prof_ok_def)
  note ff = find_fn_linked[OF graph_invD(1)[OF inv(1)], of ?b self]
  show ?thesis
  proof (cases "find (\<lambda>f. fn_self w f = self) (fs ?b)")
    case None
    then have s: "self \<notin> set (map (fn_self w) (fs ?b))" by (auto simp: find_None_iff)
    obtain f x w' where w': "mcount_record cfg self p 0 ?b w = w'" "prof_ok cfg w' (fs(?b := f # fs ?b)) (as(f := [x]))"
      "\<And>c. graph_at w' (fs(?b := f # fs ?b)) (as(f := [x])) c
          = (if c = ?b then (self, [(p, 1)]) # graph_at w fs as ?b else graph_at w fs as c)"
      "heap_use cfg w' \<le> heap_use cfg w + 2046"
      by (rule record_new[OF ok s room]) blast
    have "self \<notin> fst ` set (graph_at w fs as ?b)" using s by (auto simp: graph_at_def)
    then have "graph_at w' (fs(?b := f # fs ?b)) (as(f := [x])) = add_call self p (graph_at w fs as)"
      using w'(3) by (auto simp: add_call_def add_fn_def)
    moreover have "mcount cfg self p w = Some w'" using ff None w'(1) by (simp add: mcount_def)
    ultimately show ?thesis using w'(2,4) by blast
  next
    case (Some f)
    then have f: "f \<in> set (fs ?b)" "fn_self w f = self" by (auto simp: find_Some_iff)
    then have fn: "f \<in> fns fs" by (auto intro: fns_mem)
    have f0: "f \<noteq> 0" using linked_nonzero[OF graph_invD(1)[OF inv(1)] f(1)] .
    have fb: "f \<in> set (fs (bucket_of (fn_self w f)))" using f by simp
    note fa = find_arc_linked[OF graph_invD(3)[OF inv(1) fn], of p]
    have m: "mcount cfg self p w = (case find_arc w (fn_arcs w f) p of None \<Rightarrow> None
        | Some a \<Rightarrow> if a = 0 then Some (mcount_record cfg self p f ?b w) else Some (w\<lparr>arc_count := (arc_count w)(a := arc_count w a + 1)\<rparr>))"
      using ff Some f0 by (simp add: mcount_def)
    show ?thesis
    proof (cases "find (\<lambda>x. arc_from w x = p) (as f)")
      case None
      then have pn: "p \<notin> set (map (arc_from w) (as f))" by (auto simp: find_None_iff)
      obtain x w' where w': "mcount_record cfg self p f ?b w = w'" "prof_ok cfg w' fs (as(f := x # as f))"
        "\<And>c. graph_at w' fs (as(f := x # as f)) c
            = map (\<lambda>g. (fn_self w g, if g = f then add_arc p (arcs_at w (as f)) else arcs_at w (as g))) (fs c)"
        "heap_use cfg w' \<le> heap_use cfg w + 2046"
        by (rule record_known[OF ok fn f0 pn room]) blast
      have "mcount cfg self p w = Some w'" using m fa inv(2) fn None w'(1) by simp
      moreover have "graph_at w' fs (as(f := x # as f)) = add_call self p (graph_at w fs as)"
        using graph_upd[OF inv(1) fb, where G = "graph_at w' fs (as(f := x # as f))" and p = p] w'(3) unfolding f(2) by blast
      ultimately show ?thesis using w'(2,4) by blast
    next
      case (Some x)
      then have x: "x \<in> set (as f)" "arc_from w x = p" by (auto simp: find_Some_iff)
      have x0: "x \<noteq> 0" using linked_nonzero[OF graph_invD(3)[OF inv(1) fn] x(1)] .
      let ?w = "w\<lparr>arc_count := (arc_count w)(x := arc_count w x + 1)\<rparr>"
      have "mcount cfg self p w = Some ?w" using m fa inv(2) fn Some x0 by simp
      moreover have "graph_at ?w fs as = add_call self p (graph_at w fs as)"
        using graph_upd[OF inv(1) fb, where G = "graph_at ?w fs as" and p = p] count_step(2)[OF inv(1) fn x(1)]
        unfolding f(2) x(2) by blast
      moreover have "prof_ok cfg ?w fs as"
        using count_step(1)[OF inv(1) fn x(1)] inv(2,3) by (simp add: prof_ok_def slab_ok_def)
      moreover have "heap_use cfg ?w \<le> heap_use cfg w + 2046" by (simp add: heap_use_def)
      ultimately show ?thesis by blast
    qed
  qed
qed

lemma mcounts_ok:
  "prof_ok cfg w fs as \<Longrightarrow> heap_use cfg w + 2046 * length calls \<le> unat (heap_limit cfg) \<Longrightarrow>
   \<exists>w' fs' as'. mcounts cfg calls w = Some w' \<and> prof_ok cfg w' fs' as'
     \<and> (\<forall>s p. count_of (graph_at w' fs' as') s p = count_of (graph_at w fs as) s p + of_nat (count_list calls (s, p)))"
proof (induction calls arbitrary: w fs as)
  case Nil
  then show ?case by auto
next
  case (Cons c calls)
  obtain self p where c: "c = (self, p)" by (cases c)
  have "heap_use cfg w + 2046 \<le> unat (heap_limit cfg)" using Cons.prems(2) by simp
  from mcount_step[OF Cons.prems(1) this, of self p] obtain w1 fs1 as1
    where 1: "mcount cfg self p w = Some w1" "prof_ok cfg w1 fs1 as1"
      "graph_at w1 fs1 as1 = add_call self p (graph_at w fs as)" "heap_use cfg w1 \<le> heap_use cfg w + 2046" by blast
  have "heap_use cfg w1 + 2046 * length calls \<le> unat (heap_limit cfg)" using 1(4) Cons.prems(2) by simp
  from Cons.IH[OF 1(2) this] obtain w2 fs2 as2 where 2: "mcounts cfg calls w1 = Some w2" "prof_ok cfg w2 fs2 as2"
    "\<forall>s p. count_of (graph_at w2 fs2 as2) s p = count_of (graph_at w1 fs1 as1) s p + of_nat (count_list calls (s, p))" by blast
  have "count_of (graph_at w2 fs2 as2) s q = count_of (graph_at w fs as) s q + of_nat (count_list (c # calls) (s, q))" for s q
    using 2(3) by (auto simp: 1(3) count_add_call c)
  moreover have "mcounts cfg (c # calls) w = Some w2" using 1(1) 2(1) by (simp add: c)
  ultimately show ?case using 2(2) by blast
qed

text \<open>The image's state: empty buckets, no slab, the sampler not started.\<close>

definition prof_start :: "prof_state \<Rightarrow> bool" where
  "prof_start w \<longleftrightarrow> (\<forall>b. fn_head w b = 0) \<and> slab_size w = 0 \<and> slab_ptr w = 0 \<and> 0 < unat (heap_end w)"

text \<open>
  C30: Starting from an empty profile and with enough heap, any sequence of instrumented calls ends, and
  the records then form well-separated lists in which each arc, from a calling place to a function, has
  counted exactly its calls (modulo the counter).
\<close>

theorem mcount_counts_calls:
  assumes "prof_start w" "unat (heap_limit cfg) \<le> 2 ^ 31"
    and "heap_use cfg w + 2046 * length calls \<le> unat (heap_limit cfg)"
  shows "\<exists>w' fs as. mcounts cfg calls w = Some w' \<and> graph_inv w' fs as
    \<and> (\<forall>self from_pc. count_of (graph_at w' fs as) self from_pc = of_nat (count_list calls (self, from_pc)))"
proof -
  have "prof_ok cfg w (\<lambda>_. []) (\<lambda>_. [])"
    using assms(1,2) by (auto simp: prof_ok_def prof_start_def graph_inv_def slab_ok_def fns_def)
  from mcounts_ok[OF this assms(3)] show ?thesis
    by (auto simp: prof_ok_def graph_at_def count_of_def)
qed

definition small_cfg :: prof_cfg where
  "small_cfg = \<lparr>heap_limit = 0x20000, s_low_pc = 0x100, s_high_pc = 0x13E, pcsample_alarm = 0x1100, pcsample_fn = 0x900\<rparr>"

definition prof_boot :: prof_state where
  "prof_boot = heap_state.extend boot_heap
     \<lparr>pcsample_need_init = True, fn_head = (\<lambda>_. 0), fn_next = (\<lambda>_. 0), fn_self = (\<lambda>_. 0), fn_arcs = (\<lambda>_. 0), arc_next = (\<lambda>_. 0),
      arc_from = (\<lambda>_. 0), arc_count = (\<lambda>_. 0), slab_ptr = 0, slab_size = 0, s_pcsamples = 0, samples = (\<lambda>_. 0),
      gmon_profile_data = 0, gmon_profile_rate = 0\<rparr>\<lparr>heap_end := 0x1001\<rparr>"

theorem mcount_counts_calls_witness:
  "\<exists>w' fs as. mcounts small_cfg [(0x200, 0x110), (0x200, 0x118), (0x200, 0x110), (0xA00, 0x110)] prof_boot = Some w'
    \<and> graph_inv w' fs as \<and> count_of (graph_at w' fs as) 0x200 0x110 = 2 \<and> count_of (graph_at w' fs as) 0xA00 0x118 = 0"
proof -
  have "hist_bytes small_cfg = 2"
    by (simp add: hist_bytes_def pcsamples_size_def small_cfg_def PCSAMPLE_BYTES_PER_BUCKET_def)
  then have "heap_use small_cfg prof_boot + 2046 * length [(0x200, 0x110), (0x200, 0x118), (0x200, 0x110), (0xA00 :: u32, 0x110 :: u32)]
      \<le> unat (heap_limit small_cfg)"
    by (simp add: heap_use_def prof_boot_def heap_state.defs small_cfg_def)
  from mcount_counts_calls[OF _ _ this] show ?thesis
    by (fastforce simp: prof_start_def prof_boot_def heap_state.defs small_cfg_def)
qed

section \<open>The histogram\<close>

lemma of_nat_nonzero: "e \<le> 2 ^ 31 \<Longrightarrow> 0 < e \<Longrightarrow> (of_nat e :: u32) \<noteq> 0"
proof
  assume "e \<le> 2 ^ 31" "0 < e" "(of_nat e :: u32) = 0"
  moreover have "unat (of_nat e :: u32) = e" by (rule unat_of_nat_32) (use \<open>e \<le> 2 ^ 31\<close> in simp)
  ultimately show False by (metis less_irrefl unsigned_0)
qed

lemma pcsample_init_eq:
  assumes "alt_ticks_per_second w \<noteq> 0" "unat (heap_limit cfg) \<le> 2 ^ 31" "0 < unat (heap_end w)"
    "unat (heap_end w) + 3 + hist_bytes cfg \<le> unat (heap_limit cfg)"
  defines "e \<equiv> (unat (heap_end w) + 3) div 4 * 4"
  obtains w1 where "niosv_pcsample_init cfg w = (False, w1)" "s_pcsamples w1 = of_nat e"
    "heap_end w1 = of_nat (e + hist_bytes cfg)"
proof -
  let ?n = "pcsamples_size cfg * 2"
  have e: "unat (heap_end w) \<le> e" "e \<le> unat (heap_end w) + 3" unfolding e_def by presburger+
  have r: "alt_sbrk (heap_limit cfg) ?n w = (of_nat e, w\<lparr>heap_end := of_nat (e + hist_bytes cfg)\<rparr>)"
    using sbrk_result[OF assms(2) _ hist_small(2), of w cfg, folded e_def] assms(4) e by (simp add: hist_bytes_def)
  define h :: u32 where "h = of_nat (e + hist_bytes cfg)"
  note r = r[folded h_def]
  have "e \<le> 2 ^ 31" "0 < e" using e assms(2,3,4) by linarith+
  then have nz: "(of_nat e :: u32) \<noteq> 0" by (rule of_nat_nonzero)
  let ?w2 = "w\<lparr>heap_end := h, s_pcsamples := of_nat e, samples := (\<lambda>a. if a - of_nat e < ?n then 0 else samples (w\<lparr>heap_end := h, s_pcsamples := of_nat e\<rparr>) a),
      gmon_profile_data := of_nat e, gmon_profile_rate := alt_ticks_per_second w\<rparr>"
  have "niosv_pcsample_init cfg w = (False, snd (alt_alarm_start (pcsample_alarm cfg) 1 (pcsample_fn cfg) 0 ?w2))"
    using assms(1) r nz by (simp add: niosv_pcsample_init_def Let_def)
  then show ?thesis
    by (rule that) (simp_all add: alarm_start_frame h_def, simp add: alt_alarm_start_def alt_irq_disable_all_def
        alt_irq_enable_all_def upd_alarm_def Let_def)
qed

text \<open>
  When the text section is no multiple of 32 bytes, its tail has no place in the histogram: once the
  sampler has started, a sample there increments the halfword where the next block of the heap begins
  (for a histogram of whole words).
\<close>

theorem sample_hits_next_block:
  assumes "alt_ticks_per_second w \<noteq> 0" "unat (heap_limit cfg) \<le> 2 ^ 31" "0 < unat (heap_end w)"
    "unat (heap_end w) + 3 + hist_bytes cfg \<le> unat (heap_limit cfg)" "4 dvd hist_bytes cfg"
    and pc: "s_low_pc cfg \<le> pc" "pc < s_high_pc cfg" "(pc - s_low_pc cfg) div 32 = pcsamples_size cfg"
  shows "\<exists>w1 A. niosv_pcsample_init cfg w = (False, w1) \<and> A = s_pcsamples w1 + pcsamples_size cfg * 2
    \<and> samples (snd (niosv_pcsample cfg pc w1)) A = samples w1 A + 1
    \<and> (\<forall>n. 0 \<le> sint n \<and> unat A + unat n \<le> unat (heap_limit cfg) \<longrightarrow> fst (alt_sbrk (heap_limit cfg) n w1) = A)"
proof -
  define e where "e = (unat (heap_end w) + 3) div 4 * 4"
  obtain w1 where w1: "niosv_pcsample_init cfg w = (False, w1)" "s_pcsamples w1 = of_nat e"
    "heap_end w1 = of_nat (e + hist_bytes cfg)"
    by (rule pcsample_init_eq[OF assms(1-4), folded e_def])
  have e: "unat (heap_end w) \<le> e" "e \<le> unat (heap_end w) + 3" "4 dvd e" unfolding e_def by presburger+
  have A: "unat (of_nat (e + hist_bytes cfg) :: u32) = e + hist_bytes cfg"
    using e assms(2,4) by (intro unat_of_nat_32) simp
  have AA: "s_pcsamples w1 + pcsamples_size cfg * 2 = of_nat (e + hist_bytes cfg)"
    by (simp add: w1(2) hist_bytes_def)
  have "e \<le> 2 ^ 31" "0 < e" using e assms(2,3,4) by linarith+
  then have "s_pcsamples w1 \<noteq> 0" unfolding w1(2) by (rule of_nat_nonzero)
  then have s: "samples (snd (niosv_pcsample cfg pc w1)) (s_pcsamples w1 + pcsamples_size cfg * 2)
      = samples w1 (s_pcsamples w1 + pcsamples_size cfg * 2) + 1"
    using pc by (simp add: niosv_pcsample_def PCSAMPLE_BYTES_PER_BUCKET_def mult.commute Let_def)
  have up: "(e + hist_bytes cfg + 3) div 4 * 4 = e + hist_bytes cfg"
  proof -
    have "4 dvd e + hist_bytes cfg" using e(3) assms(5) by simp
    then show ?thesis by presburger
  qed
  have l: "unat (heap_end w1) \<le> unat (heap_limit cfg)" unfolding w1(3) A using e(2) assms(4) by simp
  have next_block: "fst (alt_sbrk (heap_limit cfg) n w1) = of_nat (e + hist_bytes cfg)"
    if "0 \<le> sint n" "unat (of_nat (e + hist_bytes cfg) :: u32) + unat n \<le> unat (heap_limit cfg)" for n
  proof -
    have m: "(unat (heap_end w1) + 3) div 4 * 4 = e + hist_bytes cfg" unfolding w1(3) A by (rule up)
    have "\<not> unat (heap_limit cfg) < e + hist_bytes cfg + unat n" using that(2) unfolding A by simp
    with sbrk_result[OF assms(2) l that(1), unfolded m] show ?thesis by (simp only: if_False fst_conv)
  qed
  show ?thesis
  proof (intro exI conjI allI impI)
    show "niosv_pcsample_init cfg w = (False, w1)" by (rule w1(1))
    show "of_nat (e + hist_bytes cfg) = s_pcsamples w1 + pcsamples_size cfg * 2" by (rule AA[symmetric])
    show "samples (snd (niosv_pcsample cfg pc w1)) (of_nat (e + hist_bytes cfg)) = samples w1 (of_nat (e + hist_bytes cfg)) + 1"
      by (rule s[unfolded AA])
  qed (rule next_block, blast+)
qed

definition tail_cfg :: prof_cfg where
  "tail_cfg = \<lparr>heap_limit = 0x20000, s_low_pc = 0x100, s_high_pc = 0x150, pcsample_alarm = 0x1100, pcsample_fn = 0x900\<rparr>"

theorem sample_hits_next_block_witness:
  "\<exists>w1 A. niosv_pcsample_init tail_cfg (prof_boot\<lparr>tick_rate := 1000\<rparr>) = (False, w1)
    \<and> A = s_pcsamples w1 + pcsamples_size tail_cfg * 2 \<and> samples (snd (niosv_pcsample tail_cfg 0x148 w1)) A = samples w1 A + 1"
proof -
  have "pcsamples_size tail_cfg = 2" by (simp add: pcsamples_size_def tail_cfg_def PCSAMPLE_BYTES_PER_BUCKET_def)
  moreover have "hist_bytes tail_cfg = 4" by (simp add: hist_bytes_def calculation)
  ultimately show ?thesis
    using sample_hits_next_block[where w = "prof_boot\<lparr>tick_rate := 1000\<rparr>" and cfg = tail_cfg and pc = "0x148"]
    by (auto simp: prof_boot_def heap_state.defs tail_cfg_def alt_ticks_per_second_def)
qed

end
