(* ===== verification/Loader.thy ===== *)
theory Loader
  imports HalPrelude
begin

text \<open>
  Bringing a program into memory: the sections loaded from flash (\<open>HAL/src/alt_load.c\<close>,
  \<open>HAL/inc/sys/alt_load.h\<close>), the block of thread-local storage (\<open>HAL/src/alt_tls.c\<close>), and flushing the
  data cache (\<open>HAL/src/alt_dcache_flush.c\<close> and its relatives). A load that does not end is \<open>None\<close>.
\<close>

section \<open>Loading sections\<close>

text \<open>A memory of words, by the address of each word.\<close>

type_synonym words = "u32 \<Rightarrow> u32"

partial_function (option) load_words :: "u32 \<Rightarrow> u32 \<Rightarrow> u32 \<Rightarrow> words \<Rightarrow> words option" where
  "load_words src dst end m =
     (if dst \<noteq> end then load_words (src + 4) (dst + 4) end (m(dst := m src)) else Some m)"

definition alt_load_section :: "u32 \<Rightarrow> u32 \<Rightarrow> u32 \<Rightarrow> words \<Rightarrow> words option" where
  "alt_load_section src dst end m = (if dst \<noteq> src then load_words src dst end m else Some m)"

text \<open>The symbols of the linker for one section: where it is stored, where it runs, where it ends.\<close>

record load_syms =
  flash_start :: u32
  ram_start :: u32
  ram_end :: u32

definition load_syms_section :: "load_syms \<Rightarrow> words \<Rightarrow> words option" where
  "load_syms_section s m = alt_load_section (flash_start s) (ram_start s) (ram_end s) m"

text \<open>The caches are flushed at the end, which changes no word; this processor has none.\<close>

definition alt_load :: "load_syms \<Rightarrow> load_syms \<Rightarrow> load_syms \<Rightarrow> words \<Rightarrow> words option" where
  "alt_load rwdata exceptions rodata m =
     Option.bind (load_syms_section rwdata m)
       (\<lambda>m1. Option.bind (load_syms_section exceptions m1) (load_syms_section rodata))"

section \<open>Thread-local storage\<close>

type_synonym bytes_mem = "u32 \<Rightarrow> u8"

definition mem_set :: "u32 \<Rightarrow> u8 \<Rightarrow> u32 \<Rightarrow> bytes_mem \<Rightarrow> bytes_mem" where
  "mem_set p c n m = (\<lambda>a. if a - p < n then c else m a)"

definition mem_copy :: "u32 \<Rightarrow> u32 \<Rightarrow> u32 \<Rightarrow> bytes_mem \<Rightarrow> bytes_mem" where
  "mem_copy p q n m = (\<lambda>a. if a - p < n then m (q + (a - p)) else m a)"

record tls_syms =
  tbss_size :: u32
  tdata_size :: u32
  tdata_source :: u32
  tdata_start :: u32
  tbss_start :: u32

definition TBSS_BLOCK_OFFSET :: "tls_syms \<Rightarrow> u32" where
  "TBSS_BLOCK_OFFSET s = tbss_start s - tdata_start s"

definition alt_init_tls_block :: "tls_syms \<Rightarrow> u32 \<Rightarrow> bytes_mem \<Rightarrow> bytes_mem" where
  "alt_init_tls_block s p m =
     mem_copy p (tdata_source s) (tdata_size s) (mem_set (p + TBSS_BLOCK_OFFSET s) 0 (tbss_size s) m)"

section \<open>The data cache\<close>

text \<open>
  The addresses given to the flush instruction, for lines of \<open>ls\<close> bytes; the same loop invalidates in
  \<open>alt_dcache_flush_no_writeback\<close>. This processor has no cache and compiles neither.
\<close>

partial_function (option) flush_loop :: "u32 \<Rightarrow> u32 \<Rightarrow> u32 \<Rightarrow> u32 list \<Rightarrow> (u32 \<times> u32 list) option" where
  "flush_loop ls i end done =
     (if i < end then flush_loop ls (i + ls) end (done @ [i]) else Some (i, done))"

definition alt_dcache_flush :: "u32 \<Rightarrow> u32 \<Rightarrow> u32 \<Rightarrow> u32 list option" where
  "alt_dcache_flush ls start len =
     map_option (\<lambda>(i, done). if start AND (ls - 1) \<noteq> 0 then done @ [i] else done)
       (flush_loop ls start (start + len) [])"

definition alt_dcache_flush_no_writeback :: "u32 \<Rightarrow> u32 \<Rightarrow> u32 \<Rightarrow> u32 list option" where
  "alt_dcache_flush_no_writeback ls start len = alt_dcache_flush ls start len"

definition alt_dcache_flush_all :: "u32 \<Rightarrow> u32 \<Rightarrow> u32 list option" where
  "alt_dcache_flush_all ls cache_size = map_option snd (flush_loop ls 0 cache_size [])"

section \<open>Loading works\<close>

text \<open>\<open>n\<close> words from \<open>src\<close>, none of which lies where it or another one is loaded to.\<close>

definition apart :: "u32 \<Rightarrow> u32 \<Rightarrow> nat \<Rightarrow> bool" where
  "apart src dst n \<longleftrightarrow> (\<forall>i<n. \<forall>j<n. src + 4 * of_nat i \<noteq> dst + 4 * of_nat j)"

definition loaded :: "u32 \<Rightarrow> u32 \<Rightarrow> nat \<Rightarrow> words \<Rightarrow> words" where
  "loaded src dst n m = (\<lambda>a. if \<exists>i<n. a = dst + 4 * of_nat i then m (src + (a - dst)) else m a)"

lemma of_nat4_inj: "i < 2 ^ 30 \<Longrightarrow> (4 * of_nat i :: u32) = 0 \<longleftrightarrow> i = 0"
proof -
  assume "i < 2 ^ 30"
  then have "unat (of_nat (4 * i) :: u32) = 4 * i" by (intro unat_of_nat_32) simp
  then show ?thesis by (metis mult_is_0 of_nat_0 of_nat_mult of_nat_numeral unsigned_0 zero_neq_numeral)
qed

lemma load_words_ok:
  "n < 2 ^ 30 \<Longrightarrow> apart src dst n \<Longrightarrow> load_words src dst (dst + 4 * of_nat n) m = Some (loaded src dst n m)"
proof (induction n arbitrary: src dst m)
  case 0
  then show ?case by (subst load_words.simps) (simp add: loaded_def)
next
  case (Suc n)
  let ?m = "m(dst := m src)"
  have ne: "dst \<noteq> dst + 4 * of_nat (Suc n)"
    using of_nat4_inj[of "Suc n"] Suc.prems(1) by simp
  have sh: "4 + 4 * of_nat i = (4 * of_nat (Suc i) :: u32)" for i by simp
  have ap: "apart (src + 4) (dst + 4) n"
    unfolding apart_def add.assoc sh using Suc.prems(2) by (auto simp: apart_def simp del: of_nat_Suc)
  have "load_words src dst (dst + 4 * of_nat (Suc n)) m = load_words (src + 4) (dst + 4) (dst + 4 + 4 * of_nat n) ?m"
    using ne by (subst load_words.simps) (simp add: add.assoc)
  also have "\<dots> = Some (loaded (src + 4) (dst + 4) n ?m)"
    using Suc.IH[OF _ ap] Suc.prems(1) by simp
  also have "loaded (src + 4) (dst + 4) n ?m = loaded src dst (Suc n) m"
  proof
    fix a
    have away: "src + (a - dst) \<noteq> dst" if "i < Suc n" "a = dst + 4 * of_nat i" for i
    proof -
      have "src + 4 * of_nat i \<noteq> dst + 4 * of_nat 0" using Suc.prems(2) that(1) unfolding apart_def by blast
      then show ?thesis unfolding that(2) by simp
    qed
    let ?P = "\<exists>i<n. a = dst + 4 + 4 * of_nat i"
    have split: "(\<exists>i<Suc n. a = dst + 4 * of_nat i) \<longleftrightarrow> a = dst \<or> ?P"
      unfolding add.assoc sh by (auto simp: less_Suc_eq_0_disj simp del: of_nat_Suc)
    have eq: "src + 4 + (a - (dst + 4)) = src + (a - dst)" by simp
    consider "?P" | "\<not> ?P" "a = dst" | "\<not> ?P" "a \<noteq> dst" by blast
    then show "loaded (src + 4) (dst + 4) n ?m a = loaded src dst (Suc n) m a"
    proof cases
      case 1
      then have r: "loaded src dst (Suc n) m a = m (src + (a - dst))" unfolding loaded_def split by simp
      have "\<exists>i<Suc n. a = dst + 4 * of_nat i" using 1 split by blast
      then have "src + (a - dst) \<noteq> dst" using away by blast
      with 1 r show ?thesis unfolding loaded_def eq by simp
    next
      case 2
      then show ?thesis unfolding loaded_def split by simp
    next
      case 3
      have "loaded (src + 4) (dst + 4) n ?m a = ?m a" unfolding loaded_def by (rule if_not_P[OF 3(1)])
      moreover have "loaded src dst (Suc n) m a = m a" unfolding loaded_def split by (rule if_not_P) (use 3 in blast)
      ultimately show ?thesis using 3(2) by simp
    qed
  qed
  finally show ?case .
qed

text \<open>A section whose end is not a whole number of words away is never done.\<close>

lemma load_words_end: "load_words src dst end m = Some m' \<Longrightarrow> (end - dst) AND 3 = 0"
proof (rule load_words.raw_induct[where P = "\<lambda>src dst end m r. (end - dst) AND 3 = 0", rotated], assumption)
  fix load :: "u32 \<Rightarrow> u32 \<Rightarrow> u32 \<Rightarrow> words \<Rightarrow> words option" and src dst stop :: u32 and m r
  assume ih: "\<And>src dst end m r. load src dst end m = Some r \<Longrightarrow> (end - dst) AND 3 = 0"
    and r: "(if dst \<noteq> stop then load (src + 4) (dst + 4) stop (m(dst := m src)) else Some m) = Some r"
  show "(stop - dst) AND 3 = 0"
  proof (cases "dst = stop")
    case False
    then have "(stop - (dst + 4)) AND 3 = 0" using ih r by simp
    moreover have "(y + 4) AND 3 = y AND (3 :: u32)" for y
    proof -
      have m: "z AND (3::u32) = take_bit 2 z" for z by (simp add: take_bit_eq_mask mask_eq_exp_minus_1)
      have u: "unat (take_bit 2 z) = unat z mod 4" for z :: u32
        unfolding unsigned_take_bit_eq by (simp add: take_bit_eq_mod)
      have "unat (y + 4) mod 4 = unat y mod 4"
        by (simp add: unat_word_ariths mod_mod_cancel)
      then have "unat (take_bit 2 (y + 4)) = unat (take_bit 2 y)" unfolding u .
      then show ?thesis unfolding m by (simp only: word_unat_eq_iff)
    qed
    from this[of "stop - (dst + 4)"] have "(stop - (dst + 4)) AND 3 = (stop - dst) AND 3" by simp
    ultimately show ?thesis by simp
  qed simp
qed

lemma load_words_hangs: "(end - dst) AND 3 \<noteq> 0 \<Longrightarrow> load_words src dst end m = None"
  using load_words_end by (metis not_Some_eq)

section \<open>Loading all sections\<close>

definition clear_of :: "u32 \<Rightarrow> nat \<Rightarrow> u32 \<Rightarrow> nat \<Rightarrow> bool" where
  "clear_of p n q k \<longleftrightarrow> (\<forall>i<n. \<forall>j<k. p + 4 * of_nat i \<noteq> q + 4 * of_nat j)"

lemma loaded_in: "i < n \<Longrightarrow> loaded src dst n m (dst + 4 * of_nat i) = m (src + 4 * of_nat i)"
  by (auto simp: loaded_def)

lemma loaded_out: "\<forall>j<n. a \<noteq> dst + 4 * of_nat j \<Longrightarrow> loaded src dst n m a = m a"
  by (auto simp: loaded_def)

lemma loaded_clear: "clear_of p k dst n \<Longrightarrow> i < k \<Longrightarrow> loaded src dst n m (p + 4 * of_nat i) = m (p + 4 * of_nat i)"
  by (rule loaded_out) (simp add: clear_of_def)

text \<open>A section of \<open>n\<close> words, to be copied away from where it is stored, or in its place already.\<close>

definition section_ok :: "load_syms \<times> nat \<Rightarrow> bool" where
  "section_ok x \<longleftrightarrow>
     (let (s, n) = x
      in ram_end s = ram_start s + 4 * of_nat n \<and> n < 2 ^ 30
         \<and> (ram_start s = flash_start s \<or> apart (flash_start s) (ram_start s) n))"

definition no_clash :: "load_syms \<times> nat \<Rightarrow> load_syms \<times> nat \<Rightarrow> bool" where
  "no_clash x y \<longleftrightarrow>
     (let (s, n) = x; (t, k) = y
      in clear_of (ram_start s) n (ram_start t) k \<and> clear_of (flash_start s) n (ram_start t) k
         \<and> clear_of (ram_start t) k (ram_start s) n \<and> clear_of (flash_start t) k (ram_start s) n)"

lemma section_loads:
  assumes "section_ok (s, n)"
  shows "load_syms_section s m = Some (loaded (flash_start s) (ram_start s) n m)"
proof (cases "ram_start s = flash_start s")
  case True
  have "loaded (flash_start s) (ram_start s) n m = m" by (auto simp: loaded_def True)
  with True show ?thesis by (simp add: load_syms_section_def alt_load_section_def)
next
  case False
  then show ?thesis
    using assms load_words_ok[of n "flash_start s" "ram_start s" m]
    by (simp add: load_syms_section_def alt_load_section_def section_ok_def)
qed

text \<open>
  With sections of whole words that do not overlap where they are loaded to, nor where others are
  stored, the loader ends with every word of every section in its place, and changes nothing else.
\<close>

theorem alt_load_places_sections:
  assumes ok: "\<forall>x\<in>set L. section_ok x" and apart: "sorted_wrt no_clash L"
    and L: "L = [(rwdata, n1), (exceptions, n2), (rodata, n3)]"
  shows "\<exists>m'. alt_load rwdata exceptions rodata m = Some m'
    \<and> (\<forall>(s, n)\<in>set L. \<forall>i<n. m' (ram_start s + 4 * of_nat i) = m (flash_start s + 4 * of_nat i))
    \<and> (\<forall>a. (\<forall>(s, n)\<in>set L. \<forall>i<n. a \<noteq> ram_start s + 4 * of_nat i) \<longrightarrow> m' a = m a)"
proof -
  define m1 where "m1 = loaded (flash_start rwdata) (ram_start rwdata) n1 m"
  define m2 where "m2 = loaded (flash_start exceptions) (ram_start exceptions) n2 m1"
  define m3 where "m3 = loaded (flash_start rodata) (ram_start rodata) n3 m2"
  have r: "alt_load rwdata exceptions rodata m = Some m3"
    using ok by (simp add: L alt_load_def section_loads[of _ n1] section_loads[of _ n2] section_loads[of _ n3] m1_def m2_def m3_def)
  have c: "clear_of (ram_start rwdata) n1 (ram_start exceptions) n2" "clear_of (ram_start rwdata) n1 (ram_start rodata) n3"
    "clear_of (ram_start exceptions) n2 (ram_start rodata) n3"
    "clear_of (flash_start exceptions) n2 (ram_start rwdata) n1" "clear_of (flash_start rodata) n3 (ram_start rwdata) n1"
    "clear_of (flash_start rodata) n3 (ram_start exceptions) n2"
    using apart by (auto simp: L no_clash_def)
  have "m3 (ram_start rwdata + 4 * of_nat i) = m (flash_start rwdata + 4 * of_nat i)" if "i < n1" for i
    unfolding m3_def m2_def m1_def by (simp only: loaded_clear[OF c(2) that] loaded_clear[OF c(1) that] loaded_in[OF that])
  moreover have "m3 (ram_start exceptions + 4 * of_nat i) = m (flash_start exceptions + 4 * of_nat i)" if "i < n2" for i
    unfolding m3_def m2_def m1_def by (simp only: loaded_clear[OF c(3) that] loaded_in[OF that] loaded_clear[OF c(4) that])
  moreover have "m3 (ram_start rodata + 4 * of_nat i) = m (flash_start rodata + 4 * of_nat i)" if "i < n3" for i
    unfolding m3_def m2_def m1_def by (simp only: loaded_in[OF that] loaded_clear[OF c(6) that] loaded_clear[OF c(5) that])
  moreover have "m3 a = m a" if "\<forall>(s, n)\<in>set L. \<forall>i<n. a \<noteq> ram_start s + 4 * of_nat i" for a
    unfolding m3_def m2_def m1_def using that by (simp add: L loaded_out)
  ultimately show ?thesis using r by (auto simp: L)
qed

text \<open>A program of three words of data and a word of handler that is already in place.\<close>

theorem alt_load_places_sections_witness:
  "\<exists>m'. alt_load \<lparr>flash_start = 0x100, ram_start = 0x800, ram_end = 0x80C\<rparr> \<lparr>flash_start = 0x700, ram_start = 0x700, ram_end = 0x704\<rparr>
      \<lparr>flash_start = 0x10C, ram_start = 0x80C, ram_end = 0x810\<rparr> (\<lambda>a. a) = Some m'
    \<and> m' 0x808 = 0x108 \<and> m' 0x700 = 0x700 \<and> m' 0x80C = 0x10C \<and> m' 0x200 = 0x200"
proof -
  let ?L = "[(\<lparr>flash_start = 0x100, ram_start = 0x800, ram_end = 0x80C\<rparr>, 3), (\<lparr>flash_start = 0x700, ram_start = 0x700, ram_end = 0x704\<rparr>, 1),
      (\<lparr>flash_start = 0x10C, ram_start = 0x80C, ram_end = 0x810\<rparr>, 1 :: nat)]"
  have three: "(i :: nat) < 3 \<longleftrightarrow> i = 0 \<or> i = 1 \<or> i = 2" for i by auto
  have ok: "\<forall>x\<in>set ?L. section_ok x"
    by (auto simp: section_ok_def apart_def three)
  have clash: "sorted_wrt no_clash ?L"
    by (auto simp: no_clash_def clear_of_def three)
  from alt_load_places_sections[OF ok clash refl, of "\<lambda>a. a"] obtain m' where m':
    "alt_load \<lparr>flash_start = 0x100, ram_start = 0x800, ram_end = 0x80C\<rparr> \<lparr>flash_start = 0x700, ram_start = 0x700, ram_end = 0x704\<rparr>
      \<lparr>flash_start = 0x10C, ram_start = 0x80C, ram_end = 0x810\<rparr> (\<lambda>a. a) = Some m'"
    "\<forall>i<3. m' (0x800 + 4 * of_nat i) = 0x100 + 4 * of_nat i" "m' 0x700 = 0x700" "m' 0x80C = 0x10C" "m' 0x200 = 0x200"
    by (auto simp: three)
  moreover have "m' 0x808 = 0x108" using m'(2)[rule_format, of 2] by simp
  ultimately show ?thesis by blast
qed

section \<open>Thread-local storage\<close>

text \<open>A new block holds the initial values, and zeros where the linker puts the rest.\<close>

lemma tls_block:
  assumes "unat (tdata_size s) \<le> unat (TBSS_BLOCK_OFFSET s)" "unat (TBSS_BLOCK_OFFSET s) + unat (tbss_size s) < 2 ^ 32"
    and "\<And>i. i < tdata_size s \<Longrightarrow> tbss_size s \<le> tdata_source s + i - (p + TBSS_BLOCK_OFFSET s)"
  shows "i < tdata_size s \<Longrightarrow> alt_init_tls_block s p m (p + i) = m (tdata_source s + i)"
    and "j < tbss_size s \<Longrightarrow> alt_init_tls_block s p m (p + TBSS_BLOCK_OFFSET s + j) = 0"
proof -
  show "alt_init_tls_block s p m (p + i) = m (tdata_source s + i)" if "i < tdata_size s"
    using leD[OF assms(3)[OF that]] that by (simp add: alt_init_tls_block_def mem_copy_def mem_set_def del: not_less)
next
  assume j: "j < tbss_size s"
  have "unat (TBSS_BLOCK_OFFSET s + j) = unat (TBSS_BLOCK_OFFSET s) + unat j"
    using assms(2) j by (simp add: unat_word_ariths word_less_nat_alt)
  then have "\<not> TBSS_BLOCK_OFFSET s + j < tdata_size s" using assms(1) by (simp add: word_less_nat_alt)
  then show "alt_init_tls_block s p m (p + TBSS_BLOCK_OFFSET s + j) = 0"
    using j by (simp add: alt_init_tls_block_def mem_copy_def mem_set_def add.assoc)
qed

section \<open>Flushing\<close>

lemma flush_loop_run:
  assumes ls: "0 < unat ls"
  shows "unat stop + unat ls < 2 ^ 32 \<Longrightarrow>
    \<exists>c i'. flush_loop ls i stop acc = Some (i', acc @ map (\<lambda>k. i + of_nat k * ls) [0..<c])
      \<and> i' = i + of_nat c * ls \<and> unat stop \<le> unat i' \<and> (\<forall>k<c. unat (i + of_nat k * ls) = unat i + k * unat ls \<and> unat i + k * unat ls < unat stop)
      \<and> unat i' = unat i + c * unat ls"
proof (induction "unat stop - unat i" arbitrary: i acc rule: less_induct)
  case less
  show ?case
  proof (cases "i < stop")
    case False
    then show ?thesis
      by (intro exI[of _ 0] exI[of _ i]) (subst flush_loop.simps, auto simp: word_less_nat_alt)
  next
    case True
    then have u: "unat (i + ls) = unat i + unat ls" using less.prems by (simp add: unat_word_ariths word_less_nat_alt)
    have "unat stop - unat (i + ls) < unat stop - unat i" using True ls u by (simp add: word_less_nat_alt)
    from less.hyps[OF this less.prems, of "acc @ [i]"] obtain c i' where ih:
      "flush_loop ls (i + ls) stop (acc @ [i]) = Some (i', (acc @ [i]) @ map (\<lambda>k. i + ls + of_nat k * ls) [0..<c])"
      "i' = i + ls + of_nat c * ls" "unat stop \<le> unat i'" "unat i' = unat i + unat ls + c * unat ls"
      "\<forall>k<c. unat (i + ls + of_nat k * ls) = unat i + unat ls + k * unat ls \<and> unat i + unat ls + k * unat ls < unat stop"
      unfolding u by blast
    have sh: "i + ls + of_nat k * ls = i + of_nat (Suc k) * ls" for k by (simp add: algebra_simps)
    have l: "[i] @ map (\<lambda>k. i + of_nat (Suc k) * ls) [0..<c] = map (\<lambda>k. i + of_nat k * ls) [0..<Suc c]"
      by (simp only: map_upt_Suc) simp
    have "flush_loop ls i stop acc = Some (i', acc @ map (\<lambda>k. i + of_nat k * ls) [0..<Suc c])"
      using True ih(1) unfolding sh append_assoc l by (subst flush_loop.simps) simp
    moreover have "unat (i + of_nat k * ls) = unat i + k * unat ls \<and> unat i + k * unat ls < unat stop" if "k < Suc c" for k
    proof (cases k)
      case 0
      then show ?thesis using True by (simp add: word_less_nat_alt)
    next
      case (Suc k')
      then show ?thesis using ih(5)[rule_format, of k'] that unfolding sh by simp
    qed
    ultimately show ?thesis using ih(2-4) unfolding sh by (intro exI[of _ "Suc c"] exI[of _ i']) (auto simp del: of_nat_Suc upt_Suc)
  qed
qed

end
