(* ===== verification/DevRegistry.thy ===== *)
theory DevRegistry
  imports Llist
begin

text \<open>
  The registries of devices, filesystems, flash devices and DMA channels
  (\<open>HAL/src/alt_dev_llist_insert.c\<close>, \<open>alt_dev.c\<close>, \<open>alt_fs_reg.c\<close>, \<open>alt_find_dev.c\<close>,
  \<open>alt_find_file.c\<close>, \<open>alt_flash_dev.c\<close>, \<open>alt_dma_txchan_open.c\<close>, \<open>alt_dma_rxchan_open.c\<close>): linked lists
  of named objects, searched by name. An object is its address; a name is \<open>None\<close> when the
  pointer is \<open>NULL\<close>. A search gives \<open>None\<close> when it does not come to an end or meets a \<open>NULL\<close> name.
\<close>

section \<open>State\<close>

record hal_state =
  links :: links
  dev_names :: "u32 \<Rightarrow> string option"
  errno :: int

text \<open>
  The addresses of the statically allocated heads and of the null device. The linker chooses
  them; the model only uses that they differ from each other and from \<open>NULL\<close>.
\<close>

definition ALT_FS_LIST :: u32 where "ALT_FS_LIST = 0x1000"

definition ALT_DEV_LIST :: u32 where "ALT_DEV_LIST = 0x1008"

definition ALT_DEV_NULL :: u32 where "ALT_DEV_NULL = 0x1010"

definition ALT_FLASH_DEV_LIST :: u32 where "ALT_FLASH_DEV_LIST = 0x1040"

definition ALT_DMA_RXCHAN_LIST :: u32 where "ALT_DMA_RXCHAN_LIST = 0x1048"

definition ALT_DMA_TXCHAN_LIST :: u32 where "ALT_DMA_TXCHAN_LIST = 0x1050"

lemmas layout_defs = ALT_FS_LIST_def ALT_DEV_LIST_def ALT_DEV_NULL_def ALT_FLASH_DEV_LIST_def
  ALT_DMA_RXCHAN_LIST_def ALT_DMA_TXCHAN_LIST_def

text \<open>The lists as the image initialises them: only the null device is registered.\<close>

definition boot_links :: "links \<Rightarrow> links" where
  "boot_links m =
     (ALT_LLIST_HEAD ALT_FS_LIST (ALT_LLIST_HEAD ALT_FLASH_DEV_LIST
       (ALT_LLIST_HEAD ALT_DMA_RXCHAN_LIST (ALT_LLIST_HEAD ALT_DMA_TXCHAN_LIST m))))
     (ALT_DEV_LIST := \<lparr>ln_next = ALT_DEV_NULL, ln_prev = ALT_DEV_NULL\<rparr>,
      ALT_DEV_NULL := \<lparr>ln_next = ALT_DEV_LIST, ln_prev = ALT_DEV_LIST\<rparr>)"

lemma boot_dev_list: "ring_list (boot_links m) ALT_DEV_LIST [ALT_DEV_NULL]"
  by (simp add: ring_list_def boot_links_def layout_defs)

lemma boot_fs_list: "ring_list (boot_links m) ALT_FS_LIST []"
  by (simp add: ring_list_def boot_links_def layout_defs ALT_LLIST_HEAD_def)

section \<open>Registration\<close>

definition alt_dev_llist_insert :: "u32 \<Rightarrow> u32 \<Rightarrow> 'a hal_state_scheme \<Rightarrow> int \<times> 'a hal_state_scheme" where
  "alt_dev_llist_insert dev l s =
     (if dev = 0 \<or> dev_names s dev = None then (- EINVAL, s\<lparr>errno := EINVAL\<rparr>)
      else (0, s\<lparr>links := alt_llist_insert l dev (links s)\<rparr>))"

definition alt_dev_reg :: "u32 \<Rightarrow> 'a hal_state_scheme \<Rightarrow> int \<times> 'a hal_state_scheme" where
  "alt_dev_reg dev s = alt_dev_llist_insert dev ALT_DEV_LIST s"

definition alt_fs_reg :: "u32 \<Rightarrow> 'a hal_state_scheme \<Rightarrow> int \<times> 'a hal_state_scheme" where
  "alt_fs_reg dev s =
     (if dev_names s dev = None then (- ENODEV, s)
      else (0, s\<lparr>links := alt_llist_insert ALT_FS_LIST dev (links s)\<rparr>))"

definition alt_flash_device_register :: "u32 \<Rightarrow> 'a hal_state_scheme \<Rightarrow> int \<times> 'a hal_state_scheme" where
  "alt_flash_device_register fd s = alt_dev_llist_insert fd ALT_FLASH_DEV_LIST s"

definition alt_dma_txchan_reg :: "u32 \<Rightarrow> 'a hal_state_scheme \<Rightarrow> int \<times> 'a hal_state_scheme" where
  "alt_dma_txchan_reg dev s = alt_dev_llist_insert dev ALT_DMA_TXCHAN_LIST s"

definition alt_dma_rxchan_reg :: "u32 \<Rightarrow> 'a hal_state_scheme \<Rightarrow> int \<times> 'a hal_state_scheme" where
  "alt_dma_rxchan_reg dev s = alt_dev_llist_insert dev ALT_DMA_RXCHAN_LIST s"

section \<open>Comparing names\<close>

text \<open>A string in memory ends with a NUL; reading at its length gives the NUL.\<close>

definition cstr :: "string \<Rightarrow> nat \<Rightarrow> char" where
  "cstr s i = (if i < length s then s ! i else CHR 0x00)"

definition MAX_STRING_LENGTH :: nat where "MAX_STRING_LENGTH = 1000"

function name_len :: "string \<Rightarrow> string \<Rightarrow> nat \<Rightarrow> nat" where
  "name_len name nm len =
     (if cstr name len \<noteq> CHR 0x00 \<and> cstr nm len \<noteq> CHR 0x00 \<and> len < MAX_STRING_LENGTH then
        (if cstr nm len \<noteq> cstr name len then len else name_len name nm (len + 1))
      else len)"
  by pat_completeness auto

termination
  by (relation "measure (\<lambda>(name, nm, len). MAX_STRING_LENGTH - len)") auto

declare name_len.simps [simp del]

definition name_matches :: "string \<Rightarrow> string \<Rightarrow> bool" where
  "name_matches name nm =
     (let len = name_len name nm 0 in cstr name len = CHR 0x00 \<and> cstr nm len = CHR 0x00)"

function fs_owns_from :: "string \<Rightarrow> string \<Rightarrow> nat \<Rightarrow> bool" where
  "fs_owns_from name fs len =
     (if len < MAX_STRING_LENGTH then
        (if cstr fs len = CHR ''/'' \<and> cstr fs (len + 1) = CHR 0x00 \<or> cstr fs len = CHR 0x00
         then cstr name len = CHR ''/'' \<or> cstr name len = CHR 0x00
         else if cstr fs len \<noteq> cstr name len then False
         else fs_owns_from name fs (len + 1))
      else False)"
  by pat_completeness auto

termination
  by (relation "measure (\<lambda>(name, fs, len). MAX_STRING_LENGTH - len)") auto

declare fs_owns_from.simps [simp del]

definition fs_owns :: "string \<Rightarrow> string \<Rightarrow> bool" where
  "fs_owns name fs = fs_owns_from name fs 0"

section \<open>Searching\<close>

text \<open>The walk of \<open>alt_find_dev\<close> and \<open>alt_find_file\<close>, which differ in the comparison only.\<close>

partial_function (option) dev_search ::
  "(string \<Rightarrow> bool) \<Rightarrow> (u32 \<Rightarrow> string option) \<Rightarrow> links \<Rightarrow> u32 \<Rightarrow> u32 \<Rightarrow> u32 option" where
  "dev_search match names m l next =
     (if next = l then Some 0
      else (case names next of
              None \<Rightarrow> None
            | Some nm \<Rightarrow> if match nm then Some next
                         else dev_search match names m l (ln_next (m next))))"

definition alt_find_dev :: "string \<Rightarrow> u32 \<Rightarrow> 'a hal_state_scheme \<Rightarrow> u32 option" where
  "alt_find_dev name l s =
     (if l = 0 then Some 0
      else dev_search (name_matches name) (dev_names s) (links s) l (ln_next (links s l)))"

definition alt_find_file :: "string \<Rightarrow> 'a hal_state_scheme \<Rightarrow> u32 option" where
  "alt_find_file name s =
     dev_search (fs_owns name) (dev_names s) (links s) ALT_FS_LIST (ln_next (links s ALT_FS_LIST))"

definition alt_dma_txchan_open :: "string \<Rightarrow> 'a hal_state_scheme \<Rightarrow> (u32 \<times> 'a hal_state_scheme) option" where
  "alt_dma_txchan_open name s =
     (case alt_find_dev name ALT_DMA_TXCHAN_LIST s of
        None \<Rightarrow> None
      | Some dev \<Rightarrow> Some (dev, if dev = 0 then s\<lparr>errno := ENODEV\<rparr> else s))"

definition alt_dma_rxchan_open :: "string \<Rightarrow> 'a hal_state_scheme \<Rightarrow> (u32 \<times> 'a hal_state_scheme) option" where
  "alt_dma_rxchan_open name s =
     (case alt_find_dev name ALT_DMA_RXCHAN_LIST s of
        None \<Rightarrow> None
      | Some dev \<Rightarrow> Some (dev, if dev = 0 then s\<lparr>errno := ENODEV\<rparr> else s))"

text \<open>\<open>opens\<close> and \<open>closes\<close> are the open and close functions of the flash devices, \<open>None\<close> for \<open>NULL\<close>.\<close>

definition alt_flash_open_dev ::
  "(u32 \<Rightarrow> (u32 \<Rightarrow> string \<Rightarrow> 'a hal_state_scheme \<Rightarrow> u32 \<times> 'a hal_state_scheme) option)
   \<Rightarrow> string \<Rightarrow> 'a hal_state_scheme \<Rightarrow> (u32 \<times> 'a hal_state_scheme) option" where
  "alt_flash_open_dev opens name s =
     (case alt_find_dev name ALT_FLASH_DEV_LIST s of
        None \<Rightarrow> None
      | Some dev \<Rightarrow>
          Some (case (if dev \<noteq> 0 then opens dev else None) of
                  Some f \<Rightarrow> f dev name s
                | None \<Rightarrow> (dev, s)))"

definition alt_flash_close_dev ::
  "(u32 \<Rightarrow> (u32 \<Rightarrow> 'a hal_state_scheme \<Rightarrow> int \<times> 'a hal_state_scheme) option)
   \<Rightarrow> u32 \<Rightarrow> 'a hal_state_scheme \<Rightarrow> 'a hal_state_scheme" where
  "alt_flash_close_dev closes fd s =
     (case (if fd \<noteq> 0 then closes fd else None) of Some f \<Rightarrow> snd (f fd s) | None \<Rightarrow> s)"

section \<open>What the comparisons decide\<close>

definition nul_free :: "string \<Rightarrow> bool" where
  "nul_free s = (CHR 0x00 \<notin> set s)"

lemma cstr_less: "i < length s \<Longrightarrow> cstr s i = s ! i"
  by (simp add: cstr_def)

lemma cstr_nul: "nul_free s \<Longrightarrow> cstr s i = CHR 0x00 \<longleftrightarrow> length s \<le> i"
  unfolding cstr_def nul_free_def by (auto simp: not_less) (metis not_less nth_mem)

lemma name_len_same:
  assumes "nul_free s" "len \<le> length s" "length s \<le> MAX_STRING_LENGTH"
  shows "name_len s s len = length s"
  using assms(2)
proof (induction "length s - len" arbitrary: len)
  case 0
  then show ?case using assms(1) by (subst name_len.simps) (simp add: cstr_nul)
next
  case (Suc n)
  then have "len < length s" "n = length s - (len + 1)" by simp_all
  then show ?case using Suc.hyps(1)[of "len + 1"] assms(1,3)
    by (subst name_len.simps) (simp add: cstr_nul)
qed

lemma name_len_prefix:
  assumes "nul_free name" "nul_free nm" "take len name = take len nm"
    "len \<le> length name" "len \<le> length nm" "len \<le> MAX_STRING_LENGTH"
  shows "\<exists>k. name_len name nm len = k \<and> k \<le> MAX_STRING_LENGTH \<and> k \<le> length name \<and> k \<le> length nm
    \<and> take k name = take k nm"
  using assms
proof (induction name nm len rule: name_len.induct)
  case (1 name nm len)
  show ?case
  proof (cases "cstr name len \<noteq> CHR 0x00 \<and> cstr nm len \<noteq> CHR 0x00 \<and> len < MAX_STRING_LENGTH
      \<and> cstr nm len = cstr name len")
    case True
    then have l: "len < length name" "len < length nm" using 1 by (simp_all add: cstr_nul)
    then have "take (len + 1) name = take (len + 1) nm"
      using True 1 by (simp add: take_Suc_conv_app_nth cstr_less)
    then show ?thesis using 1 True l by (subst name_len.simps) auto
  next
    case False
    then have "name_len name nm len = len" by (subst name_len.simps) auto
    then show ?thesis using 1 by auto
  qed
qed

lemma name_matches_iff:
  assumes "nul_free name" "nul_free nm"
  shows "name_matches name nm \<longleftrightarrow> name = nm \<and> length name \<le> MAX_STRING_LENGTH"
proof
  assume m: "name_matches name nm"
  obtain k where k: "name_len name nm 0 = k" "k \<le> MAX_STRING_LENGTH" "take k name = take k nm"
    using name_len_prefix[OF assms, of 0] by auto
  then have "length name \<le> k" "length nm \<le> k"
    using m assms by (auto simp: name_matches_def Let_def cstr_nul)
  then show "name = nm \<and> length name \<le> MAX_STRING_LENGTH" using k by simp
next
  assume e: "name = nm \<and> length name \<le> MAX_STRING_LENGTH"
  then have "name = nm" "length nm \<le> MAX_STRING_LENGTH" by auto
  moreover from this have "name_len nm nm 0 = length nm" using assms name_len_same[of nm 0] by simp
  ultimately have "name = nm" "name_len nm nm 0 = length nm" by simp_all
  then show "name_matches name nm" using assms by (simp add: name_matches_def Let_def cstr_nul)
qed

text \<open>A filesystem's mount point is its name without a final slash; it owns itself and what is below it.\<close>

definition mount_point :: "string \<Rightarrow> string" where
  "mount_point fs = (if fs \<noteq> [] \<and> last fs = CHR ''/'' then butlast fs else fs)"

definition owns :: "string \<Rightarrow> string \<Rightarrow> bool" where
  "owns fs name \<longleftrightarrow> take (length (mount_point fs)) name = mount_point fs
     \<and> (let rest = drop (length (mount_point fs)) name in rest = [] \<or> hd rest = CHR ''/'')"

lemma mount_point_nth: "i < length (mount_point fs) \<Longrightarrow> mount_point fs ! i = fs ! i \<and> i < length fs"
  by (auto simp: mount_point_def nth_butlast split: if_splits)

lemma mount_end:
  assumes "nul_free fs"
  shows "(cstr fs i = CHR ''/'' \<and> cstr fs (i + 1) = CHR 0x00 \<or> cstr fs i = CHR 0x00)
     = (if i < length (mount_point fs) then False
        else i = length (mount_point fs) \<or> length fs \<le> i)"
proof -
  have s: "cstr fs i = CHR ''/'' \<and> cstr fs (i + 1) = CHR 0x00 \<longleftrightarrow> fs \<noteq> [] \<and> last fs = CHR ''/'' \<and> i = length fs - 1"
  proof
    assume a: "cstr fs i = CHR ''/'' \<and> cstr fs (i + 1) = CHR 0x00"
    then have "i < length fs" by (auto simp: cstr_def split: if_splits)
    moreover have "length fs \<le> i + 1" using a cstr_nul[OF assms, of "i + 1"] by simp
    ultimately have i: "fs \<noteq> []" "i = length fs - 1" by auto
    then have "fs ! i = CHR ''/''" using a by (simp add: cstr_less)
    then show "fs \<noteq> [] \<and> last fs = CHR ''/'' \<and> i = length fs - 1"
      using i by (simp add: last_conv_nth)
  next
    assume "fs \<noteq> [] \<and> last fs = CHR ''/'' \<and> i = length fs - 1"
    then show "cstr fs i = CHR ''/'' \<and> cstr fs (i + 1) = CHR 0x00"
      using cstr_nul[OF assms, of "i + 1"] by (auto simp: last_conv_nth cstr_less)
  qed
  show ?thesis unfolding s unfolding cstr_nul[OF assms] by (auto simp: mount_point_def)
qed

lemma fs_owns_from_iff:
  assumes "nul_free fs" "nul_free name" "length (mount_point fs) < MAX_STRING_LENGTH"
    "len \<le> length (mount_point fs)" "take len name = take len (mount_point fs)"
  shows "fs_owns_from name fs len \<longleftrightarrow> owns fs name"
  using assms
proof (induction name fs len rule: fs_owns_from.induct)
  case (1 name fs len)
  let ?m = "mount_point fs"
  note e = mount_end[OF \<open>nul_free fs\<close>, of len]
  show ?case
  proof (cases "len = length ?m")
    case True
    have "cstr name len = CHR ''/'' \<or> cstr name len = CHR 0x00 \<longleftrightarrow>
        (let rest = drop len name in rest = [] \<or> hd rest = CHR ''/'')"
      unfolding cstr_nul[OF \<open>nul_free name\<close>] by (auto simp: cstr_def hd_drop_conv_nth Let_def)
    then show ?thesis using 1 True e by (subst fs_owns_from.simps) (simp add: owns_def)
  next
    case False
    then have l: "len < length ?m" using 1 by simp
    have nx: "fs ! len = ?m ! len" "len < length fs" using mount_point_nth[OF l] by simp_all
    then have c: "cstr fs len = ?m ! len" by (simp add: cstr_less)
    show ?thesis
    proof (cases "cstr name len = ?m ! len")
      case True
      have "cstr fs len \<noteq> CHR 0x00" using e l by auto
      then have ln: "len < length name" using True c \<open>nul_free name\<close> by (simp add: cstr_def split: if_splits)
      then have "take (len + 1) name = take (len + 1) ?m"
        using True l 1 by (simp add: take_Suc_conv_app_nth cstr_less)
      then show ?thesis using 1 True e l c by (subst fs_owns_from.simps) auto
    next
      case False
      have "\<not> owns fs name"
      proof
        assume "owns fs name"
        then have t: "take (length ?m) name = ?m" by (simp add: owns_def)
        then have "length ?m \<le> length name" by (metis length_take min.absorb_iff2 min.commute)
        then show False using False l t by (metis cstr_less nth_take order_less_le_trans)
      qed
      then show ?thesis using 1 False e l c by (subst fs_owns_from.simps) auto
    qed
  qed
qed

lemma fs_owns_iff:
  "nul_free fs \<Longrightarrow> nul_free name \<Longrightarrow> length (mount_point fs) < MAX_STRING_LENGTH \<Longrightarrow>
   fs_owns name fs \<longleftrightarrow> owns fs name"
  unfolding fs_owns_def by (rule fs_owns_from_iff) auto

section \<open>What a search finds\<close>

lemma search_chain:
  assumes "chain m p xs l" "l \<notin> set xs" "\<forall>d\<in>set xs. names d \<noteq> None"
  shows "dev_search match names m l (ln_next (m p))
     = Some (case find (\<lambda>d. match (the (names d))) xs of None \<Rightarrow> 0 | Some d \<Rightarrow> d)"
  using assms
proof (induction xs arbitrary: p)
  case Nil
  then show ?case by (subst dev_search.simps) simp
next
  case (Cons x xs)
  then have "ln_next (m p) = x" "x \<noteq> l" by auto
  moreover obtain nm where "names x = Some nm" using Cons.prems by auto
  ultimately show ?case using Cons by (subst dev_search.simps) auto
qed

lemma search_ring:
  assumes "ring_list m l xs" "\<forall>d\<in>set xs. names d \<noteq> None"
  shows "dev_search match names m l (ln_next (m l))
     = Some (case find (\<lambda>d. match (the (names d))) xs of None \<Rightarrow> 0 | Some d \<Rightarrow> d)"
  using assms by (intro search_chain) (auto simp: ring_list_def)

definition named :: "'a hal_state_scheme \<Rightarrow> u32 list \<Rightarrow> bool" where
  "named s ds \<longleftrightarrow> (\<forall>d\<in>set ds. \<exists>nm. dev_names s d = Some nm \<and> nul_free nm)"

lemma named_simps [simp]:
  "named s []" "named s (d # ds) \<longleftrightarrow> (\<exists>nm. dev_names s d = Some nm \<and> nul_free nm) \<and> named s ds"
  "named s (ds @ es) \<longleftrightarrow> named s ds \<and> named s es" "named (s\<lparr>links := m\<rparr>) ds = named s ds"
  by (auto simp: named_def)

lemma find_map_cong: "(\<And>x. x \<in> set xs \<Longrightarrow> P x = Q x) \<Longrightarrow> find P xs = find Q xs"
  by (induction xs) auto

lemma find_dev_ring:
  assumes "ring_list (links s) l xs" "named s xs" "l \<noteq> 0" "nul_free name" "length name \<le> MAX_STRING_LENGTH"
  shows "alt_find_dev name l s
     = Some (case find (\<lambda>d. dev_names s d = Some name) xs of None \<Rightarrow> 0 | Some d \<Rightarrow> d)"
proof -
  have "find (\<lambda>d. name_matches name (the (dev_names s d))) xs = find (\<lambda>d. dev_names s d = Some name) xs"
    using assms(2,4,5) by (intro find_map_cong) (auto simp: named_def name_matches_iff)
  moreover have "\<forall>d\<in>set xs. dev_names s d \<noteq> None" using assms(2) by (auto simp: named_def)
  ultimately show ?thesis using assms(1,3) by (simp add: alt_find_dev_def search_ring)
qed

lemma find_file_ring:
  assumes "ring_list (links s) ALT_FS_LIST xs" "named s xs" "nul_free name"
    "\<forall>d\<in>set xs. length (mount_point (the (dev_names s d))) < MAX_STRING_LENGTH"
  shows "alt_find_file name s
     = Some (case find (\<lambda>d. owns (the (dev_names s d)) name) xs of None \<Rightarrow> 0 | Some d \<Rightarrow> d)"
proof -
  have "find (\<lambda>d. fs_owns name (the (dev_names s d))) xs = find (\<lambda>d. owns (the (dev_names s d)) name) xs"
    using assms(2,3,4) by (intro find_map_cong) (fastforce simp: named_def fs_owns_iff)
  moreover have "\<forall>d\<in>set xs. dev_names s d \<noteq> None" using assms(2) by (auto simp: named_def)
  ultimately show ?thesis using assms(1) by (simp add: alt_find_file_def search_ring)
qed

section \<open>Registering, then opening by name\<close>

lemma reg_all_links:
  assumes "named s ds" "0 \<notin> set ds"
  shows "fold (\<lambda>d s. snd (alt_dev_reg d s)) ds s
     = s\<lparr>links := fold (alt_llist_insert ALT_DEV_LIST) ds (links s)\<rparr>"
  using assms
proof (induction ds arbitrary: s)
  case (Cons d ds)
  then have "alt_dev_reg d s = (0, s\<lparr>links := alt_llist_insert ALT_DEV_LIST d (links s)\<rparr>)"
    by (auto simp: alt_dev_reg_def alt_dev_llist_insert_def)
  then show ?case using Cons.IH[of "s\<lparr>links := alt_llist_insert ALT_DEV_LIST d (links s)\<rparr>"] Cons.prems
    by simp
qed simp

lemma fs_reg_all_links:
  assumes "named s ds"
  shows "fold (\<lambda>d s. snd (alt_fs_reg d s)) ds s
     = s\<lparr>links := fold (alt_llist_insert ALT_FS_LIST) ds (links s)\<rparr>"
  using assms
proof (induction ds arbitrary: s)
  case (Cons d ds)
  then have "alt_fs_reg d s = (0, s\<lparr>links := alt_llist_insert ALT_FS_LIST d (links s)\<rparr>)"
    by (auto simp: alt_fs_reg_def)
  then show ?case using Cons.IH[of "s\<lparr>links := alt_llist_insert ALT_FS_LIST d (links s)\<rparr>"] Cons.prems
    by simp
qed simp

text \<open>
  After any number of registrations of named devices, a search by name comes to an end and
  finds the device registered last among those with exactly that name, or \<open>NULL\<close> if there is
  none, provided the name has at most 1000 characters.
\<close>

theorem registered_device_found:
  assumes "ring_list (links s) ALT_DEV_LIST xs" "named s (ds @ xs)" "0 \<notin> set ds"
    and "distinct (rev ds @ ALT_DEV_LIST # xs)" "nul_free name" "length name \<le> 1000"
  shows "alt_find_dev name ALT_DEV_LIST (fold (\<lambda>d s. snd (alt_dev_reg d s)) ds s)
     = Some (case find (\<lambda>d. dev_names s d = Some name) (rev ds @ xs) of None \<Rightarrow> 0 | Some d \<Rightarrow> d)"
proof -
  let ?s = "s\<lparr>links := fold (alt_llist_insert ALT_DEV_LIST) ds (links s)\<rparr>"
  have "ring_list (links ?s) ALT_DEV_LIST (rev ds @ xs)" using ll.ins_all[OF assms(1,4)] by simp
  moreover have "named ?s (rev ds @ xs)" using assms(2) by (simp add: named_def)
  ultimately show ?thesis using find_dev_ring[of ?s ALT_DEV_LIST "rev ds @ xs" name] assms
    by (simp add: reg_all_links MAX_STRING_LENGTH_def layout_defs)
qed

text \<open>
  After any number of registrations of filesystems, a search by file name finds the one
  registered last among those whose mount point (its name without a final slash) is the file or
  is followed by a slash in the file name; \<open>/myfile\<close> does not own \<open>/myfilesystem/junk.txt\<close>.
\<close>

theorem registered_filesystem_found:
  assumes "ring_list (links s) ALT_FS_LIST xs" "named s (ds @ xs)"
    and "distinct (rev ds @ ALT_FS_LIST # xs)" "nul_free name"
    and "\<forall>d\<in>set (ds @ xs). length (the (dev_names s d)) < 1000"
  shows "alt_find_file name (fold (\<lambda>d s. snd (alt_fs_reg d s)) ds s)
     = Some (case find (\<lambda>d. owns (the (dev_names s d)) name) (rev ds @ xs) of None \<Rightarrow> 0 | Some d \<Rightarrow> d)"
proof -
  let ?s = "s\<lparr>links := fold (alt_llist_insert ALT_FS_LIST) ds (links s)\<rparr>"
  have "ring_list (links ?s) ALT_FS_LIST (rev ds @ xs)" using ll.ins_all[OF assms(1,3)] by simp
  moreover have "named ?s (rev ds @ xs)" using assms(2) by (simp add: named_def)
  moreover have "length (mount_point f) \<le> length f" for f by (simp add: mount_point_def)
  then have "\<forall>d\<in>set (rev ds @ xs). length (mount_point (the (dev_names ?s d))) < MAX_STRING_LENGTH"
    using assms(5) by (auto simp: MAX_STRING_LENGTH_def intro: order_le_less_trans)
  ultimately show ?thesis using find_file_ring[of ?s "rev ds @ xs" name] assms
    by (simp add: fs_reg_all_links)
qed

definition boot_hal_names :: "u32 \<Rightarrow> string option" where
  "boot_hal_names = (\<lambda>_. None)(ALT_DEV_NULL \<mapsto> ''/dev/null'', 0x2000 \<mapsto> ''/dev/jtag_uart_0'',
     0x2100 \<mapsto> ''/dev/i2c_0'', 0x2200 \<mapsto> ''/myfile'', 0x2300 \<mapsto> ''/myfilesystem'')"

definition boot_hal :: hal_state where
  "boot_hal = \<lparr>links = boot_links (\<lambda>_. ALT_LLIST_ENTRY), dev_names = boot_hal_names, errno = 0\<rparr>"

theorem registered_device_found_witness:
  "alt_find_dev ''/dev/jtag_uart_0'' ALT_DEV_LIST
     (fold (\<lambda>d s. snd (alt_dev_reg d s)) [0x2000, 0x2100] boot_hal) = Some 0x2000"
proof -
  have l: "ring_list (links boot_hal) ALT_DEV_LIST [ALT_DEV_NULL]" by (simp add: boot_hal_def boot_dev_list)
  have n: "named boot_hal ([0x2000, 0x2100] @ [ALT_DEV_NULL])"
    by (simp add: boot_hal_def boot_hal_names_def nul_free_def layout_defs)
  have d: "distinct (rev [0x2000, 0x2100] @ ALT_DEV_LIST # [ALT_DEV_NULL])" "(0 :: u32) \<notin> set [0x2000, 0x2100]"
    "nul_free ''/dev/jtag_uart_0''" "length ''/dev/jtag_uart_0'' \<le> 1000"
    by (simp_all add: layout_defs nul_free_def)
  show ?thesis unfolding registered_device_found[OF l n d(2,1,3,4)]
    by (simp add: boot_hal_def boot_hal_names_def layout_defs)
qed

theorem registered_filesystem_found_witness:
  "alt_find_file ''/myfilesystem/junk.txt''
     (fold (\<lambda>d s. snd (alt_fs_reg d s)) [0x2300, 0x2200] boot_hal) = Some 0x2300"
proof -
  have l: "ring_list (links boot_hal) ALT_FS_LIST []" by (simp add: boot_hal_def boot_fs_list)
  have n: "named boot_hal ([0x2300, 0x2200] @ [])"
    by (simp add: boot_hal_def boot_hal_names_def nul_free_def layout_defs)
  have d: "distinct (rev [0x2300, 0x2200] @ ALT_FS_LIST # [])" "nul_free ''/myfilesystem/junk.txt''"
    "\<forall>d\<in>set ([0x2300, 0x2200] @ []). length (the (dev_names boot_hal d)) < 1000"
    by (simp_all add: layout_defs nul_free_def boot_hal_def boot_hal_names_def)
  show ?thesis unfolding registered_filesystem_found[OF l n d]
    by (simp add: boot_hal_def boot_hal_names_def layout_defs owns_def mount_point_def)
qed

section \<open>A device registered twice\<close>

lemma search_self_loop:
  assumes "dev_search match names m l d = Some r" "ln_next (m d) = d" "d \<noteq> l" "names d = Some nm"
    "\<not> match nm"
  shows False
proof -
  have "match' = match \<and> names' = names \<and> m' = m \<and> l' = l \<longrightarrow> next \<noteq> d"
    if "dev_search match' names' m' l' next = Some r" for match' names' m' l' "next" r
    using that
    by (rule dev_search.raw_induct[where P = "\<lambda>match' names' m' l' next r. match' = match \<and> names' = names
        \<and> m' = m \<and> l' = l \<longrightarrow> next \<noteq> d", rotated])
       (use assms(2-) in \<open>auto split: option.splits if_splits\<close>)
  then show ?thesis using assms(1) by blast
qed

text \<open>
  A device registered a second time while it is the newest points to itself: from then on
  every search that does not stop at it runs for ever, an open of any other device included.
\<close>

theorem register_twice_hangs:
  assumes "ring_list (links s) ALT_DEV_LIST (d # xs)" "dev_names s d = Some nm" "nul_free nm" "d \<noteq> 0"
    and "nul_free name" "name \<noteq> nm"
  shows "\<exists>s'. alt_dev_reg d s = (0, s') \<and> alt_find_dev name ALT_DEV_LIST s' = None"
proof -
  let ?s = "s\<lparr>links := alt_llist_insert ALT_DEV_LIST d (links s)\<rparr>"
  have r: "alt_dev_reg d s = (0, ?s)"
    using assms(2,4) by (simp add: alt_dev_reg_def alt_dev_llist_insert_def)
  have d: "d \<noteq> ALT_DEV_LIST" "ln_next (links s ALT_DEV_LIST) = d"
    using assms(1) ring_list_next[OF assms(1)] by (auto simp: ring_list_def)
  then have n: "ln_next (links ?s ALT_DEV_LIST) = d" "ln_next (links ?s d) = d" by simp_all
  have "dev_search (name_matches name) (dev_names ?s) (links ?s) ALT_DEV_LIST d = None"
  proof (rule ccontr)
    assume "\<not> ?thesis"
    then obtain r where "dev_search (name_matches name) (dev_names ?s) (links ?s) ALT_DEV_LIST d = Some r"
      by auto
    from search_self_loop[OF this n(2) d(1), of nm] show False
      using assms by (simp add: name_matches_iff)
  qed
  then have "alt_find_dev name ALT_DEV_LIST ?s = None"
    unfolding alt_find_dev_def n(1) by (simp add: layout_defs)
  then show ?thesis using r by blast
qed

theorem register_twice_hangs_witness:
  "\<exists>s'. alt_dev_reg ALT_DEV_NULL boot_hal = (0, s') \<and> alt_find_dev ''/dev/i2c_0'' ALT_DEV_LIST s' = None"
  by (rule register_twice_hangs[where nm = "''/dev/null''" and xs = "[]"])
     (simp_all add: boot_hal_def boot_dev_list boot_hal_names_def nul_free_def, simp_all add: layout_defs)

end
