(* ===== verification/FileDesc.thy ===== *)
theory FileDesc
  imports DevRegistry
begin

text \<open>
  File descriptors and the system calls on them (\<open>HAL/src/alt_open.c\<close>, \<open>alt_close.c\<close>,
  \<open>alt_read.c\<close>, \<open>alt_write.c\<close>, \<open>alt_ioctl.c\<close>, \<open>alt_fcntl.c\<close>, \<open>alt_lseek.c\<close>, \<open>alt_fstat.c\<close>,
  \<open>alt_isatty.c\<close>, \<open>alt_stat.c\<close>, \<open>alt_get_fd.c\<close>, \<open>alt_release_fd.c\<close>, \<open>alt_fd_lock.c\<close>,
  \<open>alt_fd_unlock.c\<close>, \<open>alt_io_redirect.c\<close>). A driver is a record of optional functions, \<open>None\<close> where the
  device has \<open>NULL\<close>; \<open>ops\<close> gives the driver at each device address. A driver function returns
  \<open>None\<close> when it never returns. The semaphores of the C code do nothing without an operating system.
\<close>

section \<open>State\<close>

record fd =
  fd_dev :: u32
  fd_priv :: u32
  fd_flags :: u32

text \<open>
  The pool is an array of \<open>ALT_MAX_FD\<close> descriptors. An index at or above that reads what lies
  behind the array, as the C code does: it only tests for negative numbers.
\<close>

record fd_state = hal_state +
  fd_list :: "int \<Rightarrow> fd"
  alt_max_fd :: int

definition ALT_MAX_FD :: nat where "ALT_MAX_FD = 32"

definition ALT_FD_EXCL :: u32 where "ALT_FD_EXCL = 0x80000000"

definition ALT_FD_DEV :: u32 where "ALT_FD_DEV = 0x40000000"

definition ALT_FD_FLAGS_MASK :: u32 where "ALT_FD_FLAGS_MASK = ALT_FD_EXCL OR ALT_FD_DEV"

definition TIOCEXCL :: u32 where "TIOCEXCL = 0x740d"

definition TIOCNXCL :: u32 where "TIOCNXCL = 0x740e"

text \<open>Values of newlib's \<open>fcntl.h\<close> and \<open>sys/stat.h\<close>.\<close>

definition O_ACCMODE :: u32 where "O_ACCMODE = 3"

definition O_RDONLY :: u32 where "O_RDONLY = 0"

definition O_WRONLY :: u32 where "O_WRONLY = 1"

definition O_APPEND :: u32 where "O_APPEND = 0x8"

definition O_NONBLOCK :: u32 where "O_NONBLOCK = 0x4000"

definition F_GETFL :: int where "F_GETFL = 3"

definition F_SETFL :: int where "F_SETFL = 4"

definition IFCHR :: u32 where "IFCHR = 0x2000"

definition ALT_FCNTL_FLAGS_MASK :: u32 where "ALT_FCNTL_FLAGS_MASK = O_APPEND OR O_NONBLOCK"

lemmas fd_flag_defs = ALT_FD_EXCL_def ALT_FD_DEV_def ALT_FD_FLAGS_MASK_def TIOCEXCL_def TIOCNXCL_def
  O_ACCMODE_def O_RDONLY_def O_WRONLY_def O_APPEND_def O_NONBLOCK_def F_GETFL_def F_SETFL_def IFCHR_def
  ALT_FCNTL_FLAGS_MASK_def

record 's dev_ops =
  op_open :: "(int \<Rightarrow> string \<Rightarrow> u32 \<Rightarrow> u32 \<Rightarrow> 's \<Rightarrow> (int \<times> 's) option) option"
  op_close :: "(int \<Rightarrow> 's \<Rightarrow> (int \<times> 's) option) option"
  op_read :: "(int \<Rightarrow> int \<Rightarrow> 's \<Rightarrow> (int \<times> u8 list \<times> 's) option) option"
  op_write :: "(int \<Rightarrow> u8 list \<Rightarrow> 's \<Rightarrow> (int \<times> 's) option) option"
  op_lseek :: "(int \<Rightarrow> int \<Rightarrow> int \<Rightarrow> 's \<Rightarrow> (int \<times> 's) option) option"
  op_fstat :: "(int \<Rightarrow> u32 \<Rightarrow> 's \<Rightarrow> (int \<times> u32 \<times> 's) option) option"
  op_ioctl :: "(int \<Rightarrow> u32 \<Rightarrow> int \<Rightarrow> 's \<Rightarrow> (int \<times> int \<times> 's) option) option"

definition no_ops :: "'s dev_ops" where
  "no_ops = \<lparr>op_open = None, op_close = None, op_read = None, op_write = None, op_lseek = None,
     op_fstat = None, op_ioctl = None\<rparr>"

definition upd_fd :: "int \<Rightarrow> (fd \<Rightarrow> fd) \<Rightarrow> 'a fd_state_scheme \<Rightarrow> 'a fd_state_scheme" where
  "upd_fd i f s = s\<lparr>fd_list := (fd_list s)(i := f (fd_list s i))\<rparr>"

definition fd_ops :: "(u32 \<Rightarrow> 's dev_ops) \<Rightarrow> int \<Rightarrow> 'a fd_state_scheme \<Rightarrow> 's dev_ops" where
  "fd_ops ops i s = ops (fd_dev (fd_list s i))"

section \<open>The pool\<close>

definition fd_range :: "nat \<Rightarrow> int list" where
  "fd_range n = map int [0..<n]"

definition alt_get_fd :: "u32 \<Rightarrow> 'a fd_state_scheme \<Rightarrow> int \<times> 'a fd_state_scheme" where
  "alt_get_fd dev s =
     (case find (\<lambda>i. fd_dev (fd_list s i) = 0) (fd_range ALT_MAX_FD) of
        None \<Rightarrow> (- EMFILE, s)
      | Some i \<Rightarrow> (i, (upd_fd i (\<lambda>f. f\<lparr>fd_dev := dev\<rparr>) s)
                        \<lparr>alt_max_fd := (if i > alt_max_fd s then i else alt_max_fd s)\<rparr>))"

definition alt_release_fd :: "int \<Rightarrow> 'a fd_state_scheme \<Rightarrow> 'a fd_state_scheme" where
  "alt_release_fd i s =
     (if i > 2 then upd_fd i (\<lambda>f. f\<lparr>fd_flags := 0, fd_dev := 0\<rparr>) s else s)"

definition alt_fd_lock :: "int \<Rightarrow> 'a fd_state_scheme \<Rightarrow> int \<times> 'a fd_state_scheme" where
  "alt_fd_lock i s =
     (if list_ex (\<lambda>j. j \<noteq> i \<and> fd_dev (fd_list s j) = fd_dev (fd_list s i)) (fd_range (nat (alt_max_fd s)))
      then (- EACCES, s)
      else (0, upd_fd i (\<lambda>f. f\<lparr>fd_flags := fd_flags f OR ALT_FD_EXCL\<rparr>) s))"

definition alt_fd_unlock :: "int \<Rightarrow> 'a fd_state_scheme \<Rightarrow> int \<times> 'a fd_state_scheme" where
  "alt_fd_unlock i s = (0, upd_fd i (\<lambda>f. f\<lparr>fd_flags := fd_flags f AND NOT ALT_FD_EXCL\<rparr>) s)"

section \<open>Opening\<close>

text \<open>The comparison of \<open>i\<close> with \<open>alt_max_fd\<close> is unsigned.\<close>

definition alt_file_locked :: "int \<Rightarrow> 'a fd_state_scheme \<Rightarrow> int \<times> 'a fd_state_scheme" where
  "alt_file_locked i s =
     (let s1 = upd_fd i (\<lambda>f. f\<lparr>fd_flags := fd_flags f OR ALT_FD_DEV\<rparr>) s
      in (if list_ex (\<lambda>j. fd_dev (fd_list s1 j) = fd_dev (fd_list s1 i)
                        \<and> fd_flags (fd_list s1 j) AND ALT_FD_EXCL \<noteq> 0 \<and> j \<noteq> i)
                (fd_range (Suc (nat (alt_max_fd s1 mod 2 ^ 32))))
          then - EACCES else 0, s1))"

definition open_finish :: "int \<Rightarrow> int \<Rightarrow> 'a fd_state_scheme \<Rightarrow> int \<times> 'a fd_state_scheme" where
  "open_finish index status s =
     (if status < 0 then (- 1, (alt_release_fd index s)\<lparr>errno := - status\<rparr>) else (index, s))"

definition open_dev ::
  "(u32 \<Rightarrow> ('a fd_state_scheme) dev_ops) \<Rightarrow> bool \<Rightarrow> u32 \<Rightarrow> string \<Rightarrow> u32 \<Rightarrow> u32 \<Rightarrow> 'a fd_state_scheme
   \<Rightarrow> (int \<times> 'a fd_state_scheme) option" where
  "open_dev ops isafs dev file flags mode s =
     (let (index, s1) = alt_get_fd dev s
      in if index < 0 then Some (open_finish index index s1)
         else (let s2 = upd_fd index (\<lambda>f. f\<lparr>fd_flags := flags AND NOT ALT_FD_FLAGS_MASK\<rparr>) s1;
                   (status, s3) = (if isafs then (0, s2) else alt_file_locked index s2)
               in if status < 0 then Some (open_finish index status s3)
                  else (case op_open (ops dev) of
                          None \<Rightarrow> Some (open_finish index 0 s3)
                        | Some f \<Rightarrow> map_option (\<lambda>(status, s4). open_finish index status s4)
                                      (f index file flags mode s3))))"

definition alt_open ::
  "(u32 \<Rightarrow> ('a fd_state_scheme) dev_ops) \<Rightarrow> string \<Rightarrow> u32 \<Rightarrow> u32 \<Rightarrow> 'a fd_state_scheme
   \<Rightarrow> (int \<times> 'a fd_state_scheme) option" where
  "alt_open ops file flags mode s =
     (case alt_find_dev file ALT_DEV_LIST s of
        None \<Rightarrow> None
      | Some dev \<Rightarrow>
          if dev \<noteq> 0 then open_dev ops False dev file flags mode s
          else (case alt_find_file file s of
                  None \<Rightarrow> None
                | Some fs \<Rightarrow> if fs \<noteq> 0 then open_dev ops True fs file flags mode s
                             else Some (open_finish (- 1) (- ENODEV) s)))"

section \<open>Calls on a descriptor\<close>

definition fail :: "int \<Rightarrow> 'a fd_state_scheme \<Rightarrow> int \<times> 'a fd_state_scheme" where
  "fail e s = (- 1, s\<lparr>errno := e\<rparr>)"

definition ret_errno :: "int \<Rightarrow> 'a fd_state_scheme \<Rightarrow> int \<times> 'a fd_state_scheme" where
  "ret_errno rval s = (if rval < 0 then fail (- rval) s else (rval, s))"

definition alt_close ::
  "(u32 \<Rightarrow> ('a fd_state_scheme) dev_ops) \<Rightarrow> int \<Rightarrow> 'a fd_state_scheme \<Rightarrow> (int \<times> 'a fd_state_scheme) option" where
  "alt_close ops fildes s =
     (if fildes < 0 then Some (fail EBADFD s)
      else map_option
             (\<lambda>(rval, s1). (let s2 = alt_release_fd fildes s1
                            in if rval < 0 then fail (- rval) s2 else (0, s2)))
             (case op_close (fd_ops ops fildes s) of None \<Rightarrow> Some (0, s) | Some f \<Rightarrow> f fildes s))"

definition alt_read ::
  "(u32 \<Rightarrow> ('a fd_state_scheme) dev_ops) \<Rightarrow> int \<Rightarrow> u32 \<Rightarrow> 'a fd_state_scheme
   \<Rightarrow> (int \<times> u8 list \<times> 'a fd_state_scheme) option" where
  "alt_read ops file len s =
     (let bad = (\<lambda>e. case fail e s of (r, s1) \<Rightarrow> Some (r, [], s1))
      in if file < 0 then bad EBADFD
         else if fd_flags (fd_list s file) AND O_ACCMODE = O_WRONLY then bad EACCES
         else (case op_read (fd_ops ops file s) of
                 None \<Rightarrow> bad EACCES
               | Some f \<Rightarrow> map_option (\<lambda>(rval, bs, s1). case ret_errno rval s1 of (r, s2) \<Rightarrow> (r, bs, s2))
                             (f file (sint len) s)))"

definition alt_write ::
  "(u32 \<Rightarrow> ('a fd_state_scheme) dev_ops) \<Rightarrow> int \<Rightarrow> u8 list \<Rightarrow> 'a fd_state_scheme
   \<Rightarrow> (int \<times> 'a fd_state_scheme) option" where
  "alt_write ops file data s =
     (if file < 0 then Some (fail EBADFD s)
      else if fd_flags (fd_list s file) AND O_ACCMODE = O_RDONLY then Some (fail EACCES s)
      else (case op_write (fd_ops ops file s) of
              None \<Rightarrow> Some (fail EACCES s)
            | Some f \<Rightarrow> map_option (\<lambda>(rval, s1). ret_errno rval s1) (f file data s)))"

text \<open>\<open>arg\<close> is the int the argument points to; the result has its value afterwards.\<close>

definition alt_ioctl ::
  "(u32 \<Rightarrow> ('a fd_state_scheme) dev_ops) \<Rightarrow> int \<Rightarrow> u32 \<Rightarrow> int \<Rightarrow> 'a fd_state_scheme
   \<Rightarrow> (int \<times> int \<times> 'a fd_state_scheme) option" where
  "alt_ioctl ops file req arg s =
     map_option (\<lambda>(rc, arg1, s1). (rc, arg1, if rc < 0 then s1\<lparr>errno := - rc\<rparr> else s1))
       (if file < 0 then Some (- EBADFD, arg, s)
        else if fd_flags (fd_list s file) AND ALT_FD_DEV \<noteq> 0 \<and> req = TIOCEXCL
        then (case alt_fd_lock file s of (rc, s1) \<Rightarrow> Some (rc, arg, s1))
        else if fd_flags (fd_list s file) AND ALT_FD_DEV \<noteq> 0 \<and> req = TIOCNXCL
        then (case alt_fd_unlock file s of (rc, s1) \<Rightarrow> Some (rc, arg, s1))
        else (case op_ioctl (fd_ops ops file s) of
                None \<Rightarrow> Some (- ENOTTY, arg, s)
              | Some f \<Rightarrow> f file req arg s))"

definition alt_fcntl :: "int \<Rightarrow> int \<Rightarrow> u32 \<Rightarrow> 'a fd_state_scheme \<Rightarrow> int \<times> 'a fd_state_scheme" where
  "alt_fcntl file cmd flags s =
     (if file < 0 then fail EBADFD s
      else if cmd = F_GETFL then (uint (fd_flags (fd_list s file) AND NOT ALT_FD_FLAGS_MASK), s)
      else if cmd = F_SETFL then
        (0, upd_fd file (\<lambda>f. f\<lparr>fd_flags := (fd_flags f AND NOT ALT_FCNTL_FLAGS_MASK)
                                 OR (flags AND ALT_FCNTL_FLAGS_MASK)\<rparr>) s)
      else fail EINVAL s)"

definition alt_lseek ::
  "(u32 \<Rightarrow> ('a fd_state_scheme) dev_ops) \<Rightarrow> int \<Rightarrow> int \<Rightarrow> int \<Rightarrow> 'a fd_state_scheme
   \<Rightarrow> (int \<times> 'a fd_state_scheme) option" where
  "alt_lseek ops file ptr dir s =
     map_option (\<lambda>(rc, s1). ret_errno rc s1)
       (if file < 0 then Some (- EBADFD, s)
        else (case op_lseek (fd_ops ops file s) of
                None \<Rightarrow> Some (- ENOTSUP, s)
              | Some f \<Rightarrow> f file ptr dir s))"

text \<open>Of \<open>struct stat\<close> only \<open>st_mode\<close> is used; its value before the call is an argument.\<close>

definition alt_fstat ::
  "(u32 \<Rightarrow> ('a fd_state_scheme) dev_ops) \<Rightarrow> int \<Rightarrow> u32 \<Rightarrow> 'a fd_state_scheme
   \<Rightarrow> (int \<times> u32 \<times> 'a fd_state_scheme) option" where
  "alt_fstat ops file st s =
     (if file < 0 then (case fail EBADFD s of (r, s1) \<Rightarrow> Some (r, st, s1))
      else (case op_fstat (fd_ops ops file s) of
              Some f \<Rightarrow> f file st s
            | None \<Rightarrow> Some (0, IFCHR, s)))"

definition alt_isatty ::
  "(u32 \<Rightarrow> ('a fd_state_scheme) dev_ops) \<Rightarrow> int \<Rightarrow> 'a fd_state_scheme \<Rightarrow> (int \<times> 'a fd_state_scheme) option" where
  "alt_isatty ops file s =
     (if file < 0 then Some (0, s\<lparr>errno := EBADFD\<rparr>)
      else if op_fstat (fd_ops ops file s) = None then Some (1, s)
      else map_option (\<lambda>(r, st, s1). (if r < 0 then 0 else if st = IFCHR then 1 else 0, s1))
             (alt_fstat ops file 0 s))"

definition alt_stat ::
  "(u32 \<Rightarrow> ('a fd_state_scheme) dev_ops) \<Rightarrow> string \<Rightarrow> u32 \<Rightarrow> 'a fd_state_scheme
   \<Rightarrow> (int \<times> u32 \<times> 'a fd_state_scheme) option" where
  "alt_stat ops file st s =
     (case alt_open ops file 0 0 s of
        None \<Rightarrow> None
      | Some (i, s1) \<Rightarrow>
          (case alt_fstat ops i st s1 of
             None \<Rightarrow> None
           | Some (rc, st1, s2) \<Rightarrow> map_option (\<lambda>(r, s3). (rc, st1, s3)) (alt_close ops i s2)))"

section \<open>Redirecting the standard streams\<close>

definition alt_open_fd ::
  "(u32 \<Rightarrow> ('a fd_state_scheme) dev_ops) \<Rightarrow> int \<Rightarrow> string \<Rightarrow> u32 \<Rightarrow> u32 \<Rightarrow> 'a fd_state_scheme
   \<Rightarrow> 'a fd_state_scheme option" where
  "alt_open_fd ops i name flags mode s =
     map_option (\<lambda>(old, s1).
         if old \<ge> 0 then
           alt_release_fd old
             (upd_fd i (\<lambda>f. f\<lparr>fd_dev := fd_dev (fd_list s1 old), fd_priv := fd_priv (fd_list s1 old),
                              fd_flags := fd_flags (fd_list s1 old)\<rparr>) s1)
         else s1)
       (alt_open ops name flags mode s)"

definition alt_io_redirect ::
  "(u32 \<Rightarrow> ('a fd_state_scheme) dev_ops) \<Rightarrow> string \<Rightarrow> string \<Rightarrow> string \<Rightarrow> 'a fd_state_scheme
   \<Rightarrow> 'a fd_state_scheme option" where
  "alt_io_redirect ops stdout_dev stdin_dev stderr_dev s =
     (case alt_open_fd ops 1 stdout_dev O_WRONLY 0x1FF s of
        None \<Rightarrow> None
      | Some s1 \<Rightarrow>
          (case alt_open_fd ops 0 stdin_dev O_RDONLY 0x1FF s1 of
             None \<Rightarrow> None
           | Some s2 \<Rightarrow> alt_open_fd ops 2 stderr_dev O_WRONLY 0x1FF s2))"

end
