(* ===== verification/FileTable.thy ===== *)
theory FileTable
  imports FileDesc
begin

text \<open>
  What the system calls do to the table of descriptors. The locale \<open>driver\<close> is what they rely on
  in a device driver: its functions keep the registries and the table (but for the private word of a
  descriptor). The step relation \<open>fd_step\<close> has every call as a labelled step; invariants of all its
  runs are proved by rule induction.
\<close>

section \<open>Frames\<close>

definition same_table :: "'a fd_state_scheme \<Rightarrow> 'a fd_state_scheme \<Rightarrow> bool" where
  "same_table s s' \<longleftrightarrow> links s' = links s \<and> dev_names s' = dev_names s \<and> alt_max_fd s' = alt_max_fd s
     \<and> (\<forall>j. fd_dev (fd_list s' j) = fd_dev (fd_list s j) \<and> fd_flags (fd_list s' j) = fd_flags (fd_list s j))"

lemma same_table_refl [simp]: "same_table s s"
  by (simp add: same_table_def)

lemma same_table_trans: "same_table s t \<Longrightarrow> same_table t u \<Longrightarrow> same_table s u"
  by (simp add: same_table_def)

lemma same_table_errno [simp]: "same_table s (t\<lparr>errno := e\<rparr>) = same_table s t"
  by (simp add: same_table_def)

lemma upd_fd_simps [simp]:
  "links (upd_fd i f s) = links s" "dev_names (upd_fd i f s) = dev_names s" "errno (upd_fd i f s) = errno s"
  "alt_max_fd (upd_fd i f s) = alt_max_fd s" "fd_list (upd_fd i f s) j = (if j = i then f (fd_list s i) else fd_list s j)"
  by (simp_all add: upd_fd_def)

lemma fail_simps [simp]: "fst (fail e s) = - 1" "same_table s (snd (fail e t)) = same_table s t"
  by (simp_all add: fail_def)

lemma ret_errno_table: "ret_errno r s = (r', s') \<Longrightarrow> same_table s s'"
  by (auto simp: ret_errno_def fail_def split: if_splits)

lemma release_simps [simp]:
  "links (alt_release_fd i s) = links s" "dev_names (alt_release_fd i s) = dev_names s"
  "errno (alt_release_fd i s) = errno s" "alt_max_fd (alt_release_fd i s) = alt_max_fd s"
  "fd_dev (fd_list (alt_release_fd i s) j) = (if j = i \<and> i > 2 then 0 else fd_dev (fd_list s j))"
  "fd_flags (fd_list (alt_release_fd i s) j) = (if j = i \<and> i > 2 then 0 else fd_flags (fd_list s j))"
  by (simp_all add: alt_release_fd_def)

text \<open>Searches depend on the registries only.\<close>

lemma find_dev_cong:
  "links s' = links s \<Longrightarrow> dev_names s' = dev_names s \<Longrightarrow> alt_find_dev n l s' = alt_find_dev n l s"
  by (simp add: alt_find_dev_def)

lemma find_file_cong:
  "links s' = links s \<Longrightarrow> dev_names s' = dev_names s \<Longrightarrow> alt_find_file n s' = alt_find_file n s"
  by (simp add: alt_find_file_def)

section \<open>Allocation\<close>

lemma in_fd_range [simp]: "i \<in> set (fd_range n) \<longleftrightarrow> 0 \<le> i \<and> i < int n"
  by (auto simp: fd_range_def intro!: image_eqI[of i int "nat i"])

lemma list_ex_fd_range: "list_ex P (fd_range n) \<longleftrightarrow> (\<exists>j. 0 \<le> j \<and> j < int n \<and> P j)"
  by (auto simp: list_ex_iff)

lemma find_fd_range:
  "find P (fd_range n) = Some i \<longleftrightarrow> 0 \<le> i \<and> i < int n \<and> P i \<and> (\<forall>j. 0 \<le> j \<and> j < i \<longrightarrow> \<not> P j)"
proof (induction n arbitrary: i)
  case (Suc n)
  have r: "fd_range (Suc n) = fd_range n @ [int n]" by (simp add: fd_range_def)
  have a: "find P (xs @ [y]) = (case find P xs of None \<Rightarrow> if P y then Some y else None | Some x \<Rightarrow> Some x)"
    for P :: "int \<Rightarrow> bool" and xs y by (induction xs) auto
  show ?case
  proof (cases "find P (fd_range n)")
    case None
    then have h: "\<forall>j. 0 \<le> j \<and> j < int n \<longrightarrow> \<not> P j" by (auto simp: find_None_iff)
    then have "i = int n" if "0 \<le> i" "i < int (Suc n)" "P i" using that by (cases "i < int n") auto
    then show ?thesis unfolding r a using None h by auto
  next
    case (Some x)
    then have x: "0 \<le> x \<and> x < int n \<and> P x \<and> (\<forall>j. 0 \<le> j \<and> j < x \<longrightarrow> \<not> P j)"
      using Suc.IH[of x] by simp
    show ?thesis
    proof
      assume "find P (fd_range (Suc n)) = Some i"
      then show "0 \<le> i \<and> i < int (Suc n) \<and> P i \<and> (\<forall>j. 0 \<le> j \<and> j < i \<longrightarrow> \<not> P j)"
        unfolding r a using Some x by simp
    next
      assume i: "0 \<le> i \<and> i < int (Suc n) \<and> P i \<and> (\<forall>j. 0 \<le> j \<and> j < i \<longrightarrow> \<not> P j)"
      then have "i = x" using x by (metis linorder_neqE)
      then show "find P (fd_range (Suc n)) = Some i" unfolding r a using Some by simp
    qed
  qed
qed (simp add: fd_range_def)

lemma find_fd_range_None: "find P (fd_range n) = None \<longleftrightarrow> (\<forall>j. 0 \<le> j \<and> j < int n \<longrightarrow> \<not> P j)"
  by (auto simp: find_None_iff)

definition pool_full :: "'a fd_state_scheme \<Rightarrow> bool" where
  "pool_full s \<longleftrightarrow> (\<forall>j. 0 \<le> j \<and> j < 32 \<longrightarrow> fd_dev (fd_list s j) \<noteq> 0)"

definition lowest_free :: "int \<Rightarrow> 'a fd_state_scheme \<Rightarrow> bool" where
  "lowest_free i s \<longleftrightarrow> 0 \<le> i \<and> i < 32 \<and> fd_dev (fd_list s i) = 0
     \<and> (\<forall>j. 0 \<le> j \<and> j < i \<longrightarrow> fd_dev (fd_list s j) \<noteq> 0)"

definition take_fd :: "int \<Rightarrow> u32 \<Rightarrow> 'a fd_state_scheme \<Rightarrow> 'a fd_state_scheme" where
  "take_fd i dev s = (upd_fd i (\<lambda>f. f\<lparr>fd_dev := dev\<rparr>) s)
     \<lparr>alt_max_fd := (if i > alt_max_fd s then i else alt_max_fd s)\<rparr>"

lemma take_fd_simps [simp]:
  "links (take_fd i d s) = links s" "dev_names (take_fd i d s) = dev_names s" "errno (take_fd i d s) = errno s"
  "alt_max_fd (take_fd i d s) = max i (alt_max_fd s)"
  "fd_list (take_fd i d s) j = (if j = i then (fd_list s i)\<lparr>fd_dev := d\<rparr> else fd_list s j)"
  by (simp_all add: take_fd_def max_def)

lemma get_fd_cases:
  obtains "pool_full s" "alt_get_fd dev s = (- EMFILE, s)"
  | i where "lowest_free i s" "alt_get_fd dev s = (i, take_fd i dev s)"
proof (cases "find (\<lambda>i. fd_dev (fd_list s i) = 0) (fd_range ALT_MAX_FD)")
  case None
  then have "pool_full s" by (simp add: find_fd_range_None pool_full_def ALT_MAX_FD_def)
  then show ?thesis using None that(1) by (simp add: alt_get_fd_def)
next
  case (Some i)
  then have "lowest_free i s" by (simp add: find_fd_range lowest_free_def ALT_MAX_FD_def)
  then show ?thesis using Some that(2) by (simp add: alt_get_fd_def take_fd_def)
qed

lemma lowest_free_not_full: "lowest_free i s \<Longrightarrow> \<not> pool_full s"
  by (auto simp: lowest_free_def pool_full_def)

lemma lowest_free_unique: "lowest_free i s \<Longrightarrow> lowest_free j s \<Longrightarrow> i = j"
  unfolding lowest_free_def by (metis linorder_neqE)

section \<open>The contract of a driver\<close>

locale driver =
  fixes ops :: "u32 \<Rightarrow> ('a fd_state_scheme) dev_ops"
  assumes open_keeps: "op_open (ops d) = Some f \<Longrightarrow> f i n fl md s = Some (r, s') \<Longrightarrow> same_table s s'"
    and close_keeps: "op_close (ops d) = Some g \<Longrightarrow> g i s = Some (r, s') \<Longrightarrow> same_table s s'"
    and read_keeps: "op_read (ops d) = Some h \<Longrightarrow> h i len s = Some (r, bs, s') \<Longrightarrow> same_table s s'"
    and write_keeps: "op_write (ops d) = Some k \<Longrightarrow> k i bs s = Some (r, s') \<Longrightarrow> same_table s s'"
    and lseek_keeps: "op_lseek (ops d) = Some l \<Longrightarrow> l i p dir s = Some (r, s') \<Longrightarrow> same_table s s'"
    and fstat_keeps: "op_fstat (ops d) = Some t \<Longrightarrow> t i st s = Some (r, st', s') \<Longrightarrow> same_table s s'"
    and ioctl_keeps: "op_ioctl (ops d) = Some u \<Longrightarrow> u i req arg s = Some (r, arg', s') \<Longrightarrow> same_table s s'"
begin

lemma read_table:
  assumes "alt_read ops i len s = Some (r, bs, s')" shows "same_table s s'"
proof (cases "i < 0 \<or> fd_flags (fd_list s i) AND O_ACCMODE = O_WRONLY \<or> op_read (fd_ops ops i s) = None")
  case True
  then show ?thesis using assms by (auto simp: alt_read_def fail_def Let_def split: if_split_asm)
next
  case False
  then obtain f where f: "op_read (fd_ops ops i s) = Some f" by auto
  obtain rv b1 s1 where x: "f i (sint len) s = Some (rv, b1, s1)"
    using assms False f by (cases "f i (sint len) s") (auto simp: alt_read_def Let_def)
  have "(case ret_errno rv s1 of (r, s2) \<Rightarrow> (r, b1, s2)) = (r, bs, s')"
    using assms False f x by (simp add: alt_read_def Let_def)
  then have "ret_errno rv s1 = (r, s')" by (cases "ret_errno rv s1") simp
  then show ?thesis using x read_keeps[OF f[unfolded fd_ops_def]] ret_errno_table same_table_trans by blast
qed

lemma write_table: "alt_write ops i bs s = Some (r, s') \<Longrightarrow> same_table s s'"
  by (auto simp: alt_write_def fail_def fd_ops_def split: if_splits option.splits
      dest!: write_keeps ret_errno_table intro: same_table_trans)

lemma lseek_table: "alt_lseek ops i p dir s = Some (r, s') \<Longrightarrow> same_table s s'"
  by (auto simp: alt_lseek_def fd_ops_def split: if_splits option.splits
      dest!: lseek_keeps ret_errno_table intro: same_table_trans)

lemma fstat_table: "alt_fstat ops i st s = Some (r, st', s') \<Longrightarrow> same_table s s'"
  by (auto simp: alt_fstat_def fail_def fd_ops_def split: if_splits option.splits dest: fstat_keeps)

lemma isatty_table: "alt_isatty ops i s = Some (r, s') \<Longrightarrow> same_table s s'"
  by (auto simp: alt_isatty_def split: if_splits dest: fstat_table)

lemma close_table:
  assumes "alt_close ops i s = Some (r, s')"
  shows "\<exists>t. same_table s t \<and> same_table (alt_release_fd i t) s'"
proof (cases "i < 0")
  case True
  then show ?thesis using assms
    by (intro exI[of _ s]) (auto simp: alt_close_def fail_def alt_release_fd_def)
next
  case False
  then obtain rval t where t: "(case op_close (fd_ops ops i s) of None \<Rightarrow> Some (0, s) | Some f \<Rightarrow> f i s) = Some (rval, t)"
    and r: "(r, s') = (let s2 = alt_release_fd i t in if rval < 0 then fail (- rval) s2 else (0, s2))"
    using assms by (auto simp: alt_close_def)
  have "same_table s t" using t by (auto simp: fd_ops_def split: option.splits dest: close_keeps)
  moreover have "same_table (alt_release_fd i t) s'"
    using r by (auto simp: Let_def fail_def split: if_splits)
  ultimately show ?thesis by blast
qed

lemma ioctl_table:
  assumes "alt_ioctl ops i req arg s = Some (r, arg', s')"
  shows "same_table s s' \<or> (req = TIOCEXCL \<and> (\<exists>s1. alt_fd_lock i s = (0, s1) \<and> same_table s1 s'))
    \<or> (req = TIOCNXCL \<and> same_table (snd (alt_fd_unlock i s)) s')"
  using assms unfolding alt_ioctl_def
  by (auto simp: fd_ops_def alt_fd_lock_def alt_fd_unlock_def split: if_splits option.splits dest: ioctl_keeps)

text \<open>A descriptor that cannot be had leaves the table; one that fails later is given back.\<close>

lemma open_dev_cases:
  assumes "open_dev ops isafs d file fl md s = Some (r, s')"
  obtains (full) "pool_full s" "r = - 1" "same_table s s'"
  | (refused) i e t where "lowest_free i s" "r = - 1" "e < 0" "\<not> isafs"
      "alt_file_locked i (upd_fd i (\<lambda>f. f\<lparr>fd_flags := fl AND NOT ALT_FD_FLAGS_MASK\<rparr>) (take_fd i d s)) = (e, t)"
      "same_table (alt_release_fd i t) s'"
  | (opened) i t where "lowest_free i s"
      "t = (let s2 = upd_fd i (\<lambda>f. f\<lparr>fd_flags := fl AND NOT ALT_FD_FLAGS_MASK\<rparr>) (take_fd i d s)
            in if isafs then s2 else snd (alt_file_locked i s2))"
      "isafs \<or> fst (alt_file_locked i (upd_fd i (\<lambda>f. f\<lparr>fd_flags := fl AND NOT ALT_FD_FLAGS_MASK\<rparr>) (take_fd i d s))) \<ge> 0"
      "r = i \<and> same_table t s' \<or> r = - 1 \<and> same_table (alt_release_fd i t) s'"
proof (cases rule: get_fd_cases[of s d])
  case 1
  then have "r = - 1" "same_table s s'" using assms
    by (auto simp: open_dev_def open_finish_def EMFILE_def alt_release_fd_def)
  then show ?thesis using 1 full by blast
next
  case (2 i)
  let ?s2 = "upd_fd i (\<lambda>f. f\<lparr>fd_flags := fl AND NOT ALT_FD_FLAGS_MASK\<rparr>) (take_fd i d s)"
  obtain e t where l: "alt_file_locked i ?s2 = (e, t)" by (cases "alt_file_locked i ?s2")
  define u where "u = (if isafs then ?s2 else t)"
  have i0: "\<not> i < 0" using 2 by (simp add: lowest_free_def)
  show ?thesis
  proof (cases "\<not> isafs \<and> e < 0")
    case True
    then have "r = - 1" "same_table (alt_release_fd i t) s'"
      using assms 2 l i0 by (auto simp: open_dev_def open_finish_def)
    then show ?thesis using refused 2(1) True l by blast
  next
    case False
    have o: "(case op_open (ops d) of None \<Rightarrow> Some (open_finish i 0 u)
        | Some f \<Rightarrow> map_option (\<lambda>(status, s4). open_finish i status s4) (f i file fl md u)) = Some (r, s')"
      using assms 2 l i0 False unfolding u_def by (auto simp: open_dev_def Let_def split: if_splits)
    then have "r = i \<and> same_table u s' \<or> r = - 1 \<and> same_table (alt_release_fd i u) s'"
    proof (cases "op_open (ops d)")
      case None
      then show ?thesis using o by (auto simp: open_finish_def)
    next
      case (Some f)
      then obtain st v where "f i file fl md u = Some (st, v)" "open_finish i st v = (r, s')" using o by auto
      moreover from this Some have "same_table u v" by (auto dest: open_keeps)
      ultimately show ?thesis by (auto simp: open_finish_def same_table_def split: if_splits)
    qed
    then show ?thesis using opened[OF 2(1), of u] l False by (auto simp: u_def Let_def)
  qed
qed

end

section \<open>Runs of calls\<close>

text \<open>
  Every call a program makes on descriptors in range, as a labelled step. Calls that do not return
  have no step.
\<close>

datatype fd_call = Open string | Close int | Read int | Write int | Lseek int | Fstat int | Isatty int
  | Ioctl int u32 | Fcntl int

fun call_fd :: "fd_call \<Rightarrow> int option" where
  "call_fd (Open n) = None"
| "call_fd (Close i) = Some i"
| "call_fd (Read i) = Some i"
| "call_fd (Write i) = Some i"
| "call_fd (Lseek i) = Some i"
| "call_fd (Fstat i) = Some i"
| "call_fd (Isatty i) = Some i"
| "call_fd (Ioctl i req) = Some i"
| "call_fd (Fcntl i) = Some i"

inductive fd_step :: "(u32 \<Rightarrow> ('a fd_state_scheme) dev_ops) \<Rightarrow> 'a fd_state_scheme \<Rightarrow> fd_call \<Rightarrow> 'a fd_state_scheme \<Rightarrow> bool"
  for ops where
  step_open: "alt_open ops n fl md s = Some (r, s') \<Longrightarrow> fd_step ops s (Open n) s'"
| step_close: "i < 32 \<Longrightarrow> alt_close ops i s = Some (r, s') \<Longrightarrow> fd_step ops s (Close i) s'"
| step_read: "i < 32 \<Longrightarrow> alt_read ops i len s = Some (r, bs, s') \<Longrightarrow> fd_step ops s (Read i) s'"
| step_write: "i < 32 \<Longrightarrow> alt_write ops i bs s = Some (r, s') \<Longrightarrow> fd_step ops s (Write i) s'"
| step_lseek: "i < 32 \<Longrightarrow> alt_lseek ops i p d s = Some (r, s') \<Longrightarrow> fd_step ops s (Lseek i) s'"
| step_fstat: "i < 32 \<Longrightarrow> alt_fstat ops i st s = Some (r, st', s') \<Longrightarrow> fd_step ops s (Fstat i) s'"
| step_isatty: "i < 32 \<Longrightarrow> alt_isatty ops i s = Some (r, s') \<Longrightarrow> fd_step ops s (Isatty i) s'"
| step_ioctl: "i < 32 \<Longrightarrow> alt_ioctl ops i req arg s = Some (r, arg', s') \<Longrightarrow> fd_step ops s (Ioctl i req) s'"
| step_fcntl: "i < 32 \<Longrightarrow> alt_fcntl i cmd fl s = (r, s') \<Longrightarrow> fd_step ops s (Fcntl i) s'"

inductive fd_run :: "(u32 \<Rightarrow> ('a fd_state_scheme) dev_ops) \<Rightarrow> 'a fd_state_scheme \<Rightarrow> fd_call list \<Rightarrow> 'a fd_state_scheme \<Rightarrow> bool"
  for ops where
  run_nil: "fd_run ops s [] s"
| run_cons: "fd_step ops s c t \<Longrightarrow> fd_run ops t cs u \<Longrightarrow> fd_run ops s (c # cs) u"

inductive_cases fd_step_E: "fd_step ops s c s'"

text \<open>The invariant: the standard streams are there, and the high-water mark covers what is allocated above them.\<close>

definition table_ok :: "'a fd_state_scheme \<Rightarrow> bool" where
  "table_ok s \<longleftrightarrow> - 1 \<le> alt_max_fd s \<and> alt_max_fd s < 32
     \<and> (\<forall>i. 0 \<le> i \<and> i \<le> 2 \<longrightarrow> fd_dev (fd_list s i) \<noteq> 0)
     \<and> (\<forall>i. 2 < i \<and> i < 32 \<and> fd_dev (fd_list s i) \<noteq> 0 \<longrightarrow> i \<le> alt_max_fd s)"

text \<open>Descriptor \<open>i\<close> has device \<open>d\<close> for itself.\<close>

definition excl :: "int \<Rightarrow> u32 \<Rightarrow> 'a fd_state_scheme \<Rightarrow> bool" where
  "excl i d s \<longleftrightarrow> 0 \<le> i \<and> i \<le> alt_max_fd s \<and> i < 32 \<and> d \<noteq> 0 \<and> fd_dev (fd_list s i) = d
     \<and> fd_flags (fd_list s i) AND ALT_FD_EXCL \<noteq> 0"

definition users :: "u32 \<Rightarrow> 'a fd_state_scheme \<Rightarrow> int set" where
  "users d s = {j. 0 \<le> j \<and> j < 32 \<and> fd_dev (fd_list s j) = d}"

lemma same_table_props:
  assumes "same_table s s'"
  shows "table_ok s' = table_ok s" "excl i d s' = excl i d s" "users d s' = users d s"
    "alt_find_dev n l s' = alt_find_dev n l s" "alt_find_file n s' = alt_find_file n s"
    "lowest_free i s' = lowest_free i s" "pool_full s' = pool_full s"
  using assms by (auto simp: same_table_def table_ok_def excl_def users_def lowest_free_def pool_full_def
      intro!: find_dev_cong find_file_cong)

lemma file_locked_simps:
  "alt_file_locked i s = (fst (alt_file_locked i s), upd_fd i (\<lambda>f. f\<lparr>fd_flags := fd_flags f OR ALT_FD_DEV\<rparr>) s)"
  by (simp add: alt_file_locked_def Let_def)

lemma file_locked_excl:
  assumes "excl j d s" "fd_dev (fd_list s i) = d" "i \<noteq> j" "alt_max_fd s < 32"
  shows "fst (alt_file_locked i s) = - EACCES"
proof -
  have "alt_max_fd s mod 2 ^ 32 = alt_max_fd s" using assms(1,4) unfolding excl_def by auto
  then have "\<exists>k\<ge>0. k < int (Suc (nat (alt_max_fd s mod 2 ^ 32))) \<and> fd_dev (fd_list s k) = fd_dev (fd_list s i)
      \<and> fd_flags (fd_list s k) AND ALT_FD_EXCL \<noteq> 0 \<and> k \<noteq> i"
    using assms unfolding excl_def by (intro exI[of _ j]) auto
  then show ?thesis
    unfolding alt_file_locked_def Let_def list_ex_fd_range by (auto split: if_splits)
qed

text \<open>The table after each kind of change.\<close>

lemma release_ok: "table_ok s \<Longrightarrow> table_ok (alt_release_fd j s)"
  by (auto simp: table_ok_def)

lemma release_excl: "excl i d s \<Longrightarrow> j \<noteq> i \<Longrightarrow> excl i d (alt_release_fd j s)"
  by (auto simp: excl_def)

lemma release_users: "d \<noteq> 0 \<Longrightarrow> users d (alt_release_fd j s) \<subseteq> users d s"
  by (auto simp: users_def split: if_splits)

lemma flags_dev: "fd_dev (fd_list (upd_fd j (\<lambda>f. f\<lparr>fd_flags := g f\<rparr>) s) i) = fd_dev (fd_list s i)"
  by simp

lemma flags_ok [simp]: "table_ok (upd_fd j (\<lambda>f. f\<lparr>fd_flags := g f\<rparr>) s) = table_ok s"
  by (simp only: table_ok_def flags_dev upd_fd_simps(4))

lemma flags_users [simp]: "users d (upd_fd j (\<lambda>f. f\<lparr>fd_flags := g f\<rparr>) s) = users d s"
  by (auto simp: users_def)

lemma flags_excl:
  "excl i d s \<Longrightarrow> (j = i \<Longrightarrow> g (fd_list s i) AND ALT_FD_EXCL \<noteq> 0) \<Longrightarrow>
   excl i d (upd_fd j (\<lambda>f. f\<lparr>fd_flags := g f\<rparr>) s)"
  by (auto simp: excl_def)

lemma take_ok:
  "table_ok s \<Longrightarrow> lowest_free i s \<Longrightarrow> d \<noteq> 0 \<Longrightarrow> table_ok (take_fd i d s)"
  by (auto simp: table_ok_def lowest_free_def max_def)

lemma take_excl: "excl j d s \<Longrightarrow> lowest_free i s \<Longrightarrow> excl j d (take_fd i e s)"
  by (auto simp: excl_def lowest_free_def max_def)

lemma take_users: "users d (take_fd i e s) \<subseteq> users d s \<union> (if e = d then {i} else {})"
  by (auto simp: users_def split: if_splits)

lemma take_release_users:
  "lowest_free i s \<Longrightarrow> table_ok s \<Longrightarrow> d \<noteq> 0 \<Longrightarrow> users d (alt_release_fd i (take_fd i e s)) \<subseteq> users d s"
  by (auto simp: users_def lowest_free_def table_ok_def split: if_splits)

lemma excl_bit:
  "(x OR ALT_FD_DEV) AND ALT_FD_EXCL = x AND ALT_FD_EXCL"
  "(x OR ALT_FD_EXCL) AND ALT_FD_EXCL \<noteq> 0"
  "((x AND NOT ALT_FCNTL_FLAGS_MASK) OR (y AND ALT_FCNTL_FLAGS_MASK)) AND ALT_FD_EXCL = x AND ALT_FD_EXCL"
proof -
  have c: "ALT_FD_DEV AND ALT_FD_EXCL = 0" "NOT ALT_FCNTL_FLAGS_MASK AND ALT_FD_EXCL = ALT_FD_EXCL"
    "ALT_FCNTL_FLAGS_MASK AND ALT_FD_EXCL = 0" "ALT_FD_EXCL \<noteq> 0"
    by (simp_all add: fd_flag_defs)
  show "(x OR ALT_FD_DEV) AND ALT_FD_EXCL = x AND ALT_FD_EXCL"
    by (simp add: bit.conj_disj_distrib2 c)
  show "(x OR ALT_FD_EXCL) AND ALT_FD_EXCL \<noteq> 0"
    by (simp add: bit.conj_disj_distrib2 c)
  show "((x AND NOT ALT_FCNTL_FLAGS_MASK) OR (y AND ALT_FCNTL_FLAGS_MASK)) AND ALT_FD_EXCL = x AND ALT_FD_EXCL"
    by (simp add: bit.conj_disj_distrib2 and.assoc c)
qed

section \<open>Each step\<close>

text \<open>What an exclusive owner of \<open>d\<close> keeps in a step: the lock, and no further descriptor of \<open>d\<close>.\<close>

definition excl_kept :: "int \<Rightarrow> u32 \<Rightarrow> 'a fd_state_scheme \<Rightarrow> 'a fd_state_scheme \<Rightarrow> bool" where
  "excl_kept i d s s' \<longleftrightarrow> links s' = links s \<and> dev_names s' = dev_names s \<and> table_ok s'
     \<and> (excl i d s \<longrightarrow> excl i d s' \<and> users d s' \<subseteq> users d s)"

lemma excl_kept_same: "table_ok s \<Longrightarrow> same_table s s' \<Longrightarrow> excl_kept i d s s'"
  unfolding excl_kept_def by (auto simp: same_table_props) (auto simp: same_table_def)

lemma excl_kept_then_same: "excl_kept i d s t \<Longrightarrow> same_table t s' \<Longrightarrow> excl_kept i d s s'"
  unfolding excl_kept_def by (auto simp: same_table_props) (auto simp: same_table_def)

lemma excl_kept_flags:
  "table_ok s \<Longrightarrow> (j = i \<Longrightarrow> fd_flags (fd_list s i) AND ALT_FD_EXCL \<noteq> 0 \<Longrightarrow> g (fd_list s i) AND ALT_FD_EXCL \<noteq> 0) \<Longrightarrow>
   excl_kept i d s (upd_fd j (\<lambda>f. f\<lparr>fd_flags := g f\<rparr>) s)"
  unfolding excl_kept_def using flags_excl[of i d s j g] by (auto simp: excl_def)

lemma excl_kept_release: "table_ok s \<Longrightarrow> j \<noteq> i \<Longrightarrow> excl_kept i d s (alt_release_fd j s)"
  unfolding excl_kept_def using release_users[of d j s] by (auto simp: release_ok release_excl) (auto simp: excl_def)

text \<open>A state in which descriptor \<open>k\<close>, free before, has been given to \<open>e\<close>.\<close>

definition took :: "int \<Rightarrow> u32 \<Rightarrow> 'a fd_state_scheme \<Rightarrow> 'a fd_state_scheme \<Rightarrow> bool" where
  "took k e s t \<longleftrightarrow> links t = links s \<and> dev_names t = dev_names s \<and> alt_max_fd t = max k (alt_max_fd s)
     \<and> (\<forall>j. fd_dev (fd_list t j) = (if j = k then e else fd_dev (fd_list s j)))
     \<and> (\<forall>j. j \<noteq> k \<longrightarrow> fd_flags (fd_list t j) = fd_flags (fd_list s j))"

lemma took_open:
  "took k e s (upd_fd k (\<lambda>f. f\<lparr>fd_flags := fl\<rparr>) (take_fd k e s))"
  "took k e s (snd (alt_file_locked k (upd_fd k (\<lambda>f. f\<lparr>fd_flags := fl\<rparr>) (take_fd k e s))))"
  by (auto simp: took_def alt_file_locked_def Let_def)

lemma free_above_2: "table_ok s \<Longrightarrow> lowest_free k s \<Longrightarrow> 2 < k \<and> k < 32"
  unfolding table_ok_def lowest_free_def by (metis not_le)

lemma excl_not_free: "excl i d s \<Longrightarrow> lowest_free k s \<Longrightarrow> i \<noteq> k"
  by (auto simp: excl_def lowest_free_def)

lemma took_excl:
  assumes "took k e s t" "excl i d s" "lowest_free k s" shows "excl i d t"
  using assms excl_not_free[OF assms(2,3)] by (auto simp: took_def excl_def)

lemma took_ok:
  assumes "took k e s t" "table_ok s" "lowest_free k s" "e \<noteq> 0" shows "table_ok t"
  using assms free_above_2[OF assms(2,3)] by (auto simp: took_def table_ok_def)

lemma took_users:
  assumes "took k e s t" "e \<noteq> d" shows "users d t \<subseteq> users d s"
  using assms by (auto simp: took_def users_def split: if_splits)

lemma took_release_users:
  assumes "took k e s t" "table_ok s" "lowest_free k s" "d \<noteq> 0"
  shows "users d (alt_release_fd k t) \<subseteq> users d s"
  using assms free_above_2[OF assms(2,3)] by (auto simp: took_def users_def split: if_splits)

lemma took_kept:
  assumes "took k e s t" "table_ok s" "lowest_free k s" "e \<noteq> 0" "excl i d s \<longrightarrow> e \<noteq> d"
  shows "excl_kept i d s t"
  using assms took_excl[OF assms(1) _ assms(3)] took_ok[OF assms(1-4)] took_users[OF assms(1)]
  unfolding excl_kept_def by (auto simp: took_def)

lemma took_release_kept:
  assumes "took k e s t" "table_ok s" "lowest_free k s" "e \<noteq> 0"
  shows "excl_kept i d s (alt_release_fd k t)"
proof -
  have "excl i d (alt_release_fd k t) \<and> users d (alt_release_fd k t) \<subseteq> users d s" if x: "excl i d s"
    using took_excl[OF assms(1) x assms(3)] excl_not_free[OF x assms(3)] took_release_users[OF assms(1-3)]
      release_excl[of i d t k] x by (auto simp: excl_def)
  then show ?thesis using took_ok[OF assms] release_ok[of t k] assms(1)
    unfolding excl_kept_def by (auto simp: took_def)
qed

section \<open>A device that opens\<close>

definition opened_fd :: "int \<Rightarrow> u32 \<Rightarrow> u32 \<Rightarrow> 'a fd_state_scheme \<Rightarrow> 'a fd_state_scheme \<Rightarrow> bool" where
  "opened_fd k d fl s t \<longleftrightarrow> took k d s t \<and> errno t = errno s
     \<and> fd_flags (fd_list t k) = (fl AND NOT ALT_FD_FLAGS_MASK) OR ALT_FD_DEV"

definition unlocked :: "u32 \<Rightarrow> 'a fd_state_scheme \<Rightarrow> bool" where
  "unlocked d s \<longleftrightarrow> (\<forall>j. 0 \<le> j \<and> j < 32 \<and> fd_dev (fd_list s j) = d \<longrightarrow> fd_flags (fd_list s j) AND ALT_FD_EXCL = 0)"

context driver
begin

lemma open_dev_kept:
  assumes o: "open_dev ops isafs e file fl md s = Some (r, s')" and ok: "table_ok s" and e: "e \<noteq> 0"
    and fs: "isafs \<longrightarrow> e \<noteq> d"
  shows "excl_kept i d s s'"
  using o
proof (cases rule: open_dev_cases)
  case full
  then show ?thesis using ok by (intro excl_kept_same)
next
  case (refused k err t)
  then have "took k e s t" using took_open(2)[of k e s "fl AND NOT ALT_FD_FLAGS_MASK"] by simp
  then show ?thesis using refused ok e took_release_kept excl_kept_then_same by blast
next
  case (opened k t)
  let ?x = "upd_fd k (\<lambda>f. f\<lparr>fd_flags := fl AND NOT ALT_FD_FLAGS_MASK\<rparr>) (take_fd k e s)"
  have t: "took k e s t" using took_open[of k e s "fl AND NOT ALT_FD_FLAGS_MASK"] opened(2)
    by (auto simp: Let_def)
  have "e \<noteq> d" if x: "excl i d s"
  proof
    assume ed: "e = d"
    have tx: "took k e s ?x" by (rule took_open(1))
    then have "excl i d ?x" "fd_dev (fd_list ?x k) = d" "k \<noteq> i" "alt_max_fd ?x < 32"
      using took_excl[OF tx x opened(1)] took_ok[OF tx ok opened(1) e] excl_not_free[OF x opened(1)] ed
      by (auto simp: took_def table_ok_def)
    then have "fst (alt_file_locked k ?x) = - EACCES" by (rule file_locked_excl)
    then show False using opened(3) fs ed by (auto simp: EACCES_def)
  qed
  then show ?thesis using opened(4) t took_kept[OF t ok opened(1) e] took_release_kept[OF t ok opened(1) e]
      excl_kept_then_same by blast
qed

lemma open_kept:
  assumes o: "alt_open ops file fl md s = Some (r, s')" and ok: "table_ok s"
    and fs: "d = 0 \<or> (\<forall>n. alt_find_file n s \<noteq> Some d)"
  shows "excl_kept i d s s'"
proof -
  obtain e where e: "alt_find_dev file ALT_DEV_LIST s = Some e" using o by (auto simp: alt_open_def split: option.splits)
  show ?thesis
  proof (cases "e \<noteq> 0")
    case True
    then have "open_dev ops False e file fl md s = Some (r, s')" using o e by (simp add: alt_open_def)
    then show ?thesis using ok True by (rule open_dev_kept) simp
  next
    case False
    then obtain e2 where e2: "alt_find_file file s = Some e2" using o e by (auto simp: alt_open_def split: option.splits)
    show ?thesis
    proof (cases "e2 \<noteq> 0")
      case True
      then have "open_dev ops True e2 file fl md s = Some (r, s')" using o e e2 False by (simp add: alt_open_def)
      then show ?thesis using ok True by (rule open_dev_kept) (use fs e2 True in auto)
    next
      case f: False
      then have "same_table s s'" using o e e2 False
        by (auto simp: alt_open_def open_finish_def alt_release_fd_def split: if_splits)
      then show ?thesis using ok by (intro excl_kept_same)
    qed
  qed
qed

lemma step_kept:
  assumes st: "fd_step ops s c s'" and ok: "table_ok s" and fs: "d = 0 \<or> (\<forall>n. alt_find_file n s \<noteq> Some d)"
    and c: "c \<noteq> Close i" "c \<noteq> Ioctl i TIOCNXCL"
  shows "excl_kept i d s s'"
  using st
proof (cases rule: fd_step.cases)
  case (step_open n fl md r)
  then show ?thesis using open_kept ok fs by blast
next
  case (step_close j r)
  then obtain t where "same_table s t" "same_table (alt_release_fd j t) s'" using close_table by blast
  moreover have "j \<noteq> i" using c step_close by auto
  ultimately have "excl_kept i d t (alt_release_fd j t)" "same_table s t" "table_ok t"
    using excl_kept_release ok same_table_props(1) by blast+
  then have "excl_kept i d s (alt_release_fd j t)"
    unfolding excl_kept_def by (auto simp: same_table_props) (auto simp: same_table_def)
  then show ?thesis using \<open>same_table (alt_release_fd j t) s'\<close> excl_kept_then_same by blast
next
  case (step_ioctl j req arg r arg')
  consider "same_table s s'" | s1 where "alt_fd_lock j s = (0, s1)" "same_table s1 s'"
    | "req = TIOCNXCL" "same_table (snd (alt_fd_unlock j s)) s'"
    using ioctl_table[OF step_ioctl(3)] by blast
  then show ?thesis
  proof cases
    case 1
    then show ?thesis using ok by (intro excl_kept_same)
  next
    case 2
    then have "s1 = upd_fd j (\<lambda>f. f\<lparr>fd_flags := fd_flags f OR ALT_FD_EXCL\<rparr>) s"
      by (auto simp: alt_fd_lock_def EACCES_def split: if_splits)
    then have "excl_kept i d s s1" using ok by (auto intro!: excl_kept_flags simp: excl_bit)
    then show ?thesis using 2 excl_kept_then_same by blast
  next
    case 3
    then have "j \<noteq> i" using c step_ioctl by auto
    then have "excl_kept i d s (snd (alt_fd_unlock j s))"
      using ok by (auto simp: alt_fd_unlock_def intro!: excl_kept_flags)
    then show ?thesis using 3 excl_kept_then_same by blast
  qed
next
  case (step_fcntl j cmd fl r)
  then have "same_table s s' \<or> s' = upd_fd j (\<lambda>f. f\<lparr>fd_flags := (fd_flags f AND NOT ALT_FCNTL_FLAGS_MASK)
      OR (fl AND ALT_FCNTL_FLAGS_MASK)\<rparr>) s"
    by (auto simp: alt_fcntl_def fail_def split: if_splits)
  then show ?thesis using ok excl_kept_same by (auto intro!: excl_kept_flags simp: excl_bit)
qed (use ok excl_kept_same in \<open>blast dest: read_table write_table lseek_table fstat_table isatty_table\<close>)+

lemma run_kept:
  "fd_run ops s cs s' \<Longrightarrow> table_ok s \<Longrightarrow> d = 0 \<or> (\<forall>n. alt_find_file n s \<noteq> Some d) \<Longrightarrow>
   Close i \<notin> set cs \<Longrightarrow> Ioctl i TIOCNXCL \<notin> set cs \<Longrightarrow> excl_kept i d s s'"
proof (induction rule: fd_run.induct)
  case (run_nil s)
  then show ?case by (simp add: excl_kept_def)
next
  case (run_cons s c t cs u)
  have k: "excl_kept i d s t"
    by (rule step_kept[OF run_cons.hyps(1)]) (use run_cons.prems in auto)
  then have "\<forall>n. alt_find_file n t = alt_find_file n s" "table_ok t"
    by (auto simp: excl_kept_def intro: find_file_cong)
  then have "excl_kept i d t u" using run_cons by auto
  then show ?case using k unfolding excl_kept_def by auto
qed

text \<open>The invariant holds whatever is called.\<close>

lemma step_table_ok:
  assumes st: "fd_step ops s c s'" and "table_ok s" shows "table_ok s'"
proof -
  have "c \<noteq> Close 100" "c \<noteq> Ioctl 100 TIOCNXCL" using st by (auto elim: fd_step.cases)
  then have "excl_kept 100 0 s s'" using assms by (intro step_kept[OF st]) auto
  then show ?thesis by (simp add: excl_kept_def)
qed

lemma run_table_ok: "fd_run ops s cs s' \<Longrightarrow> table_ok s \<Longrightarrow> table_ok s'"
  by (induction rule: fd_run.induct) (auto dest: step_table_ok)

lemma file_locked_free:
  assumes "unlocked d s" "table_ok s" "lowest_free k s" "d \<noteq> 0"
  shows "fst (alt_file_locked k (upd_fd k (\<lambda>f. f\<lparr>fd_flags := fl\<rparr>) (take_fd k d s))) = 0"
proof -
  let ?x = "upd_fd k (\<lambda>f. f\<lparr>fd_flags := fl\<rparr>) (take_fd k d s)"
  have k: "2 < k" "k < 32" using free_above_2[OF assms(2,3)] by auto
  have m: "alt_max_fd ?x = max k (alt_max_fd s)" by simp
  then have m32: "0 \<le> alt_max_fd ?x" "alt_max_fd ?x < 32" using k assms(2) by (auto simp: table_ok_def)
  then have "\<not> (\<exists>j\<ge>0. j < int (Suc (nat (alt_max_fd ?x mod 2 ^ 32))) \<and> fd_dev (fd_list ?x j) = d
      \<and> fd_flags (fd_list ?x j) AND ALT_FD_EXCL \<noteq> 0 \<and> j \<noteq> k)"
    using assms(1) m by (auto simp: unlocked_def)
  then show ?thesis
    unfolding alt_file_locked_def Let_def list_ex_fd_range by (auto split: if_splits)
qed

lemma open_succeeds:
  assumes "alt_find_dev file ALT_DEV_LIST s = Some d" "d \<noteq> 0" "op_open (ops d) = None"
    and "lowest_free k s" "unlocked d s" "table_ok s"
  shows "\<exists>t. alt_open ops file fl md s = Some (k, t) \<and> opened_fd k d fl s t"
proof (cases rule: get_fd_cases[of s d])
  case 1
  then show ?thesis using assms(4) lowest_free_not_full by blast
next
  case (2 i)
  then have i: "i = k" using assms(4) lowest_free_unique by blast
  have k: "\<not> k < 0" using assms(4) by (simp add: lowest_free_def)
  let ?x = "upd_fd k (\<lambda>f. f\<lparr>fd_flags := fl AND NOT ALT_FD_FLAGS_MASK\<rparr>) (take_fd k d s)"
  have l: "alt_file_locked k ?x = (0, snd (alt_file_locked k ?x))"
    using file_locked_free[OF assms(5,6,4,2)] by (simp add: prod_eq_iff)
  have "alt_open ops file fl md s = Some (k, snd (alt_file_locked k ?x))"
    using assms(1-3) 2 i k by (simp add: alt_open_def open_dev_def Let_def, subst l, simp add: open_finish_def)
  moreover have "opened_fd k d fl s (snd (alt_file_locked k ?x))"
    by (simp add: opened_fd_def took_open(2)) (simp add: alt_file_locked_def Let_def)
  ultimately show ?thesis by blast
qed

lemma open_full:
  assumes "alt_find_dev file ALT_DEV_LIST s = Some d" "d \<noteq> 0" "pool_full s"
  shows "alt_open ops file fl md s = Some (- 1, s\<lparr>errno := EMFILE\<rparr>)"
proof (cases rule: get_fd_cases[of s d])
  case 1
  then show ?thesis using assms
    by (simp add: alt_open_def open_dev_def open_finish_def alt_release_fd_def EMFILE_def)
next
  case (2 i)
  then show ?thesis using assms(3) lowest_free_not_full by blast
qed

lemma open_refused:
  assumes "alt_find_dev file ALT_DEV_LIST s = Some d" "d \<noteq> 0"
    and "lowest_free k s" "\<not> unlocked d s" "table_ok s"
  shows "\<exists>t. alt_open ops file fl md s = Some (- 1, t) \<and> errno t = EACCES
    \<and> (\<forall>j. fd_dev (fd_list t j) = fd_dev (fd_list s j))"
proof (cases rule: get_fd_cases[of s d])
  case 1
  then show ?thesis using assms(3) lowest_free_not_full by blast
next
  case (2 i)
  then have i: "i = k" using assms(3) lowest_free_unique by blast
  have k: "2 < k" "k < 32" using free_above_2[OF assms(5,3)] by auto
  let ?x = "upd_fd k (\<lambda>f. f\<lparr>fd_flags := fl AND NOT ALT_FD_FLAGS_MASK\<rparr>) (take_fd k d s)"
  obtain j where j: "0 \<le> j" "j < 32" "fd_dev (fd_list s j) = d" "fd_flags (fd_list s j) AND ALT_FD_EXCL \<noteq> 0"
    using assms(4) by (auto simp: unlocked_def)
  have "j \<noteq> k" using j assms(2,3) by (auto simp: lowest_free_def)
  moreover have "j \<le> max k (alt_max_fd s)" using j k assms(2,5) by (cases "2 < j") (auto simp: table_ok_def)
  ultimately have "excl j d ?x" using j assms(2) k by (auto simp: excl_def)
  moreover have "alt_max_fd ?x < 32" "fd_dev (fd_list ?x k) = d" using k assms(5) by (auto simp: table_ok_def)
  ultimately have l: "alt_file_locked k ?x = (- EACCES, snd (alt_file_locked k ?x))"
    using file_locked_excl[of j d ?x k] \<open>j \<noteq> k\<close> by (simp add: prod_eq_iff)
  have "alt_open ops file fl md s
      = Some (- 1, (alt_release_fd k (snd (alt_file_locked k ?x)))\<lparr>errno := EACCES\<rparr>)"
    using assms(1,2) 2 i k
    by (simp add: alt_open_def open_dev_def Let_def, subst l, simp add: open_finish_def EACCES_def)
  moreover have "fd_dev (fd_list (alt_release_fd k (snd (alt_file_locked k ?x))) j) = fd_dev (fd_list s j)" for j
    using took_open(2)[of k d s "fl AND NOT ALT_FD_FLAGS_MASK"] k assms(3)
    by (simp add: took_def lowest_free_def)
  ultimately show ?thesis by simp
qed

lemma open_fd_redirects:
  assumes "alt_find_dev file ALT_DEV_LIST s = Some d" "d \<noteq> 0" "op_open (ops d) = None"
    and "lowest_free k s" "unlocked d s" "table_ok s" "0 \<le> i" "i \<le> 2"
  shows "\<exists>s'. alt_open_fd ops i file fl md s = Some s' \<and> links s' = links s \<and> dev_names s' = dev_names s
    \<and> errno s' = errno s \<and> lowest_free k s' \<and> unlocked d s' \<and> table_ok s'
    \<and> fd_dev (fd_list s' i) = d \<and> fd_flags (fd_list s' i) = (fl AND NOT ALT_FD_FLAGS_MASK) OR ALT_FD_DEV
    \<and> (\<forall>j. j \<noteq> i \<longrightarrow> fd_dev (fd_list s' j) = fd_dev (fd_list s j)
          \<and> (j \<noteq> k \<longrightarrow> fd_flags (fd_list s' j) = fd_flags (fd_list s j)))"
proof -
  obtain t where t: "alt_open ops file fl md s = Some (k, t)" "opened_fd k d fl s t"
    using open_succeeds[OF assms(1-6)] by blast
  have k: "2 < k" "k < 32" using free_above_2[OF assms(6,4)] by auto
  have e: "((fl AND NOT ALT_FD_FLAGS_MASK) OR ALT_FD_DEV) AND ALT_FD_EXCL = 0"
    by (simp add: excl_bit(1) and.assoc) (simp add: fd_flag_defs)
  let ?s = "alt_release_fd k (upd_fd i (\<lambda>f. f\<lparr>fd_dev := fd_dev (fd_list t k), fd_priv := fd_priv (fd_list t k),
      fd_flags := fd_flags (fd_list t k)\<rparr>) t)"
  have s': "alt_open_fd ops i file fl md s = Some ?s" using t(1) k by (simp add: alt_open_fd_def)
  have o: "links t = links s" "dev_names t = dev_names s" "errno t = errno s"
    "\<And>j. fd_dev (fd_list t j) = (if j = k then d else fd_dev (fd_list s j))"
    "\<And>j. j \<noteq> k \<Longrightarrow> fd_flags (fd_list t j) = fd_flags (fd_list s j)"
    "fd_flags (fd_list t k) = (fl AND NOT ALT_FD_FLAGS_MASK) OR ALT_FD_DEV"
    "alt_max_fd t = max k (alt_max_fd s)"
    using t(2) by (auto simp: opened_fd_def took_def)
  have "fd_dev (fd_list s k) = 0" using assms(4) by (simp add: lowest_free_def)
  moreover have "lowest_free k ?s" using o assms(2,4) k by (auto simp: lowest_free_def)
  moreover have "unlocked d ?s" using o assms(2,5) e k by (auto simp: unlocked_def)
  moreover have "table_ok ?s" using o assms k by (auto simp: table_ok_def)
  ultimately show ?thesis using s' o k assms(2,7,8) by (intro exI[of _ ?s]) auto
qed

end

end
