(* ===== verification/JtagQueues.thy ===== *)
theory JtagQueues
  imports JtagUart
begin

text \<open>
  The JTAG UART driver as two byte queues: the receive queue is filled by the interrupt handler
  and emptied by read, the transmit queue is filled by write and emptied by the handler.
\<close>

section \<open>The two queues\<close>

definition rx_ok :: "jtag_state \<Rightarrow> bool" where
  "rx_ok s \<longleftrightarrow> rx_in s < BUF_LEN \<and> rx_out s < BUF_LEN"

definition tx_ok :: "jtag_state \<Rightarrow> bool" where
  "tx_ok s \<longleftrightarrow> tx_in s < BUF_LEN \<and> tx_out s < BUF_LEN"

definition rxq :: "jtag_state \<Rightarrow> u8 list" where
  "rxq s = ring (rx_buf s) (rx_in s) (rx_out s)"

definition txq :: "jtag_state \<Rightarrow> u8 list" where
  "txq s = ring (tx_buf s) (tx_in s) (tx_out s)"

definition rx_fits :: "nat \<Rightarrow> jtag_state \<Rightarrow> bool" where
  "rx_fits n s \<longleftrightarrow> n = 1 \<and> (rx_in s + 1) mod BUF_LEN \<noteq> rx_out s"

definition rx_avail :: "nat \<Rightarrow> jtag_state \<Rightarrow> bool" where
  "rx_avail n s \<longleftrightarrow> n \<le> ring_count (rx_in s) (rx_out s) \<and> unat (rx_out s) + n \<le> 2048"

definition tx_fits :: "nat \<Rightarrow> jtag_state \<Rightarrow> bool" where
  "tx_fits n s \<longleftrightarrow> ring_count (tx_in s) (tx_out s) + n < 2048 \<and> unat (tx_in s) + n \<le> 2048"

definition tx_avail :: "nat \<Rightarrow> jtag_state \<Rightarrow> bool" where
  "tx_avail n s \<longleftrightarrow> n = 1 \<and> tx_in s \<noteq> tx_out s"

definition tx_pop1 :: "nat \<Rightarrow> jtag_state \<Rightarrow> u8 list \<times> jtag_state" where
  "tx_pop1 n s = (let (c, s1) = tx_pop s in ([c], s1))"

lemma rx_push_simps:
  assumes "rx_ok s" "(rx_in s + 1) mod BUF_LEN \<noteq> rx_out s"
  shows "rx_ok (rx_push c s)" "rxq (rx_push c s) = rxq s @ [c]"
  using assms ring_push[of "rx_in s" "rx_out s" "rx_buf s" c]
  by (simp_all add: rx_ok_def rx_push_def rxq_def mod_len_less)

lemma rx_take_simps:
  assumes "rx_ok s" "rx_avail n s"
  shows "rx_ok (snd (rx_take n s))" "rxq s = fst (rx_take n s) @ rxq (snd (rx_take n s))"
    "length (fst (rx_take n s)) = n"
  using assms ring_take[of "rx_in s" "rx_out s" n "rx_buf s"]
  by (simp_all add: rx_ok_def rx_take_def rxq_def rx_avail_def mod_len_less)

lemma tx_put_simps:
  assumes "tx_ok s" "tx_fits (length bs) s"
  shows "tx_ok (tx_put bs s)" "txq (tx_put bs s) = txq s @ bs"
  using assms ring_put[of "tx_in s" "tx_out s" bs "tx_buf s"]
  by (simp_all add: tx_ok_def tx_put_def txq_def tx_fits_def mod_len_less)

lemma tx_pop_simps:
  assumes "tx_ok s" "tx_in s \<noteq> tx_out s"
  shows "tx_ok (snd (tx_pop s))" "txq s = fst (tx_pop s) # txq (snd (tx_pop s))"
  using assms ring_pop[of "tx_in s" "tx_out s" "tx_buf s"]
  by (simp_all add: tx_ok_def tx_pop_def txq_def mod_len_less)

interpretation rx: fifo rx_ok rxq rx_fits rx_avail "\<lambda>bs. rx_push (hd bs)" rx_take
proof unfold_locales
  fix s :: jtag_state and bs :: "u8 list" and n :: nat
  assume ok: "rx_ok s"
  { assume f: "rx_fits (length bs) s"
    then obtain c where bs: "bs = [c]" "(rx_in s + 1) mod BUF_LEN \<noteq> rx_out s"
      by (cases bs) (auto simp: rx_fits_def)
    show "rx_ok (rx_push (hd bs) s)" "rxq (rx_push (hd bs) s) = rxq s @ bs"
      using rx_push_simps[OF ok bs(2)] bs(1) by simp_all
    assume a: "rx_avail n s"
    have "length (rxq (rx_push (hd bs) s)) = length (rxq s) + 1"
      using rx_push_simps[OF ok bs(2)] by simp
    then show "rx_avail n (rx_push (hd bs) s)"
      using a by (simp add: rx_avail_def rxq_def length_ring rx_push_def) }
  assume "rx_avail n s"
  then show "rx_ok (snd (rx_take n s))" "rxq s = fst (rx_take n s) @ rxq (snd (rx_take n s))"
    "length (fst (rx_take n s)) = n"
    using rx_take_simps[OF ok] by simp_all
qed

interpretation tx: fifo tx_ok txq tx_fits tx_avail tx_put tx_pop1
proof unfold_locales
  fix s :: jtag_state and bs :: "u8 list" and n :: nat
  assume ok: "tx_ok s"
  { assume f: "tx_fits (length bs) s"
    show "tx_ok (tx_put bs s)" "txq (tx_put bs s) = txq s @ bs"
      using tx_put_simps[OF ok f] by simp_all
    assume a: "tx_avail n s"
    have "length (txq (tx_put bs s)) = length (txq s) + length bs"
      using tx_put_simps[OF ok f] by simp
    then have "ring_count (tx_in (tx_put bs s)) (tx_out s) \<noteq> 0"
      using a ok ring_count_0[of "tx_in s" "tx_out s"]
      by (simp add: txq_def length_ring tx_put_def tx_avail_def tx_ok_def)
    then show "tx_avail n (tx_put bs s)"
      using a ok ring_count_0[of "tx_in (tx_put bs s)" "tx_out s"]
      by (auto simp: tx_avail_def tx_put_def tx_ok_def mod_len_less) }
  assume "tx_avail n s"
  then show "tx_ok (snd (tx_pop1 n s))" "txq s = fst (tx_pop1 n s) @ txq (snd (tx_pop1 n s))"
    "length (fst (tx_pop1 n s)) = n"
    using tx_pop_simps[OF ok] by (auto simp: tx_avail_def tx_pop1_def split: prod.splits)
qed

text \<open>
  Whatever the interleaving of the interrupt handler storing received bytes and the reader
  taking blocks, the reader gets exactly the received bytes, in order: what was in the buffer
  followed by what came in is what was read followed by what is still in the buffer.
\<close>

theorem rx_fifo_order:
  assumes "rx_ok s"
    and "fifo_legal rx_fits rx_avail (\<lambda>bs. rx_push (hd bs)) rx_take ops s"
    and "fifo_run (\<lambda>bs. rx_push (hd bs)) rx_take ops s = (got, s')"
  shows "rxq s @ puts_of ops = got @ rxq s' \<and> rx_ok s'"
  using rx.fifo_order[OF assms(1,2)] rx.run_ok[OF assms(1,2)] assms(3) by simp

definition jtag_boot :: jtag_state where
  "jtag_boot = \<lparr>ju_base = 0x300a0, ju_timeout = 10, ju_irq_enable = 1, ju_host_inactive = 0,
     rx_in = 0, rx_out = 0, tx_in = 0, tx_out = 0, rx_buf = (\<lambda>_. 0), tx_buf = (\<lambda>_. 0)\<rparr>"

theorem rx_fifo_order_witness:
  "\<exists>s'. fifo_run (\<lambda>bs. rx_push (hd bs)) rx_take [Put [0x41], Put [0x42], Get 1] jtag_boot = ([0x41], s')
     \<and> rxq jtag_boot @ [0x41, 0x42] = [0x41] @ rxq s'"
proof -
  let ?r = "fifo_run (\<lambda>bs. rx_push (hd bs)) rx_take [Put [0x41], Put [0x42], Get 1] jtag_boot"
  have r: "fst ?r = [0x41]"
    by (simp add: rx_push_def rx_take_def jtag_boot_def cells_def BUF_LEN_def split: prod.splits)
  have "rxq jtag_boot @ puts_of [Put [0x41], Put [0x42], Get 1] = fst ?r @ rxq (snd ?r) \<and> rx_ok (snd ?r)"
    by (rule rx_fifo_order[OF _ _ prod.collapse[symmetric]])
       (simp_all add: rx_ok_def jtag_boot_def BUF_LEN_def rx_fits_def rx_avail_def rx_push_def ring_count_def)
  then show ?thesis unfolding r using r by (intro exI[of _ "snd ?r"]) (simp add: prod_eq_iff)
qed

section \<open>The handler serves both queues\<close>

definition rx_valid :: "u32 \<Rightarrow> trace \<Rightarrow> u8 list" where
  "rx_valid b d = map (\<lambda>v. ucast (v AND JU_DATA_DATA_MSK))
     (filter (\<lambda>v. v AND JU_DATA_RVALID_MSK \<noteq> 0) (rd_log b JU_DATA_REG d))"

definition tx_sent :: "u32 \<Rightarrow> trace \<Rightarrow> u8 list" where
  "tx_sent b d = map ucast (wr_log b JU_DATA_REG d)"

lemma rx_valid_append: "rx_valid b (e @ d) = rx_valid b d @ rx_valid b e"
  by (simp add: rx_valid_def rd_log_append)

lemma tx_sent_append: "tx_sent b (e @ d) = tx_sent b d @ tx_sent b e"
  by (simp add: tx_sent_def wr_log_append)

text \<open>
  A step of the handler: it adds to the receive queue the valid bytes it read from the device,
  removes from the transmit queue the bytes it wrote to the device, and leaves alone what
  belongs to the thread.
\<close>

definition isr_step :: "jtag_world \<Rightarrow> jtag_world \<Rightarrow> bool" where
  "isr_step w w' \<longleftrightarrow> (\<exists>d. io w' = d @ io w
     \<and> rxq (sp w') = rxq (sp w) @ rx_valid (ju_base (sp w)) d
     \<and> txq (sp w) = tx_sent (ju_base (sp w)) d @ txq (sp w'))
     \<and> rx_ok (sp w') \<and> tx_ok (sp w')
     \<and> ju_base (sp w') = ju_base (sp w) \<and> rx_out (sp w') = rx_out (sp w)
     \<and> tx_in (sp w') = tx_in (sp w) \<and> tx_buf (sp w') = tx_buf (sp w) \<and> ju_timeout (sp w') = ju_timeout (sp w)
     \<and> ju_host_inactive (sp w') = ju_host_inactive (sp w) \<and> mstatus w' = mstatus w"

lemma isr_step_refl: "rx_ok (sp w) \<Longrightarrow> tx_ok (sp w) \<Longrightarrow> isr_step w w"
  by (auto simp: isr_step_def rx_valid_def tx_sent_def intro: exI[of _ "[]"])

lemma isr_step_ok: "isr_step w w' \<Longrightarrow> rx_ok (sp w') \<and> tx_ok (sp w')"
  by (simp add: isr_step_def)

lemma isr_step_trans:
  assumes "isr_step w w1" "isr_step w1 w2"
  shows "isr_step w w2"
proof -
  obtain d e where
    "io w1 = d @ io w" "rxq (sp w1) = rxq (sp w) @ rx_valid (ju_base (sp w)) d"
    "txq (sp w) = tx_sent (ju_base (sp w)) d @ txq (sp w1)"
    "io w2 = e @ io w1" "rxq (sp w2) = rxq (sp w1) @ rx_valid (ju_base (sp w1)) e"
    "txq (sp w1) = tx_sent (ju_base (sp w1)) e @ txq (sp w2)"
    using assms unfolding isr_step_def by blast
  then have "\<exists>d. io w2 = d @ io w \<and> rxq (sp w2) = rxq (sp w) @ rx_valid (ju_base (sp w)) d
     \<and> txq (sp w) = tx_sent (ju_base (sp w)) d @ txq (sp w2)"
    using assms by (intro exI[of _ "e @ d"])
      (simp add: rx_valid_append tx_sent_append isr_step_def)
  then show ?thesis using assms unfolding isr_step_def by auto
qed

lemma isr_step_iord:
  assumes "rx_ok (sp w)" "tx_ok (sp w)" "iord hw b JU_CONTROL_REG w = (v, w1)"
  shows "isr_step w w1"
  using assms by (auto simp: isr_step_def iord_eq rx_valid_def tx_sent_def reg_defs)

lemma isr_step_mask_off:
  assumes "rx_ok (sp w)" "tx_ok (sp w)"
  shows "isr_step w (isr_mask_off hw m w)"
  using assms
  by (auto simp: isr_step_def isr_mask_off_def sp_upd_def iowr_eq iord_eq Let_def rx_valid_def
      tx_sent_def reg_defs rxq_def txq_def rx_ok_def tx_ok_def)

text \<open>Receiving ends, because the buffer fills up or the device has no more.\<close>

lemma isr_rx_ends:
  assumes "rx_ok (sp w)" "tx_ok (sp w)"
  shows "\<exists>v w'. jtag_isr_rx hw data w = Some (v, w') \<and> isr_step w w'"
  using assms
proof (induction "2048 - length (rxq (sp w))" arbitrary: w data rule: less_induct)
  case less
  define b where "b = ju_base (sp w)"
  show ?case
  proof (cases "(rx_in (sp w) + 1) mod BUF_LEN = rx_out (sp w)")
    case True
    then show ?thesis using isr_step_refl[OF less.prems]
      by (subst jtag_isr_rx.simps) (simp add: Let_def)
  next
    case ne: False
    obtain v w1 where r: "iord hw b JU_DATA_REG w = (v, w1)" by fastforce
    have w1: "w1 = w\<lparr>io := Rd b JU_DATA_REG v # io w\<rparr>" using r by (auto simp: iord_eq)
    show ?thesis
    proof (cases "v AND JU_DATA_RVALID_MSK = 0")
      case True
      have "isr_step w w1"
        using less.prems True unfolding isr_step_def w1
        by (auto simp: rx_valid_def tx_sent_def b_def intro!: exI[of _ "[Rd b JU_DATA_REG v]"])
      then show ?thesis using ne True r
        by (subst jtag_isr_rx.simps) (simp add: Let_def b_def)
    next
      case False
      define c :: u8 where "c = ucast (v AND JU_DATA_DATA_MSK)"
      define w2 where "w2 = sp_upd (rx_push c) w1"
      note push = rx_push_simps[OF less.prems(1) ne, of c]
      have st: "isr_step w w2"
        using less.prems False push unfolding isr_step_def
        by (auto simp: w2_def w1 sp_upd_def rx_valid_def tx_sent_def b_def c_def tx_ok_def txq_def
            rx_push_def intro!: exI[of _ "[Rd b JU_DATA_REG v]"])
      have "length (rxq (sp w2)) = length (rxq (sp w)) + 1"
        using push(2) by (simp add: w2_def w1 sp_upd_def)
      moreover have "length (rxq (sp w2)) < 2048"
        by (simp add: rxq_def length_ring ring_count_less)
      ultimately have "2048 - length (rxq (sp w2)) < 2048 - length (rxq (sp w))" by simp
      from less.hyps[OF this] isr_step_ok[OF st] obtain v' w' where
        ih: "jtag_isr_rx hw v w2 = Some (v', w')" "isr_step w2 w'" by blast
      have "jtag_isr_rx hw data w = Some (v', w')"
        using ne False r ih(1) by (subst jtag_isr_rx.simps) (simp add: Let_def b_def w2_def c_def)
      then show ?thesis using isr_step_trans[OF st ih(2)] by blast
    qed
  qed
qed

lemma isr_receive_ends:
  assumes "rx_ok (sp w)" "tx_ok (sp w)"
  shows "\<exists>w'. jtag_isr_receive hw w = Some w' \<and> isr_step w w'"
proof -
  obtain v w1 where "jtag_isr_rx hw (push_bit JU_DATA_RAVAIL_OFST 1) w = Some (v, w1)" "isr_step w w1"
    using isr_rx_ends[OF assms] by blast
  then show ?thesis
    using isr_step_trans[OF _ isr_step_mask_off] isr_step_ok
    by (auto simp: jtag_isr_receive_def)
qed

lemma isr_tx_step:
  "rx_ok (sp w) \<Longrightarrow> tx_ok (sp w) \<Longrightarrow> jtag_isr_tx space w = (sp', w') \<Longrightarrow> isr_step w w'"
proof (induction space w rule: jtag_isr_tx.induct)
  case (1 space w)
  show ?case
  proof (cases "space > 0 \<and> tx_out (sp w) \<noteq> tx_in (sp w)")
    case False
    then have "w' = w" using "1.prems"(3) by (subst (asm) jtag_isr_tx.simps) auto
    then show ?thesis using isr_step_refl "1.prems" by simp
  next
    case True
    obtain c s1 where p: "tx_pop (sp w) = (c, s1)" by fastforce
    define w1 where "w1 = (iowr (ju_base (sp w)) JU_DATA_REG (ucast c) w)\<lparr>sp := s1\<rparr>"
    have q: "tx_ok s1" "txq (sp w) = c # txq s1"
      using tx_pop_simps[OF "1.prems"(2) not_sym[OF conjunct2[OF True]]] p by simp_all
    have s1: "s1 = (sp w)\<lparr>tx_out := (tx_out (sp w) + 1) mod BUF_LEN\<rparr>"
      using p by (simp add: tx_pop_def)
    have cc: "ucast (ucast c :: u32) = c" by simp
    have st: "isr_step w w1"
      using "1.prems"(1) q s1 cc unfolding isr_step_def
      by (auto simp: w1_def iowr_eq rx_valid_def tx_sent_def rx_ok_def rxq_def
          intro!: exI[of _ "[Wr (ju_base (sp w)) JU_DATA_REG (ucast c)]"])
    have "jtag_isr_tx (space - 1) w1 = (sp', w')"
      using "1.prems"(3) True p by (subst (asm) jtag_isr_tx.simps) (simp add: w1_def)
    then have "isr_step w1 w'"
      using "1.IH"[OF True p[symmetric] refl refl] isr_step_ok[OF st] by (simp add: w1_def)
    then show ?thesis using isr_step_trans[OF st] by simp
  qed
qed

lemma isr_send_step:
  assumes "rx_ok (sp w)" "tx_ok (sp w)"
  shows "isr_step w (jtag_isr_send hw control w)"
proof -
  define space where "space = drop_bit JU_CONTROL_WSPACE_OFST (control AND JU_CONTROL_WSPACE_MSK)"
  obtain n w1 where t: "jtag_isr_tx space w = (n, w1)" by fastforce
  have "isr_step w w1" using isr_tx_step[OF assms t] .
  then show ?thesis
    unfolding jtag_isr_send_def space_def[symmetric] Let_def t
    using isr_step_trans[OF _ isr_step_mask_off] isr_step_ok by auto
qed

lemma isr_round_ends:
  assumes "rx_ok (sp w)" "tx_ok (sp w)"
  shows "\<exists>w'. jtag_isr_round hw control w = Some w' \<and> isr_step w w'"
proof -
  obtain w1 where r: "(if control AND JU_CONTROL_RI_MSK \<noteq> 0 then jtag_isr_receive hw w else Some w) = Some w1"
    "isr_step w w1"
    using isr_receive_ends[OF assms] isr_step_refl[OF assms] by (cases "control AND JU_CONTROL_RI_MSK \<noteq> 0") auto
  have "isr_step w (if control AND JU_CONTROL_WI_MSK \<noteq> 0 then jtag_isr_send hw control w1 else w1)"
    using r(2) isr_step_trans[OF r(2) isr_send_step] isr_step_ok[OF r(2)] by simp
  then show ?thesis using r(1) by (simp add: jtag_isr_round_def)
qed

lemma irq_returns:
  assumes "altera_avalon_jtag_uart_irq hw w = Some w'" "rx_ok (sp w)" "tx_ok (sp w)"
  shows "isr_step w w' \<and> (\<exists>v t. io w' = Rd (ju_base (sp w)) JU_CONTROL_REG v # t
             \<and> v AND (JU_CONTROL_RI_MSK OR JU_CONTROL_WI_MSK) = 0)"
proof -
  let ?P = "\<lambda>hw w w'. rx_ok (sp w) \<longrightarrow> tx_ok (sp w) \<longrightarrow> isr_step w w'
       \<and> (\<exists>v t. io w' = Rd (ju_base (sp w)) JU_CONTROL_REG v # t
             \<and> v AND (JU_CONTROL_RI_MSK OR JU_CONTROL_WI_MSK) = 0)"
  have "?P hw w w'"
  proof (rule altera_avalon_jtag_uart_irq.raw_induct[OF _ assms(1), where P = "?P"], intro impI)
    fix f hw w w'
    assume ih: "\<And>hw w w'. f hw w = Some w' \<Longrightarrow> ?P hw w w'"
      and step: "(let (control, w1) = iord hw (ju_base (sp w)) JU_CONTROL_REG w
        in if control AND (JU_CONTROL_RI_MSK OR JU_CONTROL_WI_MSK) = 0 then Some w1
           else (case jtag_isr_round hw control w1 of None \<Rightarrow> None | Some w2 \<Rightarrow> f hw w2)) = Some w'"
      and ok: "rx_ok (sp w)" "tx_ok (sp w)"
    obtain control w1 where r: "iord hw (ju_base (sp w)) JU_CONTROL_REG w = (control, w1)" by fastforce
    have st: "isr_step w w1" using isr_step_iord[OF ok r] .
    have ok1: "rx_ok (sp w1)" "tx_ok (sp w1)" using isr_step_ok[OF st] by simp_all
    show "isr_step w w' \<and> (\<exists>v t. io w' = Rd (ju_base (sp w)) JU_CONTROL_REG v # t
             \<and> v AND (JU_CONTROL_RI_MSK OR JU_CONTROL_WI_MSK) = 0)"
    proof (cases "control AND (JU_CONTROL_RI_MSK OR JU_CONTROL_WI_MSK) = 0")
      case True
      then have "w' = w1" using step r by simp
      then show ?thesis using st True r by (auto simp: iord_eq)
    next
      case False
      obtain w2 where w2: "jtag_isr_round hw control w1 = Some w2" "isr_step w1 w2"
        using isr_round_ends[OF ok1] by blast
      have "f hw w2 = Some w'" using step r False w2 by simp
      moreover have "ju_base (sp w2) = ju_base (sp w)"
        using st w2(2) by (simp add: isr_step_def)
      ultimately show ?thesis using ih[of hw w2 w'] isr_step_ok[OF w2(2)]
          isr_step_trans[OF st isr_step_trans[OF w2(2)]] by simp
    qed
  qed
  then show ?thesis using assms(2,3) by blast
qed

lemma jtag_irq_step:
  "rx_ok (sp w) \<Longrightarrow> tx_ok (sp w) \<Longrightarrow> altera_avalon_jtag_uart_irq hw w = Some w' \<Longrightarrow> isr_step w w'"
  using irq_returns by blast

text \<open>
  C12: The interrupt handler of the JTAG UART, on any device: every round of it ends, and however
  many rounds it takes, when it returns the receive queue is the old one followed by exactly the
  valid bytes read from the device, in order, the old transmit queue is the bytes written to the
  device followed by the new one, the indices are in range, what the thread owns (its ends
  of both queues, the timeout) is untouched, and no interrupt condition is left.
\<close>

theorem jtag_irq_serves_queues:
  assumes "rx_ok (sp w)" "tx_ok (sp w)"
  shows "(\<exists>w1. jtag_isr_round hw control w = Some w1 \<and> isr_step w w1)
    \<and> (altera_avalon_jtag_uart_irq hw w = Some w' \<longrightarrow> isr_step w w'
       \<and> (\<exists>v t. io w' = Rd (ju_base (sp w)) JU_CONTROL_REG v # t
             \<and> v AND (JU_CONTROL_RI_MSK OR JU_CONTROL_WI_MSK) = 0))"
  using isr_round_ends[OF assms] irq_returns[OF _ assms] by blast

definition jtag_boot_world :: jtag_world where
  "jtag_boot_world = clock_state.extend boot_clock \<lparr>sp = jtag_boot\<rparr>"

theorem jtag_irq_serves_queues_witness:
  "rx_ok (sp jtag_boot_world) \<and> isr_step jtag_boot_world (the (altera_avalon_jtag_uart_irq (\<lambda>t b r. 0) jtag_boot_world))"
proof -
  have ok: "rx_ok (sp jtag_boot_world)" "tx_ok (sp jtag_boot_world)"
    by (simp_all add: jtag_boot_world_def clock_state.extend_def jtag_boot_def rx_ok_def tx_ok_def BUF_LEN_def)
  have "\<exists>w'. altera_avalon_jtag_uart_irq (\<lambda>t b r. 0) jtag_boot_world = Some w'"
    by (subst altera_avalon_jtag_uart_irq.simps) (simp add: iord_eq)
  then obtain w' where "altera_avalon_jtag_uart_irq (\<lambda>t b r. 0) jtag_boot_world = Some w'" by blast
  then show ?thesis using jtag_irq_serves_queues[OF ok, of "\<lambda>t b r. 0" 0 w'] ok by simp
qed

end
