(* ===== verification/JtagThread.thy ===== *)
theory JtagThread
  imports JtagQueues
begin

text \<open>
  The calls of the JTAG UART driver: read takes the oldest received bytes, write appends to the transmit
  queue, whatever interrupts happen while they wait; close, ioctl and the host timeout.
\<close>

section \<open>Waiting\<close>

lemma spin_induct:
  assumes "spin cond sched w = Some (sched', w')" "Q w"
    and "\<And>a v. a \<in> set sched \<Longrightarrow> Q v \<Longrightarrow> Q (a v)"
  shows "Q w' \<and> \<not> cond w' \<and> set sched' \<subseteq> set sched"
  using assms
proof (induction cond sched w rule: spin.induct)
  case (1 cond w)
  then show ?case by (auto split: if_splits)
next
  case (2 cond a sched w)
  show ?case
  proof (cases "cond w")
    case True
    then have "Q w' \<and> \<not> cond w' \<and> set sched' \<subseteq> set sched"
      using 2 by (intro "2.IH") auto
    then show ?thesis by auto
  next
    case False
    then show ?thesis using 2 by auto
  qed
qed

section \<open>Reading\<close>

lemma rx_run_length:
  assumes "rx_ok s"
  defines "n0 \<equiv> unat (if rx_in s \<ge> rx_out s then rx_in s - rx_out s else BUF_LEN - rx_out s)"
  shows "n0 \<le> length (rxq s)" "unat (rx_out s) + n0 \<le> 2048" "n0 = 0 \<longleftrightarrow> rxq s = []"
proof -
  have a: "unat (rx_in s) < 2048" "unat (rx_out s) < 2048"
    using assms(1) by (simp_all add: rx_ok_def less_len)
  have n0: "n0 = (if rx_out s \<le> rx_in s then unat (rx_in s) - unat (rx_out s) else 2048 - unat (rx_out s))"
  proof (cases "rx_out s \<le> rx_in s")
    case True
    then show ?thesis by (simp add: n0_def unat_sub)
  next
    case False
    have "rx_out s \<le> BUF_LEN" using a by (simp add: BUF_LEN_def word_le_nat_alt)
    then show ?thesis using False by (simp add: n0_def unat_sub) (simp add: BUF_LEN_def)
  qed
  have c: "length (rxq s) = (if rx_out s \<le> rx_in s then unat (rx_in s) - unat (rx_out s)
      else unat (rx_in s) + 2048 - unat (rx_out s))"
    using assms(1) by (simp add: rxq_def length_ring ring_count_cases rx_ok_def)
  show "n0 \<le> length (rxq s)" using n0 c by (simp split: if_splits)
  show "unat (rx_out s) + n0 \<le> 2048" using n0 a by (simp add: word_le_nat_alt split: if_splits)
  show "n0 = 0 \<longleftrightarrow> rxq s = []"
    using n0 c a by (simp flip: length_0_conv split: if_splits)
qed

lemma rx_copy_takes:
  assumes "rx_ok s" "rx_copy space s = (bs, in1, s')"
  shows "rx_ok s' \<and> bs = take space (rxq s) \<and> rxq s' = drop space (rxq s)
    \<and> (\<exists>p. s' = s\<lparr>rx_out := p\<rparr>) \<and> in1 = rx_in s"
  using assms
proof (induction space s arbitrary: bs in1 s' rule: rx_copy.induct)
  case (1 space s)
  define n0 where "n0 = unat (if rx_in s \<ge> rx_out s then rx_in s - rx_out s else BUF_LEN - rx_out s)"
  note n0 = rx_run_length[OF "1.prems"(1), folded n0_def]
  show ?case
  proof (cases "n0 = 0")
    case True
    then have "rx_copy space s = ([], rx_in s, s)"
      by (subst rx_copy.simps) (simp only: Let_def n0_def[symmetric] simp_thms if_True)
    then show ?thesis using "1.prems" n0(3) True by (auto intro: exI[of _ "rx_out s"])
  next
    case False
    define n where "n = (if n0 > space then space else n0)"
    obtain b1 s1 where t: "rx_take n s = (b1, s1)" by fastforce
    have av: "rx_avail n s" using n0(1,2) by (simp add: rx_avail_def n_def rxq_def length_ring)
    have tk: "rx_ok s1" "rxq s = b1 @ rxq s1" "length b1 = n"
      using rx_take_simps[OF "1.prems"(1) av] t by simp_all
    obtain p1 where s1: "s1 = s\<lparr>rx_out := p1\<rparr>" using t by (auto simp: rx_take_def)
    have eq: "rx_copy space s = (if space - n > 0
        then (let (cs, in1, s2) = rx_copy (space - n) s1 in (b1 @ cs, in1, s2)) else (b1, rx_in s, s1))"
      using False t
      by (subst rx_copy.simps)
         (simp only: Let_def n0_def[symmetric] n_def[symmetric] if_False prod.case)
    show ?thesis
    proof (cases "space - n > 0")
      case True
      obtain cs in2 s2 where r: "rx_copy (space - n) s1 = (cs, in2, s2)" by (metis prod_cases3)
      have ih: "rx_ok s2" "cs = take (space - n) (rxq s1)" "rxq s2 = drop (space - n) (rxq s1)"
          "\<exists>p. s2 = s1\<lparr>rx_out := p\<rparr>" "in2 = rx_in s1"
        using "1.IH"[OF refl refl n0_def False n_def t[symmetric] refl True tk(1) r] by blast+
      have "bs = b1 @ cs" "in1 = in2" "s' = s2"
        using "1.prems"(2) True r unfolding eq by simp_all
      moreover have "take space (rxq s) = b1 @ take (space - n) (rxq s1)"
        "drop space (rxq s) = drop (space - n) (rxq s1)"
        using tk(2,3) True by simp_all
      ultimately show ?thesis using ih s1 by auto
    next
      case nle: False
      then have "bs = b1" "in1 = rx_in s" "s' = s1" using "1.prems"(2) unfolding eq by simp_all
      moreover have "n = space" using nle by (auto simp: n_def split: if_splits)
      ultimately show ?thesis using tk s1 by auto
    qed
  qed
qed

text \<open>
  What may interrupt a reader: steps that only add to the receive queue. The handler's steps and
  the host alarm are of this kind.
\<close>

definition rx_grows :: "(jtag_world \<Rightarrow> jtag_world) \<Rightarrow> bool" where
  "rx_grows a \<longleftrightarrow> (\<forall>w. rx_ok (sp w) \<longrightarrow> rx_ok (sp (a w)) \<and> (\<exists>new. rxq (sp (a w)) = rxq (sp w) @ new))"

lemma isr_step_rx_grows: "isr_step w w' \<Longrightarrow> \<exists>new. rxq (sp w') = rxq (sp w) @ new"
  by (auto simp: isr_step_def)

lemma timeout_rx_grows: "rx_grows (\<lambda>w. snd (altera_avalon_jtag_uart_timeout hw n w))"
  by (auto simp: rx_grows_def altera_avalon_jtag_uart_timeout_def iord_eq iowr_eq sp_upd_def Let_def
      rx_ok_def rxq_def)

lemma jtag_enable_sp:
  "sp (jtag_enable m w) = (sp w)\<lparr>ju_irq_enable := ju_irq_enable (sp w) OR m\<rparr>"
  "mstatus (jtag_enable m w) = mstatus w"
  "io (jtag_enable m w) = Wr (ju_base (sp w)) JU_CONTROL_REG (ju_irq_enable (sp w) OR m) # io w"
  by (simp_all add: jtag_enable_def sp_upd_def alt_irq_disable_all_def alt_irq_enable_all_def iowr_eq
      mstatus_restored Let_def)

lemma queues_irq_enable [simp]:
  "rxq (s\<lparr>ju_irq_enable := x\<rparr>) = rxq s" "txq (s\<lparr>ju_irq_enable := x\<rparr>) = txq s"
  "rx_ok (s\<lparr>ju_irq_enable := x\<rparr>) = rx_ok s" "tx_ok (s\<lparr>ju_irq_enable := x\<rparr>) = tx_ok s"
  by (simp_all add: rxq_def txq_def rx_ok_def tx_ok_def)

lemma jtag_enable_queues [simp]:
  "rxq (sp (jtag_enable m w)) = rxq (sp w)" "txq (sp (jtag_enable m w)) = txq (sp w)"
  "rx_ok (sp (jtag_enable m w)) = rx_ok (sp w)" "tx_ok (sp (jtag_enable m w)) = tx_ok (sp w)"
  by (simp_all add: jtag_enable_sp rxq_def txq_def rx_ok_def tx_ok_def)

definition read_post ::
  "bool \<Rightarrow> nat \<Rightarrow> jtag_schedule \<Rightarrow> jtag_world \<Rightarrow> u8 list \<times> jtag_schedule \<times> jtag_world \<Rightarrow> bool" where
  "read_post nonblock space sched w r = (case r of (bs, sched', w') \<Rightarrow>
      rx_ok (sp w) \<longrightarrow> (\<forall>a\<in>set sched. rx_grows a) \<longrightarrow>
      rx_ok (sp w') \<and> length bs \<le> space \<and> (\<exists>new. rxq (sp w) @ new = bs @ rxq (sp w'))
      \<and> (bs = [] \<and> space > 0 \<and> \<not> nonblock \<longrightarrow> \<not> host_active w'))"

lemma read_loop_takes:
  "jtag_read_loop nonblock space sched w = Some r \<Longrightarrow> read_post nonblock space sched w r"
proof (rule jtag_read_loop.raw_induct[where P = read_post, rotated], assumption)
  fix f nonblock space sched w r
  assume ih: "\<And>nonblock space sched w r. f nonblock space sched w = Some r \<Longrightarrow>
      read_post nonblock space sched w r"
    and step: "(if 0 < space then
        (let (bs, in0, s1) = rx_copy space (sp w); w1 = w\<lparr>sp := s1\<rparr>
         in if bs \<noteq> [] then Some (bs, sched, w1)
            else if nonblock then Some ([], sched, w1)
            else (case spin (\<lambda>w. in0 = rx_in (sp w) \<and> host_active w) sched w1 of
                    None \<Rightarrow> None
                  | Some (sched2, w2) \<Rightarrow>
                      if in0 = rx_in (sp w2) then Some ([], sched2, w2)
                      else f nonblock space sched2 w2))
      else Some ([], sched, w)) = Some r"
  obtain bs in0 s1 where c: "rx_copy space (sp w) = (bs, in0, s1)" by (metis prod_cases3)
  define w1 where "w1 = w\<lparr>sp := s1\<rparr>"
  obtain rb rs rw where r: "r = (rb, rs, rw)" by (metis prod_cases3)
  show "read_post nonblock space sched w r"
    unfolding read_post_def r prod.case
  proof (intro impI)
    assume ok: "rx_ok (sp w)" and env: "\<forall>a\<in>set sched. rx_grows a"
    have cp: "rx_ok s1" "bs = take space (rxq (sp w))" "rxq s1 = drop space (rxq (sp w))"
      using rx_copy_takes[OF ok c] by blast+
    have q1: "rxq (sp w) = bs @ rxq (sp w1)" "rx_ok (sp w1)" "length bs \<le> space"
      using cp by (simp_all add: w1_def)
    show "rx_ok (sp rw) \<and> length rb \<le> space \<and> (\<exists>new. rxq (sp w) @ new = rb @ rxq (sp rw))
      \<and> (rb = [] \<and> space > 0 \<and> \<not> nonblock \<longrightarrow> \<not> host_active rw)"
    proof (cases "space > 0 \<and> bs = [] \<and> \<not> nonblock")
      case False
      then have "(rb, rw) = (if space > 0 then (bs, w1) else ([], w))"
        using step c r by (auto simp: w1_def Let_def split: if_splits)
      then show ?thesis using False q1 ok by (auto split: if_splits)
    next
      case True
      obtain sched2 w2 where sp: "spin (\<lambda>w. in0 = rx_in (sp w) \<and> host_active w) sched w1 = Some (sched2, w2)"
        and rest: "(if in0 = rx_in (sp w2) then Some ([], sched2, w2)
                      else f nonblock space sched2 w2) = Some r"
        using step c True by (auto simp: w1_def[symmetric] Let_def split: option.splits)
      have "(rx_ok (sp w2) \<and> (\<exists>new. rxq (sp w2) = rxq (sp w) @ new))
          \<and> \<not> (in0 = rx_in (sp w2) \<and> host_active w2) \<and> set sched2 \<subseteq> set sched"
      proof (rule spin_induct[OF sp, where Q = "\<lambda>v. rx_ok (sp v) \<and> (\<exists>new. rxq (sp v) = rxq (sp w) @ new)"])
        show "rx_ok (sp w1) \<and> (\<exists>new. rxq (sp w1) = rxq (sp w) @ new)" using q1 True by simp
        show "rx_ok (sp (a v)) \<and> (\<exists>new. rxq (sp (a v)) = rxq (sp w) @ new)"
          if "a \<in> set sched" "rx_ok (sp v) \<and> (\<exists>new. rxq (sp v) = rxq (sp w) @ new)" for a v
          using that env unfolding rx_grows_def by (metis append.assoc)
      qed
      then obtain new where w2: "rx_ok (sp w2)" "rxq (sp w2) = rxq (sp w) @ new"
        "\<not> (in0 = rx_in (sp w2) \<and> host_active w2)" "set sched2 \<subseteq> set sched" by blast
      show ?thesis
      proof (cases "in0 = rx_in (sp w2)")
        case True
        then have "rb = []" "rw = w2" using rest r by simp_all
        then show ?thesis using w2 True by auto
      next
        case False
        then have "f nonblock space sched2 w2 = Some r" using rest by simp
        from ih[OF this, unfolded read_post_def r prod.case] w2 env obtain n2 where
          "rx_ok (sp rw)" "length rb \<le> space" "rxq (sp w2) @ n2 = rb @ rxq (sp rw)"
          "rb = [] \<and> space > 0 \<and> \<not> nonblock \<longrightarrow> \<not> host_active rw" by blast
        then show ?thesis using w2(2) by (metis append.assoc)
      qed
    qed
  qed
qed

lemma read_result:
  assumes "altera_avalon_jtag_uart_read space nonblock sched w = Some (rc, bs, sched', w')"
    and "rx_ok (sp w)" "\<forall>a\<in>set sched. rx_grows a"
  shows "(\<exists>new. rxq (sp w) @ new = bs @ rxq (sp w')) \<and> rx_ok (sp w') \<and> length bs \<le> nat space
    \<and> (if bs \<noteq> [] then rc = int (length bs) \<and> bit (ju_irq_enable (sp w')) 0
                    \<and> last_wr (ju_base (sp w')) JU_CONTROL_REG (io w') = Some (ju_irq_enable (sp w'))
       else if nonblock then rc = - EWOULDBLOCK
       else rc = - EIO \<and> (space > 0 \<longrightarrow> \<not> host_active w'))"
proof -
  obtain bs0 s0 w0 where l: "jtag_read_loop nonblock (nat space) sched w = Some (bs0, s0, w0)"
    using assms(1) by (auto simp: altera_avalon_jtag_uart_read_def split: option.splits)
  have post: "rx_ok (sp w0) \<and> length bs0 \<le> nat space \<and> (\<exists>new. rxq (sp w) @ new = bs0 @ rxq (sp w0))
      \<and> (bs0 = [] \<and> nat space > 0 \<and> \<not> nonblock \<longrightarrow> \<not> host_active w0)"
    using read_loop_takes[OF l] assms(2,3) by (simp add: read_post_def)
  have b: "bit (x OR JU_CONTROL_RE_MSK) 0" for x :: u32
    by (simp add: JU_CONTROL_RE_MSK_def bit_or_iff)
  have r: "(rc, bs, sched', w') = (if bs0 \<noteq> [] then (int (length bs0), bs0, s0, jtag_enable JU_CONTROL_RE_MSK w0)
                else if nonblock then (- EWOULDBLOCK, [], s0, w0)
                else (- EIO, [], s0, w0))"
    using assms(1) l by (simp add: altera_avalon_jtag_uart_read_def)
  show ?thesis
  proof (cases "bs0 = []")
    case True
    then show ?thesis using r post by (auto split: if_splits)
  next
    case False
    then show ?thesis using r post b by (simp add: jtag_enable_sp(1) jtag_enable_sp(3))
  qed
qed

text \<open>
  A read of the JTAG UART delivers the oldest bytes that were received, in order and without
  loss, whatever interrupts arrive while it waits: the receive queue before, followed by what came in, is
  the bytes delivered followed by the queue after. It delivers at most the space the caller has;
  with bytes delivered the result is their number and receive interrupts are on again. Without
  any it is \<open>-EWOULDBLOCK\<close> for a non-blocking descriptor and \<open>-EIO\<close> otherwise, and then, unless
  the caller had no space, only because the host is inactive.
\<close>

theorem read_delivers_oldest:
  assumes "altera_avalon_jtag_uart_read space nonblock sched w = Some (rc, bs, sched', w')"
    and "rx_ok (sp w)" "\<forall>a\<in>set sched. rx_grows a"
  shows "(\<exists>new. rxq (sp w) @ new = bs @ rxq (sp w')) \<and> rx_ok (sp w') \<and> length bs \<le> nat space
    \<and> (if bs \<noteq> [] then rc = int (length bs) \<and> bit (ju_irq_enable (sp w')) 0
                    \<and> last_wr (ju_base (sp w')) JU_CONTROL_REG (io w') = Some (ju_irq_enable (sp w'))
       else if nonblock then rc = - EWOULDBLOCK
       else rc = - EIO \<and> (space > 0 \<longrightarrow> \<not> host_active w'))"
  using assms by (rule read_result)

text \<open>Without waiting the result is exact.\<close>

lemma read_immediate:
  assumes "rx_ok (sp w)" "space > 0" "rxq (sp w) \<noteq> [] \<or> nonblock"
  shows "\<exists>w'. altera_avalon_jtag_uart_read space nonblock sched w
      = Some (if rxq (sp w) \<noteq> [] then min space (int (length (rxq (sp w)))) else - EWOULDBLOCK,
              take (nat space) (rxq (sp w)), sched, w')
    \<and> rxq (sp w') = drop (nat space) (rxq (sp w))"
proof -
  obtain bs in0 s1 where c: "rx_copy (nat space) (sp w) = (bs, in0, s1)" by (metis prod_cases3)
  have cp: "rx_ok s1" "bs = take (nat space) (rxq (sp w))" "rxq s1 = drop (nat space) (rxq (sp w))"
    using rx_copy_takes[OF assms(1) c] by blast+
  have e: "bs = [] \<longleftrightarrow> rxq (sp w) = []" using cp(2) assms(2) by auto
  have l: "jtag_read_loop nonblock (nat space) sched w = Some (bs, sched, w\<lparr>sp := s1\<rparr>)"
    using assms(2,3) c e by (subst jtag_read_loop.simps) auto
  show ?thesis
  proof (cases "rxq (sp w) = []")
    case True
    then show ?thesis using cp e assms(3)
      by (intro exI[of _ "w\<lparr>sp := s1\<rparr>"]) (simp only: altera_avalon_jtag_uart_read_def l, simp)
  next
    case False
    have "int (length bs) = min space (int (length (rxq (sp w))))"
      using assms(2) by (simp add: cp(2))
    then show ?thesis using cp e False
      by (intro exI[of _ "jtag_enable JU_CONTROL_RE_MSK (w\<lparr>sp := s1\<rparr>)"])
         (simp add: altera_avalon_jtag_uart_read_def l)
  qed
qed

definition hello_world :: jtag_world where
  "hello_world = clock_state.extend boot_clock
     \<lparr>sp = rx_push 0x69 (rx_push 0x48 jtag_boot)\<rparr>"

theorem read_delivers_oldest_witness:
  "\<exists>rc bs w'. altera_avalon_jtag_uart_read 1 False [] hello_world = Some (rc, bs, [], w')
     \<and> bs = [0x48] \<and> rc = 1 \<and> rxq (sp w') = [0x69]"
proof -
  have ok0: "rx_ok jtag_boot" by (simp add: rx_ok_def jtag_boot_def BUF_LEN_def)
  have q0: "rxq jtag_boot = []" by (simp add: rxq_def ring_def ring_count_def jtag_boot_def)
  have f1: "(rx_in jtag_boot + 1) mod BUF_LEN \<noteq> rx_out jtag_boot"
    by (simp add: jtag_boot_def BUF_LEN_def)
  have f2: "(rx_in (rx_push 0x48 jtag_boot) + 1) mod BUF_LEN \<noteq> rx_out (rx_push 0x48 jtag_boot)"
    by (simp add: jtag_boot_def BUF_LEN_def rx_push_def)
  note p1 = rx_push_simps[OF ok0 f1, of "0x48"]
  note p2 = rx_push_simps[OF p1(1) f2, of "0x69"]
  have ok: "rx_ok (sp hello_world)" and q: "rxq (sp hello_world) = [0x48, 0x69]"
    using p1 p2 q0 by (simp_all add: hello_world_def clock_state.extend_def)
  obtain w' where r: "altera_avalon_jtag_uart_read 1 False [] hello_world = Some (1, [0x48], [], w')"
    "rxq (sp w') = [0x69]"
    using read_immediate[OF ok, of 1 False "[]"] q by auto
  have "rx_ok (sp w')" using read_delivers_oldest[OF r(1) ok] by simp
  then show ?thesis using r by blast
qed

section \<open>Writing\<close>

lemma tx_room_props:
  assumes "tx_ok s"
  shows "unat (tx_room s) + length (txq s) \<le> 2047" "unat (tx_in s) + unat (tx_room s) \<le> 2048"
    "unat (tx_room s) = 0 \<longleftrightarrow> length (txq s) = 2047"
proof -
  have a: "unat (tx_in s) < 2048" "unat (tx_out s) < 2048"
    using assms(1) by (simp_all add: tx_ok_def less_len)
  have c: "length (txq s) = (if tx_out s \<le> tx_in s then unat (tx_in s) - unat (tx_out s)
      else unat (tx_in s) + 2048 - unat (tx_out s))"
    using assms(1) by (simp add: txq_def length_ring ring_count_cases tx_ok_def)
  have r: "unat (tx_room s) = (if unat (tx_in s) < unat (tx_out s) then unat (tx_out s) - 1 - unat (tx_in s)
     else if unat (tx_out s) > 0 then 2048 - unat (tx_in s) else 2047 - unat (tx_in s))"
  proof (cases "tx_in s < tx_out s")
    case True
    then have lt: "unat (tx_in s) < unat (tx_out s)" by (simp add: word_less_nat_alt)
    then have nz: "tx_out s \<noteq> 0" by auto
    have "unat (tx_out s - 1) = unat (tx_out s) - 1" using unat_minus_one_Suc[OF nz] by simp
    moreover from this have "tx_in s \<le> tx_out s - 1" using lt by (simp add: word_le_nat_alt)
    ultimately show ?thesis using True lt by (simp add: tx_room_def unat_sub Let_def)
  next
    case False
    then have "\<not> unat (tx_in s) < unat (tx_out s)" by (simp add: word_less_nat_alt)
    moreover have "unat (BUF_LEN - tx_in s) = 2048 - unat (tx_in s)"
      using a by (subst unat_sub) (simp_all add: BUF_LEN_def word_le_nat_alt)
    moreover have "unat (BUF_LEN - 1 - tx_in s) = 2047 - unat (tx_in s)"
      using a by (subst unat_sub) (simp_all add: BUF_LEN_def word_le_nat_alt)
    ultimately show ?thesis using False
      by (simp add: tx_room_def Let_def word_less_nat_alt)
  qed
  show "unat (tx_room s) + length (txq s) \<le> 2047" "unat (tx_in s) + unat (tx_room s) \<le> 2048"
    "unat (tx_room s) = 0 \<longleftrightarrow> length (txq s) = 2047"
    using r c a by (auto simp: word_le_nat_alt split: if_splits)
qed

lemma tx_copy_puts:
  assumes "tx_ok s" "tx_copy data out0 s = (rest, out1, s')"
  shows "tx_ok s' \<and> (\<exists>sent. data = sent @ rest \<and> txq s' = txq s @ sent)
    \<and> (rest \<noteq> [] \<longrightarrow> length (txq s') = 2047 \<and> out1 = tx_out s) \<and> tx_out s' = tx_out s
    \<and> (\<exists>b i. s' = s\<lparr>tx_buf := b, tx_in := i\<rparr>)"
  using assms
proof (induction data out0 s rule: tx_copy.induct)
  case (1 data out0 s)
  note room = tx_room_props[OF "1.prems"(1)]
  show ?case
  proof (cases "data = [] \<or> unat (tx_room s) = 0")
    case True
    then have "rest = data \<and> s' = s \<and> (data \<noteq> [] \<longrightarrow> out1 = tx_out s)"
      using "1.prems"(2) by (subst (asm) tx_copy.simps) (auto split: if_splits)
    moreover have "\<exists>b i. s = s\<lparr>tx_buf := b, tx_in := i\<rparr>"
      by (rule exI[of _ "tx_buf s"], rule exI[of _ "tx_in s"]) simp
    ultimately show ?thesis using True "1.prems"(1) room(3) by auto
  next
    case False
    define n where "n = (if unat (tx_room s) > length data then length data else unat (tx_room s))"
    define s1 where "s1 = tx_put (take n data) s"
    have len: "length (take n data) = n" by (auto simp: n_def)
    have "tx_fits (length (take n data)) s"
      using room(1,2) unfolding tx_fits_def len by (auto simp: n_def txq_def length_ring)
    note put = tx_put_simps[OF "1.prems"(1) this, folded s1_def]
    have rec: "tx_copy (drop n data) (tx_out s) s1 = (rest, out1, s')"
      using "1.prems"(2) False
      by (subst (asm) tx_copy.simps) (simp only: Let_def n_def[symmetric] s1_def[symmetric] de_Morgan_disj simp_thms if_True if_False)
    have ih: "tx_ok s'" "\<exists>sent. drop n data = sent @ rest \<and> txq s' = txq s1 @ sent"
      "rest \<noteq> [] \<longrightarrow> length (txq s') = 2047 \<and> out1 = tx_out s1" "tx_out s' = tx_out s1"
      "\<exists>b i. s' = s1\<lparr>tx_buf := b, tx_in := i\<rparr>"
      using "1.IH"[OF _ refl refl _ n_def put(1)[unfolded s1_def]] False rec[unfolded s1_def]
      unfolding s1_def by simp_all
    obtain sent where sent: "drop n data = sent @ rest" "txq s' = txq s1 @ sent" using ih(2) by blast
    obtain b i where bi: "s' = s1\<lparr>tx_buf := b, tx_in := i\<rparr>" using ih(5) by blast
    obtain b1 i1 where s1: "s1 = s\<lparr>tx_buf := b1, tx_in := i1\<rparr>" by (auto simp: s1_def tx_put_def)
    have "data = (take n data @ sent) @ rest" using sent(1) append_take_drop_id[of n data] by simp
    moreover have "txq s' = txq s @ (take n data @ sent)" using sent(2) put(2) by simp
    moreover have "s' = s\<lparr>tx_buf := b, tx_in := i\<rparr>" using bi s1 by simp
    moreover have "tx_out s1 = tx_out s" using s1 by simp
    ultimately show ?thesis using ih(1,3,4) by metis
  qed
qed

text \<open>What may interrupt a writer: steps that only remove from the front of the transmit queue.\<close>

definition tx_drains :: "(jtag_world \<Rightarrow> jtag_world) \<Rightarrow> bool" where
  "tx_drains a \<longleftrightarrow> (\<forall>w. tx_ok (sp w) \<longrightarrow> tx_ok (sp (a w)) \<and> (\<exists>gone. txq (sp w) = gone @ txq (sp (a w))))"

lemma isr_step_tx_drains: "isr_step w w' \<Longrightarrow> \<exists>gone. txq (sp w) = gone @ txq (sp w')"
  by (auto simp: isr_step_def)

lemma timeout_tx_drains: "tx_drains (\<lambda>w. snd (altera_avalon_jtag_uart_timeout hw n w))"
  by (auto simp: tx_drains_def altera_avalon_jtag_uart_timeout_def iord_eq iowr_eq sp_upd_def Let_def
      tx_ok_def txq_def)

definition write_post ::
  "bool \<Rightarrow> u8 list \<Rightarrow> u32 \<Rightarrow> jtag_schedule \<Rightarrow> jtag_world \<Rightarrow> u8 list \<times> jtag_schedule \<times> jtag_world \<Rightarrow> bool" where
  "write_post nonblock data out0 sched w r = (case r of (rest, sched', w') \<Rightarrow>
      tx_ok (sp w) \<longrightarrow> (\<forall>a\<in>set sched. tx_drains a) \<longrightarrow>
      tx_ok (sp w') \<and> (\<exists>sent gone. data = sent @ rest \<and> txq (sp w) @ sent = gone @ txq (sp w'))
      \<and> (rest \<noteq> [] \<and> \<not> nonblock \<longrightarrow> ju_host_inactive (sp w') \<noteq> 0))"

lemma write_loop_puts:
  "jtag_write_loop nonblock data out0 sched w = Some r \<Longrightarrow> write_post nonblock data out0 sched w r"
proof (rule jtag_write_loop.raw_induct[where P = write_post, rotated], assumption)
  fix f nonblock data out0 sched w r
  assume ih: "\<And>nonblock data out0 sched w r. f nonblock data out0 sched w = Some r \<Longrightarrow>
      write_post nonblock data out0 sched w r"
    and step: "(let (data1, out1, s1) = tx_copy data out0 (sp w);
          w1 = jtag_enable JU_CONTROL_WE_MSK (w\<lparr>sp := s1\<rparr>)
      in if data1 \<noteq> [] then
           (if nonblock then Some (data1, sched, w1)
            else (case spin (\<lambda>w. out1 = tx_out (sp w) \<and> host_active w) sched w1 of
                    None \<Rightarrow> None
                  | Some (sched2, w2) \<Rightarrow>
                      if ju_host_inactive (sp w2) \<noteq> 0 then Some (data1, sched2, w2)
                      else f nonblock data1 out1 sched2 w2))
         else Some ([], sched, w1)) = Some r"
  obtain data1 out1 s1 where c: "tx_copy data out0 (sp w) = (data1, out1, s1)" by (metis prod_cases3)
  define w1 where "w1 = jtag_enable JU_CONTROL_WE_MSK (w\<lparr>sp := s1\<rparr>)"
  obtain rb rs rw where r: "r = (rb, rs, rw)" by (metis prod_cases3)
  show "write_post nonblock data out0 sched w r"
    unfolding write_post_def r prod.case
  proof (intro impI)
    assume ok: "tx_ok (sp w)" and env: "\<forall>a\<in>set sched. tx_drains a"
    obtain sent where cp: "tx_ok s1" "data = sent @ data1" "txq s1 = txq (sp w) @ sent"
      using tx_copy_puts[OF ok c] by blast
    have q1: "txq (sp w1) = txq (sp w) @ sent" "tx_ok (sp w1)"
      using cp by (simp_all add: w1_def)
    show "tx_ok (sp rw) \<and> (\<exists>sent gone. data = sent @ rb \<and> txq (sp w) @ sent = gone @ txq (sp rw))
      \<and> (rb \<noteq> [] \<and> \<not> nonblock \<longrightarrow> ju_host_inactive (sp rw) \<noteq> 0)"
    proof (cases "data1 \<noteq> [] \<and> \<not> nonblock")
      case False
      then have "rb = data1 \<and> rw = w1"
        using step c r by (auto simp: w1_def Let_def split: if_splits)
      then show ?thesis using False q1 cp(2) by (metis append_Nil)
    next
      case True
      obtain sched2 w2 where spn: "spin (\<lambda>w. out1 = tx_out (sp w) \<and> host_active w) sched w1 = Some (sched2, w2)"
        and rest: "(if ju_host_inactive (sp w2) \<noteq> 0 then Some (data1, sched2, w2)
                      else f nonblock data1 out1 sched2 w2) = Some r"
        using step c True by (auto simp: w1_def[symmetric] Let_def split: option.splits)
      have "(tx_ok (sp w2) \<and> (\<exists>gone. txq (sp w1) = gone @ txq (sp w2)))
          \<and> \<not> (out1 = tx_out (sp w2) \<and> host_active w2) \<and> set sched2 \<subseteq> set sched"
      proof (rule spin_induct[OF spn, where Q = "\<lambda>v. tx_ok (sp v) \<and> (\<exists>gone. txq (sp w1) = gone @ txq (sp v))"])
        show "tx_ok (sp w1) \<and> (\<exists>gone. txq (sp w1) = gone @ txq (sp w1))" using q1 by simp
        show "tx_ok (sp (a v)) \<and> (\<exists>gone. txq (sp w1) = gone @ txq (sp (a v)))"
          if "a \<in> set sched" "tx_ok (sp v) \<and> (\<exists>gone. txq (sp w1) = gone @ txq (sp v))" for a v
          using that env unfolding tx_drains_def by (metis append.assoc)
      qed
      then obtain gone where w2: "tx_ok (sp w2)" "txq (sp w1) = gone @ txq (sp w2)"
        "set sched2 \<subseteq> set sched" by blast
      show ?thesis
      proof (cases "ju_host_inactive (sp w2) \<noteq> 0")
        case True
        then have "rb = data1" "rw = w2" using rest r by simp_all
        then show ?thesis using w2 True cp(2) q1 by auto
      next
        case False
        then have "f nonblock data1 out1 sched2 w2 = Some r" using rest by simp
        from ih[OF this, unfolded write_post_def r prod.case] w2 env obtain sent2 gone2 where
          i: "tx_ok (sp rw)" "data1 = sent2 @ rb" "txq (sp w2) @ sent2 = gone2 @ txq (sp rw)"
          "rb \<noteq> [] \<and> \<not> nonblock \<longrightarrow> ju_host_inactive (sp rw) \<noteq> 0" by blast
        have "txq (sp w) @ (sent @ sent2) = (gone @ gone2) @ txq (sp rw)"
          using q1(1) w2(2) i(3) by (metis append.assoc)
        then show ?thesis using i cp(2) by (metis append.assoc)
      qed
    qed
  qed
qed

lemma write_result:
  assumes "altera_avalon_jtag_uart_write data nonblock sched w = Some (rc, sched', w')"
    and "tx_ok (sp w)" "\<forall>a\<in>set sched. tx_drains a"
  shows "\<exists>sent rest gone. data = sent @ rest \<and> txq (sp w) @ sent = gone @ txq (sp w') \<and> tx_ok (sp w')
    \<and> rc = (if sent \<noteq> [] then int (length sent) else if nonblock then - EWOULDBLOCK else - EIO)
    \<and> (rest \<noteq> [] \<and> \<not> nonblock \<longrightarrow> ju_host_inactive (sp w') \<noteq> 0)"
proof -
  obtain rest where l: "jtag_write_loop nonblock data 0 sched w = Some (rest, sched', w')"
    and rc: "rc = (if length rest < length data then int (length data) - int (length rest)
                else if nonblock then - EWOULDBLOCK else - EIO)"
    using assms(1) by (auto simp: altera_avalon_jtag_uart_write_def split: option.splits)
  obtain sent gone where "tx_ok (sp w')" "data = sent @ rest" "txq (sp w) @ sent = gone @ txq (sp w')"
    "rest \<noteq> [] \<and> \<not> nonblock \<longrightarrow> ju_host_inactive (sp w') \<noteq> 0"
    using write_loop_puts[OF l] assms(2,3) by (auto simp: write_post_def)
  then show ?thesis using rc by (intro exI[of _ sent] exI[of _ rest] exI[of _ gone]) auto
qed

text \<open>
  A write to the JTAG UART queues a prefix of the caller's bytes behind what is already queued, in order and
  without loss, whatever interrupts drain the queue while it waits. The result is the
  length of the prefix; if none was accepted it is \<open>-EWOULDBLOCK\<close> for a non-blocking descriptor
  and \<open>-EIO\<close> otherwise. A blocking write accepts everything unless the host is inactive.
\<close>

theorem write_queues_prefix:
  assumes "altera_avalon_jtag_uart_write data nonblock sched w = Some (rc, sched', w')"
    and "tx_ok (sp w)" "\<forall>a\<in>set sched. tx_drains a"
  shows "\<exists>sent rest gone. data = sent @ rest \<and> txq (sp w) @ sent = gone @ txq (sp w') \<and> tx_ok (sp w')
    \<and> rc = (if sent \<noteq> [] then int (length sent) else if nonblock then - EWOULDBLOCK else - EIO)
    \<and> (rest \<noteq> [] \<and> \<not> nonblock \<longrightarrow> ju_host_inactive (sp w') \<noteq> 0)"
  using assms by (rule write_result)

lemma write_immediate:
  assumes "tx_ok (sp w)" "length data + length (txq (sp w)) \<le> 2047" "data \<noteq> []"
  shows "\<exists>w'. altera_avalon_jtag_uart_write data nonblock sched w = Some (int (length data), sched, w')"
proof -
  obtain rest out1 s1 where c: "tx_copy data 0 (sp w) = (rest, out1, s1)" by (metis prod_cases3)
  obtain sent where p: "data = sent @ rest" "txq s1 = txq (sp w) @ sent" "rest \<noteq> [] \<longrightarrow> length (txq s1) = 2047"
    using tx_copy_puts[OF assms(1) c] by blast
  have "rest = []"
  proof (rule ccontr)
    assume "rest \<noteq> []"
    then have "length (txq (sp w)) + length sent = 2047" using p by simp
    moreover have "length rest > 0" using \<open>rest \<noteq> []\<close> by simp
    moreover have "length data = length sent + length rest" using p(1) by simp
    ultimately show False using assms(2) by linarith
  qed
  then show ?thesis using c assms(3)
    by (simp add: altera_avalon_jtag_uart_write_def jtag_write_loop.simps Let_def)
qed

theorem write_queues_prefix_witness:
  "\<exists>w'. altera_avalon_jtag_uart_write [0x4F, 0x4B] False [] jtag_boot_world = Some (2, [], w')
     \<and> tx_ok (sp w')"
proof -
  have ok: "tx_ok (sp jtag_boot_world)"
    by (simp add: jtag_boot_world_def clock_state.extend_def jtag_boot_def tx_ok_def BUF_LEN_def)
  have "length (txq (sp jtag_boot_world)) = 0"
    by (simp add: jtag_boot_world_def clock_state.extend_def jtag_boot_def txq_def length_ring ring_count_def)
  then obtain w' where r: "altera_avalon_jtag_uart_write [0x4F, 0x4B] False [] jtag_boot_world = Some (2, [], w')"
    using write_immediate[OF ok, of "[0x4F, 0x4B]" False "[]"] by auto
  have "\<forall>a\<in>set ([] :: jtag_schedule). tx_drains a" by simp
  from write_queues_prefix[OF r ok this] r show ?thesis by blast
qed

text \<open>
  A blocking write of no bytes, and a blocking read with no space, report the error of a
  missing host, although nothing was to be done and the host may be there.
\<close>

theorem empty_transfer_is_EIO:
  "(\<exists>w'. altera_avalon_jtag_uart_write [] False sched w = Some (- EIO, sched, w'))
   \<and> altera_avalon_jtag_uart_read 0 False sched w = Some (- EIO, [], sched, w)"
  by (simp add: altera_avalon_jtag_uart_write_def jtag_write_loop.simps tx_copy.simps Let_def
      altera_avalon_jtag_uart_read_def jtag_read_loop.simps)

section \<open>Close, control and the host timeout\<close>

text \<open>Close returns 0 only with an empty transmit queue or an inactive host.\<close>

lemma close_result:
  assumes "altera_avalon_jtag_uart_close nonblock sched w = Some (rc, sched', w')" "tx_ok (sp w)"
    "\<forall>a\<in>set sched. tx_drains a"
  shows "rc = 0 \<and> (txq (sp w') = [] \<or> \<not> host_active w') \<or> rc = - EWOULDBLOCK \<and> nonblock \<and> w' = w"
proof (cases "(tx_out (sp w) \<noteq> tx_in (sp w) \<and> host_active w) \<and> nonblock")
  case True
  then show ?thesis using assms(1) by (simp add: altera_avalon_jtag_uart_close_def)
next
  case False
  then have s: "spin (\<lambda>w. tx_out (sp w) \<noteq> tx_in (sp w) \<and> host_active w) sched w = Some (sched', w')"
    and "rc = 0"
    using assms(1) by (auto simp: altera_avalon_jtag_uart_close_def split: option.splits if_splits)
  have "tx_ok (sp w') \<and> \<not> (tx_out (sp w') \<noteq> tx_in (sp w') \<and> host_active w') \<and> set sched' \<subseteq> set sched"
    using spin_induct[OF s, where Q = "\<lambda>v. tx_ok (sp v)"] assms(2,3) by (auto simp: tx_drains_def)
  then show ?thesis using \<open>rc = 0\<close> ring_count_0[of "tx_in (sp w')" "tx_out (sp w')"]
    by (auto simp: tx_ok_def txq_def length_ring simp flip: length_0_conv)
qed

definition timeout_iter :: "hw \<Rightarrow> nat \<Rightarrow> jtag_world \<Rightarrow> jtag_world" where
  "timeout_iter hw k w = ((\<lambda>w. snd (altera_avalon_jtag_uart_timeout hw 1000 w)) ^^ k) w"

lemma timeout_silent_step:
  assumes "hw (io w) (ju_base (sp w)) JU_CONTROL_REG AND JU_CONTROL_AC_MSK = 0"
  shows "\<exists>h. sp (snd (altera_avalon_jtag_uart_timeout hw 1000 w)) = (sp w)\<lparr>ju_host_inactive := h\<rparr>
    \<and> unat h = (if unat (ju_host_inactive (sp w)) < 2147483645 then unat (ju_host_inactive (sp w)) + 1
                 else unat (ju_host_inactive (sp w)))"
proof -
  have m: "INT_MAX - 2 = 2147483645" by (simp add: INT_MAX_def)
  have "unat (ju_host_inactive (sp w) + 1) = unat (ju_host_inactive (sp w)) + 1"
    if "ju_host_inactive (sp w) < 2147483645"
    using unat_Suc_bound[OF that] by simp
  moreover have "sp (snd (altera_avalon_jtag_uart_timeout hw 1000 w)) = (sp w)\<lparr>ju_host_inactive :=
      (if ju_host_inactive (sp w) < 2147483645 then ju_host_inactive (sp w) + 1 else ju_host_inactive (sp w))\<rparr>"
    using assms unfolding altera_avalon_jtag_uart_timeout_def
    by (simp add: iord_eq sp_upd_def Let_def m)
  ultimately show ?thesis by (intro exI conjI) (assumption, auto simp: word_less_nat_alt)
qed

lemma timeout_silent:
  assumes "\<forall>t. hw t (ju_base (sp w)) JU_CONTROL_REG AND JU_CONTROL_AC_MSK = 0"
    "unat (ju_host_inactive (sp w)) \<le> 2147483645"
  shows "\<exists>h. sp (timeout_iter hw k w) = (sp w)\<lparr>ju_host_inactive := h\<rparr>
    \<and> unat h = min (unat (ju_host_inactive (sp w)) + k) 2147483645"
proof (induction k)
  case 0
  then show ?case using assms(2) by (intro exI[of _ "ju_host_inactive (sp w)"]) (simp add: timeout_iter_def)
next
  case (Suc k)
  let ?v = "timeout_iter hw k w"
  obtain h where h: "sp ?v = (sp w)\<lparr>ju_host_inactive := h\<rparr>"
    "unat h = min (unat (ju_host_inactive (sp w)) + k) 2147483645" using Suc.IH by blast
  have "timeout_iter hw (Suc k) w = snd (altera_avalon_jtag_uart_timeout hw 1000 ?v)"
    by (simp add: timeout_iter_def)
  moreover obtain h' where "sp (snd (altera_avalon_jtag_uart_timeout hw 1000 ?v)) = (sp ?v)\<lparr>ju_host_inactive := h'\<rparr>"
    "unat h' = (if unat h < 2147483645 then unat h + 1 else unat h)"
    using timeout_silent_step[of hw ?v] assms(1) h(1) by auto
  ultimately show ?case using h by (intro exI[of _ h']) (simp add: min_def)
qed

text \<open>
  The host counts as gone after exactly as many silent alarm ticks as the timeout set by
  \<open>TIOCSTIMEOUT\<close>, when that is between 2 and \<open>INT_MAX - 2\<close>; any timeout the call does not accept
  (0, 1, a negative number, \<open>INT_MAX\<close>) is replaced by \<open>INT_MAX - 1\<close>, which the saturating counter never
  reaches, so that a blocking call waits for ever.
\<close>

theorem host_timeout_after_ticks:
  assumes "altera_avalon_jtag_uart_ioctl TIOCSTIMEOUT arg (sp w) = (0, arg', s')" "ju_host_inactive s' = 0"
    and "\<forall>t. hw t (ju_base s') JU_CONTROL_REG AND JU_CONTROL_AC_MSK = 0" "arg \<le> 2147483647"
  shows "host_active (timeout_iter hw k (w\<lparr>sp := s'\<rparr>))
    \<longleftrightarrow> (if 2 \<le> arg \<and> arg \<le> 2147483645 then int k < arg else True)"
proof -
  have s': "s' = (sp w)\<lparr>ju_timeout := (if 2 \<le> arg \<and> arg < 2147483647 then word_of_int arg else 2147483646)\<rparr>"
    using assms(1) by (auto simp: altera_avalon_jtag_uart_ioctl_def TIOCSTIMEOUT_def INT_MAX_def ENOTTY_def split: if_splits)
  have t: "int (unat (ju_timeout s')) = (if 2 \<le> arg \<and> arg < 2147483647 then arg else 2147483646)"
    using assms(4) by (simp add: s' uint_word_of_int)
  obtain h where "sp (timeout_iter hw k (w\<lparr>sp := s'\<rparr>)) = s'\<lparr>ju_host_inactive := h\<rparr>" "unat h = min k 2147483645"
    using timeout_silent[of hw "w\<lparr>sp := s'\<rparr>" k] assms(2,3) by auto
  then have "host_active (timeout_iter hw k (w\<lparr>sp := s'\<rparr>)) \<longleftrightarrow> min k 2147483645 < unat (ju_timeout s')"
    by (simp add: host_active_def word_less_nat_alt)
  also have "\<dots> \<longleftrightarrow> int (min k 2147483645) < int (unat (ju_timeout s'))"
    by (rule of_nat_less_iff[symmetric])
  finally show ?thesis unfolding t by (auto simp: min_def split: if_splits)
qed

theorem host_timeout_after_ticks_witness:
  "\<not> host_active (timeout_iter (\<lambda>t b r. 0) 4 (jtag_boot_world\<lparr>sp := jtag_boot\<lparr>ju_timeout := 4\<rparr>\<rparr>))"
proof -
  have "altera_avalon_jtag_uart_ioctl TIOCSTIMEOUT 4 (sp jtag_boot_world) = (0, 4, jtag_boot\<lparr>ju_timeout := 4\<rparr>)"
    by (simp add: altera_avalon_jtag_uart_ioctl_def TIOCSTIMEOUT_def INT_MAX_def jtag_boot_world_def
        clock_state.extend_def jtag_boot_def)
  from host_timeout_after_ticks[OF this, of "\<lambda>t b r. 0" 4] show ?thesis by (simp add: jtag_boot_def)
qed

text \<open>
  Closing the JTAG UART succeeds only when the transmit queue has been sent or the host is
  gone; a non-blocking close with bytes still queued for a live host returns \<open>-EWOULDBLOCK\<close> and
  changes nothing.
\<close>

theorem close_flushes:
  assumes "altera_avalon_jtag_uart_close nonblock sched w = Some (rc, sched', w')" "tx_ok (sp w)"
    "\<forall>a\<in>set sched. tx_drains a"
  shows "rc = 0 \<and> (txq (sp w') = [] \<or> \<not> host_active w') \<or> rc = - EWOULDBLOCK \<and> nonblock \<and> w' = w"
  using close_result[OF assms] .

theorem close_flushes_witness:
  "\<exists>w'. altera_avalon_jtag_uart_close False [] jtag_boot_world = Some (0, [], w') \<and> txq (sp w') = [] "
proof -
  have c: "altera_avalon_jtag_uart_close False [] jtag_boot_world = Some (0, [], jtag_boot_world)"
    "host_active jtag_boot_world" "tx_ok (sp jtag_boot_world)"
    by (simp_all add: altera_avalon_jtag_uart_close_def host_active_def jtag_boot_world_def
        clock_state.extend_def jtag_boot_def tx_ok_def BUF_LEN_def)
  have "\<forall>a\<in>set ([] :: jtag_schedule). tx_drains a" by simp
  from close_flushes[OF c(1) c(3) this] c show ?thesis by simp
qed

end
