(* ===== verification/BoardFiles.thy ===== *)
theory BoardFiles
  imports FileTable JtagThread
begin

text \<open>
  The board's devices behind the file descriptors: \<open>/dev/null\<close> (\<open>HAL/src/alt_dev.c\<close>) and the JTAG
  UART (\<open>drivers/src/altera_avalon_jtag_uart_fd.c\<close>), as an interpretation of \<open>driver\<close>, and the
  properties of the system calls on them.
\<close>

section \<open>State and drivers\<close>

text \<open>
  The descriptors, the schedule of interrupts still to come, and the world of the JTAG UART.
\<close>

record board = fd_state +
  sched :: jtag_schedule
  world :: jtag_world

definition alt_dev_null_write :: "int \<Rightarrow> u8 list \<Rightarrow> board \<Rightarrow> (int \<times> board) option" where
  "alt_dev_null_write i data s = Some (int (length data), s)"

definition fd_nonblock :: "int \<Rightarrow> board \<Rightarrow> bool" where
  "fd_nonblock i s \<longleftrightarrow> fd_flags (fd_list s i) AND O_NONBLOCK \<noteq> 0"

definition altera_avalon_jtag_uart_read_fd :: "int \<Rightarrow> int \<Rightarrow> board \<Rightarrow> (int \<times> u8 list \<times> board) option" where
  "altera_avalon_jtag_uart_read_fd i space s =
     map_option (\<lambda>(rc, bs, sc, w). (rc, bs, s\<lparr>sched := sc, world := w\<rparr>))
       (altera_avalon_jtag_uart_read space (fd_nonblock i s) (sched s) (world s))"

definition altera_avalon_jtag_uart_write_fd :: "int \<Rightarrow> u8 list \<Rightarrow> board \<Rightarrow> (int \<times> board) option" where
  "altera_avalon_jtag_uart_write_fd i data s =
     map_option (\<lambda>(rc, sc, w). (rc, s\<lparr>sched := sc, world := w\<rparr>))
       (altera_avalon_jtag_uart_write data (fd_nonblock i s) (sched s) (world s))"

definition altera_avalon_jtag_uart_close_fd :: "int \<Rightarrow> board \<Rightarrow> (int \<times> board) option" where
  "altera_avalon_jtag_uart_close_fd i s =
     map_option (\<lambda>(rc, sc, w). (rc, s\<lparr>sched := sc, world := w\<rparr>))
       (altera_avalon_jtag_uart_close (fd_nonblock i s) (sched s) (world s))"

definition altera_avalon_jtag_uart_ioctl_fd :: "int \<Rightarrow> u32 \<Rightarrow> int \<Rightarrow> board \<Rightarrow> (int \<times> int \<times> board) option" where
  "altera_avalon_jtag_uart_ioctl_fd i req arg s =
     (case altera_avalon_jtag_uart_ioctl req arg (sp (world s)) of
        (rc, arg1, s1) \<Rightarrow> Some (rc, arg1, s\<lparr>world := (world s)\<lparr>sp := s1\<rparr>\<rparr>))"

text \<open>The address of the JTAG UART's device structure, another choice of the linker.\<close>

definition JTAG_UART_0_DEV :: u32 where "JTAG_UART_0_DEV = 0x2000"

definition jtag_ops :: "board dev_ops" where
  "jtag_ops = no_ops\<lparr>op_close := Some altera_avalon_jtag_uart_close_fd,
     op_read := Some altera_avalon_jtag_uart_read_fd,
     op_write := Some altera_avalon_jtag_uart_write_fd,
     op_ioctl := Some altera_avalon_jtag_uart_ioctl_fd\<rparr>"

definition null_ops :: "board dev_ops" where
  "null_ops = no_ops\<lparr>op_write := Some alt_dev_null_write\<rparr>"

definition board_ops :: "u32 \<Rightarrow> board dev_ops" where
  "board_ops d = (if d = JTAG_UART_0_DEV then jtag_ops else if d = ALT_DEV_NULL then null_ops else no_ops)"

lemma board_ops_simps [simp]:
  "op_open (board_ops d) = None" "op_lseek (board_ops d) = None" "op_fstat (board_ops d) = None"
  "op_read (board_ops d) = (if d = JTAG_UART_0_DEV then Some altera_avalon_jtag_uart_read_fd else None)"
  "op_close (board_ops d) = (if d = JTAG_UART_0_DEV then Some altera_avalon_jtag_uart_close_fd else None)"
  "op_ioctl (board_ops d) = (if d = JTAG_UART_0_DEV then Some altera_avalon_jtag_uart_ioctl_fd else None)"
  "op_write (board_ops d) = (if d = JTAG_UART_0_DEV then Some altera_avalon_jtag_uart_write_fd
     else if d = ALT_DEV_NULL then Some alt_dev_null_write else None)"
  by (simp_all add: board_ops_def jtag_ops_def null_ops_def no_ops_def)

lemma same_table_board [simp]: "same_table s (t\<lparr>sched := a, world := b\<rparr>) = same_table s t"
  "same_table s (t\<lparr>world := b\<rparr>) = same_table s t" "same_table s (t\<lparr>sched := a\<rparr>) = same_table s t"
  by (simp_all add: same_table_def)

interpretation board: driver board_ops
  by unfold_locales
    (auto simp: alt_dev_null_write_def altera_avalon_jtag_uart_read_fd_def altera_avalon_jtag_uart_write_fd_def
      altera_avalon_jtag_uart_close_fd_def altera_avalon_jtag_uart_ioctl_fd_def split: if_splits prod.splits)

section \<open>The table\<close>

text \<open>The pool at reset: the standard streams on \<open>/dev/null\<close>, nothing else allocated.\<close>

definition boot_fd_list :: "int \<Rightarrow> fd" where
  "boot_fd_list i = \<lparr>fd_dev = (if 0 \<le> i \<and> i \<le> 2 then ALT_DEV_NULL else 0), fd_priv = 0, fd_flags = 0\<rparr>"

definition boot_board :: board where
  "boot_board = \<lparr>links = links (snd (alt_dev_reg JTAG_UART_0_DEV boot_hal)), dev_names = boot_hal_names,
     errno = 0, fd_list = boot_fd_list, alt_max_fd = - 1, sched = [], world = jtag_boot_world\<rparr>"

lemma boot_table_ok: "table_ok boot_board"
  by (auto simp: table_ok_def boot_board_def boot_fd_list_def layout_defs)

lemma boot_board_links: "links boot_board = alt_llist_insert ALT_DEV_LIST JTAG_UART_0_DEV (boot_links (\<lambda>_. ALT_LLIST_ENTRY))"
  by (simp add: boot_board_def alt_dev_reg_def alt_dev_llist_insert_def boot_hal_def boot_hal_names_def
      JTAG_UART_0_DEV_def)

lemma boot_devs:
  "ring_list (links boot_board) ALT_DEV_LIST [JTAG_UART_0_DEV, ALT_DEV_NULL]"
  "ring_list (links boot_board) ALT_FS_LIST []"
proof -
  show "ring_list (links boot_board) ALT_DEV_LIST [JTAG_UART_0_DEV, ALT_DEV_NULL]"
    unfolding boot_board_links by (rule insert_ring[OF boot_dev_list]) (simp add: layout_defs JTAG_UART_0_DEV_def)
  have "ring_list (links boot_board) ALT_FS_LIST [] = ring_list (boot_links (\<lambda>_. ALT_LLIST_ENTRY)) ALT_FS_LIST []"
    unfolding boot_board_links by (rule insert_frame[OF boot_dev_list]) (simp_all add: layout_defs JTAG_UART_0_DEV_def)
  then show "ring_list (links boot_board) ALT_FS_LIST []" by (simp add: boot_fs_list)
qed

lemma boot_names [simp]: "dev_names boot_board = boot_hal_names"
  by (simp add: boot_board_def)

lemma boot_find_jtag: "alt_find_dev ''/dev/jtag_uart_0'' ALT_DEV_LIST boot_board = Some JTAG_UART_0_DEV"
  by (subst find_dev_ring[OF boot_devs(1)])
     (simp_all add: boot_hal_names_def layout_defs JTAG_UART_0_DEV_def nul_free_def MAX_STRING_LENGTH_def)

lemma boot_find_file: "alt_find_file name boot_board = Some 0"
  unfolding alt_find_file_def by (subst search_ring[OF boot_devs(2)]) simp_all

lemma boot_fds:
  "fd_dev (fd_list boot_board i) = (if 0 \<le> i \<and> i \<le> 2 then ALT_DEV_NULL else 0)"
  "fd_flags (fd_list boot_board i) = 0" "alt_max_fd boot_board = - 1"
  by (simp_all add: boot_board_def boot_fd_list_def)

lemma boot_lowest_free: "lowest_free 3 boot_board"
  by (simp add: lowest_free_def boot_fds layout_defs)

lemma boot_unlocked: "unlocked d boot_board"
  by (simp add: unlocked_def boot_fds)

lemma boot_open_jtag:
  "\<exists>t. alt_open board_ops ''/dev/jtag_uart_0'' fl md boot_board = Some (3, t)
     \<and> opened_fd 3 JTAG_UART_0_DEV fl boot_board t"
  by (rule board.open_succeeds)
     (simp_all add: boot_find_jtag boot_lowest_free boot_unlocked boot_table_ok, simp add: JTAG_UART_0_DEV_def)

text \<open>
  C17: Whatever a program calls on descriptors in range, in any order, the standard streams stay
  allocated, and the high-water mark stays in range and covers every allocated descriptor above them, so
  that an open that has found its device looks for a lock at every file the program has opened before. The
  mark need not cover the standard streams: it is -1 until the first open. Taking a lock leaves out the
  descriptor at the mark (\<open>lock_misses_highest\<close>).
\<close>

theorem fd_table_invariant:
  assumes "fd_run board_ops s cs s'" "table_ok s"
  shows "table_ok s'"
  using assms by (rule board.run_table_ok)

theorem fd_table_invariant_witness:
  "\<exists>s'. fd_run board_ops boot_board [Open ''/dev/jtag_uart_0''] s' \<and> table_ok s'"
proof -
  obtain t where "alt_open board_ops ''/dev/jtag_uart_0'' 0 0 boot_board = Some (3, t)"
    using boot_open_jtag by blast
  then have r: "fd_run board_ops boot_board [Open ''/dev/jtag_uart_0''] t"
    by (blast intro: step_open run_nil run_cons)
  then show ?thesis using fd_table_invariant[OF r boot_table_ok] by blast
qed

text \<open>
  C16: A descriptor that holds a device exclusively keeps it so, whatever other calls are made in
  any order, until it is closed or gives the lock up with \<open>TIOCNXCL\<close>: no further descriptor of the
  device comes into being. The device must not be registered as a filesystem too, which an open
  does not check for locks.
\<close>

theorem exclusive_until_released:
  assumes "fd_run board_ops s cs s'" "table_ok s" "excl i d s"
    and "\<forall>n. alt_find_file n s \<noteq> Some d" "Close i \<notin> set cs" "Ioctl i TIOCNXCL \<notin> set cs"
  shows "excl i d s' \<and> users d s' \<subseteq> users d s"
proof -
  have "excl_kept i d s s'"
    by (rule board.run_kept[OF assms(1,2)]) (use assms(4-6) in auto)
  then show ?thesis using assms(3) by (simp add: excl_kept_def)
qed

text \<open>The JTAG UART opened once, as descriptor 3, and locked.\<close>

lemma boot_locked:
  "\<exists>s :: board. excl 3 JTAG_UART_0_DEV s \<and> table_ok s \<and> (\<forall>n. alt_find_file n s = Some 0)
     \<and> alt_find_dev ''/dev/jtag_uart_0'' ALT_DEV_LIST s = Some JTAG_UART_0_DEV \<and> users JTAG_UART_0_DEV s = {3}"
proof -
  obtain t where o: "alt_open board_ops ''/dev/jtag_uart_0'' 0 0 boot_board = Some (3, t)"
    "opened_fd 3 JTAG_UART_0_DEV 0 boot_board t"
    using boot_open_jtag by blast
  let ?s = "upd_fd 3 (\<lambda>f. f\<lparr>fd_flags := fd_flags f OR ALT_FD_EXCL\<rparr>) t"
  have t: "links t = links boot_board" "dev_names t = dev_names boot_board" "alt_max_fd t = 3"
    "\<And>j. fd_dev (fd_list t j) = (if j = 3 then JTAG_UART_0_DEV else if 0 \<le> j \<and> j \<le> 2 then ALT_DEV_NULL else 0)"
    using o(2) by (auto simp: opened_fd_def took_def boot_fds)
  have "excl 3 JTAG_UART_0_DEV ?s" using t(3,4) excl_bit(2)[of "fd_flags (fd_list t 3)"]
    by (auto simp: excl_def JTAG_UART_0_DEV_def)
  moreover have "table_ok ?s" using t(3,4) by (auto simp: table_ok_def JTAG_UART_0_DEV_def layout_defs)
  moreover have "alt_find_file n ?s = Some 0" for n
    using find_file_cong[of ?s boot_board n] t(1,2) boot_find_file by simp
  moreover have "alt_find_dev ''/dev/jtag_uart_0'' ALT_DEV_LIST ?s = Some JTAG_UART_0_DEV"
    using find_dev_cong[of ?s boot_board] t(1,2) boot_find_jtag by simp
  moreover have "users JTAG_UART_0_DEV ?s = {3}"
    using t(4) by (auto simp: users_def JTAG_UART_0_DEV_def layout_defs)
  ultimately show ?thesis by blast
qed

lemma board_open_returns:
  assumes "alt_find_dev n ALT_DEV_LIST s = Some d" "alt_find_file n s = Some e"
  shows "\<exists>r s'. alt_open board_ops n fl md s = Some (r, s')"
  using assms by (auto simp: alt_open_def open_dev_def Let_def split: prod.splits)

theorem exclusive_until_released_witness:
  "\<exists>(s :: board) s'. fd_run board_ops s [Open ''/dev/jtag_uart_0''] s' \<and> excl 3 JTAG_UART_0_DEV s'
     \<and> users JTAG_UART_0_DEV s' \<subseteq> {3}"
proof -
  obtain s :: board where s: "excl 3 JTAG_UART_0_DEV s" "table_ok s" "\<forall>n. alt_find_file n s = Some 0"
    "alt_find_dev ''/dev/jtag_uart_0'' ALT_DEV_LIST s = Some JTAG_UART_0_DEV" "users JTAG_UART_0_DEV s = {3}"
    using boot_locked by blast
  obtain r s' where "alt_open board_ops ''/dev/jtag_uart_0'' 0 0 s = Some (r, s')"
    using board_open_returns[OF s(4)] s(3) by blast
  then have run: "fd_run board_ops s [Open ''/dev/jtag_uart_0''] s'"
    by (blast intro: step_open run_nil run_cons)
  have "\<forall>n. alt_find_file n s \<noteq> Some JTAG_UART_0_DEV" using s(3) by (simp add: JTAG_UART_0_DEV_def)
  from exclusive_until_released[OF run s(2,1) this] s(5) run show ?thesis by auto
qed

text \<open>
  Opening a device: the lowest free descriptor, with the caller's flags and the device mark and
  nothing else changed; or \<open>-1\<close> and \<open>EMFILE\<close> if the pool is full; or \<open>-1\<close> and \<open>EACCES\<close> if some descriptor
  has the device exclusively, and then every descriptor is as before.
\<close>

theorem open_device_result:
  assumes "alt_find_dev file ALT_DEV_LIST s = Some d" "d \<noteq> 0" "table_ok s"
  shows "\<exists>r s'. alt_open board_ops file fl md s = Some (r, s') \<and>
    (if pool_full s then r = - 1 \<and> errno s' = EMFILE \<and> same_table s s'
     else if unlocked d s then lowest_free r s \<and> opened_fd r d fl s s'
     else r = - 1 \<and> errno s' = EACCES \<and> (\<forall>j. fd_dev (fd_list s' j) = fd_dev (fd_list s j)))"
proof (cases "pool_full s")
  case True
  then show ?thesis using board.open_full[OF assms(1,2)] by (auto simp: same_table_def)
next
  case False
  then obtain k where k: "lowest_free k s" using get_fd_cases[of s 0] by metis
  show ?thesis
  proof (cases "unlocked d s")
    case True
    obtain t where "alt_open board_ops file fl md s = Some (k, t)" "opened_fd k d fl s t"
      using board.open_succeeds[OF assms(1,2) _ k True assms(3)] by auto
    then show ?thesis using k True False by (intro exI[of _ k] exI[of _ t]) simp
  next
    case u: False
    then show ?thesis using board.open_refused[OF assms(1,2) k u assms(3)] False by auto
  qed
qed

theorem open_device_result_witness:
  "\<exists>s'. alt_open board_ops ''/dev/jtag_uart_0'' 0 0 boot_board = Some (3, s')
     \<and> fd_dev (fd_list s' 3) = JTAG_UART_0_DEV"
proof -
  have n: "JTAG_UART_0_DEV \<noteq> 0" by (simp add: JTAG_UART_0_DEV_def)
  obtain r s' where r: "alt_open board_ops ''/dev/jtag_uart_0'' 0 0 boot_board = Some (r, s')"
    "lowest_free r boot_board" "opened_fd r JTAG_UART_0_DEV 0 boot_board s'"
    using open_device_result[OF boot_find_jtag n boot_table_ok, of 0 0] lowest_free_not_full[OF boot_lowest_free]
      boot_unlocked by auto
  have "r = 3" using r(2) boot_lowest_free lowest_free_unique by blast
  then show ?thesis using r by (auto simp: opened_fd_def took_def)
qed

section \<open>Exclusive access, as granted\<close>

text \<open>
  C21: \<open>TIOCEXCL\<close> is granted exactly when no other descriptor of the device is open, the one at the
  high-water mark excepted: that one is not looked at, and the lock is granted although it
  may have the same device open.
\<close>

theorem lock_misses_highest:
  assumes "table_ok s" "0 \<le> i" "i < 32" "fd_dev (fd_list s i) \<noteq> 0" "3 \<le> alt_max_fd s"
  shows "fst (alt_fd_lock i s) = 0
    \<longleftrightarrow> users (fd_dev (fd_list s i)) s - {alt_max_fd s} \<subseteq> {i}"
proof -
  have m: "0 \<le> alt_max_fd s" "alt_max_fd s < 32"
    "\<And>j. 2 < j \<Longrightarrow> j < 32 \<Longrightarrow> fd_dev (fd_list s j) \<noteq> 0 \<Longrightarrow> j \<le> alt_max_fd s"
    using assms(1,5) by (auto simp: table_ok_def)
  have "fst (alt_fd_lock i s) = 0
    \<longleftrightarrow> \<not> (\<exists>j\<ge>0. j < alt_max_fd s \<and> j \<noteq> i \<and> fd_dev (fd_list s j) = fd_dev (fd_list s i))"
    using m unfolding alt_fd_lock_def list_ex_fd_range by (auto simp: EACCES_def)
  also have "\<dots> \<longleftrightarrow> users (fd_dev (fd_list s i)) s - {alt_max_fd s} \<subseteq> {i}"
  proof -
    have l: "j < alt_max_fd s" if "0 \<le> j" "j < 32" "fd_dev (fd_list s j) \<noteq> 0" "j \<noteq> alt_max_fd s" for j
      using that m(3)[of j] assms(5) by (cases "2 < j") auto
    have "users (fd_dev (fd_list s i)) s - {alt_max_fd s}
        = {j. 0 \<le> j \<and> j < alt_max_fd s \<and> fd_dev (fd_list s j) = fd_dev (fd_list s i)}"
      using assms(4) m(2) by (auto simp: users_def intro: l)
    then show ?thesis by auto
  qed
  finally show ?thesis .
qed

definition two_users :: "board" where
  "two_users = boot_board\<lparr>fd_list := (fd_list boot_board)(3 := \<lparr>fd_dev = JTAG_UART_0_DEV, fd_priv = 0, fd_flags = ALT_FD_DEV\<rparr>,
     4 := \<lparr>fd_dev = JTAG_UART_0_DEV, fd_priv = 0, fd_flags = ALT_FD_DEV\<rparr>), alt_max_fd := 4\<rparr>"

theorem lock_misses_highest_witness:
  "fst (alt_fd_lock 3 two_users) = 0 \<and> 4 \<in> users JTAG_UART_0_DEV two_users"
proof -
  have d: "fd_dev (fd_list two_users j) = (if j = 3 \<or> j = 4 then JTAG_UART_0_DEV else if 0 \<le> j \<and> j \<le> 2 then ALT_DEV_NULL else 0)"
    "alt_max_fd two_users = 4" for j
    by (simp_all add: two_users_def boot_fds)
  have "table_ok two_users" by (auto simp: table_ok_def d JTAG_UART_0_DEV_def layout_defs)
  moreover have u: "users JTAG_UART_0_DEV two_users = {3, 4}"
    by (auto simp: users_def d JTAG_UART_0_DEV_def layout_defs split: if_splits)
  ultimately have "fst (alt_fd_lock 3 two_users) = 0"
    using lock_misses_highest[of two_users 3] by (simp add: d) (auto simp: JTAG_UART_0_DEV_def)
  then show ?thesis using u by simp
qed

section \<open>The standard streams\<close>

lemma redirect_ok:
  assumes "alt_find_dev name ALT_DEV_LIST s = Some d" "d \<noteq> 0" "lowest_free k s" "unlocked d s" "table_ok s"
  shows "\<exists>s'. alt_io_redirect board_ops name name name s = Some s' \<and> errno s' = errno s
    \<and> (\<forall>i. 0 \<le> i \<and> i \<le> 2 \<longrightarrow> fd_dev (fd_list s' i) = d
          \<and> fd_flags (fd_list s' i) = (if i = 0 then O_RDONLY else O_WRONLY) OR ALT_FD_DEV)
    \<and> (\<forall>j. j < 0 \<or> 2 < j \<longrightarrow> fd_dev (fd_list s' j) = fd_dev (fd_list s j)
          \<and> (j \<noteq> k \<longrightarrow> fd_flags (fd_list s' j) = fd_flags (fd_list s j)))"
proof -
  note r = board.open_fd_redirects[OF _ assms(2) _ _ _ _ _ _, simplified]
  have fl: "O_RDONLY AND NOT ALT_FD_FLAGS_MASK = O_RDONLY" "O_WRONLY AND NOT ALT_FD_FLAGS_MASK = O_WRONLY"
    by (simp_all add: fd_flag_defs)
  have k: "2 < k" using free_above_2[OF assms(5,3)] by simp
  obtain s1 where s1: "alt_open_fd board_ops 1 name O_WRONLY 0x1FF s = Some s1" "links s1 = links s"
    "dev_names s1 = dev_names s" "errno s1 = errno s" "lowest_free k s1" "unlocked d s1" "table_ok s1"
    "fd_dev (fd_list s1 1) = d" "fd_flags (fd_list s1 1) = O_WRONLY OR ALT_FD_DEV"
    "\<forall>j. j \<noteq> 1 \<longrightarrow> fd_dev (fd_list s1 j) = fd_dev (fd_list s j)
      \<and> (j \<noteq> k \<longrightarrow> fd_flags (fd_list s1 j) = fd_flags (fd_list s j))"
    using r[OF assms(1) assms(3-5), of 1 O_WRONLY "0x1FF"] by (auto simp: fl)
  have f1: "alt_find_dev name ALT_DEV_LIST s1 = Some d" using find_dev_cong[of s1 s] s1(2,3) assms(1) by simp
  obtain s2 where s2: "alt_open_fd board_ops 0 name O_RDONLY 0x1FF s1 = Some s2" "links s2 = links s1"
    "dev_names s2 = dev_names s1" "errno s2 = errno s1" "lowest_free k s2" "unlocked d s2" "table_ok s2"
    "fd_dev (fd_list s2 0) = d" "fd_flags (fd_list s2 0) = O_RDONLY OR ALT_FD_DEV"
    "\<forall>j. j \<noteq> 0 \<longrightarrow> fd_dev (fd_list s2 j) = fd_dev (fd_list s1 j)
      \<and> (j \<noteq> k \<longrightarrow> fd_flags (fd_list s2 j) = fd_flags (fd_list s1 j))"
    using r[OF f1 s1(5-7), of 0 O_RDONLY "0x1FF"] by (auto simp: fl)
  have f2: "alt_find_dev name ALT_DEV_LIST s2 = Some d" using find_dev_cong[of s2 s1] s2(2,3) f1 by simp
  obtain s3 where s3: "alt_open_fd board_ops 2 name O_WRONLY 0x1FF s2 = Some s3" "errno s3 = errno s2"
    "fd_dev (fd_list s3 2) = d" "fd_flags (fd_list s3 2) = O_WRONLY OR ALT_FD_DEV"
    "\<forall>j. j \<noteq> 2 \<longrightarrow> fd_dev (fd_list s3 j) = fd_dev (fd_list s2 j)
      \<and> (j \<noteq> k \<longrightarrow> fd_flags (fd_list s3 j) = fd_flags (fd_list s2 j))"
    using r[OF f2 s2(5-7), of 2 O_WRONLY "0x1FF"] by (auto simp: fl)
  have three: "(\<forall>i::int. 0 \<le> i \<and> i \<le> 2 \<longrightarrow> P i) \<longleftrightarrow> P 0 \<and> P 1 \<and> P 2" for P
  proof -
    have "i = 0 \<or> i = 1 \<or> i = 2" if "0 \<le> i" "i \<le> 2" for i :: int using that by auto
    then show ?thesis by auto
  qed
  have "alt_io_redirect board_ops name name name s = Some s3" using s1(1) s2(1) s3(1) by (simp add: alt_io_redirect_def)
  then show ?thesis unfolding three using s1 s2 s3 k by (intro exI[of _ s3]) simp
qed

text \<open>
  Redirecting the standard streams to a registered, unlocked device leaves 0, 1 and 2 on that
  device, open for reading, writing and writing, and no other descriptor allocated or changed; the
  temporary descriptor it used is given back.
\<close>

theorem redirect_standard_streams:
  assumes "alt_find_dev name ALT_DEV_LIST s = Some d" "d \<noteq> 0" "lowest_free k s" "unlocked d s" "table_ok s"
  shows "\<exists>s'. alt_io_redirect board_ops name name name s = Some s' \<and> errno s' = errno s
    \<and> (\<forall>i. 0 \<le> i \<and> i \<le> 2 \<longrightarrow> fd_dev (fd_list s' i) = d
          \<and> fd_flags (fd_list s' i) = (if i = 0 then O_RDONLY else O_WRONLY) OR ALT_FD_DEV)
    \<and> (\<forall>j. j < 0 \<or> 2 < j \<longrightarrow> fd_dev (fd_list s' j) = fd_dev (fd_list s j)
          \<and> (j \<noteq> k \<longrightarrow> fd_flags (fd_list s' j) = fd_flags (fd_list s j)))"
  using redirect_ok[OF assms] .

theorem redirect_standard_streams_witness:
  "\<exists>s'. alt_io_redirect board_ops ''/dev/jtag_uart_0'' ''/dev/jtag_uart_0'' ''/dev/jtag_uart_0'' boot_board = Some s'
     \<and> fd_dev (fd_list s' 1) = JTAG_UART_0_DEV"
proof -
  have n: "JTAG_UART_0_DEV \<noteq> 0" by (simp add: JTAG_UART_0_DEV_def)
  show ?thesis
    using redirect_standard_streams[OF boot_find_jtag n boot_lowest_free boot_unlocked boot_table_ok] by auto
qed

section \<open>From a descriptor to the UART\<close>

text \<open>
  Writing to a descriptor of the JTAG UART: refused with \<open>EACCES\<close> and no effect when it is open
  for reading only; otherwise a prefix of the bytes joins the transmit queue behind what is there,
  and the call returns its length, or \<open>-1\<close> with \<open>errno\<close> telling why nothing was accepted.
\<close>

theorem fd_write_reaches_uart:
  assumes "alt_write board_ops i data s = Some (rc, s')" "0 \<le> i"
    and "fd_dev (fd_list s i) = JTAG_UART_0_DEV" "tx_ok (sp (world s))" "\<forall>a\<in>set (sched s). tx_drains a"
  shows "if fd_flags (fd_list s i) AND O_ACCMODE = O_RDONLY
    then rc = - 1 \<and> errno s' = EACCES \<and> world s' = world s
    else \<exists>sent rest gone. data = sent @ rest \<and> txq (sp (world s)) @ sent = gone @ txq (sp (world s'))
      \<and> tx_ok (sp (world s'))
      \<and> (if sent \<noteq> [] then rc = int (length sent) \<and> errno s' = errno s
         else rc = - 1 \<and> errno s' = (if fd_nonblock i s then EWOULDBLOCK else EIO))"
proof (cases "fd_flags (fd_list s i) AND O_ACCMODE = O_RDONLY")
  case True
  then have "alt_write board_ops i data s = Some (fail EACCES s)" using assms(2) by (simp add: alt_write_def)
  then show ?thesis using True assms(1) by (auto simp: fail_def)
next
  case False
  obtain r sc w where w: "altera_avalon_jtag_uart_write data (fd_nonblock i s) (sched s) (world s) = Some (r, sc, w)"
    "(rc, s') = ret_errno r (s\<lparr>sched := sc, world := w\<rparr>)"
    using assms(1-3) False
    by (auto simp: alt_write_def fd_ops_def altera_avalon_jtag_uart_write_fd_def)
  obtain sent rest gone where q: "data = sent @ rest" "txq (sp (world s)) @ sent = gone @ txq (sp w)" "tx_ok (sp w)"
    "r = (if sent \<noteq> [] then int (length sent) else if fd_nonblock i s then - EWOULDBLOCK else - EIO)"
    using write_result[OF w(1) assms(4,5)] by blast
  have "world s' = w" "if sent \<noteq> [] then rc = int (length sent) \<and> errno s' = errno s
      else rc = - 1 \<and> errno s' = (if fd_nonblock i s then EWOULDBLOCK else EIO)"
    using w(2) q(4) by (auto simp: ret_errno_def fail_def EWOULDBLOCK_def EAGAIN_def EIO_def split: if_splits)
  then show ?thesis using False q by auto
qed

text \<open>Standard output on the UART, open for writing.\<close>

definition stdout_board :: board where
  "stdout_board = boot_board\<lparr>fd_list := (fd_list boot_board)
     (1 := \<lparr>fd_dev = JTAG_UART_0_DEV, fd_priv = 0, fd_flags = O_WRONLY OR ALT_FD_DEV\<rparr>)\<rparr>"

theorem fd_write_reaches_uart_witness:
  "\<exists>rc s'. alt_write board_ops 1 [0x4F, 0x4B] stdout_board = Some (rc, s') \<and> tx_ok (sp (world s'))"
proof -
  have d: "fd_dev (fd_list stdout_board 1) = JTAG_UART_0_DEV" "world stdout_board = jtag_boot_world"
    "sched stdout_board = []" "\<not> fd_flags (fd_list stdout_board 1) AND O_ACCMODE = O_RDONLY"
    by (simp_all add: stdout_board_def boot_board_def fd_flag_defs)
  have ok: "tx_ok (sp jtag_boot_world)"
    by (simp add: jtag_boot_world_def clock_state.extend_def jtag_boot_def tx_ok_def BUF_LEN_def)
  have e: "length (txq (sp jtag_boot_world)) = 0"
    by (simp add: jtag_boot_world_def clock_state.extend_def jtag_boot_def txq_def length_ring ring_count_def)
  obtain w' where "altera_avalon_jtag_uart_write [0x4F, 0x4B] (fd_nonblock 1 stdout_board) [] jtag_boot_world
      = Some (2, [], w')"
    using write_immediate[OF ok, of "[0x4F, 0x4B]" "fd_nonblock 1 stdout_board" "[]"] e by auto
  then obtain rc s' where r: "alt_write board_ops 1 [0x4F, 0x4B] stdout_board = Some (rc, s')"
    using d by (auto simp: alt_write_def fd_ops_def altera_avalon_jtag_uart_write_fd_def ret_errno_def)
  show ?thesis using fd_write_reaches_uart[OF r _ d(1)] ok d r by auto
qed

end
