(* ===== verification/ClockProps.thy ===== *)
theory ClockProps
  imports Clock
begin

text \<open>
  What the timer and the clock do: the 64-bit time read in two halves is a value the counter had,
  setting the compare register never makes it fire early, a tick runs exactly the alarms that are due,
  and an alarm started for \<open>n\<close> ticks is due \<open>n + 1\<close> ticks later.
\<close>

section \<open>Reading the time\<close>

lemma join64_split: "join64 (ucast (drop_bit 32 x)) (ucast x) = (x :: u64)"
  unfolding join64_def
  by (rule bit_word_eqI)
     (auto simp: bit_or_iff bit_push_bit_iff bit_ucast_iff bit_drop_bit_eq)

text \<open>A counter: its value after \<open>n\<close> register accesses, read through the two registers.\<close>

definition shows_counter :: "hw \<Rightarrow> (nat \<Rightarrow> u64) \<Rightarrow> bool" where
  "shows_counter hw c \<longleftrightarrow> (\<forall>t. hw t NIOSV_MTIME_ADDR 1 = ucast (drop_bit 32 (c (length t)))
     \<and> hw t NIOSV_MTIME_ADDR 0 = ucast (c (length t)))"

lemma mtime_step:
  assumes "shows_counter hw c" "n = length (io w)"
  shows "alt_niosv_mtime_get hw w =
    (let w3 = snd (iord hw NIOSV_MTIME_ADDR 1 (snd (iord hw NIOSV_MTIME_ADDR 0 (snd (iord hw NIOSV_MTIME_ADDR 1 w)))))
     in if drop_bit 32 (c (n + 2)) \<noteq> drop_bit 32 (c n) then alt_niosv_mtime_get hw w3
        else Some (join64 (ucast (drop_bit 32 (c n))) (ucast (c (n + 1))), w3))"
proof -
  have "(ucast (drop_bit 32 x) :: u32) = ucast (drop_bit 32 y) \<longleftrightarrow> drop_bit 32 x = drop_bit 32 y" for x y :: u64
  proof
    assume a: "(ucast (drop_bit 32 x) :: u32) = ucast (drop_bit 32 y)"
    show "drop_bit 32 x = drop_bit 32 y"
    proof (rule bit_word_eqI)
      fix i assume "i < LENGTH(64)"
      then show "bit (drop_bit 32 x) i = bit (drop_bit 32 y) i"
        using arg_cong[OF a, of "\<lambda>v. bit v i"]
        by (cases "i < 32") (auto simp: bit_ucast_iff bit_drop_bit_eq dest: bit_imp_le_length)
    qed
  qed simp
  then show ?thesis using assms
    by (subst alt_niosv_mtime_get.simps) (simp add: iord_eq shows_counter_def Let_def numeral_2_eq_2)
qed

lemma high_word: "unat (drop_bit 32 (x :: u64)) = unat x div 2 ^ 32"
  by (simp add: drop_bit_eq_div unat_div)

lemma mtime_read_ok:
  assumes "shows_counter hw c" "\<forall>i j. i \<le> j \<longrightarrow> c i \<le> c j" "n = length (io w)"
    and "unat (c (n + 5)) < unat (c n) + 2 ^ 32"
  shows "\<exists>k w'. alt_niosv_mtime_get hw w = Some (c k, w') \<and> n \<le> k \<and> k < length (io w')"
proof -
  let ?h = "\<lambda>i. unat (c i) div 2 ^ 32"
  have mono: "i \<le> j \<Longrightarrow> unat (c i) \<le> unat (c j)" for i j using assms(2) by (simp add: word_le_nat_alt)
  then have hm: "i \<le> j \<Longrightarrow> ?h i \<le> ?h j" for i j by (simp add: div_le_mono)
  have hi: "drop_bit 32 (c i) = drop_bit 32 (c j) \<longleftrightarrow> ?h i = ?h j" for i j
    by (metis high_word word_unat_eq_iff)
  define w3 where "w3 = snd (iord hw NIOSV_MTIME_ADDR 1 (snd (iord hw NIOSV_MTIME_ADDR 0 (snd (iord hw NIOSV_MTIME_ADDR 1 w)))))"
  have l3: "length (io w3) = n + 3" using assms(3) by (simp add: w3_def iord_eq)
  have one: "\<exists>w'. alt_niosv_mtime_get hw v = Some (c (m + 1), w') \<and> length (io w') = m + 3"
    if m: "m = length (io v)" and e: "?h m = ?h (m + 2)" for m and v :: "'a clock_state_scheme"
  proof -
    have "?h (m + 1) = ?h m" using hm[of m "m + 1"] hm[of "m + 1" "m + 2"] e by simp
    then have "drop_bit 32 (c m) = drop_bit 32 (c (m + 1))" "drop_bit 32 (c (m + 2)) = drop_bit 32 (c m)"
      using hi e by auto
    then show ?thesis using m mtime_step[OF assms(1) m] by (simp add: join64_split Let_def iord_eq)
  qed
  show ?thesis
  proof (cases "?h n = ?h (n + 2)")
    case True
    then show ?thesis using one[OF assms(3)] by force
  next
    case False
    then have d: "drop_bit 32 (c (n + 2)) \<noteq> drop_bit 32 (c n)" using hi by metis
    have "?h n < ?h (n + 2)" using False hm[of n "n + 2"] by simp
    moreover have "?h (n + 5) \<le> ?h n + 1"
    proof -
      have "unat (c (n + 5)) div 2 ^ 32 \<le> (unat (c n) + 2 ^ 32) div 2 ^ 32"
        using assms(4) by (intro div_le_mono) simp
      then show ?thesis by simp
    qed
    moreover have "?h (n + 2) \<le> ?h (n + 3)" "?h (n + 3) \<le> ?h (n + 5)"
      using hm[of "n + 2" "n + 3"] hm[of "n + 3" "n + 5"] by auto
    ultimately have "?h (n + 3) = ?h (n + 5)" by linarith
    moreover have "n + 5 = n + 3 + 2" by simp
    ultimately have "?h (n + 3) = ?h (n + 3 + 2)" by metis
    then obtain w' where "alt_niosv_mtime_get hw w3 = Some (c (n + 3 + 1), w')" "length (io w') = n + 3 + 3"
      using one[of "n + 3" w3] l3 by auto
    moreover have "alt_niosv_mtime_get hw w = alt_niosv_mtime_get hw w3"
      unfolding mtime_step[OF assms(1,3)] w3_def[symmetric] using d by simp
    ultimately show ?thesis by (intro exI[of _ "n + 3 + 1"] exI[of _ w']) simp
  qed
qed

text \<open>
  C22: Reading the 64-bit machine timer in three 32-bit accesses, retried when the high word moved,
  comes to an end and gives a value the counter really had during the read, whatever the carries
  between the accesses, as long as it does not advance by 2^32 during six accesses or wrap around.
\<close>

theorem mtime_read_consistent:
  assumes "shows_counter hw c" "\<forall>i j. i \<le> j \<longrightarrow> c i \<le> c j" "n = length (io w)"
    and "unat (c (n + 5)) < unat (c n) + 2 ^ 32"
  shows "\<exists>k w'. alt_niosv_mtime_get hw w = Some (c k, w') \<and> n \<le> k \<and> k < length (io w')"
  using mtime_read_ok[OF assms] .

text \<open>A counter that advances by one per access, with the carry into the high word in the middle.\<close>

definition carry_counter :: "nat \<Rightarrow> u64" where
  "carry_counter n = 0xFFFFFFFF + of_nat (min n 100)"

definition carry_hw :: hw where
  "carry_hw t b r = (if r = 1 then ucast (drop_bit 32 (carry_counter (length t))) else ucast (carry_counter (length t)))"

lemma unat_carry: "unat (carry_counter n) = 0xFFFFFFFF + min n 100"
proof -
  have "unat (of_nat (min n 100) :: u64) = min n 100" by (simp add: unat_of_nat)
  moreover have "unat (0xFFFFFFFF + of_nat (min n 100) :: u64)
      = unat (0xFFFFFFFF :: u64) + unat (of_nat (min n 100) :: u64)"
    using calculation by (intro unat_add_lem[THEN iffD1]) simp
  ultimately show ?thesis by (simp add: carry_counter_def)
qed

theorem mtime_read_consistent_witness:
  "\<exists>k w'. alt_niosv_mtime_get carry_hw boot_clock = Some (carry_counter k, w') \<and> k < length (io w')"
proof -
  have c: "shows_counter carry_hw carry_counter" by (simp add: shows_counter_def carry_hw_def)
  have m: "\<forall>i j. i \<le> j \<longrightarrow> carry_counter i \<le> carry_counter j"
    by (simp add: word_le_nat_alt unat_carry) (simp add: min_def)
  have l: "0 = length (io boot_clock)" by (simp add: boot_clock_def irq_state.extend_def boot_irq_state_def)
  have d: "unat (carry_counter (0 + 5)) < unat (carry_counter 0) + 2 ^ 32" by (simp add: unat_carry)
  show ?thesis using mtime_read_consistent[OF c m l d] by blast
qed

text \<open>Reading the time changes nothing but the history of register accesses.\<close>

lemma mtime_get_frame:
  assumes "alt_niosv_mtime_get hw w = Some (v, w')"
  shows "w' = w\<lparr>io := io w'\<rparr>"
proof -
  have "snd (v, w') = w\<lparr>io := io (snd (v, w'))\<rparr>"
  proof (rule alt_niosv_mtime_get.raw_induct[OF _ assms, where P = "\<lambda>hw w r. snd r = w\<lparr>io := io (snd r)\<rparr>"])
    fix f hw w r
    assume ih: "\<And>hw w r. f hw w = Some r \<Longrightarrow> snd r = w\<lparr>io := io (snd r)\<rparr>"
      and step: "(let (highbits, w1) = iord hw NIOSV_MTIME_ADDR 1 w; (lowbits, w2) = iord hw NIOSV_MTIME_ADDR 0 w1;
           (again, w3) = iord hw NIOSV_MTIME_ADDR 1 w2
         in if again \<noteq> highbits then f hw w3 else Some (join64 highbits lowbits, w3)) = Some r"
    define w3 where "w3 = snd (iord hw NIOSV_MTIME_ADDR 1 (snd (iord hw NIOSV_MTIME_ADDR 0 (snd (iord hw NIOSV_MTIME_ADDR 1 w)))))"
    have "w3 = w\<lparr>io := io w3\<rparr>" by (simp add: w3_def iord_eq)
    moreover have "f hw w3 = Some r \<or> snd r = w3"
      using step by (auto simp: w3_def iord_eq Let_def split: if_splits)
    ultimately show "snd r = w\<lparr>io := io (snd r)\<rparr>" using ih[of hw w3 r]
      by (metis irq_state.ext_inject io_state.surjective io_state.update_convs(1))
  qed
  then show ?thesis by simp
qed

text \<open>
  A running counter: it only grows, and by less than 2^32 during any six accesses. Then a read ends.
\<close>

definition running_counter :: "hw \<Rightarrow> bool" where
  "running_counter hw \<longleftrightarrow> (\<exists>c. shows_counter hw c \<and> (\<forall>i j. i \<le> j \<longrightarrow> c i \<le> c j)
     \<and> (\<forall>n. unat (c (n + 5)) < unat (c n) + 2 ^ 32))"

lemma mtime_get_ends:
  assumes "running_counter hw"
  shows "\<exists>v t. alt_niosv_mtime_get hw w = Some (v, w\<lparr>io := t\<rparr>)"
proof -
  obtain c where c: "shows_counter hw c" "\<forall>i j. i \<le> j \<longrightarrow> c i \<le> c j" "\<forall>n. unat (c (n + 5)) < unat (c n) + 2 ^ 32"
    using assms by (auto simp: running_counter_def)
  obtain k w' where r: "alt_niosv_mtime_get hw w = Some (c k, w')"
    using mtime_read_ok[OF c(1,2) refl, of w] c(3) by blast
  then show ?thesis using mtime_get_frame[OF r] by (metis (no_types))
qed

section \<open>Setting the compare register\<close>

definition cmp_value :: "u32 \<Rightarrow> trace \<Rightarrow> u64" where
  "cmp_value a t = join64 (case last_wr a 1 t of None \<Rightarrow> 0xFFFFFFFF | Some v \<Rightarrow> v)
     (case last_wr a 0 t of None \<Rightarrow> 0xFFFFFFFF | Some v \<Rightarrow> v)"

lemma join64_max: "x \<le> join64 0xFFFFFFFF (ucast x)"
proof -
  have f: "(0xFFFFFFFF :: u32) = - 1" by simp
  have "bit (join64 0xFFFFFFFF (ucast x)) i" if "bit x i" for i
    unfolding f using that bit_imp_le_length[OF that]
    by (cases "i < 32") (auto simp: join64_def bit_or_iff bit_push_bit_iff bit_ucast_iff)
  then have "x AND join64 0xFFFFFFFF (ucast x) = x" by (intro bit_word_eqI) (auto simp: bit_and_iff)
  then show ?thesis by (metis word_and_le1)
qed

lemma mtimecmp_set_io:
  "io (alt_niosv_mtimecmp_set hart x w) = (let a = alt_niosv_get_mtimecmp_addr hart in
     [Wr a 1 (ucast (drop_bit 32 x)), Wr a 0 (ucast x), Wr a 1 0xFFFFFFFF] @ io w)"
  by (simp add: alt_niosv_mtimecmp_set_def iowr_eq Let_def)

text \<open>
  C23: Setting the timer's 64-bit compare register with 32-bit writes: after each write the register
  holds at least the new time, whatever it held before, so that the timer does not fire early in
  between; after the last it holds the new time. The time must be below the last 2^32 of the range.
\<close>

theorem mtimecmp_never_early:
  assumes "x < 0xFFFFFFFF00000000"
  shows "(\<forall>k<3. x \<le> cmp_value (alt_niosv_get_mtimecmp_addr hart) (drop k (io (alt_niosv_mtimecmp_set hart x w))))
   \<and> cmp_value (alt_niosv_get_mtimecmp_addr hart) (io (alt_niosv_mtimecmp_set hart x w)) = x"
proof -
  have "(0xFFFFFFFF00000000 :: u64) \<le> join64 0xFFFFFFFF y" for y
    using le_word_or2[of "0xFFFFFFFF00000000 :: u64" "ucast y"] by (simp add: join64_def)
  then have b: "x \<le> join64 0xFFFFFFFF y" for y using assms by (meson less_imp_le order_less_le_trans)
  have e: "cmp_value (alt_niosv_get_mtimecmp_addr hart) (io (alt_niosv_mtimecmp_set hart x w)) = x"
    by (simp add: mtimecmp_set_io cmp_value_def Let_def join64_split)
  moreover have "x \<le> cmp_value (alt_niosv_get_mtimecmp_addr hart) (drop k (io (alt_niosv_mtimecmp_set hart x w)))"
    if "k < 3" for k
  proof -
    have "k = 0 \<or> k = 1 \<or> k = 2" using that by auto
    then consider "k = 0" | "k = 1" | "k = 2" by blast
    then show ?thesis
    proof cases
      case 1
      then show ?thesis using e by simp
    next
      case 2
      then show ?thesis using b by (simp add: mtimecmp_set_io cmp_value_def Let_def)
    next
      case 3
      then show ?thesis using b by (simp add: mtimecmp_set_io cmp_value_def Let_def)
    qed
  qed
  ultimately show ?thesis by blast
qed

theorem mtimecmp_never_early_witness:
  "cmp_value 0x30048 (io (alt_niosv_mtimecmp_set 0 50000 boot_clock)) = 50000"
  using mtimecmp_never_early[of 50000 0 boot_clock]
  by (simp add: alt_niosv_get_mtimecmp_addr_def NIOSV_MTIMECMP_ADDR_def NIOSV_MTIME_ADDR_def)

section \<open>Ticks\<close>

text \<open>
  A callback that leaves the clock alone (it starts and stops no alarm), with a period that depends on
  the alarm only.
\<close>

definition quiet_callbacks :: "'a alarm_run \<Rightarrow> bool" where
  "quiet_callbacks run \<longleftrightarrow> (\<forall>f c w. let w' = snd (run f c w) in
     alarm_links w' = alarm_links w \<and> alarms w' = alarms w \<and> nticks w' = nticks w \<and> tick_rate w' = tick_rate w)"

text \<open>
  What the callbacks do outside of the clock: \<open>obs\<close> is any part of the state that the clock's own variables do not
  belong to, and \<open>eff\<close> the effect of a callback on it. A log of the calls is one such part.
\<close>

definition outside_clock :: "('a clock_state_scheme \<Rightarrow> 'o) \<Rightarrow> bool" where
  "outside_clock obs \<longleftrightarrow> (\<forall>w l al n. obs (w\<lparr>alarm_links := l\<rparr>) = obs w \<and> obs (w\<lparr>alarms := al\<rparr>) = obs w \<and> obs (w\<lparr>nticks := n\<rparr>) = obs w)"

definition callback_effect :: "('a clock_state_scheme \<Rightarrow> 'o) \<Rightarrow> (u32 \<Rightarrow> u32 \<Rightarrow> 'o \<Rightarrow> 'o) \<Rightarrow> 'a alarm_run \<Rightarrow> bool" where
  "callback_effect obs eff run \<longleftrightarrow> (\<forall>f c w. obs (snd (run f c w)) = eff f c (obs w))"

text \<open>The callbacks of the alarms \<open>as\<close>, called in this order.\<close>

definition called :: "(u32 \<Rightarrow> u32 \<Rightarrow> 'o \<Rightarrow> 'o) \<Rightarrow> 'a clock_state_scheme \<Rightarrow> u32 list \<Rightarrow> 'o \<Rightarrow> 'o" where
  "called eff w as x = fold (\<lambda>a. eff (al_callback (alarms w a)) (al_context (alarms w a))) as x"

definition al_due :: "'a clock_state_scheme \<Rightarrow> u32 \<Rightarrow> bool" where
  "al_due w a \<longleftrightarrow> al_time (alarms w a) \<le> nticks w"

definition al_period :: "'a alarm_run \<Rightarrow> 'a clock_state_scheme \<Rightarrow> u32 \<Rightarrow> u32 \<Rightarrow> bool" where
  "al_period run w a n \<longleftrightarrow> (\<forall>v. fst (run (al_callback (alarms w a)) (al_context (alarms w a)) v) = n)"

lemma upd_alarm_simps [simp]:
  "alarms (upd_alarm a f w) b = (if b = a then f (alarms w a) else alarms w b)"
  "alarm_links (upd_alarm a f w) = alarm_links w" "nticks (upd_alarm a f w) = nticks w"
  "tick_rate (upd_alarm a f w) = tick_rate w"
  by (simp_all add: upd_alarm_def)

lemma alarm_stop_eq: "alt_alarm_stop a w = w\<lparr>alarm_links := alt_llist_remove a (alarm_links w)\<rparr>"
proof -
  have "alt_irq_enable_all (mstatus w)
      ((snd (alt_irq_disable_all w))\<lparr>alarm_links := alt_llist_remove a (alarm_links w)\<rparr>)
      = w\<lparr>alarm_links := alt_llist_remove a (alarm_links w)\<rparr>"
    by (cases w) (simp add: alt_irq_disable_all_def alt_irq_enable_all_def mstatus_restored Let_def)
  then show ?thesis by (simp add: alt_alarm_stop_def alt_irq_disable_all_def Let_def)
qed

definition al_keep :: "(u32 \<Rightarrow> u32) \<Rightarrow> 'a clock_state_scheme \<Rightarrow> u32 \<Rightarrow> bool" where
  "al_keep p w a \<longleftrightarrow> \<not> (al_due w a \<and> p a = 0)"

definition al_next :: "(u32 \<Rightarrow> u32) \<Rightarrow> 'a clock_state_scheme \<Rightarrow> u32 \<Rightarrow> u64" where
  "al_next p w a = (if al_due w a then al_time (alarms w a) + ucast (p a) else al_time (alarms w a))"

lemma called_simps [simp]:
  "called eff w [] x = x"
  "called eff w (a # as) x = called eff w as (eff (al_callback (alarms w a)) (al_context (alarms w a)) x)"
  "called eff w (as @ bs) x = called eff w bs (called eff w as x)"
  by (simp_all add: called_def)

lemma called_cong:
  "(\<And>a. a \<in> set as \<Longrightarrow> al_callback (alarms v a) = al_callback (alarms w a) \<and> al_context (alarms v a) = al_context (alarms w a))
    \<Longrightarrow> called eff v as x = called eff w as x"
  by (induction as arbitrary: x) simp_all

lemma outside_clockD:
  assumes "outside_clock obs"
  shows "obs (alt_alarm_stop a w) = obs w" "obs (upd_alarm a f w) = obs w" "obs (w\<lparr>nticks := n\<rparr>) = obs w"
  using assms by (simp_all add: outside_clock_def alarm_stop_eq upd_alarm_def)

lemma tick_walk_ring:
  assumes "quiet_callbacks run" "outside_clock obs" "callback_effect obs eff run"
    and "ring_list (alarm_links w) ALT_ALARM_LIST (dn @ rest)" "\<forall>a\<in>set rest. al_period run w a (p a)"
  shows "\<exists>w'. tick_walk run (hd (rest @ [ALT_ALARM_LIST])) w = Some w'
    \<and> ring_list (alarm_links w') ALT_ALARM_LIST (dn @ filter (al_keep p w) rest)
    \<and> nticks w' = nticks w \<and> tick_rate w' = tick_rate w
    \<and> (\<forall>a. al_time (alarms w' a) = (if a \<in> set rest then al_next p w a else al_time (alarms w a)))
    \<and> (\<forall>a. al_callback (alarms w' a) = al_callback (alarms w a) \<and> al_context (alarms w' a) = al_context (alarms w a))
    \<and> obs w' = called eff w (filter (al_due w) rest) (obs w)"
  using assms(4,5)
proof (induction rest arbitrary: dn w)
  case Nil
  then show ?case by (subst tick_walk.simps) simp
next
  case (Cons x rest)
  let ?L = ALT_ALARM_LIST
  have d: "distinct (?L # dn @ x # rest)" and c: "chain (alarm_links w) ?L (dn @ x # rest) ?L"
    using Cons.prems(1) by (simp_all add: ring_list_def)
  then have xL: "x \<noteq> ?L" and nx: "ln_next (alarm_links w x) = hd (rest @ [?L])"
    using chain_first[of "alarm_links w" x rest ?L] by (auto simp: chain_append)
  show ?case
  proof (cases "al_due w x")
    case False
    then have st: "tick_walk run x w = tick_walk run (hd (rest @ [?L])) w"
      using xL nx by (subst tick_walk.simps) (simp add: al_due_def)
    show ?thesis using Cons.IH[of w "dn @ [x]"] Cons.prems st False d
      by (auto simp: al_keep_def al_next_def)
  next
    case True
    obtain n w1 where r: "run (al_callback (alarms w x)) (al_context (alarms w x)) w = (n, w1)" by fastforce
    have n: "n = p x" using Cons.prems(2) r by (auto simp: al_period_def dest: spec[of _ w])
    have q: "alarm_links w1 = alarm_links w" "alarms w1 = alarms w" "nticks w1 = nticks w" "tick_rate w1 = tick_rate w"
      using assms(1) r unfolding quiet_callbacks_def Let_def by (metis snd_conv)+
    define w2 where "w2 = (if n = 0 then alt_alarm_stop x w1 else upd_alarm x (\<lambda>r. r\<lparr>al_time := al_time r + ucast n\<rparr>) w1)"
    have st: "tick_walk run x w = tick_walk run (hd (rest @ [?L])) w2"
      using xL nx True r by (subst tick_walk.simps) (simp add: al_due_def w2_def)
    have keep: "al_keep p w x = (n \<noteq> 0)" using True n by (simp add: al_keep_def)
    let ?dn = "if n = 0 then dn else dn @ [x]"
    have ring: "ring_list (alarm_links w2) ?L (?dn @ rest)"
      using Cons.prems(1) remove_ring[of "alarm_links w" ?L dn x rest]
      by (auto simp: w2_def alarm_stop_eq q)
    have w2: "nticks w2 = nticks w" "tick_rate w2 = tick_rate w"
      "\<And>a. a \<noteq> x \<Longrightarrow> alarms w2 a = alarms w a"
      "al_time (alarms w2 x) = al_time (alarms w x) + ucast n"
      "\<And>a. al_callback (alarms w2 a) = al_callback (alarms w a)" "\<And>a. al_context (alarms w2 a) = al_context (alarms w a)"
      using q by (auto simp: w2_def alarm_stop_eq)
    have nx': "a \<noteq> x" if "a \<in> set rest" for a using that d by auto
    have same: "al_due w2 a = al_due w a" "al_keep p w2 a = al_keep p w a" "al_next p w2 a = al_next p w a"
      if "a \<in> set rest" for a
      using w2 nx'[OF that] by (simp_all add: al_due_def al_keep_def al_next_def)
    have per: "\<forall>a\<in>set rest. al_period run w2 a (p a)" using Cons.prems(2) w2 by (simp add: al_period_def)
    have f: "filter (al_keep p w2) rest = filter (al_keep p w) rest" "filter (al_due w2) rest = filter (al_due w) rest"
      using same by (auto intro: filter_cong)
    have "obs w1 = eff (al_callback (alarms w x)) (al_context (alarms w x)) (obs w)"
      using assms(3) r unfolding callback_effect_def by (metis snd_conv)
    then have o: "obs w2 = eff (al_callback (alarms w x)) (al_context (alarms w x)) (obs w)"
      by (simp add: w2_def outside_clockD[OF assms(2)])
    have cl: "called eff w2 as y = called eff w as y" for as y by (rule called_cong) (simp add: w2)
    obtain w' where w': "tick_walk run (hd (rest @ [?L])) w2 = Some w'"
      "ring_list (alarm_links w') ?L (?dn @ filter (al_keep p w) rest)"
      "nticks w' = nticks w2" "tick_rate w' = tick_rate w2"
      "\<forall>a. al_time (alarms w' a) = (if a \<in> set rest then al_next p w2 a else al_time (alarms w2 a))"
      "\<forall>a. al_callback (alarms w' a) = al_callback (alarms w2 a) \<and> al_context (alarms w' a) = al_context (alarms w2 a)"
      "obs w' = called eff w (filter (al_due w) rest) (obs w2)"
      using Cons.IH[OF ring per] unfolding f cl by auto
    have "al_time (alarms w' a) = (if a \<in> set (x # rest) then al_next p w a else al_time (alarms w a))" for a
      using w'(5) w2 same nx' nx'[of x] True n by (cases "a = x") (auto simp: al_next_def)
    moreover have "obs w' = called eff w (filter (al_due w) (x # rest)) (obs w)" using w'(7) o True by simp
    ultimately show ?thesis using w' st keep w2 by (intro exI[of _ w']) auto
  qed
qed

lemma tick_result:
  assumes "quiet_callbacks run" "outside_clock obs" "callback_effect obs eff run"
    and "ring_list (alarm_links w) ALT_ALARM_LIST xs" "\<forall>a\<in>set xs. al_period run w a (p a)"
  shows "\<exists>w'. alt_tick run w = Some w' \<and> nticks w' = nticks w + 1
    \<and> ring_list (alarm_links w') ALT_ALARM_LIST
        (filter (\<lambda>a. \<not> (al_time (alarms w a) \<le> nticks w + 1 \<and> p a = 0)) xs)
    \<and> (\<forall>a. al_time (alarms w' a) =
         (if a \<in> set xs \<and> al_time (alarms w a) \<le> nticks w + 1 then al_time (alarms w a) + ucast (p a)
          else al_time (alarms w a)))
    \<and> obs w' = called eff w (filter (\<lambda>a. al_time (alarms w a) \<le> nticks w + 1) xs) (obs w)
    \<and> (\<forall>a. al_callback (alarms w' a) = al_callback (alarms w a) \<and> al_context (alarms w' a) = al_context (alarms w a))"
proof -
  let ?w = "w\<lparr>nticks := nticks w + 1\<rparr>"
  have "ln_next (alarm_links w ALT_ALARM_LIST) = hd (xs @ [ALT_ALARM_LIST])"
    using assms(4) by (rule ring_list_next)
  moreover have "\<forall>a\<in>set xs. al_period run ?w a (p a)" using assms(5) by (simp add: al_period_def)
  ultimately obtain w' where w': "alt_tick run w = Some w'"
    "ring_list (alarm_links w') ALT_ALARM_LIST (filter (al_keep p ?w) xs)" "nticks w' = nticks w + 1"
    "\<forall>a. al_time (alarms w' a) = (if a \<in> set xs then al_next p ?w a else al_time (alarms w a))"
    "\<forall>a. al_callback (alarms w' a) = al_callback (alarms w a) \<and> al_context (alarms w' a) = al_context (alarms w a)"
    "obs w' = called eff ?w (filter (al_due ?w) xs) (obs ?w)"
    using tick_walk_ring[OF assms(1-3), of ?w "[]" xs p] assms(4) by (auto simp: alt_tick_def)
  moreover have "al_keep p ?w = (\<lambda>a. \<not> (al_time (alarms w a) \<le> nticks w + 1 \<and> p a = 0))"
    "al_due ?w = (\<lambda>a. al_time (alarms w a) \<le> nticks w + 1)"
    by (simp_all add: fun_eq_iff al_keep_def al_due_def)
  moreover have "called eff ?w as x = called eff w as x" for as x by (rule called_cong) simp
  ultimately show ?thesis by (intro exI[of _ w']) (auto simp: al_next_def al_due_def outside_clockD[OF assms(2)])
qed

text \<open>
  C24: A tick adds one to the tick count and goes once through the alarms: it comes to an end, calls the callbacks of exactly the
  alarms that are due, each once and in the order of the list, moves the time of each of them on by what its
  callback returned, takes those whose callback returned 0 off the list, and leaves every other alarm and the
  order of the list as they are. What the callbacks do is any effect \<open>eff\<close> on what lies outside of the clock.
\<close>

theorem tick_serves_due_alarms:
  assumes "quiet_callbacks run" "outside_clock obs" "callback_effect obs eff run"
    and "ring_list (alarm_links w) ALT_ALARM_LIST xs" "\<forall>a\<in>set xs. al_period run w a (p a)"
  shows "\<exists>w'. alt_tick run w = Some w' \<and> nticks w' = nticks w + 1
    \<and> obs w' = called eff w (filter (\<lambda>a. al_time (alarms w a) \<le> nticks w + 1) xs) (obs w)
    \<and> ring_list (alarm_links w') ALT_ALARM_LIST
        (filter (\<lambda>a. \<not> (al_time (alarms w a) \<le> nticks w + 1 \<and> p a = 0)) xs)
    \<and> (\<forall>a. al_time (alarms w' a) =
         (if a \<in> set xs \<and> al_time (alarms w a) \<le> nticks w + 1 then al_time (alarms w a) + ucast (p a)
          else al_time (alarms w a)))"
  using tick_result[OF assms] by blast

text \<open>
  A clock with a log of the calls, which runs, with one alarm that was started for 2 ticks and comes back
  every 1000.
\<close>

record logged_clock = clock_state +
  calls :: "(u32 \<times> u32) list"

definition boot_logged :: logged_clock where
  "boot_logged = clock_state.extend boot_clock (logged_clock.fields [])"

definition running_clock :: logged_clock where
  "running_clock = snd (alt_alarm_start 0x300 2 0x800 0 (snd (alt_sysclk_init 1000 boot_logged)))"

definition every_1000 :: "u32 \<Rightarrow> u32 \<Rightarrow> logged_clock \<Rightarrow> u32 \<times> logged_clock" where
  "every_1000 f c w = (1000, w\<lparr>calls := calls w @ [(f, c)]\<rparr>)"

text \<open>The code and context by which a log knows an alarm.\<close>

definition al_code :: "'a clock_state_scheme \<Rightarrow> u32 \<Rightarrow> u32 \<times> u32" where
  "al_code w a = (al_callback (alarms w a), al_context (alarms w a))"

definition logs :: "u32 \<Rightarrow> u32 \<Rightarrow> (u32 \<times> u32) list \<Rightarrow> (u32 \<times> u32) list" where
  "logs f c l = l @ [(f, c)]"

lemma called_logs: "called logs w as l = l @ map (al_code w) as"
  by (induction as arbitrary: l) (simp_all add: logs_def al_code_def)

lemma every_1000_quiet: "quiet_callbacks every_1000" "al_period every_1000 w a 1000" "outside_clock calls"
  "callback_effect calls logs every_1000"
  by (simp_all add: quiet_callbacks_def every_1000_def al_period_def outside_clock_def callback_effect_def logs_def)

lemma boot_logged_simps: "tick_rate (snd (alt_sysclk_init 1000 boot_logged)) \<noteq> 0"
  "ring_list (alarm_links (snd (alt_sysclk_init 1000 boot_logged))) ALT_ALARM_LIST []"
  "nticks (snd (alt_sysclk_init 1000 boot_logged)) = 0" "calls (snd (alt_sysclk_init 1000 boot_logged)) = []"
  by (simp_all add: alt_sysclk_init_def boot_logged_def boot_clock_def irq_state.extend_def clock_state.extend_def
      logged_clock.fields_def ring_list_empty)

lemma alarm_start_eq:
  assumes "tick_rate w \<noteq> 0" "a \<noteq> 0"
  shows "\<exists>w'. alt_alarm_start a n f c w = (0, w')
    \<and> alarm_links w' = alt_llist_insert ALT_ALARM_LIST a (alarm_links w) \<and> nticks w' = nticks w
    \<and> alarms w' = (alarms w)(a := \<lparr>al_time = ucast n + nticks w + 1, al_callback = f, al_context = c\<rparr>)
    \<and> mstatus w' = mstatus w \<and> tick_rate w' = tick_rate w \<and> io w' = io w"
  using assms
  by (simp add: alt_alarm_start_def alt_ticks_per_second_def alt_irq_disable_all_def alt_irq_enable_all_def
      alt_nticks_def upd_alarm_def mstatus_restored Let_def)
     (cases "alarms w a", simp)

lemma alarm_start_outside: "outside_clock obs \<Longrightarrow> obs (snd (alt_alarm_start a n f c w)) = obs w"
proof -
  assume o: "outside_clock obs"
  have "snd (alt_alarm_start a n f c w) = w \<or> (\<exists>al l. snd (alt_alarm_start a n f c w) = w\<lparr>alarms := al, alarm_links := l\<rparr>)"
    by (cases w) (simp add: alt_alarm_start_def alt_irq_disable_all_def alt_irq_enable_all_def upd_alarm_def mstatus_restored Let_def)
  then show ?thesis using o by (auto simp: outside_clock_def)
qed

lemma running_clock_start:
  "alt_alarm_start 0x300 2 0x800 0 (snd (alt_sysclk_init 1000 boot_logged)) = (0, running_clock)"
  using alarm_start_eq[OF boot_logged_simps(1), of "0x300" 2 "0x800" 0] by (auto simp: running_clock_def)

lemma running_clock_ring: "ring_list (alarm_links running_clock) ALT_ALARM_LIST [0x300]"
  using alarm_start_eq[OF boot_logged_simps(1), of "0x300" 2 "0x800" 0] insert_ring[OF boot_logged_simps(2), of "0x300"]
  by (auto simp: running_clock_def ALT_ALARM_LIST_def)

lemma running_clock_simps: "tick_rate running_clock \<noteq> 0" "nticks running_clock = 0" "calls running_clock = []"
  "alarms running_clock 0x300 = \<lparr>al_time = 3, al_callback = 0x800, al_context = 0\<rparr>"
  using alarm_start_eq[OF boot_logged_simps(1), of "0x300" 2 "0x800" 0] boot_logged_simps
    alarm_start_outside[OF every_1000_quiet(3), of "0x300" 2 "0x800" 0 "snd (alt_sysclk_init 1000 boot_logged)"]
  by (auto simp: running_clock_def)

text \<open>A second alarm, and the third tick: the first is due, the second is not.\<close>

definition two_alarms :: logged_clock where
  "two_alarms = (snd (alt_alarm_start 0x400 9 0x900 0 running_clock))\<lparr>nticks := 2\<rparr>"

lemma two_alarms_simps: "ring_list (alarm_links two_alarms) ALT_ALARM_LIST [0x400, 0x300]" "nticks two_alarms = 2"
  "calls two_alarms = []" "alarms two_alarms 0x400 = \<lparr>al_time = 10, al_callback = 0x900, al_context = 0\<rparr>"
  "alarms two_alarms 0x300 = \<lparr>al_time = 3, al_callback = 0x800, al_context = 0\<rparr>"
proof -
  let ?w = "snd (alt_alarm_start 0x400 9 0x900 0 running_clock)"
  have w: "alarm_links ?w = alt_llist_insert ALT_ALARM_LIST 0x400 (alarm_links running_clock)"
    "alarms ?w = (alarms running_clock)(0x400 := \<lparr>al_time = 10, al_callback = 0x900, al_context = 0\<rparr>)" "calls ?w = []"
    using alarm_start_eq[OF running_clock_simps(1), of "0x400" 9 "0x900" 0] running_clock_simps
      alarm_start_outside[OF every_1000_quiet(3), of "0x400" 9 "0x900" 0 running_clock] by auto
  have "ring_list (alarm_links ?w) ALT_ALARM_LIST [0x400, 0x300]"
    unfolding w(1) by (rule insert_ring[OF running_clock_ring]) (simp add: ALT_ALARM_LIST_def)
  then show "ring_list (alarm_links two_alarms) ALT_ALARM_LIST [0x400, 0x300]" "nticks two_alarms = 2"
    "calls two_alarms = []" "alarms two_alarms 0x400 = \<lparr>al_time = 10, al_callback = 0x900, al_context = 0\<rparr>"
    "alarms two_alarms 0x300 = \<lparr>al_time = 3, al_callback = 0x800, al_context = 0\<rparr>"
    using w running_clock_simps(4) by (simp_all add: two_alarms_def)
qed

theorem tick_serves_due_alarms_witness:
  "\<exists>w'. alt_tick every_1000 two_alarms = Some w' \<and> calls w' = [(0x800, 0)]
     \<and> ring_list (alarm_links w') ALT_ALARM_LIST [0x400, 0x300] \<and> al_time (alarms w' 0x300) = 1003 \<and> al_time (alarms w' 0x400) = 10"
  using tick_serves_due_alarms[OF every_1000_quiet(1,3,4) two_alarms_simps(1), of "\<lambda>_. 1000"] every_1000_quiet(2)
  by (auto simp: two_alarms_simps logs_def)

section \<open>When an alarm fires\<close>

fun alt_ticks :: "'a alarm_run \<Rightarrow> nat \<Rightarrow> 'a clock_state_scheme \<Rightarrow> ('a clock_state_scheme) option" where
  "alt_ticks run 0 w = Some w"
| "alt_ticks run (Suc k) w = (case alt_ticks run k w of None \<Rightarrow> None | Some v \<Rightarrow> alt_tick run v)"

lemma unat_u64_add: "unat (x :: u64) + n < 2 ^ 64 \<Longrightarrow> unat (x + of_nat n) = unat x + n"
  by (simp add: unat_word_ariths(1) unat_of_nat)

lemma count_map_one:
  "distinct xs \<Longrightarrow> a \<in> set xs \<Longrightarrow> f a = y \<Longrightarrow> (\<And>b. b \<in> set xs \<Longrightarrow> b \<noteq> a \<Longrightarrow> f b \<noteq> y) \<Longrightarrow> count_list (map f xs) y = 1"
proof (induction xs)
  case (Cons x xs)
  show ?case
  proof (cases "x = a")
    case True
    then have "y \<notin> set (map f xs)" using Cons.prems(1,4) by fastforce
    then show ?thesis using True Cons.prems(3) by (simp add: count_list_0_iff)
  next
    case False
    then show ?thesis using Cons by auto
  qed
qed simp

lemma al_code_cong: "al_code v a = al_code w a \<Longrightarrow> al_period run v a n = al_period run w a n"
  by (simp add: al_code_def al_period_def)

lemma tick_log:
  assumes "quiet_callbacks run" "outside_clock obs" "callback_effect obs logs run"
    and "ring_list (alarm_links w) ALT_ALARM_LIST xs" "\<forall>a\<in>set xs. al_period run w a (p a)"
  shows "\<exists>w'. alt_tick run w = Some w' \<and> nticks w' = nticks w + 1
    \<and> ring_list (alarm_links w') ALT_ALARM_LIST (filter (\<lambda>a. \<not> (al_time (alarms w a) \<le> nticks w + 1 \<and> p a = 0)) xs)
    \<and> (\<forall>a. al_time (alarms w' a) = (if a \<in> set xs \<and> al_time (alarms w a) \<le> nticks w + 1 then al_time (alarms w a) + ucast (p a)
          else al_time (alarms w a)))
    \<and> obs w' = obs w @ map (al_code w) (filter (\<lambda>a. al_time (alarms w a) \<le> nticks w + 1) xs) \<and> al_code w' = al_code w"
proof -
  obtain w' where w': "alt_tick run w = Some w'" "nticks w' = nticks w + 1"
    "ring_list (alarm_links w') ALT_ALARM_LIST (filter (\<lambda>a. \<not> (al_time (alarms w a) \<le> nticks w + 1 \<and> p a = 0)) xs)"
    "\<forall>a. al_time (alarms w' a) = (if a \<in> set xs \<and> al_time (alarms w a) \<le> nticks w + 1 then al_time (alarms w a) + ucast (p a)
      else al_time (alarms w a))"
    "obs w' = obs w @ map (al_code w) (filter (\<lambda>a. al_time (alarms w a) \<le> nticks w + 1) xs)"
    "\<forall>a. al_callback (alarms w' a) = al_callback (alarms w a) \<and> al_context (alarms w' a) = al_context (alarms w a)"
    using tick_result[OF assms] unfolding called_logs by (elim exE conjE) (rule that)
  then have "al_code w' = al_code w" by (simp add: fun_eq_iff al_code_def)
  then show ?thesis using w' by (intro exI[of _ w'] conjI)
qed

lemma ticks_before:
  assumes "quiet_callbacks run" "outside_clock obs" "callback_effect obs logs run"
    and "ring_list (alarm_links w) ALT_ALARM_LIST xs" "\<forall>a\<in>set xs. al_period run w a (p a)" "a \<in> set xs" "k \<le> n"
    and "al_time (alarms w a) = nticks w + of_nat n + 1" "unat (nticks w) + n + 1 < 2 ^ 64"
    and "\<forall>b\<in>set xs. b \<noteq> a \<longrightarrow> al_code w b \<noteq> al_code w a"
  shows "\<exists>v ys. alt_ticks run k w = Some v \<and> ring_list (alarm_links v) ALT_ALARM_LIST ys \<and> a \<in> set ys
    \<and> set ys \<subseteq> set xs \<and> al_time (alarms v a) = al_time (alarms w a) \<and> nticks v = nticks w + of_nat k
    \<and> al_code v = al_code w \<and> count_list (obs v) (al_code w a) = count_list (obs w) (al_code w a)"
  using assms(7)
proof (induction k)
  case 0
  then show ?case using assms(4,6) by auto
next
  case (Suc k)
  then obtain v ys where v: "alt_ticks run k w = Some v" "ring_list (alarm_links v) ALT_ALARM_LIST ys" "a \<in> set ys"
    "set ys \<subseteq> set xs" "al_time (alarms v a) = al_time (alarms w a)" "nticks v = nticks w + of_nat k"
    "al_code v = al_code w" "count_list (obs v) (al_code w a) = count_list (obs w) (al_code w a)" by auto
  have per: "\<forall>b\<in>set ys. al_period run v b (p b)" using assms(5) v(4) al_code_cong[of v _ w] v(7) by auto
  have "unat (nticks w + of_nat (Suc k)) = unat (nticks w) + Suc k"
    using assms(9) Suc.prems by (intro unat_u64_add) simp
  moreover have "unat (nticks w + of_nat (Suc n)) = unat (nticks w) + Suc n"
    using assms(9) by (intro unat_u64_add) simp
  ultimately have "\<not> nticks w + of_nat (Suc n) \<le> nticks w + of_nat (Suc k)"
    using Suc.prems by (simp add: word_le_nat_alt del: of_nat_Suc)
  then have nd: "\<not> al_time (alarms v a) \<le> nticks v + 1" using v(5,6) assms(8) by (simp add: ac_simps)
  let ?due = "filter (\<lambda>b. al_time (alarms v b) \<le> nticks v + 1) ys"
  obtain u where u: "alt_tick run v = Some u" "nticks u = nticks v + 1"
    "ring_list (alarm_links u) ALT_ALARM_LIST (filter (\<lambda>b. \<not> (al_time (alarms v b) \<le> nticks v + 1 \<and> p b = 0)) ys)"
    "al_time (alarms u a) = al_time (alarms v a)" "obs u = obs v @ map (al_code v) ?due" "al_code u = al_code v"
    using tick_log[OF assms(1-3) v(2) per] nd by auto
  have "al_code w a \<notin> set (map (al_code v) ?due)" using nd v(4,7) assms(10) by auto
  then have "count_list (obs u) (al_code w a) = count_list (obs w) (al_code w a)" using u(5) v(8) by (simp add: count_list_0_iff)
  then show ?case using v u nd
    by (intro exI[of _ u] exI[of _ "filter (\<lambda>b. \<not> (al_time (alarms v b) \<le> nticks v + 1 \<and> p b = 0)) ys"])
       (auto simp: ac_simps)
qed

text \<open>
  C25: An alarm started for \<open>n\<close> ticks is called back for the first time at the tick \<open>n + 1\<close>, once, and not before, whatever
  other alarms do, and its next time is the period later that its callback returned. \<open>obs\<close> is a log that every callback writes
  its code and context to; no other alarm has those of this one.
\<close>

theorem alarm_fires_on_time:
  assumes "alt_alarm_start a n f c w = (0, w')" "quiet_callbacks run" "outside_clock obs" "callback_effect obs logs run"
    and "ring_list (alarm_links w) ALT_ALARM_LIST xs" "a \<notin> set (ALT_ALARM_LIST # xs)" "a \<noteq> 0" "tick_rate w \<noteq> 0"
    and "\<forall>b\<in>set (a # xs). al_period run w' b (p b)" "p a \<noteq> 0" "unat (nticks w) + unat n + 1 < 2 ^ 64"
    and "\<forall>b\<in>set xs. (al_callback (alarms w b), al_context (alarms w b)) \<noteq> (f, c)"
  shows "(\<forall>k\<le>unat n. \<exists>v. alt_ticks run k w' = Some v \<and> count_list (obs v) (f, c) = count_list (obs w) (f, c)
            \<and> al_time (alarms v a) = al_time (alarms w' a))
    \<and> (\<exists>v. alt_ticks run (unat n + 1) w' = Some v \<and> nticks v = nticks w + ucast n + 1
          \<and> count_list (obs v) (f, c) = count_list (obs w) (f, c) + 1 \<and> al_time (alarms v a) = nticks v + ucast (p a))"
proof -
  have w': "alarm_links w' = alt_llist_insert ALT_ALARM_LIST a (alarm_links w)" "nticks w' = nticks w"
    "al_time (alarms w' a) = ucast n + nticks w + 1" "al_code w' a = (f, c)" "\<And>b. b \<noteq> a \<Longrightarrow> al_code w' b = al_code w b"
    using alarm_start_eq[OF assms(8,7), of n f c] assms(1) by (auto simp: al_code_def)
  have ow: "obs w' = obs w" using alarm_start_outside[OF assms(3), of a n f c w] assms(1) by simp
  have r: "ring_list (alarm_links w') ALT_ALARM_LIST (a # xs)"
    unfolding w'(1) by (rule insert_ring) (use assms(5,6) in auto)
  have t: "al_time (alarms w' a) = nticks w' + of_nat (unat n) + 1" using w' by (simp add: ac_simps)
  have b: "unat (nticks w') + unat n + 1 < 2 ^ 64" using assms(11) w' by simp
  have m: "a \<in> set (a # xs)" by simp
  have ot: "\<forall>b\<in>set (a # xs). b \<noteq> a \<longrightarrow> al_code w' b \<noteq> al_code w' a"
    using assms(12) w'(4,5) by (auto simp: al_code_def)
  note bef = ticks_before[OF assms(2-4) r assms(9) m _ t b ot, unfolded w'(4) ow]
  have 1: "\<forall>k\<le>unat n. \<exists>v. alt_ticks run k w' = Some v \<and> count_list (obs v) (f, c) = count_list (obs w) (f, c)
      \<and> al_time (alarms v a) = al_time (alarms w' a)"
    using bef by blast
  obtain v ys where v: "alt_ticks run (unat n) w' = Some v" "ring_list (alarm_links v) ALT_ALARM_LIST ys" "a \<in> set ys"
    "set ys \<subseteq> set (a # xs)" "al_time (alarms v a) = al_time (alarms w' a)" "nticks v = nticks w' + of_nat (unat n)"
    "al_code v = al_code w'" "count_list (obs v) (f, c) = count_list (obs w) (f, c)" using bef[OF order_refl] by blast
  have per: "\<forall>b\<in>set ys. al_period run v b (p b)" using assms(9) v(4) al_code_cong[of v _ w'] v(7) by auto
  have due: "al_time (alarms v a) = nticks v + 1" using v t by simp
  let ?due = "filter (\<lambda>b. al_time (alarms v b) \<le> nticks v + 1) ys"
  obtain u where u: "alt_tick run v = Some u" "nticks u = nticks v + 1"
    "al_time (alarms u a) = al_time (alarms v a) + ucast (p a)" "obs u = obs v @ map (al_code v) ?due"
    using tick_log[OF assms(2-4) v(2) per] due v(3) by auto
  have "count_list (map (al_code v) ?due) (f, c) = 1"
    by (rule count_map_one[of _ a]) (use v due ot w'(4) in \<open>auto simp: ring_list_def\<close>)
  then have "count_list (obs u) (f, c) = count_list (obs w) (f, c) + 1" using u(4) v(8) by simp
  moreover have "alt_ticks run (unat n + 1) w' = Some u" "nticks u = nticks w + ucast n + 1"
    "al_time (alarms u a) = nticks u + ucast (p a)"
    using u v(1,6) w' due by (simp_all add: ac_simps)
  ultimately show ?thesis using 1 by blast
qed

theorem alarm_fires_on_time_witness:
  "(\<exists>v. alt_ticks every_1000 2 running_clock = Some v \<and> count_list (calls v) (0x800, 0) = 0)
   \<and> (\<exists>v. alt_ticks every_1000 3 running_clock = Some v \<and> count_list (calls v) (0x800, 0) = 1 \<and> al_time (alarms v 0x300) = 1003)"
  using alarm_fires_on_time[OF running_clock_start every_1000_quiet(1,3,4) boot_logged_simps(2), of "\<lambda>_. 1000"]
    every_1000_quiet(2) boot_logged_simps
  by (auto simp: ALT_ALARM_LIST_def dest: spec[of _ 2])

section \<open>A callback that stops the next alarm\<close>

lemma walk_self_loop:
  assumes "ln_next (alarm_links u b) = b" "b \<noteq> ALT_ALARM_LIST" "\<not> al_time (alarms u b) \<le> nticks u"
  shows "tick_walk run b u = None"
proof (rule ccontr)
  assume "tick_walk run b u \<noteq> None"
  then obtain r where "tick_walk run b u = Some r" by auto
  moreover have "v = u \<longrightarrow> c \<noteq> b" if "tick_walk run' c v = Some r'" for run' c v r'
    using that
    by (rule tick_walk.raw_induct[where P = "\<lambda>run c v r. v = u \<longrightarrow> c \<noteq> b", rotated])
       (use assms in \<open>auto simp: Let_def split: if_splits prod.splits\<close>)
  ultimately show False by blast
qed

text \<open>
  The tick remembers the element after the alarm it serves before it calls back. If the
  callback stops exactly that alarm, which is not due, the walk goes to an element that points to
  itself: the tick, and with it the timer interrupt, never ends.
\<close>

theorem stopping_next_alarm_hangs:
  assumes "ring_list (alarm_links w) ALT_ALARM_LIST (a # b # xs)"
    and "al_time (alarms w a) \<le> nticks w + 1" "\<not> al_time (alarms w b) \<le> nticks w + 1"
    and "\<forall>v. run (al_callback (alarms w a)) (al_context (alarms w a)) v = (n, alt_alarm_stop b v)"
  shows "alt_tick run w = None"
proof -
  let ?L = ALT_ALARM_LIST
  let ?w = "w\<lparr>nticks := nticks w + 1\<rparr>"
  have d: "a \<noteq> ?L" "b \<noteq> ?L" "a \<noteq> b" and l: "ln_next (alarm_links w ?L) = a" "ln_next (alarm_links w a) = b"
    "ln_prev (alarm_links w a) = ?L" "ln_prev (alarm_links w b) = a" "ln_next (alarm_links w b) = hd (xs @ [?L])"
    using assms(1) chain_first[of "alarm_links w" b xs ?L] by (auto simp: ring_list_def)
  have "hd (xs @ [?L]) \<noteq> a" "hd (xs @ [?L]) \<noteq> b" using assms(1) by (cases xs; auto simp: ring_list_def)+
  define u where "u = (if n = 0 then alt_alarm_stop a (alt_alarm_stop b ?w)
      else upd_alarm a (\<lambda>r. r\<lparr>al_time := al_time r + ucast n\<rparr>) (alt_alarm_stop b ?w))"
  have "alt_tick run w = tick_walk run b u"
    unfolding alt_tick_def Let_def l(1)
    by (subst tick_walk.simps) (use d l assms(2,4) in \<open>simp add: u_def\<close>)
  moreover have "ln_next (alarm_links u b) = b" "\<not> al_time (alarms u b) \<le> nticks u"
    using d l assms(3) \<open>hd (xs @ [?L]) \<noteq> a\<close> by (auto simp: u_def alarm_stop_eq remove_next remove_prev)
  ultimately show ?thesis using walk_self_loop[of u b run] d by simp
qed

theorem stopping_next_alarm_hangs_witness:
  "alt_tick (\<lambda>f c v. (0, alt_alarm_stop 0x300 v))
     (snd (alt_alarm_start 0x400 0 0x800 0 running_clock)) = None"
proof -
  let ?w = "snd (alt_alarm_start 0x400 0 0x800 0 running_clock)"
  have w: "alarm_links ?w = alt_llist_insert ALT_ALARM_LIST 0x400 (alarm_links running_clock)"
    "nticks ?w = 0" "al_time (alarms ?w 0x400) = 1" "al_time (alarms ?w 0x300) = 3"
    using alarm_start_eq[OF running_clock_simps(1), of "0x400" 0 "0x800" 0] running_clock_simps by auto
  have ring: "ring_list (alarm_links ?w) ALT_ALARM_LIST [0x400, 0x300]"
    unfolding w(1) by (rule insert_ring[OF running_clock_ring]) (simp add: ALT_ALARM_LIST_def)
  show ?thesis by (rule stopping_next_alarm_hangs[OF ring]) (simp_all add: w word_le_nat_alt)
qed

end
