(* ===== verification/Boot.thy ===== *)
theory Boot
  imports BoardFiles I2cIrq ClockProps
begin

text \<open>
  Starting the board (\<open>alt_sys_init.c\<close>, \<open>HAL/src/alt_main.c\<close>, \<open>alt_do_ctors.c\<close>, \<open>alt_do_dtors.c\<close>, the
  initialisation functions of the drivers and the macros that call them, \<open>intel_niosv_m.h\<close>,
  \<open>intel_niosv_m_irq.h\<close>): interrupts, then the I2C master, the JTAG UART and the system clock in the
  order of \<open>alt_sys_init\<close>, then the standard streams. No interrupt is taken while the board starts.
  Semaphores and event flags exist only under an operating system; without one
  \<open>ALT_SEM_CREATE\<close> is 0.
\<close>

section \<open>State\<close>

text \<open>
  The descriptors, the UART and the clock (\<open>bd\<close>), and the I2C master, which shares the interrupt state
  and the register history with them. Addresses of code and data are the linker's choice.
\<close>

record machine =
  bd :: board
  i2c_device :: i2c_dev
  i2c_irqs :: "u32 \<Rightarrow> irq_data"
  i2c_mem :: "u32 \<Rightarrow> u8"

definition ALT_AVALON_I2C_LIST :: u32 where "ALT_AVALON_I2C_LIST = 0x1060"

definition I2C_0_DEV :: u32 where "I2C_0_DEV = 0x2100"

definition JTAG_UART_0_STATE :: u32 where "JTAG_UART_0_STATE = 0x2028"

definition JTAG_UART_0_ALARM :: u32 where "JTAG_UART_0_ALARM = 0x2030"

definition JTAG_IRQ_ISR :: u32 where "JTAG_IRQ_ISR = 0x8100"

definition JTAG_TIMEOUT_CB :: u32 where "JTAG_TIMEOUT_CB = 0x8200"

definition I2C_IRQ_ISR :: u32 where "I2C_IRQ_ISR = 0x8300"

definition TIMER_SC_ISR :: u32 where "TIMER_SC_ISR = 0x8400"

definition JTAG_UART_0_IRQ :: u32 where "JTAG_UART_0_IRQ = 0"

definition JTAG_UART_0_IRQ_CONTROLLER :: u32 where "JTAG_UART_0_IRQ_CONTROLLER = 0"

definition on_world :: "(jtag_world \<Rightarrow> jtag_world) \<Rightarrow> machine \<Rightarrow> machine" where
  "on_world f m = m\<lparr>bd := (bd m)\<lparr>world := f (world (bd m))\<rparr>\<rparr>"

definition i2c_view :: "machine \<Rightarrow> i2c_world" where
  "i2c_view m = irq_state.extend (irq_state.truncate (world (bd m)))
     \<lparr>dev = i2c_device m, irqs = i2c_irqs m, mem = i2c_mem m\<rparr>"

definition on_i2c :: "(i2c_world \<Rightarrow> i2c_world) \<Rightarrow> machine \<Rightarrow> machine" where
  "on_i2c f m =
     (let v = f (i2c_view m)
      in (on_world (\<lambda>w. irq_state.extend (irq_state.truncate v) (irq_state.more w)) m)
           \<lparr>i2c_device := dev v, i2c_irqs := irqs v, i2c_mem := mem v\<rparr>)"

section \<open>The drivers' initialisation\<close>

text \<open>
  The registers of the I2C master. \<open>cfg0\<close> is what the uninitialised local variable holds; the two
  modes are assigned, and the counts by \<open>master_config_speed_set\<close>.
\<close>

definition i2c_init_regs :: "hw \<Rightarrow> i2c_config \<Rightarrow> i2c_world \<Rightarrow> i2c_world" where
  "i2c_init_regs hw cfg0 w =
     (let w1 = i2c_disable hw w;
          w2 = i2c_int_disable hw ISR_ALLINTS_MSK w1;
          w3 = i2c_int_clear ISR_ALL_CLEARABLE_INTS_MSK w2;
          w4 = i2c_tfr_cmd_fifo_threshold_set hw TFR_CMD_FIFO_NOT_FULL w3;
          w5 = i2c_rx_fifo_threshold_set hw RX_DATA_FIFO_FULL w4;
          cfg1 = cfg0\<lparr>speed_mode := SPEED_STANDARD, addr_mode := ADDR_MODE_7_BIT\<rparr>;
          (r, cfg2) = i2c_master_config_speed_set (dev w5) cfg1 SS_MAX_HZ
      in i2c_master_config_set hw cfg2 w5)"

definition alt_avalon_i2c_init :: "hw \<Rightarrow> i2c_config \<Rightarrow> machine \<Rightarrow> machine" where
  "alt_avalon_i2c_init hw cfg0 m =
     (let m1 = on_i2c (i2c_init_regs hw cfg0) m;
          m2 = m1\<lparr>bd := snd (alt_dev_llist_insert I2C_0_DEV ALT_AVALON_I2C_LIST (bd m1))\<rparr>
      in on_i2c (\<lambda>w. snd (alt_ic_isr_register (irq_controller_ID (dev w)) (irq_ID (dev w)) I2C_IRQ_ISR I2C_0_DEV 0 w)) m2)"

definition alt_avalon_i2c_open :: "string \<Rightarrow> machine \<Rightarrow> u32 option" where
  "alt_avalon_i2c_open name m = alt_find_dev name ALT_AVALON_I2C_LIST (bd m)"

definition altera_avalon_jtag_uart_init :: "u32 \<Rightarrow> u32 \<Rightarrow> jtag_world \<Rightarrow> jtag_world" where
  "altera_avalon_jtag_uart_init irq_controller_id irq w =
     (let w1 = sp_upd (\<lambda>s. s\<lparr>ju_irq_enable := JU_CONTROL_RE_MSK\<rparr>) w;
          w2 = iowr (ju_base (sp w1)) JU_CONTROL_REG (ju_irq_enable (sp w1)) w1;
          w3 = snd (alt_ic_isr_register irq_controller_id irq JTAG_IRQ_ISR JTAG_UART_0_STATE 0 w2);
          w4 = sp_upd (\<lambda>s. s\<lparr>ju_host_inactive := 0\<rparr>) w3;
          (rc, w5) = alt_alarm_start JTAG_UART_0_ALARM (alt_ticks_per_second w4) JTAG_TIMEOUT_CB JTAG_UART_0_STATE w4
      in if rc < 0 then sp_upd (\<lambda>s. s\<lparr>ju_timeout := INT_MAX\<rparr>) w5 else w5)"

definition ALTERA_AVALON_JTAG_UART_INIT :: "machine \<Rightarrow> machine" where
  "ALTERA_AVALON_JTAG_UART_INIT m =
     (let m1 = on_world (altera_avalon_jtag_uart_init JTAG_UART_0_IRQ_CONTROLLER JTAG_UART_0_IRQ) m
      in m1\<lparr>bd := snd (alt_dev_reg JTAG_UART_0_DEV (bd m1))\<rparr>)"

text \<open>The clock starts only for the processor whose name is that of the system clock.\<close>

definition INTEL_NIOSV_M_INIT :: "string \<Rightarrow> string \<Rightarrow> hw \<Rightarrow> u32 \<Rightarrow> jtag_world \<Rightarrow> jtag_world option" where
  "INTEL_NIOSV_M_INIT name sys_clk hw hart w =
     (if name = sys_clk then
        (let (r, w1) = alt_sysclk_init ALT_CPU_TICKS_PER_SEC w;
             w2 = alt_niosv_register_mtimecmp_interrupt_handle TIMER_SC_ISR w1
         in alt_niosv_mtimecmp_interrupt_init hw hart w2)
      else Some w)"

section \<open>The board\<close>

definition alt_irq_init :: "'a irq_state_scheme \<Rightarrow> 'a irq_state_scheme" where
  "alt_irq_init w = alt_irq_cpu_enable_interrupts (intel_niosv_irq_init w)"

definition alt_sys_init :: "hw \<Rightarrow> u32 \<Rightarrow> i2c_config \<Rightarrow> machine \<Rightarrow> machine option" where
  "alt_sys_init hw hart cfg0 m =
     (let m1 = alt_avalon_i2c_init hw cfg0 m;
          m2 = ALTERA_AVALON_JTAG_UART_INIT m1
      in map_option (\<lambda>w. on_world (\<lambda>_. w) m2)
           (INTEL_NIOSV_M_INIT ''INTEL_NIOSV_M_0'' ''INTEL_NIOSV_M_0'' hw hart (world (bd m2))))"

text \<open>Constructors run first to last, destructors last to first; \<open>run\<close> is the code at an address.\<close>

definition do_ctors :: "(u32 \<Rightarrow> 's \<Rightarrow> 's) \<Rightarrow> u32 list \<Rightarrow> 's \<Rightarrow> 's" where
  "do_ctors run init_array s = fold run init_array s"

definition do_dtors :: "(u32 \<Rightarrow> 's \<Rightarrow> 's) \<Rightarrow> u32 list \<Rightarrow> 's \<Rightarrow> 's" where
  "do_dtors run fini_array s = foldr run fini_array s"

text \<open>The board up to the call of \<open>main\<close>.\<close>

definition alt_start :: "hw \<Rightarrow> u32 \<Rightarrow> i2c_config \<Rightarrow> (u32 \<Rightarrow> machine \<Rightarrow> machine) \<Rightarrow> u32 list \<Rightarrow> machine \<Rightarrow> machine option" where
  "alt_start hw hart cfg0 run init_array m =
     (case alt_sys_init hw hart cfg0 (on_world alt_irq_init m) of
        None \<Rightarrow> None
      | Some m1 \<Rightarrow>
          (case alt_io_redirect board_ops ''/dev/jtag_uart_0'' ''/dev/jtag_uart_0'' ''/dev/jtag_uart_0'' (bd m1) of
             None \<Rightarrow> None
           | Some b \<Rightarrow> Some (do_ctors run init_array (m1\<lparr>bd := b\<rparr>))))"

text \<open>
  The whole of \<open>alt_main\<close>, with the application as the parameter \<open>app\<close>: standard output is closed and
  \<open>exit\<close> runs the destructors; the result is the exit code and the state in which \<open>_exit\<close> spins.
\<close>

definition alt_main ::
  "hw \<Rightarrow> u32 \<Rightarrow> i2c_config \<Rightarrow> (u32 \<Rightarrow> machine \<Rightarrow> machine) \<Rightarrow> u32 list \<Rightarrow> u32 list
   \<Rightarrow> (machine \<Rightarrow> (int \<times> machine) option) \<Rightarrow> machine \<Rightarrow> (int \<times> machine) option" where
  "alt_main hw hart cfg0 run init_array fini_array app m =
     (case alt_start hw hart cfg0 run init_array m of
        None \<Rightarrow> None
      | Some m1 \<Rightarrow>
          (case app m1 of
             None \<Rightarrow> None
           | Some (result, m2) \<Rightarrow>
               (case alt_close board_ops 1 (bd m2) of
                  None \<Rightarrow> None
                | Some (r, b) \<Rightarrow> Some (result, do_dtors run fini_array (m2\<lparr>bd := b\<rparr>)))))"

section \<open>The image\<close>

definition i2c_0 :: i2c_dev where
  "i2c_0 = \<lparr>i2c_base = 0x30000, irq_controller_ID = - 1, irq_ID = - 1, callback = NoCallback, callback_context = 0,
     control = 0, master_target_address = 0, cmd_fifo_size = 4, rx_fifo_size = 4, ip_freq_in_hz = 50000000,
     address_mode = 0\<rparr>"

definition image_links :: links where
  "image_links = ALT_LLIST_HEAD ALT_AVALON_I2C_LIST (boot_links (\<lambda>_. ALT_LLIST_ENTRY))"

definition jtag_uart_0 :: jtag_state where
  "jtag_uart_0 = \<lparr>ju_base = 0x300a0, ju_timeout = 10, ju_irq_enable = 0, ju_host_inactive = 0,
     rx_in = 0, rx_out = 0, tx_in = 0, tx_out = 0, rx_buf = (\<lambda>_. 0), tx_buf = (\<lambda>_. 0)\<rparr>"

definition image :: machine where
  "image = \<lparr>bd = \<lparr>links = image_links, dev_names = boot_hal_names, errno = 0, fd_list = boot_fd_list,
       alt_max_fd = - 1, sched = [], world = clock_state.extend boot_clock \<lparr>sp = jtag_uart_0\<rparr>\<rparr>,
     i2c_device = i2c_0, i2c_irqs = (\<lambda>_. \<lparr>irq_buffer = 0, irq_size = 0, irq_busy = 0\<rparr>), i2c_mem = (\<lambda>_. 0)\<rparr>"

end
