(* ===== verification/BootProps.thy ===== *)
theory BootProps
  imports Boot
begin

text \<open>
  What starting the board does: interrupts, handlers, the clock, the standard streams and the I2C device
  list are as an application expects them, but the UART is initialised before the clock, so that it
  gives up on its host alarm, and the I2C handler is stored before the handler table.
\<close>

section \<open>The drivers' initialisation\<close>

lemma init_regs_frame:
  "\<exists>t. i2c_init_regs hw cfg0 w = w\<lparr>io := t, dev := (dev w)\<lparr>address_mode := ADDR_MODE_7_BIT\<rparr>\<rparr>"
proof -
  have "i2c_init_regs hw cfg0 w = w\<lparr>io := io (i2c_init_regs hw cfg0 w), dev := (dev w)\<lparr>address_mode := ADDR_MODE_7_BIT\<rparr>\<rparr>"
    by (simp add: i2c_init_regs_def i2c_disable_def i2c_int_disable_def i2c_enabled_ints_get_def i2c_int_clear_def
        i2c_tfr_cmd_fifo_threshold_set_def i2c_rx_fifo_threshold_set_def i2c_master_config_set_def
        i2c_master_config_speed_set_def reg_eqs Let_def SS_MAX_HZ_def SS_MIN_HZ_def FS_MAX_HZ_def)
  then show ?thesis by blast
qed

lemma on_i2c_eq:
  assumes "f (i2c_view m) = (i2c_view m)\<lparr>io := t, alt_irq := a, dev := d\<rparr>"
  shows "on_i2c f m = m\<lparr>bd := (bd m)\<lparr>world := (world (bd m))\<lparr>io := t, alt_irq := a\<rparr>\<rparr>, i2c_device := d\<rparr>"
  using assms
  by (cases "world (bd m)")
     (simp add: on_i2c_def on_world_def i2c_view_def irq_state.extend_def irq_state.truncate_def)

lemma i2c_view_simps [simp]:
  "dev (i2c_view m) = i2c_device m" "io (i2c_view m) = io (world (bd m))"
  "alt_irq (i2c_view m) = alt_irq (world (bd m))"
  by (simp_all add: i2c_view_def irq_state.extend_def irq_state.truncate_def)

lemma isr_register_minus_one:
  "snd (alt_ic_isr_register ic (- 1) f c fl w) = w\<lparr>alt_irq := (alt_irq w)(- 1 := \<lparr>handler = f, hcontext = c\<rparr>)\<rparr>"
proof -
  have u: "uint (- 1 :: u32) = 4294967295" by (simp add: unsigned_minus_1_eq_mask mask_eq_exp_minus_1)
  have "(0x80000000 :: u32) \<le> - 1" by simp
  from isr_register_below[OF this, of ic f c fl w] show ?thesis by (simp add: u)
qed

lemma i2c_init_eq:
  assumes "dev_names (bd m) I2C_0_DEV \<noteq> None" "irq_ID (i2c_device m) = - 1"
  shows "\<exists>t. alt_avalon_i2c_init hw cfg0 m =
     m\<lparr>bd := (bd m)\<lparr>links := alt_llist_insert ALT_AVALON_I2C_LIST I2C_0_DEV (links (bd m)),
                    world := (world (bd m))\<lparr>io := t, alt_irq := (alt_irq (world (bd m)))
                      (- 1 := \<lparr>handler = I2C_IRQ_ISR, hcontext = I2C_0_DEV\<rparr>)\<rparr>\<rparr>,
       i2c_device := (i2c_device m)\<lparr>address_mode := ADDR_MODE_7_BIT\<rparr>\<rparr>"
proof -
  let ?d = "(i2c_device m)\<lparr>address_mode := ADDR_MODE_7_BIT\<rparr>"
  obtain t where t: "i2c_init_regs hw cfg0 (i2c_view m) = (i2c_view m)\<lparr>io := t, dev := ?d\<rparr>"
    using init_regs_frame[of hw cfg0 "i2c_view m"] by auto
  define m1 where "m1 = on_i2c (i2c_init_regs hw cfg0) m"
  have m1: "m1 = m\<lparr>bd := (bd m)\<lparr>world := (world (bd m))\<lparr>io := t\<rparr>\<rparr>, i2c_device := ?d\<rparr>"
    unfolding m1_def by (subst on_i2c_eq[where t = t and a = "alt_irq (world (bd m))" and d = ?d]) (simp_all add: t)
  define m2 where "m2 = m1\<lparr>bd := snd (alt_dev_llist_insert I2C_0_DEV ALT_AVALON_I2C_LIST (bd m1))\<rparr>"
  have m2: "m2 = m\<lparr>bd := (bd m)\<lparr>links := alt_llist_insert ALT_AVALON_I2C_LIST I2C_0_DEV (links (bd m)),
      world := (world (bd m))\<lparr>io := t\<rparr>\<rparr>, i2c_device := ?d\<rparr>"
    using assms(1) by (auto simp: m2_def m1 alt_dev_llist_insert_def I2C_0_DEV_def)
  have d: "irq_ID (dev (i2c_view m2)) = - 1" using assms(2) by (simp add: m2)
  have "alt_avalon_i2c_init hw cfg0 m
      = on_i2c (\<lambda>w. snd (alt_ic_isr_register (irq_controller_ID (dev w)) (irq_ID (dev w)) I2C_IRQ_ISR I2C_0_DEV 0 w)) m2"
    by (simp add: alt_avalon_i2c_init_def m1_def m2_def Let_def)
  also have "\<dots> = m2\<lparr>bd := (bd m2)\<lparr>world := (world (bd m2))\<lparr>io := io (world (bd m2)),
      alt_irq := (alt_irq (world (bd m2)))(- 1 := \<lparr>handler = I2C_IRQ_ISR, hcontext = I2C_0_DEV\<rparr>)\<rparr>\<rparr>, i2c_device := i2c_device m2\<rparr>"
    by (rule on_i2c_eq) (simp add: d isr_register_minus_one del: i2c_view_simps(1), simp add: i2c_view_def irq_state.extend_def irq_state.truncate_def)
  finally show ?thesis by (intro exI[of _ t]) (simp add: m2)
qed

text \<open>With a clock the UART gets its alarm; without one it gives up the timeout for good.\<close>

lemma jtag_init_regs:
  "snd (alt_ic_isr_register 0 0 f c 0 w) = w\<lparr>mie := mie w OR 0x10000,
     alt_irq := (alt_irq w)(0 := \<lparr>handler = f, hcontext = c\<rparr>)\<rparr>" if "f \<noteq> 0"
  using that
  by (cases w) (simp add: alt_ic_isr_register_def alt_iic_isr_register_def alt_ic_irq_enable_def ALT_REMAP_IRQ_NUM_def
      NIOSV_NIRQ_def alt_irq_disable_all_def alt_irq_enable_all_def mstatus_restored Let_def)

definition jtag_inited :: "jtag_state \<Rightarrow> jtag_state" where
  "jtag_inited s = s\<lparr>ju_irq_enable := JU_CONTROL_RE_MSK, ju_host_inactive := 0\<rparr>"

lemma jtag_init_eq:
  "\<exists>w'. altera_avalon_jtag_uart_init 0 0 w = w'
     \<and> mie w' = mie w OR 0x10000 \<and> mstatus w' = mstatus w \<and> timer_handler w' = timer_handler w
     \<and> alt_irq w' = (alt_irq w)(0 := \<lparr>handler = JTAG_IRQ_ISR, hcontext = JTAG_UART_0_STATE\<rparr>)
     \<and> nticks w' = nticks w \<and> tick_rate w' = tick_rate w
     \<and> (if tick_rate w = 0
        then sp w' = (jtag_inited (sp w))\<lparr>ju_timeout := INT_MAX\<rparr> \<and> alarm_links w' = alarm_links w \<and> alarms w' = alarms w
        else sp w' = jtag_inited (sp w)
          \<and> alarm_links w' = alt_llist_insert ALT_ALARM_LIST JTAG_UART_0_ALARM (alarm_links w)
          \<and> alarms w' = (alarms w)(JTAG_UART_0_ALARM := \<lparr>al_time = ucast (tick_rate w) + nticks w + 1,
              al_callback = JTAG_TIMEOUT_CB, al_context = JTAG_UART_0_STATE\<rparr>))"
  unfolding altera_avalon_jtag_uart_init_def
  by (simp add: jtag_init_regs JTAG_IRQ_ISR_def)
     (cases "alarms w JTAG_UART_0_ALARM", auto simp: sp_upd_def iowr_eq alt_alarm_start_def alt_ticks_per_second_def jtag_inited_def Let_def
       JTAG_UART_0_ALARM_def upd_alarm_def alt_irq_disable_all_def alt_irq_enable_all_def alt_nticks_def mstatus_restored ENOTSUP_def)

section \<open>The board\<close>

lemma mtimecmp_set_eq: "\<exists>t. alt_niosv_mtimecmp_set hart x w = w\<lparr>io := t\<rparr>"
  by (simp add: alt_niosv_mtimecmp_set_def iowr_eq Let_def) blast

lemma niosv_init_eq:
  assumes "running_counter hw" "tick_rate w = 0"
  shows "\<exists>t. INTEL_NIOSV_M_INIT n n hw hart w
    = Some (w\<lparr>io := t, mie := mie w OR 0x80, timer_handler := TIMER_SC_ISR, tick_rate := 1000\<rparr>)"
proof -
  let ?w = "w\<lparr>tick_rate := 1000, timer_handler := TIMER_SC_ISR\<rparr>"
  obtain v t where g: "alt_niosv_mtime_get hw ?w = Some (v, ?w\<lparr>io := t\<rparr>)"
    using mtime_get_ends[OF assms(1)] by blast
  obtain u where u: "alt_niosv_mtimecmp_set hart (v + ucast MTIMECMP_DELTA_AMT) (?w\<lparr>io := t\<rparr>) = ?w\<lparr>io := t\<rparr>\<lparr>io := u\<rparr>"
    using mtimecmp_set_eq by blast
  have "INTEL_NIOSV_M_INIT n n hw hart w = alt_niosv_mtimecmp_interrupt_init hw hart ?w"
    using assms(2) by (simp add: INTEL_NIOSV_M_INIT_def alt_sysclk_init_def ALT_CPU_TICKS_PER_SEC_def
        alt_niosv_register_mtimecmp_interrupt_handle_def Let_def)
  also have "\<dots> = Some (w\<lparr>io := u, mie := mie w OR 0x80, timer_handler := TIMER_SC_ISR, tick_rate := 1000\<rparr>)"
    using g u by (simp add: alt_niosv_mtimecmp_interrupt_init_def alt_niosv_enable_timer_interrupt_def NIOSV_TIMER_IRQ_def)
  finally show ?thesis by blast
qed

text \<open>The result of \<open>alt_sys_init\<close> on a machine without a clock whose devices have names.\<close>

definition sys_inited :: "machine \<Rightarrow> machine \<Rightarrow> bool" where
  "sys_inited m m' \<longleftrightarrow>
     bd m' = (bd m)\<lparr>links := alt_llist_insert ALT_DEV_LIST JTAG_UART_0_DEV
        (alt_llist_insert ALT_AVALON_I2C_LIST I2C_0_DEV (links (bd m))), world := world (bd m')\<rparr>
   \<and> mie (world (bd m')) = mie (world (bd m)) OR 0x10000 OR 0x80
   \<and> mstatus (world (bd m')) = mstatus (world (bd m)) \<and> timer_handler (world (bd m')) = TIMER_SC_ISR
   \<and> alt_irq (world (bd m')) = (alt_irq (world (bd m)))(- 1 := \<lparr>handler = I2C_IRQ_ISR, hcontext = I2C_0_DEV\<rparr>,
        0 := \<lparr>handler = JTAG_IRQ_ISR, hcontext = JTAG_UART_0_STATE\<rparr>)
   \<and> tick_rate (world (bd m')) = 1000 \<and> alarm_links (world (bd m')) = alarm_links (world (bd m))
   \<and> sp (world (bd m')) = (jtag_inited (sp (world (bd m))))\<lparr>ju_timeout := INT_MAX\<rparr>"

lemma sys_init_eq:
  assumes "running_counter hw" "dev_names (bd m) I2C_0_DEV \<noteq> None" "dev_names (bd m) JTAG_UART_0_DEV \<noteq> None"
    and "irq_ID (i2c_device m) = - 1" "tick_rate (world (bd m)) = 0"
  shows "\<exists>m'. alt_sys_init hw hart cfg0 m = Some m' \<and> sys_inited m m'"
proof -
  let ?i = "(alt_irq (world (bd m)))(- 1 := \<lparr>handler = I2C_IRQ_ISR, hcontext = I2C_0_DEV\<rparr>)"
  let ?d = "(i2c_device m)\<lparr>address_mode := ADDR_MODE_7_BIT\<rparr>"
  let ?l = "alt_llist_insert ALT_AVALON_I2C_LIST I2C_0_DEV (links (bd m))"
  obtain t where m1: "alt_avalon_i2c_init hw cfg0 m =
     m\<lparr>bd := (bd m)\<lparr>links := ?l, world := (world (bd m))\<lparr>io := t, alt_irq := ?i\<rparr>\<rparr>, i2c_device := ?d\<rparr>"
    using i2c_init_eq[OF assms(2,4)] by blast
  let ?w1 = "(world (bd m))\<lparr>io := t, alt_irq := ?i\<rparr>"
  define w2 where "w2 = altera_avalon_jtag_uart_init 0 0 ?w1"
  note w2 = jtag_init_eq[of ?w1, folded w2_def]
  have m2: "ALTERA_AVALON_JTAG_UART_INIT (alt_avalon_i2c_init hw cfg0 m)
      = m\<lparr>bd := (bd m)\<lparr>links := alt_llist_insert ALT_DEV_LIST JTAG_UART_0_DEV ?l, world := w2\<rparr>, i2c_device := ?d\<rparr>"
    using assms(3) by (auto simp: ALTERA_AVALON_JTAG_UART_INIT_def m1 on_world_def JTAG_UART_0_IRQ_CONTROLLER_def
        JTAG_UART_0_IRQ_def w2_def alt_dev_reg_def alt_dev_llist_insert_def JTAG_UART_0_DEV_def Let_def)
  obtain u where "INTEL_NIOSV_M_INIT ''INTEL_NIOSV_M_0'' ''INTEL_NIOSV_M_0'' hw hart w2
      = Some (w2\<lparr>io := u, mie := mie w2 OR 0x80, timer_handler := TIMER_SC_ISR, tick_rate := 1000\<rparr>)"
    using niosv_init_eq[OF assms(1), of w2] w2 assms(5) by auto
  then show ?thesis using w2 assms(5)
    by (simp add: alt_sys_init_def m2 on_world_def sys_inited_def Let_def or.assoc)
qed

text \<open>The lists after the drivers registered, starting from those of the image.\<close>

lemma image_rings:
  "ring_list image_links ALT_DEV_LIST [ALT_DEV_NULL]" "ring_list image_links ALT_FS_LIST []"
  "ring_list image_links ALT_AVALON_I2C_LIST []"
proof -
  have "ring_list image_links k ys = ring_list (boot_links (\<lambda>_. ALT_LLIST_ENTRY)) k ys"
    if "ALT_AVALON_I2C_LIST \<notin> set (k # ys)" for k ys
    unfolding image_links_def by (rule ring_list_cong) (use that in \<open>auto simp: ALT_LLIST_HEAD_def\<close>)
  from this[of ALT_DEV_LIST "[ALT_DEV_NULL]"] this[of ALT_FS_LIST "[]"]
  show "ring_list image_links ALT_DEV_LIST [ALT_DEV_NULL]" "ring_list image_links ALT_FS_LIST []"
    using boot_dev_list boot_fs_list by (auto simp: ALT_AVALON_I2C_LIST_def layout_defs)
  show "ring_list image_links ALT_AVALON_I2C_LIST []"
    unfolding image_links_def by (rule ring_list_empty)
qed

lemma started_rings:
  assumes "l1 = alt_llist_insert ALT_AVALON_I2C_LIST I2C_0_DEV image_links"
    and "l2 = alt_llist_insert ALT_DEV_LIST JTAG_UART_0_DEV l1"
  shows "ring_list l2 ALT_DEV_LIST [JTAG_UART_0_DEV, ALT_DEV_NULL]" "ring_list l2 ALT_FS_LIST []"
    "ring_list l2 ALT_AVALON_I2C_LIST [I2C_0_DEV]"
proof -
  note d = layout_defs ALT_AVALON_I2C_LIST_def I2C_0_DEV_def JTAG_UART_0_DEV_def
  have f1: "ring_list l1 ALT_DEV_LIST [ALT_DEV_NULL] = ring_list image_links ALT_DEV_LIST [ALT_DEV_NULL]"
    "ring_list l1 ALT_FS_LIST [] = ring_list image_links ALT_FS_LIST []"
    unfolding assms(1) by (rule insert_frame[OF image_rings(3)]; simp add: d)+
  have r1: "ring_list l1 ALT_AVALON_I2C_LIST [I2C_0_DEV]"
    unfolding assms(1) by (rule insert_ring[OF image_rings(3)]) (simp add: d)
  have r2: "ring_list l1 ALT_DEV_LIST [ALT_DEV_NULL]" "ring_list l1 ALT_FS_LIST []" using f1 image_rings by simp_all
  show "ring_list l2 ALT_DEV_LIST [JTAG_UART_0_DEV, ALT_DEV_NULL]"
    unfolding assms(2) by (rule insert_ring[OF r2(1)]) (simp add: d)
  have "ring_list l2 ALT_FS_LIST [] = ring_list l1 ALT_FS_LIST []"
    "ring_list l2 ALT_AVALON_I2C_LIST [I2C_0_DEV] = ring_list l1 ALT_AVALON_I2C_LIST [I2C_0_DEV]"
    unfolding assms(2) by (rule insert_frame[OF r2(1)]; simp add: d)+
  then show "ring_list l2 ALT_FS_LIST []" "ring_list l2 ALT_AVALON_I2C_LIST [I2C_0_DEV]" using r1 r2 by simp_all
qed

lemma open_keeps_world:
  assumes "alt_open board_ops n fl md s = Some (r, s')"
  shows "world s' = world s \<and> links s' = links s \<and> dev_names s' = dev_names s"
  using assms
  by (auto simp: alt_open_def open_dev_def alt_get_fd_def alt_file_locked_def open_finish_def alt_release_fd_def
      upd_fd_def Let_def split: option.splits if_splits)

lemma redirect_keeps_world:
  assumes "alt_io_redirect board_ops a b c s = Some s'"
  shows "world s' = world s \<and> links s' = links s \<and> dev_names s' = dev_names s"
proof -
  have k: "world t' = world t \<and> links t' = links t \<and> dev_names t' = dev_names t"
    if o: "alt_open_fd board_ops i n fl md t = Some t'" for i n fl md t t'
  proof -
    obtain old u where u: "alt_open board_ops n fl md t = Some (old, u)" using o by (auto simp: alt_open_fd_def)
    then have "world t' = world u \<and> links t' = links u \<and> dev_names t' = dev_names u"
      using o by (auto simp: alt_open_fd_def alt_release_fd_def upd_fd_def split: if_splits)
    then show ?thesis using open_keeps_world[OF u] by simp
  qed
  obtain s1 s2 where "alt_open_fd board_ops 1 a O_WRONLY 0x1FF s = Some s1" "alt_open_fd board_ops 0 b O_RDONLY 0x1FF s1 = Some s2"
    "alt_open_fd board_ops 2 c O_WRONLY 0x1FF s2 = Some s'"
    using assms unfolding alt_io_redirect_def by (metis (no_types, lifting) option.case_eq_if option.collapse option.distinct(1))
  then show ?thesis using k by metis
qed

lemma started_image:
  assumes "running_counter hw"
  shows "\<exists>m. alt_start hw hart cfg0 run init_array image = Some (do_ctors run init_array m)
    \<and> (\<forall>i. 0 \<le> i \<and> i \<le> 2 \<longrightarrow> fd_dev (fd_list (bd m) i) = JTAG_UART_0_DEV
          \<and> fd_flags (fd_list (bd m) i) = (if i = 0 then O_RDONLY else O_WRONLY) OR ALT_FD_DEV)
    \<and> ring_list (links (bd m)) ALT_AVALON_I2C_LIST [I2C_0_DEV] \<and> dev_names (bd m) = boot_hal_names
    \<and> (\<exists>m1. sys_inited (on_world alt_irq_init image) m1 \<and> world (bd m) = world (bd m1))"
proof -
  let ?m0 = "on_world alt_irq_init image" and ?n = "''/dev/jtag_uart_0''"
  note d = layout_defs ALT_AVALON_I2C_LIST_def I2C_0_DEV_def JTAG_UART_0_DEV_def
  have m0: "dev_names (bd ?m0) = boot_hal_names" "links (bd ?m0) = image_links" "irq_ID (i2c_device ?m0) = - 1"
    "tick_rate (world (bd ?m0)) = 0" "fd_list (bd ?m0) = boot_fd_list" "alt_max_fd (bd ?m0) = - 1" "errno (bd ?m0) = 0"
    by (simp_all add: on_world_def image_def i2c_0_def alt_irq_init_def alt_irq_cpu_enable_interrupts_def intel_niosv_irq_init_def
        clock_state.extend_def boot_clock_def irq_state.extend_def)
  obtain m1 where m1: "alt_sys_init hw hart cfg0 ?m0 = Some m1" "sys_inited ?m0 m1"
    using sys_init_eq[OF assms, of ?m0] m0 by (auto simp: boot_hal_names_def d)
  let ?b = "bd m1"
  have e: "?b = (bd ?m0)\<lparr>links := alt_llist_insert ALT_DEV_LIST JTAG_UART_0_DEV
      (alt_llist_insert ALT_AVALON_I2C_LIST I2C_0_DEV image_links), world := world ?b\<rparr>"
    using m1(2) m0(2) by (simp add: sys_inited_def)
  have lk: "links ?b = alt_llist_insert ALT_DEV_LIST JTAG_UART_0_DEV (alt_llist_insert ALT_AVALON_I2C_LIST I2C_0_DEV image_links)"
    by (subst e) simp
  have nm: "dev_names ?b = boot_hal_names" by (subst e) (simp add: m0)
  have fl: "fd_list ?b = boot_fd_list" by (subst e) (simp add: m0)
  have mx: "alt_max_fd ?b = - 1" by (subst e) (simp add: m0)
  note r = started_rings[OF refl lk]
  have fd: "fd_dev (fd_list ?b i) = (if 0 \<le> i \<and> i \<le> 2 then ALT_DEV_NULL else 0)" for i
    by (simp add: fl boot_fd_list_def)
  have find: "alt_find_dev ?n ALT_DEV_LIST ?b = Some JTAG_UART_0_DEV"
    by (subst find_dev_ring[OF r(1)]) (simp_all add: nm boot_hal_names_def d nul_free_def MAX_STRING_LENGTH_def)
  have "JTAG_UART_0_DEV \<noteq> 0" "lowest_free 3 ?b" "unlocked JTAG_UART_0_DEV ?b" "table_ok ?b"
    by (simp_all add: lowest_free_def unlocked_def table_ok_def fd mx, simp_all add: d fl boot_fd_list_def)
  from redirect_ok[OF find this] obtain b where b: "alt_io_redirect board_ops ?n ?n ?n ?b = Some b"
    "\<forall>i. 0 \<le> i \<and> i \<le> 2 \<longrightarrow> fd_dev (fd_list b i) = JTAG_UART_0_DEV
      \<and> fd_flags (fd_list b i) = (if i = 0 then O_RDONLY else O_WRONLY) OR ALT_FD_DEV" by blast
  have k: "world b = world ?b" "links b = links ?b" "dev_names b = dev_names ?b"
    using redirect_keeps_world[OF b(1)] by auto
  have "alt_start hw hart cfg0 run init_array image = Some (do_ctors run init_array (m1\<lparr>bd := b\<rparr>))"
    using m1(1) b(1) by (simp add: alt_start_def)
  then show ?thesis using b(2) k r(3) lk nm m1(2) by (intro exI[of _ "m1\<lparr>bd := b\<rparr>"]) auto
qed

lemma started_world:
  assumes "sys_inited (on_world alt_irq_init image) m" "w = world (bd m)"
  shows "mstatus w = 8" "mie w = 0x10080" "timer_handler w = TIMER_SC_ISR" "tick_rate w = 1000"
    "alt_irq w 0 = \<lparr>handler = JTAG_IRQ_ISR, hcontext = JTAG_UART_0_STATE\<rparr>"
    "alt_irq w (- 1) = \<lparr>handler = I2C_IRQ_ISR, hcontext = I2C_0_DEV\<rparr>"
    "alarm_links w = ALT_LLIST_HEAD ALT_ALARM_LIST (\<lambda>_. ALT_LLIST_ENTRY)"
    "sp w = jtag_uart_0\<lparr>ju_irq_enable := 1, ju_timeout := INT_MAX\<rparr>"
proof -
  have i: "mie (world (bd (on_world alt_irq_init image))) = 0" "mstatus (world (bd (on_world alt_irq_init image))) = 8"
    "alarm_links (world (bd (on_world alt_irq_init image))) = ALT_LLIST_HEAD ALT_ALARM_LIST (\<lambda>_. ALT_LLIST_ENTRY)"
    "sp (world (bd (on_world alt_irq_init image))) = jtag_uart_0"
    by (simp_all add: on_world_def image_def alt_irq_init_def alt_irq_cpu_enable_interrupts_def intel_niosv_irq_init_def
        clock_state.extend_def boot_clock_def irq_state.extend_def boot_irq_state_def NIOSV_MSTATUS_MIE_MASK_def)
  show "mstatus w = 8" "mie w = 0x10080" "timer_handler w = TIMER_SC_ISR" "tick_rate w = 1000"
    "alt_irq w 0 = \<lparr>handler = JTAG_IRQ_ISR, hcontext = JTAG_UART_0_STATE\<rparr>"
    "alt_irq w (- 1) = \<lparr>handler = I2C_IRQ_ISR, hcontext = I2C_0_DEV\<rparr>"
    "alarm_links w = ALT_LLIST_HEAD ALT_ALARM_LIST (\<lambda>_. ALT_LLIST_ENTRY)"
    using assms by (simp_all add: sys_inited_def i)
  have "sp w = (jtag_inited jtag_uart_0)\<lparr>ju_timeout := INT_MAX\<rparr>" using assms by (simp add: sys_inited_def i)
  then show "sp w = jtag_uart_0\<lparr>ju_irq_enable := 1, ju_timeout := INT_MAX\<rparr>"
    by (simp add: jtag_inited_def jtag_uart_0_def JU_CONTROL_RE_MSK_def)
qed

text \<open>
  C13: With a running timer, starting the board from its image ends, whatever the uninitialised stack
  holds, and leaves for the constructors and \<open>main\<close>: the three standard streams on the JTAG UART, open in
  their one direction and blocking, the
  I2C master found by its name, the clock at 1000 ticks per second with the timer's handler and
  interrupt, the UART's handler on line 0 with its interrupt, interrupts on, and both queues
  empty and well formed.
\<close>

theorem board_starts:
  assumes "running_counter hw"
  shows "\<exists>m. alt_start hw hart cfg0 run init_array image = Some (do_ctors run init_array m)
    \<and> (\<forall>i. 0 \<le> i \<and> i \<le> 2 \<longrightarrow> fd_dev (fd_list (bd m) i) = JTAG_UART_0_DEV
          \<and> fd_flags (fd_list (bd m) i) = (if i = 0 then O_RDONLY else O_WRONLY) OR ALT_FD_DEV)
    \<and> alt_avalon_i2c_open ''/dev/i2c_0'' m = Some I2C_0_DEV
    \<and> (let w = world (bd m) in mstatus w = 0x8 \<and> mie w = 0x10080 \<and> tick_rate w = 1000 \<and> timer_handler w = TIMER_SC_ISR
         \<and> alt_irq w 0 = \<lparr>handler = JTAG_IRQ_ISR, hcontext = JTAG_UART_0_STATE\<rparr>
         \<and> rx_ok (sp w) \<and> tx_ok (sp w) \<and> rxq (sp w) = [] \<and> txq (sp w) = [])"
proof -
  obtain m m1 where m: "alt_start hw hart cfg0 run init_array image = Some (do_ctors run init_array m)"
    "\<forall>i. 0 \<le> i \<and> i \<le> 2 \<longrightarrow> fd_dev (fd_list (bd m) i) = JTAG_UART_0_DEV
      \<and> fd_flags (fd_list (bd m) i) = (if i = 0 then O_RDONLY else O_WRONLY) OR ALT_FD_DEV"
    "ring_list (links (bd m)) ALT_AVALON_I2C_LIST [I2C_0_DEV]" "dev_names (bd m) = boot_hal_names"
    "sys_inited (on_world alt_irq_init image) m1" "world (bd m) = world (bd m1)"
    using started_image[OF assms, of hart cfg0 run init_array] by blast
  have "alt_avalon_i2c_open ''/dev/i2c_0'' m = Some I2C_0_DEV"
    unfolding alt_avalon_i2c_open_def
    by (subst find_dev_ring[OF m(3)])
       (simp_all add: m(4) boot_hal_names_def layout_defs I2C_0_DEV_def ALT_AVALON_I2C_LIST_def nul_free_def MAX_STRING_LENGTH_def)
  moreover have "rx_ok (sp (world (bd m)))" "tx_ok (sp (world (bd m)))" "rxq (sp (world (bd m))) = []" "txq (sp (world (bd m))) = []"
    by (simp_all add: started_world(8)[OF m(5,6)] jtag_uart_0_def rx_ok_def tx_ok_def rxq_def txq_def ring_def ring_count_def BUF_LEN_def)
  ultimately show ?thesis using m(1,2) started_world[OF m(5,6)] by (intro exI[of _ m]) (simp add: Let_def)
qed

lemma carry_hw_running: "running_counter carry_hw"
  unfolding running_counter_def
  by (intro exI[of _ carry_counter] conjI)
     (simp_all add: shows_counter_def carry_hw_def word_le_nat_alt unat_carry, simp_all add: min_def)

theorem board_starts_witness:
  "\<exists>m. alt_start carry_hw 0 (undefined :: i2c_config) (\<lambda>_ m. m) [] image = Some m \<and> fd_dev (fd_list (bd m) 1) = JTAG_UART_0_DEV"
  using board_starts[OF carry_hw_running, of 0 undefined "\<lambda>_ m. m" "[]"] by (auto simp: do_ctors_def)

section \<open>The host is never missed\<close>

lemma timeout_keeps:
  assumes "unat (ju_host_inactive (sp w)) \<le> 2147483645"
  shows "ju_timeout (sp (timeout_iter hw k w)) = ju_timeout (sp w) \<and> unat (ju_host_inactive (sp (timeout_iter hw k w))) \<le> 2147483645"
proof (induction k)
  case 0
  then show ?case using assms by (simp add: timeout_iter_def)
next
  case (Suc k)
  let ?v = "timeout_iter hw k w"
  have m: "INT_MAX - 2 = 2147483645" by (simp add: INT_MAX_def)
  have "unat (ju_host_inactive (sp ?v) + 1) \<le> 2147483645" if "ju_host_inactive (sp ?v) < 2147483645"
    using unat_Suc_bound[OF that] that by (simp add: word_less_nat_alt)
  then have "ju_timeout (sp (snd (altera_avalon_jtag_uart_timeout hw 1000 ?v))) = ju_timeout (sp ?v)
    \<and> unat (ju_host_inactive (sp (snd (altera_avalon_jtag_uart_timeout hw 1000 ?v)))) \<le> 2147483645"
    using Suc.IH by (simp add: altera_avalon_jtag_uart_timeout_def iord_eq iowr_eq sp_upd_def Let_def m)
  then show ?case using Suc.IH by (simp add: timeout_iter_def)
qed

text \<open>
  C14: The board initialises the UART before the clock, and so loses the UART's host detection: its
  alarm is refused, no alarm is registered, \<open>TIOCSTIMEOUT\<close> is refused, and the host counts as
  active for ever, so that a write or close with a full queue blocks even if nobody is connected.
  With the clock started first the timeout would stay as set. The I2C handler goes to the
  memory before the handler table.
\<close>

theorem boot_loses_host_detection:
  assumes "running_counter hw"
  shows "\<exists>m w. alt_start hw hart cfg0 run init_array image = Some (do_ctors run init_array m) \<and> w = world (bd m)
    \<and> ring_list (alarm_links w) ALT_ALARM_LIST []
    \<and> (\<forall>arg. altera_avalon_jtag_uart_ioctl TIOCSTIMEOUT arg (sp w) = (- ENOTTY, arg, sp w))
    \<and> (\<forall>hw' k. host_active (timeout_iter hw' k w))
    \<and> (\<forall>w. tick_rate w \<noteq> 0 \<longrightarrow> ju_timeout (sp (altera_avalon_jtag_uart_init 0 0 w)) = ju_timeout (sp w))
    \<and> alt_irq w (- 1) = \<lparr>handler = I2C_IRQ_ISR, hcontext = I2C_0_DEV\<rparr>"
proof -
  obtain m m1 where m: "alt_start hw hart cfg0 run init_array image = Some (do_ctors run init_array m)"
    "sys_inited (on_world alt_irq_init image) m1" "world (bd m) = world (bd m1)"
    using started_image[OF assms, of hart cfg0 run init_array] by blast
  note w = started_world[OF m(2,3)]
  have t: "ju_timeout (sp (world (bd m))) = INT_MAX" "ju_host_inactive (sp (world (bd m))) = 0"
    by (simp_all add: w(8) jtag_uart_0_def)
  have "host_active (timeout_iter hw' k (world (bd m)))" for hw' k
    using timeout_keeps[of "world (bd m)" hw' k] t by (simp add: host_active_def word_less_nat_alt INT_MAX_def)
  moreover have "ju_timeout (sp (altera_avalon_jtag_uart_init 0 0 w)) = ju_timeout (sp w)" if "tick_rate w \<noteq> 0" for w
    using jtag_init_eq[of w] that by (auto simp: jtag_inited_def)
  moreover have "altera_avalon_jtag_uart_ioctl TIOCSTIMEOUT arg (sp (world (bd m))) = (- ENOTTY, arg, sp (world (bd m)))" for arg
    by (simp add: altera_avalon_jtag_uart_ioctl_def t)
  ultimately show ?thesis using m(1) w(6,7) ring_list_empty by (intro exI[of _ m] exI[of _ "world (bd m)"]) auto
qed

theorem boot_loses_host_detection_witness:
  "\<exists>m. alt_start carry_hw 0 (undefined :: i2c_config) (\<lambda>_ m. m) [] image = Some m
     \<and> (\<forall>k. host_active (timeout_iter (\<lambda>t b r. 0) k (world (bd m))))"
  using boot_loses_host_detection[OF carry_hw_running, of 0 undefined "\<lambda>_ m. m" "[]"] by (auto simp: do_ctors_def)

end
