(* ===== verification/AddressMap.thy ===== *)
theory AddressMap
  imports Mmio
begin

text \<open>
  The addresses of the design's slaves as the generated \<open>system.h\<close> gives them, and the accesses that fall
  into one of them.
\<close>

section \<open>The slaves\<close>

definition ONCHIP_MEMORY2_0_BASE :: u32 where "ONCHIP_MEMORY2_0_BASE = 0x0"

definition ONCHIP_MEMORY2_0_SPAN :: u32 where "ONCHIP_MEMORY2_0_SPAN = 131072"

definition INTEL_NIOSV_M_0_DM_AGENT_BASE :: u32 where "INTEL_NIOSV_M_0_DM_AGENT_BASE = 0x20000"

definition INTEL_NIOSV_M_0_DM_AGENT_SPAN :: u32 where "INTEL_NIOSV_M_0_DM_AGENT_SPAN = 65536"

definition I2C_0_BASE :: u32 where "I2C_0_BASE = 0x30000"

definition I2C_0_SPAN :: u32 where "I2C_0_SPAN = 64"

definition INTEL_NIOSV_M_0_TIMER_SW_AGENT_BASE :: u32 where "INTEL_NIOSV_M_0_TIMER_SW_AGENT_BASE = 0x30040"

definition INTEL_NIOSV_M_0_TIMER_SW_AGENT_SPAN :: u32 where "INTEL_NIOSV_M_0_TIMER_SW_AGENT_SPAN = 64"

definition PIO_1_BASE :: u32 where "PIO_1_BASE = 0x30080"

definition PIO_1_SPAN :: u32 where "PIO_1_SPAN = 16"

definition PIO_0_BASE :: u32 where "PIO_0_BASE = 0x30090"

definition PIO_0_SPAN :: u32 where "PIO_0_SPAN = 16"

definition JTAG_UART_0_BASE :: u32 where "JTAG_UART_0_BASE = 0x300a0"

definition JTAG_UART_0_SPAN :: u32 where "JTAG_UART_0_SPAN = 8"

text \<open>Base and span of each, by address.\<close>

definition slaves :: "(u32 \<times> u32) list" where
  "slaves = [(ONCHIP_MEMORY2_0_BASE, ONCHIP_MEMORY2_0_SPAN), (INTEL_NIOSV_M_0_DM_AGENT_BASE, INTEL_NIOSV_M_0_DM_AGENT_SPAN),
     (I2C_0_BASE, I2C_0_SPAN), (INTEL_NIOSV_M_0_TIMER_SW_AGENT_BASE, INTEL_NIOSV_M_0_TIMER_SW_AGENT_SPAN),
     (PIO_1_BASE, PIO_1_SPAN), (PIO_0_BASE, PIO_0_SPAN), (JTAG_UART_0_BASE, JTAG_UART_0_SPAN)]"

lemmas slave_defs = slaves_def ONCHIP_MEMORY2_0_BASE_def ONCHIP_MEMORY2_0_SPAN_def INTEL_NIOSV_M_0_DM_AGENT_BASE_def
  INTEL_NIOSV_M_0_DM_AGENT_SPAN_def I2C_0_BASE_def I2C_0_SPAN_def INTEL_NIOSV_M_0_TIMER_SW_AGENT_BASE_def
  INTEL_NIOSV_M_0_TIMER_SW_AGENT_SPAN_def PIO_1_BASE_def PIO_1_SPAN_def PIO_0_BASE_def PIO_0_SPAN_def
  JTAG_UART_0_BASE_def JTAG_UART_0_SPAN_def

definition slave_has :: "u32 \<times> u32 \<Rightarrow> u32 \<Rightarrow> bool" where
  "slave_has s a \<longleftrightarrow> fst s \<le> a \<and> a - fst s < snd s"

lemma slaves_apart: "sorted_wrt (\<lambda>s t. unat (fst s) + unat (snd s) \<le> unat (fst t)) slaves"
  by (simp add: slave_defs)

lemma sorted_wrt_pick:
  "sorted_wrt P xs \<Longrightarrow> x \<in> set xs \<Longrightarrow> y \<in> set xs \<Longrightarrow> x = y \<or> P x y \<or> P y x"
  by (induction xs) auto

text \<open>No address belongs to two slaves.\<close>

lemma one_slave:
  assumes "s \<in> set slaves" "t \<in> set slaves" "slave_has s a" "slave_has t a"
  shows "s = t"
proof -
  have r: "unat (fst p) \<le> unat a \<and> unat a < unat (fst p) + unat (snd p)" if "slave_has p a" for p
    using that by (auto simp: slave_has_def word_le_nat_alt word_less_nat_alt unat_sub)
  show ?thesis using sorted_wrt_pick[OF slaves_apart assms(1,2)] r[OF assms(3)] r[OF assms(4)] by auto
qed

section \<open>Accesses\<close>

text \<open>A word access to a register of a base: all four bytes are in one slave, which is not memory.\<close>

definition word_mapped :: "u32 \<Rightarrow> u32 \<Rightarrow> bool" where
  "word_mapped base reg \<longleftrightarrow> list_ex (\<lambda>s. slave_has s (base + 4 * reg) \<and> slave_has s (base + 4 * reg + 3)) (tl slaves)"

text \<open>The registers of the I2C master, the timer, the UART and the lights.\<close>

lemma word_below: "(n :: u32) < of_nat k \<Longrightarrow> k < 2 ^ 32 \<Longrightarrow> n \<in> set (map of_nat [0..<k])"
proof -
  assume n: "n < of_nat k" "k < 2 ^ 32"
  then have "unat n < k" by (simp add: word_less_nat_alt unat_of_nat_32)
  moreover have "n = of_nat (unat n)" by simp
  ultimately show ?thesis by (metis atLeastLessThan_iff image_eqI le0 set_map set_upt)
qed

lemma slave_regs:
  "list_all (word_mapped I2C_0_BASE) (map of_nat [0..<16])" "list_all (word_mapped INTEL_NIOSV_M_0_TIMER_SW_AGENT_BASE) (map of_nat [0..<16])"
  "list_all (word_mapped PIO_0_BASE) (map of_nat [0..<4])" "list_all (word_mapped JTAG_UART_0_BASE) (map of_nat [0..<2])"
  by code_simp+

lemma i2c_mapped: "n < 16 \<Longrightarrow> word_mapped 0x30000 n"
  using word_below[of n 16] slave_regs(1) by (auto simp: list_all_iff I2C_0_BASE_def)

lemma timer_mapped: "n < 16 \<Longrightarrow> word_mapped 0x30040 n"
  using word_below[of n 16] slave_regs(2) by (auto simp: list_all_iff INTEL_NIOSV_M_0_TIMER_SW_AGENT_BASE_def)

lemma pio_mapped: "n < 4 \<Longrightarrow> word_mapped 0x30090 n"
  using word_below[of n 4] slave_regs(3) by (auto simp: list_all_iff PIO_0_BASE_def)

lemma uart_mapped: "n < 2 \<Longrightarrow> word_mapped 0x300a0 n"
  using word_below[of n 2] slave_regs(4) by (auto simp: list_all_iff JTAG_UART_0_BASE_def)

fun mapped :: "io_event \<Rightarrow> bool" where
  "mapped (Wr base reg v) = word_mapped base reg"
| "mapped (Rd base reg v) = word_mapped base reg"
| "mapped (BusySleep us) = True"

text \<open>A history that goes on with such accesses.\<close>

definition goes_mapped :: "trace \<Rightarrow> trace \<Rightarrow> bool" where
  "goes_mapped t t' \<longleftrightarrow> (\<exists>d. t' = d @ t \<and> list_all mapped d)"

lemma goes_mapped_refl: "goes_mapped t t"
  by (simp add: goes_mapped_def)

lemma goes_mapped_Cons: "mapped e \<Longrightarrow> goes_mapped t t' \<Longrightarrow> goes_mapped t (e # t')"
  unfolding goes_mapped_def by (metis append_Cons list.pred_inject(2))

lemma goes_mapped_append: "list_all mapped d \<Longrightarrow> goes_mapped t (d @ t)"
  by (auto simp: goes_mapped_def)

lemma goes_mapped_trans: "goes_mapped t t1 \<Longrightarrow> goes_mapped t1 t2 \<Longrightarrow> goes_mapped t t2"
  unfolding goes_mapped_def by (metis append.assoc list_all_append)

lemma goes_mapped_all: "goes_mapped t t' \<Longrightarrow> list_all mapped t \<Longrightarrow> list_all mapped t'"
  by (auto simp: goes_mapped_def)

end
