(* ===== verification/App.thy ===== *)
theory App
  imports BootProps AddressMap
begin

text \<open>
  The application (\<open>app/main.c\<close>, \<open>drivers/inc/altera_avalon_pio_regs.h\<close>): the ten lights on the parallel
  port go on and off for ever. \<open>main\<close> is a thread of single steps, in which the counting loops between the writes are
  counted through, and its call is the run of these steps to the \<open>return\<close>, which it never reaches: \<open>None\<close>.
\<close>

section \<open>The lights\<close>

definition IOWR_ALTERA_AVALON_PIO_DATA :: "u32 \<Rightarrow> u32 \<Rightarrow> 'a io_state_scheme \<Rightarrow> 'a io_state_scheme" where
  "IOWR_ALTERA_AVALON_PIO_DATA base data w = iowr base 0 data w"

text \<open>
  Where \<open>main\<close> is: at the test of \<open>while(1)\<close>, before a write to the port, at the test of the counting loop after it, or at the
  end. The second component is \<open>i\<close>.
\<close>

datatype app_pc = While | Port_on | Wait_on | Port_off | Wait_off | Returned

type_synonym app_thread = "app_pc \<times> u32"

fun app_step :: "app_thread \<times> 'a io_state_scheme \<Rightarrow> app_thread \<times> 'a io_state_scheme" where
  "app_step ((pc, i), w) =
     (case pc of
        While \<Rightarrow> ((if (1 :: u32) \<noteq> 0 then Port_on else Returned, i), w)
      | Port_on \<Rightarrow> ((Wait_on, 0), IOWR_ALTERA_AVALON_PIO_DATA PIO_0_BASE 0x3FF w)
      | Wait_on \<Rightarrow> if sint i < 1000000 then ((Wait_on, i + 1), w) else ((Port_off, i), w)
      | Port_off \<Rightarrow> ((Wait_off, 0), IOWR_ALTERA_AVALON_PIO_DATA PIO_0_BASE 0 w)
      | Wait_off \<Rightarrow> if sint i < 1000000 then ((Wait_off, i + 1), w) else ((While, i), w)
      | Returned \<Rightarrow> ((Returned, i), w))"

definition app_start :: app_thread where "app_start = (While, 0)"

text \<open>The same on the machine, and the call of \<open>main\<close>.\<close>

definition app_machine_step :: "app_thread \<times> machine \<Rightarrow> app_thread \<times> machine" where
  "app_machine_step c = (case app_step (fst c, world (bd (snd c))) of (t, w) \<Rightarrow> (t, on_world (\<lambda>_. w) (snd c)))"

partial_function (option) app_run :: "app_thread \<times> machine \<Rightarrow> (int \<times> machine) option" where
  "app_run c = (if fst (fst c) = Returned then Some (0, snd c) else app_run (app_machine_step c))"

definition app_main :: "machine \<Rightarrow> (int \<times> machine) option" where
  "app_main m = app_run (app_start, m)"

text \<open>One round of the loop.\<close>

definition app_round :: "'a io_state_scheme \<Rightarrow> 'a io_state_scheme" where
  "app_round w = IOWR_ALTERA_AVALON_PIO_DATA PIO_0_BASE 0 (IOWR_ALTERA_AVALON_PIO_DATA PIO_0_BASE 0x3FF w)"

section \<open>Its steps\<close>

lemma machine_steps:
  "(app_machine_step ^^ n) (t, m) = (case (app_step ^^ n) (t, world (bd m)) of (t', w) \<Rightarrow> (t', on_world (\<lambda>_. w) m))"
  by (induction n) (auto simp: app_machine_step_def on_world_def split: prod.splits)

text \<open>A call that returns comes to the \<open>return\<close> after some steps.\<close>

lemma app_run_returns: "app_run c = Some r \<Longrightarrow> \<exists>n. fst (fst ((app_machine_step ^^ n) c)) = Returned"
proof (rule app_run.raw_induct[where P = "\<lambda>c r. \<exists>n. fst (fst ((app_machine_step ^^ n) c)) = Returned"])
  fix run c r
  assume ih: "\<And>c r. run c = Some r \<Longrightarrow> \<exists>n. fst (fst ((app_machine_step ^^ n) c)) = Returned"
    and s: "(if fst (fst c) = Returned then Some (0, snd c) else run (app_machine_step c)) = Some r"
  show "\<exists>n. fst (fst ((app_machine_step ^^ n) c)) = Returned"
  proof (cases "fst (fst c) = Returned")
    case True
    then show ?thesis by (intro exI[of _ 0]) simp
  next
    case False
    then obtain n where "fst (fst ((app_machine_step ^^ n) (app_machine_step c))) = Returned"
      using ih[of "app_machine_step c" r] s by auto
    then show ?thesis by (intro exI[of _ "Suc n"]) (simp add: funpow_swap1)
  qed
qed

text \<open>What has been written after \<open>k\<close> writes: all lights and no lights in turn.\<close>

definition blink :: "nat \<Rightarrow> u32 list" where
  "blink k = map (\<lambda>j. if even j then 0x3FF else 0) [0..<k]"

lemma blink_Suc: "blink (Suc k) = blink k @ [if even k then 0x3FF else 0]"
  by (simp add: blink_def)

definition port_log :: "'a io_state_scheme \<Rightarrow> u32 list" where
  "port_log w = wr_log PIO_0_BASE 0 (io w)"

definition app_at :: "app_pc \<Rightarrow> nat \<Rightarrow> bool" where
  "app_at pc k \<longleftrightarrow> pc \<noteq> Returned \<and> (even k \<longleftrightarrow> pc \<in> {While, Port_on, Wait_off})"

lemma steps_log:
  "\<exists>k\<le>n. port_log (snd ((app_step ^^ n) (app_start, w))) = port_log w @ blink k
     \<and> app_at (fst (fst ((app_step ^^ n) (app_start, w)))) k"
proof (induction n)
  case 0
  then show ?case by (simp add: app_start_def blink_def app_at_def)
next
  case (Suc n)
  obtain pc i v where c: "(app_step ^^ n) (app_start, w) = ((pc, i), v)" by (metis surj_pair)
  obtain k where k: "k \<le> n" "port_log v = port_log w @ blink k" "app_at pc k" using Suc c by auto
  let ?j = "if pc = Port_on \<or> pc = Port_off then Suc k else k"
  have "port_log (snd (app_step ((pc, i), v))) = port_log w @ blink ?j \<and> app_at (fst (fst (app_step ((pc, i), v)))) ?j"
    using k(2,3) by (cases pc) (auto simp: app_at_def port_log_def IOWR_ALTERA_AVALON_PIO_DATA_def iowr_eq blink_Suc)
  then show ?case using k(1) c by (intro exI[of _ ?j]) auto
qed

text \<open>How long it takes: a counting loop of \<open>n\<close> rounds has \<open>n + 1\<close> tests.\<close>

lemma sint_of_count: "n < 2 ^ 31 \<Longrightarrow> sint (of_nat n :: u32) = int n"
  by (simp add: signed_of_nat signed_take_bit_int_eq_self)

lemma wait_steps:
  assumes "pc = Wait_on \<or> pc = Wait_off" "j \<le> 1000000"
  shows "(app_step ^^ j) ((pc, 0), w) = ((pc, of_nat j), w)"
  using assms(2)
proof (induction j)
  case (Suc j)
  have "sint (of_nat j :: u32) < 1000000" using sint_of_count[of j] Suc.prems by simp
  then show ?case using Suc assms(1) by (auto simp: add.commute)
qed simp

lemma wait_ends:
  assumes "pc = Wait_on \<or> pc = Wait_off"
  shows "(app_step ^^ Suc 1000000) ((pc, 0), w) = ((if pc = Wait_on then Port_off else While, 1000000), w)"
proof -
  have "sint (of_nat 1000000 :: u32) = 1000000" using sint_of_count[of 1000000] by simp
  moreover have "(app_step ^^ Suc 1000000) ((pc, 0), w) = app_step ((pc, of_nat 1000000), w)"
    using wait_steps[OF assms order_refl, of w] by (simp only: funpow.simps comp_def)
  ultimately show ?thesis using assms by (elim disjE) (simp_all only: app_step.simps app_pc.case, simp_all)
qed

lemma round_steps: "(app_step ^^ 2000005) ((While, i), w) = ((While, 1000000), app_round w)"
proof -
  let ?w1 = "IOWR_ALTERA_AVALON_PIO_DATA PIO_0_BASE 0x3FF w"
  let ?w2 = "IOWR_ALTERA_AVALON_PIO_DATA PIO_0_BASE 0 ?w1"
  have n: "(2000005 :: nat) = Suc 1000000 + (1 + (Suc 1000000 + (1 + 1)))" by simp
  have "(app_step ^^ (1 + 1)) ((While, i), w) = ((Wait_on, 0), ?w1)" by simp
  moreover have "(app_step ^^ 1) ((Port_off, 1000000), ?w1) = ((Wait_off, 0), ?w2)" by simp
  ultimately show ?thesis
    unfolding n funpow_add comp_def using wait_ends[of Wait_on ?w1] wait_ends[of Wait_off ?w2] by (simp only: app_round_def) simp
qed

lemma rounds_steps: "\<exists>i. (app_step ^^ (k * 2000005)) (app_start, w) = ((While, i), (app_round ^^ k) w)"
proof (induction k)
  case 0
  then show ?case by (simp add: app_start_def)
next
  case (Suc k)
  then obtain i where "(app_step ^^ (k * 2000005)) (app_start, w) = ((While, i), (app_round ^^ k) w)" by blast
  then have "(app_step ^^ (2000005 + k * 2000005)) (app_start, w) = ((While, 1000000), app_round ((app_round ^^ k) w))"
    unfolding funpow_add comp_def by (simp only: round_steps)
  then show ?case by (simp only: mult_Suc funpow.simps comp_def) blast
qed

lemma rounds_log: "port_log ((app_round ^^ k) w) = port_log w @ concat (replicate k [0x3FF, 0])"
proof (induction k)
  case (Suc k)
  have "concat (replicate k [0x3FF, 0]) @ [0x3FF, 0 :: u32] = [0x3FF, 0] @ concat (replicate k [0x3FF, 0])"
    by (induction k) auto
  then show ?case using Suc by (simp add: app_round_def port_log_def IOWR_ALTERA_AVALON_PIO_DATA_def iowr_eq)
qed simp

lemma app_main_None: "app_main m = None"
proof (rule ccontr)
  assume "app_main m \<noteq> None"
  then obtain n where "fst (fst ((app_machine_step ^^ n) (app_start, m))) = Returned"
    using app_run_returns unfolding app_main_def by blast
  then show False
    using steps_log[of n "world (bd m)"] by (auto simp: machine_steps app_at_def split: prod.splits)
qed

section \<open>The running application\<close>

text \<open>
  C32: With a running timer, the board boots into the application. At every step of \<open>main\<close> the port has been given, after what
  the start left there, all lights and no lights in turn, and \<open>main\<close> is not at its \<open>return\<close>; a round of its loop takes
  2000005 steps, after \<open>k\<close> of which the port has been given both \<open>k\<close> times. So neither \<open>main\<close> nor \<open>alt_main\<close> returns.
\<close>

theorem app_blinks:
  assumes "running_counter hw"
  shows "\<exists>m. alt_start hw hart cfg0 run init_array image = Some m
    \<and> (\<forall>n. \<exists>k\<le>n. port_log (snd ((app_step ^^ n) (app_start, world (bd m)))) = port_log (world (bd m)) @ blink k
          \<and> fst (fst ((app_step ^^ n) (app_start, world (bd m)))) \<noteq> Returned)
    \<and> (\<forall>k. port_log (snd ((app_step ^^ (k * 2000005)) (app_start, world (bd m))))
            = port_log (world (bd m)) @ concat (replicate k [0x3FF, 0]))
    \<and> alt_main hw hart cfg0 run init_array fini_array app_main image = None"
proof -
  obtain m where m: "alt_start hw hart cfg0 run init_array image = Some (do_ctors run init_array m)"
    using started_image[OF assms] by blast
  have "port_log (snd ((app_step ^^ (k * 2000005)) (app_start, w))) = port_log w @ concat (replicate k [0x3FF, 0])"
    for k and w :: jtag_world
    using rounds_steps[of k w] rounds_log[of k w] by auto
  moreover have "\<exists>k\<le>n. port_log (snd ((app_step ^^ n) (app_start, w))) = port_log w @ blink k
      \<and> fst (fst ((app_step ^^ n) (app_start, w))) \<noteq> Returned" for n and w :: jtag_world
    using steps_log[of n w] by (auto simp: app_at_def)
  ultimately show ?thesis using m by (simp add: alt_main_def app_main_None)
qed

theorem app_blinks_witness:
  "\<exists>m. alt_start carry_hw 0 (undefined :: i2c_config) (\<lambda>_ m. m) [] image = Some m
    \<and> port_log (snd ((app_step ^^ 4000010) (app_start, world (bd m)))) = port_log (world (bd m)) @ [0x3FF, 0, 0x3FF, 0]"
proof -
  obtain m where m: "alt_start carry_hw 0 (undefined :: i2c_config) (\<lambda>_ m. m) [] image = Some m"
    "\<forall>k. port_log (snd ((app_step ^^ (k * 2000005)) (app_start, world (bd m)))) = port_log (world (bd m)) @ concat (replicate k [0x3FF, 0])"
    using app_blinks[OF carry_hw_running, of 0 undefined "\<lambda>_ m. m" "[]" "[]"] by blast
  have n: "(4000010 :: nat) = Suc (Suc 0) * 2000005" by simp
  have "port_log (snd ((app_step ^^ 4000010) (app_start, world (bd m)))) = port_log (world (bd m)) @ [0x3FF, 0, 0x3FF, 0]"
    unfolding n by (rule trans[OF m(2)[rule_format]]) simp
  then show ?thesis using m(1) by blast
qed

end
