(* ===== verification/Process.thy ===== *)
theory Process
  imports DevRegistry
begin

text \<open>
  The system calls about processes, of which there is one (\<open>HAL/src/alt_kill.c\<close>, \<open>alt_getpid.c\<close>,
  \<open>alt_wait.c\<close>, \<open>alt_fork.c\<close>, \<open>alt_execve.c\<close>) and about names, which cannot be changed (\<open>alt_link.c\<close>,
  \<open>alt_rename.c\<close>, \<open>alt_unlink.c\<close>). A call that ends the program gives \<open>Inl\<close> its exit code.
\<close>

section \<open>Signals\<close>

text \<open>The signals the code names; the C library gives them their numbers.\<close>

datatype signal =
  SIG0 | SIGABRT | SIGALRM | SIGFPE | SIGILL | SIGKILL | SIGPIPE | SIGQUIT | SIGSEGV | SIGTERM | SIGUSR1 | SIGUSR2
  | SIGBUS | SIGPOLL | SIGPROF | SIGSYS | SIGTRAP | SIGVTALRM | SIGXCPU | SIGXFSZ | SIGCHLD | SIGURG | SIG_other int

definition ESRCH :: int where "ESRCH = 3"

definition ECHILD :: int where "ECHILD = 10"

fun sig_exits :: "signal \<Rightarrow> bool" where
  "sig_exits SIG0 = False"
| "sig_exits SIGCHLD = False"
| "sig_exits SIGURG = False"
| "sig_exits (SIG_other n) = False"
| "sig_exits sig = True"

definition alt_kill :: "int \<Rightarrow> signal \<Rightarrow> 'a hal_state_scheme \<Rightarrow> int + int \<times> 'a hal_state_scheme" where
  "alt_kill pid sig s =
     (if pid \<le> 0 \<and> sig_exits sig then Inl 0
      else
        (let status = (if pid \<le> 0 then (case sig of SIG_other n \<Rightarrow> EINVAL | _ \<Rightarrow> 0) else ESRCH)
         in Inr (if status \<noteq> 0 then (- 1, s\<lparr>errno := status\<rparr>) else (0, s))))"

section \<open>Processes and names\<close>

definition alt_getpid :: int where "alt_getpid = 0"

text \<open>The result, the status stored through the pointer, and the state.\<close>

definition alt_wait :: "'a hal_state_scheme \<Rightarrow> int \<times> int \<times> 'a hal_state_scheme" where
  "alt_wait s = (- 1, 0, s\<lparr>errno := ECHILD\<rparr>)"

definition alt_fork :: "'a hal_state_scheme \<Rightarrow> int \<times> 'a hal_state_scheme" where
  "alt_fork s = (- 1, s\<lparr>errno := ENOSYS\<rparr>)"

definition alt_execve :: "string \<Rightarrow> string list \<Rightarrow> string list \<Rightarrow> 'a hal_state_scheme \<Rightarrow> int \<times> 'a hal_state_scheme" where
  "alt_execve name argv envp s = (- 1, s\<lparr>errno := ENOSYS\<rparr>)"

definition alt_link :: "string \<Rightarrow> string \<Rightarrow> 'a hal_state_scheme \<Rightarrow> int \<times> 'a hal_state_scheme" where
  "alt_link existing new s = (- 1, s\<lparr>errno := ENOSYS\<rparr>)"

definition alt_rename :: "string \<Rightarrow> string \<Rightarrow> 'a hal_state_scheme \<Rightarrow> int \<times> 'a hal_state_scheme" where
  "alt_rename existing new s = (- 1, s\<lparr>errno := ENOSYS\<rparr>)"

definition alt_unlink :: "string \<Rightarrow> 'a hal_state_scheme \<Rightarrow> int \<times> 'a hal_state_scheme" where
  "alt_unlink name s = (- 1, s\<lparr>errno := ENOSYS\<rparr>)"

text \<open>The environment the C code is given: no variables, and the end of the list.\<close>

definition alt_environ :: "string option list" where "alt_environ = [None]"

text \<open>
  Signalling the process itself never fails for a signal the code names, and ends the program
  exactly for those whose default action is to; any other process does not exist.
\<close>

lemma kill_self:
  "alt_kill alt_getpid sig s = Inl code \<longleftrightarrow> code = 0 \<and> sig_exits sig"
  "\<forall>n. sig \<noteq> SIG_other n \<Longrightarrow> \<not> sig_exits sig \<Longrightarrow> alt_kill alt_getpid sig s = Inr (0, s)"
  by (cases sig; auto simp: alt_kill_def alt_getpid_def)+

lemma kill_other: "0 < pid \<Longrightarrow> alt_kill pid sig s = Inr (- 1, s\<lparr>errno := ESRCH\<rparr>)"
  by (simp add: alt_kill_def ESRCH_def)

end
