(* ===== verification/Vic.thy ===== *)
theory Vic
  imports Clock
begin

text \<open>
  The vectored interrupt mode (\<open>HAL/src/alt_vic_isr_wrapper.c\<close>, the table of
  \<open>alt_vic_vector_table.S\<close>) and the machine software interrupt (\<open>HAL/inc/sys/msw_interrupt.h\<close>). This board
  is built in direct mode, where \<open>handle_trap\<close> of \<open>IrqCtl\<close> is entered instead. A code that loops for
  ever is \<open>None\<close>.
\<close>

section \<open>The software interrupt\<close>

definition alt_niosv_enable_msw_interrupt :: "'a irq_state_scheme \<Rightarrow> 'a irq_state_scheme" where
  "alt_niosv_enable_msw_interrupt w = w\<lparr>mie := mie w OR push_bit (unat NIOSV_SOFTWARE_IRQ) 1\<rparr>"

definition alt_niosv_disable_msw_interrupt :: "'a irq_state_scheme \<Rightarrow> 'a irq_state_scheme" where
  "alt_niosv_disable_msw_interrupt w = w\<lparr>mie := mie w AND NOT (push_bit (unat NIOSV_SOFTWARE_IRQ) 1)\<rparr>"

definition alt_niosv_is_msw_interrupt_enabled :: "'a irq_state_scheme \<Rightarrow> u32" where
  "alt_niosv_is_msw_interrupt_enabled w = mie w AND push_bit (unat NIOSV_SOFTWARE_IRQ) 1"

text \<open>The sum is one of pointers to words: 2 and the number of the hart count four bytes each.\<close>

definition alt_niosv_get_msip_addr :: "u32 \<Rightarrow> u32" where
  "alt_niosv_get_msip_addr hart = alt_niosv_get_mtimecmp_addr hart + 4 * 2 + 4 * hart"

definition alt_niosv_trigger_msw_interrupt :: "u32 \<Rightarrow> 'a io_state_scheme \<Rightarrow> 'a io_state_scheme" where
  "alt_niosv_trigger_msw_interrupt hart w = iowr (alt_niosv_get_msip_addr hart) 0 1 w"

definition alt_niosv_clear_msw_interrupt :: "u32 \<Rightarrow> 'a io_state_scheme \<Rightarrow> 'a io_state_scheme" where
  "alt_niosv_clear_msw_interrupt hart w = iowr (alt_niosv_get_msip_addr hart) 0 0 w"

definition alt_niosv_register_msw_interrupt_handler :: "u32 \<Rightarrow> 'a irq_state_scheme \<Rightarrow> 'a irq_state_scheme" where
  "alt_niosv_register_msw_interrupt_handler handle w = w\<lparr>software_handler := handle\<rparr>"

lemma msw_enabled: "alt_niosv_is_msw_interrupt_enabled (alt_niosv_enable_msw_interrupt w) = 8"
  "alt_niosv_is_msw_interrupt_enabled (alt_niosv_disable_msw_interrupt w) = 0"
  by (auto simp: alt_niosv_is_msw_interrupt_enabled_def alt_niosv_enable_msw_interrupt_def
      alt_niosv_disable_msw_interrupt_def NIOSV_SOFTWARE_IRQ_def bit_eq_iff bit_simps)

lemma msip_addr: "alt_niosv_get_msip_addr 0 = NIOSV_MTIME_ADDR + 0x10"
  by (simp add: alt_niosv_get_msip_addr_def alt_niosv_get_mtimecmp_addr_def NIOSV_MTIMECMP_ADDR_def)

section \<open>The handlers of the vector table\<close>

text \<open>
  An exception with cause \<open>mcause\<close> at \<open>mepc\<close>; the result has the address to return to. Every case
  of the default \<open>switch\<close> breaks into the debugger, which without a debug stub is an empty loop.
\<close>

definition alt_vic_exception_handler ::
  "trap_config \<Rightarrow> (u32 \<Rightarrow> u32 \<Rightarrow> u32 \<Rightarrow> u32 \<Rightarrow> 'a irq_state_scheme \<Rightarrow> u32 \<times> 'a irq_state_scheme)
    \<Rightarrow> u32 \<Rightarrow> u32 \<Rightarrow> 'a irq_state_scheme \<Rightarrow> (u32 \<times> 'a irq_state_scheme) option" where
  "alt_vic_exception_handler cfg run_exn mcause mepc w =
     (if exception_api cfg \<and> instruction_exception_handler w \<noteq> 0 then
        (let (r, w1) = run_exn (instruction_exception_handler w) mcause 0 0 w
         in Some (if r \<noteq> 0 then mepc + 4 else mepc, w1))
      else map_option (\<lambda>w1. (mepc, w1)) (break_operation cfg w))"

definition alt_vic_mtimer_isr :: "hw \<Rightarrow> u32 \<Rightarrow> 'a alarm_run \<Rightarrow> 'a clock_state_scheme \<Rightarrow> ('a clock_state_scheme) option" where
  "alt_vic_mtimer_isr hw hart run w = alt_niosv_timer_sc_isr hw hart run w"

definition alt_vic_msw_isr ::
  "(u32 \<Rightarrow> u32 \<Rightarrow> u32 \<Rightarrow> u32 \<Rightarrow> 'a irq_state_scheme \<Rightarrow> 'a irq_state_scheme)
    \<Rightarrow> 'a irq_state_scheme \<Rightarrow> 'a irq_state_scheme" where
  "alt_vic_msw_isr run3 w = (if software_handler w \<noteq> 0 then run3 (software_handler w) 0 0 0 w else w)"

text \<open>
  \<open>alt_vic_platform_irq0\<close> to \<open>alt_vic_platform_irq15\<close>, which differ in the index only (32 more are for
  64-bit processors). A line without a handler is spurious, and breaks like an exception.
\<close>

definition ALT_VIC_PLATFORM_IRQ :: "nat \<Rightarrow> u8" where
  "ALT_VIC_PLATFORM_IRQ n = of_nat n"

definition alt_vic_platform_irq ::
  "trap_config \<Rightarrow> (u32 \<Rightarrow> u32 \<Rightarrow> 'a irq_state_scheme \<Rightarrow> 'a irq_state_scheme)
    \<Rightarrow> nat \<Rightarrow> 'a irq_state_scheme \<Rightarrow> 'a irq_state_scheme option" where
  "alt_vic_platform_irq cfg run n w =
     (let i = ALT_VIC_PLATFORM_IRQ n; s = alt_irq w (uint i)
      in if handler s \<noteq> 0 then Some (run (handler s) (hcontext s) w) else break_operation cfg w)"

text \<open>
  The entry of the table taken for an interrupt with the given code; the entries without a handler
  jump to themselves.
\<close>

definition VIC_VECTOR_TABLE ::
  "trap_config \<Rightarrow> hw \<Rightarrow> u32 \<Rightarrow> 'a alarm_run
    \<Rightarrow> (u32 \<Rightarrow> u32 \<Rightarrow> 'a clock_state_scheme \<Rightarrow> 'a clock_state_scheme)
    \<Rightarrow> (u32 \<Rightarrow> u32 \<Rightarrow> u32 \<Rightarrow> u32 \<Rightarrow> 'a clock_state_scheme \<Rightarrow> 'a clock_state_scheme)
    \<Rightarrow> nat \<Rightarrow> 'a clock_state_scheme \<Rightarrow> ('a clock_state_scheme) option" where
  "VIC_VECTOR_TABLE cfg hw hart alarm_run run run3 code w =
     (if code = 3 then Some (alt_vic_msw_isr run3 w)
      else if code = 7 then alt_vic_mtimer_isr hw hart alarm_run w
      else if 16 \<le> code \<and> code < 32 then alt_vic_platform_irq cfg run (code - 16) w
      else None)"

section \<open>Vectored and direct dispatch\<close>

text \<open>The vectored processor enters the handler of one line after the other.\<close>

fun vic_serve ::
  "trap_config \<Rightarrow> (u32 \<Rightarrow> u32 \<Rightarrow> 'a irq_state_scheme \<Rightarrow> 'a irq_state_scheme)
    \<Rightarrow> nat list \<Rightarrow> 'a irq_state_scheme \<Rightarrow> 'a irq_state_scheme option" where
  "vic_serve cfg run [] w = Some w"
| "vic_serve cfg run (n # ns) w = Option.bind (alt_vic_platform_irq cfg run n w) (vic_serve cfg run ns)"

lemma platform_irq_run:
  assumes "n < 32" "handler (alt_irq w (int n)) \<noteq> 0"
  shows "alt_vic_platform_irq cfg run n w = Some (run (handler (alt_irq w (int n))) (hcontext (alt_irq w (int n))) w)"
proof -
  have "n < 2 ^ 8" using assms(1) by simp
  then have "uint (of_nat n :: u8) = int n" by (simp add: unsigned_of_nat take_bit_nat_eq_self)
  then show ?thesis using assms(2) by (simp add: alt_vic_platform_irq_def ALT_VIC_PLATFORM_IRQ_def Let_def)
qed

lemma vic_serve_fold:
  assumes run_spec: "\<And>v i. alt_irq v = tab \<Longrightarrow> bit (alt_irq_pending (mip v) v) i \<Longrightarrow>
      alt_irq (run (handler (tab (int i))) (hcontext (tab (int i))) v) = tab
      \<and> alt_irq_pending (mip (run (handler (tab (int i))) (hcontext (tab (int i))) v))
          (run (handler (tab (int i))) (hcontext (tab (int i))) v)
        = alt_irq_pending (mip v) v AND NOT (push_bit i 1)"
  shows "alt_irq w = tab \<Longrightarrow> distinct ns \<Longrightarrow> \<forall>n\<in>set ns. bit (alt_irq_pending (mip w) w) n \<and> handler (tab (int n)) \<noteq> 0
    \<Longrightarrow> vic_serve cfg run ns w = Some (fold (\<lambda>i. run (handler (tab (int i))) (hcontext (tab (int i)))) ns w)"
proof (induction ns arbitrary: w)
  case (Cons n ns)
  let ?w = "run (handler (tab (int n))) (hcontext (tab (int n))) w"
  have b: "bit (alt_irq_pending (mip w) w) n" "handler (tab (int n)) \<noteq> 0" using Cons.prems(3) by auto
  then have n: "n < 32" by (auto dest: bit_imp_le_length)
  note s = run_spec[OF Cons.prems(1) b(1)]
  have "bit (alt_irq_pending (mip ?w) ?w) k \<and> handler (tab (int k)) \<noteq> 0" if "k \<in> set ns" for k
  proof -
    have "bit (alt_irq_pending (mip w) w) k" "k \<noteq> n" using Cons.prems(2,3) that by auto
    then have "bit (alt_irq_pending (mip w) w AND NOT (push_bit n 1)) k"
      unfolding bit_and_iff bit_not_iff bit_push_bit_one by (auto dest: bit_imp_le_length)
    then show ?thesis using s Cons.prems(3) that by simp
  qed
  then show ?case
    using Cons.IH[of ?w] Cons.prems(1,2) s platform_irq_run[OF n, of w cfg run] b(2) by simp
qed simp

text \<open>
  C33: When every handler acknowledges its own line and only that, and every pending line has a
  handler, the vectored entries taken for the pending lines, lowest first, leave the system exactly as
  the one interrupt handler of the direct mode does.
\<close>

theorem vectored_equals_direct:
  assumes run_spec: "\<And>v i. alt_irq v = tab \<Longrightarrow> bit (alt_irq_pending (mip v) v) i \<Longrightarrow>
      alt_irq (run (handler (tab (int i))) (hcontext (tab (int i))) v) = tab
      \<and> alt_irq_pending (mip (run (handler (tab (int i))) (hcontext (tab (int i))) v))
          (run (handler (tab (int i))) (hcontext (tab (int i))) v)
        = alt_irq_pending (mip v) v AND NOT (push_bit i 1)"
    and tab: "alt_irq w = tab" "\<forall>i. bit (alt_irq_pending (mip w) w) i \<longrightarrow> handler (tab (int i)) \<noteq> 0"
    and "alt_irq_pending (mip w) w \<noteq> 0"
  shows "vic_serve cfg run (pending_lines (alt_irq_pending (mip w) w)) w = alt_irq_handler mip run w"
proof -
  have "vic_serve cfg run (pending_lines (alt_irq_pending (mip w) w)) w
      = Some (fold (\<lambda>i. run (handler (tab (int i))) (hcontext (tab (int i)))) (pending_lines (alt_irq_pending (mip w) w)) w)"
    by (rule vic_serve_fold[OF run_spec tab(1)]) (use tab(2) in \<open>auto simp: set_pending_lines\<close>, simp add: pending_lines_def)
  moreover have "alt_irq_handler mip run w
      = Some (fold (\<lambda>i. run (handler (tab (int i))) (hcontext (tab (int i)))) (pending_lines (alt_irq_pending (mip w) w)) w)"
    unfolding alt_irq_handler_def by (rule dispatch_all[OF run_spec tab(1)]) (use tab(2) assms(4) in auto)
  ultimately show ?thesis by simp
qed

theorem vectored_equals_direct_witness:
  "vic_serve board_trap_config demo_run [0, 2] demo_irq_state = alt_irq_handler demo_mip demo_run demo_irq_state"
proof -
  have p: "alt_irq_pending (demo_mip demo_irq_state) demo_irq_state = 5"
    by (simp add: alt_irq_pending_def demo_mip_def demo_irq_state_def boot_irq_state_def irq_state.extend_def)
  have "vic_serve board_trap_config demo_run (pending_lines (alt_irq_pending (demo_mip demo_irq_state) demo_irq_state)) demo_irq_state
      = alt_irq_handler demo_mip demo_run demo_irq_state"
  proof (rule vectored_equals_direct)
    show "alt_irq demo_irq_state = demo_tab" by (simp add: demo_irq_state_def irq_state.extend_def)
    show "alt_irq_pending (demo_mip demo_irq_state) demo_irq_state \<noteq> 0" by (simp add: p)
    show "\<forall>i. bit (alt_irq_pending (demo_mip demo_irq_state) demo_irq_state) i \<longrightarrow> handler (demo_tab (int i)) \<noteq> 0"
      unfolding p bit_5 by (auto simp: demo_tab_def)
  qed (simp_all add: alt_irq_pending_def demo_mip_def demo_run_def demo_tab_def demo_clear_line del: drop_bit_and)
  then show ?thesis unfolding p by (simp add: pending_lines_def upt_conv_Cons numeral_2_eq_2)
qed

end
