(* ===== verification/BusyLoops.thy ===== *)
theory BusyLoops
  imports Clock
begin

text \<open>
  The two other forms of \<open>alt_busy_sleep\<close> (\<open>HAL/src/alt_busy_sleep.c\<close>): with the machine timer but no
  timestamp device, and with neither, where loops of known length pass the time. This board has a
  timestamp device (\<open>Clock.alt_busy_sleep\<close>).
\<close>

section \<open>With the machine timer\<close>

partial_function (option) mtime_wait ::
  "hw \<Rightarrow> u64 \<Rightarrow> 'a clock_state_scheme \<Rightarrow> ('a clock_state_scheme) option" where
  "mtime_wait hw end_time w =
     (case alt_niosv_mtime_get hw w of
        None \<Rightarrow> None
      | Some (t, w1) \<Rightarrow> if t < end_time then mtime_wait hw end_time w1 else Some w1)"

definition alt_busy_sleep_mtime :: "hw \<Rightarrow> u32 \<Rightarrow> 'a clock_state_scheme \<Rightarrow> (u32 \<times> 'a clock_state_scheme) option" where
  "alt_busy_sleep_mtime hw us w =
     (case alt_niosv_mtime_get hw w of
        None \<Rightarrow> None
      | Some (start_time, w1) \<Rightarrow>
          map_option (\<lambda>w2. (0, w2)) (mtime_wait hw (start_time + ucast (CPU_FREQUENCY_MHZ * us)) w1))"

section \<open>With loops\<close>

text \<open>The clocks of one pass, by the processor's variant (\<open>NIOSV_M_ARCH\<close> and so on, 1 to 4).\<close>

definition CLOCKS_PER_LOOP_ITERATION :: "nat \<Rightarrow> u32" where
  "CLOCKS_PER_LOOP_ITERATION variant = (if variant = 1 then 9 else if variant = 3 then 7 else 14)"

definition UINT_MAX :: u32 where "UINT_MAX = 0xFFFFFFFF"

definition CLOCKS_PER_OUTER_LOOP :: "u32 \<Rightarrow> u64" where
  "CLOCKS_PER_OUTER_LOOP c = ucast c * ucast UINT_MAX + ucast c"

definition US_PER_OUTER_LOOP :: "u32 \<Rightarrow> u64" where
  "US_PER_OUTER_LOOP c = CLOCKS_PER_OUTER_LOOP c div ucast CPU_FREQUENCY_MHZ"

text \<open>
  The passes of a loop that counts a register down to 0; a register that holds 0 is first counted
  below it. Of the two nested loops the inner one starts from 0 in every round.
\<close>

definition count_down :: "u32 \<Rightarrow> nat" where
  "count_down r = (if r = 0 then 2 ^ 32 else unat r)"

definition big_loop_passes :: "u32 \<Rightarrow> u32 \<Rightarrow> nat" where
  "big_loop_passes c us =
     (if ucast us > US_PER_OUTER_LOOP c
      then (let big_loops = ucast (ucast us div US_PER_OUTER_LOOP c) in count_down big_loops * count_down 0)
      else 0)"

definition small_loop_remainder_cnt :: "u32 \<Rightarrow> u32 \<Rightarrow> u32" where
  "small_loop_remainder_cnt c us =
     (if us > push_bit 16 c then us div c * CPU_FREQUENCY_MHZ else us * CPU_FREQUENCY_MHZ div c)"

definition alt_busy_sleep_loops :: "u32 \<Rightarrow> u32 \<Rightarrow> nat" where
  "alt_busy_sleep_loops c us =
     (let rest = (if ucast us > US_PER_OUTER_LOOP c then us mod ucast (US_PER_OUTER_LOOP c) else us);
          cnt = small_loop_remainder_cnt c rest
      in big_loop_passes c us + (if cnt > 0 then count_down cnt else 0))"

text \<open>The number of passes is never cut by the width of the registers.\<close>

lemma outer_loop:
  "CPU_FREQUENCY_MHZ = 50" "US_PER_OUTER_LOOP 9 = 773094113" "US_PER_OUTER_LOOP 14 = 1202590842" "US_PER_OUTER_LOOP 7 = 601295421"
  by (simp_all add: US_PER_OUTER_LOOP_def CLOCKS_PER_OUTER_LOOP_def CPU_FREQUENCY_MHZ_def ALT_CPU_CPU_FREQ_def UINT_MAX_def)

lemma small_passes:
  assumes "unat c \<in> {7, 9, 14}" "unat us * 50 \<le> unat c * 2 ^ 32"
  shows "unat (small_loop_remainder_cnt c us)
    = (if unat us > unat c * 65536 then unat us div unat c * 50 else unat us * 50 div unat c)"
proof -
  have p: "unat (push_bit 16 c) = unat c * 65536"
  proof -
    have "unat c < 2 ^ 16" using assms(1) by auto
    moreover have "push_bit 16 c = c * 65536" by (simp add: push_bit_eq_mult)
    ultimately show ?thesis by (simp add: unat_word_ariths)
  qed
  have s: "unat (us * 50) = unat us * 50" if "unat us \<le> unat c * 65536"
    using that assms(1) by (auto simp: unat_word_ariths)
  have "unat us div unat c \<le> 85899345"
    using assms(1,2) by (auto; presburger)
  then have "unat us div unat c * 50 < 2 ^ 32" by simp
  then have l: "unat (us div c * 50) = unat us div unat c * 50"
    by (simp add: unat_word_ariths unat_div)
  show ?thesis
    unfolding small_loop_remainder_cnt_def outer_loop(1) using s l p
    by (auto simp: word_less_nat_alt unat_div)
qed

text \<open>Whole rounds of the two loops, and the rest.\<close>

lemma passes_split:
  assumes "unat c \<in> {7, 9, 14}" "unat (US_PER_OUTER_LOOP c) = outer" "outer = unat c * 2 ^ 32 div 50"
  shows "alt_busy_sleep_loops c us =
    (let U = unat us; big = (if U > outer then U div outer else 0); rest = (if U > outer then U mod outer else U)
     in big * 2 ^ 32 + (if rest > unat c * 65536 then rest div unat c * 50 else rest * 50 div unat c))"
proof -
  let ?O = "US_PER_OUTER_LOOP c"
  let ?rest = "if ucast us > ?O then us mod ucast ?O else us"
  have o: "0 < outer" "outer < 2 ^ 32" using assms by auto
  have "unat us < 2 ^ 64" using unat_bound_32[of us] by (rule less_trans) simp
  then have uu: "unat (ucast us :: u64) = unat us" by (simp add: unsigned_ucast_eq take_bit_nat_eq_self)
  have uo: "unat (ucast ?O :: u32) = outer"
    using o assms(2) by (simp add: unsigned_ucast_eq take_bit_nat_eq_self)
  have gt: "ucast us > ?O \<longleftrightarrow> unat us > outer" by (simp add: word_less_nat_alt uu assms(2))
  have rest: "unat ?rest = (if unat us > outer then unat us mod outer else unat us)"
    by (simp add: gt unat_mod uo)
  have q: "unat (ucast us div ?O :: u64) = unat us div outer" by (simp add: unat_div uu assms(2))
  have "unat us div outer < 2 ^ 32" using unat_bound_32[of us] by (intro le_less_trans[OF div_le_dividend]) simp
  then have big: "unat (ucast (ucast us div ?O :: u64) :: u32) = unat us div outer"
    using q by (simp add: unsigned_ucast_eq take_bit_nat_eq_self)
  have "big_loop_passes c us = (if unat us > outer then unat us div outer * 2 ^ 32 else 0)"
  proof (cases "unat us > outer")
    case True
    then have "unat us div outer \<noteq> 0" using o by (simp add: div_eq_0_iff)
    then have "(ucast (ucast us div ?O :: u64) :: u32) \<noteq> 0" using big by (metis unsigned_0)
    then show ?thesis using True gt big by (simp add: big_loop_passes_def count_down_def Let_def)
  qed (simp add: big_loop_passes_def gt)
  moreover have r: "unat ?rest * 50 \<le> unat c * 2 ^ 32"
  proof -
    have "unat ?rest \<le> outer" using o(1) unfolding rest by (auto simp: less_imp_le)
    then show ?thesis unfolding assms(3) by linarith
  qed
  moreover note small_passes[OF assms(1) r]
  moreover have "(if cnt > 0 then count_down cnt else 0) = unat cnt" for cnt :: u32
    by (auto simp: count_down_def word_gt_0)
  ultimately show ?thesis unfolding alt_busy_sleep_loops_def rest Let_def by simp
qed

text \<open>
  C34: On every variant of the processor the loops pass the time asked for, whatever it is: at 50 MHz
  their cycles are at most 250 more (5 microseconds) than asked for, and at most 50 times the
  cycles of one pass fewer, so that no product or quotient on the way is cut by the width of the
  registers.
\<close>

theorem busy_loops_accuracy:
  "let c = CLOCKS_PER_LOOP_ITERATION variant; cycles = alt_busy_sleep_loops c us * unat c
   in cycles \<le> unat us * 50 + 250 \<and> unat us * 50 \<le> cycles + 50 * unat c"
proof -
  have main: "alt_busy_sleep_loops c us * unat c \<le> unat us * 50 + 250 \<and> unat us * 50 \<le> alt_busy_sleep_loops c us * unat c + 50 * unat c"
    if c: "unat c = k" "k = 9 \<and> outer = 773094113 \<or> k = 14 \<and> outer = 1202590842 \<or> k = 7 \<and> outer = 601295421"
      and o: "unat (US_PER_OUTER_LOOP c) = outer" for c k outer
  proof -
    have e: "outer = unat c * 2 ^ 32 div 50" "unat c \<in> {7, 9, 14}" using c by auto
    define U where "U = unat us"
    have U: "U < 2 ^ 32" unfolding U_def by (rule unat_bound_32)
    define rest where "rest = (if U > outer then U mod outer else U)"
    define big where "big = (if U > outer then U div outer else 0)"
    have UU: "U = big * outer + rest" by (simp add: rest_def big_def)
    have b: "big \<le> 5 \<or> k = 7 \<and> big \<le> 7"
    proof -
      have "big * outer < 2 ^ 32" using UU U by linarith
      then show ?thesis using c(2) by auto
    qed
    define small where "small = (if rest > k * 65536 then rest div k * 50 else rest * 50 div k)"
    have p: "alt_busy_sleep_loops c us = big * 2 ^ 32 + small"
      unfolding passes_split[OF e(2) o e(1)] small_def big_def rest_def U_def Let_def c(1) by simp
    have s: "small * k \<le> rest * 50 \<and> rest * 50 \<le> small * k + 50 * k"
      using c(2) by (auto simp: small_def)
    show ?thesis unfolding p U_def[symmetric] UU c(1) using s b c(2) by auto
  qed
  have v: "CLOCKS_PER_LOOP_ITERATION variant \<in> {9, 7, 14}" by (simp add: CLOCKS_PER_LOOP_ITERATION_def)
  have "unat (US_PER_OUTER_LOOP 9) = 773094113" "unat (US_PER_OUTER_LOOP 14) = 1202590842" "unat (US_PER_OUTER_LOOP 7) = 601295421"
    by (simp_all add: outer_loop)
  with v main[of 9 9 773094113] main[of 14 14 1202590842] main[of 7 7 601295421] show ?thesis
    unfolding Let_def by auto
qed

end
