(* ===== verification/BusAccess.thy ===== *)
theory BusAccess
  imports FpgaIntf
begin

text \<open>
  Accesses of every width (\<open>HAL/inc/io.h\<close>, \<open>HAL/inc/sys/intel_fpga_api_niosv.h\<close>) to a slave that is a
  memory: the load and store instructions on its bytes, which a 32-bit RISC-V processor orders with the low byte
  first, and the functions of the FPGA interfaces that use them. A half-word or a word at an address that is not
  a multiple of its size is an exception, \<open>None\<close>. The registers of devices, which are no memory, are in \<open>Mmio\<close>.
\<close>

section \<open>Loads and stores\<close>

type_synonym bus_mem = "u32 \<Rightarrow> u8"

text \<open>The bytes of a half-word and of a word at an address.\<close>

definition load_16 :: "bus_mem \<Rightarrow> u32 \<Rightarrow> u16" where
  "load_16 m a = ucast (m a) OR push_bit 8 (ucast (m (a + 1)))"

definition load_32 :: "bus_mem \<Rightarrow> u32 \<Rightarrow> u32" where
  "load_32 m a = ucast (m a) OR push_bit 8 (ucast (m (a + 1))) OR push_bit 16 (ucast (m (a + 2))) OR push_bit 24 (ucast (m (a + 3)))"

definition store_16 :: "u32 \<Rightarrow> u16 \<Rightarrow> bus_mem \<Rightarrow> bus_mem" where
  "store_16 a v m = m(a := ucast v, a + 1 := ucast (drop_bit 8 v))"

definition store_32 :: "u32 \<Rightarrow> u32 \<Rightarrow> bus_mem \<Rightarrow> bus_mem" where
  "store_32 a v m = m(a := ucast v, a + 1 := ucast (drop_bit 8 v), a + 2 := ucast (drop_bit 16 v), a + 3 := ucast (drop_bit 24 v))"

text \<open>The instructions. \<open>LBIO\<close> and \<open>LHIO\<close> give a \<open>signed char\<close> and a \<open>signed short\<close>.\<close>

definition LBUIO :: "bus_mem \<Rightarrow> u32 \<Rightarrow> u8" where
  "LBUIO m a = m a"

definition LHUIO :: "bus_mem \<Rightarrow> u32 \<Rightarrow> u16 option" where
  "LHUIO m a = (if aligned 2 a then Some (load_16 m a) else None)"

definition LWIO :: "bus_mem \<Rightarrow> u32 \<Rightarrow> u32 option" where
  "LWIO m a = (if aligned 4 a then Some (load_32 m a) else None)"

definition LBIO :: "bus_mem \<Rightarrow> u32 \<Rightarrow> int" where
  "LBIO m a = sint (m a)"

definition LHIO :: "bus_mem \<Rightarrow> u32 \<Rightarrow> int option" where
  "LHIO m a = (if aligned 2 a then Some (sint (load_16 m a)) else None)"

definition SBIO :: "u32 \<Rightarrow> u8 \<Rightarrow> bus_mem \<Rightarrow> bus_mem" where
  "SBIO a v m = m(a := v)"

definition SHIO :: "u32 \<Rightarrow> u16 \<Rightarrow> bus_mem \<Rightarrow> bus_mem option" where
  "SHIO a v m = (if aligned 2 a then Some (store_16 a v m) else None)"

definition SWIO :: "u32 \<Rightarrow> u32 \<Rightarrow> bus_mem \<Rightarrow> bus_mem option" where
  "SWIO a v m = (if aligned 4 a then Some (store_32 a v m) else None)"

section \<open>Addresses\<close>

definition IO_CALC_ADDRESS_DYNAMIC :: "u32 \<Rightarrow> u32 \<Rightarrow> u32" where
  "IO_CALC_ADDRESS_DYNAMIC base offset = base + offset"

definition SYSTEM_BUS_WIDTH :: u32 where "SYSTEM_BUS_WIDTH = 32"

definition IO_CALC_ADDRESS_NATIVE :: "u32 \<Rightarrow> u32 \<Rightarrow> u32" where
  "IO_CALC_ADDRESS_NATIVE base regnum = base + regnum * (SYSTEM_BUS_WIDTH div 8)"

definition IORD_32DIRECT :: "bus_mem \<Rightarrow> u32 \<Rightarrow> u32 \<Rightarrow> u32 option" where
  "IORD_32DIRECT m base offset = LWIO m (IO_CALC_ADDRESS_DYNAMIC base offset)"

definition IORD_16DIRECT :: "bus_mem \<Rightarrow> u32 \<Rightarrow> u32 \<Rightarrow> u16 option" where
  "IORD_16DIRECT m base offset = LHUIO m (IO_CALC_ADDRESS_DYNAMIC base offset)"

definition IORD_8DIRECT :: "bus_mem \<Rightarrow> u32 \<Rightarrow> u32 \<Rightarrow> u8" where
  "IORD_8DIRECT m base offset = LBUIO m (IO_CALC_ADDRESS_DYNAMIC base offset)"

definition IOWR_32DIRECT :: "u32 \<Rightarrow> u32 \<Rightarrow> u32 \<Rightarrow> bus_mem \<Rightarrow> bus_mem option" where
  "IOWR_32DIRECT base offset v m = SWIO (IO_CALC_ADDRESS_DYNAMIC base offset) v m"

definition IOWR_16DIRECT :: "u32 \<Rightarrow> u32 \<Rightarrow> u16 \<Rightarrow> bus_mem \<Rightarrow> bus_mem option" where
  "IOWR_16DIRECT base offset v m = SHIO (IO_CALC_ADDRESS_DYNAMIC base offset) v m"

definition IOWR_8DIRECT :: "u32 \<Rightarrow> u32 \<Rightarrow> u8 \<Rightarrow> bus_mem \<Rightarrow> bus_mem" where
  "IOWR_8DIRECT base offset v m = SBIO (IO_CALC_ADDRESS_DYNAMIC base offset) v m"

section \<open>The interface functions\<close>

definition fpga_read_8 :: "bus_mem \<Rightarrow> u32 \<Rightarrow> u32 \<Rightarrow> u8" where
  "fpga_read_8 m h offset = IORD_8DIRECT m h offset"

definition fpga_write_8 :: "u32 \<Rightarrow> u32 \<Rightarrow> u8 \<Rightarrow> bus_mem \<Rightarrow> bus_mem" where
  "fpga_write_8 h offset v m = IOWR_8DIRECT h offset v m"

definition fpga_read_16 :: "bus_mem \<Rightarrow> u32 \<Rightarrow> u32 \<Rightarrow> u16 option" where
  "fpga_read_16 m h offset = IORD_16DIRECT m h offset"

definition fpga_write_16 :: "u32 \<Rightarrow> u32 \<Rightarrow> u16 \<Rightarrow> bus_mem \<Rightarrow> bus_mem option" where
  "fpga_write_16 h offset v m = IOWR_16DIRECT h offset v m"

text \<open>
  The wider functions make 32-bit accesses, which the history of \<open>FpgaIntf\<close> records, and only at aligned addresses. A memory
  is the device that reads as what the history has written to it.
\<close>

fun replay :: "bus_mem \<Rightarrow> trace \<Rightarrow> bus_mem" where
  "replay m [] = m"
| "replay m (Wr b r v # t) = store_32 (IO_CALC_ADDRESS_NATIVE b r) v (replay m t)"
| "replay m (Rd b r v # t) = replay m t"
| "replay m (BusySleep us # t) = replay m t"

definition mem_hw :: "bus_mem \<Rightarrow> hw" where
  "mem_hw m t b r = load_32 (replay m t) (IO_CALC_ADDRESS_NATIVE b r)"

lemma native_0 [simp]: "IO_CALC_ADDRESS_NATIVE b 0 = b"
  by (simp add: IO_CALC_ADDRESS_NATIVE_def)

section \<open>Bytes of a word\<close>

lemma add_small_inj: "i < 2 ^ 32 \<Longrightarrow> j < 2 ^ 32 \<Longrightarrow> (a :: u32) + of_nat i = a + of_nat j \<longleftrightarrow> i = j"
  by (metis add_left_cancel unat_of_nat_32)

lemma no_bit_8: "8 \<le> n \<Longrightarrow> \<not> bit (x :: u8) n"
  using bit_imp_le_length[of x n] by auto

lemma bit_load_32_split:
  assumes "r < 8" "k < 4"
  shows "bit (load_32 m a) (8 * k + r) \<longleftrightarrow> bit (m (a + of_nat k)) r"
proof -
  have "k = 0 \<or> k = 1 \<or> k = 2 \<or> k = 3" using assms(2) by linarith
  then show ?thesis using assms(1) by (elim disjE) (simp_all add: load_32_def bit_simps no_bit_8)
qed

lemma bit_load_32: "n < 32 \<Longrightarrow> bit (load_32 m a) n \<longleftrightarrow> bit (m (a + of_nat (n div 8))) (n mod 8)"
  using bit_load_32_split[of "n mod 8" "n div 8" m a] by (simp add: less_mult_imp_div_less)

lemma load_32_cong: "(\<And>k. k < 4 \<Longrightarrow> m' (a + of_nat k) = m (a + of_nat k)) \<Longrightarrow> load_32 m' a = load_32 m a"
  by (intro bit_eqI) (simp add: bit_load_32)

lemma store_32_byte: "k < 4 \<Longrightarrow> store_32 a v m (a + of_nat k) = ucast (drop_bit (8 * k) v)"
proof -
  assume "k < 4"
  then have "k = 0 \<or> k = 1 \<or> k = 2 \<or> k = 3" by linarith
  then show ?thesis by (auto simp: store_32_def)
qed

lemma store_32_other: "(\<And>k. k < 4 \<Longrightarrow> x \<noteq> a + of_nat k) \<Longrightarrow> store_32 a v m x = m x"
proof -
  assume "\<And>k. k < 4 \<Longrightarrow> x \<noteq> a + of_nat k"
  from this[of 0] this[of 1] this[of 2] this[of 3] show ?thesis by (simp add: store_32_def)
qed

lemma load_32_store_32: "load_32 (store_32 a v m) a = v"
  by (intro bit_eqI) (simp add: bit_load_32 store_32_byte bit_simps)

lemma bit_load_16_split:
  assumes "r < 8" "k < 2"
  shows "bit (load_16 m a) (8 * k + r) \<longleftrightarrow> bit (m (a + of_nat k)) r"
proof -
  have "k = 0 \<or> k = 1" using assms(2) by linarith
  then show ?thesis using assms(1) by (elim disjE) (simp_all add: load_16_def bit_simps no_bit_8)
qed

lemma bit_load_16: "n < 16 \<Longrightarrow> bit (load_16 m a) n \<longleftrightarrow> bit (m (a + of_nat (n div 8))) (n mod 8)"
  using bit_load_16_split[of "n mod 8" "n div 8" m a] by (simp add: less_mult_imp_div_less)

section \<open>What an access means for the bytes\<close>

text \<open>The bytes of a word, lowest first; bytes laid over a memory; and those a memory has from an address on.\<close>

definition le_bytes :: "'a :: len word \<Rightarrow> u8 list" where
  "le_bytes v = map (\<lambda>i. ucast (drop_bit (8 * i) v)) [0..<LENGTH('a) div 8]"

definition lay_bytes :: "u32 \<Rightarrow> u8 list \<Rightarrow> bus_mem \<Rightarrow> bus_mem" where
  "lay_bytes a bs m = (\<lambda>x. if unat (x - a) < length bs then bs ! unat (x - a) else m x)"

definition bytes_at :: "bus_mem \<Rightarrow> u32 \<Rightarrow> nat \<Rightarrow> u8 list" where
  "bytes_at m a n = map (\<lambda>i. m (a + of_nat i)) [0..<n]"

lemma length_le_bytes [simp]: "length (le_bytes (v :: 'a :: len word)) = LENGTH('a) div 8"
  by (simp add: le_bytes_def)

lemma bytes_at_add: "bytes_at m a (n + k) = bytes_at m a n @ bytes_at m (a + of_nat n) k"
  by (rule nth_equalityI) (auto simp: bytes_at_def nth_append add.assoc simp flip: of_nat_add)

lemma lay_bytes_append:
  assumes "length bs + length cs \<le> 2 ^ 32"
  shows "lay_bytes (a + of_nat (length bs)) cs (lay_bytes a bs m) = lay_bytes a (bs @ cs) m"
proof (rule ext)
  fix x
  define i where "i = unat (x - a)"
  have x: "x = a + of_nat i" "i < 2 ^ 32" using unsigned_less[of "x - a"] by (simp_all add: i_def)
  have "unat (x - (a + of_nat (length bs))) = (if length bs \<le> i then i - length bs else 2 ^ 32 + i - length bs)"
  proof (cases "length bs \<le> i")
    case True
    then have "x - (a + of_nat (length bs)) = of_nat (i - length bs)" by (simp add: x(1) of_nat_diff)
    then show ?thesis using True x(2) by (simp only: if_True) (rule unat_of_nat_32, simp)
  next
    case False
    then have "of_nat (2 ^ 32 + i - length bs) = (of_nat (2 ^ 32) + of_nat i - of_nat (length bs) :: u32)"
      using assms by (subst of_nat_diff) simp_all
    also have "\<dots> = x - (a + of_nat (length bs))" by (simp add: x(1))
    finally have "x - (a + of_nat (length bs)) = of_nat (2 ^ 32 + i - length bs)" by simp
    then show ?thesis using False by (simp only: if_False) (rule unat_of_nat_32, simp)
  qed
  then show "lay_bytes (a + of_nat (length bs)) cs (lay_bytes a bs m) x = lay_bytes a (bs @ cs) m x"
    using assms x(2) by (auto simp: lay_bytes_def nth_append i_def[symmetric])
qed

lemma le_bytes_8: "le_bytes (b :: u8) = [b]"
  by (simp add: le_bytes_def)

lemma le_bytes_16: "le_bytes (y :: u16) = [ucast y, ucast (drop_bit 8 y)]"
  by (simp add: le_bytes_def upt_rec)

lemma le_bytes_32: "le_bytes (v :: u32) = [ucast v, ucast (drop_bit 8 v), ucast (drop_bit 16 v), ucast (drop_bit 24 v)]"
  by (simp add: le_bytes_def upt_rec)

lemma le_bytes_64: "le_bytes (v :: u64) = le_bytes (ucast v :: u32) @ le_bytes (ucast (drop_bit 32 v) :: u32)"
proof -
  have "le_bytes v = map (\<lambda>i. ucast (drop_bit (8 * i) v)) [0, 1, 2, 3, 4, 5, 6, 7]" by (simp add: le_bytes_def upt_rec)
  moreover have "ucast (drop_bit n (ucast v :: u32)) = (ucast (drop_bit n v) :: u8)" if "n \<le> 24" for n
    using that by (intro bit_word_eqI) (auto simp: bit_simps)
  note this[of 0] this[of 8] this[of 16] this[of 24]
  moreover have "ucast (drop_bit n (ucast (drop_bit 32 v) :: u32)) = (ucast (drop_bit (32 + n) v) :: u8)" if "n \<le> 24" for n
    using that by (intro bit_word_eqI) (auto simp: bit_simps add.assoc)
  note this[of 0] this[of 8] this[of 16] this[of 24]
  ultimately show ?thesis unfolding le_bytes_32 by (simp add: drop_bit_0)
qed

lemma le_bytes_join: "le_bytes (push_bit 32 (ucast hi) OR ucast lo :: u64) = le_bytes (lo :: u32) @ le_bytes (hi :: u32)"
proof -
  let ?v = "push_bit 32 (ucast hi) OR ucast lo :: u64"
  have "(ucast ?v :: u32) = lo" "(ucast (drop_bit 32 ?v) :: u32) = hi"
    by (intro bit_word_eqI; auto simp: bit_simps dest: bit_imp_le_length)+
  then show ?thesis unfolding le_bytes_64[of ?v] by simp
qed

lemma store_32_bytes: "store_32 a v m = lay_bytes a (le_bytes v) m"
proof (rule ext)
  fix x
  show "store_32 a v m x = lay_bytes a (le_bytes v) m x"
  proof (cases "unat (x - a) < 4")
    case True
    then show ?thesis using store_32_byte[OF True, of a v m] by (simp add: lay_bytes_def le_bytes_def)
  next
    case False
    have "x \<noteq> a + of_nat k" if "k < 4" for k using False that by (auto simp: unat_of_nat_32)
    then show ?thesis using False store_32_other[of x a v m] by (simp add: lay_bytes_def)
  qed
qed

lemma store_16_bytes: "store_16 a y m = lay_bytes a (le_bytes y) m"
proof (rule ext)
  fix x
  define d where "d = x - a"
  have x: "x = a + d" by (simp add: d_def)
  have "unat d < 2 \<longleftrightarrow> d = 0 \<or> d = 1" by (auto simp: less_2_cases_iff word_unat_eq_iff)
  then show "store_16 a y m x = lay_bytes a (le_bytes y) m x"
    unfolding x by (auto simp: store_16_def lay_bytes_def le_bytes_16)
qed

lemma load_32_bytes: "le_bytes (load_32 m a) = bytes_at m a 4"
proof (rule nth_equalityI)
  fix i assume "i < length (le_bytes (load_32 m a))"
  then have i: "i < 4" by simp
  have "ucast (drop_bit (8 * i) (load_32 m a)) = m (a + of_nat i)"
  proof (rule bit_word_eqI)
    fix n assume "n < LENGTH(8)"
    then show "bit (ucast (drop_bit (8 * i) (load_32 m a)) :: u8) n \<longleftrightarrow> bit (m (a + of_nat i)) n"
      using i bit_load_32_split[of n i m a] by (simp add: bit_simps add.commute)
  qed
  then show "le_bytes (load_32 m a) ! i = bytes_at m a 4 ! i" using i by (simp add: le_bytes_def bytes_at_def)
qed (simp add: bytes_at_def)

lemma load_16_bytes: "le_bytes (load_16 m a) = bytes_at m a 2"
proof (rule nth_equalityI)
  fix i assume "i < length (le_bytes (load_16 m a))"
  then have i: "i < 2" by simp
  have "ucast (drop_bit (8 * i) (load_16 m a)) = m (a + of_nat i)"
  proof (rule bit_word_eqI)
    fix n assume "n < LENGTH(8)"
    then show "bit (ucast (drop_bit (8 * i) (load_16 m a)) :: u8) n \<longleftrightarrow> bit (m (a + of_nat i)) n"
      using i bit_load_16_split[of n i m a] by (simp add: bit_simps add.commute)
  qed
  then show "le_bytes (load_16 m a) ! i = bytes_at m a 2 ! i" using i by (simp add: le_bytes_def bytes_at_def)
qed (simp add: bytes_at_def)

section \<open>Accesses of several words\<close>

lemma aligned_next: "aligned 4 (a + 4) \<longleftrightarrow> aligned 4 a"
proof -
  have m: "z AND (3::u32) = take_bit 2 z" for z by (simp add: take_bit_eq_mask mask_eq_exp_minus_1)
  have u: "unat (take_bit 2 z) = unat z mod 4" for z :: u32 unfolding unsigned_take_bit_eq by (simp add: take_bit_eq_mod)
  have "unat (a + 4) mod 4 = unat a mod 4" by (simp add: unat_word_ariths mod_mod_cancel)
  then have "unat (take_bit 2 (a + 4)) = unat (take_bit 2 a)" unfolding u .
  then have "take_bit 2 (a + 4) = take_bit 2 a" by (simp only: word_unat_eq_iff)
  then show ?thesis by (simp add: aligned_def m)
qed

lemma write_32_bytes:
  "map_option (\<lambda>w'. replay m (io w')) (fpga_write_32 h off v w)
    = (if aligned 4 (h + off) then Some (lay_bytes (h + off) (le_bytes v) (replay m (io w))) else None)"
  by (simp add: fpga_write_32_def iowr_eq store_32_bytes)

lemma read_32_bytes:
  "map_option (\<lambda>(v, w'). (le_bytes v, replay m (io w'))) (fpga_read_32 (mem_hw m) h off w)
    = (if aligned 4 (h + off) then Some (bytes_at (replay m (io w)) (h + off) 4, replay m (io w)) else None)"
  by (simp add: fpga_read_32_def iord_eq mem_hw_def load_32_bytes)

lemma write_words_bytes:
  "4 * length vs \<le> 2 ^ 32 \<Longrightarrow> aligned 4 (h + off) \<Longrightarrow>
    map_option (\<lambda>w'. replay m (io w')) (write_words h off vs w)
      = Some (lay_bytes (h + off) (concat (map le_bytes vs)) (replay m (io w)))"
proof (induction vs arbitrary: off w)
  case Nil
  then show ?case by (simp add: lay_bytes_def)
next
  case (Cons v vs)
  obtain w1 where w1: "fpga_write_32 h off v w = Some w1" "replay m (io w1) = lay_bytes (h + off) (le_bytes v) (replay m (io w))"
    using write_32_bytes[of m h off v w] Cons.prems(2) by auto
  have n: "length (concat (map le_bytes vs)) = 4 * length vs" by (induction vs) simp_all
  have "aligned 4 (h + (off + 4))" using Cons.prems(2) aligned_next[of "h + off"] by (simp add: add.assoc)
  from Cons.IH[OF _ this, of w1] show ?case
    using w1 Cons.prems(1) n lay_bytes_append[of "le_bytes v" "concat (map le_bytes vs)" "h + off"] by (simp add: add.assoc)
qed

lemma read_words_bytes:
  "aligned 4 (h + off) \<Longrightarrow>
    map_option (\<lambda>(vs, w'). (concat (map le_bytes vs), replay m (io w'))) (read_words (mem_hw m) h off n w)
      = Some (bytes_at (replay m (io w)) (h + off) (4 * n), replay m (io w))"
proof (induction n arbitrary: off w)
  case 0
  then show ?case by (simp add: bytes_at_def)
next
  case (Suc n)
  obtain v w1 where w1: "fpga_read_32 (mem_hw m) h off w = Some (v, w1)" "replay m (io w1) = replay m (io w)"
    "le_bytes v = bytes_at (replay m (io w)) (h + off) 4"
    using read_32_bytes[of m h off w] Suc.prems by auto
  have "aligned 4 (h + (off + 4))" using Suc.prems aligned_next[of "h + off"] by (simp add: add.assoc)
  from Suc.IH[OF this, of w1] show ?case
    using w1 bytes_at_add[of "replay m (io w)" "h + off" 4 "4 * n"] by (auto simp: add.assoc)
qed

lemma write_64_words: "fpga_write_64 h off v w = write_words h off [ucast v, ucast (drop_bit 32 v)] w"
  by (cases "fpga_write_32 h off (ucast v) w") (simp_all add: fpga_write_64_def, simp split: bind_split)

lemma read_64_words:
  "fpga_read_64 hw h off w
    = map_option (\<lambda>(vs, w'). (push_bit 32 (ucast (vs ! 1)) OR ucast (vs ! 0), w')) (read_words hw h off (Suc (Suc 0)) w)"
  by (auto simp: fpga_read_64_def option.map_comp comp_def split: bind_splits)

lemma read_64_bytes:
  assumes "aligned 4 (h + off)"
  shows "map_option (\<lambda>(v, w'). (le_bytes v, replay m (io w'))) (fpga_read_64 (mem_hw m) h off w)
    = Some (bytes_at (replay m (io w)) (h + off) 8, replay m (io w))"
proof -
  obtain lo w1 where lo: "iord (mem_hw m) (h + off) 0 w = (lo, w1)" by fastforce
  obtain hi w' where hi: "iord (mem_hw m) (h + (off + 4)) 0 w1 = (hi, w')" by fastforce
  have r: "read_words (mem_hw m) h off (Suc (Suc 0)) w = Some ([lo, hi], w')"
    using assms aligned_next[of "h + off"] lo hi by (simp add: fpga_read_32_def add.assoc)
  then show ?thesis
    using read_words_bytes[OF assms, of m "Suc (Suc 0)" w] by (simp add: read_64_words le_bytes_join)
qed

lemma misaligned_words:
  assumes "\<not> aligned 4 (h + off)"
  shows "vs \<noteq> [] \<Longrightarrow> write_words h off vs w = None" "n \<noteq> 0 \<Longrightarrow> read_words hw h off n w = None"
  using assms by (cases vs; cases n; simp add: fpga_write_32_def fpga_read_32_def)+

lemma narrow_accesses:
  "fpga_write_8 h off b m = lay_bytes (h + off) (le_bytes b) m"
  "fpga_write_16 h off y m = (if aligned 2 (h + off) then Some (lay_bytes (h + off) (le_bytes y) m) else None)"
  "le_bytes (fpga_read_8 m h off) = bytes_at m (h + off) 1"
  "map_option le_bytes (fpga_read_16 m h off) = (if aligned 2 (h + off) then Some (bytes_at m (h + off) 2) else None)"
proof -
  have "lay_bytes a [b] m = m(a := b)" for a by (auto simp: lay_bytes_def unat_eq_0)
  then show "fpga_write_8 h off b m = lay_bytes (h + off) (le_bytes b) m"
    by (simp add: fpga_write_8_def IOWR_8DIRECT_def SBIO_def IO_CALC_ADDRESS_DYNAMIC_def le_bytes_8)
qed (simp_all add: fpga_write_16_def IOWR_16DIRECT_def SHIO_def fpga_read_8_def IORD_8DIRECT_def LBUIO_def fpga_read_16_def
      IORD_16DIRECT_def LHUIO_def IO_CALC_ADDRESS_DYNAMIC_def store_16_bytes load_16_bytes le_bytes_8 bytes_at_def)

text \<open>
  C38: What the functions of an interface do to one that is a memory, for each width, in terms of its bytes: a write of 8, 16, 32,
  64 or 512 bits lays the bytes of the value, lowest first and word after word, from its address on and changes no other; a read
  gives the bytes that are there and changes none. On an address that is not a multiple of 2 or, from 32 bits
  up, of 4, it is an exception and nothing is written.
\<close>

theorem access_widths_agree:
  fixes w :: "'a io_state_scheme"
  assumes "length vs = 16"
  shows "fpga_write_8 h off b m = lay_bytes (h + off) (le_bytes b) m
    \<and> fpga_write_16 h off y m = (if aligned 2 (h + off) then Some (lay_bytes (h + off) (le_bytes y) m) else None)
    \<and> map_option (\<lambda>w'. replay m (io w')) (fpga_write_32 h off x w) = (if aligned 4 (h + off) then Some (lay_bytes (h + off) (le_bytes x) (replay m (io w))) else None)
    \<and> map_option (\<lambda>w'. replay m (io w')) (fpga_write_64 h off v w) = (if aligned 4 (h + off) then Some (lay_bytes (h + off) (le_bytes v) (replay m (io w))) else None)
    \<and> map_option (\<lambda>w'. replay m (io w')) (fpga_write_512 h off vs w)
        = (if aligned 4 (h + off) then Some (lay_bytes (h + off) (concat (map le_bytes (vs))) (replay m (io w))) else None)
    \<and> le_bytes (fpga_read_8 m h off) = bytes_at m (h + off) 1
    \<and> map_option le_bytes (fpga_read_16 m h off) = (if aligned 2 (h + off) then Some (bytes_at m (h + off) 2) else None)
    \<and> map_option (\<lambda>(x, w'). (le_bytes x, replay m (io w'))) (fpga_read_32 (mem_hw m) h off w)
        = (if aligned 4 (h + off) then Some (bytes_at (replay m (io w)) (h + off) 4, replay m (io w)) else None)
    \<and> map_option (\<lambda>(v, w'). (le_bytes v, replay m (io w'))) (fpga_read_64 (mem_hw m) h off w)
        = (if aligned 4 (h + off) then Some (bytes_at (replay m (io w)) (h + off) 8, replay m (io w)) else None)
    \<and> map_option (\<lambda>(vs, w'). (concat (map le_bytes vs), replay m (io w'))) (fpga_read_512 (mem_hw m) h off w)
        = (if aligned 4 (h + off) then Some (bytes_at (replay m (io w)) (h + off) 64, replay m (io w)) else None)"
proof -
  let ?v = "[ucast v, ucast (drop_bit 32 v)] :: u32 list"
  have w64: "map_option (\<lambda>w'. replay m (io w')) (fpga_write_64 h off v w)
      = Some (lay_bytes (h + off) (le_bytes v) (replay m (io w)))" if "aligned 4 (h + off)"
    using write_words_bytes[of ?v h off m w] that unfolding write_64_words le_bytes_64 by simp
  have w512: "map_option (\<lambda>w'. replay m (io w')) (fpga_write_512 h off vs w)
      = Some (lay_bytes (h + off) (concat (map le_bytes vs)) (replay m (io w)))" if "aligned 4 (h + off)"
    using write_words_bytes[of vs h off m w] that assms by (simp add: fpga_write_512_def)
  have r512: "map_option (\<lambda>(vs, w'). (concat (map le_bytes vs), replay m (io w'))) (fpga_read_512 (mem_hw m) h off w)
      = Some (bytes_at (replay m (io w)) (h + off) 64, replay m (io w))" if "aligned 4 (h + off)"
    using read_words_bytes[OF that, of m 16 w] by (simp add: fpga_read_512_def)
  have r64: "map_option (\<lambda>(v, w'). (le_bytes v, replay m (io w'))) (fpga_read_64 (mem_hw m) h off w)
      = Some (bytes_at (replay m (io w)) (h + off) 8, replay m (io w))" if "aligned 4 (h + off)"
    by (rule read_64_bytes[OF that])
  have nonempty: "vs \<noteq> []" using assms by auto
  have bad: "fpga_write_64 h off v w = None" "fpga_write_512 h off vs w = None"
    "fpga_read_64 (mem_hw m) h off w = None" "fpga_read_512 (mem_hw m) h off w = None" if "\<not> aligned 4 (h + off)"
    using that misaligned_words(1)[OF that, of vs w, OF nonempty] misaligned_words(2)[OF that, of 16 "mem_hw m" w] assms by (auto simp: fpga_write_64_def fpga_read_64_def fpga_write_512_def fpga_read_512_def
        fpga_write_32_def fpga_read_32_def)
  show ?thesis
    using w64 w512 r512 r64 bad write_32_bytes[of m h off x w] read_32_bytes[of m h off w]
    by (simp add: narrow_accesses)
qed

theorem access_widths_agree_witness:
  "\<exists>w1. fpga_write_64 0x1000 0 0x1122334455667788 \<lparr>io = []\<rparr> = Some w1
    \<and> fpga_read_8 (replay (\<lambda>a. 0) (io w1)) 0x1000 2 = 0x66 \<and> fpga_read_16 (replay (\<lambda>a. 0) (io w1)) 0x1000 4 = Some 0x3344
    \<and> fpga_read_16 (replay (\<lambda>a. 0) (io w1)) 0x1000 5 = None \<and> fpga_write_64 0x1000 2 0x1122334455667788 \<lparr>io = []\<rparr> = None"
proof -
  have l: "length (replicate 16 (0 :: u32)) = 16" by simp
  note a = access_widths_agree[OF l, where m = "\<lambda>a. 0" and h = "0x1000" and v = "0x1122334455667788" and w = "\<lparr>io = []\<rparr>"
      and b = 0 and y = 0 and x = 0]
  have e: "map_option (\<lambda>w'. replay (\<lambda>a. 0) (io w')) (fpga_write_64 0x1000 off 0x1122334455667788 \<lparr>io = []\<rparr>)
    = (if aligned 4 (0x1000 + off) then Some (lay_bytes (0x1000 + off) (le_bytes (0x1122334455667788 :: u64))
        (replay (\<lambda>a. 0) (io (\<lparr>io = []\<rparr> :: io_state)))) else None)" for off
    using a[of off] by (elim conjE)
  obtain w1 where w1: "fpga_write_64 0x1000 0 0x1122334455667788 \<lparr>io = []\<rparr> = Some w1"
    "replay (\<lambda>a. 0) (io w1) = lay_bytes 0x1000 (le_bytes (0x1122334455667788 :: u64)) (\<lambda>a. 0)"
    using e[of 0] by (auto simp: aligned_def)
  have "fpga_write_64 0x1000 2 0x1122334455667788 \<lparr>io = []\<rparr> = None" using e[of 2] by (simp add: aligned_def)
  then show ?thesis using w1 by (simp add: lay_bytes_def le_bytes_64 le_bytes_32 fpga_read_8_def IORD_8DIRECT_def LBUIO_def
        fpga_read_16_def IORD_16DIRECT_def LHUIO_def IO_CALC_ADDRESS_DYNAMIC_def aligned_def load_16_def)
qed

end
