(* ===== verification/Asm.thy ===== *)
theory Asm
  imports BusAccess
begin

text \<open>
  The processor as the assembler files of \<open>HAL/src\<close> see it: registers, control registers and a memory of
  bytes, and the instructions these files use; the calling convention keeps the stack pointer aligned, so that their loads and
  stores are at aligned addresses. What a C function does between a call and its return is a
  parameter, which keeps to the calling convention.
\<close>

section \<open>Registers\<close>

datatype reg = ZERO | RA | SP | GP | TP | T0 | T1 | T2 | S0 | S1 | A0 | A1 | A2 | A3 | A4 | A5 | A6 | A7
  | S2 | S3 | S4 | S5 | S6 | S7 | S8 | S9 | S10 | S11 | T3 | T4 | T5 | T6
  | FT0 | FT1 | FT2 | FT3 | FT4 | FT5 | FT6 | FT7 | FT8 | FT9 | FT10 | FT11
  | FA0 | FA1 | FA2 | FA3 | FA4 | FA5 | FA6 | FA7
  | FS0 | FS1 | FS2 | FS3 | FS4 | FS5 | FS6 | FS7 | FS8 | FS9 | FS10 | FS11

datatype csr = MSTATUS | MIE | MIP | MTVEC | MEPC | MCAUSE | MTVAL | MSCRATCH | ALT_ECC_INJECT

text \<open>\<open>sys\<close> is the state of the C program and the devices, \<open>ram\<close> the memory the assembler code reads and writes.\<close>

record 's cpu =
  regs :: "reg \<Rightarrow> u32"
  csrs :: "csr \<Rightarrow> u32"
  ram :: bus_mem
  sys :: 's

definition set_reg :: "reg \<Rightarrow> u32 \<Rightarrow> 's cpu \<Rightarrow> 's cpu" where
  "set_reg r v c = (if r = ZERO then c else c\<lparr>regs := (regs c)(r := v)\<rparr>)"

section \<open>Instructions\<close>

text \<open>\<open>La\<close> loads a constant, the address of a symbol; a label is a place in the definitions that use the instructions.\<close>

datatype instr = Addi reg reg u32 | Mv reg reg | La reg u32 | Sw reg u32 reg | Lw reg u32 reg
  | Csrr reg csr | Csrw csr reg | Csrc csr reg

fun exec1 :: "instr \<Rightarrow> 's cpu \<Rightarrow> 's cpu" where
  "exec1 (Addi d s i) c = set_reg d (regs c s + i) c"
| "exec1 (Mv d s) c = set_reg d (regs c s) c"
| "exec1 (La d v) c = set_reg d v c"
| "exec1 (Sw s off b) c = c\<lparr>ram := store_32 (regs c b + off) (regs c s) (ram c)\<rparr>"
| "exec1 (Lw d off b) c = set_reg d (load_32 (ram c) (regs c b + off)) c"
| "exec1 (Csrr d k) c = set_reg d (csrs c k) c"
| "exec1 (Csrw k s) c = c\<lparr>csrs := (csrs c)(k := regs c s)\<rparr>"
| "exec1 (Csrc k s) c = c\<lparr>csrs := (csrs c)(k := csrs c k AND NOT (regs c s))\<rparr>"

definition exec :: "instr list \<Rightarrow> 's cpu \<Rightarrow> 's cpu" where
  "exec is c = fold exec1 is c"

lemma exec_simps [simp]: "exec [] c = c" "exec (i # is) c = exec is (exec1 i c)"
  by (simp_all add: exec_def)

lemma exec_append: "exec (is @ js) c = exec js (exec is c)"
  by (simp add: exec_def)

section \<open>Stretches of memory\<close>

definition span :: "u32 \<Rightarrow> nat \<Rightarrow> u32 set" where
  "span a n = {x. unat (x - a) < n}"

lemma span_iff: "x \<in> span a n \<longleftrightarrow> unat (x - a) < n"
  by (simp add: span_def)

lemma span_0 [simp]: "span a 0 = {}"
  by (simp add: span_def)

lemma span_mono: "n \<le> k \<Longrightarrow> span a n \<subseteq> span a k"
  by (auto simp: span_def)

text \<open>A part of a stretch, and two parts that are apart.\<close>

lemma span_part:
  assumes "x \<in> span (a + of_nat i) n" "i + n \<le> k" "k \<le> 2 ^ 32"
  shows "x \<in> span a k \<and> i \<le> unat (x - a) \<and> unat (x - a) < i + n"
proof (cases "n = 0")
  case False
  let ?d = "x - (a + of_nat i)"
  have d: "unat ?d < n" using assms(1) by (simp add: span_def)
  have i: "unat (of_nat i :: u32) = i" using assms(2,3) False by (intro unat_of_nat_32) linarith
  have "x - a = of_nat i + ?d" by simp
  then have "unat (x - a) = i + unat ?d"
    using i d assms(2,3) by (simp only: unat_word_ariths(1)) simp
  then show ?thesis using d assms(2) by (simp add: span_def)
qed (use assms(1) in simp)

lemma span_apart:
  assumes "i + n \<le> j" "j + m \<le> k" "k \<le> 2 ^ 32"
  shows "span (a + of_nat i) n \<inter> span (a + of_nat j) m = {}"
proof -
  have False if "x \<in> span (a + of_nat i) n" "x \<in> span (a + of_nat j) m" for x
    using span_part[OF that(1), of k] span_part[OF that(2), of k] assms by simp
  then show ?thesis by blast
qed

lemma span_disjoint: "unat a + n \<le> unat b \<Longrightarrow> unat b + m \<le> 2 ^ 32 \<Longrightarrow> span a n \<inter> span b m = {}"
  using span_apart[of "unat a" n "unat b" m "2 ^ 32" 0] by simp

lemma span_4: "x \<in> span a 4 \<longleftrightarrow> (\<exists>k<4. x = a + of_nat k)"
proof
  assume "x \<in> span a 4"
  then show "\<exists>k<4. x = a + of_nat k" by (intro exI[of _ "unat (x - a)"]) (simp add: span_def)
next
  assume "\<exists>k<4. x = a + of_nat k"
  then obtain k where k: "k < 4" "x = a + of_nat k" by blast
  then have "unat (of_nat k :: u32) = k" by (intro unat_of_nat_32) simp
  then show "x \<in> span a 4" using k by (simp add: span_def)
qed

lemma store_32_outside: "x \<notin> span a 4 \<Longrightarrow> store_32 a v m x = m x"
  by (rule store_32_other) (auto simp: span_4)

lemma load_32_inside: "(\<And>x. x \<in> span a 4 \<Longrightarrow> m' x = m x) \<Longrightarrow> load_32 m' a = load_32 m a"
  by (rule load_32_cong) (auto simp: span_4)

lemma load_32_apart: "span a 4 \<inter> span b 4 = {} \<Longrightarrow> load_32 (store_32 a v m) b = load_32 m b"
  by (intro load_32_inside store_32_outside) blast

section \<open>Saving and restoring\<close>

text \<open>Slots of words from the stack pointer up, each with the register kept there.\<close>

type_synonym slots = "(nat \<times> reg) list"

definition sw_all :: "slots \<Rightarrow> instr list" where
  "sw_all L = map (\<lambda>(i, r). Sw r (4 * of_nat i) SP) L"

definition lw_all :: "slots \<Rightarrow> instr list" where
  "lw_all L = map (\<lambda>(i, r). Lw r (4 * of_nat i) SP) L"

definition slots_ok :: "nat \<Rightarrow> slots \<Rightarrow> bool" where
  "slots_ok n L \<longleftrightarrow> distinct (map fst L) \<and> distinct (map snd L) \<and> list_all (\<lambda>(i, r). i < n \<and> r \<noteq> SP \<and> r \<noteq> ZERO) L"

lemma slot_apart:
  assumes "i < n" "j < n" "i \<noteq> j" "4 * n < 2 ^ 32"
  shows "span (a + 4 * of_nat i) 4 \<inter> span (a + 4 * of_nat j) 4 = {}"
proof -
  have w: "4 * of_nat k = (of_nat (4 * k) :: u32)" for k by simp
  have "span (a + of_nat (4 * i)) 4 \<inter> span (a + of_nat (4 * j)) 4 = {}" if "i < j" "j < n" for i j
    by (rule span_apart[of _ _ _ _ "4 * n"]) (use that assms(4) in linarith)+
  from this[of i j] this[of j i] assms(1,2,3) show ?thesis unfolding w by (cases "i < j") auto
qed

lemma slot_inside: "i < n \<Longrightarrow> 4 * n < 2 ^ 32 \<Longrightarrow> span (a + 4 * of_nat i) 4 \<subseteq> span a (4 * n)"
  using span_part[of _ a "4 * i" 4 "4 * n"] by auto

lemma exec_sw_all:
  assumes "slots_ok n L" "4 * n < 2 ^ 32"
  shows "\<exists>m. exec (sw_all L) c = c\<lparr>ram := m\<rparr> \<and> (\<forall>(i, r)\<in>set L. load_32 m (regs c SP + 4 * of_nat i) = regs c r)
    \<and> (\<forall>x. x \<notin> span (regs c SP) (4 * n) \<longrightarrow> m x = ram c x)"
  using assms(1)
proof (induction L rule: rev_induct)
  case Nil
  then show ?case by (intro exI[of _ "ram c"]) (simp add: sw_all_def)
next
  case (snoc p L)
  obtain j q where p: "p = (j, q)" by fastforce
  have ok: "slots_ok n L" "j < n" "j \<notin> fst ` set L" using snoc.prems by (auto simp: slots_ok_def p)
  obtain m where m: "exec (sw_all L) c = c\<lparr>ram := m\<rparr>" "\<forall>(i, r)\<in>set L. load_32 m (regs c SP + 4 * of_nat i) = regs c r"
    "\<forall>x. x \<notin> span (regs c SP) (4 * n) \<longrightarrow> m x = ram c x" using snoc.IH[OF ok(1)] by blast
  let ?a = "regs c SP + 4 * of_nat j"
  let ?m = "store_32 ?a (regs c q) m"
  have "exec (sw_all (L @ [p])) c = c\<lparr>ram := ?m\<rparr>"
    using m(1) by (simp add: sw_all_def exec_append p)
  moreover have "load_32 ?m (regs c SP + 4 * of_nat i) = regs c r" if i: "(i, r) \<in> set L" for i r
  proof -
    have "i \<noteq> j" "i < n" using i ok(1,3) by (force simp: slots_ok_def list_all_iff)+
    then have "span (regs c SP + 4 * of_nat i) 4 \<inter> span ?a 4 = {}" using slot_apart ok(2) assms(2) by blast
    then have "load_32 ?m (regs c SP + 4 * of_nat i) = load_32 m (regs c SP + 4 * of_nat i)" by (intro load_32_apart) blast
    then show ?thesis using m(2) i by auto
  qed
  moreover have "?m x = ram c x" if "x \<notin> span (regs c SP) (4 * n)" for x
    using that m(3) slot_inside[OF ok(2) assms(2), of "regs c SP"] store_32_outside[of x ?a "regs c q" m] by auto
  ultimately show ?case by (intro exI[of _ ?m]) (auto simp: p load_32_store_32)
qed

lemma exec_lw_all:
  assumes "slots_ok n L"
  shows "\<exists>g. exec (lw_all L) c = c\<lparr>regs := g\<rparr> \<and> (\<forall>(i, r)\<in>set L. g r = load_32 (ram c) (regs c SP + 4 * of_nat i))
    \<and> (\<forall>r. r \<notin> snd ` set L \<longrightarrow> g r = regs c r)"
  using assms
proof (induction L rule: rev_induct)
  case Nil
  then show ?case by (intro exI[of _ "regs c"]) (simp add: lw_all_def)
next
  case (snoc p L)
  obtain j q where p: "p = (j, q)" by fastforce
  have ok: "slots_ok n L" "q \<notin> snd ` set L" "q \<noteq> ZERO" "SP \<notin> snd ` set L"
    using snoc.prems by (auto simp: slots_ok_def p list_all_iff)
  obtain g where g: "exec (lw_all L) c = c\<lparr>regs := g\<rparr>" "\<forall>(i, r)\<in>set L. g r = load_32 (ram c) (regs c SP + 4 * of_nat i)"
    "\<forall>r. r \<notin> snd ` set L \<longrightarrow> g r = regs c r" using snoc.IH[OF ok(1)] by blast
  let ?g = "g(q := load_32 (ram c) (regs c SP + 4 * of_nat j))"
  have "exec (lw_all (L @ [p])) c = c\<lparr>regs := ?g\<rparr>"
    using g(1,3) ok(3,4) by (simp add: lw_all_def exec_append p set_reg_def)
  moreover have "\<forall>(i, r)\<in>set (L @ [p]). ?g r = load_32 (ram c) (regs c SP + 4 * of_nat i)"
    using g(2) ok(2) by (force simp: p)
  moreover have "\<forall>r. r \<notin> snd ` set (L @ [p]) \<longrightarrow> ?g r = regs c r" using g(3) by (simp add: p)
  ultimately show ?case by blast
qed

section \<open>Calling C\<close>

text \<open>The registers a function gives back as it got them.\<close>

definition callee_saved :: "reg \<Rightarrow> bool" where
  "callee_saved r \<longleftrightarrow> r \<in> {ZERO, SP, GP, TP, S0, S1, S2, S3, S4, S5, S6, S7, S8, S9, S10, S11,
     FS0, FS1, FS2, FS3, FS4, FS5, FS6, FS7, FS8, FS9, FS10, FS11}"

text \<open>
  \<open>call\<close> is the compiled code of a function \<open>f\<close> of three arguments on the state of the program: it returns when \<open>f\<close> does,
  with its result, keeps those registers, and writes to no stack but to the \<open>depth\<close> bytes below the
  stack pointer it is called with. \<open>stk\<close> is the memory of the stacks.
\<close>

definition compiled ::
  "u32 set \<Rightarrow> nat \<Rightarrow> (u32 \<Rightarrow> u32 \<Rightarrow> u32 \<Rightarrow> 's \<Rightarrow> (u32 \<times> 's) option) \<Rightarrow> ('s cpu \<Rightarrow> 's cpu option) \<Rightarrow> bool" where
  "compiled stk depth f call \<longleftrightarrow>
     (\<forall>c. case f (regs c A0) (regs c A1) (regs c A2) (sys c) of
            None \<Rightarrow> call c = None
          | Some (v, s) \<Rightarrow> \<exists>c'. call c = Some c' \<and> regs c' A0 = v \<and> sys c' = s \<and> (\<forall>r. callee_saved r \<longrightarrow> regs c' r = regs c r)
              \<and> (\<forall>x\<in>stk. x \<notin> span (regs c SP - of_nat depth) depth \<longrightarrow> ram c' x = ram c x))"

text \<open>Such code for every function: it leaves nothing in the other registers.\<close>

definition code_of :: "(u32 \<Rightarrow> u32 \<Rightarrow> u32 \<Rightarrow> 's \<Rightarrow> (u32 \<times> 's) option) \<Rightarrow> 's cpu \<Rightarrow> 's cpu option" where
  "code_of f c = map_option (\<lambda>(v, s). c\<lparr>regs := (\<lambda>r. if callee_saved r then regs c r else if r = A0 then v else 0), sys := s\<rparr>)
     (f (regs c A0) (regs c A1) (regs c A2) (sys c))"

lemma compiled_code_of: "compiled stk depth f (code_of f)"
  unfolding compiled_def
proof (intro allI)
  fix c :: "'a cpu"
  have "\<not> callee_saved A0" by (simp add: callee_saved_def)
  then show "case f (regs c A0) (regs c A1) (regs c A2) (sys c) of
            None \<Rightarrow> code_of f c = None
          | Some (v, s) \<Rightarrow> \<exists>c'. code_of f c = Some c' \<and> regs c' A0 = v \<and> sys c' = s \<and> (\<forall>r. callee_saved r \<longrightarrow> regs c' r = regs c r)
              \<and> (\<forall>x\<in>stk. x \<notin> span (regs c SP - of_nat depth) depth \<longrightarrow> ram c' x = ram c x)"
    by (auto simp: code_of_def split: option.splits)
qed

lemma compiled_Some:
  assumes "compiled stk depth f call" "f (regs c A0) (regs c A1) (regs c A2) (sys c) = Some (v, s)"
  obtains c' where "call c = Some c'" "regs c' A0 = v" "sys c' = s" "\<And>r. callee_saved r \<Longrightarrow> regs c' r = regs c r"
    "\<And>x. x \<in> stk \<Longrightarrow> x \<notin> span (regs c SP - of_nat depth) depth \<Longrightarrow> ram c' x = ram c x"
proof -
  have "\<exists>c'. call c = Some c' \<and> regs c' A0 = v \<and> sys c' = s \<and> (\<forall>r. callee_saved r \<longrightarrow> regs c' r = regs c r)
      \<and> (\<forall>x\<in>stk. x \<notin> span (regs c SP - of_nat depth) depth \<longrightarrow> ram c' x = ram c x)"
    using assms(1)[unfolded compiled_def, rule_format, of c] by (simp add: assms(2))
  then show ?thesis using that by blast
qed

end
