(* ===== verification/JtagWake.thy ===== *)
theory JtagWake
  imports JtagThread
begin

text \<open>
  When the device interrupts. The handler of the JTAG UART switches the write interrupt off when it has
  nothing to send, and the read interrupt off when the buffer is full; nothing else may be
  switched off, or a waiting thread sleeps for ever. The shadow \<open>irq_enable\<close> has to agree with the register.
\<close>

definition ctl_ok :: "jtag_world \<Rightarrow> bool" where
  "ctl_ok w \<longleftrightarrow> (\<exists>v. last_wr (ju_base (sp w)) JU_CONTROL_REG (io w) = Some v \<and> v AND 3 = ju_irq_enable (sp w) AND 3)"

definition tx_awake :: "jtag_world \<Rightarrow> bool" where
  "tx_awake w \<longleftrightarrow> txq (sp w) = [] \<or> bit (ju_irq_enable (sp w)) 1"

definition rx_awake :: "jtag_world \<Rightarrow> bool" where
  "rx_awake w \<longleftrightarrow> rxq (sp w) \<noteq> [] \<or> bit (ju_irq_enable (sp w)) 0"

text \<open>The device's FIFO: a read that is not valid leaves nothing available.\<close>

definition rx_fifo_hw :: "hw \<Rightarrow> u32 \<Rightarrow> bool" where
  "rx_fifo_hw hw b \<longleftrightarrow> (\<forall>t. hw t b JU_DATA_REG AND JU_DATA_RVALID_MSK = 0 \<longrightarrow> hw t b JU_DATA_REG AND JU_DATA_RAVAIL_MSK = 0)"

section \<open>The handler\<close>

text \<open>Receiving changes nothing but the receive queue, and reports more bytes only with the queue not empty.\<close>

definition received :: "jtag_world \<Rightarrow> jtag_world \<Rightarrow> bool" where
  "received w w' \<longleftrightarrow> ju_base (sp w') = ju_base (sp w) \<and> ju_irq_enable (sp w') = ju_irq_enable (sp w)
     \<and> txq (sp w') = txq (sp w) \<and> rx_ok (sp w')
     \<and> last_wr (ju_base (sp w)) JU_CONTROL_REG (io w') = last_wr (ju_base (sp w)) JU_CONTROL_REG (io w)
     \<and> (rxq (sp w) \<noteq> [] \<longrightarrow> rxq (sp w') \<noteq> [])"

lemma full_not_empty: "rx_ok s \<Longrightarrow> (rx_in s + 1) mod BUF_LEN = rx_out s \<Longrightarrow> rxq s \<noteq> []"
proof
  assume ok: "rx_ok s" and f: "(rx_in s + 1) mod BUF_LEN = rx_out s" and e: "rxq s = []"
  have i: "rx_in s < BUF_LEN" "rx_out s < BUF_LEN" using ok by (simp_all add: rx_ok_def)
  then have "rx_in s = rx_out s" using e ring_count_0[OF i] by (simp add: rxq_def length_ring flip: length_0_conv)
  then have "unat ((rx_in s + 1) mod BUF_LEN) = unat (rx_in s)" using f by simp
  then show False using i(1) by (auto simp: unat_add_mod_len less_len mod_if split: if_splits)
qed

lemma isr_rx_received:
  assumes "jtag_isr_rx hw data w = Some (v, w')" "rx_ok (sp w)" "rx_fifo_hw hw (ju_base (sp w))"
  shows "received w w' \<and> (v AND JU_DATA_RAVAIL_MSK \<noteq> 0 \<longrightarrow> rxq (sp w') \<noteq> [])"
proof -
  let ?P = "\<lambda>hw data w r. rx_ok (sp w) \<longrightarrow> rx_fifo_hw hw (ju_base (sp w))
    \<longrightarrow> received w (snd r) \<and> (fst r AND JU_DATA_RAVAIL_MSK \<noteq> 0 \<longrightarrow> rxq (sp (snd r)) \<noteq> [])"
  have "?P hw data w (v, w')"
  proof (rule jtag_isr_rx.raw_induct[where P = ?P, rotated, OF assms(1)], intro impI)
    fix f hw data w r
    assume ih: "\<And>hw data w r. f hw data w = Some r \<Longrightarrow> ?P hw data w r"
      and step: "(let next0 = (rx_in (sp w) + 1) mod BUF_LEN
      in if next0 = rx_out (sp w) then Some (data, w)
         else (let (data1, w1) = iord hw (ju_base (sp w)) JU_DATA_REG w
               in if data1 AND JU_DATA_RVALID_MSK = 0 then Some (data1, w1)
                  else f hw data1 (sp_upd (rx_push (ucast (data1 AND JU_DATA_DATA_MSK))) w1))) = Some r"
      and ok: "rx_ok (sp w)" and h: "rx_fifo_hw hw (ju_base (sp w))"
    let ?d = "hw (io w) (ju_base (sp w)) JU_DATA_REG"
    let ?w1 = "w\<lparr>io := Rd (ju_base (sp w)) JU_DATA_REG ?d # io w\<rparr>"
    let ?w2 = "sp_upd (rx_push (ucast (?d AND JU_DATA_DATA_MSK))) ?w1"
    show "received w (snd r) \<and> (fst r AND JU_DATA_RAVAIL_MSK \<noteq> 0 \<longrightarrow> rxq (sp (snd r)) \<noteq> [])"
    proof (cases "(rx_in (sp w) + 1) mod BUF_LEN = rx_out (sp w)")
      case True
      then show ?thesis using step ok full_not_empty[OF ok True] by (auto simp: received_def)
    next
      case ne: False
      show ?thesis
      proof (cases "?d AND JU_DATA_RVALID_MSK = 0")
        case True
        then have "r = (?d, ?w1)" using step ne by (simp add: iord_eq Let_def)
        then show ?thesis using ok h True by (auto simp: received_def rx_fifo_hw_def)
      next
        case False
        then have "f hw ?d ?w2 = Some r" using step ne by (simp add: iord_eq Let_def)
        note push = rx_push_simps[OF ok ne]
        have "rx_ok (sp ?w2)" "ju_base (sp ?w2) = ju_base (sp w)" "ju_irq_enable (sp ?w2) = ju_irq_enable (sp w)"
          "txq (sp ?w2) = txq (sp w)" "rxq (sp ?w2) \<noteq> []" "last_wr b JU_CONTROL_REG (io ?w2) = last_wr b JU_CONTROL_REG (io w)" for b
          using push by (simp_all add: sp_upd_def, simp_all add: rx_push_def txq_def)
        moreover from this have "received ?w2 (snd r) \<and> (fst r AND JU_DATA_RAVAIL_MSK \<noteq> 0 \<longrightarrow> rxq (sp (snd r)) \<noteq> [])"
          using ih[OF \<open>f hw ?d ?w2 = Some r\<close>] h by simp
        ultimately show ?thesis by (auto simp: received_def)
      qed
    qed
  qed
  then show ?thesis using assms(2,3) by simp
qed

text \<open>What every step of the handler keeps.\<close>

definition wake_inv :: "hw \<Rightarrow> jtag_world \<Rightarrow> bool" where
  "wake_inv hw w \<longleftrightarrow> rx_ok (sp w) \<and> tx_ok (sp w) \<and> rx_fifo_hw hw (ju_base (sp w)) \<and> ctl_ok w"

lemma mask_off_eqs:
  "sp (isr_mask_off hw m w) = (sp w)\<lparr>ju_irq_enable := ju_irq_enable (sp w) AND NOT m\<rparr>"
  "last_wr (ju_base (sp w)) JU_CONTROL_REG (io (isr_mask_off hw m w)) = Some (ju_irq_enable (sp w) AND NOT m)"
  by (simp_all add: isr_mask_off_def sp_upd_def iowr_eq iord_eq Let_def)

lemma mask_off_wake:
  assumes "wake_inv hw w"
  shows "wake_inv hw (isr_mask_off hw m w)"
    and "\<not> bit m 1 \<or> txq (sp w) = [] \<Longrightarrow> tx_awake w \<Longrightarrow> tx_awake (isr_mask_off hw m w)"
    and "\<not> bit m 0 \<or> rxq (sp w) \<noteq> [] \<Longrightarrow> rx_awake w \<Longrightarrow> rx_awake (isr_mask_off hw m w)"
  using assms by (auto simp: wake_inv_def ctl_ok_def tx_awake_def rx_awake_def mask_off_eqs bit_simps)


lemma iord_wake: "iord hw (ju_base (sp w)) r w = (v, w1) \<Longrightarrow>
    (wake_inv hw' w1 = wake_inv hw' w) \<and> (tx_awake w1 = tx_awake w) \<and> (rx_awake w1 = rx_awake w)"
  by (auto simp: iord_eq wake_inv_def ctl_ok_def tx_awake_def rx_awake_def)

lemma isr_receive_wake:
  assumes "jtag_isr_receive hw w = Some w'" "wake_inv hw w"
  shows "wake_inv hw w' \<and> (tx_awake w \<longrightarrow> tx_awake w') \<and> (rx_awake w \<longrightarrow> rx_awake w')"
proof -
  obtain v w1 where r: "jtag_isr_rx hw (push_bit JU_DATA_RAVAIL_OFST 1) w = Some (v, w1)"
    "w' = (if v AND JU_DATA_RAVAIL_MSK \<noteq> 0 then isr_mask_off hw JU_CONTROL_RE_MSK w1 else w1)"
    using assms(1) by (auto simp: jtag_isr_receive_def split: option.splits)
  have i: "rx_ok (sp w)" "tx_ok (sp w)" "rx_fifo_hw hw (ju_base (sp w))" "ctl_ok w" using assms(2) by (simp_all add: wake_inv_def)
  note rc = isr_rx_received[OF r(1) i(1,3)]
  obtain v' w1' where "jtag_isr_rx hw (push_bit JU_DATA_RAVAIL_OFST 1) w = Some (v', w1')" "isr_step w w1'"
    using isr_rx_ends[OF i(1,2)] by blast
  then have "tx_ok (sp w1)" using r(1) isr_step_ok by auto
  then have w1: "wake_inv hw w1" "tx_awake w \<longrightarrow> tx_awake w1" "rx_awake w \<longrightarrow> rx_awake w1"
    using rc i by (auto simp: wake_inv_def ctl_ok_def tx_awake_def rx_awake_def received_def)
  show ?thesis
  proof (cases "v AND JU_DATA_RAVAIL_MSK \<noteq> 0")
    case True
    have "\<not> bit JU_CONTROL_RE_MSK 1" by (simp add: JU_CONTROL_RE_MSK_def bit_simps)
    then show ?thesis
      using True r(2) rc w1 mask_off_wake[OF w1(1), of JU_CONTROL_RE_MSK] by auto
  next
    case False
    then show ?thesis using r(2) w1 by auto
  qed
qed

lemma isr_tx_wake:
  "jtag_isr_tx space w = (sp', w') \<Longrightarrow> wake_inv hw w \<Longrightarrow>
    wake_inv hw w' \<and> (tx_awake w \<longrightarrow> tx_awake w') \<and> (rx_awake w \<longrightarrow> rx_awake w') \<and> (sp' > 0 \<longrightarrow> txq (sp w') = [])"
proof (induction space w rule: jtag_isr_tx.induct)
  case (1 space w)
  show ?case
  proof (cases "space > 0 \<and> tx_out (sp w) \<noteq> tx_in (sp w)")
    case False
    then have "w' = w" "sp' = space" using "1.prems"(1) by (subst (asm) jtag_isr_tx.simps; auto)+
    moreover have "txq (sp w) = []" if "tx_out (sp w) = tx_in (sp w)"
      using that by (simp add: txq_def ring_def ring_count_def)
    ultimately show ?thesis using "1.prems"(2) False by auto
  next
    case True
    obtain c s1 where p: "tx_pop (sp w) = (c, s1)" by fastforce
    define w1 where "w1 = (iowr (ju_base (sp w)) JU_DATA_REG (ucast c) w)\<lparr>sp := s1\<rparr>"
    have ok: "tx_ok (sp w)" using "1.prems"(2) by (simp add: wake_inv_def)
    have q: "tx_ok s1" "txq (sp w) = c # txq s1"
      using tx_pop_simps[OF ok not_sym[OF conjunct2[OF True]]] p by simp_all
    have s1: "s1 = (sp w)\<lparr>tx_out := (tx_out (sp w) + 1) mod BUF_LEN\<rparr>" using p by (simp add: tx_pop_def)
    have "wake_inv hw w1" "tx_awake w \<longrightarrow> tx_awake w1" "rx_awake w \<longrightarrow> rx_awake w1"
      using "1.prems"(2) q s1
      by (auto simp: wake_inv_def ctl_ok_def tx_awake_def rx_awake_def w1_def iowr_eq rx_ok_def rxq_def reg_defs)
    moreover have "jtag_isr_tx (space - 1) w1 = (sp', w')"
      using "1.prems"(1) True p by (subst (asm) jtag_isr_tx.simps) (simp add: w1_def)
    ultimately show ?thesis using "1.IH"[OF True p[symmetric] refl refl] by (simp add: w1_def)
  qed
qed

lemma isr_send_wake:
  assumes "wake_inv hw w"
  shows "wake_inv hw (jtag_isr_send hw control w) \<and> (tx_awake w \<longrightarrow> tx_awake (jtag_isr_send hw control w))
    \<and> (rx_awake w \<longrightarrow> rx_awake (jtag_isr_send hw control w))"
proof -
  define space where "space = drop_bit JU_CONTROL_WSPACE_OFST (control AND JU_CONTROL_WSPACE_MSK)"
  obtain n w1 where t: "jtag_isr_tx space w = (n, w1)" by fastforce
  note w1 = isr_tx_wake[OF t assms]
  have "\<not> bit JU_CONTROL_WE_MSK 0" by (simp add: JU_CONTROL_WE_MSK_def bit_simps)
  then show ?thesis
    unfolding jtag_isr_send_def space_def[symmetric] Let_def t
    using w1 mask_off_wake[of hw w1 JU_CONTROL_WE_MSK] by auto
qed

lemma isr_round_wake:
  assumes "jtag_isr_round hw control w = Some w'" "wake_inv hw w"
  shows "wake_inv hw w' \<and> (tx_awake w \<longrightarrow> tx_awake w') \<and> (rx_awake w \<longrightarrow> rx_awake w')"
proof -
  obtain w1 where r: "(if control AND JU_CONTROL_RI_MSK \<noteq> 0 then jtag_isr_receive hw w else Some w) = Some w1"
    "w' = (if control AND JU_CONTROL_WI_MSK \<noteq> 0 then jtag_isr_send hw control w1 else w1)"
    using assms(1) by (auto simp: jtag_isr_round_def split: option.splits if_splits)
  have "wake_inv hw w1 \<and> (tx_awake w \<longrightarrow> tx_awake w1) \<and> (rx_awake w \<longrightarrow> rx_awake w1)"
    using r(1) isr_receive_wake[OF _ assms(2), of w1] assms(2) by (auto split: if_splits)
  then show ?thesis using isr_send_wake[of hw w1 control] unfolding r(2) by auto
qed

lemma irq_wake:
  assumes "altera_avalon_jtag_uart_irq hw w = Some w'" "wake_inv hw w"
  shows "wake_inv hw w' \<and> (tx_awake w \<longrightarrow> tx_awake w') \<and> (rx_awake w \<longrightarrow> rx_awake w')"
proof -
  let ?P = "\<lambda>hw w w'. wake_inv hw w \<longrightarrow> wake_inv hw w' \<and> (tx_awake w \<longrightarrow> tx_awake w') \<and> (rx_awake w \<longrightarrow> rx_awake w')"
  have "?P hw w w'"
  proof (rule altera_avalon_jtag_uart_irq.raw_induct[OF _ assms(1), where P = "?P"], intro impI)
    fix f hw w w'
    assume ih: "\<And>hw w w'. f hw w = Some w' \<Longrightarrow> ?P hw w w'"
      and step: "(let (control, w1) = iord hw (ju_base (sp w)) JU_CONTROL_REG w
        in if control AND (JU_CONTROL_RI_MSK OR JU_CONTROL_WI_MSK) = 0 then Some w1
           else (case jtag_isr_round hw control w1 of None \<Rightarrow> None | Some w2 \<Rightarrow> f hw w2)) = Some w'"
      and w: "wake_inv hw w"
    obtain control w1 where r: "iord hw (ju_base (sp w)) JU_CONTROL_REG w = (control, w1)" by fastforce
    note w1 = iord_wake[OF r]
    show "wake_inv hw w' \<and> (tx_awake w \<longrightarrow> tx_awake w') \<and> (rx_awake w \<longrightarrow> rx_awake w')"
    proof (cases "control AND (JU_CONTROL_RI_MSK OR JU_CONTROL_WI_MSK) = 0")
      case True
      then show ?thesis using step w w1[of hw] unfolding r by auto
    next
      case False
      then obtain w2 where "jtag_isr_round hw control w1 = Some w2" "f hw w2 = Some w'"
        using step r by (auto split: option.splits)
      then show ?thesis using isr_round_wake[of hw control w1 w2] ih[of hw w2 w'] w w1[of hw] by auto
    qed
  qed
  then show ?thesis using assms(2) by simp
qed

text \<open>The alarm writes the shadow with the acknowledgement of the host's activity.\<close>

lemma timeout_wake:
  assumes "wake_inv hw w"
  shows "wake_inv hw (snd (altera_avalon_jtag_uart_timeout hw n w))
    \<and> (tx_awake w \<longrightarrow> tx_awake (snd (altera_avalon_jtag_uart_timeout hw n w)))
    \<and> (rx_awake w \<longrightarrow> rx_awake (snd (altera_avalon_jtag_uart_timeout hw n w)))"
proof -
  have b: "(x OR JU_CONTROL_AC_MSK) AND 3 = x AND 3" for x
  proof -
    have "JU_CONTROL_AC_MSK AND 3 = 0" by (simp add: JU_CONTROL_AC_MSK_def)
    then show ?thesis by (simp add: bit.conj_disj_distrib2)
  qed
  show ?thesis
    using assms b
    by (auto simp: altera_avalon_jtag_uart_timeout_def iord_eq iowr_eq sp_upd_def Let_def wake_inv_def ctl_ok_def
        tx_awake_def rx_awake_def rx_ok_def tx_ok_def rxq_def txq_def)
qed

end
