(* ===== verification/JtagSteps.thy ===== *)
theory JtagSteps
  imports JtagWake
begin

text \<open>
  The calls of the JTAG UART driver against interrupts at any point: \<open>altera_avalon_jtag_uart_write\<close> and
  \<open>_read\<close> as threads that make one access to the shared state per step, with the interrupt handler and
  the alarm between any two steps, as long as the processor's interrupts are on. There is no
  operating system, so that a thread waits by spinning.
\<close>

section \<open>The writer\<close>

text \<open>
  Where the writer is: at the reads of \<open>tx_in\<close> and \<open>tx_out\<close>, after \<open>k\<close> bytes of the copy, in the section
  with interrupts off, in the two halves of the condition it spins on, and at the test of \<open>host_inactive\<close>.
\<close>

datatype wr_pc = Wr_In | Wr_Out | Wr_Copy nat | Wr_Mask | Wr_Enable | Wr_Control | Wr_Unmask | Wr_Spin | Wr_Host | Wr_Inactive | Wr_Done

text \<open>\<open>wr_data\<close> is what \<open>ptr\<close> and \<open>count\<close> say is left; the rest are the locals of the same names.\<close>

record wr_thread =
  wr_pc :: wr_pc
  wr_data :: "u8 list"
  wr_in :: u32
  wr_out :: u32
  wr_n :: nat
  wr_context :: u32

definition wr_start :: "u8 list \<Rightarrow> wr_thread" where
  "wr_start data = \<lparr>wr_pc = Wr_In, wr_data = data, wr_in = 0, wr_out = 0, wr_n = 0, wr_context = 0\<rparr>"

definition wr_room :: "u32 \<Rightarrow> u32 \<Rightarrow> u32" where
  "wr_room in0 out = (if in0 < out then out - 1 - in0 else if out > 0 then BUF_LEN - in0 else BUF_LEN - 1 - in0)"

fun wr_step :: "bool \<Rightarrow> wr_thread \<times> jtag_world \<Rightarrow> wr_thread \<times> jtag_world" where
  "wr_step nonblock (t, w) =
     (case wr_pc t of
        Wr_In \<Rightarrow> (if wr_data t \<noteq> [] then (t\<lparr>wr_in := tx_in (sp w), wr_pc := Wr_Out\<rparr>, w) else (t\<lparr>wr_pc := Wr_Mask\<rparr>, w))
      | Wr_Out \<Rightarrow>
          (let out = tx_out (sp w); n = unat (wr_room (wr_in t) out)
           in if n = 0 then (t\<lparr>wr_out := out, wr_n := n, wr_pc := Wr_Mask\<rparr>, w)
              else (t\<lparr>wr_out := out, wr_n := (if n > length (wr_data t) then length (wr_data t) else n), wr_pc := Wr_Copy 0\<rparr>, w))
      | Wr_Copy k \<Rightarrow>
          (if k < wr_n t
           then (t\<lparr>wr_pc := Wr_Copy (Suc k)\<rparr>, sp_upd (\<lambda>s. s\<lparr>tx_buf := (tx_buf s)(wr_in t + of_nat k := wr_data t ! k)\<rparr>) w)
           else (t\<lparr>wr_data := drop (wr_n t) (wr_data t), wr_pc := Wr_In\<rparr>,
                 sp_upd (\<lambda>s. s\<lparr>tx_in := (wr_in t + of_nat (wr_n t)) mod BUF_LEN\<rparr>) w))
      | Wr_Mask \<Rightarrow> (let (c, w1) = alt_irq_disable_all w in (t\<lparr>wr_context := c, wr_pc := Wr_Enable\<rparr>, w1))
      | Wr_Enable \<Rightarrow> (t\<lparr>wr_pc := Wr_Control\<rparr>, sp_upd (\<lambda>s. s\<lparr>ju_irq_enable := ju_irq_enable s OR JU_CONTROL_WE_MSK\<rparr>) w)
      | Wr_Control \<Rightarrow> (t\<lparr>wr_pc := Wr_Unmask\<rparr>, iowr (ju_base (sp w)) JU_CONTROL_REG (ju_irq_enable (sp w)) w)
      | Wr_Unmask \<Rightarrow>
          (t\<lparr>wr_pc := (if wr_data t \<noteq> [] \<and> \<not> nonblock then Wr_Spin else Wr_Done)\<rparr>, alt_irq_enable_all (wr_context t) w)
      | Wr_Spin \<Rightarrow> (t\<lparr>wr_pc := (if wr_out t = tx_out (sp w) then Wr_Host else Wr_Inactive)\<rparr>, w)
      | Wr_Host \<Rightarrow> (t\<lparr>wr_pc := (if host_active w then Wr_Spin else Wr_Inactive)\<rparr>, w)
      | Wr_Inactive \<Rightarrow> (t\<lparr>wr_pc := (if ju_host_inactive (sp w) \<noteq> 0 then Wr_Done else Wr_In)\<rparr>, w)
      | Wr_Done \<Rightarrow> (t, w))"

definition wr_result :: "bool \<Rightarrow> u8 list \<Rightarrow> wr_thread \<Rightarrow> int" where
  "wr_result nonblock data t =
     (if length (wr_data t) < length data then int (length data) - int (length (wr_data t))
      else if nonblock then - EWOULDBLOCK else - EIO)"

section \<open>The reader\<close>

datatype rd_pc = Rd_In | Rd_Out | Rd_Copy nat | Rd_More | Rd_Spin | Rd_Host | Rd_Again | Rd_Mask | Rd_Enable | Rd_Control | Rd_Unmask | Rd_Done

text \<open>\<open>rd_got\<close> is the caller's buffer below \<open>ptr\<close>, and \<open>rd_tmp\<close> what the copy has stored above.\<close>

record rd_thread =
  rd_pc :: rd_pc
  rd_got :: "u8 list"
  rd_tmp :: "u8 list"
  rd_space :: int
  rd_in :: u32
  rd_out :: u32
  rd_n :: nat
  rd_context :: u32

definition rd_start :: "int \<Rightarrow> rd_thread" where
  "rd_start space = \<lparr>rd_pc = (if space > 0 then Rd_In else Rd_Done), rd_got = [], rd_tmp = [], rd_space = space,
     rd_in = 0, rd_out = 0, rd_n = 0, rd_context = 0\<rparr>"

text \<open>After the inner loop: done with something read or without blocking, else to the wait.\<close>

definition rd_leave :: "bool \<Rightarrow> rd_thread \<Rightarrow> rd_pc" where
  "rd_leave nonblock t = (if rd_got t \<noteq> [] then Rd_Mask else if nonblock then Rd_Done else Rd_Spin)"

fun rd_step :: "bool \<Rightarrow> rd_thread \<times> jtag_world \<Rightarrow> rd_thread \<times> jtag_world" where
  "rd_step nonblock (t, w) =
     (case rd_pc t of
        Rd_In \<Rightarrow> (t\<lparr>rd_in := rx_in (sp w), rd_pc := Rd_Out\<rparr>, w)
      | Rd_Out \<Rightarrow>
          (let out = rx_out (sp w);
               n = unat (if rd_in t \<ge> out then rd_in t - out else BUF_LEN - out)
           in if n = 0 then (t\<lparr>rd_out := out, rd_n := n, rd_pc := rd_leave nonblock t\<rparr>, w)
              else (t\<lparr>rd_out := out, rd_n := (if int n > rd_space t then nat (rd_space t) else n), rd_pc := Rd_Copy 0, rd_tmp := []\<rparr>, w))
      | Rd_Copy k \<Rightarrow>
          (if k < rd_n t
           then (t\<lparr>rd_tmp := rd_tmp t @ [rx_buf (sp w) (rd_out t + of_nat k)], rd_pc := Rd_Copy (Suc k)\<rparr>, w)
           else (t\<lparr>rd_got := rd_got t @ rd_tmp t, rd_tmp := [], rd_space := rd_space t - int (rd_n t), rd_pc := Rd_More\<rparr>,
                 sp_upd (\<lambda>s. s\<lparr>rx_out := (rd_out t + of_nat (rd_n t)) mod BUF_LEN\<rparr>) w))
      | Rd_More \<Rightarrow> (t\<lparr>rd_pc := (if rd_space t > 0 then Rd_In else rd_leave nonblock t)\<rparr>, w)
      | Rd_Spin \<Rightarrow> (t\<lparr>rd_pc := (if rd_in t = rx_in (sp w) then Rd_Host else Rd_Again)\<rparr>, w)
      | Rd_Host \<Rightarrow> (t\<lparr>rd_pc := (if host_active w then Rd_Spin else Rd_Again)\<rparr>, w)
      | Rd_Again \<Rightarrow> (t\<lparr>rd_pc := (if rd_in t = rx_in (sp w) then Rd_Done else Rd_In)\<rparr>, w)
      | Rd_Mask \<Rightarrow> (let (c, w1) = alt_irq_disable_all w in (t\<lparr>rd_context := c, rd_pc := Rd_Enable\<rparr>, w1))
      | Rd_Enable \<Rightarrow> (t\<lparr>rd_pc := Rd_Control\<rparr>, sp_upd (\<lambda>s. s\<lparr>ju_irq_enable := ju_irq_enable s OR JU_CONTROL_RE_MSK\<rparr>) w)
      | Rd_Control \<Rightarrow> (t\<lparr>rd_pc := Rd_Unmask\<rparr>, iowr (ju_base (sp w)) JU_CONTROL_REG (ju_irq_enable (sp w)) w)
      | Rd_Unmask \<Rightarrow> (t\<lparr>rd_pc := Rd_Done\<rparr>, alt_irq_enable_all (rd_context t) w)
      | Rd_Done \<Rightarrow> (t, w))"

definition rd_result :: "bool \<Rightarrow> rd_thread \<Rightarrow> int" where
  "rd_result nonblock t = (if rd_got t \<noteq> [] then int (length (rd_got t)) else if nonblock then - EWOULDBLOCK else - EIO)"

section \<open>Interrupts\<close>

text \<open>Accesses to other devices only.\<close>

definition quiet_at :: "u32 \<Rightarrow> trace \<Rightarrow> bool" where
  "quiet_at b d \<longleftrightarrow> (\<forall>r. wr_log b r d = [] \<and> rd_log b r d = [])"

lemma quiet_at_logs:
  assumes "quiet_at b d"
  shows "rx_valid b d = []" "tx_sent b d = []" "last_wr b r (d @ t) = last_wr b r t"
  using assms by (simp_all add: quiet_at_def rx_valid_def tx_sent_def last_wr_log wr_log_append)

text \<open>
  What the processor takes between two steps of a thread, when its interrupts are on: the UART's
  handler, its alarm, or a handler that leaves the UART and its driver alone.
\<close>

inductive interrupt :: "hw \<Rightarrow> jtag_world \<Rightarrow> jtag_world \<Rightarrow> bool" for hw where
  uart: "mstatus w AND NIOSV_MSTATUS_MIE_MASK \<noteq> 0 \<Longrightarrow> altera_avalon_jtag_uart_irq hw w = Some w' \<Longrightarrow> interrupt hw w w'"
| alarm: "mstatus w AND NIOSV_MSTATUS_MIE_MASK \<noteq> 0 \<Longrightarrow> interrupt hw w (snd (altera_avalon_jtag_uart_timeout hw n w))"
| other: "mstatus w AND NIOSV_MSTATUS_MIE_MASK \<noteq> 0 \<Longrightarrow> sp w' = sp w \<Longrightarrow> mstatus w' = mstatus w \<Longrightarrow> io w' = d @ io w
    \<Longrightarrow> quiet_at (ju_base (sp w)) d \<Longrightarrow> interrupt hw w w'"

text \<open>A thread and the interrupts: the states reached from a start.\<close>

inductive interleaved :: "hw \<Rightarrow> ('t \<times> jtag_world \<Rightarrow> 't \<times> jtag_world) \<Rightarrow> 't \<times> jtag_world \<Rightarrow> 't \<times> jtag_world \<Rightarrow> bool"
  for hw step c0 where
  start: "interleaved hw step c0 c0"
| thread: "interleaved hw step c0 c \<Longrightarrow> interleaved hw step c0 (step c)"
| irq: "interleaved hw step c0 (t, w) \<Longrightarrow> interrupt hw w w' \<Longrightarrow> interleaved hw step c0 (t, w')"

inductive_cases interruptE: "interrupt hw w w'"

text \<open>What an interrupt does to the driver.\<close>

lemma interrupt_step:
  assumes "interrupt hw w w'" "rx_ok (sp w)" "tx_ok (sp w)"
  shows "rx_ok (sp w') \<and> tx_ok (sp w') \<and> ju_base (sp w') = ju_base (sp w) \<and> mstatus w' = mstatus w
    \<and> rx_out (sp w') = rx_out (sp w) \<and> tx_in (sp w') = tx_in (sp w) \<and> tx_buf (sp w') = tx_buf (sp w)
    \<and> (\<exists>d. io w' = d @ io w \<and> rxq (sp w') = rxq (sp w) @ rx_valid (ju_base (sp w)) d
        \<and> txq (sp w) = tx_sent (ju_base (sp w)) d @ txq (sp w'))
    \<and> mstatus w AND NIOSV_MSTATUS_MIE_MASK \<noteq> 0"
  using assms(1)
proof cases
  case uart
  have "isr_step w w'" using jtag_irq_step[OF assms(2,3) uart(2)] .
  then show ?thesis using uart(1) unfolding isr_step_def by auto
next
  case (alarm n)
  let ?b = "ju_base (sp w)" and ?c = "hw (io w) (ju_base (sp w)) JU_CONTROL_REG"
  have "\<exists>d. io w' = d @ io w \<and> rx_valid ?b d = [] \<and> tx_sent ?b d = [] \<and> (\<exists>e. sp w' = (sp w)\<lparr>ju_host_inactive := e\<rparr>) \<and> mstatus w' = mstatus w"
  proof (cases "?c AND JU_CONTROL_AC_MSK \<noteq> 0")
    case True
    then show ?thesis unfolding alarm(1)
      by (intro exI[of _ "[Wr ?b JU_CONTROL_REG (ju_irq_enable (sp w) OR JU_CONTROL_AC_MSK), Rd ?b JU_CONTROL_REG ?c]"])
         (auto simp: altera_avalon_jtag_uart_timeout_def iord_eq iowr_eq sp_upd_def Let_def rx_valid_def tx_sent_def reg_defs)
  next
    case False
    have "\<exists>e. sp w = (sp w)\<lparr>ju_host_inactive := e\<rparr>" by (rule exI[of _ "ju_host_inactive (sp w)"]) simp
    then show ?thesis unfolding alarm(1) using False
      by (intro exI[of _ "[Rd ?b JU_CONTROL_REG ?c]"])
         (auto simp: altera_avalon_jtag_uart_timeout_def iord_eq iowr_eq sp_upd_def Let_def rx_valid_def tx_sent_def reg_defs)
  qed
  then show ?thesis using assms(2,3) alarm(2) by (auto simp: rx_ok_def tx_ok_def rxq_def txq_def)
next
  case (other d)
  then show ?thesis using assms(2,3) by (auto simp: quiet_at_logs)
qed

lemma other_wake:
  assumes "sp w' = sp w" "io w' = d @ io w" "quiet_at (ju_base (sp w)) d"
  shows "wake_inv hw w' = wake_inv hw w \<and> tx_awake w' = tx_awake w \<and> rx_awake w' = rx_awake w"
  using assms by (simp add: wake_inv_def ctl_ok_def tx_awake_def rx_awake_def quiet_at_logs)

lemma no_interrupt_masked: "interrupt hw w w' \<Longrightarrow> mstatus w \<noteq> m AND NOT NIOSV_MSTATUS_MIE_MASK"
  by (auto elim!: interruptE simp: and.assoc)

lemma interrupt_wake:
  assumes "interrupt hw w w'" "wake_inv hw w"
  shows "wake_inv hw w' \<and> (tx_awake w \<longrightarrow> tx_awake w') \<and> (rx_awake w \<longrightarrow> rx_awake w')"
  using assms(1) by cases (use irq_wake[OF _ assms(2)] timeout_wake[OF assms(2)] other_wake[of w' w] assms(2) in auto)

section \<open>Cells outside a queue\<close>

text \<open>Storing behind the queue changes nothing in it, and publishing what was stored appends it.\<close>

lemma txq_outside:
  assumes "tx_ok s" "tx_fits n s" "k < n"
  shows "txq (s\<lparr>tx_buf := (tx_buf s)(tx_in s + of_nat k := x)\<rparr>) = txq s"
proof -
  let ?i = "tx_in s" and ?o = "tx_out s"
  have ok: "?i < BUF_LEN" "?o < BUF_LEN" using assms(1) by (simp_all add: tx_ok_def)
  then have a: "unat ?i < 2048" "unat ?o < 2048" by (simp_all add: less_len)
  have f: "ring_count ?i ?o + n < 2048" "unat ?i + n \<le> 2048" using assms(2) by (simp_all add: tx_fits_def)
  have ik: "unat (?i + of_nat k) = unat ?i + k"
    using f assms(3) unat_of_nat_32[of k] by (subst unat_add_lem[THEN iffD1]) simp_all
  have "ring_n ((tx_buf s)(?i + of_nat k := x)) ?o (ring_count ?i ?o) = ring_n (tx_buf s) ?o (ring_count ?i ?o)"
  proof (rule ring_n_cong[OF _ ok(2)])
    fix j assume j: "j < ring_count ?i ?o"
    then have j32: "j < 2 ^ 32" using ring_count_less[of ?i ?o] by simp
    have "unat ((?o + of_nat j) mod BUF_LEN) = (unat ?o + j) mod 2048"
      by (simp add: unat_add_mod_len unat_of_nat_32[OF j32])
    also have "\<dots> \<noteq> unat ?i + k"
      using j f assms(3) a ring_count_cases[OF ok] by (auto simp: mod_if word_le_nat_alt split: if_splits)
    finally have "(?o + of_nat j) mod BUF_LEN \<noteq> ?i + of_nat k" using ik by metis
    then show "((tx_buf s)(?i + of_nat k := x)) ((?o + of_nat j) mod BUF_LEN) = tx_buf s ((?o + of_nat j) mod BUF_LEN)" by simp
  qed
  then show ?thesis by (simp add: txq_def ring_def)
qed

lemma put_cells_same:
  assumes "cells buf p (length bs) = bs" "unat p + length bs \<le> 2048"
  shows "put_cells buf p bs = buf"
proof
  fix a
  show "put_cells buf p bs a = buf a"
  proof (cases "unat p \<le> unat a \<and> unat a < unat p + length bs")
    case True
    define k where "k = unat a - unat p"
    have k: "k < length bs" "unat a = unat p + k" using True by (auto simp: k_def)
    then have "unat (p + of_nat k) = unat a"
      using assms(2) unat_of_nat_32[of k] by (subst unat_add_lem[THEN iffD1]) simp_all
    then have "p + of_nat k = a" by (simp add: word_unat_eq_iff)
    moreover have "bs ! k = buf (p + of_nat k)" using k(1) by (subst assms(1)[symmetric]) (simp add: cells_def)
    ultimately show ?thesis using True by (simp add: put_cells_def k_def)
  qed (auto simp: put_cells_def)
qed

lemma publish_stored:
  assumes "tx_ok s" "tx_fits (length bs) s" "cells (tx_buf s) (tx_in s) (length bs) = bs"
  shows "txq (s\<lparr>tx_in := (tx_in s + of_nat (length bs)) mod BUF_LEN\<rparr>) = txq s @ bs"
    "tx_ok (s\<lparr>tx_in := (tx_in s + of_nat (length bs)) mod BUF_LEN\<rparr>)"
proof -
  have "put_cells (tx_buf s) (tx_in s) bs = tx_buf s"
    by (rule put_cells_same[OF assms(3)]) (use assms(2) in \<open>simp add: tx_fits_def\<close>)
  then have "tx_put bs s = s\<lparr>tx_in := (tx_in s + of_nat (length bs)) mod BUF_LEN\<rparr>" by (simp add: tx_put_def)
  then show "txq (s\<lparr>tx_in := (tx_in s + of_nat (length bs)) mod BUF_LEN\<rparr>) = txq s @ bs"
    "tx_ok (s\<lparr>tx_in := (tx_in s + of_nat (length bs)) mod BUF_LEN\<rparr>)"
    using tx_put_simps[OF assms(1,2)] by simp_all
qed

lemma cells_snoc: "cells buf p (Suc k) = cells buf p k @ [buf (p + of_nat k)]"
  by (simp add: cells_def)

lemma cells_upd:
  assumes "unat p + n \<le> 2048" "k < n"
  shows "cells (buf(p + of_nat k := x)) p (Suc k) = cells buf p k @ [x]"
proof -
  have ne: "p + of_nat j \<noteq> p + of_nat k" if "j < k" for j
  proof -
    have "unat (of_nat j :: u32) \<noteq> unat (of_nat k :: u32)"
      using that assms unat_of_nat_32[of j] unat_of_nat_32[of k] by simp
    then show ?thesis by auto
  qed
  show ?thesis unfolding cells_snoc using ne by (simp add: cells_def)
qed

lemma tx_room_eq: "tx_room s = wr_room (tx_in s) (tx_out s)"
  by (simp add: tx_room_def wr_room_def Let_def)

section \<open>The writer's invariant\<close>

definition wr_masked :: "wr_pc \<Rightarrow> bool" where
  "wr_masked p \<longleftrightarrow> p = Wr_Enable \<or> p = Wr_Control \<or> p = Wr_Unmask"

definition wr_copying :: "wr_thread \<Rightarrow> jtag_state \<Rightarrow> nat \<Rightarrow> bool" where
  "wr_copying t s k \<longleftrightarrow> wr_in t = tx_in s \<and> k \<le> wr_n t \<and> 0 < wr_n t \<and> wr_n t \<le> length (wr_data t) \<and> tx_fits (wr_n t) s
     \<and> cells (tx_buf s) (tx_in s) k = take k (wr_data t)"

definition wr_flow :: "u8 list \<Rightarrow> jtag_world \<Rightarrow> wr_thread \<Rightarrow> jtag_world \<Rightarrow> bool" where
  "wr_flow data w0 t w \<longleftrightarrow> tx_ok (sp w) \<and> rx_ok (sp w) \<and> ju_base (sp w) = ju_base (sp w0)
     \<and> (\<exists>sent d. data = sent @ wr_data t \<and> io w = d @ io w0
          \<and> txq (sp w0) @ sent = tx_sent (ju_base (sp w0)) d @ txq (sp w)
          \<and> rxq (sp w) = rxq (sp w0) @ rx_valid (ju_base (sp w0)) d)"

definition wr_inv :: "bool \<Rightarrow> u8 list \<Rightarrow> jtag_world \<Rightarrow> wr_thread \<times> jtag_world \<Rightarrow> bool" where
  "wr_inv nonblock data w0 c \<longleftrightarrow>
     (let (t, w) = c
      in wr_flow data w0 t w
         \<and> (if wr_masked (wr_pc t) then mstatus w = mstatus w0 AND NOT NIOSV_MSTATUS_MIE_MASK \<and> wr_context t = mstatus w0
            else mstatus w = mstatus w0)
         \<and> (case wr_pc t of Wr_Out \<Rightarrow> wr_data t \<noteq> [] \<and> wr_in t = tx_in (sp w)
            | Wr_Copy k \<Rightarrow> wr_copying t (sp w) k
            | _ \<Rightarrow> True))"

text \<open>A change of the state that leaves the queues, and adds nothing to the history that counts, keeps the flow.\<close>

lemma wr_flow_same:
  assumes "wr_flow data w0 t w" "io w' = e @ io w" "tx_sent (ju_base (sp w0)) e = []" "rx_valid (ju_base (sp w0)) e = []"
    "txq (sp w') = txq (sp w)" "rxq (sp w') = rxq (sp w)" "tx_ok (sp w')" "rx_ok (sp w')" "ju_base (sp w') = ju_base (sp w)"
    "wr_data t' = wr_data t"
  shows "wr_flow data w0 t' w'"
proof -
  obtain sent d where d: "data = sent @ wr_data t" "io w = d @ io w0"
    "txq (sp w0) @ sent = tx_sent (ju_base (sp w0)) d @ txq (sp w)" "rxq (sp w) = rxq (sp w0) @ rx_valid (ju_base (sp w0)) d"
    using assms(1) by (auto simp: wr_flow_def)
  then show ?thesis using assms unfolding wr_flow_def
    by (intro conjI exI[of _ sent] exI[of _ "e @ d"]) (simp_all add: tx_sent_append rx_valid_append)
qed

lemma wr_flow_thread: "wr_flow data w0 t w \<Longrightarrow> wr_data t' = wr_data t \<Longrightarrow> wr_flow data w0 t' w"
  by (simp add: wr_flow_def)

lemma wr_inv_start: "tx_ok (sp w) \<Longrightarrow> rx_ok (sp w) \<Longrightarrow> wr_inv nonblock data w (wr_start data, w)"
  by (auto simp: wr_inv_def wr_flow_def wr_start_def wr_masked_def tx_sent_def rx_valid_def)

lemma wr_inv_interrupt:
  assumes "interrupt hw w w'" "wr_inv nonblock data w0 (t, w)"
  shows "wr_inv nonblock data w0 (t, w')"
proof -
  have f: "wr_flow data w0 t w" using assms(2) by (simp add: wr_inv_def)
  then have ok: "rx_ok (sp w)" "tx_ok (sp w)" "ju_base (sp w) = ju_base (sp w0)" by (simp_all add: wr_flow_def)
  note i = interrupt_step[OF assms(1) ok(1,2)]
  obtain e where e: "io w' = e @ io w" "rxq (sp w') = rxq (sp w) @ rx_valid (ju_base (sp w0)) e"
    "txq (sp w) = tx_sent (ju_base (sp w0)) e @ txq (sp w')" using i ok(3) by auto
  have mi: "\<not> wr_masked (wr_pc t)"
    using no_interrupt_masked[OF assms(1), of "mstatus w0"] assms(2) by (auto simp: wr_inv_def)
  have "wr_flow data w0 t w'"
  proof -
    obtain sent d where d: "data = sent @ wr_data t" "io w = d @ io w0"
      "txq (sp w0) @ sent = tx_sent (ju_base (sp w0)) d @ txq (sp w)" "rxq (sp w) = rxq (sp w0) @ rx_valid (ju_base (sp w0)) d"
      using f by (auto simp: wr_flow_def)
    then show ?thesis using i e ok unfolding wr_flow_def
      by (intro conjI exI[of _ sent] exI[of _ "e @ d"]) (simp_all add: tx_sent_append rx_valid_append)
  qed
  moreover have "wr_copying t (sp w') k" if "wr_copying t (sp w) k" for k
  proof -
    have "ring_count (tx_in (sp w')) (tx_out (sp w')) \<le> ring_count (tx_in (sp w)) (tx_out (sp w))"
      using arg_cong[OF e(3), of length] by (simp add: txq_def length_ring)
    then show ?thesis using that i by (auto simp: wr_copying_def tx_fits_def)
  qed
  ultimately show ?thesis using assms(2) mi i by (auto simp: wr_inv_def split: wr_pc.splits)
qed

lemma wr_inv_thread:
  assumes "wr_inv nonblock data w0 (t, w)"
  shows "wr_inv nonblock data w0 (wr_step nonblock (t, w))"
proof -
  have f: "wr_flow data w0 t w" using assms by (simp add: wr_inv_def)
  then have ok: "rx_ok (sp w)" "tx_ok (sp w)" "ju_base (sp w) = ju_base (sp w0)" by (simp_all add: wr_flow_def)
  note same = wr_flow_thread[OF f]
  show ?thesis
  proof (cases "wr_pc t")
    case Wr_Out
    let ?n = "unat (wr_room (wr_in t) (tx_out (sp w)))"
    have i: "wr_in t = tx_in (sp w)" "wr_data t \<noteq> []" using assms Wr_Out by (auto simp: wr_inv_def)
    have r: "?n + ring_count (tx_in (sp w)) (tx_out (sp w)) \<le> 2047" "unat (tx_in (sp w)) + ?n \<le> 2048"
      using tx_room_props(1,2)[OF ok(2)] by (simp_all add: tx_room_eq i(1) txq_def length_ring)
    show ?thesis
    proof (cases "?n = 0")
      case True
      then show ?thesis using assms Wr_Out same by (auto simp: wr_inv_def wr_masked_def)
    next
      case False
      then have "wr_copying (t\<lparr>wr_out := tx_out (sp w), wr_n := min ?n (length (wr_data t)), wr_pc := Wr_Copy 0\<rparr>) (sp w) 0"
        using i r by (auto simp: wr_copying_def tx_fits_def cells_def min_def)
      then show ?thesis using False assms Wr_Out same by (auto simp: wr_inv_def wr_masked_def min_def Let_def)
    qed
  next
    case (Wr_Copy k)
    have c: "wr_copying t (sp w) k" using assms Wr_Copy by (simp add: wr_inv_def)
    have m: "mstatus w = mstatus w0" using assms Wr_Copy by (simp add: wr_inv_def wr_masked_def)
    show ?thesis
    proof (cases "k < wr_n t")
      case True
      let ?s = "(sp w)\<lparr>tx_buf := (tx_buf (sp w))(tx_in (sp w) + of_nat k := wr_data t ! k)\<rparr>"
      have "cells (tx_buf ?s) (tx_in (sp w)) (Suc k) = cells (tx_buf (sp w)) (tx_in (sp w)) k @ [wr_data t ! k]"
        using cells_upd[of "tx_in (sp w)" "wr_n t" k "tx_buf (sp w)"] c True by (simp add: wr_copying_def tx_fits_def)
      also have "\<dots> = take (Suc k) (wr_data t)"
        using c True by (simp add: wr_copying_def take_Suc_conv_app_nth)
      finally have "wr_copying (t\<lparr>wr_pc := Wr_Copy (Suc k)\<rparr>) ?s (Suc k)"
        using c True by (simp add: wr_copying_def tx_fits_def)
      moreover have "wr_flow data w0 (t\<lparr>wr_pc := Wr_Copy (Suc k)\<rparr>) (w\<lparr>sp := ?s\<rparr>)"
        by (rule wr_flow_same[OF f, of _ "[]"])
           (use ok txq_outside[OF ok(2) _ True] c in \<open>auto simp: wr_copying_def tx_sent_def rx_valid_def rxq_def rx_ok_def tx_ok_def\<close>)
      ultimately show ?thesis
        using True Wr_Copy m c by (simp add: wr_inv_def wr_masked_def sp_upd_def wr_copying_def)
    next
      case False
      then have k: "k = wr_n t" using c by (simp add: wr_copying_def)
      let ?bs = "take (wr_n t) (wr_data t)"
      let ?s = "(sp w)\<lparr>tx_in := (tx_in (sp w) + of_nat (wr_n t)) mod BUF_LEN\<rparr>"
      have l: "length ?bs = wr_n t" using c by (simp add: wr_copying_def)
      have p: "txq ?s = txq (sp w) @ ?bs" "tx_ok ?s"
        using publish_stored[OF ok(2), of ?bs] c unfolding l k by (simp_all add: wr_copying_def)
      obtain sent d where d: "data = sent @ wr_data t" "io w = d @ io w0"
        "txq (sp w0) @ sent = tx_sent (ju_base (sp w0)) d @ txq (sp w)" "rxq (sp w) = rxq (sp w0) @ rx_valid (ju_base (sp w0)) d"
        using f by (auto simp: wr_flow_def)
      have "wr_flow data w0 (t\<lparr>wr_data := drop (wr_n t) (wr_data t), wr_pc := Wr_In\<rparr>) (w\<lparr>sp := ?s\<rparr>)"
        unfolding wr_flow_def using d p ok
        by (intro conjI exI[of _ "sent @ ?bs"] exI[of _ d]) (simp_all add: rx_ok_def rxq_def)
      then show ?thesis
        using False Wr_Copy m c by (simp add: wr_inv_def wr_masked_def sp_upd_def wr_copying_def)
    qed
  next
    case Wr_Control
    let ?e = "[Wr (ju_base (sp w)) JU_CONTROL_REG (ju_irq_enable (sp w))]"
    have "wr_flow data w0 (t\<lparr>wr_pc := Wr_Unmask\<rparr>) (w\<lparr>io := ?e @ io w\<rparr>)"
      by (rule wr_flow_same[OF f, of _ ?e]) (use ok in \<open>simp_all add: tx_sent_def rx_valid_def reg_defs\<close>)
    then show ?thesis using assms Wr_Control by (simp add: wr_inv_def wr_masked_def iowr_eq)
  next
    case Wr_Enable
    have "wr_flow data w0 (t\<lparr>wr_pc := Wr_Control\<rparr>) (sp_upd (\<lambda>s. s\<lparr>ju_irq_enable := ju_irq_enable s OR JU_CONTROL_WE_MSK\<rparr>) w)"
      by (rule wr_flow_same[OF f, of _ "[]"]) (use ok in \<open>simp_all add: sp_upd_def tx_sent_def rx_valid_def\<close>)
    then show ?thesis using assms Wr_Enable by (simp add: wr_inv_def wr_masked_def sp_upd_def)
  next
    case Wr_Mask
    have "wr_flow data w0 (t\<lparr>wr_context := mstatus w, wr_pc := Wr_Enable\<rparr>) (w\<lparr>mstatus := mstatus w AND NOT NIOSV_MSTATUS_MIE_MASK\<rparr>)"
      by (rule wr_flow_same[OF f, of _ "[]"]) (use ok in \<open>simp_all add: tx_sent_def rx_valid_def\<close>)
    then show ?thesis using assms Wr_Mask by (simp add: wr_inv_def wr_masked_def alt_irq_disable_all_def)
  next
    case Wr_Unmask
    have "wr_flow data w0 t' (w\<lparr>mstatus := x\<rparr>)" if "wr_data t' = wr_data t" for t' x
      by (rule wr_flow_same[OF f, of _ "[]"]) (use ok that in \<open>simp_all add: tx_sent_def rx_valid_def\<close>)
    then show ?thesis
      using assms Wr_Unmask by (simp add: wr_inv_def wr_masked_def alt_irq_enable_all_def mstatus_restored)
  qed (use assms same in \<open>auto simp: wr_inv_def wr_masked_def\<close>)
qed

lemma wr_inv_reached:
  assumes "interleaved hw (wr_step nonblock) (wr_start data, w0) c" "tx_ok (sp w0)" "rx_ok (sp w0)"
  shows "wr_inv nonblock data w0 c"
  using assms(1)
proof induction
  case start
  show ?case using wr_inv_start[OF assms(2,3)] .
next
  case (thread c)
  then show ?case by (cases c) (simp only: wr_inv_thread)
next
  case (irq t w w')
  then show ?case using wr_inv_interrupt by blast
qed

text \<open>
  C8: Whatever interrupts the writer between any two accesses, at every moment the bytes it has published are a
  prefix of the caller's, and the old transmit queue followed by them is the bytes the device was given, in order,
  followed by the queue; what is received meanwhile joins the receive queue. At the end
  the processor's interrupts are as before, and the result is the number of bytes, or the error if there are none.
\<close>

theorem write_interrupted_anywhere:
  assumes "interleaved hw (wr_step nonblock) (wr_start data, w0) (t, w)" "tx_ok (sp w0)" "rx_ok (sp w0)"
    and "b = ju_base (sp w0)"
  shows "\<exists>sent d. data = sent @ wr_data t \<and> io w = d @ io w0
    \<and> txq (sp w0) @ sent = tx_sent b d @ txq (sp w) \<and> rxq (sp w) = rxq (sp w0) @ rx_valid b d
    \<and> tx_ok (sp w) \<and> rx_ok (sp w)
    \<and> (wr_pc t = Wr_Done \<longrightarrow> mstatus w = mstatus w0
       \<and> wr_result nonblock data t = (if sent \<noteq> [] then int (length sent) else if nonblock then - EWOULDBLOCK else - EIO))"
proof -
  have i: "wr_inv nonblock data w0 (t, w)" using wr_inv_reached[OF assms(1-3)] .
  then obtain sent d where d: "data = sent @ wr_data t" "io w = d @ io w0"
    "txq (sp w0) @ sent = tx_sent b d @ txq (sp w)" "rxq (sp w) = rxq (sp w0) @ rx_valid b d"
    "tx_ok (sp w)" "rx_ok (sp w)"
    by (auto simp: wr_inv_def wr_flow_def assms(4))
  moreover have "mstatus w = mstatus w0" if "wr_pc t = Wr_Done"
    using i that by (simp add: wr_inv_def wr_masked_def)
  moreover have "wr_result nonblock data t = (if sent \<noteq> [] then int (length sent) else if nonblock then - EWOULDBLOCK else - EIO)"
    using d(1) by (simp add: wr_result_def)
  ultimately show ?thesis by blast
qed

lemma interleaved_steps: "interleaved hw step c0 c \<Longrightarrow> interleaved hw step c0 ((step ^^ n) c)"
  by (induction n) (auto intro: interleaved.thread)

text \<open>A world with interrupts on, whose device was told the interrupts the driver takes.\<close>

definition steps_world :: jtag_world where
  "steps_world = jtag_boot_world\<lparr>mstatus := 8, io := [Wr 0x300a0 1 1]\<rparr>"

lemma steps_world_ok:
  "sp steps_world = jtag_boot" "io steps_world = [Wr 0x300a0 1 1]" "mstatus steps_world = 8"
  "rx_ok jtag_boot" "tx_ok jtag_boot" "rxq jtag_boot = []" "txq jtag_boot = []" "ju_base jtag_boot = 0x300a0" "ju_irq_enable jtag_boot = 1"
  by (simp_all add: steps_world_def jtag_boot_world_def clock_state.extend_def jtag_boot_def rx_ok_def tx_ok_def BUF_LEN_def
      rxq_def txq_def ring_def ring_count_def)

text \<open>A handler's run with nothing to do.\<close>

lemma idle_interrupt:
  assumes "mstatus w = 8"
  shows "interrupt (\<lambda>t b r. 0) w (w\<lparr>io := Rd (ju_base (sp w)) 1 0 # io w\<rparr>)"
proof (rule interrupt.uart)
  show "mstatus w AND NIOSV_MSTATUS_MIE_MASK \<noteq> 0" by (simp add: assms NIOSV_MSTATUS_MIE_MASK_def)
  show "altera_avalon_jtag_uart_irq (\<lambda>t b r. 0) w = Some (w\<lparr>io := Rd (ju_base (sp w)) 1 0 # io w\<rparr>)"
    by (subst altera_avalon_jtag_uart_irq.simps) (simp add: iord_eq JU_CONTROL_REG_def)
qed

text \<open>One byte, with an interrupt between the reads of the indices and the copy.\<close>

lemma short_write:
  "\<exists>t w. interleaved (\<lambda>t b r. 0) (wr_step False) (wr_start [0x48], steps_world) (t, w) \<and> wr_pc t = Wr_Done \<and> wr_data t = []
    \<and> txq (sp w) \<noteq> []"
proof -
  let ?w = "steps_world\<lparr>io := Rd 0x300a0 1 0 # io steps_world\<rparr>"
  let ?t = "wr_start [0x48]\<lparr>wr_n := 1, wr_pc := Wr_Copy 0\<rparr>"
  have "(wr_step False ^^ Suc (Suc 0)) (wr_start [0x48], steps_world) = (?t, steps_world)"
    by (simp add: wr_start_def wr_room_def steps_world_ok) (simp add: jtag_boot_def Let_def BUF_LEN_def)
  then have "interleaved (\<lambda>t b r. 0) (wr_step False) (wr_start [0x48], steps_world) (?t, steps_world)"
    using interleaved_steps[OF interleaved.start, of "\<lambda>t b r. 0" "wr_step False" "(wr_start [0x48], steps_world)" "Suc (Suc 0)"] by metis
  moreover have "interrupt (\<lambda>t b r. 0) steps_world ?w"
    using idle_interrupt[of steps_world] by (simp add: steps_world_ok)
  ultimately have "interleaved (\<lambda>t b r. 0) (wr_step False) (wr_start [0x48], steps_world) (?t, ?w)" by (rule interleaved.irq)
  note r = interleaved_steps[OF this, of "Suc (Suc (Suc (Suc (Suc (Suc (Suc 0))))))"]
  have "wr_pc (fst ((wr_step False ^^ Suc (Suc (Suc (Suc (Suc (Suc (Suc 0))))))) (?t, ?w))) = Wr_Done"
    "wr_data (fst ((wr_step False ^^ Suc (Suc (Suc (Suc (Suc (Suc (Suc 0))))))) (?t, ?w))) = []"
    by (simp_all add: wr_start_def alt_irq_disable_all_def)
  moreover have "length (txq (sp (snd ((wr_step False ^^ Suc (Suc (Suc (Suc (Suc (Suc (Suc 0))))))) (?t, ?w))))) = 1"
    by (simp add: wr_start_def alt_irq_disable_all_def alt_irq_enable_all_def sp_upd_def iowr_eq steps_world_ok txq_def length_ring
        ring_count_def) (simp add: jtag_boot_def BUF_LEN_def)
  ultimately show ?thesis using r by (metis prod.collapse list.size(3) zero_neq_one)
qed

theorem write_interrupted_anywhere_witness:
  "\<exists>(w :: jtag_world) d. io w = d @ io steps_world \<and> [0x48] = tx_sent 0x300a0 d @ txq (sp w) \<and> mstatus w = 8"
proof -
  obtain t w where r: "interleaved (\<lambda>t b r. 0) (wr_step False) (wr_start [0x48], steps_world) (t, w)" "wr_pc t = Wr_Done" "wr_data t = []"
    using short_write by blast
  from write_interrupted_anywhere[OF r(1) _ _ refl] obtain sent d where
    e: "[0x48] = sent" "io w = d @ io steps_world" "sent = tx_sent 0x300a0 d @ txq (sp w)" "mstatus w = 8"
    using r(2,3) by (auto simp: steps_world_ok)
  show ?thesis by (intro exI[of _ w] exI[of _ d]) (simp only: e simp_thms)
qed

section \<open>No lost interrupts\<close>

definition wr_awake :: "hw \<Rightarrow> wr_thread \<times> jtag_world \<Rightarrow> bool" where
  "wr_awake hw c \<longleftrightarrow>
     (let (t, w) = c
      in rx_ok (sp w) \<and> tx_ok (sp w) \<and> rx_fifo_hw hw (ju_base (sp w))
         \<and> (wr_pc t \<noteq> Wr_Control \<longrightarrow> ctl_ok w)
         \<and> (wr_pc t = Wr_Control \<longrightarrow> bit (ju_irq_enable (sp w)) 1)
         \<and> (wr_pc t \<in> {Wr_Unmask, Wr_Spin, Wr_Host, Wr_Inactive, Wr_Done} \<longrightarrow> tx_awake w))"

lemma wr_awake_thread:
  assumes "wr_awake hw (t, w)" "wr_inv nonblock data w0 (t, w)"
  shows "wr_awake hw (wr_step nonblock (t, w))"
proof -
  have ok: "tx_ok (sp (snd (wr_step nonblock (t, w))))" "rx_ok (sp (snd (wr_step nonblock (t, w))))"
    using wr_inv_thread[OF assms(2)] by (cases "wr_step nonblock (t, w)"; simp add: wr_inv_def wr_flow_def)+
  note d = wr_awake_def ctl_ok_def tx_awake_def sp_upd_def
  have we: "bit (JU_CONTROL_WE_MSK) 1" by (simp add: JU_CONTROL_WE_MSK_def bit_simps)
  show ?thesis
  proof (cases "wr_pc t")
    case Wr_Enable
    then show ?thesis using assms(1) ok we by (simp add: d bit_or_iff)
  next
    case Wr_Control
    then show ?thesis using assms(1) ok by (simp add: d iowr_eq)
  next
    case (Wr_Copy k)
    then show ?thesis using assms(1) ok by (cases "k < wr_n t") (simp_all add: d)
  next
    case Wr_Out
    then show ?thesis using assms(1) ok by (auto simp: d Let_def)
  qed (use assms(1) ok in \<open>auto simp: d alt_irq_disable_all_def alt_irq_enable_all_def\<close>)
qed

text \<open>
  C10: No interrupt of the device is lost: when the writer waits for room, or has returned, and bytes are still
  queued, then the last thing the device was told is to interrupt when it has room, whatever interrupts came
  in between and switched that off.
\<close>

theorem no_lost_write_interrupt:
  assumes "interleaved hw (wr_step nonblock) (wr_start data, w0) (t, w)" "wake_inv hw w0"
    and "wr_pc t \<in> {Wr_Spin, Wr_Host, Wr_Inactive, Wr_Done}" "txq (sp w) \<noteq> []"
  shows "\<exists>v. last_wr (ju_base (sp w0)) JU_CONTROL_REG (io w) = Some v \<and> bit v 1"
proof -
  have ok: "tx_ok (sp w0)" "rx_ok (sp w0)" using assms(2) by (simp_all add: wake_inv_def)
  have "wr_awake hw c \<and> wr_inv nonblock data w0 c" if "interleaved hw (wr_step nonblock) (wr_start data, w0) c" for c
    using that
  proof induction
    case start
    show ?case using assms(2) wr_inv_start[OF ok] by (simp add: wr_awake_def wake_inv_def wr_start_def)
  next
    case (thread c)
    obtain t w where "c = (t, w)" by fastforce
    then show ?case using thread.IH wr_inv_thread wr_awake_thread by blast
  next
    case (irq t w w')
    then have i: "wr_awake hw (t, w)" "wr_inv nonblock data w0 (t, w)" "interrupt hw w w'" by auto
    have "\<not> wr_masked (wr_pc t)"
      using no_interrupt_masked[OF i(3), of "mstatus w0"] i(2) by (auto simp: wr_inv_def)
    then have "wake_inv hw w" "wr_pc t \<noteq> Wr_Control" using i(1) by (auto simp: wr_awake_def wake_inv_def wr_masked_def)
    then have "wr_awake hw (t, w')" using interrupt_wake[OF i(3)] i(1) by (auto simp: wr_awake_def wake_inv_def)
    then show ?case using wr_inv_interrupt[OF i(3,2)] by simp
  qed
  from this[OF assms(1)] have a: "wr_awake hw (t, w)" "ju_base (sp w) = ju_base (sp w0)"
    by (simp_all add: wr_inv_def wr_flow_def)
  then have "tx_awake w" "ctl_ok w" using assms(3) by (auto simp: wr_awake_def)
  then obtain v where v: "last_wr (ju_base (sp w0)) JU_CONTROL_REG (io w) = Some v" "v AND 3 = ju_irq_enable (sp w) AND 3"
    "bit (ju_irq_enable (sp w)) 1"
    using assms(4) a(2) by (auto simp: tx_awake_def ctl_ok_def)
  have "bit (v AND 3) 1" unfolding v(2) using v(3) by (simp add: bit_and_iff)
  then show ?thesis using v(1) by (auto simp: bit_and_iff)
qed

theorem no_lost_write_interrupt_witness:
  "\<exists>(w :: jtag_world) v. txq (sp w) \<noteq> [] \<and> last_wr 0x300a0 1 (io w) = Some v \<and> bit v 1"
proof -
  obtain t w where r: "interleaved (\<lambda>t b r. 0) (wr_step False) (wr_start [0x48], steps_world) (t, w)" "wr_pc t = Wr_Done" "txq (sp w) \<noteq> []"
    using short_write by blast
  have "wake_inv (\<lambda>t b r. 0) steps_world"
    by (simp add: wake_inv_def steps_world_ok rx_fifo_hw_def ctl_ok_def JU_CONTROL_REG_def)
  from no_lost_write_interrupt[OF r(1) this] r(2,3) obtain v where "last_wr 0x300a0 1 (io w) = Some v" "bit v 1"
    by (auto simp: steps_world_ok JU_CONTROL_REG_def)
  then show ?thesis using r(3) by (intro exI[of _ w] exI[of _ v]) simp
qed

end
