(* ===== verification/JtagStepsRead.thy ===== *)
theory JtagStepsRead
  imports JtagSteps
begin

text \<open>
  The reader of the JTAG UART against interrupts at any point (\<open>rd_step\<close> of \<open>JtagSteps\<close>): what it copies is
  what was received, although the indices it works with are old, and it never waits for an interrupt that is
  switched off.
\<close>

section \<open>The oldest bytes\<close>

lemma rx_oldest:
  assumes "rx_ok s" "rx_avail n s" "k \<le> n"
  shows "take k (rxq s) = cells (rx_buf s) (rx_out s) k"
proof -
  have "k \<le> ring_count (rx_in s) (rx_out s)" "unat (rx_out s) + k \<le> 2048" using assms(2,3) by (simp_all add: rx_avail_def)
  then show ?thesis using ring_take[of "rx_in s" "rx_out s" k "rx_buf s"] assms(1) by (simp add: rxq_def rx_ok_def)
qed

lemma rx_dropped:
  assumes "rx_ok s" "rx_avail n s"
  shows "rxq (s\<lparr>rx_out := (rx_out s + of_nat n) mod BUF_LEN\<rparr>) = drop n (rxq s)"
    "rx_ok (s\<lparr>rx_out := (rx_out s + of_nat n) mod BUF_LEN\<rparr>)"
proof -
  have t: "rx_take n s = (cells (rx_buf s) (rx_out s) n, s\<lparr>rx_out := (rx_out s + of_nat n) mod BUF_LEN\<rparr>)"
    by (simp add: rx_take_def)
  note r = rx_take_simps[OF assms, unfolded t fst_conv snd_conv]
  show "rxq (s\<lparr>rx_out := (rx_out s + of_nat n) mod BUF_LEN\<rparr>) = drop n (rxq s)"
    using arg_cong[OF r(2), of "drop n"] by simp
  show "rx_ok (s\<lparr>rx_out := (rx_out s + of_nat n) mod BUF_LEN\<rparr>)" using r(1) .
qed

section \<open>The reader's invariant\<close>

definition rd_masked :: "rd_pc \<Rightarrow> bool" where
  "rd_masked p \<longleftrightarrow> p = Rd_Enable \<or> p = Rd_Control \<or> p = Rd_Unmask"

text \<open>The \<open>in\<close> the reader took earlier: what it counts as available still is.\<close>

definition rd_stale :: "rd_thread \<Rightarrow> jtag_state \<Rightarrow> bool" where
  "rd_stale t s \<longleftrightarrow> rd_in t < BUF_LEN \<and> ring_count (rd_in t) (rx_out s) \<le> length (rxq s)"

definition rd_copying :: "rd_thread \<Rightarrow> jtag_state \<Rightarrow> nat \<Rightarrow> bool" where
  "rd_copying t s k \<longleftrightarrow> rd_out t = rx_out s \<and> k \<le> rd_n t \<and> 0 < rd_n t \<and> int (rd_n t) \<le> rd_space t \<and> rx_avail (rd_n t) s
     \<and> rd_tmp t = take k (rxq s)"

definition rd_flow :: "int \<Rightarrow> jtag_world \<Rightarrow> rd_thread \<Rightarrow> jtag_world \<Rightarrow> bool" where
  "rd_flow space w0 t w \<longleftrightarrow> rx_ok (sp w) \<and> tx_ok (sp w) \<and> ju_base (sp w) = ju_base (sp w0)
     \<and> int (length (rd_got t)) + rd_space t = space
     \<and> (\<exists>d. io w = d @ io w0
          \<and> rxq (sp w0) @ rx_valid (ju_base (sp w0)) d = rd_got t @ rxq (sp w)
          \<and> txq (sp w0) = tx_sent (ju_base (sp w0)) d @ txq (sp w))"

definition rd_at :: "rd_thread \<Rightarrow> jtag_state \<Rightarrow> bool" where
  "rd_at t s \<longleftrightarrow> (case rd_pc t of
      Rd_In \<Rightarrow> rd_space t > 0
    | Rd_Out \<Rightarrow> rd_space t > 0 \<and> rd_stale t s
    | Rd_Copy k \<Rightarrow> rd_copying t s k
    | Rd_More \<Rightarrow> rd_space t \<ge> 0 \<and> rd_got t \<noteq> []
    | Rd_Spin \<Rightarrow> rd_got t = [] \<and> rd_space t > 0
    | Rd_Host \<Rightarrow> rd_got t = [] \<and> rd_space t > 0
    | Rd_Again \<Rightarrow> rd_got t = [] \<and> rd_space t > 0
    | Rd_Done \<Rightarrow> True
    | _ \<Rightarrow> rd_got t \<noteq> [] \<and> rd_space t \<ge> 0)"

definition rd_inv :: "int \<Rightarrow> jtag_world \<Rightarrow> rd_thread \<times> jtag_world \<Rightarrow> bool" where
  "rd_inv space w0 c \<longleftrightarrow>
     (let (t, w) = c
      in rd_flow space w0 t w \<and> rd_at t (sp w)
         \<and> (rd_got t \<noteq> [] \<longrightarrow> rd_space t \<ge> 0)
         \<and> (if rd_masked (rd_pc t) then mstatus w = mstatus w0 AND NOT NIOSV_MSTATUS_MIE_MASK \<and> rd_context t = mstatus w0
            else mstatus w = mstatus w0))"

lemma rd_flow_same:
  assumes "rd_flow space w0 t w" "io w' = e @ io w" "tx_sent (ju_base (sp w0)) e = []" "rx_valid (ju_base (sp w0)) e = []"
    "txq (sp w') = txq (sp w)" "rxq (sp w') = rxq (sp w)" "tx_ok (sp w')" "rx_ok (sp w')" "ju_base (sp w') = ju_base (sp w)"
    "rd_got t' = rd_got t" "rd_space t' = rd_space t"
  shows "rd_flow space w0 t' w'"
proof -
  obtain d where d: "io w = d @ io w0" "rxq (sp w0) @ rx_valid (ju_base (sp w0)) d = rd_got t @ rxq (sp w)"
    "txq (sp w0) = tx_sent (ju_base (sp w0)) d @ txq (sp w)"
    using assms(1) by (auto simp: rd_flow_def)
  then show ?thesis using assms unfolding rd_flow_def
    by (intro conjI exI[of _ "e @ d"]) (simp_all add: tx_sent_append rx_valid_append)
qed

lemma rd_flow_thread: "rd_flow space w0 t w \<Longrightarrow> rd_got t' = rd_got t \<Longrightarrow> rd_space t' = rd_space t \<Longrightarrow> rd_flow space w0 t' w"
  by (simp add: rd_flow_def)

lemma rd_inv_start: "tx_ok (sp w) \<Longrightarrow> rx_ok (sp w) \<Longrightarrow> rd_inv space w (rd_start space, w)"
  by (auto simp: rd_inv_def rd_flow_def rd_start_def rd_masked_def rd_at_def tx_sent_def rx_valid_def)

lemma rd_copying_start:
  assumes "0 < n" "0 < rd_space t" "n \<le> length (rxq s)" "unat (rx_out s) + n \<le> 2048"
  shows "rd_copying (t\<lparr>rd_out := rx_out s, rd_n := (if int n > rd_space t then nat (rd_space t) else n), rd_pc := p, rd_tmp := []\<rparr>) s 0"
  using assms by (auto simp: rd_copying_def rx_avail_def rxq_def length_ring)

lemma rd_inv_interrupt:
  assumes "interrupt hw w w'" "rd_inv space w0 (t, w)"
  shows "rd_inv space w0 (t, w')"
proof -
  have f: "rd_flow space w0 t w" using assms(2) by (simp add: rd_inv_def)
  then have ok: "rx_ok (sp w)" "tx_ok (sp w)" "ju_base (sp w) = ju_base (sp w0)" by (simp_all add: rd_flow_def)
  note i = interrupt_step[OF assms(1) ok(1,2)]
  obtain e where e: "io w' = e @ io w" "rxq (sp w') = rxq (sp w) @ rx_valid (ju_base (sp w0)) e"
    "txq (sp w) = tx_sent (ju_base (sp w0)) e @ txq (sp w')" using i ok(3) by auto
  have mi: "\<not> rd_masked (rd_pc t)"
    using no_interrupt_masked[OF assms(1), of "mstatus w0"] assms(2) by (auto simp: rd_inv_def)
  have "rd_flow space w0 t w'"
  proof -
    obtain d where d: "io w = d @ io w0" "rxq (sp w0) @ rx_valid (ju_base (sp w0)) d = rd_got t @ rxq (sp w)"
      "txq (sp w0) = tx_sent (ju_base (sp w0)) d @ txq (sp w)"
      using f by (auto simp: rd_flow_def)
    have "rxq (sp w0) @ rx_valid (ju_base (sp w0)) (e @ d) = rd_got t @ rxq (sp w')"
      unfolding rx_valid_append e(2) append_assoc[symmetric] d(2) by simp
    then show ?thesis using f i e d unfolding rd_flow_def
      by (intro conjI exI[of _ "e @ d"]) (simp_all add: tx_sent_append)
  qed
  moreover have "rd_copying t (sp w') k" if c: "rd_copying t (sp w) k" for k
  proof -
    have l: "rd_n t \<le> length (rxq (sp w))" "length (rxq (sp w)) \<le> ring_count (rx_in (sp w')) (rx_out (sp w'))"
      using c arg_cong[OF e(2), of length] by (simp_all add: rd_copying_def rx_avail_def rxq_def length_ring)
    then have "take k (rxq (sp w')) = take k (rxq (sp w))" using c e(2) by (simp add: rd_copying_def)
    then show ?thesis using c l i by (auto simp: rd_copying_def rx_avail_def)
  qed
  moreover have "rd_stale t (sp w')" if "rd_stale t (sp w)"
    using that i e(2) by (auto simp: rd_stale_def)
  ultimately show ?thesis using assms(2) mi i by (auto simp: rd_inv_def rd_at_def split: rd_pc.splits)
qed

lemma rd_inv_thread:
  assumes "rd_inv space w0 (t, w)"
  shows "rd_inv space w0 (rd_step nonblock (t, w))"
proof -
  have f: "rd_flow space w0 t w" using assms by (simp add: rd_inv_def)
  then have ok: "rx_ok (sp w)" "tx_ok (sp w)" "ju_base (sp w) = ju_base (sp w0)" by (simp_all add: rd_flow_def)
  note same = rd_flow_thread[OF f]
  note d = rd_inv_def rd_masked_def rd_at_def rd_leave_def
  show ?thesis
  proof (cases "rd_pc t")
    case Rd_In
    have "rd_stale (t\<lparr>rd_in := rx_in (sp w), rd_pc := Rd_Out\<rparr>) (sp w)"
      using ok(1) by (simp add: rd_stale_def rx_ok_def rxq_def length_ring)
    then show ?thesis using assms Rd_In same by (simp add: d)
  next
    case Rd_Out
    let ?s = "(sp w)\<lparr>rx_in := rd_in t\<rparr>"
    let ?n = "unat (if rd_in t \<ge> rx_out (sp w) then rd_in t - rx_out (sp w) else BUF_LEN - rx_out (sp w))"
    have i: "rd_space t > 0" "rd_stale t (sp w)" using assms Rd_Out by (simp_all add: d)
    then have os: "rx_ok ?s" using ok(1) by (simp add: rx_ok_def rd_stale_def)
    have s: "rx_in ?s = rd_in t" "rx_out ?s = rx_out (sp w)" "length (rxq ?s) = ring_count (rd_in t) (rx_out (sp w))"
      by (simp_all add: rxq_def length_ring)
    note l = rx_run_length(1,2)[OF os, unfolded s]
    have r: "?n \<le> length (rxq (sp w))" "unat (rx_out (sp w)) + ?n \<le> 2048"
      using l i(2) unfolding rd_stale_def by linarith+
    show ?thesis
    proof (cases "?n = 0")
      case True
      then have "rd_step nonblock (t, w) = (t\<lparr>rd_out := rx_out (sp w), rd_n := ?n, rd_pc := rd_leave nonblock t\<rparr>, w)"
        using Rd_Out by (simp only: rd_step.simps rd_pc.case Let_def simp_thms if_True)
      then show ?thesis using assms Rd_Out same i(1) by (auto simp: d)
    next
      case False
      let ?t = "t\<lparr>rd_out := rx_out (sp w), rd_n := (if int ?n > rd_space t then nat (rd_space t) else ?n), rd_pc := Rd_Copy 0, rd_tmp := []\<rparr>"
      have st: "rd_step nonblock (t, w) = (?t, w)"
        using Rd_Out False by (simp only: rd_step.simps rd_pc.case Let_def simp_thms if_False)
      have "rd_copying ?t (sp w) 0" by (rule rd_copying_start[OF _ i(1) r]) (use False in \<open>rule bot_nat_0.not_eq_extremum[THEN iffD1]\<close>)
      then show ?thesis unfolding st using assms Rd_Out same by (simp add: d)
    qed
  next
    case (Rd_Copy k)
    have c: "rd_copying t (sp w) k" using assms Rd_Copy by (simp add: d)
    have av: "rx_avail (rd_n t) (sp w)" using c by (simp add: rd_copying_def)
    show ?thesis
    proof (cases "k < rd_n t")
      case True
      have "take (Suc k) (rxq (sp w)) = take k (rxq (sp w)) @ [rx_buf (sp w) (rx_out (sp w) + of_nat k)]"
        using rx_oldest[OF ok(1) av, of k] rx_oldest[OF ok(1) av, of "Suc k"] True by (simp add: cells_snoc)
      then have "rd_copying (t\<lparr>rd_tmp := rd_tmp t @ [rx_buf (sp w) (rd_out t + of_nat k)], rd_pc := Rd_Copy (Suc k)\<rparr>) (sp w) (Suc k)"
        using c True by (simp add: rd_copying_def)
      then show ?thesis using True assms Rd_Copy same by (simp add: d)
    next
      case False
      let ?n = "rd_n t"
      let ?s = "(sp w)\<lparr>rx_out := (rx_out (sp w) + of_nat ?n) mod BUF_LEN\<rparr>"
      let ?t = "t\<lparr>rd_got := rd_got t @ rd_tmp t, rd_tmp := [], rd_space := rd_space t - int ?n, rd_pc := Rd_More\<rparr>"
      have k: "k = ?n" "rd_tmp t = take ?n (rxq (sp w))" "rd_out t = rx_out (sp w)" "0 < ?n" "int ?n \<le> rd_space t"
        using c False by (auto simp: rd_copying_def)
      have l: "?n \<le> length (rxq (sp w))" using av by (simp add: rx_avail_def rxq_def length_ring)
      note dr = rx_dropped[OF ok(1) av]
      obtain e where e: "io w = e @ io w0" "rxq (sp w0) @ rx_valid (ju_base (sp w0)) e = rd_got t @ rxq (sp w)"
        "txq (sp w0) = tx_sent (ju_base (sp w0)) e @ txq (sp w)"
        using f by (auto simp: rd_flow_def)
      have "rd_flow space w0 ?t (w\<lparr>sp := ?s\<rparr>)"
        using f e dr k l unfolding rd_flow_def
        by (intro conjI exI[of _ e]) (simp_all add: tx_ok_def txq_def)
      moreover have "rd_got ?t \<noteq> []" using k l by auto
      ultimately show ?thesis using False assms Rd_Copy k by (simp add: d sp_upd_def)
    qed
  next
    case Rd_Mask
    have "rd_flow space w0 (t\<lparr>rd_context := mstatus w, rd_pc := Rd_Enable\<rparr>) (w\<lparr>mstatus := mstatus w AND NOT NIOSV_MSTATUS_MIE_MASK\<rparr>)"
      by (rule rd_flow_same[OF f, of _ "[]"]) (use ok in \<open>simp_all add: tx_sent_def rx_valid_def\<close>)
    then show ?thesis using assms Rd_Mask by (simp add: d alt_irq_disable_all_def)
  next
    case Rd_Enable
    have "rd_flow space w0 (t\<lparr>rd_pc := Rd_Control\<rparr>) (sp_upd (\<lambda>s. s\<lparr>ju_irq_enable := ju_irq_enable s OR JU_CONTROL_RE_MSK\<rparr>) w)"
      by (rule rd_flow_same[OF f, of _ "[]"]) (use ok in \<open>simp_all add: sp_upd_def tx_sent_def rx_valid_def\<close>)
    then show ?thesis using assms Rd_Enable by (simp add: d sp_upd_def)
  next
    case Rd_Control
    let ?e = "[Wr (ju_base (sp w)) JU_CONTROL_REG (ju_irq_enable (sp w))]"
    have "rd_flow space w0 (t\<lparr>rd_pc := Rd_Unmask\<rparr>) (w\<lparr>io := ?e @ io w\<rparr>)"
      by (rule rd_flow_same[OF f, of _ ?e]) (use ok in \<open>simp_all add: tx_sent_def rx_valid_def reg_defs\<close>)
    then show ?thesis using assms Rd_Control by (simp add: d iowr_eq)
  next
    case Rd_Unmask
    have "rd_flow space w0 (t\<lparr>rd_pc := Rd_Done\<rparr>) (w\<lparr>mstatus := x\<rparr>)" for x
      by (rule rd_flow_same[OF f, of _ "[]"]) (use ok in \<open>simp_all add: tx_sent_def rx_valid_def\<close>)
    then show ?thesis using assms Rd_Unmask by (simp add: d alt_irq_enable_all_def mstatus_restored)
  qed (use assms same in \<open>auto simp: d\<close>)
qed

lemma rd_inv_reached:
  assumes "interleaved hw (rd_step nonblock) (rd_start space, w0) c" "tx_ok (sp w0)" "rx_ok (sp w0)"
  shows "rd_inv space w0 c"
  using assms(1)
proof induction
  case start
  show ?case using rd_inv_start[OF assms(2,3)] .
next
  case (thread c)
  then show ?case by (cases c) (simp only: rd_inv_thread)
next
  case (irq t w w')
  then show ?case using rd_inv_interrupt by blast
qed


text \<open>
  C9: Whatever interrupts the reader between any two accesses, at every moment the old receive queue followed
  by what the device handed over since is what the reader has taken, in order, followed by the queue; nothing is lost
  or read twice, and no more is taken than there is room for. What is sent meanwhile comes
  off the transmit queue. At the end the processor's interrupts are as before, and the result is the number of bytes,
  or the error if there are none.
\<close>

theorem read_interrupted_anywhere:
  assumes "interleaved hw (rd_step nonblock) (rd_start space, w0) (t, w)" "tx_ok (sp w0)" "rx_ok (sp w0)"
    and "b = ju_base (sp w0)"
  shows "\<exists>d. io w = d @ io w0 \<and> rxq (sp w0) @ rx_valid b d = rd_got t @ rxq (sp w)
    \<and> txq (sp w0) = tx_sent b d @ txq (sp w) \<and> tx_ok (sp w) \<and> rx_ok (sp w) \<and> length (rd_got t) \<le> nat space
    \<and> (rd_pc t = Rd_Done \<longrightarrow> mstatus w = mstatus w0
       \<and> rd_result nonblock t = (if rd_got t \<noteq> [] then int (length (rd_got t)) else if nonblock then - EWOULDBLOCK else - EIO))"
proof -
  have i: "rd_inv space w0 (t, w)" using rd_inv_reached[OF assms(1-3)] .
  then obtain d where "io w = d @ io w0" "rxq (sp w0) @ rx_valid b d = rd_got t @ rxq (sp w)"
    "txq (sp w0) = tx_sent b d @ txq (sp w)" "tx_ok (sp w)" "rx_ok (sp w)"
    by (auto simp: rd_inv_def rd_flow_def assms(4))
  moreover have "length (rd_got t) \<le> nat space" using i by (cases "rd_got t = []") (auto simp: rd_inv_def rd_flow_def)
  moreover have "mstatus w = mstatus w0" if "rd_pc t = Rd_Done" using i that by (simp add: rd_inv_def rd_masked_def)
  ultimately show ?thesis by (auto simp: rd_result_def)
qed

text \<open>A byte received, and a handler's run with nothing to do between the reads of the indices and the copy.\<close>

definition read_world :: jtag_world where
  "read_world = steps_world\<lparr>sp := rx_push 0x48 jtag_boot\<rparr>"

lemma read_world_ok:
  "ju_base (sp read_world) = 0x300a0" "mstatus read_world = 8" "rx_ok (sp read_world)" "tx_ok (sp read_world)"
  "rxq (sp read_world) = [0x48]" "rx_in (sp read_world) = 1" "rx_out (sp read_world) = 0" "rx_buf (sp read_world) 0 = 0x48"
proof -
  have n: "(rx_in jtag_boot + 1) mod BUF_LEN \<noteq> rx_out jtag_boot" by (simp add: jtag_boot_def BUF_LEN_def)
  note p = rx_push_simps[OF steps_world_ok(4) n]
  show "rx_ok (sp read_world)" "rxq (sp read_world) = [0x48]" using p by (simp_all add: read_world_def steps_world_ok)
  show "ju_base (sp read_world) = 0x300a0" "mstatus read_world = 8" "tx_ok (sp read_world)"
    "rx_in (sp read_world) = 1" "rx_out (sp read_world) = 0" "rx_buf (sp read_world) 0 = 0x48"
    by (simp_all add: read_world_def steps_world_ok rx_push_def, simp_all add: jtag_boot_def BUF_LEN_def tx_ok_def)
qed

lemma short_read:
  "\<exists>t w. interleaved (\<lambda>t b r. 0) (rd_step False) (rd_start 1, read_world) (t, w) \<and> rd_pc t = Rd_Done \<and> rd_got t = [0x48]"
proof -
  let ?w = "read_world\<lparr>io := Rd 0x300a0 1 0 # io read_world\<rparr>"
  let ?t = "rd_start 1\<lparr>rd_in := 1, rd_n := 1, rd_pc := Rd_Copy 0\<rparr>"
  have "(rd_step False ^^ Suc (Suc 0)) (rd_start 1, read_world) = (?t, read_world)"
    by (simp add: rd_start_def read_world_ok)
  then have "interleaved (\<lambda>t b r. 0) (rd_step False) (rd_start 1, read_world) (?t, read_world)"
    using interleaved_steps[OF interleaved.start, of "\<lambda>t b r. 0" "rd_step False" "(rd_start 1, read_world)" "Suc (Suc 0)"] by metis
  moreover have "interrupt (\<lambda>t b r. 0) read_world ?w"
    using idle_interrupt[of read_world] by (simp add: read_world_ok)
  ultimately have "interleaved (\<lambda>t b r. 0) (rd_step False) (rd_start 1, read_world) (?t, ?w)" by (rule interleaved.irq)
  note r = interleaved_steps[OF this, of "Suc (Suc (Suc (Suc (Suc (Suc (Suc 0))))))"]
  have "rd_pc (fst ((rd_step False ^^ Suc (Suc (Suc (Suc (Suc (Suc (Suc 0))))))) (?t, ?w))) = Rd_Done"
    "rd_got (fst ((rd_step False ^^ Suc (Suc (Suc (Suc (Suc (Suc (Suc 0))))))) (?t, ?w))) = [0x48]"
    by (simp_all add: rd_start_def rd_leave_def alt_irq_disable_all_def read_world_ok)
  then show ?thesis using r by (metis prod.collapse)
qed

theorem read_interrupted_anywhere_witness:
  "\<exists>(w :: jtag_world) d. io w = d @ io read_world \<and> [0x48] @ rx_valid 0x300a0 d = 0x48 # rxq (sp w) \<and> mstatus w = 8"
proof -
  obtain t w where r: "interleaved (\<lambda>t b r. 0) (rd_step False) (rd_start 1, read_world) (t, w)" "rd_pc t = Rd_Done" "rd_got t = [0x48]"
    using short_read by blast
  from read_interrupted_anywhere[OF r(1) _ _ refl] obtain d where
    e: "io w = d @ io read_world" "[0x48] @ rx_valid 0x300a0 d = 0x48 # rxq (sp w)" "mstatus w = 8"
    using r(2,3) by (auto simp: read_world_ok)
  show ?thesis by (intro exI[of _ w] exI[of _ d]) (simp only: e simp_thms)
qed

section \<open>No lost interrupts\<close>

text \<open>The reader takes bytes before it switches the interrupt on, so it counts as awake while it has taken none.\<close>

definition rd_awake :: "hw \<Rightarrow> rd_thread \<times> jtag_world \<Rightarrow> bool" where
  "rd_awake hw c \<longleftrightarrow>
     (let (t, w) = c
      in rx_ok (sp w) \<and> tx_ok (sp w) \<and> rx_fifo_hw hw (ju_base (sp w))
         \<and> (rd_pc t \<noteq> Rd_Control \<longrightarrow> ctl_ok w)
         \<and> (rd_pc t = Rd_Control \<longrightarrow> bit (ju_irq_enable (sp w)) 0)
         \<and> (rd_got t = [] \<or> rd_pc t \<in> {Rd_Unmask, Rd_Done} \<longrightarrow> rx_awake w))"

lemma rd_awake_thread:
  assumes "rd_awake hw (t, w)" "rd_inv space w0 (t, w)"
  shows "rd_awake hw (rd_step nonblock (t, w))"
proof -
  have i: "rd_inv space w0 (rd_step nonblock (t, w))" using rd_inv_thread[OF assms(2)] .
  then have ok: "tx_ok (sp (snd (rd_step nonblock (t, w))))" "rx_ok (sp (snd (rd_step nonblock (t, w))))"
    by (cases "rd_step nonblock (t, w)"; simp add: rd_inv_def rd_flow_def)+
  note d = rd_awake_def ctl_ok_def rx_awake_def sp_upd_def rd_leave_def
  have re: "bit JU_CONTROL_RE_MSK 0" by (simp add: JU_CONTROL_RE_MSK_def)
  show ?thesis
  proof (cases "rd_pc t")
    case Rd_Enable
    then show ?thesis using assms ok re by (auto simp: d bit_or_iff rd_inv_def rd_at_def)
  next
    case Rd_Control
    then show ?thesis using assms(1) ok by (auto simp: d iowr_eq)
  next
    case (Rd_Copy k)
    have c: "rd_copying t (sp w) k" using assms(2) Rd_Copy by (simp add: rd_inv_def rd_at_def)
    have "rd_got t @ rd_tmp t \<noteq> []" if "\<not> k < rd_n t"
      using c that by (auto simp: rd_copying_def rx_avail_def rxq_def simp flip: length_0_conv simp: length_ring)
    then show ?thesis using assms(1) ok Rd_Copy by (cases "k < rd_n t") (auto simp: d)
  next
    case Rd_Out
    then show ?thesis using assms(1) ok by (auto simp: d Let_def)
  qed (use assms ok in \<open>auto simp: d alt_irq_disable_all_def alt_irq_enable_all_def rd_inv_def rd_at_def\<close>)
qed

lemma rd_awake_reached:
  assumes "interleaved hw (rd_step nonblock) (rd_start space, w0) c" "wake_inv hw w0" "rx_awake w0"
  shows "rd_awake hw c \<and> rd_inv space w0 c"
  using assms(1)
proof induction
  case start
  show ?case using assms(2,3) rd_inv_start by (auto simp: rd_awake_def wake_inv_def rd_start_def)
next
  case (thread c)
  obtain t w where "c = (t, w)" by fastforce
  then show ?case using thread.IH rd_inv_thread rd_awake_thread by blast
next
  case (irq t w w')
  then have i: "rd_awake hw (t, w)" "rd_inv space w0 (t, w)" "interrupt hw w w'" by auto
  have "\<not> rd_masked (rd_pc t)"
    using no_interrupt_masked[OF i(3), of "mstatus w0"] i(2) by (auto simp: rd_inv_def)
  then have "wake_inv hw w" "rd_pc t \<noteq> Rd_Control" using i(1) by (auto simp: rd_awake_def wake_inv_def rd_masked_def)
  then have "rd_awake hw (t, w')" using interrupt_wake[OF i(3)] i(1) by (auto simp: rd_awake_def wake_inv_def)
  then show ?case using rd_inv_interrupt[OF i(3,2)] by simp
qed

text \<open>
  C11: No interrupt of the device is lost: when the reader waits for input, or has returned, and no byte is
  queued, then the last thing the device was told is to interrupt when it has received something, whatever interrupts
  came in between and switched that off while the buffer was full.
\<close>

theorem no_lost_read_interrupt:
  assumes "interleaved hw (rd_step nonblock) (rd_start space, w0) (t, w)" "wake_inv hw w0" "rx_awake w0"
    and "rd_pc t \<in> {Rd_Spin, Rd_Host, Rd_Again, Rd_Done}" "rxq (sp w) = []"
  shows "\<exists>v. last_wr (ju_base (sp w0)) JU_CONTROL_REG (io w) = Some v \<and> bit v 0"
proof -
  have a: "rd_awake hw (t, w)" "rd_inv space w0 (t, w)" using rd_awake_reached[OF assms(1-3)] by simp_all
  then have "rx_awake w" "ctl_ok w" using assms(4) by (auto simp: rd_awake_def rd_inv_def rd_at_def)
  then obtain v where v: "last_wr (ju_base (sp w0)) JU_CONTROL_REG (io w) = Some v" "v AND 3 = ju_irq_enable (sp w) AND 3"
    "bit (ju_irq_enable (sp w)) 0"
    using assms(5) a(2) by (auto simp: rx_awake_def ctl_ok_def rd_inv_def rd_flow_def)
  have "bit (v AND 3) 0" unfolding v(2) using v(3) by (simp add: bit_and_iff)
  then show ?thesis using v(1) by (auto simp: bit_and_iff)
qed

theorem no_lost_read_interrupt_witness:
  "\<exists>(w :: jtag_world) v. rxq (sp w) = [] \<and> last_wr 0x300a0 1 (io w) = Some v \<and> bit v 0"
proof -
  define c where "c = (rd_step False ^^ Suc (Suc 0)) (rd_start 1, steps_world)"
  have r: "interleaved (\<lambda>t b r. 0) (rd_step False) (rd_start 1, steps_world) (fst c, snd c)"
    unfolding c_def prod.collapse by (rule interleaved_steps[OF interleaved.start])
  have q: "rd_pc (fst c) = Rd_Spin" "rxq (sp (snd c)) = []"
    using steps_world_ok(6) by (simp_all add: c_def rd_start_def Let_def steps_world_ok) (simp_all add: jtag_boot_def rd_leave_def)
  have "wake_inv (\<lambda>t b r. 0) steps_world" "rx_awake steps_world"
    by (simp_all add: wake_inv_def steps_world_ok rx_fifo_hw_def ctl_ok_def JU_CONTROL_REG_def rx_awake_def)
  from no_lost_read_interrupt[OF r this] q obtain v where "last_wr 0x300a0 1 (io (snd c)) = Some v" "bit v 0"
    by (auto simp: steps_world_ok JU_CONTROL_REG_def)
  then show ?thesis using q by (intro exI[of _ "snd c"] exI[of _ v]) simp
qed

end
