(* ===== verification/JtagRuns.thy ===== *)
theory JtagRuns
  imports JtagStepsRead
begin

text \<open>
  The calls of the driver as single functions (\<open>JtagUart\<close>) against the calls step by step (\<open>JtagSteps\<close>):
  every outcome of the functions, whose interrupts come while the thread waits, is a run of the steps, so that what
  holds of all runs holds of the functions that the descriptors and the board use.
\<close>

section \<open>Runs\<close>

lemma interleaved_trans:
  assumes "interleaved hw step c1 c2" "interleaved hw step c0 c1"
  shows "interleaved hw step c0 c2"
  using assms by induction (auto intro: interleaved.intros)

lemma interleaved_one: "step c = c' \<Longrightarrow> interleaved hw step c c'"
  using interleaved.thread[OF interleaved.start, of hw step c] by simp

text \<open>A schedule made of interrupts: where the processor takes none, nothing happens.\<close>

definition schedule_ok :: "hw \<Rightarrow> jtag_schedule \<Rightarrow> bool" where
  "schedule_ok hw sched \<longleftrightarrow> (\<forall>a \<in> set sched. \<forall>v. a v = v \<or> interrupt hw v (a v))"

lemma schedule_step:
  assumes "schedule_ok hw (a # sched)" "rx_ok (sp w)" "tx_ok (sp w)"
  shows "interleaved hw step (t, w) (t, a w)" "rx_ok (sp (a w))" "tx_ok (sp (a w))" "schedule_ok hw sched"
proof -
  have "a w = w \<or> interrupt hw w (a w)" using assms(1) by (simp add: schedule_ok_def)
  then show "interleaved hw step (t, w) (t, a w)" "rx_ok (sp (a w))" "tx_ok (sp (a w))"
    using assms(2,3) interrupt_step[of hw w "a w"] interleaved.start[of hw step "(t, w)"] interleaved.irq[of hw step "(t, w)" t w "a w"]
    by auto
  show "schedule_ok hw sched" using assms(1) by (simp add: schedule_ok_def)
qed

section \<open>The writer\<close>

lemma put_cells_snoc:
  assumes "unat p + Suc (length bs) \<le> 2048"
  shows "(put_cells buf p bs)(p + of_nat (length bs) := x) = put_cells buf p (bs @ [x])"
proof
  fix a
  have u: "unat (p + of_nat (length bs)) = unat p + length bs"
    using assms unat_of_nat_32[of "length bs"] by (subst unat_add_lem[THEN iffD1]) simp_all
  show "((put_cells buf p bs)(p + of_nat (length bs) := x)) a = put_cells buf p (bs @ [x]) a"
  proof (cases "a = p + of_nat (length bs)")
    case True
    then show ?thesis using u by (simp add: put_cells_def)
  next
    case False
    then have "unat a \<noteq> unat p + length bs" using u by (metis word_unat_eq_iff)
    then show ?thesis using False by (auto simp: put_cells_def nth_append)
  qed
qed

lemma copy_bytes:
  assumes "wr_pc t = Wr_Copy 0" "j \<le> wr_n t" "wr_n t \<le> length (wr_data t)" "unat (wr_in t) + wr_n t \<le> 2048"
  shows "interleaved hw (wr_step nb) (t, w) (t\<lparr>wr_pc := Wr_Copy j\<rparr>,
    w\<lparr>sp := (sp w)\<lparr>tx_buf := put_cells (tx_buf (sp w)) (wr_in t) (take j (wr_data t))\<rparr>\<rparr>)"
  using assms(2)
proof (induction j)
  case 0
  have "put_cells (tx_buf (sp w)) (wr_in t) [] = tx_buf (sp w)" by (auto simp: put_cells_def fun_eq_iff)
  moreover have "t\<lparr>wr_pc := Wr_Copy 0\<rparr> = t" using assms(1) by simp
  ultimately show ?case by (simp add: interleaved.start)
next
  case (Suc j)
  have l: "length (take j (wr_data t)) = j" using Suc.prems assms(3) by simp
  have "(put_cells (tx_buf (sp w)) (wr_in t) (take j (wr_data t)))(wr_in t + of_nat j := wr_data t ! j)
    = put_cells (tx_buf (sp w)) (wr_in t) (take (Suc j) (wr_data t))"
    using put_cells_snoc[of "wr_in t" "take j (wr_data t)" "tx_buf (sp w)" "wr_data t ! j"] Suc.prems assms(3,4)
    by (simp add: l take_Suc_conv_app_nth)
  then show ?case
    using interleaved.thread[OF Suc.IH] Suc.prems by (simp add: sp_upd_def)
qed

lemma copy_run:
  "tx_copy data out0 s = (rest, out1, s') \<Longrightarrow> tx_ok s \<Longrightarrow> wr_pc t = Wr_In \<Longrightarrow> wr_data t = data \<Longrightarrow> wr_out t = out0 \<Longrightarrow> sp w = s
    \<Longrightarrow> \<exists>t'. interleaved hw (wr_step nb) (t, w) (t', w\<lparr>sp := s'\<rparr>) \<and> wr_pc t' = Wr_Mask \<and> wr_data t' = rest \<and> wr_out t' = out1"
proof (induction data out0 s arbitrary: t w rule: tx_copy.induct)
  case (1 data out0 s)
  let ?R = "interleaved hw (wr_step nb)"
  define n0 where "n0 = unat (tx_room s)"
  define t1 where "t1 = t\<lparr>wr_in := tx_in s, wr_pc := Wr_Out\<rparr>"
  show ?case
  proof (cases "data = []")
    case True
    then have "rest = []" "out1 = out0" "s' = s" using "1.prems"(1) by (subst (asm) tx_copy.simps; simp)+
    then show ?thesis
      using True "1.prems" by (intro exI[of _ "t\<lparr>wr_pc := Wr_Mask\<rparr>"]) (auto intro!: interleaved_one)
  next
    case ne: False
    have r1: "?R (t, w) (t1, w)" by (rule interleaved_one) (use ne "1.prems" in \<open>simp add: t1_def\<close>)
    show ?thesis
    proof (cases "n0 = 0")
      case True
      then have eq: "rest = data" "out1 = tx_out s" "s' = s"
        using "1.prems"(1) ne unfolding n0_def by (subst (asm) tx_copy.simps; simp)+
      have "?R (t1, w) (t1\<lparr>wr_out := tx_out s, wr_n := 0, wr_pc := Wr_Mask\<rparr>, w)"
        by (rule interleaved_one) (use True "1.prems"(6) in \<open>simp add: t1_def n0_def tx_room_eq\<close>)
      from interleaved_trans[OF this r1] show ?thesis using eq "1.prems" by (auto simp: t1_def)
    next
      case False
      define n where "n = (if n0 > length data then length data else n0)"
      define t2 where "t2 = t1\<lparr>wr_out := tx_out s, wr_n := n, wr_pc := Wr_Copy 0\<rparr>"
      define bs where "bs = take n data"
      define w1 where "w1 = w\<lparr>sp := tx_put bs s\<rparr>"
      define t3 where "t3 = t2\<lparr>wr_data := drop n data, wr_pc := Wr_In\<rparr>"
      have p: "n0 + length (txq s) \<le> 2047" "unat (tx_in s) + n0 \<le> 2048"
        using tx_room_props(1,2)[OF "1.prems"(2)] by (simp_all add: n0_def)
      have n: "n \<le> length data" "n \<le> n0" "length bs = n" by (auto simp: n_def bs_def)
      have "tx_fits n s" using p n by (simp add: tx_fits_def txq_def length_ring)
      then have ok: "tx_ok (tx_put bs s)" using tx_put_simps(1)[OF "1.prems"(2)] n(3) by simp
      have rec: "tx_copy (drop n data) (tx_out s) (tx_put bs s) = (rest, out1, s')"
        using "1.prems"(1) False ne
        by (subst (asm) tx_copy.simps) (simp only: Let_def n0_def[symmetric] n_def[symmetric] bs_def[symmetric] simp_thms if_True if_False)
      have r2: "?R (t1, w) (t2, w)"
        by (rule interleaved_one) (use False "1.prems"(4,6) in \<open>simp add: t1_def t2_def n_def n0_def tx_room_eq Let_def\<close>)
      have r3: "?R (t2, w) (t2\<lparr>wr_pc := Wr_Copy n\<rparr>, w\<lparr>sp := (sp w)\<lparr>tx_buf := put_cells (tx_buf (sp w)) (wr_in t2) (take n (wr_data t2))\<rparr>\<rparr>)"
        by (rule copy_bytes) (use n p(2) "1.prems"(4) in \<open>simp_all add: t2_def t1_def\<close>)
      have r4: "?R (t2\<lparr>wr_pc := Wr_Copy n\<rparr>, w\<lparr>sp := (sp w)\<lparr>tx_buf := put_cells (tx_buf (sp w)) (wr_in t2) (take n (wr_data t2))\<rparr>\<rparr>) (t3, w1)"
        by (rule interleaved_one)
           (use n "1.prems"(4,6) in \<open>simp add: t3_def t2_def t1_def w1_def sp_upd_def tx_put_def bs_def\<close>)
      have "\<exists>t'. ?R (t3, w1) (t', w1\<lparr>sp := s'\<rparr>) \<and> wr_pc t' = Wr_Mask \<and> wr_data t' = rest \<and> wr_out t' = out1"
        by (rule "1.IH"[OF ne refl n0_def False n_def, folded bs_def, OF rec ok])
           (simp_all add: t3_def t2_def w1_def)
      then obtain t' where t': "?R (t3, w1) (t', w\<lparr>sp := s'\<rparr>)" "wr_pc t' = Wr_Mask" "wr_data t' = rest" "wr_out t' = out1"
        by (auto simp: w1_def)
      from interleaved_trans[OF t'(1) interleaved_trans[OF r4 interleaved_trans[OF r3 interleaved_trans[OF r2 r1]]]]
      show ?thesis using t' by blast
    qed
  qed
qed

text \<open>The critical section: nothing can come in between, and the functions call it at once.\<close>

lemma enable_run:
  assumes "wr_pc t = Wr_Mask"
  shows "\<exists>c. interleaved hw (wr_step nb) (t, w) (t\<lparr>wr_context := c, wr_pc := (if wr_data t \<noteq> [] \<and> \<not> nb then Wr_Spin else Wr_Done)\<rparr>,
    jtag_enable JU_CONTROL_WE_MSK w)"
proof -
  have "(wr_step nb ^^ Suc (Suc (Suc (Suc 0)))) (t, w)
    = (t\<lparr>wr_context := mstatus w, wr_pc := (if wr_data t \<noteq> [] \<and> \<not> nb then Wr_Spin else Wr_Done)\<rparr>, jtag_enable JU_CONTROL_WE_MSK w)"
    by (simp add: assms jtag_enable_def alt_irq_disable_all_def Let_def)
  then show ?thesis using interleaved_steps[OF interleaved.start, of hw "wr_step nb" "(t, w)" "Suc (Suc (Suc (Suc 0)))"] by metis
qed

lemma spin_run:
  assumes "spin (\<lambda>w. wr_out t = tx_out (sp w) \<and> host_active w) sched w = Some (sched2, w2)"
    and "wr_pc t = Wr_Spin" "schedule_ok hw sched" "rx_ok (sp w)" "tx_ok (sp w)"
  shows "interleaved hw (wr_step nb) (t, w) (t\<lparr>wr_pc := Wr_Inactive\<rparr>, w2) \<and> schedule_ok hw sched2 \<and> rx_ok (sp w2) \<and> tx_ok (sp w2)"
  using assms(1,3-5)
proof (induction sched arbitrary: w)
  have tt: "t\<lparr>wr_pc := Wr_Spin\<rparr> = t" using assms(2) by simp
  have leave: "interleaved hw (wr_step nb) (t, w) (t\<lparr>wr_pc := Wr_Inactive\<rparr>, w)"
    if "\<not> (wr_out t = tx_out (sp w) \<and> host_active w)" for w
  proof (cases "wr_out t = tx_out (sp w)")
    case True
    have "interleaved hw (wr_step nb) (t, w) (t\<lparr>wr_pc := Wr_Host\<rparr>, w)"
      by (rule interleaved_one) (simp add: assms(2) True)
    moreover have "interleaved hw (wr_step nb) (t\<lparr>wr_pc := Wr_Host\<rparr>, w) (t\<lparr>wr_pc := Wr_Inactive\<rparr>, w)"
      by (rule interleaved_one) (use True that in simp)
    ultimately show ?thesis using interleaved_trans by blast
  next
    case False
    then show ?thesis by (intro interleaved_one) (simp add: assms(2))
  qed
  {
    case (Nil w)
    then show ?case using leave[of w] by (auto split: if_splits)
  next
    case (Cons a sched w)
    show ?case
    proof (cases "wr_out t = tx_out (sp w) \<and> host_active w")
      case False
      then show ?thesis using leave[OF False] Cons.prems by auto
    next
      case True
      have "interleaved hw (wr_step nb) (t, w) (t\<lparr>wr_pc := Wr_Host\<rparr>, w)"
        by (rule interleaved_one) (simp add: assms(2) True)
      moreover have "interleaved hw (wr_step nb) (t\<lparr>wr_pc := Wr_Host\<rparr>, w) (t, w)"
        by (rule interleaved_one) (simp add: True tt)
      ultimately have r: "interleaved hw (wr_step nb) (t, w) (t, w)" using interleaved_trans by blast
      note a = schedule_step[OF Cons.prems(2-4)]
      have "spin (\<lambda>w. wr_out t = tx_out (sp w) \<and> host_active w) sched (a w) = Some (sched2, w2)"
        using Cons.prems(1) True by simp
      from Cons.IH[OF this a(4,2,3)] show ?thesis using interleaved_trans[OF _ interleaved_trans[OF a(1) r]] by blast
    qed
  }
qed

definition wr_run :: "hw \<Rightarrow> bool \<Rightarrow> u8 list \<Rightarrow> u32 \<Rightarrow> jtag_schedule \<Rightarrow> jtag_world \<Rightarrow> u8 list \<times> jtag_schedule \<times> jtag_world \<Rightarrow> bool" where
  "wr_run hw nb data out0 sched w r =
     (case r of (rest, sched', w') \<Rightarrow>
        schedule_ok hw sched \<longrightarrow> rx_ok (sp w) \<longrightarrow> tx_ok (sp w) \<longrightarrow>
        (\<forall>t. wr_pc t = Wr_In \<longrightarrow> wr_data t = data \<longrightarrow> wr_out t = out0 \<longrightarrow>
           (\<exists>t'. interleaved hw (wr_step nb) (t, w) (t', w') \<and> wr_pc t' = Wr_Done \<and> wr_data t' = rest)))"

lemma write_loop_run:
  "jtag_write_loop nb data out0 sched w = Some r \<Longrightarrow> wr_run hw nb data out0 sched w r"
proof (rule jtag_write_loop.raw_induct[where P = "wr_run hw", rotated], assumption)
  fix f nb data out0 sched w r
  assume ih: "\<And>nb data out0 sched w r. f nb data out0 sched w = Some r \<Longrightarrow> wr_run hw nb data out0 sched w r"
    and step: "(let (data1, out1, s1) = tx_copy data out0 (sp w);
          w1 = jtag_enable JU_CONTROL_WE_MSK (w\<lparr>sp := s1\<rparr>)
      in if data1 \<noteq> [] then
           (if nb then Some (data1, sched, w1)
            else (case spin (\<lambda>w. out1 = tx_out (sp w) \<and> host_active w) sched w1 of
                    None \<Rightarrow> None
                  | Some (sched2, w2) \<Rightarrow>
                      if ju_host_inactive (sp w2) \<noteq> 0 then Some (data1, sched2, w2)
                      else f nb data1 out1 sched2 w2))
         else Some ([], sched, w1)) = Some r"
  obtain rest sched' w' where r: "r = (rest, sched', w')" by (metis prod_cases3)
  obtain data1 out1 s1 where c: "tx_copy data out0 (sp w) = (data1, out1, s1)" by (metis prod_cases3)
  let ?w1 = "jtag_enable JU_CONTROL_WE_MSK (w\<lparr>sp := s1\<rparr>)"
  show "wr_run hw nb data out0 sched w r"
    unfolding wr_run_def r prod.case
  proof (intro impI allI)
    fix t :: wr_thread assume ok: "schedule_ok hw sched" "rx_ok (sp w)" "tx_ok (sp w)"
      and t: "wr_pc t = Wr_In" "wr_data t = data" "wr_out t = out0"
    obtain t1 where t1: "interleaved hw (wr_step nb) (t, w) (t1, w\<lparr>sp := s1\<rparr>)" "wr_pc t1 = Wr_Mask" "wr_data t1 = data1" "wr_out t1 = out1"
      using copy_run[OF c ok(3) t refl] by blast
    obtain ctx where e: "interleaved hw (wr_step nb) (t1, w\<lparr>sp := s1\<rparr>)
        (t1\<lparr>wr_context := ctx, wr_pc := (if data1 \<noteq> [] \<and> \<not> nb then Wr_Spin else Wr_Done)\<rparr>, ?w1)"
      using enable_run[OF t1(2)] t1(3) by metis
    define t2 where "t2 = t1\<lparr>wr_context := ctx, wr_pc := (if data1 \<noteq> [] \<and> \<not> nb then Wr_Spin else Wr_Done)\<rparr>"
    have r2: "interleaved hw (wr_step nb) (t, w) (t2, ?w1)" using interleaved_trans[OF e t1(1)] by (simp add: t2_def)
    obtain b i where s1: "s1 = (sp w)\<lparr>tx_buf := b, tx_in := i\<rparr>" "tx_ok s1" using tx_copy_puts[OF ok(3) c] by blast
    then have ok1: "rx_ok (sp ?w1)" "tx_ok (sp ?w1)" using ok(2) by (simp_all only: jtag_enable_queues) (simp_all add: rx_ok_def)
    show "\<exists>t'. interleaved hw (wr_step nb) (t, w) (t', w') \<and> wr_pc t' = Wr_Done \<and> wr_data t' = rest"
    proof (cases "data1 \<noteq> [] \<and> \<not> nb")
      case False
      then have "rest = data1" "w' = ?w1" using step c r by (auto simp: Let_def split: if_splits)
      then show ?thesis using r2 False t1(3) by (intro exI[of _ t2]) (auto simp: t2_def)
    next
      case True
      then obtain sched2 w2 where sp: "spin (\<lambda>w. out1 = tx_out (sp w) \<and> host_active w) sched ?w1 = Some (sched2, w2)"
        and st: "(if ju_host_inactive (sp w2) \<noteq> 0 then Some (data1, sched2, w2) else f nb data1 out1 sched2 w2) = Some (rest, sched', w')"
        using step c r by (auto split: option.splits)
      have "interleaved hw (wr_step nb) (t2, ?w1) (t2\<lparr>wr_pc := Wr_Inactive\<rparr>, w2) \<and> schedule_ok hw sched2 \<and> rx_ok (sp w2) \<and> tx_ok (sp w2)"
        by (rule spin_run[OF _ _ ok(1) ok1]) (use sp True t1(4) in \<open>simp_all add: t2_def\<close>)
      then have r3: "interleaved hw (wr_step nb) (t, w) (t2\<lparr>wr_pc := Wr_Inactive\<rparr>, w2)"
        and ok2: "schedule_ok hw sched2" "rx_ok (sp w2)" "tx_ok (sp w2)" using interleaved_trans r2 by blast+
      show ?thesis
      proof (cases "ju_host_inactive (sp w2) \<noteq> 0")
        case True
        then have "interleaved hw (wr_step nb) (t2\<lparr>wr_pc := Wr_Inactive\<rparr>, w2) (t2\<lparr>wr_pc := Wr_Done\<rparr>, w2)"
          by (intro interleaved_one) simp
        then show ?thesis using interleaved_trans[OF _ r3] True st t1(3)
          by (intro exI[of _ "t2\<lparr>wr_pc := Wr_Done\<rparr>"]) (auto simp: t2_def)
      next
        case False
        then have "interleaved hw (wr_step nb) (t2\<lparr>wr_pc := Wr_Inactive\<rparr>, w2) (t2\<lparr>wr_pc := Wr_In\<rparr>, w2)"
          by (intro interleaved_one) simp
        note r4 = interleaved_trans[OF this r3]
        have "wr_run hw nb data1 out1 sched2 w2 (rest, sched', w')" using ih False st by simp
        moreover have "wr_pc (t2\<lparr>wr_pc := Wr_In\<rparr>) = Wr_In" "wr_data (t2\<lparr>wr_pc := Wr_In\<rparr>) = data1" "wr_out (t2\<lparr>wr_pc := Wr_In\<rparr>) = out1"
          using t1(3,4) by (simp_all add: t2_def)
        ultimately obtain t' where "interleaved hw (wr_step nb) (t2\<lparr>wr_pc := Wr_In\<rparr>, w2) (t', w')" "wr_pc t' = Wr_Done" "wr_data t' = rest"
          using ok2 unfolding wr_run_def prod.case by blast
        then show ?thesis using interleaved_trans[OF _ r4] by blast
      qed
    qed
  qed
qed

section \<open>The reader\<close>

lemma take_bytes:
  assumes "rd_pc t = Rd_Copy 0" "rd_tmp t = []" "rd_out t = rx_out (sp w)" "j \<le> rd_n t"
  shows "interleaved hw (rd_step nb) (t, w) (t\<lparr>rd_tmp := cells (rx_buf (sp w)) (rx_out (sp w)) j, rd_pc := Rd_Copy j\<rparr>, w)"
  using assms(4)
proof (induction j)
  case 0
  have "t\<lparr>rd_tmp := [], rd_pc := Rd_Copy 0\<rparr> = t" using assms(1,2) by simp
  then show ?case by (simp add: cells_def interleaved.start)
next
  case (Suc j)
  then show ?case
    using interleaved.thread[OF Suc.IH] by (simp add: cells_snoc assms(3))
qed

lemma rd_out_step:
  assumes "rd_pc t = Rd_Out" "n0 = unat (if rd_in t \<ge> rx_out (sp w) then rd_in t - rx_out (sp w) else BUF_LEN - rx_out (sp w))"
  shows "rd_step nb (t, w) =
    (if n0 = 0 then (t\<lparr>rd_out := rx_out (sp w), rd_n := n0, rd_pc := rd_leave nb t\<rparr>, w)
     else (t\<lparr>rd_out := rx_out (sp w), rd_n := (if int n0 > rd_space t then nat (rd_space t) else n0), rd_pc := Rd_Copy 0, rd_tmp := []\<rparr>, w))"
  by (simp only: rd_step.simps rd_pc.case Let_def assms)

lemma read_run:
  "rx_copy space s = (bs, in1, s') \<Longrightarrow> rx_ok s \<Longrightarrow> rd_pc t = Rd_In \<Longrightarrow> rd_space t = int space \<Longrightarrow> space > 0 \<Longrightarrow> sp w = s
    \<Longrightarrow> \<exists>t'. interleaved hw (rd_step nb) (t, w) (t', w\<lparr>sp := s'\<rparr>) \<and> rd_pc t' = rd_leave nb t' \<and> rd_got t' = rd_got t @ bs
          \<and> rd_in t' = in1 \<and> (bs = [] \<longrightarrow> rd_space t' = int space)"
proof (induction space s arbitrary: t w bs in1 s' rule: rx_copy.induct)
  case (1 space s)
  let ?R = "interleaved hw (rd_step nb)"
  define n0 where "n0 = unat (if rx_in s \<ge> rx_out s then rx_in s - rx_out s else BUF_LEN - rx_out s)"
  define t1 where "t1 = t\<lparr>rd_in := rx_in s, rd_pc := Rd_Out\<rparr>"
  have r1: "?R (t, w) (t1, w)" by (rule interleaved_one) (use "1.prems" in \<open>simp add: t1_def\<close>)
  note run = rx_run_length[OF "1.prems"(2), folded n0_def]
  have out: "rd_step nb (t1, w) = (if n0 = 0 then (t1\<lparr>rd_out := rx_out (sp w), rd_n := n0, rd_pc := rd_leave nb t1\<rparr>, w)
     else (t1\<lparr>rd_out := rx_out (sp w), rd_n := (if int n0 > rd_space t1 then nat (rd_space t1) else n0), rd_pc := Rd_Copy 0, rd_tmp := []\<rparr>, w))"
    by (rule rd_out_step) (simp_all add: t1_def n0_def "1.prems"(6))
  show ?case
  proof (cases "n0 = 0")
    case True
    then have eq: "bs = []" "in1 = rx_in s" "s' = s"
      using "1.prems"(1) unfolding n0_def by (subst (asm) rx_copy.simps; simp only: Let_def simp_thms if_True prod.inject)+
    define t2 where "t2 = t1\<lparr>rd_out := rx_out s, rd_n := n0, rd_pc := rd_leave nb t1\<rparr>"
    have "?R (t1, w) (t2, w)"
      by (rule interleaved_one, unfold out) (simp add: True t2_def "1.prems"(6))
    from interleaved_trans[OF this r1] show ?thesis
      using eq "1.prems" by (intro exI[of _ t2]) (auto simp: t2_def t1_def rd_leave_def)
  next
    case False
    define n where "n = (if n0 > space then space else n0)"
    obtain b1 s1 where tk: "rx_take n s = (b1, s1)" by fastforce
    have b1: "b1 = cells (rx_buf s) (rx_out s) n" "s1 = s\<lparr>rx_out := (rx_out s + of_nat n) mod BUF_LEN\<rparr>"
      using tk by (simp_all add: rx_take_def)
    define t2 where "t2 = t1\<lparr>rd_out := rx_out s, rd_n := n, rd_pc := Rd_Copy 0, rd_tmp := []\<rparr>"
    define t3 where "t3 = t2\<lparr>rd_tmp := b1, rd_pc := Rd_Copy n\<rparr>"
    define t4 where "t4 = t3\<lparr>rd_got := rd_got t @ b1, rd_tmp := [], rd_space := int space - int n, rd_pc := Rd_More\<rparr>"
    define t5 where "t5 = t4\<lparr>rd_pc := (if rd_space t4 > 0 then Rd_In else rd_leave nb t4)\<rparr>"
    have n: "n \<le> n0" "n \<le> space" "0 < n" using False "1.prems"(5) by (auto simp: n_def)
    have nn: "(if int n0 > int space then nat (int space) else n0) = n" by (simp add: n_def)
    have st: "rd_step nb (t1, w) = (t2, w)"
    proof -
      have "rd_space t1 = int space" by (simp add: t1_def "1.prems"(4))
      then show ?thesis unfolding out using False nn by (simp only: t2_def "1.prems"(6) if_False)
    qed
    have av: "rx_avail n s" using n run(1,2) by (simp add: rx_avail_def rxq_def length_ring)
    note tks = rx_take_simps[OF "1.prems"(2) av]
    have ok: "rx_ok s1" using tks tk by simp
    have ne: "b1 \<noteq> []" using n(3) by (simp add: b1(1) cells_def)
    have r3: "?R (t2, w) (t3, w)"
      using take_bytes[of t2 w n hw nb] by (simp add: t2_def t3_def b1(1) "1.prems"(6))
    have r4: "?R (t3, w) (t4, w\<lparr>sp := s1\<rparr>)"
      by (rule interleaved_one)
         (simp add: t4_def t3_def t2_def t1_def sp_upd_def b1(2) "1.prems"(4,6))
    have r5: "?R (t4, w\<lparr>sp := s1\<rparr>) (t5, w\<lparr>sp := s1\<rparr>)"
      by (rule interleaved_one) (simp add: t5_def t4_def)
    have r2: "?R (t1, w) (t2, w)" by (rule interleaved_one) (rule st)
    note r = interleaved_trans[OF r5 interleaved_trans[OF r4 interleaved_trans[OF r3 interleaved_trans[OF r2 r1]]]]
    have eq: "rx_copy space s = (if space - n > 0
        then (let (cs, in2, s2) = rx_copy (space - n) s1 in (b1 @ cs, in2, s2)) else (b1, rx_in s, s1))"
      using False by (subst rx_copy.simps)
        (simp only: Let_def n0_def[symmetric] n_def[symmetric] tk simp_thms if_False prod.case)
    show ?thesis
    proof (cases "space - n > 0")
      case False
      then have "bs = b1" "in1 = rx_in s" "s' = s1" using "1.prems"(1) eq by auto
      then show ?thesis using r False ne
        by (intro exI[of _ t5]) (auto simp: t5_def t4_def t3_def t2_def t1_def rd_leave_def)
    next
      case True
      obtain cs in2 s2 where c: "rx_copy (space - n) s1 = (cs, in2, s2)" by (metis prod_cases3)
      then have e: "bs = b1 @ cs" "in1 = in2" "s' = s2" using "1.prems"(1) eq True by auto
      have "\<exists>t'. ?R (t5, w\<lparr>sp := s1\<rparr>) (t', w\<lparr>sp := s1, sp := s2\<rparr>) \<and> rd_pc t' = rd_leave nb t' \<and> rd_got t' = rd_got t5 @ cs
          \<and> rd_in t' = in2 \<and> (cs = [] \<longrightarrow> rd_space t' = int (space - n))"
        by (rule "1.IH"[OF refl refl n0_def False n_def tk[symmetric] refl True c ok])
           (use True in \<open>simp_all add: t5_def t4_def\<close>)
      then obtain t' where t': "?R (t5, w\<lparr>sp := s1\<rparr>) (t', w\<lparr>sp := s2\<rparr>)" "rd_pc t' = rd_leave nb t'"
        "rd_got t' = rd_got t5 @ cs" "rd_in t' = in2" by auto
      have "rd_got t5 = rd_got t @ b1" by (simp add: t5_def t4_def)
      then show ?thesis using interleaved_trans[OF t'(1) r] t' e ne by (intro exI[of _ t']) simp
    qed
  qed
qed

lemma read_spin_run:
  assumes "spin (\<lambda>w. rd_in t = rx_in (sp w) \<and> host_active w) sched w = Some (sched2, w2)"
    and "rd_pc t = Rd_Spin" "schedule_ok hw sched" "rx_ok (sp w)" "tx_ok (sp w)"
  shows "interleaved hw (rd_step nb) (t, w) (t\<lparr>rd_pc := Rd_Again\<rparr>, w2) \<and> schedule_ok hw sched2 \<and> rx_ok (sp w2) \<and> tx_ok (sp w2)"
  using assms(1,3-5)
proof (induction sched arbitrary: w)
  have tt: "t\<lparr>rd_pc := Rd_Spin\<rparr> = t" using assms(2) by simp
  have leave: "interleaved hw (rd_step nb) (t, w) (t\<lparr>rd_pc := Rd_Again\<rparr>, w)"
    if "\<not> (rd_in t = rx_in (sp w) \<and> host_active w)" for w
  proof (cases "rd_in t = rx_in (sp w)")
    case True
    have "interleaved hw (rd_step nb) (t, w) (t\<lparr>rd_pc := Rd_Host\<rparr>, w)"
      by (rule interleaved_one) (simp add: assms(2) True)
    moreover have "interleaved hw (rd_step nb) (t\<lparr>rd_pc := Rd_Host\<rparr>, w) (t\<lparr>rd_pc := Rd_Again\<rparr>, w)"
      by (rule interleaved_one) (use True that in simp)
    ultimately show ?thesis using interleaved_trans by blast
  next
    case False
    then show ?thesis by (intro interleaved_one) (simp add: assms(2))
  qed
  {
    case (Nil w)
    then show ?case using leave[of w] by (auto split: if_splits)
  next
    case (Cons a sched w)
    show ?case
    proof (cases "rd_in t = rx_in (sp w) \<and> host_active w")
      case False
      then show ?thesis using leave[OF False] Cons.prems by auto
    next
      case True
      have "interleaved hw (rd_step nb) (t, w) (t\<lparr>rd_pc := Rd_Host\<rparr>, w)"
        by (rule interleaved_one) (simp add: assms(2) True)
      moreover have "interleaved hw (rd_step nb) (t\<lparr>rd_pc := Rd_Host\<rparr>, w) (t, w)"
        by (rule interleaved_one) (simp add: True tt)
      ultimately have r: "interleaved hw (rd_step nb) (t, w) (t, w)" using interleaved_trans by blast
      note a = schedule_step[OF Cons.prems(2-4)]
      have "spin (\<lambda>w. rd_in t = rx_in (sp w) \<and> host_active w) sched (a w) = Some (sched2, w2)"
        using Cons.prems(1) True by simp
      from Cons.IH[OF this a(4,2,3)] show ?thesis using interleaved_trans[OF _ interleaved_trans[OF a(1) r]] by blast
    qed
  }
qed

lemma read_enable_run:
  assumes "rd_pc t = Rd_Mask"
  shows "\<exists>c. interleaved hw (rd_step nb) (t, w) (t\<lparr>rd_context := c, rd_pc := Rd_Done\<rparr>, jtag_enable JU_CONTROL_RE_MSK w)"
proof -
  have "(rd_step nb ^^ Suc (Suc (Suc (Suc 0)))) (t, w)
    = (t\<lparr>rd_context := mstatus w, rd_pc := Rd_Done\<rparr>, jtag_enable JU_CONTROL_RE_MSK w)"
    by (simp add: assms jtag_enable_def alt_irq_disable_all_def Let_def)
  then show ?thesis using interleaved_steps[OF interleaved.start, of hw "rd_step nb" "(t, w)" "Suc (Suc (Suc (Suc 0)))"] by metis
qed

definition rd_run :: "hw \<Rightarrow> bool \<Rightarrow> nat \<Rightarrow> jtag_schedule \<Rightarrow> jtag_world \<Rightarrow> u8 list \<times> jtag_schedule \<times> jtag_world \<Rightarrow> bool" where
  "rd_run hw nb space sched w r =
     (case r of (bs, sched', w') \<Rightarrow>
        schedule_ok hw sched \<longrightarrow> rx_ok (sp w) \<longrightarrow> tx_ok (sp w) \<longrightarrow> space > 0 \<longrightarrow>
        (\<forall>t. rd_pc t = Rd_In \<longrightarrow> rd_got t = [] \<longrightarrow> rd_space t = int space \<longrightarrow>
           (\<exists>t'. interleaved hw (rd_step nb) (t, w) (t', w') \<and> rd_pc t' = (if bs = [] then Rd_Done else Rd_Mask) \<and> rd_got t' = bs)))"

lemma read_loop_run:
  "jtag_read_loop nb space sched w = Some r \<Longrightarrow> rd_run hw nb space sched w r"
proof (rule jtag_read_loop.raw_induct[where P = "rd_run hw", rotated], assumption)
  fix f nb space sched w r
  assume ih: "\<And>nb space sched w r. f nb space sched w = Some r \<Longrightarrow> rd_run hw nb space sched w r"
    and step: "(if space > 0 then
        (let (bs, in0, s1) = rx_copy space (sp w); w1 = w\<lparr>sp := s1\<rparr>
         in if bs \<noteq> [] then Some (bs, sched, w1)
            else if nb then Some ([], sched, w1)
            else (case spin (\<lambda>w. in0 = rx_in (sp w) \<and> host_active w) sched w1 of
                    None \<Rightarrow> None
                  | Some (sched2, w2) \<Rightarrow>
                      if in0 = rx_in (sp w2) then Some ([], sched2, w2)
                      else f nb space sched2 w2))
      else Some ([], sched, w)) = Some r"
  obtain bs' sched' w' where r: "r = (bs', sched', w')" by (metis prod_cases3)
  obtain bs in0 s1 where c: "rx_copy space (sp w) = (bs, in0, s1)" by (metis prod_cases3)
  let ?w1 = "w\<lparr>sp := s1\<rparr>"
  show "rd_run hw nb space sched w r"
    unfolding rd_run_def r prod.case
  proof (intro impI allI)
    fix t :: rd_thread assume ok: "schedule_ok hw sched" "rx_ok (sp w)" "tx_ok (sp w)" "space > 0"
      and t: "rd_pc t = Rd_In" "rd_got t = []" "rd_space t = int space"
    have st: "(if bs \<noteq> [] then Some (bs, sched, ?w1) else if nb then Some ([], sched, ?w1)
        else (case spin (\<lambda>w. in0 = rx_in (sp w) \<and> host_active w) sched ?w1 of None \<Rightarrow> None
          | Some (sched2, w2) \<Rightarrow> if in0 = rx_in (sp w2) then Some ([], sched2, w2) else f nb space sched2 w2)) = Some (bs', sched', w')"
      using step c r ok(4) by (simp add: Let_def)
    obtain t1 where t1: "interleaved hw (rd_step nb) (t, w) (t1, ?w1)" "rd_pc t1 = rd_leave nb t1" "rd_got t1 = bs"
      "rd_in t1 = in0" "bs = [] \<Longrightarrow> rd_space t1 = int space"
      using read_run[OF c ok(2) t(1,3) ok(4) refl] t(2) by auto
    obtain o1 where s1: "s1 = (sp w)\<lparr>rx_out := o1\<rparr>" "rx_ok s1" using rx_copy_takes[OF ok(2) c] by blast
    then have ok1: "rx_ok (sp ?w1)" "tx_ok (sp ?w1)" using ok(3) by (simp_all add: tx_ok_def)
    show "\<exists>t'. interleaved hw (rd_step nb) (t, w) (t', w') \<and> rd_pc t' = (if bs' = [] then Rd_Done else Rd_Mask) \<and> rd_got t' = bs'"
    proof (cases "bs \<noteq> [] \<or> nb")
      case True
      then have "bs' = bs" "w' = ?w1" using st by (auto split: if_splits)
      then show ?thesis using t1 True by (intro exI[of _ t1]) (auto simp: rd_leave_def)
    next
      case False
      then obtain sched2 w2 where sp: "spin (\<lambda>w. in0 = rx_in (sp w) \<and> host_active w) sched ?w1 = Some (sched2, w2)"
        and st2: "(if in0 = rx_in (sp w2) then Some ([], sched2, w2) else f nb space sched2 w2) = Some (bs', sched', w')"
        using st by (auto split: option.splits)
      have "interleaved hw (rd_step nb) (t1, ?w1) (t1\<lparr>rd_pc := Rd_Again\<rparr>, w2) \<and> schedule_ok hw sched2 \<and> rx_ok (sp w2) \<and> tx_ok (sp w2)"
        by (rule read_spin_run[OF _ _ ok(1) ok1]) (use sp False t1(2-4) in \<open>simp_all add: rd_leave_def\<close>)
      then have r3: "interleaved hw (rd_step nb) (t, w) (t1\<lparr>rd_pc := Rd_Again\<rparr>, w2)"
        and ok2: "schedule_ok hw sched2" "rx_ok (sp w2)" "tx_ok (sp w2)" using interleaved_trans t1(1) by blast+
      show ?thesis
      proof (cases "in0 = rx_in (sp w2)")
        case True
        have "interleaved hw (rd_step nb) (t1\<lparr>rd_pc := Rd_Again\<rparr>, w2) (t1\<lparr>rd_pc := Rd_Done\<rparr>, w2)"
          by (rule interleaved_one) (simp add: t1(4) True)
        then show ?thesis using interleaved_trans[OF _ r3] st2 True t1(3) False
          by (intro exI[of _ "t1\<lparr>rd_pc := Rd_Done\<rparr>"]) auto
      next
        case ne: False
        have "interleaved hw (rd_step nb) (t1\<lparr>rd_pc := Rd_Again\<rparr>, w2) (t1\<lparr>rd_pc := Rd_In\<rparr>, w2)"
          by (rule interleaved_one) (simp add: t1(4) ne)
        note r4 = interleaved_trans[OF this r3]
        have "rd_run hw nb space sched2 w2 (bs', sched', w')" using ih ne st2 by simp
        moreover have "rd_pc (t1\<lparr>rd_pc := Rd_In\<rparr>) = Rd_In" "rd_got (t1\<lparr>rd_pc := Rd_In\<rparr>) = []" "rd_space (t1\<lparr>rd_pc := Rd_In\<rparr>) = int space"
          using t1(3,5) False by simp_all
        ultimately obtain t' where "interleaved hw (rd_step nb) (t1\<lparr>rd_pc := Rd_In\<rparr>, w2) (t', w')"
          "rd_pc t' = (if bs' = [] then Rd_Done else Rd_Mask)" "rd_got t' = bs'"
          using ok2 ok(4) unfolding rd_run_def prod.case by blast
        then show ?thesis using interleaved_trans[OF _ r4] by blast
      qed
    qed
  qed
qed

section \<open>The calls\<close>

lemma write_call_run:
  assumes "altera_avalon_jtag_uart_write data nonblock sched w = Some (rc, sched', w')"
    and "schedule_ok hw sched" "rx_ok (sp w)" "tx_ok (sp w)"
  shows "\<exists>t. interleaved hw (wr_step nonblock) (wr_start data, w) (t, w') \<and> wr_pc t = Wr_Done \<and> wr_result nonblock data t = rc"
proof -
  obtain rest where l: "jtag_write_loop nonblock data 0 sched w = Some (rest, sched', w')"
    and rc: "rc = (if length rest < length data then int (length data) - int (length rest) else if nonblock then - EWOULDBLOCK else - EIO)"
    using assms(1) by (auto simp: altera_avalon_jtag_uart_write_def split: option.splits)
  have "wr_pc (wr_start data) = Wr_In" "wr_data (wr_start data) = data" "wr_out (wr_start data) = 0" by (simp_all add: wr_start_def)
  then obtain t where "interleaved hw (wr_step nonblock) (wr_start data, w) (t, w')" "wr_pc t = Wr_Done" "wr_data t = rest"
    using write_loop_run[OF l, of hw] assms(2-4) unfolding wr_run_def prod.case by blast
  then show "\<exists>t. interleaved hw (wr_step nonblock) (wr_start data, w) (t, w') \<and> wr_pc t = Wr_Done \<and> wr_result nonblock data t = rc"
    using rc by (auto simp: wr_result_def)
qed

lemma read_call_run:
  assumes "altera_avalon_jtag_uart_read space nonblock sched w = Some (rc, bs, sched', w')"
    and "schedule_ok hw sched" "rx_ok (sp w)" "tx_ok (sp w)"
  shows "\<exists>t. interleaved hw (rd_step nonblock) (rd_start space, w) (t, w') \<and> rd_pc t = Rd_Done \<and> rd_got t = bs \<and> rd_result nonblock t = rc"
proof -
  obtain w1 where l: "jtag_read_loop nonblock (nat space) sched w = Some (bs, sched', w1)"
    and rc: "rc = (if bs \<noteq> [] then int (length bs) else if nonblock then - EWOULDBLOCK else - EIO)"
    and w': "w' = (if bs \<noteq> [] then jtag_enable JU_CONTROL_RE_MSK w1 else w1)"
    using assms(1) by (auto simp: altera_avalon_jtag_uart_read_def split: option.splits if_splits)
  show "\<exists>t. interleaved hw (rd_step nonblock) (rd_start space, w) (t, w') \<and> rd_pc t = Rd_Done \<and> rd_got t = bs \<and> rd_result nonblock t = rc"
  proof (cases "space > 0")
    case False
    then have "bs = []" "w1 = w" using l by (simp_all add: jtag_read_loop.simps)
    then show ?thesis using False rc w'
      by (intro exI[of _ "rd_start space"]) (auto simp: rd_start_def rd_result_def intro: interleaved.start)
  next
    case True
    then have "rd_pc (rd_start space) = Rd_In" "rd_got (rd_start space) = []" "rd_space (rd_start space) = int (nat space)" "nat space > 0"
      by (simp_all add: rd_start_def)
    then obtain t where t: "interleaved hw (rd_step nonblock) (rd_start space, w) (t, w1)"
      "rd_pc t = (if bs = [] then Rd_Done else Rd_Mask)" "rd_got t = bs"
      using read_loop_run[OF l, of hw] assms(2-4) unfolding rd_run_def prod.case by blast
    show ?thesis
    proof (cases "bs = []")
      case True
      then show ?thesis using t rc w' by (auto simp: rd_result_def)
    next
      case False
      then obtain c where "interleaved hw (rd_step nonblock) (t, w1) (t\<lparr>rd_context := c, rd_pc := Rd_Done\<rparr>, w')"
        using read_enable_run[of t hw nonblock w1] t(2) w' by auto
      then show ?thesis using interleaved_trans[OF _ t(1)] t(3) rc False
        by (intro exI[of _ "t\<lparr>rd_context := c, rd_pc := Rd_Done\<rparr>"]) (auto simp: rd_result_def)
    qed
  qed
qed


text \<open>
  Whatever the functions \<open>altera_avalon_jtag_uart_write\<close> and \<open>_read\<close> return, when the interrupts of the
  schedule come while they wait, some run of the steps returns: it ends in the same state, with the same
  result and the same bytes.
\<close>

theorem calls_are_runs:
  assumes "schedule_ok hw sched" "rx_ok (sp w)" "tx_ok (sp w)"
  shows "(altera_avalon_jtag_uart_write data nonblock sched w = Some (rc, sched', w') \<longrightarrow>
      (\<exists>t. interleaved hw (wr_step nonblock) (wr_start data, w) (t, w') \<and> wr_pc t = Wr_Done \<and> wr_result nonblock data t = rc))
    \<and> (altera_avalon_jtag_uart_read space nonblock sched w = Some (rc, bs, sched', w') \<longrightarrow>
      (\<exists>t. interleaved hw (rd_step nonblock) (rd_start space, w) (t, w') \<and> rd_pc t = Rd_Done \<and> rd_got t = bs \<and> rd_result nonblock t = rc))"
  using assms write_call_run read_call_run by blast

theorem calls_are_runs_witness:
  "\<exists>(w' :: jtag_world) t. interleaved (\<lambda>t b r. 0) (wr_step False) (wr_start [0x48], steps_world) (t, w') \<and> wr_pc t = Wr_Done
    \<and> wr_result False [0x48] t = 1"
proof -
  have "schedule_ok (\<lambda>t b r. 0) []" "rx_ok (sp steps_world)" "tx_ok (sp steps_world)" by (simp_all add: schedule_ok_def steps_world_ok)
  moreover obtain w' where "altera_avalon_jtag_uart_write [0x48] False [] steps_world = Some (1, [], w')"
    using write_immediate[of steps_world "[0x48]" False "[]"] by (auto simp: steps_world_ok)
  ultimately show ?thesis
    using calls_are_runs[of "\<lambda>t b r. 0" "[]" steps_world "[0x48]" False 1 "[]"] by blast
qed

end
