(* ===== verification/Traps.thy ===== *)
theory Traps
  imports BootProps JtagRuns
begin

text \<open>
  Traps on the board once it has started: what \<open>handle_trap\<close> does with the handlers that the start
  registered. Only the timer and the UART can interrupt, and a trap is either a tick, which leaves the UART alone, or
  one or more calls of the UART's handler.
\<close>

section \<open>The processor and the linker\<close>

text \<open>
  The code at the addresses of the handlers, and \<open>al\<close> that of the alarms' callbacks. The UART's device is served: its handler comes to the end of
  its loop.
\<close>

definition linked ::
  "hw \<Rightarrow> (u32 \<Rightarrow> u32 \<Rightarrow> jtag_world \<Rightarrow> u32 \<times> jtag_world) \<Rightarrow> (u32 \<Rightarrow> u32 \<Rightarrow> jtag_world \<Rightarrow> jtag_world)
    \<Rightarrow> (u32 \<Rightarrow> u32 \<Rightarrow> u32 \<Rightarrow> u32 \<Rightarrow> jtag_world \<Rightarrow> jtag_world) \<Rightarrow> bool" where
  "linked hw al run run3 \<longleftrightarrow>
     (\<forall>w. ju_base (sp w) = 0x300a0 \<longrightarrow> rx_ok (sp w) \<longrightarrow> tx_ok (sp w)
        \<longrightarrow> altera_avalon_jtag_uart_irq hw w = Some (run JTAG_IRQ_ISR JTAG_UART_0_STATE w))
   \<and> (\<forall>cause epc tval w w'. alt_niosv_timer_sc_isr hw 0 al w = Some w' \<longrightarrow> run3 TIMER_SC_ISR cause epc tval w = w')"

text \<open>
  The processor takes interrupt \<open>i\<close> when it is pending, enabled, and interrupts are on; \<open>mip\<close> is the
  pending register in a state of the system. The cause register has the number and the top bit.
\<close>

inductive trap ::
  "(jtag_world \<Rightarrow> u32) \<Rightarrow> (u32 \<Rightarrow> u32 \<Rightarrow> jtag_world \<Rightarrow> jtag_world) \<Rightarrow> (u32 \<Rightarrow> u32 \<Rightarrow> u32 \<Rightarrow> u32 \<Rightarrow> jtag_world \<Rightarrow> jtag_world)
    \<Rightarrow> jtag_world \<Rightarrow> jtag_world \<Rightarrow> bool" for mip run run3 where
  taken: "mstatus w AND NIOSV_MSTATUS_MIE_MASK \<noteq> 0 \<Longrightarrow> bit (mip w AND mie w) i
    \<Longrightarrow> handle_trap board_trap_config mip run run3 run_exn (NIOSV_MCAUSE_INTERRUPT_MASK OR of_nat i) epc tval w = Some (epc', w')
    \<Longrightarrow> trap mip run run3 w w'"

text \<open>What the start leaves and every trap keeps.\<close>

definition booted :: "jtag_world \<Rightarrow> bool" where
  "booted w \<longleftrightarrow> mie w = 0x10080 \<and> timer_handler w = TIMER_SC_ISR
     \<and> alt_irq w 0 = \<lparr>handler = JTAG_IRQ_ISR, hcontext = JTAG_UART_0_STATE\<rparr>
     \<and> ring_list (alarm_links w) ALT_ALARM_LIST [] \<and> ju_base (sp w) = 0x300a0
     \<and> ju_timeout (sp w) = INT_MAX \<and> ju_host_inactive (sp w) = 0 \<and> rx_ok (sp w) \<and> tx_ok (sp w)"

section \<open>The UART's handler\<close>

text \<open>It changes the device's history and its own state only, and accesses only the two registers of the device.\<close>

fun uart_event :: "u32 \<Rightarrow> io_event \<Rightarrow> bool" where
  "uart_event b (Wr a r v) = (a = b \<and> r < 2)"
| "uart_event b (Rd a r v) = (a = b \<and> r < 2)"
| "uart_event b (BusySleep us) = False"

definition uart_only :: "jtag_world \<Rightarrow> jtag_world \<Rightarrow> bool" where
  "uart_only w w' \<longleftrightarrow> w' = w\<lparr>io := io w', sp := sp w'\<rparr> \<and> ju_base (sp w') = ju_base (sp w)
     \<and> (\<exists>d. io w' = d @ io w \<and> list_all (uart_event (ju_base (sp w))) d)"

lemma uart_only_refl: "uart_only w w"
  unfolding uart_only_def by (cases w) simp

lemma uart_only_trans:
  assumes "uart_only w w1" "uart_only w1 w2"
  shows "uart_only w w2"
proof -
  have b: "ju_base (sp w1) = ju_base (sp w)" "ju_base (sp w2) = ju_base (sp w)" using assms by (simp_all add: uart_only_def)
  have "w2 = w1\<lparr>io := io w2, sp := sp w2\<rparr>" using assms(2) by (simp add: uart_only_def)
  also have "\<dots> = w\<lparr>io := io w1, sp := sp w1\<rparr>\<lparr>io := io w2, sp := sp w2\<rparr>" using assms(1) by (simp add: uart_only_def)
  finally have "w2 = w\<lparr>io := io w2, sp := sp w2\<rparr>" by simp
  moreover obtain d e where "io w1 = d @ io w" "io w2 = e @ io w1" "list_all (uart_event (ju_base (sp w))) (e @ d)"
    using assms b unfolding uart_only_def by fastforce
  then have "\<exists>d. io w2 = d @ io w \<and> list_all (uart_event (ju_base (sp w))) d" by (intro exI[of _ "e @ d"]) simp
  ultimately show ?thesis using b(2) by (simp add: uart_only_def)
qed

lemma uart_only_one:
  "w' = w\<lparr>io := e # io w, sp := s\<rparr> \<Longrightarrow> ju_base s = ju_base (sp w) \<Longrightarrow> uart_event (ju_base (sp w)) e \<Longrightarrow> uart_only w w'"
  by (cases w) (simp add: uart_only_def)

lemma uart_only_upd: "ju_base (f (sp w)) = ju_base (sp w) \<Longrightarrow> uart_only w (sp_upd f w)"
  by (cases w) (simp add: uart_only_def sp_upd_def)

lemma uart_only_iord: "iord hw (ju_base (sp w)) r w = (v, w') \<Longrightarrow> r < 2 \<Longrightarrow> uart_only w w'"
  by (rule uart_only_one[where e = "Rd (ju_base (sp w)) r v" and s = "sp w"]) (auto simp: iord_eq)

lemma uart_only_mask_off: "uart_only w (isr_mask_off hw m w)"
  by (cases w) (simp add: isr_mask_off_def uart_only_def sp_upd_def iowr_eq iord_eq JU_CONTROL_REG_def Let_def)

lemma uart_only_tx: "jtag_isr_tx space w = (n, w') \<Longrightarrow> uart_only w w'"
proof (induction space w rule: jtag_isr_tx.induct)
  case (1 space w)
  show ?case
  proof (cases "space > 0 \<and> tx_out (sp w) \<noteq> tx_in (sp w)")
    case True
    obtain c s1 where p: "tx_pop (sp w) = (c, s1)" by fastforce
    define w1 where "w1 = (iowr (ju_base (sp w)) JU_DATA_REG (ucast c) w)\<lparr>sp := s1\<rparr>"
    have "jtag_isr_tx (space - 1) w1 = (n, w')"
      using 1(2) True p by (subst (asm) jtag_isr_tx.simps) (simp add: w1_def)
    then have "uart_only w1 w'" using 1(1)[OF True p[symmetric] refl refl] by (simp add: w1_def)
    moreover have "ju_base s1 = ju_base (sp w)" using p by (auto simp: tx_pop_def)
    then have "uart_only w w1"
      by (intro uart_only_one[where e = "Wr (ju_base (sp w)) JU_DATA_REG (ucast c)" and s = s1]) (simp_all add: w1_def iowr_eq JU_DATA_REG_def)
    ultimately show ?thesis using uart_only_trans by blast
  next
    case False
    then show ?thesis using 1(2) uart_only_refl by (subst (asm) jtag_isr_tx.simps) auto
  qed
qed

lemma uart_only_rx: "jtag_isr_rx hw data w = Some r \<Longrightarrow> uart_only w (snd r)"
proof (rule jtag_isr_rx.raw_induct[where P = "\<lambda>hw data w r. uart_only w (snd r)", rotated], assumption)
  fix f hw data w r
  assume ih: "\<And>hw data w r. f hw data w = Some r \<Longrightarrow> uart_only w (snd r)"
    and step: "(let next0 = (rx_in (sp w) + 1) mod BUF_LEN
      in if next0 = rx_out (sp w) then Some (data, w)
         else (let (data1, w1) = iord hw (ju_base (sp w)) JU_DATA_REG w
               in if data1 AND JU_DATA_RVALID_MSK = 0 then Some (data1, w1)
                  else f hw data1 (sp_upd (rx_push (ucast (data1 AND JU_DATA_DATA_MSK))) w1))) = Some r"
  obtain data1 w1 where i: "iord hw (ju_base (sp w)) JU_DATA_REG w = (data1, w1)" by fastforce
  let ?w2 = "sp_upd (rx_push (ucast (data1 AND JU_DATA_DATA_MSK))) w1"
  have "r = (data, w) \<or> r = (data1, w1) \<or> f hw data1 ?w2 = Some r"
    using step i by (auto simp: Let_def split: if_splits)
  moreover have "uart_only w w1" by (rule uart_only_iord[OF i]) (simp add: JU_DATA_REG_def)
  moreover from this have "uart_only w ?w2" by (rule uart_only_trans) (simp add: uart_only_upd rx_push_def)
  ultimately show "uart_only w (snd r)" using uart_only_refl[of w] uart_only_trans[of w ?w2 "snd r"] ih[of hw data1 ?w2 r] by auto
qed

lemma uart_only_round:
  assumes "jtag_isr_round hw ctl w = Some w'"
  shows "uart_only w w'"
proof -
  have rc: "uart_only v v'" if r: "jtag_isr_receive hw v = Some v'" for v v'
  proof -
    obtain d v1 where t: "jtag_isr_rx hw (push_bit JU_DATA_RAVAIL_OFST 1) v = Some (d, v1)"
      using r unfolding jtag_isr_receive_def by (auto split: option.splits)
    then have "v' = v1 \<or> v' = isr_mask_off hw JU_CONTROL_RE_MSK v1"
      using r unfolding jtag_isr_receive_def by (auto split: if_splits)
    then show ?thesis using uart_only_rx[OF t] uart_only_trans[OF _ uart_only_mask_off] by auto
  qed
  have sd: "uart_only v (jtag_isr_send hw ctl v)" for v
  proof -
    obtain n v1 where t: "jtag_isr_tx (drop_bit JU_CONTROL_WSPACE_OFST (ctl AND JU_CONTROL_WSPACE_MSK)) v = (n, v1)" by fastforce
    then show ?thesis
      using uart_only_tx[OF t] uart_only_trans[OF _ uart_only_mask_off] by (auto simp: jtag_isr_send_def)
  qed
  obtain w1 where r: "(if ctl AND JU_CONTROL_RI_MSK \<noteq> 0 then jtag_isr_receive hw w else Some w) = Some w1"
    "w' = (if ctl AND JU_CONTROL_WI_MSK \<noteq> 0 then jtag_isr_send hw ctl w1 else w1)"
    using assms by (auto simp: jtag_isr_round_def split: option.splits)
  have "uart_only w w1" using r(1) rc uart_only_refl by (auto split: if_splits)
  then show ?thesis using r(2) sd uart_only_trans by auto
qed

lemma uart_only_irq: "altera_avalon_jtag_uart_irq hw w = Some w' \<Longrightarrow> uart_only w w'"
proof (rule altera_avalon_jtag_uart_irq.raw_induct[where P = "\<lambda>hw w w'. uart_only w w'", rotated], assumption)
  fix f hw w w'
  assume ih: "\<And>hw w w'. f hw w = Some w' \<Longrightarrow> uart_only w w'"
    and step: "(let (ctl, w1) = iord hw (ju_base (sp w)) JU_CONTROL_REG w
        in if ctl AND (JU_CONTROL_RI_MSK OR JU_CONTROL_WI_MSK) = 0 then Some w1
           else (case jtag_isr_round hw ctl w1 of None \<Rightarrow> None | Some w2 \<Rightarrow> f hw w2)) = Some w'"
  obtain ctl w1 where i: "iord hw (ju_base (sp w)) JU_CONTROL_REG w = (ctl, w1)" by fastforce
  then have "w' = w1 \<or> (\<exists>w2. jtag_isr_round hw ctl w1 = Some w2 \<and> f hw w2 = Some w')"
    using step by (auto split: if_splits option.splits)
  then show "uart_only w w'"
    using uart_only_iord[OF i] uart_only_round ih uart_only_trans by (fastforce simp: JU_CONTROL_REG_def)
qed


section \<open>A trap\<close>

lemma uart_call:
  assumes "linked hw al run run3" "booted w" "mstatus w AND NIOSV_MSTATUS_MIE_MASK \<noteq> 0"
    and "w1 = run JTAG_IRQ_ISR JTAG_UART_0_STATE w"
  shows "interrupt hw w w1" "booted w1" "mstatus w1 = mstatus w" "uart_only w w1"
proof -
  have ok: "rx_ok (sp w)" "tx_ok (sp w)" "ju_base (sp w) = 0x300a0" using assms(2) by (simp_all add: booted_def)
  then have r: "altera_avalon_jtag_uart_irq hw w = Some w1" using assms(1,4) by (simp add: linked_def)
  show "interrupt hw w w1" by (rule interrupt.uart[OF assms(3) r])
  have st: "isr_step w w1" by (rule jtag_irq_step[OF ok(1,2) r])
  then show "mstatus w1 = mstatus w" by (simp add: isr_step_def)
  show "uart_only w w1" by (rule uart_only_irq[OF r])
  then obtain t s where "w1 = w\<lparr>io := t, sp := s\<rparr>" unfolding uart_only_def by blast
  then have "mie w1 = mie w" "timer_handler w1 = timer_handler w" "alt_irq w1 = alt_irq w" "alarm_links w1 = alarm_links w"
    by simp_all
  then show "booted w1" using assms(2) st by (simp add: booted_def isr_step_def)
qed

text \<open>The one line that is enabled.\<close>

lemma pending_one:
  assumes "mie w = 0x10080"
  shows "alt_irq_pending p w = (if bit p 16 then 1 else 0)"
proof -
  have "alt_irq_pending p w = drop_bit 16 p AND 1" by (simp add: alt_irq_pending_def assms)
  also have "\<dots> = of_bool (odd (drop_bit 16 p))" by (simp add: and_one_eq mod_2_eq_odd)
  finally show ?thesis by (simp add: bit_iff_odd_drop_bit)
qed


lemma dispatch_uart:
  assumes "alt_irq_dispatch mip run active w = Some w'" "linked hw al run run3" "booted w"
    and "mstatus w AND NIOSV_MSTATUS_MIE_MASK \<noteq> 0" "active = alt_irq_pending (mip w) w" "active \<noteq> 0"
  shows "(interrupt hw)\<^sup>+\<^sup>+ w w' \<and> booted w' \<and> mstatus w' = mstatus w \<and> uart_only w w'"
proof -
  let ?P = "\<lambda>mip run active w w'. linked hw al run run3 \<longrightarrow> booted w \<longrightarrow> mstatus w AND NIOSV_MSTATUS_MIE_MASK \<noteq> 0
    \<longrightarrow> active = alt_irq_pending (mip w) w \<longrightarrow> active \<noteq> 0
    \<longrightarrow> (interrupt hw)\<^sup>+\<^sup>+ w w' \<and> booted w' \<and> mstatus w' = mstatus w \<and> uart_only w w'"
  have "?P mip run active w w'"
  proof (rule alt_irq_dispatch.raw_induct[where P = ?P, rotated, OF assms(1)], intro impI)
    fix f mip run active and w w' :: jtag_world
    assume ih: "\<And>mip run active w w'. f mip run active w = Some w' \<Longrightarrow> ?P mip run active w w'"
      and step: "(case scan_active active 1 0 of
        None \<Rightarrow> None
      | Some i \<Rightarrow>
          (let s = alt_irq w (uint i)
           in if handler s = 0 then None
              else (let w1 = run (handler s) (hcontext s) w; active1 = alt_irq_pending (mip w1) w1
                    in if active1 \<noteq> 0 then f mip run active1 w1 else Some w1))) = Some w'"
      and l: "linked hw al run run3" and b: "booted w" and m: "mstatus w AND NIOSV_MSTATUS_MIE_MASK \<noteq> 0"
      and a: "active = alt_irq_pending (mip w) w" "active \<noteq> 0"
    have b0: "mie w = 0x10080" "alt_irq w 0 = \<lparr>handler = JTAG_IRQ_ISR, hcontext = JTAG_UART_0_STATE\<rparr>"
      using b by (simp_all add: booted_def)
    have "active = 1" using a pending_one[OF b0(1)] by (auto split: if_splits)
    then have "scan_active active 1 0 = Some 0" using scan_lowest[of active 0] by simp
    define w1 where "w1 = run JTAG_IRQ_ISR JTAG_UART_0_STATE w"
    note u = uart_call[OF l b m w1_def]
    let ?a = "alt_irq_pending (mip w1) w1"
    have "JTAG_IRQ_ISR \<noteq> 0" by (simp add: JTAG_IRQ_ISR_def)
    then have s: "?a \<noteq> 0 \<Longrightarrow> f mip run ?a w1 = Some w'" "?a = 0 \<Longrightarrow> w1 = w'"
      using step \<open>scan_active active 1 0 = Some 0\<close> b0(2) by (simp_all add: Let_def w1_def)
    show "(interrupt hw)\<^sup>+\<^sup>+ w w' \<and> booted w' \<and> mstatus w' = mstatus w \<and> uart_only w w'"
    proof (cases "?a = 0")
      case True
      then show ?thesis using s u by auto
    next
      case False
      then have "f mip run ?a w1 = Some w'" using s by simp
      from ih[OF this] have "(interrupt hw)\<^sup>+\<^sup>+ w1 w' \<and> booted w' \<and> mstatus w' = mstatus w1 \<and> uart_only w1 w'"
        using False l u m by simp
      then show ?thesis using u uart_only_trans[OF u(4)] by (auto intro: tranclp_into_tranclp2)
    qed
  qed
  then show ?thesis using assms(2-) by blast
qed

text \<open>The tick reads the timer, moves its compare register, and counts: accesses to the two pairs of registers.\<close>

fun timer_event :: "io_event \<Rightarrow> bool" where
  "timer_event (Wr a r v) = ((a = 0x30040 \<or> a = 0x30048) \<and> r < 2)"
| "timer_event (Rd a r v) = ((a = 0x30040 \<or> a = 0x30048) \<and> r < 2)"
| "timer_event (BusySleep us) = False"

definition timer_only :: "trace \<Rightarrow> trace \<Rightarrow> bool" where
  "timer_only t t' \<longleftrightarrow> (\<exists>d. t' = d @ t \<and> list_all timer_event d)"

lemma timer_only_Cons: "timer_event e \<Longrightarrow> timer_only t t' \<Longrightarrow> timer_only t (e # t')"
  unfolding timer_only_def by (metis append_Cons list.pred_inject(2))

lemma timer_only_refl: "timer_only t t"
  by (simp add: timer_only_def)

lemma timer_only_trans: "timer_only t t1 \<Longrightarrow> timer_only t1 t2 \<Longrightarrow> timer_only t t2"
  unfolding timer_only_def by (metis append.assoc list_all_append)

lemma timer_events_quiet: "list_all timer_event d \<Longrightarrow> quiet_at 0x300a0 d"
proof (induction d)
  case (Cons e d)
  then show ?case by (cases e) (auto simp: quiet_at_def)
qed (simp add: quiet_at_def)

lemma mtime_get_timer:
  "alt_niosv_mtime_get hw w = Some r \<Longrightarrow> timer_only (io w) (io (snd r))"
proof (rule alt_niosv_mtime_get.raw_induct[where P = "\<lambda>hw w r. timer_only (io w) (io (snd r))", rotated], assumption)
  fix f hw w r
  assume ih: "\<And>hw w r. f hw w = Some r \<Longrightarrow> timer_only (io w) (io (snd r))"
    and step: "(let (highbits, w1) = iord hw NIOSV_MTIME_ADDR 1 w; (lowbits, w2) = iord hw NIOSV_MTIME_ADDR 0 w1;
         (again, w3) = iord hw NIOSV_MTIME_ADDR 1 w2
       in if again \<noteq> highbits then f hw w3 else Some (join64 highbits lowbits, w3)) = Some r"
  define w3 where "w3 = snd (iord hw NIOSV_MTIME_ADDR 1 (snd (iord hw NIOSV_MTIME_ADDR 0 (snd (iord hw NIOSV_MTIME_ADDR 1 w)))))"
  have w3: "timer_only (io w) (io w3)"
    by (simp add: w3_def iord_eq) (intro timer_only_Cons timer_only_refl; simp add: NIOSV_MTIME_ADDR_def)
  have "f hw w3 = Some r \<or> snd r = w3" using step by (auto simp: w3_def iord_eq Let_def split: if_splits)
  then show "timer_only (io w) (io (snd r))" using ih w3 timer_only_trans by blast
qed

lemma mtimecmp_set_timer: "timer_only (io w) (io (alt_niosv_mtimecmp_set 0 x w))"
  unfolding mtimecmp_set_io Let_def append_Cons append_Nil
  by (intro timer_only_Cons timer_only_refl; simp add: alt_niosv_get_mtimecmp_addr_def NIOSV_MTIMECMP_ADDR_def NIOSV_MTIME_ADDR_def)

lemma timer_tick:
  assumes "running_counter hw" "ring_list (alarm_links w) ALT_ALARM_LIST []"
  shows "\<exists>d. alt_niosv_timer_sc_isr hw 0 al w = Some (w\<lparr>io := d @ io w, nticks := nticks w + 1\<rparr>) \<and> list_all timer_event d"
proof -
  obtain v t where g: "alt_niosv_mtime_get hw w = Some (v, w\<lparr>io := t\<rparr>)" using mtime_get_ends[OF assms(1)] by blast
  let ?c = "alt_niosv_mtimecmp_set 0 (v + ucast MTIMECMP_DELTA_AMT) (w\<lparr>io := t\<rparr>)"
  have "timer_only (io w) (io ?c)"
    using timer_only_trans[OF mtime_get_timer[OF g] mtimecmp_set_timer] by simp
  then obtain d where d: "io ?c = d @ io w" "list_all timer_event d" unfolding timer_only_def by blast
  have "?c = w\<lparr>io := io ?c\<rparr>" by (simp add: alt_niosv_mtimecmp_set_def iowr_eq Let_def)
  then have c: "?c = w\<lparr>io := d @ io w\<rparr>" using d(1) by simp
  have "ln_next (alarm_links w ALT_ALARM_LIST) = ALT_ALARM_LIST" using assms(2) ring_list_next by force
  then have "alt_tick al (v'\<lparr>mstatus := m\<rparr>) = Some (v'\<lparr>mstatus := m, nticks := nticks v' + 1\<rparr>)" if "v' = w\<lparr>io := x\<rparr>" for v' x m
    by (simp add: that alt_tick_def Let_def) (subst tick_walk.simps, simp)
  then have "alt_niosv_timer_sc_isr hw 0 al w = Some (w\<lparr>io := d @ io w, nticks := nticks w + 1\<rparr>)"
    using g c by (simp add: alt_niosv_timer_sc_isr_def alt_irq_disable_all_def alt_irq_enable_all_def mstatus_restored Let_def)
  then show ?thesis using d(2) by (intro exI[of _ d]) simp
qed

lemma cause_parts:
  "(NIOSV_MCAUSE_INTERRUPT_MASK OR 7) AND NIOSV_MCAUSE_INTERRUPT_MASK \<noteq> 0" "(NIOSV_MCAUSE_INTERRUPT_MASK OR 16) AND NIOSV_MCAUSE_INTERRUPT_MASK \<noteq> 0"
  "(NIOSV_MCAUSE_INTERRUPT_MASK OR 7) AND NOT NIOSV_MCAUSE_INTERRUPT_MASK = 7" "(NIOSV_MCAUSE_INTERRUPT_MASK OR 16) AND NOT NIOSV_MCAUSE_INTERRUPT_MASK = 16"
  by (simp_all add: NIOSV_MCAUSE_INTERRUPT_MASK_def)

lemma enabled_irqs: "bit (p AND 0x10080 :: u32) i \<Longrightarrow> i = 7 \<or> i = 16"
proof -
  assume "bit (p AND 0x10080 :: u32) i"
  moreover have "(0x10080 :: u32) = push_bit 7 1 OR push_bit 16 1" by simp
  ultimately show ?thesis by (auto simp: bit_simps bit_push_bit_one simp del: push_bit_of_1 push_bit_numeral)
qed

text \<open>A trap is interrupts of the driver's model, keeps the board's state, and accesses the timer or the UART.\<close>

definition trap_event :: "io_event \<Rightarrow> bool" where
  "trap_event e \<longleftrightarrow> timer_event e \<or> uart_event 0x300a0 e"

lemma trap_runs:
  assumes "trap mip run run3 w w'" "linked hw al run run3" "running_counter hw" "booted w"
  shows "(interrupt hw)\<^sup>+\<^sup>+ w w' \<and> booted w' \<and> mstatus w' = mstatus w \<and> (\<exists>d. io w' = d @ io w \<and> list_all trap_event d)"
  using assms(1)
proof cases
  case (taken i run_exn epc tval epc')
  have b: "mie w = 0x10080" "timer_handler w = TIMER_SC_ISR" "ring_list (alarm_links w) ALT_ALARM_LIST []" "ju_base (sp w) = 0x300a0"
    using assms(4) by (simp_all add: booted_def)
  have "i = 7 \<or> i = 16" using taken(2) enabled_irqs b(1) by simp
  then show ?thesis
  proof
    assume i: "i = 7"
    obtain d where d: "alt_niosv_timer_sc_isr hw 0 al w = Some (w\<lparr>io := d @ io w, nticks := nticks w + 1\<rparr>)"
      "list_all timer_event d" using timer_tick[OF assms(3) b(3)] by blast
    have "TIMER_SC_ISR \<noteq> 0" by (simp add: TIMER_SC_ISR_def)
    then have w': "w' = w\<lparr>io := d @ io w, nticks := nticks w + 1\<rparr>"
      using taken(3) d(1) assms(2) b(2) cause_parts(1,3)
      by (auto simp: i handle_trap_def linked_def NIOSV_TIMER_IRQ_def Let_def)
    have "interrupt hw w w'" by (rule interrupt.other[OF taken(1), where d = d]) (simp_all add: w' b(4) timer_events_quiet[OF d(2)])
    moreover have "list_all trap_event d" using d(2) by (simp add: list_all_iff trap_event_def)
    ultimately show ?thesis using assms(4) by (simp add: w' booted_def)
  next
    assume i: "i = 16"
    have "bit (mip w) 16" using taken(2) by (simp add: i bit_and_iff)
    then have "alt_irq_pending (mip w) w \<noteq> 0" using pending_one[OF b(1)] by simp
    moreover have "alt_irq_dispatch mip run (alt_irq_pending (mip w) w) w = Some w'"
      using taken(3) cause_parts(2,4)
      by (auto simp: i handle_trap_def alt_irq_handler_def NIOSV_TIMER_IRQ_def NIOSV_SOFTWARE_IRQ_def Let_def)
    ultimately have r: "(interrupt hw)\<^sup>+\<^sup>+ w w' \<and> booted w' \<and> mstatus w' = mstatus w \<and> uart_only w w'"
      using dispatch_uart[OF _ assms(2,4) taken(1) refl] by blast
    then obtain d where "io w' = d @ io w" "list_all (uart_event 0x300a0) d" by (auto simp: uart_only_def b(4))
    moreover from this(2) have "list_all trap_event d" by (simp add: list_all_iff trap_event_def)
    ultimately show ?thesis using r by blast
  qed
qed

section \<open>A thread on the board\<close>

inductive on_board ::
  "(jtag_world \<Rightarrow> u32) \<Rightarrow> (u32 \<Rightarrow> u32 \<Rightarrow> jtag_world \<Rightarrow> jtag_world) \<Rightarrow> (u32 \<Rightarrow> u32 \<Rightarrow> u32 \<Rightarrow> u32 \<Rightarrow> jtag_world \<Rightarrow> jtag_world)
    \<Rightarrow> ('t \<times> jtag_world \<Rightarrow> 't \<times> jtag_world) \<Rightarrow> 't \<times> jtag_world \<Rightarrow> 't \<times> jtag_world \<Rightarrow> bool"
  for mip run run3 step c0 where
  board_start: "on_board mip run run3 step c0 c0"
| board_step: "on_board mip run run3 step c0 c \<Longrightarrow> on_board mip run run3 step c0 (step c)"
| board_trap: "on_board mip run run3 step c0 (t, w) \<Longrightarrow> trap mip run run3 w w' \<Longrightarrow> on_board mip run run3 step c0 (t, w')"

lemma interleaved_irqs:
  "(interrupt hw)\<^sup>+\<^sup>+ w w' \<Longrightarrow> interleaved hw step c0 (t, w) \<Longrightarrow> interleaved hw step c0 (t, w')"
  by (induction rule: tranclp_induct) (auto intro: interleaved.irq)

text \<open>What a thread of the driver keeps of \<open>booted\<close>, besides the indices.\<close>

definition wired :: "jtag_world \<Rightarrow> jtag_world \<Rightarrow> bool" where
  "wired w w' \<longleftrightarrow> mie w' = mie w \<and> timer_handler w' = timer_handler w \<and> alt_irq w' = alt_irq w \<and> alarm_links w' = alarm_links w
     \<and> ju_base (sp w') = ju_base (sp w) \<and> ju_timeout (sp w') = ju_timeout (sp w) \<and> ju_host_inactive (sp w') = ju_host_inactive (sp w)"

lemma on_board_interleaved:
  assumes "on_board mip run run3 step c0 c" "linked hw al run run3" "running_counter hw" "booted (snd c0)"
    and ok: "\<And>c. interleaved hw step c0 c \<Longrightarrow> rx_ok (sp (snd c)) \<and> tx_ok (sp (snd c))"
    and wd: "\<And>c. wired (snd c) (snd (step c))"
  shows "interleaved hw step c0 c \<and> booted (snd c)"
  using assms(1)
proof induction
  case board_start
  then show ?case using interleaved.start assms(4) by blast
next
  case (board_step c)
  then have i: "interleaved hw step c0 (step c)" by (auto intro: interleaved.thread)
  then show ?case using ok[OF i] wd[of c] board_step.IH by (auto simp: booted_def wired_def)
next
  case (board_trap t w w')
  then show ?case using trap_runs[OF board_trap.hyps(2) assms(2,3)] interleaved_irqs[of hw w w' step c0 t] by auto
qed

lemma wr_step_wired: "wired (snd c) (snd (wr_step nonblock c))"
  by (cases c) (auto simp: wired_def sp_upd_def iowr_eq alt_irq_disable_all_def alt_irq_enable_all_def Let_def split: wr_pc.splits)

lemma rd_step_wired: "wired (snd c) (snd (rd_step nonblock c))"
  by (cases c) (auto simp: wired_def sp_upd_def iowr_eq alt_irq_disable_all_def alt_irq_enable_all_def Let_def split: rd_pc.splits)

end
