(* ===== verification/StartTrace.thy ===== *)
theory StartTrace
  imports Traps
begin

text \<open>
  The accesses of the start: to the I2C master, the timer, and one register of the UART, where the start switches the
  read interrupt on.
\<close>

fun start_event :: "io_event \<Rightarrow> bool" where
  "start_event (Wr b r v) = ((b = 0x30000 \<and> r < 16) \<or> timer_event (Wr b r v) \<or> (b = 0x300a0 \<and> r = JU_CONTROL_REG \<and> v = JU_CONTROL_RE_MSK))"
| "start_event (Rd b r v) = ((b = 0x30000 \<and> r < 16) \<or> timer_event (Rd b r v))"
| "start_event (BusySleep us) = False"

definition only_start :: "trace \<Rightarrow> trace \<Rightarrow> bool" where
  "only_start t t' \<longleftrightarrow> (\<exists>d. t' = d @ t \<and> list_all start_event d)"

lemma only_start_refl: "only_start t t"
  by (simp add: only_start_def)

lemma only_start_Cons: "start_event e \<Longrightarrow> only_start t t' \<Longrightarrow> only_start t (e # t')"
  unfolding only_start_def by (metis append_Cons list.pred_inject(2))

lemma only_start_trans: "only_start t t1 \<Longrightarrow> only_start t1 t2 \<Longrightarrow> only_start t t2"
  unfolding only_start_def by (metis append.assoc list_all_append)

lemma timer_only_start: "timer_only t t' \<Longrightarrow> only_start t t'"
proof -
  have "timer_event e \<Longrightarrow> start_event e" for e by (cases e) auto
  then show "timer_only t t' \<Longrightarrow> only_start t t'" by (auto simp: timer_only_def only_start_def list_all_iff)
qed

lemma init_regs_start:
  assumes "i2c_base (dev w) = 0x30000"
  shows "only_start (io w) (io (i2c_init_regs hw cfg0 w))"
  using assms
  by (simp add: i2c_init_regs_def i2c_disable_def i2c_int_disable_def i2c_enabled_ints_get_def i2c_int_clear_def
      i2c_tfr_cmd_fifo_threshold_set_def i2c_rx_fifo_threshold_set_def i2c_master_config_set_def
      i2c_master_config_speed_set_def reg_eqs Let_def SS_MAX_HZ_def SS_MIN_HZ_def FS_MAX_HZ_def)
     (intro conjI impI only_start_Cons only_start_refl; simp add: reg_defs)

lemma isr_register_io: "io (snd (alt_ic_isr_register ic irq f c fl w)) = io w"
  by (simp add: alt_ic_isr_register_def alt_iic_isr_register_def alt_ic_irq_enable_def alt_ic_irq_disable_def
      alt_irq_disable_all_def alt_irq_enable_all_def Let_def split: prod.splits)

lemma on_i2c_io: "io (world (bd (on_i2c f m))) = io (f (i2c_view m))"
  by (simp add: on_i2c_def on_world_def irq_state.extend_def irq_state.truncate_def Let_def)

lemma on_i2c_sp: "sp (world (bd (on_i2c f m))) = sp (world (bd m))"
  by (cases "world (bd m)") (simp add: on_i2c_def on_world_def irq_state.extend_def irq_state.truncate_def irq_state.defs Let_def)

lemma i2c_init_start:
  assumes "i2c_base (i2c_device m) = 0x30000"
  shows "only_start (io (world (bd m))) (io (world (bd (alt_avalon_i2c_init hw cfg0 m))))"
  using init_regs_start[of "i2c_view m" hw cfg0] assms
  by (simp add: alt_avalon_i2c_init_def on_i2c_io isr_register_io alt_dev_llist_insert_def Let_def)

lemma jtag_init_start:
  assumes "ju_base (sp w) = 0x300a0"
  shows "only_start (io w) (io (altera_avalon_jtag_uart_init ic irq w))"
  using only_start_Cons[OF _ only_start_refl, of "Wr 0x300a0 JU_CONTROL_REG JU_CONTROL_RE_MSK" "io w"] assms
  by (simp add: altera_avalon_jtag_uart_init_def sp_upd_def iowr_eq alt_alarm_start_def upd_alarm_def isr_register_io
      alt_irq_disable_all_def alt_irq_enable_all_def JU_CONTROL_REG_def Let_def split: prod.splits)

lemma niosv_init_start:
  assumes "INTEL_NIOSV_M_INIT n c hw 0 w = Some w'"
  shows "only_start (io w) (io w')"
proof (cases "n = c")
  case True
  let ?w = "alt_niosv_register_mtimecmp_interrupt_handle TIMER_SC_ISR (snd (alt_sysclk_init ALT_CPU_TICKS_PER_SEC w))"
  have i: "io ?w = io w" by (simp add: alt_niosv_register_mtimecmp_interrupt_handle_def alt_sysclk_init_def)
  obtain v w1 where g: "alt_niosv_mtime_get hw ?w = Some (v, w1)"
    "io w' = io (alt_niosv_mtimecmp_set 0 (v + ucast MTIMECMP_DELTA_AMT) w1)"
    using assms True
    by (auto simp: INTEL_NIOSV_M_INIT_def alt_niosv_mtimecmp_interrupt_init_def alt_niosv_enable_timer_interrupt_def
        split_beta Let_def)
  show ?thesis
    using timer_only_start[OF timer_only_trans[OF mtime_get_timer[OF g(1)] mtimecmp_set_timer]] g(2) i by simp
qed (use assms only_start_refl in \<open>simp add: INTEL_NIOSV_M_INIT_def\<close>)

lemma sys_init_start:
  assumes "alt_sys_init hw 0 cfg0 m = Some m'" "i2c_base (i2c_device m) = 0x30000" "ju_base (sp (world (bd m))) = 0x300a0"
  shows "only_start (io (world (bd m))) (io (world (bd m')))"
proof -
  let ?m1 = "alt_avalon_i2c_init hw cfg0 m"
  let ?m2 = "ALTERA_AVALON_JTAG_UART_INIT ?m1"
  have "sp (world (bd ?m1)) = sp (world (bd m))"
    by (simp add: alt_avalon_i2c_init_def on_i2c_sp alt_dev_llist_insert_def Let_def)
  then have "only_start (io (world (bd ?m1))) (io (world (bd ?m2)))"
    using jtag_init_start[of "world (bd ?m1)"] assms(3)
    by (simp add: ALTERA_AVALON_JTAG_UART_INIT_def on_world_def alt_dev_reg_def alt_dev_llist_insert_def Let_def)
  moreover obtain w where w: "INTEL_NIOSV_M_INIT ''INTEL_NIOSV_M_0'' ''INTEL_NIOSV_M_0'' hw 0 (world (bd ?m2)) = Some w"
    "world (bd m') = w" using assms(1) by (auto simp: alt_sys_init_def on_world_def Let_def)
  ultimately show ?thesis
    using only_start_trans[OF i2c_init_start[OF assms(2)]] only_start_trans niosv_init_start[OF w(1)] w(2) by blast
qed

text \<open>So the UART's data register is not read, and nothing but the read interrupt is ever asked for.\<close>

lemma start_events_uart:
  assumes "list_all start_event t"
  shows "rd_log 0x300a0 JU_DATA_REG t = []" "last_wr 0x300a0 JU_CONTROL_REG t = Some v \<Longrightarrow> v = JU_CONTROL_RE_MSK"
proof -
  show "rd_log 0x300a0 JU_DATA_REG t = []"
    using assms by (induction "0x300a0 :: u32" JU_DATA_REG t rule: rd_log.induct) auto
  show "last_wr 0x300a0 JU_CONTROL_REG t = Some v \<Longrightarrow> v = JU_CONTROL_RE_MSK"
    using assms by (induction t) (auto elim!: start_event.elims split: if_splits)
qed

end
