(* ===== verification/Direct.thy ===== *)
theory Direct
  imports BoardFiles Printf
begin

text \<open>
  The other builds of the HAL's input and output: with direct drivers the system calls on the standard
  streams call the UART's driver without descriptors (\<open>ALT_USE_DIRECT_DRIVERS\<close>; \<open>alt_driver.h\<close> and the first half of
  \<open>alt_read.c\<close>, \<open>alt_write.c\<close>, \<open>alt_ioctl.c\<close> and so on), and the character functions (\<open>alt_putchar.c\<close>, \<open>alt_putstr.c\<close>,
  \<open>alt_getchar.c\<close>, \<open>alt_putcharbuf.c\<close>) go there or to the debugger (\<open>ALT_SEMIHOSTING\<close>). All three streams are \<open>jtag_uart_0\<close>, as
  in \<open>system.h\<close>.
\<close>

section \<open>Direct drivers\<close>

definition ALT_DRIVER_WRITE :: "u8 list \<Rightarrow> bool \<Rightarrow> board \<Rightarrow> (int \<times> board) option" where
  "ALT_DRIVER_WRITE data nonblock s =
     map_option (\<lambda>(rc, sc, w). (rc, s\<lparr>sched := sc, world := w\<rparr>))
       (altera_avalon_jtag_uart_write data nonblock (sched s) (world s))"

definition ALT_DRIVER_READ :: "int \<Rightarrow> bool \<Rightarrow> board \<Rightarrow> (int \<times> u8 list \<times> board) option" where
  "ALT_DRIVER_READ len nonblock s =
     map_option (\<lambda>(rc, bs, sc, w). (rc, bs, s\<lparr>sched := sc, world := w\<rparr>))
       (altera_avalon_jtag_uart_read len nonblock (sched s) (world s))"

definition ALT_DRIVER_IOCTL :: "u32 \<Rightarrow> int \<Rightarrow> board \<Rightarrow> int \<times> int \<times> board" where
  "ALT_DRIVER_IOCTL req arg s =
     (case altera_avalon_jtag_uart_ioctl req arg (sp (world s)) of
        (rc, arg1, s1) \<Rightarrow> (rc, arg1, s\<lparr>world := (world s)\<lparr>sp := s1\<rparr>\<rparr>))"

text \<open>The flags are 0, so that the calls block.\<close>

definition direct_write :: "int \<Rightarrow> u8 list \<Rightarrow> board \<Rightarrow> (int \<times> board) option" where
  "direct_write file data s =
     (if file = 1 then ALT_DRIVER_WRITE data False s
      else if file = 2 then ALT_DRIVER_WRITE data False s
      else Some (- 1, s\<lparr>errno := EBADFD\<rparr>))"

definition direct_read :: "int \<Rightarrow> u32 \<Rightarrow> board \<Rightarrow> (int \<times> u8 list \<times> board) option" where
  "direct_read file len s =
     (if file = 0 then ALT_DRIVER_READ (sint len) False s else Some (- 1, [], s\<lparr>errno := EBADFD\<rparr>))"

definition direct_ioctl :: "int \<Rightarrow> u32 \<Rightarrow> int \<Rightarrow> board \<Rightarrow> int \<times> int \<times> board" where
  "direct_ioctl file req arg s =
     (if file = 0 then ALT_DRIVER_IOCTL req arg s
      else if file = 1 then ALT_DRIVER_IOCTL req arg s
      else if file = 2 then ALT_DRIVER_IOCTL req arg s
      else (- 1, arg, s\<lparr>errno := EBADFD\<rparr>))"

definition direct_isatty :: "int \<Rightarrow> int" where
  "direct_isatty file = (if file = 0 then 1 else if file = 1 then 1 else if file = 2 then 1 else 0)"

text \<open>The result and \<open>st_mode\<close>.\<close>

definition direct_fstat :: "int \<Rightarrow> u32 \<Rightarrow> int \<times> u32" where
  "direct_fstat file st = (if file = 0 then (0, IFCHR) else if file = 1 then (0, IFCHR) else if file = 2 then (0, IFCHR) else (- 1, st))"

definition direct_open :: "string \<Rightarrow> u32 \<Rightarrow> u32 \<Rightarrow> board \<Rightarrow> int \<times> board" where
  "direct_open file flags mode s = (- 1, s\<lparr>errno := ENOSYS\<rparr>)"

definition direct_close :: "int \<Rightarrow> board \<Rightarrow> int \<times> board" where
  "direct_close fildes s = (- 1, s\<lparr>errno := ENOSYS\<rparr>)"

definition direct_lseek :: "int \<Rightarrow> int \<Rightarrow> int \<Rightarrow> board \<Rightarrow> int \<times> board" where
  "direct_lseek file ptr dir s = (- 1, s\<lparr>errno := ENOSYS\<rparr>)"

section \<open>Characters\<close>

definition alt_putchar_direct :: "u32 \<Rightarrow> board \<Rightarrow> (int \<times> board) option" where
  "alt_putchar_direct c s =
     map_option (\<lambda>(rc, s1). (if rc = - 1 then - 1 else sint c, s1)) (ALT_DRIVER_WRITE [ucast (c AND 0xff)] False s)"

definition alt_putstr_direct :: "u8 list \<Rightarrow> board \<Rightarrow> (int \<times> board) option" where
  "alt_putstr_direct str s = ALT_DRIVER_WRITE str False s"

text \<open>A \<open>char\<close> is unsigned on this machine; the flags are those of descriptor 0.\<close>

definition alt_getchar_direct :: "board \<Rightarrow> (int \<times> board) option" where
  "alt_getchar_direct s =
     map_option (\<lambda>(rc, bs, s1). (if rc \<le> 0 then - 1 else uint (hd bs), s1)) (ALT_DRIVER_READ 1 (fd_nonblock 0 s) s)"

text \<open>
  With the debugger, \<open>write\<close> and \<open>read\<close> are its library's: parameters. A character that was not read is
  indeterminate: \<open>None\<close>.
\<close>

definition alt_putchar_semihosting :: "(int \<Rightarrow> u8 list \<Rightarrow> 's \<Rightarrow> int \<times> 's) \<Rightarrow> u32 \<Rightarrow> 's \<Rightarrow> int \<times> 's" where
  "alt_putchar_semihosting wr c s = wr 1 [ucast (c AND 0xff)] s"

definition alt_putstr_semihosting :: "(int \<Rightarrow> u8 list \<Rightarrow> 's \<Rightarrow> int \<times> 's) \<Rightarrow> u8 list \<Rightarrow> 's \<Rightarrow> int \<times> 's" where
  "alt_putstr_semihosting wr str s = wr 1 str s"

definition alt_getchar_semihosting :: "(int \<Rightarrow> nat \<Rightarrow> 's \<Rightarrow> int \<times> u8 list \<times> 's) \<Rightarrow> 's \<Rightarrow> int option \<times> 's" where
  "alt_getchar_semihosting rd s =
     (case rd 0 1 s of (rc, bs, s1) \<Rightarrow> (case bs of [] \<Rightarrow> None | c # cs \<Rightarrow> Some (uint c), s1))"

section \<open>The buffer of the debugger's output\<close>

definition ALT_PUTBUF_SIZE :: nat where "ALT_PUTBUF_SIZE = 64"

text \<open>The array and \<open>fill_index\<close>. An index of 64 or more would be a store outside the array.\<close>

record putbuf =
  pb_buf :: "u8 list"
  pb_fill :: nat

definition putbuf0 :: putbuf where
  "putbuf0 = \<lparr>pb_buf = replicate ALT_PUTBUF_SIZE 0, pb_fill = 0\<rparr>"

definition alt_putbufflush :: "(int \<Rightarrow> u8 list \<Rightarrow> 's \<Rightarrow> int \<times> 's) \<Rightarrow> putbuf \<times> 's \<Rightarrow> int \<times> putbuf \<times> 's" where
  "alt_putbufflush wr bs = (case bs of (b, s) \<Rightarrow>
     (case wr 1 (take (pb_fill b) (pb_buf b)) s of (rc, s1) \<Rightarrow> (rc, b\<lparr>pb_fill := 0\<rparr>, s1)))"

definition alt_putcharbuf :: "(int \<Rightarrow> u8 list \<Rightarrow> 's \<Rightarrow> int \<times> 's) \<Rightarrow> u32 \<Rightarrow> putbuf \<times> 's \<Rightarrow> int \<times> putbuf \<times> 's" where
  "alt_putcharbuf wr c bs = (case bs of (b, s) \<Rightarrow>
     (let b1 = b\<lparr>pb_buf := (pb_buf b)[pb_fill b := ucast (c AND 0xff)], pb_fill := pb_fill b + 1\<rparr>
      in (sint c, if pb_fill b1 \<ge> ALT_PUTBUF_SIZE then snd (alt_putbufflush wr (b1, s)) else (b1, s))))"

text \<open>\<open>alt_printf\<close> in this build: its characters into the buffer, and a flush at the end.\<close>

definition char_word :: "char \<Rightarrow> u32" where
  "char_word c = of_nat (of_char c)"

definition alt_printf_semihosting ::
  "(int \<Rightarrow> u8 list \<Rightarrow> 's \<Rightarrow> int \<times> 's) \<Rightarrow> string \<Rightarrow> va_arg list \<Rightarrow> putbuf \<times> 's \<Rightarrow> (putbuf \<times> 's) option" where
  "alt_printf_semihosting wr fmt args bs =
     map_option (\<lambda>out. snd (alt_putbufflush wr (fold (\<lambda>c bs. snd (alt_putcharbuf wr (char_word c) bs)) out bs)))
       (alt_printf fmt args)"

section \<open>Direct calls and descriptors\<close>

text \<open>The standard streams as \<open>alt_io_redirect\<close> leaves them.\<close>

definition streams_on_uart :: "board \<Rightarrow> bool" where
  "streams_on_uart s \<longleftrightarrow> (\<forall>i. 0 \<le> i \<and> i \<le> 2 \<longrightarrow> fd_dev (fd_list s i) = JTAG_UART_0_DEV
     \<and> fd_flags (fd_list s i) = (if i = 0 then O_RDONLY else O_WRONLY) OR ALT_FD_DEV)"

lemma streams_flags:
  assumes "streams_on_uart s" "0 \<le> i" "i \<le> 2"
  shows "fd_dev (fd_list s i) = JTAG_UART_0_DEV" "\<not> fd_nonblock i s"
    "fd_flags (fd_list s i) AND O_ACCMODE = (if i = 0 then O_RDONLY else O_WRONLY)"
  using assms by (auto simp: streams_on_uart_def fd_nonblock_def fd_flag_defs)

text \<open>A driver's result as the calls with descriptors report it.\<close>

lemma descriptor_write:
  assumes "streams_on_uart s" "i = 1 \<or> i = 2"
  shows "alt_write board_ops i data s = map_option (\<lambda>(rc, s1). ret_errno rc s1) (direct_write i data s)"
proof -
  have "0 \<le> i" "i \<le> 2" using assms(2) by auto
  note f = streams_flags[OF assms(1) this]
  have "O_WRONLY \<noteq> O_RDONLY" by (simp add: fd_flag_defs)
  then show ?thesis
    using f assms(2) by (auto simp: alt_write_def fd_ops_def direct_write_def ALT_DRIVER_WRITE_def altera_avalon_jtag_uart_write_fd_def)
qed

lemma descriptor_read:
  assumes "streams_on_uart s"
  shows "alt_read board_ops 0 len s = map_option (\<lambda>(rc, bs, s1). case ret_errno rc s1 of (r, s2) \<Rightarrow> (r, bs, s2)) (direct_read 0 len s)"
proof -
  note f = streams_flags[OF assms, of 0, simplified]
  have "O_RDONLY \<noteq> O_WRONLY" by (simp add: fd_flag_defs)
  then show ?thesis
    using f by (auto simp: alt_read_def fd_ops_def direct_read_def ALT_DRIVER_READ_def altera_avalon_jtag_uart_read_fd_def Let_def)
qed

text \<open>The requests on the UART, the locks apart.\<close>

lemma descriptor_ioctl:
  assumes "streams_on_uart s" "0 \<le> i" "i \<le> 2" "req \<noteq> TIOCEXCL" "req \<noteq> TIOCNXCL"
  shows "alt_ioctl board_ops i req arg s =
    Some (case direct_ioctl i req arg s of (rc, arg1, s1) \<Rightarrow> (rc, arg1, if rc < 0 then s1\<lparr>errno := - rc\<rparr> else s1))"
proof -
  have "i = 0 \<or> i = 1 \<or> i = 2" using assms(2,3) by linarith
  then show ?thesis
    using streams_flags(1)[OF assms(1-3)] assms(2,4,5)
    by (auto simp: alt_ioctl_def fd_ops_def direct_ioctl_def ALT_DRIVER_IOCTL_def altera_avalon_jtag_uart_ioctl_fd_def split: prod.splits)
qed

text \<open>The locks, which the direct build does not have.\<close>

lemma descriptor_locks:
  assumes "streams_on_uart s" "0 \<le> i" "i \<le> 2"
  shows "alt_ioctl board_ops i TIOCNXCL arg s = Some (0, arg, snd (alt_fd_unlock i s))"
    "\<exists>rc s'. alt_ioctl board_ops i TIOCEXCL arg s = Some (rc, arg, s') \<and> rc \<in> {0, - EACCES}
       \<and> (rc = 0 \<longrightarrow> fd_flags (fd_list s' i) AND ALT_FD_EXCL \<noteq> 0)"
    "direct_ioctl i TIOCEXCL arg s = (- ENOTTY, arg, s)" "direct_ioctl i TIOCNXCL arg s = (- ENOTTY, arg, s)"
proof -
  have f: "fd_flags (fd_list s i) AND ALT_FD_DEV \<noteq> 0" using assms by (simp add: streams_on_uart_def fd_flag_defs)
  have r: "TIOCEXCL \<noteq> TIOCNXCL" "TIOCEXCL \<noteq> TIOCSTIMEOUT" "TIOCNXCL \<noteq> TIOCSTIMEOUT" "TIOCEXCL \<noteq> TIOCGCONNECTED" "TIOCNXCL \<noteq> TIOCGCONNECTED"
    by (simp_all add: TIOCEXCL_def TIOCNXCL_def TIOCSTIMEOUT_def TIOCGCONNECTED_def)
  show "alt_ioctl board_ops i TIOCNXCL arg s = Some (0, arg, snd (alt_fd_unlock i s))"
    using f assms(2) r by (auto simp: alt_ioctl_def alt_fd_unlock_def)
  show "\<exists>rc s'. alt_ioctl board_ops i TIOCEXCL arg s = Some (rc, arg, s') \<and> rc \<in> {0, - EACCES}
       \<and> (rc = 0 \<longrightarrow> fd_flags (fd_list s' i) AND ALT_FD_EXCL \<noteq> 0)"
    using f assms(2) by (auto simp: alt_ioctl_def alt_fd_lock_def upd_fd_def ALT_FD_EXCL_def EACCES_def and.commute bit_simps)
  have "i = 0 \<or> i = 1 \<or> i = 2" using assms(2,3) by linarith
  then show "direct_ioctl i TIOCEXCL arg s = (- ENOTTY, arg, s)" "direct_ioctl i TIOCNXCL arg s = (- ENOTTY, arg, s)"
    using r by (auto simp: direct_ioctl_def ALT_DRIVER_IOCTL_def altera_avalon_jtag_uart_ioctl_def)
qed

text \<open>Closing a descriptor waits for its bytes.\<close>

lemma descriptor_close:
  assumes "streams_on_uart s" "0 \<le> i" "i \<le> 2" "tx_ok (sp (world s))" "\<forall>a\<in>set (sched s). tx_drains a"
    "alt_close board_ops i s = Some (r, s')"
  shows "r = 0 \<and> (txq (sp (world s')) = [] \<or> \<not> host_active (world s'))"
proof -
  obtain rc sc w where c: "altera_avalon_jtag_uart_close False (sched s) (world s) = Some (rc, sc, w)"
    "(r, s') = (if rc < 0 then fail (- rc) (s\<lparr>sched := sc, world := w\<rparr>) else (0, s\<lparr>sched := sc, world := w\<rparr>))"
    using assms(2,3,6) streams_flags(1,2)[OF assms(1-3)]
    by (auto simp: alt_close_def fd_ops_def altera_avalon_jtag_uart_close_fd_def alt_release_fd_def Let_def)
  moreover have "rc = 0" "txq (sp w) = [] \<or> \<not> host_active w" using close_result[OF c(1) assms(4,5)] by auto
  ultimately show ?thesis by simp
qed


definition streams_board :: board where
  "streams_board = boot_board\<lparr>fd_list := (\<lambda>i. \<lparr>fd_dev = (if 0 \<le> i \<and> i \<le> 2 then JTAG_UART_0_DEV else 0), fd_priv = 0,
     fd_flags = (if i = 0 then O_RDONLY else O_WRONLY) OR ALT_FD_DEV\<rparr>)\<rparr>"

lemma streams_board_ok:
  "streams_on_uart streams_board" "world streams_board = jtag_boot_world" "sched streams_board = []"
  "tx_ok (sp jtag_boot_world)" "txq (sp jtag_boot_world) = []"
  by (simp_all add: streams_on_uart_def streams_board_def boot_board_def jtag_boot_world_def clock_state.extend_def jtag_boot_def
      tx_ok_def BUF_LEN_def txq_def ring_def ring_count_def)


section \<open>A failure that is not seen\<close>

text \<open>
  C37: The direct \<open>alt_putchar\<close> never reports a failure: it looks for the result \<open>-1\<close>, but the driver fails with
  \<open>-EIO\<close>. Whether the character was queued or, with the host away and the queue full, thrown away, the
  result is the character.
\<close>

theorem putchar_hides_failure:
  assumes "alt_putchar_direct c s = Some (r, s')" "tx_ok (sp (world s))" "\<forall>a\<in>set (sched s). tx_drains a"
  shows "r = sint c \<and> (\<exists>sent gone. txq (sp (world s)) @ sent = gone @ txq (sp (world s'))
    \<and> (sent = [ucast (c AND 0xff)] \<or> sent = [] \<and> ju_host_inactive (sp (world s')) \<noteq> 0))"
proof -
  obtain rc sc w where w: "altera_avalon_jtag_uart_write [ucast (c AND 0xff)] False (sched s) (world s) = Some (rc, sc, w)"
    and r: "r = (if rc = - 1 then - 1 else sint c)" "s' = s\<lparr>sched := sc, world := w\<rparr>"
    using assms(1) by (auto simp: alt_putchar_direct_def ALT_DRIVER_WRITE_def)
  obtain sent rest gone where q: "[ucast (c AND 0xff)] = sent @ rest" "txq (sp (world s)) @ sent = gone @ txq (sp w)"
    "rc = (if sent \<noteq> [] then int (length sent) else if False then - EWOULDBLOCK else - EIO)"
    "rest \<noteq> [] \<and> \<not> False \<longrightarrow> ju_host_inactive (sp w) \<noteq> 0"
    using write_result[OF w assms(2,3)] by blast
  have "rc \<noteq> - 1" using q(3) by (auto simp: EIO_def)
  moreover have "sent = [ucast (c AND 0xff)] \<or> sent = [] \<and> ju_host_inactive (sp w) \<noteq> 0"
    using q(1,4) by (cases sent) auto
  ultimately show ?thesis using q(2) r by (intro conjI exI[of _ sent] exI[of _ gone]) simp_all
qed

text \<open>A full queue, and a host that has been away for a tick.\<close>

definition full_board :: board where
  "full_board = streams_board\<lparr>world := jtag_boot_world\<lparr>sp := jtag_boot\<lparr>tx_in := 2047, ju_host_inactive := 20\<rparr>\<rparr>\<rparr>"

lemma full_board_ok: "tx_ok (sp (world full_board))" "sched full_board = []" "length (txq (sp (world full_board))) = 2047"
  by (simp_all add: full_board_def streams_board_ok tx_ok_def BUF_LEN_def txq_def length_ring ring_count_def, simp_all add: jtag_boot_def)

lemma full_board_putchar:
  "\<exists>s'. alt_putchar_direct 0x41 full_board = Some (0x41, s') \<and> txq (sp (world s')) = txq (sp (world full_board))"
proof -
  let ?w = "world full_board"
  have room: "unat (tx_room (sp ?w)) = 0" using tx_room_props(3)[OF full_board_ok(1)] full_board_ok(3) by blast
  have c: "tx_copy [0x41] 0 (sp ?w) = ([0x41], tx_out (sp ?w), sp ?w)"
    by (subst tx_copy.simps) (simp only: room Let_def simp_thms list.distinct if_True)
  let ?w1 = "jtag_enable JU_CONTROL_WE_MSK ?w"
  have h: "ju_host_inactive (sp ?w) = 20" "ju_timeout (sp ?w) = 10"
    by (simp_all add: full_board_def, simp_all add: jtag_boot_def)
  then have "\<not> host_active ?w1" "ju_host_inactive (sp ?w1) \<noteq> 0"
    by (simp_all add: host_active_def jtag_enable_def alt_irq_disable_all_def alt_irq_enable_all_def sp_upd_def iowr_eq Let_def)
  then have "jtag_write_loop False [0x41] 0 [] ?w = Some ([0x41], [], ?w1)"
    using c by (subst jtag_write_loop.simps) simp
  then have "altera_avalon_jtag_uart_write [0x41] False [] ?w = Some (- EIO, [], ?w1)"
    by (simp add: altera_avalon_jtag_uart_write_def)
  then have c1: "alt_putchar_direct 0x41 full_board = Some (0x41, full_board\<lparr>sched := [], world := ?w1\<rparr>)"
    by (simp add: alt_putchar_direct_def ALT_DRIVER_WRITE_def full_board_ok(2) EIO_def)
  have "txq (sp ?w1) = txq (sp ?w)" by (rule jtag_enable_queues)
  then show ?thesis using c1 by (intro exI[of _ "full_board\<lparr>sched := [], world := ?w1\<rparr>"] conjI) simp_all
qed

theorem putchar_hides_failure_witness:
  "\<exists>s'. alt_putchar_direct 0x41 full_board = Some (0x41, s') \<and> txq (sp (world s')) = txq (sp (world full_board))
    \<and> (\<exists>sent gone. txq (sp (world full_board)) @ sent = gone @ txq (sp (world s'))
      \<and> (sent = [ucast ((0x41 :: u32) AND 0xff)] \<or> sent = [] \<and> ju_host_inactive (sp (world s')) \<noteq> 0))"
proof -
  obtain s' where s': "alt_putchar_direct 0x41 full_board = Some (0x41, s')" "txq (sp (world s')) = txq (sp (world full_board))"
    using full_board_putchar by blast
  have "\<forall>a\<in>set (sched full_board). tx_drains a" by (simp add: full_board_ok(2))
  from putchar_hides_failure[OF s'(1) full_board_ok(1) this] s' show ?thesis by blast
qed

section \<open>The buffered output\<close>

text \<open>What the debugger's \<open>write\<close> does: all the bytes join its output.\<close>

definition full_writer :: "(int \<Rightarrow> u8 list \<Rightarrow> 's \<Rightarrow> int \<times> 's) \<Rightarrow> ('s \<Rightarrow> u8 list) \<Rightarrow> bool" where
  "full_writer wr shown \<longleftrightarrow> (\<forall>bs s. fst (wr 1 bs s) = int (length bs) \<and> shown (snd (wr 1 bs s)) = shown s @ bs)"

definition pb_ok :: "putbuf \<Rightarrow> bool" where
  "pb_ok b \<longleftrightarrow> length (pb_buf b) = ALT_PUTBUF_SIZE \<and> pb_fill b < ALT_PUTBUF_SIZE"

definition pending :: "putbuf \<Rightarrow> u8 list" where
  "pending b = take (pb_fill b) (pb_buf b)"

lemma flush_shown:
  assumes "full_writer wr shown" "length (pb_buf b) = ALT_PUTBUF_SIZE" "alt_putbufflush wr (b, s) = (rc, b', s')"
  shows "pb_ok b'" "pending b' = []" "shown s' = shown s @ pending b"
proof -
  have "b' = b\<lparr>pb_fill := 0\<rparr>" "s' = snd (wr 1 (pending b) s)"
    using assms(3) by (auto simp: alt_putbufflush_def pending_def split: prod.splits)
  then show "pb_ok b'" "pending b' = []" "shown s' = shown s @ pending b"
    using assms(1,2) by (simp_all add: pb_ok_def pending_def full_writer_def ALT_PUTBUF_SIZE_def)
qed

lemma putcharbuf_shown:
  assumes "full_writer wr shown" "pb_ok b" "alt_putcharbuf wr c (b, s) = (rc, b', s')"
  shows "pb_ok b'" "shown s' @ pending b' = shown s @ pending b @ [ucast (c AND 0xff)]"
proof -
  let ?b1 = "b\<lparr>pb_buf := (pb_buf b)[pb_fill b := ucast (c AND 0xff)], pb_fill := pb_fill b + 1\<rparr>"
  have b: "length (pb_buf b) = ALT_PUTBUF_SIZE" "pb_fill b < ALT_PUTBUF_SIZE" using assms(2) by (simp_all add: pb_ok_def)
  then have p: "pending ?b1 = pending b @ [ucast (c AND 0xff)]" by (simp add: pending_def take_Suc_conv_app_nth)
  have l: "length (pb_buf ?b1) = ALT_PUTBUF_SIZE" using b by simp
  have "pb_ok b' \<and> shown s' @ pending b' = shown s @ pending b @ [ucast (c AND 0xff)]"
  proof (cases "pb_fill b + 1 \<ge> ALT_PUTBUF_SIZE")
    case True
    then obtain rc1 where "alt_putbufflush wr (?b1, s) = (rc1, b', s')"
      using assms(3) by (cases "alt_putbufflush wr (?b1, s)") (simp add: alt_putcharbuf_def Let_def)
    from flush_shown[OF assms(1) l this] p show ?thesis by simp
  next
    case False
    then have "b' = ?b1" "s' = s" using assms(3) by (simp_all add: alt_putcharbuf_def Let_def)
    then show ?thesis using False p b by (simp add: pb_ok_def)
  qed
  then show "pb_ok b'" "shown s' @ pending b' = shown s @ pending b @ [ucast (c AND 0xff)]" by blast+
qed

lemma char_word_low: "ucast (char_word c AND 0xff) = (of_nat (of_char c) :: u8)"
proof -
  have "(0xff :: u32) = mask 8" by (simp add: mask_eq_exp_minus_1)
  then have "char_word c AND 0xff = take_bit 8 (char_word c)" by (simp only: take_bit_eq_mask)
  then show ?thesis by (intro bit_eqI) (simp add: char_word_def bit_simps)
qed

lemma putchars_shown:
  assumes "full_writer wr shown"
  shows "pb_ok b \<Longrightarrow> fold (\<lambda>c bs. snd (alt_putcharbuf wr (char_word c) bs)) cs (b, s) = (b', s')
    \<Longrightarrow> pb_ok b' \<and> shown s' @ pending b' = shown s @ pending b @ map (\<lambda>c. of_nat (of_char c)) cs"
proof (induction cs arbitrary: b s)
  case (Cons c cs)
  obtain rc b1 s1 where p: "alt_putcharbuf wr (char_word c) (b, s) = (rc, b1, s1)" by (metis prod_cases3)
  note p1 = putcharbuf_shown[OF assms Cons.prems(1) p]
  have "fold (\<lambda>c bs. snd (alt_putcharbuf wr (char_word c) bs)) cs (b1, s1) = (b', s')" using Cons.prems(2) p by simp
  from Cons.IH[OF p1(1) this] p1(2) show ?case by (simp add: char_word_low)
qed simp

text \<open>
  C36: A printf in the build for the debugger shows exactly the characters the format asks for, in order, after
  what was shown and what was still buffered, and leaves the buffer empty; on the way the buffer of 64 characters
  never overflows, however long the output is.
\<close>

theorem printf_semihosting_shows:
  assumes "full_writer wr shown" "pb_ok b" "alt_printf fmt args = Some out"
  shows "\<exists>b' s'. alt_printf_semihosting wr fmt args (b, s) = Some (b', s') \<and> pb_ok b' \<and> pending b' = []
    \<and> shown s' = shown s @ pending b @ map (\<lambda>c. of_nat (of_char c)) out
    \<and> (\<forall>n b1 s1. fold (\<lambda>c bs. snd (alt_putcharbuf wr (char_word c) bs)) (take n out) (b, s) = (b1, s1) \<longrightarrow> pb_ok b1)"
proof -
  obtain b1 s1 where f: "fold (\<lambda>c bs. snd (alt_putcharbuf wr (char_word c) bs)) out (b, s) = (b1, s1)" by fastforce
  note p = putchars_shown[OF assms(1,2) f]
  obtain rc b' s' where fl: "alt_putbufflush wr (b1, s1) = (rc, b', s')" by (metis prod_cases3)
  have "length (pb_buf b1) = ALT_PUTBUF_SIZE" using p by (simp add: pb_ok_def)
  note q = flush_shown[OF assms(1) this fl]
  have "alt_printf_semihosting wr fmt args (b, s) = Some (b', s')"
    using assms(3) f fl by (simp add: alt_printf_semihosting_def)
  moreover have "shown s' = shown s @ pending b @ map (\<lambda>c. of_nat (of_char c)) out" using p q by simp
  ultimately show ?thesis using q putchars_shown[OF assms(1,2)] by blast
qed

text \<open>A debugger that collects what it is given.\<close>

definition collect :: "int \<Rightarrow> u8 list \<Rightarrow> u8 list \<Rightarrow> int \<times> u8 list" where
  "collect fd bs s = (int (length bs), s @ bs)"

theorem printf_semihosting_shows_witness:
  "\<exists>b'. alt_printf_semihosting collect ''ok%%'' [] (putbuf0, []) = Some (b', [0x6F, 0x6B, 0x25])"
proof -
  have "full_writer collect id" "pb_ok putbuf0" by (simp_all add: full_writer_def collect_def pb_ok_def putbuf0_def ALT_PUTBUF_SIZE_def)
  moreover have "alt_printf ''ok%%'' [] = Some ''ok%''" by simp
  ultimately obtain b' s' where "alt_printf_semihosting collect ''ok%%'' [] (putbuf0, []) = Some (b', s')"
    "id s' = id [] @ pending putbuf0 @ map (\<lambda>c. of_nat (of_char c)) ''ok%''"
    using printf_semihosting_shows[of collect id putbuf0 "''ok%%''" "[]" "''ok%''" "[]"] by blast
  then show ?thesis by (simp add: pending_def putbuf0_def of_char_def)
qed

end
