(* ===== verification/Console.thy ===== *)
theory Console
  imports StartTrace Direct
begin

text \<open>
  The console of the started board from the system call to the bus: \<open>write\<close> on standard output or error and
  \<open>read\<close> on standard input, with traps between any two of their accesses, on the state in which the start leaves
  the board for \<open>main\<close>.
\<close>

section \<open>The started board\<close>

lemma started_console:
  assumes "running_counter hw"
  shows "\<exists>m. alt_start hw 0 cfg0 r [] image = Some m \<and> streams_on_uart (bd m) \<and> booted (world (bd m))
    \<and> mstatus (world (bd m)) = 8 \<and> sp (world (bd m)) = jtag_uart_0\<lparr>ju_irq_enable := 1, ju_timeout := INT_MAX\<rparr>
    \<and> list_all start_event (io (world (bd m)))"
proof -
  obtain m m1 where m: "alt_start hw 0 cfg0 r [] image = Some (do_ctors r [] m)" "streams_on_uart (bd m)"
    "sys_inited (on_world alt_irq_init image) m1" "world (bd m) = world (bd m1)"
    using started_image[OF assms, of 0 cfg0 r "[]"] unfolding streams_on_uart_def by blast
  note w = started_world[OF m(3,4)]
  have "rx_ok (sp (world (bd m)))" "tx_ok (sp (world (bd m)))"
    by (simp_all add: w(8) jtag_uart_0_def rx_ok_def tx_ok_def BUF_LEN_def)
  then have "booted (world (bd m))"
    using w ring_list_empty by (simp add: booted_def, simp add: jtag_uart_0_def)
  moreover have "list_all start_event (io (world (bd m)))"
  proof -
    let ?m0 = "on_world alt_irq_init image"
    obtain m2 b where s: "alt_sys_init hw 0 cfg0 ?m0 = Some m2"
      "alt_io_redirect board_ops ''/dev/jtag_uart_0'' ''/dev/jtag_uart_0'' ''/dev/jtag_uart_0'' (bd m2) = Some b" "m = m2\<lparr>bd := b\<rparr>"
      using m(1) by (auto simp: alt_start_def do_ctors_def split: option.splits)
    have "world b = world (bd m2)" using redirect_keeps_world[OF s(2)] by simp
    moreover have "only_start (io (world (bd ?m0))) (io (world (bd m2)))"
      by (rule sys_init_start[OF s(1)])
         (simp_all add: on_world_def image_def i2c_0_def alt_irq_init_def alt_irq_cpu_enable_interrupts_def intel_niosv_irq_init_def
            clock_state.extend_def jtag_uart_0_def)
    moreover have "io (world (bd ?m0)) = []"
      by (simp add: on_world_def image_def alt_irq_init_def alt_irq_cpu_enable_interrupts_def intel_niosv_irq_init_def
            clock_state.extend_def boot_clock_def irq_state.extend_def boot_irq_state_def)
    ultimately show ?thesis using s(3) by (auto simp: only_start_def)
  qed
  ultimately show ?thesis using m w(1,8) by (auto simp: do_ctors_def)
qed

lemma started_queues:
  assumes "sp w = jtag_uart_0\<lparr>ju_irq_enable := 1, ju_timeout := INT_MAX\<rparr>"
  shows "txq (sp w) = []" "rxq (sp w) = []" "ju_base (sp w) = 0x300a0"
  by (simp_all add: assms jtag_uart_0_def txq_def rxq_def ring_def ring_count_def)

section \<open>Writing\<close>

text \<open>The host counts as there for ever, so that a blocking write is done only when it has put everything in the queue.\<close>

lemma write_done:
  assumes "on_board mip run run3 (wr_step False) (wr_start data, w0) c" "linked hw al run run3" "running_counter hw" "booted w0"
  shows "interleaved hw (wr_step False) (wr_start data, w0) c \<and> booted (snd c) \<and> (wr_pc (fst c) = Wr_Done \<longrightarrow> wr_data (fst c) = [])"
proof -
  have ok: "rx_ok (sp w0)" "tx_ok (sp w0)" using assms(4) by (simp_all add: booted_def)
  have i: "interleaved hw (wr_step False) (wr_start data, w0) c \<and> booted (snd c)"
    if "on_board mip run run3 (wr_step False) (wr_start data, w0) c" for c
    using that assms(2,3)
  proof (rule on_board_interleaved)
    show "booted (snd (wr_start data, w0))" using assms(4) by simp
    show "rx_ok (sp (snd c)) \<and> tx_ok (sp (snd c))" if "interleaved hw (wr_step False) (wr_start data, w0) c" for c
      using wr_inv_reached[OF that ok(2,1)] by (cases c) (auto simp: wr_inv_def wr_flow_def)
  qed (rule wr_step_wired)
  have "wr_pc (fst c) = Wr_Done \<longrightarrow> wr_data (fst c) = []"
    using assms(1)
  proof induction
    case (board_step c)
    have "ju_host_inactive (sp (snd c)) = 0" using i[OF board_step.hyps] by (simp add: booted_def)
    then show ?case using board_step.IH by (cases c) (auto simp: Let_def alt_irq_disable_all_def split: wr_pc.splits)
  qed (simp_all add: wr_start_def)
  then show ?thesis using i[OF assms(1)] by blast
qed

text \<open>The system call is a run of the writer.\<close>

lemma stream_write_run:
  assumes "streams_on_uart s" "i = 1 \<or> i = 2" "schedule_ok hw (sched s)" "rx_ok (sp (world s))" "tx_ok (sp (world s))"
    and "alt_write board_ops i data s = Some (rc, s')"
  shows "\<exists>t. interleaved hw (wr_step False) (wr_start data, world s) (t, world s') \<and> wr_pc t = Wr_Done
    \<and> rc = (if wr_result False data t < 0 then - 1 else wr_result False data t)"
proof -
  obtain n s1 where w: "direct_write i data s = Some (n, s1)" "(rc, s') = ret_errno n s1"
    using assms(6) unfolding descriptor_write[OF assms(1,2)] by auto
  obtain sc where c: "altera_avalon_jtag_uart_write data False (sched s) (world s) = Some (n, sc, world s1)"
    using w(1) assms(2) by (auto simp: direct_write_def ALT_DRIVER_WRITE_def split: if_splits)
  from write_call_run[OF c assms(3-5)] obtain t where
    "interleaved hw (wr_step False) (wr_start data, world s) (t, world s1)" "wr_pc t = Wr_Done" "wr_result False data t = n" by blast
  moreover have "world s' = world s1" "rc = (if n < 0 then - 1 else n)" using w(2) by (auto simp: ret_errno_def fail_def split: if_splits)
  ultimately show ?thesis by auto
qed

text \<open>
  C3: The console of the started board, from \<open>write\<close> to the bus: with a running timer and handlers that
  return, the board starts, and whatever traps come between the accesses of a blocking write, the bytes written to the
  UART's data register followed by those queued are the caller's bytes accepted so far, in order and without gap; the
  write is done only when it has accepted all of them, so that all but at most 2047 are on the bus,
  and then gives their number. The system call on standard output and error is such a run.
\<close>

theorem console_write:
  assumes "running_counter hw" "linked hw al run run3"
  shows "\<exists>m. alt_start hw 0 cfg0 r [] image = Some m
    \<and> (\<forall>data t w. on_board mip run run3 (wr_step False) (wr_start data, world (bd m)) (t, w) \<longrightarrow>
         (\<exists>sent d. data = sent @ wr_data t \<and> io w = d @ io (world (bd m)) \<and> sent = tx_sent 0x300a0 d @ txq (sp w)
           \<and> (wr_pc t = Wr_Done \<and> data \<noteq> [] \<longrightarrow> sent = data \<and> length data \<le> length (tx_sent 0x300a0 d) + 2047
                \<and> wr_result False data t = int (length data))))
    \<and> (\<forall>i data sc rc b. (i = 1 \<or> i = 2) \<and> schedule_ok hw sc \<and> alt_write board_ops i data ((bd m)\<lparr>sched := sc\<rparr>) = Some (rc, b) \<longrightarrow>
         (\<exists>t. interleaved hw (wr_step False) (wr_start data, world (bd m)) (t, world b) \<and> wr_pc t = Wr_Done
           \<and> rc = (if wr_result False data t < 0 then - 1 else wr_result False data t)))"
proof -
  obtain m where m: "alt_start hw 0 cfg0 r [] image = Some m" "streams_on_uart (bd m)" "booted (world (bd m))"
    "sp (world (bd m)) = jtag_uart_0\<lparr>ju_irq_enable := 1, ju_timeout := INT_MAX\<rparr>"
    using started_console[OF assms(1), of cfg0 r] by blast
  let ?w0 = "world (bd m)"
  note q = started_queues[OF m(4)]
  have ok: "rx_ok (sp ?w0)" "tx_ok (sp ?w0)" using m(3) by (simp_all add: booted_def)
  have "\<exists>sent d. data = sent @ wr_data t \<and> io w = d @ io ?w0 \<and> sent = tx_sent 0x300a0 d @ txq (sp w)
      \<and> (wr_pc t = Wr_Done \<and> data \<noteq> [] \<longrightarrow> sent = data \<and> length data \<le> length (tx_sent 0x300a0 d) + 2047
           \<and> wr_result False data t = int (length data))"
    if r: "on_board mip run run3 (wr_step False) (wr_start data, ?w0) (t, w)" for data t w
  proof -
    have i: "interleaved hw (wr_step False) (wr_start data, ?w0) (t, w)" "wr_pc t = Wr_Done \<longrightarrow> wr_data t = []"
      using write_done[OF r assms(2,1) m(3)] by simp_all
    have "wr_inv False data ?w0 (t, w)" by (rule wr_inv_reached[OF i(1) ok(2,1)])
    then obtain sent d where d: "data = sent @ wr_data t" "io w = d @ io ?w0" "sent = tx_sent 0x300a0 d @ txq (sp w)"
      by (auto simp: wr_inv_def wr_flow_def q)
    have "length (txq (sp w)) \<le> 2047" using ring_count_less[of "tx_in (sp w)" "tx_out (sp w)"] by (simp add: txq_def length_ring)
    then show ?thesis using d i(2) by (intro exI[of _ sent] exI[of _ d]) (auto simp: wr_result_def)
  qed
  moreover have "\<exists>t. interleaved hw (wr_step False) (wr_start data, ?w0) (t, world b) \<and> wr_pc t = Wr_Done
      \<and> rc = (if wr_result False data t < 0 then - 1 else wr_result False data t)"
    if "(i = 1 \<or> i = 2) \<and> schedule_ok hw sc \<and> alt_write board_ops i data ((bd m)\<lparr>sched := sc\<rparr>) = Some (rc, b)" for i data sc rc b
    using that stream_write_run[of "(bd m)\<lparr>sched := sc\<rparr>" i hw data rc b] m(2) ok by (simp add: streams_on_uart_def)
  ultimately show ?thesis using m(1) by blast
qed

section \<open>Reading\<close>

text \<open>Interrupts leave the reader's end of the queue, and take nothing out of it.\<close>

lemma interrupts_rx:
  assumes "(interrupt hw)\<^sup>+\<^sup>+ w w'" "rx_ok (sp w)" "tx_ok (sp w)"
  shows "rx_out (sp w') = rx_out (sp w) \<and> (rxq (sp w) \<noteq> [] \<longrightarrow> rxq (sp w') \<noteq> []) \<and> rx_ok (sp w') \<and> tx_ok (sp w')"
  using assms(1)
proof (induction rule: tranclp_induct)
  case (base y)
  then show ?case using interrupt_step[OF _ assms(2,3)] by fastforce
next
  case (step y z)
  then show ?case using interrupt_step[of hw y z] by fastforce
qed

text \<open>While it waits, the \<open>in\<close> it has is the reader's end, so that it leaves the wait only for a byte.\<close>

definition rd_waits :: "int \<Rightarrow> rd_thread \<times> jtag_world \<Rightarrow> bool" where
  "rd_waits space c \<longleftrightarrow>
     (let (t, w) = c
      in (rd_pc t \<in> {Rd_Spin, Rd_Host, Rd_Again} \<longrightarrow> rd_in t = rx_out (sp w))
         \<and> (rd_pc t = Rd_Again \<longrightarrow> rxq (sp w) \<noteq> [])
         \<and> (rd_pc t = Rd_Done \<longrightarrow> 0 < space \<longrightarrow> rd_got t \<noteq> []))"

lemma rd_waits_step:
  assumes "rd_waits space (t, w)" "rd_inv space w0 (t, w)" "booted w"
  shows "rd_waits space (rd_step False (t, w))"
proof -
  have ok: "rx_in (sp w) < BUF_LEN" "rx_out (sp w) < BUF_LEN" "host_active w"
    using assms(3) by (simp_all add: booted_def rx_ok_def host_active_def INT_MAX_def)
  have e: "rxq (sp w) = [] \<longleftrightarrow> rx_in (sp w) = rx_out (sp w)"
    using ring_count_0[OF ok(1,2)] by (simp add: rxq_def length_ring flip: length_0_conv)
  have n: "unat (if rd_in t \<ge> rx_out (sp w) then rd_in t - rx_out (sp w) else BUF_LEN - rx_out (sp w)) = 0 \<Longrightarrow> rd_in t = rx_out (sp w)"
    using ok(2) by (auto simp: unat_eq_0 split: if_splits)
  have got: "rd_pc t = Rd_More \<or> rd_pc t = Rd_Unmask \<Longrightarrow> rd_got t \<noteq> []"
    using assms(2) by (auto simp: rd_inv_def rd_at_def)
  show ?thesis
    using assms(1) e got n ok(3)
    by (cases "rd_pc t") (auto simp: rd_waits_def rd_leave_def Let_def alt_irq_disable_all_def simp del: unat_eq_0)
qed

lemma read_done:
  assumes "on_board mip run run3 (rd_step False) (rd_start space, w0) c" "linked hw al run run3" "running_counter hw" "booted w0"
  shows "interleaved hw (rd_step False) (rd_start space, w0) c \<and> booted (snd c) \<and> rd_waits space c"
proof -
  have ok: "rx_ok (sp w0)" "tx_ok (sp w0)" using assms(4) by (simp_all add: booted_def)
  have i: "interleaved hw (rd_step False) (rd_start space, w0) c \<and> booted (snd c)"
    if "on_board mip run run3 (rd_step False) (rd_start space, w0) c" for c
    using that assms(2,3)
  proof (rule on_board_interleaved)
    show "booted (snd (rd_start space, w0))" using assms(4) by simp
    show "rx_ok (sp (snd c)) \<and> tx_ok (sp (snd c))" if "interleaved hw (rd_step False) (rd_start space, w0) c" for c
      using rd_inv_reached[OF that ok(2,1)] by (cases c) (auto simp: rd_inv_def rd_flow_def)
  qed (rule rd_step_wired)
  have "rd_waits space c"
    using assms(1)
  proof induction
    case board_start
    then show ?case by (simp add: rd_waits_def rd_start_def)
  next
    case (board_step c)
    obtain t w where c: "c = (t, w)" by fastforce
    note ib = i[OF board_step.hyps, unfolded c snd_conv]
    show ?case unfolding c
      by (rule rd_waits_step[OF board_step.IH[unfolded c] rd_inv_reached[OF conjunct1[OF ib] ok(2,1)] conjunct2[OF ib]])
  next
    case (board_trap t w w')
    have b: "booted w" using i[OF board_trap.hyps(1)] by simp
    then show ?case
      using interrupts_rx[of hw w w'] trap_runs[OF board_trap.hyps(2) assms(2,3) b] board_trap.IH
      by (auto simp: rd_waits_def booted_def)
  qed
  then show ?thesis using i[OF assms(1)] by blast
qed

text \<open>
  C4: Reading from the console of the started board, with any traps between the accesses: what has been read followed by what
  is queued is what the device delivered, in order; and since the host counts as there for ever, a blocking read of
  a positive length is done only with at least one byte and at most that many, and gives their number.
\<close>

theorem console_read:
  assumes "running_counter hw" "linked hw al run run3"
  shows "\<exists>m. alt_start hw 0 cfg0 r [] image = Some m
    \<and> (\<forall>space t w. on_board mip run run3 (rd_step False) (rd_start space, world (bd m)) (t, w) \<longrightarrow>
         (\<exists>d. io w = d @ io (world (bd m)) \<and> rd_got t @ rxq (sp w) = rx_valid 0x300a0 d \<and> length (rd_got t) \<le> nat space
           \<and> (rd_pc t = Rd_Done \<and> 0 < space \<longrightarrow> rd_got t \<noteq> [] \<and> rd_result False t = int (length (rd_got t)))))"
proof -
  obtain m where m: "alt_start hw 0 cfg0 r [] image = Some m" "booted (world (bd m))"
    "sp (world (bd m)) = jtag_uart_0\<lparr>ju_irq_enable := 1, ju_timeout := INT_MAX\<rparr>"
    using started_console[OF assms(1), of cfg0 r] by blast
  let ?w0 = "world (bd m)"
  note q = started_queues[OF m(3)]
  have ok: "rx_ok (sp ?w0)" "tx_ok (sp ?w0)" using m(2) by (simp_all add: booted_def)
  have "\<exists>d. io w = d @ io ?w0 \<and> rd_got t @ rxq (sp w) = rx_valid 0x300a0 d \<and> length (rd_got t) \<le> nat space
      \<and> (rd_pc t = Rd_Done \<and> 0 < space \<longrightarrow> rd_got t \<noteq> [] \<and> rd_result False t = int (length (rd_got t)))"
    if r: "on_board mip run run3 (rd_step False) (rd_start space, ?w0) (t, w)" for space t w
  proof -
    have i: "interleaved hw (rd_step False) (rd_start space, ?w0) (t, w)" "rd_waits space (t, w)"
      using read_done[OF r assms(2,1) m(2)] by simp_all
    have "rd_inv space ?w0 (t, w)" by (rule rd_inv_reached[OF i(1) ok(2,1)])
    then obtain d where d: "io w = d @ io ?w0" "rd_got t @ rxq (sp w) = rx_valid 0x300a0 d"
      "int (length (rd_got t)) + rd_space t = space" "rd_got t \<noteq> [] \<longrightarrow> rd_space t \<ge> 0"
      by (auto simp: rd_inv_def rd_flow_def q)
    then have "length (rd_got t) \<le> nat space" by (cases "rd_got t = []") auto
    then show ?thesis using d(1,2) i(2) by (intro exI[of _ d]) (simp add: rd_result_def rd_waits_def)
  qed
  then show ?thesis using m(1) by blast
qed

section \<open>A device that takes bytes\<close>

text \<open>
  It interrupts while the write interrupt is enabled, and then has room for one byte; it never
  has one to deliver.
\<close>

definition port_hw :: hw where
  "port_hw t b r =
     (if b = 0x300a0
      then (if r = JU_CONTROL_REG \<and> (\<exists>v. last_wr b r t = Some v \<and> bit v 1) then JU_CONTROL_WI_MSK OR push_bit JU_CONTROL_WSPACE_OFST 1 else 0)
      else carry_hw t b r)"

definition port_on :: "jtag_world \<Rightarrow> bool" where
  "port_on w \<longleftrightarrow> (\<exists>v. last_wr 0x300a0 JU_CONTROL_REG (io w) = Some v \<and> bit v 1)"

definition port_mip :: "jtag_world \<Rightarrow> u32" where
  "port_mip w = (if port_on w then 0x10000 else 0)"

definition port_run :: "u32 \<Rightarrow> u32 \<Rightarrow> jtag_world \<Rightarrow> jtag_world" where
  "port_run h c w = (case altera_avalon_jtag_uart_irq port_hw w of Some w' \<Rightarrow> w' | None \<Rightarrow> w)"

definition port_run3 :: "u32 \<Rightarrow> u32 \<Rightarrow> u32 \<Rightarrow> u32 \<Rightarrow> jtag_world \<Rightarrow> jtag_world" where
  "port_run3 h cause epc tval w = (case alt_niosv_timer_sc_isr port_hw 0 (\<lambda>_ _ w. (0, w)) w of Some w' \<Rightarrow> w' | None \<Rightarrow> w)"

lemma port_running: "running_counter port_hw"
proof -
  have "shows_counter port_hw carry_counter"
    by (simp add: shows_counter_def port_hw_def carry_hw_def NIOSV_MTIME_ADDR_def)
  then show ?thesis unfolding running_counter_def
    by (intro exI[of _ carry_counter]) (simp add: word_le_nat_alt unat_carry, simp add: min_def)
qed

lemma port_control:
  assumes "ju_base (sp w) = 0x300a0"
  shows "iord port_hw (ju_base (sp w)) JU_CONTROL_REG w = (if port_on w then 0x10200 else 0,
    w\<lparr>io := Rd 0x300a0 JU_CONTROL_REG (if port_on w then 0x10200 else 0) # io w\<rparr>)"
  by (simp add: iord_eq assms port_hw_def port_on_def JU_CONTROL_WI_MSK_def JU_CONTROL_WSPACE_OFST_def)

text \<open>One round sends a byte, or switches the interrupt off.\<close>

lemma port_round:
  assumes "ju_base (sp w) = 0x300a0" "tx_ok (sp w)" "port_on w"
  shows "\<exists>w'. jtag_isr_round port_hw 0x10200 w = Some w'
    \<and> (if txq (sp w) = [] then \<not> port_on w' \<and> txq (sp w') = [] else port_on w' \<and> length (txq (sp w')) < length (txq (sp w)))"
proof -
  have c: "(0x10200 :: u32) AND JU_CONTROL_RI_MSK = 0" "(0x10200 :: u32) AND JU_CONTROL_WI_MSK \<noteq> 0"
    "drop_bit JU_CONTROL_WSPACE_OFST ((0x10200 :: u32) AND JU_CONTROL_WSPACE_MSK) = 1"
    by (simp_all add: JU_CONTROL_RI_MSK_def JU_CONTROL_WI_MSK_def JU_CONTROL_WSPACE_OFST_def JU_CONTROL_WSPACE_MSK_def)
  have e: "txq (sp w) = [] \<longleftrightarrow> tx_out (sp w) = tx_in (sp w)"
    using assms(2) ring_count_0[of "tx_in (sp w)" "tx_out (sp w)"] by (auto simp: tx_ok_def txq_def length_ring simp flip: length_0_conv)
  show ?thesis
  proof (cases "txq (sp w) = []")
    case True
    then have "jtag_isr_tx 1 w = (1, w)" using e by (subst jtag_isr_tx.simps) simp
    then have "jtag_isr_round port_hw 0x10200 w = Some (isr_mask_off port_hw JU_CONTROL_WE_MSK w)"
      using c by (simp add: jtag_isr_round_def jtag_isr_send_def)
    then show ?thesis
      using True assms(1)
      by (simp add: isr_mask_off_def sp_upd_def iowr_eq iord_eq port_on_def txq_def JU_CONTROL_WE_MSK_def bit_simps Let_def)
  next
    case False
    obtain c0 s1 where p: "tx_pop (sp w) = (c0, s1)" by fastforce
    have "tx_out (sp w) \<noteq> tx_in (sp w)" using False e by simp
    note ps = tx_pop_simps[OF assms(2) this[symmetric]]
    let ?w1 = "(iowr (ju_base (sp w)) JU_DATA_REG (ucast c0) w)\<lparr>sp := s1\<rparr>"
    have "jtag_isr_tx 1 w = jtag_isr_tx 0 ?w1" using False e p by (subst jtag_isr_tx.simps) simp
    also have "\<dots> = (0, ?w1)" by (subst jtag_isr_tx.simps) simp
    finally have "jtag_isr_round port_hw 0x10200 w = Some ?w1" using c by (simp add: jtag_isr_round_def jtag_isr_send_def)
    moreover have "port_on ?w1" using assms(3) by (simp add: port_on_def iowr_eq JU_DATA_REG_def JU_CONTROL_REG_def)
    moreover have "txq (sp w) = c0 # txq s1" using ps p by simp
    ultimately show ?thesis using False by simp
  qed
qed


lemma port_off:
  assumes "ju_base (sp w) = 0x300a0" "\<not> port_on w"
  shows "\<exists>w'. altera_avalon_jtag_uart_irq port_hw w = Some w' \<and> \<not> port_on w' \<and> txq (sp w') = txq (sp w)"
proof -
  have "port_on (w\<lparr>io := Rd 0x300a0 JU_CONTROL_REG 0 # io w\<rparr>) = port_on w" by (simp add: port_on_def)
  then show ?thesis using assms(2) port_control[OF assms(1)] by (subst altera_avalon_jtag_uart_irq.simps) simp
qed

lemma port_irq:
  assumes "ju_base (sp w) = 0x300a0" "rx_ok (sp w)" "tx_ok (sp w)"
  shows "\<exists>w'. altera_avalon_jtag_uart_irq port_hw w = Some w' \<and> \<not> port_on w' \<and> (port_on w \<longrightarrow> txq (sp w') = [])"
  using assms
proof (induction "length (txq (sp w))" arbitrary: w rule: less_induct)
  case less
  let ?v = "if port_on w then 0x10200 else 0 :: u32"
  let ?w1 = "w\<lparr>io := Rd 0x300a0 JU_CONTROL_REG ?v # io w\<rparr>"
  have on1: "port_on ?w1 = port_on w" by (simp add: port_on_def)
  show ?case
  proof (cases "port_on w")
    case False
    then show ?thesis using port_off[OF less.prems(1)] by blast
  next
    case True
    have c: "(0x10200 :: u32) AND (JU_CONTROL_RI_MSK OR JU_CONTROL_WI_MSK) \<noteq> 0"
      by (simp add: JU_CONTROL_RI_MSK_def JU_CONTROL_WI_MSK_def)
    have s1: "sp ?w1 = sp w" by simp
    obtain w2 where r: "jtag_isr_round port_hw 0x10200 ?w1 = Some w2"
      "if txq (sp w) = [] then \<not> port_on w2 \<and> txq (sp w2) = [] else port_on w2 \<and> length (txq (sp w2)) < length (txq (sp w))"
      using port_round[of ?w1, unfolded s1, OF less.prems(1,3)] on1 True by blast
    have "isr_step ?w1 w2" using isr_round_ends[of ?w1 port_hw "0x10200"] r(1) less.prems by auto
    then have ok: "ju_base (sp w2) = 0x300a0" "rx_ok (sp w2)" "tx_ok (sp w2)" using less.prems(1) by (simp_all add: isr_step_def)
    have "altera_avalon_jtag_uart_irq port_hw w = altera_avalon_jtag_uart_irq port_hw w2"
      using port_control[OF less.prems(1)] True c r(1) by (subst altera_avalon_jtag_uart_irq.simps) simp
    moreover have "\<exists>w'. altera_avalon_jtag_uart_irq port_hw w2 = Some w' \<and> \<not> port_on w' \<and> txq (sp w') = []"
    proof (cases "txq (sp w) = []")
      case True
      then have "\<not> port_on w2" "txq (sp w2) = []" using r(2) by simp_all
      then show ?thesis using port_off[OF ok(1)] by simp
    next
      case False
      then show ?thesis using r(2) less.hyps[OF _ ok] by simp
    qed
    ultimately show ?thesis by auto
  qed
qed

lemma port_linked: "linked port_hw (\<lambda>_ _ w. (0, w)) port_run port_run3"
proof -
  have "altera_avalon_jtag_uart_irq port_hw w = Some (port_run h c w)"
    if "ju_base (sp w) = 0x300a0" "rx_ok (sp w)" "tx_ok (sp w)" for h c w
    using port_irq[OF that] by (auto simp: port_run_def)
  then show ?thesis by (simp add: linked_def port_run3_def)
qed

text \<open>A byte written on the started board: nine steps of the writer, and the UART's trap.\<close>

lemma port_write:
  assumes "mstatus w = 8" "sp w = jtag_uart_0\<lparr>ju_irq_enable := 1, ju_timeout := INT_MAX\<rparr>"
  shows "\<exists>t w'. (wr_step False ^^ Suc (Suc (Suc (Suc (Suc (Suc (Suc (Suc (Suc 0))))))))) (wr_start [0x48], w) = (t, w')
    \<and> wr_pc t = Wr_Done \<and> port_on w' \<and> mstatus w' = 8"
proof -
  let ?t = "wr_start [0x48]\<lparr>wr_n := 1, wr_pc := Wr_Copy 0\<rparr>"
  have "(wr_step False ^^ Suc (Suc 0)) (wr_start [0x48], w) = (?t, w)"
    by (simp add: wr_start_def wr_room_def assms) (simp add: jtag_uart_0_def Let_def BUF_LEN_def)
  moreover obtain t w' where e: "(wr_step False ^^ Suc (Suc (Suc (Suc (Suc (Suc (Suc 0))))))) (?t, w) = (t, w')" by fastforce
  moreover have "wr_pc t = Wr_Done \<and> port_on w' \<and> mstatus w' = 8"
    using e assms(1)
    by (auto simp: wr_start_def alt_irq_disable_all_def alt_irq_enable_all_def sp_upd_def iowr_eq assms(2) port_on_def
        jtag_uart_0_def JU_CONTROL_WE_MSK_def NIOSV_MSTATUS_MIE_MASK_def)
  ultimately show ?thesis by (intro exI[of _ t] exI[of _ w']) (simp add: funpow_swap1)
qed

text \<open>A trap of the UART's line, when its handler leaves nothing pending.\<close>

lemma uart_trap:
  assumes "booted w" "mstatus w = 8" "bit (mip w) 16" "run JTAG_IRQ_ISR JTAG_UART_0_STATE w = w'" "alt_irq_pending (mip w') w' = 0"
  shows "trap mip run run3 w w'"
proof -
  have b: "mie w = 0x10080" "alt_irq w 0 = \<lparr>handler = JTAG_IRQ_ISR, hcontext = JTAG_UART_0_STATE\<rparr>"
    using assms(1) by (simp_all add: booted_def)
  have p: "alt_irq_pending (mip w) w = 1" using pending_one[OF b(1), of "mip w"] assms(3) by simp
  have "JTAG_IRQ_ISR \<noteq> 0" by (simp add: JTAG_IRQ_ISR_def)
  then have "alt_irq_handler mip run w = Some w'"
    unfolding alt_irq_handler_def p by (subst dispatch_round[where i = 0]) (simp_all add: b(2) assms(4,5) Let_def)
  then have "handle_trap board_trap_config mip run run3 (\<lambda>_ _ _ _ w. (0, w)) (NIOSV_MCAUSE_INTERRUPT_MASK OR of_nat 16) 0 0 w = Some (0, w')"
    using cause_parts(2,4) by (simp add: handle_trap_def NIOSV_TIMER_IRQ_def NIOSV_SOFTWARE_IRQ_def Let_def)
  moreover have "bit (mip w AND mie w) 16" using assms(3) by (simp add: b(1) bit_simps)
  moreover have "mstatus w AND NIOSV_MSTATUS_MIE_MASK \<noteq> 0" by (simp add: assms(2) NIOSV_MSTATUS_MIE_MASK_def)
  ultimately show ?thesis using trap.taken by blast
qed

lemma port_trap:
  assumes "booted w" "mstatus w = 8" "port_on w"
  shows "\<exists>w'. trap port_mip port_run port_run3 w w' \<and> txq (sp w') = []"
proof -
  have b: "ju_base (sp w) = 0x300a0" "rx_ok (sp w)" "tx_ok (sp w)" using assms(1) by (simp_all add: booted_def)
  obtain w' where w': "altera_avalon_jtag_uart_irq port_hw w = Some w'" "\<not> port_on w'" "txq (sp w') = []"
    using port_irq[OF b] assms(3) by blast
  have "trap port_mip port_run port_run3 w w'"
    by (rule uart_trap[OF assms(1,2)]) (use assms(3) w' in \<open>simp_all add: port_mip_def port_run_def alt_irq_pending_def bit_simps\<close>)
  then show ?thesis using w'(3) by blast
qed

lemma on_board_steps: "on_board mip run run3 step c0 ((step ^^ n) c0)"
  by (induction n) (auto intro: on_board.intros)

theorem console_write_witness:
  "\<exists>m t w d. alt_start port_hw 0 (undefined :: i2c_config) (\<lambda>_ m. m) [] image = Some m
     \<and> on_board port_mip port_run port_run3 (wr_step False) (wr_start [0x48], world (bd m)) (t, w)
     \<and> io w = d @ io (world (bd m)) \<and> tx_sent 0x300a0 d = [0x48] \<and> wr_result False [0x48] t = 1"
proof -
  obtain m where m: "alt_start port_hw 0 (undefined :: i2c_config) (\<lambda>_ m. m) [] image = Some m" "booted (world (bd m))"
    "mstatus (world (bd m)) = 8" "sp (world (bd m)) = jtag_uart_0\<lparr>ju_irq_enable := 1, ju_timeout := INT_MAX\<rparr>"
    using started_console[OF port_running] by blast
  let ?c = "(wr_start [0x48], world (bd m))"
  obtain t w1 where s: "(wr_step False ^^ Suc (Suc (Suc (Suc (Suc (Suc (Suc (Suc (Suc 0))))))))) ?c = (t, w1)" "wr_pc t = Wr_Done"
    "port_on w1" "mstatus w1 = 8" using port_write[OF m(3,4)] by blast
  then have o1: "on_board port_mip port_run port_run3 (wr_step False) ?c (t, w1)" using on_board_steps by metis
  then have "booted w1" using write_done[OF o1 port_linked port_running m(2)] by simp
  from port_trap[OF this s(4,3)] obtain w where w: "trap port_mip port_run port_run3 w1 w" "txq (sp w) = []" by blast
  have o: "on_board port_mip port_run port_run3 (wr_step False) ?c (t, w)" using on_board.board_trap[OF o1 w(1)] .
  obtain m' where m': "alt_start port_hw 0 (undefined :: i2c_config) (\<lambda>_ m. m) [] image = Some m'"
    "\<forall>data t w. on_board port_mip port_run port_run3 (wr_step False) (wr_start data, world (bd m')) (t, w) \<longrightarrow>
       (\<exists>sent d. data = sent @ wr_data t \<and> io w = d @ io (world (bd m')) \<and> sent = tx_sent 0x300a0 d @ txq (sp w)
         \<and> (wr_pc t = Wr_Done \<and> data \<noteq> [] \<longrightarrow> sent = data \<and> length data \<le> length (tx_sent 0x300a0 d) + 2047
              \<and> wr_result False data t = int (length data)))"
    using console_write[OF port_running port_linked, of undefined "\<lambda>_ m. m" port_mip] by blast
  have "m' = m" using m'(1) m(1) by simp
  then obtain sent d where "io w = d @ io (world (bd m))" "sent = tx_sent 0x300a0 d @ txq (sp w)"
    "wr_pc t = Wr_Done \<and> [0x48 :: u8] \<noteq> [] \<longrightarrow> sent = [0x48] \<and> length [0x48 :: u8] \<le> length (tx_sent 0x300a0 d) + 2047
       \<and> wr_result False [0x48] t = int (length [0x48 :: u8])"
    using m'(2) o by blast
  moreover from this(3) have "sent = [0x48]" "wr_result False [0x48] t = 1" using s(2) by simp_all
  ultimately have "io w = d @ io (world (bd m))" "[0x48] = tx_sent 0x300a0 d @ txq (sp w)" "wr_result False [0x48] t = 1" by simp_all
  then show ?thesis using m(1) o w(2) by (intro exI[of _ m] exI[of _ t] exI[of _ w] exI[of _ d]) simp
qed

section \<open>A device that delivers a byte\<close>

text \<open>It has one byte, and interrupts while the read interrupt is enabled until this byte has been read.\<close>

definition key_on :: "trace \<Rightarrow> bool" where
  "key_on t \<longleftrightarrow> rd_log 0x300a0 JU_DATA_REG t = [] \<and> (\<forall>v. last_wr 0x300a0 JU_CONTROL_REG t = Some v \<longrightarrow> bit v 0)"

definition key_hw :: hw where
  "key_hw t b r =
     (if b = 0x300a0
      then (if r = JU_CONTROL_REG then (if key_on t then JU_CONTROL_RI_MSK else 0)
            else if rd_log b JU_DATA_REG t = [] then JU_DATA_RVALID_MSK OR 0x48 else 0)
      else carry_hw t b r)"

definition key_mip :: "jtag_world \<Rightarrow> u32" where
  "key_mip w = (if key_on (io w) then 0x10000 else 0)"

definition key_run :: "u32 \<Rightarrow> u32 \<Rightarrow> jtag_world \<Rightarrow> jtag_world" where
  "key_run h c w = (case altera_avalon_jtag_uart_irq key_hw w of Some w' \<Rightarrow> w' | None \<Rightarrow> w)"

definition key_run3 :: "u32 \<Rightarrow> u32 \<Rightarrow> u32 \<Rightarrow> u32 \<Rightarrow> jtag_world \<Rightarrow> jtag_world" where
  "key_run3 h cause epc tval w = (case alt_niosv_timer_sc_isr key_hw 0 (\<lambda>_ _ w. (0, w)) w of Some w' \<Rightarrow> w' | None \<Rightarrow> w)"

lemma key_running: "running_counter key_hw"
proof -
  have "shows_counter key_hw carry_counter"
    by (simp add: shows_counter_def key_hw_def carry_hw_def NIOSV_MTIME_ADDR_def)
  then show ?thesis unfolding running_counter_def
    by (intro exI[of _ carry_counter]) (simp add: word_le_nat_alt unat_carry, simp add: min_def)
qed

lemmas key_defs = key_hw_def JU_CONTROL_REG_def JU_DATA_REG_def JU_CONTROL_RI_MSK_def JU_CONTROL_WI_MSK_def
  JU_DATA_RVALID_MSK_def JU_DATA_RAVAIL_MSK_def JU_DATA_DATA_MSK_def

lemma key_irq_off:
  assumes "ju_base (sp w) = 0x300a0" "\<not> key_on (io w)"
  shows "altera_avalon_jtag_uart_irq key_hw w = Some (w\<lparr>io := Rd 0x300a0 JU_CONTROL_REG 0 # io w\<rparr>)"
  using assms by (subst altera_avalon_jtag_uart_irq.simps) (simp add: iord_eq key_hw_def)

text \<open>With room for it, the byte is taken; without, the interrupt is switched off.\<close>

lemma key_rx:
  assumes "ju_base (sp w) = 0x300a0" "rd_log 0x300a0 JU_DATA_REG (io w) = []" "(rx_in (sp w) + 1) mod BUF_LEN \<noteq> rx_out (sp w)"
  shows "\<exists>v d. jtag_isr_rx key_hw x w = Some (v, w\<lparr>io := d @ io w, sp := rx_push 0x48 (sp w)\<rparr>) \<and> v AND JU_DATA_RAVAIL_MSK = 0
    \<and> rd_log 0x300a0 JU_DATA_REG d \<noteq> []"
proof -
  let ?w1 = "w\<lparr>io := Rd 0x300a0 JU_DATA_REG 0x8048 # io w, sp := rx_push 0x48 (sp w)\<rparr>"
  have 1: "jtag_isr_rx key_hw x w = jtag_isr_rx key_hw 0x8048 ?w1"
    using assms by (subst jtag_isr_rx.simps) (simp add: iord_eq sp_upd_def key_defs)
  have 2: "ju_base (sp ?w1) = 0x300a0" using assms(1) by (simp add: rx_push_def)
  show ?thesis
  proof (cases "(rx_in (sp ?w1) + 1) mod BUF_LEN = rx_out (sp ?w1)")
    case True
    then have "jtag_isr_rx key_hw 0x8048 ?w1 = Some (0x8048, ?w1)" by (subst jtag_isr_rx.simps) simp
    then show ?thesis unfolding 1
      by (intro exI[of _ "0x8048"] exI[of _ "[Rd 0x300a0 JU_DATA_REG 0x8048]"]) (simp add: JU_DATA_RAVAIL_MSK_def)
  next
    case False
    then have "jtag_isr_rx key_hw 0x8048 ?w1 = Some (0, ?w1\<lparr>io := Rd 0x300a0 JU_DATA_REG 0 # io ?w1\<rparr>)"
      using 2 by (subst jtag_isr_rx.simps) (simp add: iord_eq key_defs)
    then show ?thesis unfolding 1
      by (intro exI[of _ "0"] exI[of _ "[Rd 0x300a0 JU_DATA_REG 0, Rd 0x300a0 JU_DATA_REG 0x8048]"]) simp
  qed
qed

lemma key_irq:
  assumes "ju_base (sp w) = 0x300a0"
  shows "\<exists>w'. altera_avalon_jtag_uart_irq key_hw w = Some w' \<and> \<not> key_on (io w')
    \<and> (key_on (io w) \<longrightarrow> (rx_in (sp w) + 1) mod BUF_LEN \<noteq> rx_out (sp w) \<longrightarrow> (\<exists>d. w' = w\<lparr>io := d @ io w, sp := rx_push 0x48 (sp w)\<rparr>))"
proof (cases "key_on (io w)")
  case False
  moreover have "key_on (Rd 0x300a0 JU_CONTROL_REG 0 # io w) = key_on (io w)"
    by (simp add: key_on_def JU_CONTROL_REG_def JU_DATA_REG_def)
  ultimately show ?thesis using key_irq_off[OF assms] by simp
next
  case True
  let ?w1 = "w\<lparr>io := Rd 0x300a0 JU_CONTROL_REG JU_CONTROL_RI_MSK # io w\<rparr>"
  have c: "JU_CONTROL_RI_MSK AND (JU_CONTROL_RI_MSK OR JU_CONTROL_WI_MSK) \<noteq> 0" "JU_CONTROL_RI_MSK AND JU_CONTROL_WI_MSK = 0"
    "JU_CONTROL_RI_MSK AND JU_CONTROL_RI_MSK \<noteq> 0"
    by (simp_all add: JU_CONTROL_RI_MSK_def JU_CONTROL_WI_MSK_def)
  have r: "rd_log 0x300a0 JU_DATA_REG (io ?w1) = []" "ju_base (sp ?w1) = 0x300a0"
    using True assms by (simp_all add: key_on_def JU_CONTROL_REG_def JU_DATA_REG_def)
  have u: "altera_avalon_jtag_uart_irq key_hw w =
      (case jtag_isr_receive key_hw ?w1 of None \<Rightarrow> None | Some w2 \<Rightarrow> altera_avalon_jtag_uart_irq key_hw w2)"
    using True assms c by (subst altera_avalon_jtag_uart_irq.simps) (simp add: iord_eq key_hw_def jtag_isr_round_def split: option.splits)
  show ?thesis
  proof (cases "(rx_in (sp w) + 1) mod BUF_LEN = rx_out (sp w)")
    case full: True
    then have "jtag_isr_rx key_hw (push_bit JU_DATA_RAVAIL_OFST 1) ?w1 = Some (push_bit JU_DATA_RAVAIL_OFST 1, ?w1)"
      by (subst jtag_isr_rx.simps) simp
    then have "jtag_isr_receive key_hw ?w1 = Some (isr_mask_off key_hw JU_CONTROL_RE_MSK ?w1)"
      by (simp add: jtag_isr_receive_def JU_DATA_RAVAIL_OFST_def JU_DATA_RAVAIL_MSK_def)
    moreover have "\<not> key_on (io (isr_mask_off key_hw JU_CONTROL_RE_MSK ?w1))" "ju_base (sp (isr_mask_off key_hw JU_CONTROL_RE_MSK ?w1)) = 0x300a0"
      using assms by (simp_all add: isr_mask_off_def sp_upd_def iowr_eq iord_eq key_on_def Let_def JU_CONTROL_RE_MSK_def bit_simps)
    ultimately show ?thesis using u full key_irq_off by (simp add: key_on_def)
  next
    case False
    then have nf: "(rx_in (sp ?w1) + 1) mod BUF_LEN \<noteq> rx_out (sp ?w1)" by simp
    obtain v d where d: "jtag_isr_rx key_hw (push_bit JU_DATA_RAVAIL_OFST 1) ?w1 = Some (v, ?w1\<lparr>io := d @ io ?w1, sp := rx_push 0x48 (sp ?w1)\<rparr>)"
      "v AND JU_DATA_RAVAIL_MSK = 0" "rd_log 0x300a0 JU_DATA_REG d \<noteq> []" using key_rx[OF r(2,1) nf] by blast
    let ?w2 = "w\<lparr>io := d @ io ?w1, sp := rx_push 0x48 (sp w)\<rparr>"
    have "jtag_isr_receive key_hw ?w1 = Some ?w2" using d by (simp add: jtag_isr_receive_def)
    moreover have "\<not> key_on (io ?w2)" using d(3) by (auto simp: key_on_def rd_log_append)
    moreover have "ju_base (sp ?w2) = 0x300a0" using assms by (simp add: rx_push_def)
    ultimately have "altera_avalon_jtag_uart_irq key_hw w = Some (?w2\<lparr>io := Rd 0x300a0 JU_CONTROL_REG 0 # io ?w2\<rparr>)"
      "\<not> key_on (Rd 0x300a0 JU_CONTROL_REG 0 # io ?w2)"
      using u key_irq_off[of ?w2] by (simp_all add: key_on_def)
    then show ?thesis
      by (auto intro!: exI[of _ "Rd 0x300a0 JU_CONTROL_REG 0 # d @ [Rd 0x300a0 JU_CONTROL_REG JU_CONTROL_RI_MSK]"])
  qed
qed

lemma key_linked: "linked key_hw (\<lambda>_ _ w. (0, w)) key_run key_run3"
proof -
  have "altera_avalon_jtag_uart_irq key_hw w = Some (key_run h c w)" if "ju_base (sp w) = 0x300a0" for h c w
    using key_irq[OF that] by (auto simp: key_run_def)
  then show ?thesis by (simp add: linked_def key_run3_def)
qed

text \<open>The UART's trap, and then eleven steps of the reader.\<close>

lemma key_trap:
  assumes "booted w" "mstatus w = 8" "sp w = jtag_uart_0\<lparr>ju_irq_enable := 1, ju_timeout := INT_MAX\<rparr>" "list_all start_event (io w)"
  shows "\<exists>w'. trap key_mip key_run key_run3 w w' \<and> sp w' = rx_push 0x48 (sp w) \<and> mstatus w' = 8"
proof -
  have on: "key_on (io w)"
    using start_events_uart[OF assms(4)] by (auto simp: key_on_def JU_CONTROL_RE_MSK_def)
  have "ju_base (sp w) = 0x300a0" "(rx_in (sp w) + 1) mod BUF_LEN \<noteq> rx_out (sp w)"
    by (simp_all add: assms(3) jtag_uart_0_def BUF_LEN_def)
  then obtain w' d where w': "altera_avalon_jtag_uart_irq key_hw w = Some w'" "\<not> key_on (io w')"
    "w' = w\<lparr>io := d @ io w, sp := rx_push 0x48 (sp w)\<rparr>" using key_irq[of w] on by blast
  have "trap key_mip key_run key_run3 w w'"
    by (rule uart_trap[OF assms(1,2)]) (use on w'(1,2) in \<open>simp_all add: key_mip_def key_run_def alt_irq_pending_def bit_simps\<close>)
  then show ?thesis using w'(3) assms(2) by (intro exI[of _ w']) simp
qed

lemma key_read:
  assumes "mstatus w = 8" "sp w = rx_push 0x48 (jtag_uart_0\<lparr>ju_irq_enable := 1, ju_timeout := INT_MAX\<rparr>)"
  shows "\<exists>t w'. (rd_step False ^^ Suc (Suc (Suc (Suc (Suc (Suc (Suc (Suc (Suc (Suc (Suc 0))))))))))) (rd_start 5, w) = (t, w')
    \<and> rd_pc t = Rd_Done \<and> rd_got t = [0x48] \<and> rxq (sp w') = []"
proof -
  let ?t = "rd_start 5\<lparr>rd_in := 1, rd_n := 1, rd_pc := Rd_Copy 0\<rparr>"
  have "(rd_step False ^^ Suc (Suc 0)) (rd_start 5, w) = (?t, w)"
    by (simp add: rd_start_def assms(2)) (simp add: jtag_uart_0_def rx_push_def Let_def BUF_LEN_def)
  moreover obtain t w' where e: "(rd_step False ^^ Suc (Suc (Suc (Suc (Suc (Suc (Suc (Suc (Suc 0))))))))) (?t, w) = (t, w')" by fastforce
  moreover have "rd_pc t = Rd_Done \<and> rd_got t = [0x48] \<and> rxq (sp w') = []"
    using e assms(1)
    by (auto simp: rd_start_def rd_leave_def alt_irq_disable_all_def alt_irq_enable_all_def sp_upd_def iowr_eq assms(2) rx_push_def
        jtag_uart_0_def BUF_LEN_def rxq_def ring_def ring_count_def Let_def)
  ultimately show ?thesis by (intro exI[of _ t] exI[of _ w']) (simp add: funpow_swap1)
qed

lemma on_board_more_steps: "on_board mip run run3 step c0 c \<Longrightarrow> on_board mip run run3 step c0 ((step ^^ n) c)"
  by (induction n) (auto intro: on_board.intros)

theorem console_read_witness:
  "\<exists>m t w d. alt_start key_hw 0 (undefined :: i2c_config) (\<lambda>_ m. m) [] image = Some m
     \<and> on_board key_mip key_run key_run3 (rd_step False) (rd_start 5, world (bd m)) (t, w) \<and> rd_pc t = Rd_Done
     \<and> io w = d @ io (world (bd m)) \<and> rx_valid 0x300a0 d = [0x48] \<and> rd_got t = [0x48] \<and> rd_result False t = 1"
proof -
  obtain m where m: "alt_start key_hw 0 (undefined :: i2c_config) (\<lambda>_ m. m) [] image = Some m" "booted (world (bd m))"
    "mstatus (world (bd m)) = 8" "sp (world (bd m)) = jtag_uart_0\<lparr>ju_irq_enable := 1, ju_timeout := INT_MAX\<rparr>"
    "list_all start_event (io (world (bd m)))" using started_console[OF key_running] by blast
  let ?c = "(rd_start 5, world (bd m))"
  obtain w1 where w1: "trap key_mip key_run key_run3 (world (bd m)) w1" "sp w1 = rx_push 0x48 (sp (world (bd m)))" "mstatus w1 = 8"
    using key_trap[OF m(2-5)] by blast
  have o1: "on_board key_mip key_run key_run3 (rd_step False) ?c (rd_start 5, w1)"
    using on_board.board_trap[OF on_board.board_start w1(1)] .
  obtain t w where s: "(rd_step False ^^ Suc (Suc (Suc (Suc (Suc (Suc (Suc (Suc (Suc (Suc (Suc 0))))))))))) (rd_start 5, w1) = (t, w)"
    "rd_pc t = Rd_Done" "rd_got t = [0x48]" "rxq (sp w) = []" using key_read[OF w1(3)] w1(2) m(4) by metis
  have o: "on_board key_mip key_run key_run3 (rd_step False) ?c (t, w)" using on_board_more_steps[OF o1] s(1) by metis
  obtain m' where m': "alt_start key_hw 0 (undefined :: i2c_config) (\<lambda>_ m. m) [] image = Some m'"
    "\<forall>space t w. on_board key_mip key_run key_run3 (rd_step False) (rd_start space, world (bd m')) (t, w) \<longrightarrow>
         (\<exists>d. io w = d @ io (world (bd m')) \<and> rd_got t @ rxq (sp w) = rx_valid 0x300a0 d \<and> length (rd_got t) \<le> nat space
           \<and> (rd_pc t = Rd_Done \<and> 0 < space \<longrightarrow> rd_got t \<noteq> [] \<and> rd_result False t = int (length (rd_got t))))"
    using console_read[OF key_running key_linked, of undefined "\<lambda>_ m. m" key_mip] by blast
  have "m' = m" using m'(1) m(1) by simp
  then obtain d where d: "io w = d @ io (world (bd m))" "rd_got t @ rxq (sp w) = rx_valid 0x300a0 d" "rd_result False t = int (length (rd_got t))"
    using m'(2)[rule_format, of 5 t w] o s(2) by auto
  have "rx_valid 0x300a0 d = [0x48]" using d(2)[symmetric] by (simp add: s(3,4))
  moreover have "rd_result False t = 1" using d(3) by (simp add: s(3))
  ultimately show ?thesis using m(1) o s(2,3) d(1) by blast
qed

end
