(* ===== verification/Mapped.thy ===== *)
theory Mapped
  imports Console App
begin

text \<open>
  Every access the board makes falls into a slave of the design: while it starts, in the console's calls and
  the traps that interrupt them, and in the application's loop.
\<close>

section \<open>Starting\<close>

text \<open>The timer.\<close>

lemma timer_event_mapped: "timer_event e \<Longrightarrow> mapped e"
proof -
  have "list_all (word_mapped 0x30048) [0, 1]" by code_simp
  then have "word_mapped 0x30048 r" if "r < 2" for r using word_below[of r 2] that by (auto simp: upt_rec)
  then show "timer_event e \<Longrightarrow> mapped e" using timer_mapped[OF less_trans, of _ 2] by (cases e) auto
qed

lemma uart_event_mapped: "uart_event 0x300a0 e \<Longrightarrow> mapped e"
  by (cases e) (auto simp: uart_mapped)

lemma start_event_mapped: "start_event e \<Longrightarrow> mapped e"
  using timer_event_mapped[of e] by (cases e) (auto simp del: timer_event.simps simp: i2c_mapped uart_mapped JU_CONTROL_REG_def)

lemma start_mapped:
  assumes "running_counter hw"
  shows "\<exists>m. alt_start hw 0 cfg0 r [] image = Some m \<and> booted (world (bd m)) \<and> list_all mapped (io (world (bd m)))"
  using started_console[OF assms, of cfg0 r] start_event_mapped by (fastforce simp: list_all_iff)

section \<open>Traps and threads\<close>

lemma trap_mapped:
  assumes "trap mip run run3 w w'" "linked hw al run run3" "running_counter hw" "booted w"
  shows "goes_mapped (io w) (io w')"
  using trap_runs[OF assms] timer_event_mapped uart_event_mapped by (auto simp: goes_mapped_def trap_event_def list_all_iff)

lemma iowr_mapped: "word_mapped b r \<Longrightarrow> goes_mapped (io w) (io (iowr b r v w))"
  by (auto simp: iowr_eq intro: goes_mapped_Cons goes_mapped_refl)

lemma wr_step_mapped: "ju_base (sp (snd c)) = 0x300a0 \<Longrightarrow> goes_mapped (io (snd c)) (io (snd (wr_step nonblock c)))"
  by (cases c)
     (auto simp: sp_upd_def alt_irq_disable_all_def alt_irq_enable_all_def Let_def goes_mapped_refl JU_CONTROL_REG_def uart_mapped
        intro!: iowr_mapped split: wr_pc.splits)

lemma rd_step_mapped: "ju_base (sp (snd c)) = 0x300a0 \<Longrightarrow> goes_mapped (io (snd c)) (io (snd (rd_step nonblock c)))"
  by (cases c)
     (auto simp: sp_upd_def alt_irq_disable_all_def alt_irq_enable_all_def Let_def goes_mapped_refl JU_CONTROL_REG_def uart_mapped
        intro!: iowr_mapped split: rd_pc.splits)

text \<open>The application as a thread.\<close>

lemma app_step_mapped: "goes_mapped (io (snd c)) (io (snd (app_step c)))"
  by (cases c)
     (auto simp: IOWR_ALTERA_AVALON_PIO_DATA_def iowr_eq PIO_0_BASE_def pio_mapped
      intro!: goes_mapped_Cons goes_mapped_refl split: app_pc.splits prod.splits)

lemma app_step_booted: "booted (snd c) \<Longrightarrow> booted (snd (app_step c))"
  by (cases c) (auto simp: IOWR_ALTERA_AVALON_PIO_DATA_def iowr_eq booted_def split: app_pc.splits prod.splits)

lemma app_booted:
  assumes "on_board mip run run3 app_step c0 c" "linked hw al run run3" "running_counter hw" "booted (snd c0)"
  shows "booted (snd c)"
  using assms(1)
proof induction
  case (board_trap t w w')
  then show ?case using trap_runs[OF board_trap.hyps(2) assms(2,3)] by simp
qed (use assms(4) app_step_booted in auto)

text \<open>A thread whose steps are mapped, on a board that stays as it was started.\<close>

lemma on_board_mapped:
  assumes "on_board mip run run3 step c0 c" "linked hw al run run3" "running_counter hw" "list_all mapped (io (snd c0))"
    and b: "\<And>c. on_board mip run run3 step c0 c \<Longrightarrow> booted (snd c)"
    and s: "\<And>c. booted (snd c) \<Longrightarrow> goes_mapped (io (snd c)) (io (snd (step c)))"
  shows "list_all mapped (io (snd c))"
  using assms(1)
proof induction
  case (board_trap t w w')
  have "booted w" using b[OF board_trap.hyps(1)] by simp
  then have "goes_mapped (io w) (io w')" by (rule trap_mapped[OF board_trap.hyps(2) assms(2,3)])
  then show ?case using goes_mapped_all board_trap.IH by simp
next
  case (board_step c)
  then show ?case using goes_mapped_all s b by blast
qed (rule assms(4))

text \<open>
  C7: The board accesses no address that is not a register: with a running timer and handlers that return, it
  starts, and every word that is read or written while it starts, in the application's loop or a read or a
  write on the console, and in the traps between any two of their accesses, lies in one of the slaves that
  \<open>system.h\<close> gives the design, other than the memory; no address is in two of them (\<open>one_slave\<close>).
\<close>

theorem accesses_mapped:
  assumes "running_counter hw" "linked hw al run run3"
  shows "\<exists>m. alt_start hw 0 cfg0 r [] image = Some m
    \<and> (\<forall>t w. on_board mip run run3 app_step (app_start, world (bd m)) (t, w) \<longrightarrow> list_all mapped (io w))
    \<and> (\<forall>data t w. on_board mip run run3 (wr_step False) (wr_start data, world (bd m)) (t, w) \<longrightarrow> list_all mapped (io w))
    \<and> (\<forall>space t w. on_board mip run run3 (rd_step False) (rd_start space, world (bd m)) (t, w) \<longrightarrow> list_all mapped (io w))"
proof -
  obtain m where m: "alt_start hw 0 cfg0 r [] image = Some m" "booted (world (bd m))" "list_all mapped (io (world (bd m)))"
    using start_mapped[OF assms(1), of cfg0 r] by blast
  have base: "ju_base (sp w) = 0x300a0" if "booted w" for w using that by (simp add: booted_def)
  have "list_all mapped (io w)" if "on_board mip run run3 app_step (app_start, world (bd m)) (t, w)" for t w
    using on_board_mapped[OF that assms(2,1)] m(2,3) app_booted[OF _ assms(2,1)] app_step_mapped by fastforce
  moreover have "list_all mapped (io w)" if "on_board mip run run3 (wr_step False) (wr_start data, world (bd m)) (t, w)" for data t w
    using on_board_mapped[OF that assms(2,1)] m(2,3) write_done[OF _ assms(2,1) m(2)] wr_step_mapped base by fastforce
  moreover have "list_all mapped (io w)" if "on_board mip run run3 (rd_step False) (rd_start space, world (bd m)) (t, w)" for space t w
    using on_board_mapped[OF that assms(2,1)] m(2,3) read_done[OF _ assms(2,1) m(2)] rd_step_mapped base by fastforce
  ultimately show ?thesis using m(1) by blast
qed

theorem accesses_mapped_witness:
  "\<exists>m t w. alt_start port_hw 0 (undefined :: i2c_config) (\<lambda>_ m. m) [] image = Some m
     \<and> on_board port_mip port_run port_run3 app_step (app_start, world (bd m)) (t, w)
     \<and> last_wr PIO_0_BASE 0 (io w) = Some 0x3FF \<and> list_all mapped (io w)"
proof -
  obtain m where m: "alt_start port_hw 0 (undefined :: i2c_config) (\<lambda>_ m. m) [] image = Some m"
    "\<forall>t w. on_board port_mip port_run port_run3 app_step (app_start, world (bd m)) (t, w) \<longrightarrow> list_all mapped (io w)"
    using accesses_mapped[OF port_running port_linked, of undefined "\<lambda>_ m. m" port_mip] by blast
  let ?w = "IOWR_ALTERA_AVALON_PIO_DATA PIO_0_BASE 0x3FF (world (bd m))"
  have o: "on_board port_mip port_run port_run3 app_step (app_start, world (bd m)) ((Wait_on, 0), ?w)"
    using on_board_steps[of port_mip port_run port_run3 app_step "(app_start, world (bd m))" "Suc (Suc 0)"] by (simp add: app_start_def)
  moreover have "last_wr PIO_0_BASE 0 (io ?w) = Some 0x3FF" by (simp add: IOWR_ALTERA_AVALON_PIO_DATA_def iowr_eq)
  ultimately show ?thesis using m by blast
qed

end
