(* ===== verification/TrapEntry.thy ===== *)
theory TrapEntry
  imports Asm Mapped
begin

text \<open>
  The code at the trap vector (\<open>HAL/src/machine_trap.S\<close>): it saves the registers that a function may change,
  calls \<open>handle_trap\<close>, and restores them. \<open>mret\<close> then continues at \<open>mepc\<close>.
\<close>

section \<open>The code\<close>

text \<open>
  What the build defines: \<open>ALT_CPU_NUM_GPR = 32\<close>, \<open>__riscv_flen = 32\<close>, and with \<open>ALT_EXCEPTION_STACK\<close> the
  symbols \<open>__alt_exception_stack_pointer\<close> and \<open>__alt_exception_stack_limit\<close>.
\<close>

record entry_config =
  num_gpr32 :: bool
  flen32 :: bool
  exc_stack :: "(u32 \<times> u32) option"

definition board_entry :: entry_config where
  "board_entry = \<lparr>num_gpr32 = True, flen32 = False, exc_stack = None\<rparr>"

definition frame_words :: "entry_config \<Rightarrow> nat" where
  "frame_words cfg = (if flen32 cfg then 36 else if num_gpr32 cfg then 16 else 10)"

definition saved :: "entry_config \<Rightarrow> slots" where
  "saved cfg = zip [0..<10] [RA, T0, T1, T2, A0, A1, A2, A3, A4, A5]
     @ (if num_gpr32 cfg then zip [10..<16] [A6, A7, T3, T4, T5, T6] else [])
     @ (if flen32 cfg then zip [16..<36] [FT0, FT1, FT2, FT3, FT4, FT5, FT6, FT7, FT8, FT9, FT10, FT11,
          FA0, FA1, FA2, FA3, FA4, FA5, FA6, FA7] else [])"

text \<open>The change to the exception stack, and back.\<close>

definition enter_stack :: "entry_config \<Rightarrow> 's cpu \<Rightarrow> 's cpu" where
  "enter_stack cfg c =
     (case exc_stack cfg of
        None \<Rightarrow> c
      | Some (pointer, limit) \<Rightarrow>
          (let c1 = exec [Addi SP SP (- 8), Sw S0 0 SP, Sw S1 4 SP, La S0 pointer, La S1 limit] c
           in if regs c1 SP > regs c1 S0 \<or> regs c1 SP < regs c1 S1
              then exec [La S0 (pointer - 4), Sw SP 0 S0, Mv SP S0] c1
              else exec [Sw SP (- 4) SP, Addi SP SP (- 4)] c1))"

definition leave_stack :: "entry_config \<Rightarrow> 's cpu \<Rightarrow> 's cpu" where
  "leave_stack cfg c =
     (case exc_stack cfg of
        None \<Rightarrow> c
      | Some _ \<Rightarrow> exec [Lw S0 0 SP, Addi SP SP 4, Mv SP S0, Lw S0 0 SP, Lw S1 4 SP, Addi SP SP 8] c)"

definition save_registers :: "entry_config \<Rightarrow> 's cpu \<Rightarrow> 's cpu" where
  "save_registers cfg c = exec (Addi SP SP (- of_nat (4 * frame_words cfg)) # sw_all (saved cfg)) c"

definition restore_registers :: "entry_config \<Rightarrow> 's cpu \<Rightarrow> 's cpu" where
  "restore_registers cfg c = exec (lw_all (saved cfg) @ [Addi SP SP (of_nat (4 * frame_words cfg))]) c"

definition trap_vector :: "entry_config \<Rightarrow> ('s cpu \<Rightarrow> 's cpu option) \<Rightarrow> 's cpu \<Rightarrow> 's cpu option" where
  "trap_vector cfg call c =
     (case call (exec [Csrr A0 MCAUSE, Csrr A1 MEPC, Csrr A2 MTVAL] (save_registers cfg (enter_stack cfg c))) of
        None \<Rightarrow> None
      | Some c1 \<Rightarrow> Some (leave_stack cfg (restore_registers cfg (exec [Csrw MEPC A0] c1))))"

section \<open>Where it writes\<close>

definition entry_sp :: "entry_config \<Rightarrow> u32 \<Rightarrow> u32" where
  "entry_sp cfg sp0 =
     (case exc_stack cfg of
        None \<Rightarrow> sp0
      | Some (pointer, limit) \<Rightarrow> if sp0 - 8 > pointer \<or> sp0 - 8 < limit then pointer - 4 else sp0 - 12)"

text \<open>What is kept for the change of the stack, and what lies below: the frame, and the stack of \<open>handle_trap\<close>.\<close>

definition stack_links :: "entry_config \<Rightarrow> u32 \<Rightarrow> u32 set" where
  "stack_links cfg sp0 = (if exc_stack cfg = None then {} else span (entry_sp cfg sp0) 4 \<union> (span (sp0 - 8) 4 \<union> span (sp0 - 4) 4))"

definition frame_below :: "entry_config \<Rightarrow> nat \<Rightarrow> u32 \<Rightarrow> u32 set" where
  "frame_below cfg depth sp0 =
     span (entry_sp cfg sp0 - of_nat (4 * frame_words cfg) - of_nat depth) (4 * frame_words cfg + depth)"

text \<open>There is room for it on the stacks, and the two stacks are apart.\<close>

definition room :: "entry_config \<Rightarrow> u32 set \<Rightarrow> nat \<Rightarrow> u32 \<Rightarrow> bool" where
  "room cfg stk depth sp0 \<longleftrightarrow> 4 * frame_words cfg + depth < 2 ^ 32
     \<and> stack_links cfg sp0 \<union> span (entry_sp cfg sp0 - of_nat (4 * frame_words cfg)) (4 * frame_words cfg) \<subseteq> stk
     \<and> frame_below cfg depth sp0 \<inter> stack_links cfg sp0 = {}
     \<and> (exc_stack cfg \<noteq> None \<longrightarrow> span (entry_sp cfg sp0) 4 \<inter> (span (sp0 - 8) 4 \<union> span (sp0 - 4) 4) = {})"

text \<open>The registers of the processor.\<close>

definition has_reg :: "entry_config \<Rightarrow> reg \<Rightarrow> bool" where
  "has_reg cfg r \<longleftrightarrow>
     (if r \<in> {ZERO, RA, SP, GP, TP, T0, T1, T2, S0, S1, A0, A1, A2, A3, A4, A5} then True
      else if r \<in> {A6, A7, S2, S3, S4, S5, S6, S7, S8, S9, S10, S11, T3, T4, T5, T6} then num_gpr32 cfg
      else flen32 cfg)"

lemma saved_ok: "slots_ok (frame_words cfg) (saved cfg)"
  by (cases "num_gpr32 cfg"; cases "flen32 cfg") (simp_all add: slots_ok_def saved_def frame_words_def upt_rec)

lemma frame_small: "4 * frame_words cfg < 2 ^ 32"
  by (simp add: frame_words_def)

lemma saved_or_kept: "has_reg cfg r \<Longrightarrow> callee_saved r \<or> r \<in> snd ` set (saved cfg)"
  by (cases r) (simp_all add: has_reg_def callee_saved_def saved_def upt_rec)

lemma saved_caller: "r \<in> snd ` set (saved cfg) \<Longrightarrow> \<not> callee_saved r"
  by (auto simp: callee_saved_def saved_def upt_rec split: if_splits)

section \<open>The registers and the frame\<close>

text \<open>From the saving to the restoring, when the stack has been changed.\<close>

lemma saved_call:
  assumes "compiled stk depth f call" "f (csrs c MCAUSE) (csrs c MEPC) (csrs c MTVAL) (sys c) = Some (e, s)"
    and "4 * frame_words cfg + depth < 2 ^ 32" "span (regs c SP - of_nat (4 * frame_words cfg)) (4 * frame_words cfg) \<subseteq> stk"
  shows "\<exists>c1. call (exec [Csrr A0 MCAUSE, Csrr A1 MEPC, Csrr A2 MTVAL] (save_registers cfg c)) = Some c1
    \<and> (let c' = restore_registers cfg (exec [Csrw MEPC A0] c1)
       in sys c' = s \<and> csrs c' MEPC = e \<and> (\<forall>r. has_reg cfg r \<longrightarrow> regs c' r = regs c r)
          \<and> (\<forall>x\<in>stk. x \<notin> span (regs c SP - of_nat (4 * frame_words cfg) - of_nat depth) (4 * frame_words cfg + depth)
               \<longrightarrow> ram c' x = ram c x))"
proof -
  define n where "n = frame_words cfg"
  define b where "b = regs c SP - of_nat (4 * n)"
  let ?d = "b - of_nat depth"
  have n: "slots_ok n (saved cfg)" "4 * n < 2 ^ 32" using saved_ok assms(3) by (simp_all add: n_def)
  have parts: "span b (4 * n) \<subseteq> span ?d (4 * n + depth)" "span ?d depth \<subseteq> span ?d (4 * n + depth)" "span ?d depth \<inter> span b (4 * n) = {}"
    using span_part[of _ ?d depth "4 * n" "4 * n + depth"] span_mono[of depth "4 * n + depth" ?d]
      span_apart[of 0 depth depth "4 * n" "4 * n + depth" ?d] assms(3) by (auto simp: n_def)
  define c0 where "c0 = set_reg SP b c"
  have c0: "regs c0 SP = b" "regs c0 r = (if r = SP then b else regs c r)" "csrs c0 = csrs c" "sys c0 = sys c" "ram c0 = ram c" for r
    by (simp_all add: c0_def set_reg_def)
  obtain m where m: "exec (sw_all (saved cfg)) c0 = c0\<lparr>ram := m\<rparr>" "\<forall>(i, r)\<in>set (saved cfg). load_32 m (b + 4 * of_nat i) = regs c0 r"
    "\<forall>x. x \<notin> span b (4 * n) \<longrightarrow> m x = ram c x" using exec_sw_all[OF n, of c0] by (auto simp: c0)
  let ?c3 = "exec [Csrr A0 MCAUSE, Csrr A1 MEPC, Csrr A2 MTVAL] (save_registers cfg c)"
  have "save_registers cfg c = c0\<lparr>ram := m\<rparr>"
    using m(1) by (simp add: save_registers_def n_def c0_def b_def)
  then have c3: "regs ?c3 A0 = csrs c MCAUSE" "regs ?c3 A1 = csrs c MEPC" "regs ?c3 A2 = csrs c MTVAL" "sys ?c3 = sys c" "ram ?c3 = m"
    "callee_saved r \<Longrightarrow> regs ?c3 r = (if r = SP then b else regs c r)" for r
    using c0 by (auto simp: set_reg_def callee_saved_def)
  have sp3: "regs ?c3 SP = b" using c3(6)[of SP] by (simp add: callee_saved_def)
  obtain c1 where c1: "call ?c3 = Some c1" "regs c1 A0 = e" "sys c1 = s" "\<And>r. callee_saved r \<Longrightarrow> regs c1 r = regs ?c3 r"
    "\<And>x. x \<in> stk \<Longrightarrow> x \<notin> span ?d depth \<Longrightarrow> ram c1 x = m x"
    using compiled_Some[OF assms(1), of ?c3 e s] assms(2) by (auto simp only: c3 sp3)
  define c2 where "c2 = exec [Csrw MEPC A0] c1"
  have c2: "regs c2 = regs c1" "sys c2 = s" "ram c2 = ram c1" "csrs c2 MEPC = e" using c1 by (simp_all add: c2_def)
  have sp1: "regs c1 SP = b" using c1(4)[of SP] sp3 by (simp add: callee_saved_def)
  obtain g where g: "exec (lw_all (saved cfg)) c2 = c2\<lparr>regs := g\<rparr>"
    "\<forall>(i, r)\<in>set (saved cfg). g r = load_32 (ram c1) (b + 4 * of_nat i)" "\<forall>r. r \<notin> snd ` set (saved cfg) \<longrightarrow> g r = regs c1 r"
    using exec_lw_all[OF n(1), of c2] unfolding c2(1,3) sp1 by blast
  have gs: "g r = regs c r" if r: "r \<in> snd ` set (saved cfg)" for r
  proof -
    obtain i where i: "(i, r) \<in> set (saved cfg)" using r by force
    then have "i < n" "r \<noteq> SP" using n(1) by (auto simp: slots_ok_def list_all_iff)
    then have "span (b + 4 * of_nat i) 4 \<subseteq> span b (4 * n)" using slot_inside n(2) by blast
    then have "load_32 (ram c1) (b + 4 * of_nat i) = load_32 m (b + 4 * of_nat i)"
      using c1(5) parts(3) assms(4) by (intro load_32_inside) (auto simp: b_def n_def)
    then show ?thesis using bspec[OF g(2) i] bspec[OF m(2) i] \<open>r \<noteq> SP\<close> by (simp add: c0)
  qed
  have gk: "g r = (if r = SP then b else regs c r)" if k: "callee_saved r" for r
  proof -
    have "g r = regs c1 r" using saved_caller[of r cfg] k g(3) by blast
    then show ?thesis by (simp only: c1(4)[OF k] c3(6)[OF k])
  qed
  have SPk: "callee_saved SP" "SP \<noteq> ZERO" by (simp_all add: callee_saved_def)
  let ?c' = "restore_registers cfg c2"
  have c': "?c' = c2\<lparr>regs := g(SP := regs c SP)\<rparr>"
    using g(1) gk[OF SPk(1)] by (simp add: restore_registers_def exec_append set_reg_def b_def n_def)
  have "regs ?c' r = regs c r" if "has_reg cfg r" for r
    using saved_or_kept[OF that] gs[of r] gk[of r] unfolding c' by auto
  moreover have "ram ?c' x = ram c x" if x: "x \<in> stk" "x \<notin> span ?d (4 * n + depth)" for x
  proof -
    have "x \<notin> span ?d depth" "x \<notin> span b (4 * n)" using x(2) parts by blast+
    then show ?thesis using c1(5)[OF x(1)] m(3) by (simp add: c' c2)
  qed
  moreover have "sys ?c' = s" "csrs ?c' MEPC = e" using c2 by (simp_all add: c')
  ultimately show ?thesis using c1(1) unfolding c2_def Let_def b_def n_def by blast
qed

section \<open>The exception stack\<close>

lemma enter_links:
  assumes "exc_stack cfg = Some (pointer, limit)"
    and "span (entry_sp cfg (regs c SP)) 4 \<inter> (span (regs c SP - 8) 4 \<union> span (regs c SP - 4) 4) = {}"
  shows "regs (enter_stack cfg c) SP = entry_sp cfg (regs c SP)" "csrs (enter_stack cfg c) = csrs c" "sys (enter_stack cfg c) = sys c"
    "r \<noteq> SP \<Longrightarrow> r \<noteq> S0 \<Longrightarrow> r \<noteq> S1 \<Longrightarrow> regs (enter_stack cfg c) r = regs c r"
    "load_32 (ram (enter_stack cfg c)) (entry_sp cfg (regs c SP)) = regs c SP - 8"
    "load_32 (ram (enter_stack cfg c)) (regs c SP - 8) = regs c S0" "load_32 (ram (enter_stack cfg c)) (regs c SP - 4) = regs c S1"
    "x \<notin> stack_links cfg (regs c SP) \<Longrightarrow> ram (enter_stack cfg c) x = ram c x"
proof -
  let ?p = "regs c SP" and ?e = "enter_stack cfg c" and ?s = "entry_sp cfg (regs c SP)"
  have "?p - 8 - 4 = ?p - 12" "?p - 8 + 4 = ?p - 4" by simp_all
  then have e: "regs ?e SP = ?s \<and> csrs ?e = csrs c \<and> sys ?e = sys c \<and> (\<forall>r. r \<noteq> SP \<and> r \<noteq> S0 \<and> r \<noteq> S1 \<longrightarrow> regs ?e r = regs c r)
      \<and> ram ?e = store_32 ?s (?p - 8) (store_32 (?p - 4) (regs c S1) (store_32 (?p - 8) (regs c S0) (ram c)))"
    by (simp add: enter_stack_def entry_sp_def assms(1) set_reg_def)
  have "span (?p - 8 + of_nat 0) 4 \<inter> span (?p - 8 + of_nat 4) 4 = {}" by (rule span_apart[of _ _ _ _ 8]) simp_all
  then have a: "span (?p - 8) 4 \<inter> span (?p - 4) 4 = {}" by simp
  show "regs ?e SP = ?s" "csrs ?e = csrs c" "sys ?e = sys c" "r \<noteq> SP \<Longrightarrow> r \<noteq> S0 \<Longrightarrow> r \<noteq> S1 \<Longrightarrow> regs ?e r = regs c r"
    using e by simp_all
  show "load_32 (ram ?e) ?s = ?p - 8" using e by (simp add: load_32_store_32)
  have b: "span ?s 4 \<inter> span (?p - 8) 4 = {}" "span ?s 4 \<inter> span (?p - 4) 4 = {}" "span (?p - 4) 4 \<inter> span (?p - 8) 4 = {}"
    using assms(2) a by blast+
  show "load_32 (ram ?e) (?p - 8) = regs c S0" "load_32 (ram ?e) (?p - 4) = regs c S1"
    using e by (simp_all add: load_32_apart b load_32_store_32)
  show "x \<notin> stack_links cfg ?p \<Longrightarrow> ram ?e x = ram c x"
    using e by (simp add: stack_links_def assms(1) store_32_outside)
qed

lemma leave_links:
  assumes "exc_stack cfg = Some (pointer, limit)"
    and "load_32 (ram c) (regs c SP) = p - 8" "load_32 (ram c) (p - 8) = a" "load_32 (ram c) (p - 4) = b"
  shows "leave_stack cfg c = c\<lparr>regs := (regs c)(SP := p, S0 := a, S1 := b)\<rparr>"
proof -
  have "p - 8 + 4 = p - 4" "p - 8 + 8 = p" by simp_all
  then show ?thesis using assms(2-4) by (simp add: leave_stack_def assms(1) set_reg_def fun_upd_twist)
qed

section \<open>The trap entry\<close>

lemma enter_same: "csrs (enter_stack cfg c) = csrs c" "sys (enter_stack cfg c) = sys c"
  "regs (enter_stack cfg c) SP = entry_sp cfg (regs c SP)"
  by (auto simp: enter_stack_def entry_sp_def set_reg_def Let_def split: option.splits)

lemma call_regs:
  fixes c :: "'s cpu" and cfg :: entry_config
  defines "c3 \<equiv> exec [Csrr A0 MCAUSE, Csrr A1 MEPC, Csrr A2 MTVAL] (save_registers cfg c)"
  shows "regs c3 A0 = csrs c MCAUSE" "regs c3 A1 = csrs c MEPC" "regs c3 A2 = csrs c MTVAL" "sys c3 = sys c"
proof -
  obtain m where "exec (sw_all (saved cfg)) (exec1 (Addi SP SP (- of_nat (4 * frame_words cfg))) c)
      = (exec1 (Addi SP SP (- of_nat (4 * frame_words cfg))) c)\<lparr>ram := m\<rparr>"
    using exec_sw_all[OF saved_ok, of cfg, OF frame_small] by blast
  then show "regs c3 A0 = csrs c MCAUSE" "regs c3 A1 = csrs c MEPC" "regs c3 A2 = csrs c MTVAL" "sys c3 = sys c"
    by (simp_all add: c3_def save_registers_def set_reg_def)
qed

lemma trap_vector_returns:
  assumes "room cfg stk depth (regs c SP)" "compiled stk depth f call"
    and "f (csrs c MCAUSE) (csrs c MEPC) (csrs c MTVAL) (sys c) = Some (e, s)"
  shows "\<exists>c'. trap_vector cfg call c = Some c' \<and> sys c' = s \<and> csrs c' MEPC = e \<and> (\<forall>r. has_reg cfg r \<longrightarrow> regs c' r = regs c r)
    \<and> (\<forall>x\<in>stk. x \<notin> frame_below cfg depth (regs c SP) \<union> stack_links cfg (regs c SP) \<longrightarrow> ram c' x = ram c x)"
proof -
  let ?e = "enter_stack cfg c"
  have "4 * frame_words cfg + depth < 2 ^ 32" "span (regs ?e SP - of_nat (4 * frame_words cfg)) (4 * frame_words cfg) \<subseteq> stk"
    using assms(1) by (simp_all add: room_def enter_same)
  from saved_call[OF assms(2) _ this, of e s] assms(3) obtain c1 where c1:
    "call (exec [Csrr A0 MCAUSE, Csrr A1 MEPC, Csrr A2 MTVAL] (save_registers cfg ?e)) = Some c1"
    "let c' = restore_registers cfg (exec [Csrw MEPC A0] c1)
     in sys c' = s \<and> csrs c' MEPC = e \<and> (\<forall>r. has_reg cfg r \<longrightarrow> regs c' r = regs ?e r)
        \<and> (\<forall>x\<in>stk. x \<notin> frame_below cfg depth (regs c SP) \<longrightarrow> ram c' x = ram ?e x)"
    unfolding enter_same frame_below_def by blast
  define c2 where "c2 = restore_registers cfg (exec [Csrw MEPC A0] c1)"
  have r: "trap_vector cfg call c = Some (leave_stack cfg c2)" using c1(1) by (simp add: trap_vector_def c2_def)
  have c2: "sys c2 = s" "csrs c2 MEPC = e" "\<And>r. has_reg cfg r \<Longrightarrow> regs c2 r = regs ?e r"
    "\<And>x. x \<in> stk \<Longrightarrow> x \<notin> frame_below cfg depth (regs c SP) \<Longrightarrow> ram c2 x = ram ?e x"
    using c1(2) by (simp_all add: c2_def Let_def)
  show ?thesis
  proof (cases "exc_stack cfg")
    case None
    then show ?thesis using r c2 by (simp add: leave_stack_def enter_stack_def stack_links_def)
  next
    case (Some q)
    obtain p l where x: "exc_stack cfg = Some (p, l)" using Some by (cases q) simp
    have rm: "stack_links cfg (regs c SP) \<subseteq> stk" "frame_below cfg depth (regs c SP) \<inter> stack_links cfg (regs c SP) = {}"
      "span (entry_sp cfg (regs c SP)) 4 \<inter> (span (regs c SP - 8) 4 \<union> span (regs c SP - 4) 4) = {}"
      using assms(1) x by (simp_all add: room_def)
    have sp2: "regs c2 SP = entry_sp cfg (regs c SP)" using c2(3)[of SP] by (simp add: has_reg_def enter_same)
    note en = enter_links[OF x rm(3)]
    have k: "load_32 (ram c2) a = load_32 (ram ?e) a" if "span a 4 \<subseteq> stack_links cfg (regs c SP)" for a
      using c2(4) rm(1,2) that by (intro load_32_inside) blast
    have l: "leave_stack cfg c2 = c2\<lparr>regs := (regs c2)(SP := regs c SP, S0 := regs c S0, S1 := regs c S1)\<rparr>"
      by (rule leave_links[OF x]) (subst k, simp add: stack_links_def x sp2 subset_iff, simp add: en sp2)+
    have "regs (leave_stack cfg c2) r = regs c r" if "has_reg cfg r" for r
      using c2(3)[OF that] en(4)[of r] by (simp add: l)
    then show ?thesis using r c2 en(8) by (simp add: l)
  qed
qed

lemma trap_vector_result:
  assumes "room cfg stk depth (regs c SP)" "compiled stk depth f call"
  shows "case f (csrs c MCAUSE) (csrs c MEPC) (csrs c MTVAL) (sys c) of
      None \<Rightarrow> trap_vector cfg call c = None
    | Some (e, s) \<Rightarrow> \<exists>c'. trap_vector cfg call c = Some c' \<and> sys c' = s \<and> csrs c' MEPC = e
        \<and> (\<forall>r. has_reg cfg r \<longrightarrow> regs c' r = regs c r)
        \<and> (\<forall>x\<in>stk. x \<notin> frame_below cfg depth (regs c SP) \<union> stack_links cfg (regs c SP) \<longrightarrow> ram c' x = ram c x)"
proof (cases "f (csrs c MCAUSE) (csrs c MEPC) (csrs c MTVAL) (sys c)")
  case None
  let ?c3 = "exec [Csrr A0 MCAUSE, Csrr A1 MEPC, Csrr A2 MTVAL] (save_registers cfg (enter_stack cfg c))"
  have "f (regs ?c3 A0) (regs ?c3 A1) (regs ?c3 A2) (sys ?c3) = None" using None by (simp only: call_regs enter_same)
  then have "call ?c3 = None" using assms(2)[unfolded compiled_def, rule_format, of ?c3] by simp
  then show ?thesis using None by (simp add: trap_vector_def)
next
  case (Some p)
  then show ?thesis using trap_vector_returns[OF assms, of "fst p" "snd p"] by (cases p) simp
qed

text \<open>
  C6: The code at the trap vector is invisible to the code it interrupts: with room on the stacks, and
  \<open>handle_trap\<close> compiled to the calling convention, it returns exactly when \<open>handle_trap\<close> does, called with the
  cause, the address and the value of the trap; the program's state is then the one \<open>handle_trap\<close> leaves, \<open>mepc\<close> the
  address it gave, every register of the processor is what it was, and so is the stack, but for the frame and
  what lies below it. It holds for processors of 16 and 32 registers, with and without floating point, and with
  and without an exception stack.
\<close>

theorem trap_entry_transparent:
  assumes "room cfg stk depth (regs c SP)"
    and "compiled stk depth (handle_trap tcfg mip run run3 run_exn) call"
  shows "case handle_trap tcfg mip run run3 run_exn (csrs c MCAUSE) (csrs c MEPC) (csrs c MTVAL) (sys c) of
      None \<Rightarrow> trap_vector cfg call c = None
    | Some (epc, w) \<Rightarrow> \<exists>c'. trap_vector cfg call c = Some c' \<and> sys c' = w \<and> csrs c' MEPC = epc
        \<and> (\<forall>r. has_reg cfg r \<longrightarrow> regs c' r = regs c r)
        \<and> (\<forall>x\<in>stk. x \<notin> frame_below cfg depth (regs c SP) \<union> stack_links cfg (regs c SP) \<longrightarrow> ram c' x = ram c x)"
  using trap_vector_result[OF assms] by simp

text \<open>A timer interrupt on a processor with an exception stack below 0x20000, while its stack is at 0x8000.\<close>

definition exc_entry :: entry_config where
  "exc_entry = \<lparr>num_gpr32 = True, flen32 = False, exc_stack = Some (0x20000, 0x1F000)\<rparr>"

definition sample_cpu :: "irq_state cpu" where
  "sample_cpu = \<lparr>regs = (\<lambda>r. if r = SP then 0x8000 else if r = ZERO then 0 else 7), csrs = (\<lambda>k. if k = MCAUSE then 0x80000007 else 0x444),
     ram = (\<lambda>_. 0), sys = boot_irq_state\<rparr>"

lemma exc_room: "room exc_entry UNIV 256 0x8000"
proof -
  have "span 0x1FEBC 320 \<inter> span 0x1FFFC 4 = {}" "span 0x7FF8 4 \<inter> span 0x1FEBC 320 = {}" "span 0x7FFC 4 \<inter> span 0x1FEBC 320 = {}"
    "span 0x7FF8 4 \<inter> span 0x1FFFC 4 = {}" "span 0x7FFC 4 \<inter> span 0x1FFFC 4 = {}"
    by (rule span_disjoint; simp)+
  then show ?thesis
    by (simp add: room_def exc_entry_def frame_words_def entry_sp_def frame_below_def stack_links_def Int_Un_distrib Int_commute)
qed

theorem trap_entry_transparent_witness:
  "\<exists>c'. trap_vector exc_entry (code_of (handle_trap board_trap_config (\<lambda>_. 0) (\<lambda>_ _ w. w) (\<lambda>_ _ _ _ w. w) (\<lambda>_ _ _ _ w. (0, w)))) sample_cpu = Some c'
     \<and> csrs c' MEPC = 0x444 \<and> regs c' SP = 0x8000 \<and> regs c' T3 = 7"
proof -
  let ?f = "handle_trap board_trap_config (\<lambda>_. 0) (\<lambda>_ _ w. w) (\<lambda>_ _ _ _ w. w) (\<lambda>_ _ _ _ w. (0, w))"
  have c: "regs sample_cpu SP = 0x8000" "regs sample_cpu T3 = 7" "csrs sample_cpu MCAUSE = 0x80000007" "csrs sample_cpu MEPC = 0x444"
    "csrs sample_cpu MTVAL = 0x444" "sys sample_cpu = boot_irq_state" by (simp_all add: sample_cpu_def)
  have f: "?f 0x80000007 0x444 0x444 boot_irq_state = Some (0x444, boot_irq_state)"
    by (simp add: handle_trap_def NIOSV_MCAUSE_INTERRUPT_MASK_def NIOSV_TIMER_IRQ_def boot_irq_state_def)
  have r: "has_reg exc_entry T3" "has_reg exc_entry SP" by (simp_all add: has_reg_def exc_entry_def)
  show ?thesis
    using trap_entry_transparent[OF exc_room[folded c(1)] compiled_code_of, of board_trap_config "\<lambda>_. 0" "\<lambda>_ _ w. w" "\<lambda>_ _ _ _ w. w" "\<lambda>_ _ _ _ w. (0, w)"]
    unfolding c f using r c(1,2) by fastforce
qed

section \<open>Interrupts of the board\<close>

text \<open>
  C5: An interrupt of the started board, taken by the processor between two instructions: the code at the trap
  vector, \<open>handle_trap\<close> and the handlers together are one step of the relation \<open>trap\<close> by which the
  threads of the drivers are interrupted, and leave every register, the address to continue at and the stack of
  the interrupted code as they were. The interrupt of the timer always returns.
\<close>

theorem interrupts_invisible:
  assumes "linked hw al run run3" "running_counter hw" "booted (sys c)" "mstatus (sys c) AND NIOSV_MSTATUS_MIE_MASK \<noteq> 0"
    and "bit (mip (sys c) AND mie (sys c)) i" "csrs c MCAUSE = NIOSV_MCAUSE_INTERRUPT_MASK OR of_nat i"
    and "room board_entry stk depth (regs c SP)" "compiled stk depth (handle_trap board_trap_config mip run run3 run_exn) call"
  shows "(i = 7 \<longrightarrow> trap_vector board_entry call c \<noteq> None)
    \<and> (\<forall>c'. trap_vector board_entry call c = Some c' \<longrightarrow> trap mip run run3 (sys c) (sys c') \<and> booted (sys c')
         \<and> (\<forall>r. has_reg board_entry r \<longrightarrow> regs c' r = regs c r) \<and> csrs c' MEPC = csrs c MEPC
         \<and> (\<forall>x\<in>stk. x \<notin> frame_below board_entry depth (regs c SP) \<longrightarrow> ram c' x = ram c x))"
proof -
  let ?f = "handle_trap board_trap_config mip run run3 run_exn"
  let ?r = "?f (NIOSV_MCAUSE_INTERRUPT_MASK OR of_nat i) (csrs c MEPC) (csrs c MTVAL) (sys c)"
  note v = trap_vector_result[OF assms(7,8), unfolded assms(6)]
  have b: "mie (sys c) = 0x10080" "timer_handler (sys c) = TIMER_SC_ISR" using assms(3) by (simp_all add: booted_def)
  have i: "i = 7 \<or> i = 16" using assms(5) enabled_irqs b(1) by simp
  have "?r \<noteq> None" if "i = 7" using cause_parts(1,3) by (simp add: that handle_trap_def NIOSV_TIMER_IRQ_def Let_def)
  then have "i = 7 \<longrightarrow> trap_vector board_entry call c \<noteq> None" using v by (auto split: option.splits)
  moreover have "trap mip run run3 (sys c) (sys c') \<and> booted (sys c') \<and> (\<forall>r. has_reg board_entry r \<longrightarrow> regs c' r = regs c r)
      \<and> csrs c' MEPC = csrs c MEPC \<and> (\<forall>x\<in>stk. x \<notin> frame_below board_entry depth (regs c SP) \<longrightarrow> ram c' x = ram c x)"
    if c': "trap_vector board_entry call c = Some c'" for c'
  proof -
    obtain e s where r: "?r = Some (e, s)" using v c' by (cases ?r) auto
    have "e = csrs c MEPC"
      using r i cause_parts by (auto simp: handle_trap_def NIOSV_TIMER_IRQ_def NIOSV_SOFTWARE_IRQ_def Let_def split: if_splits)
    moreover have t: "trap mip run run3 (sys c) s" by (rule trap.taken[OF assms(4,5) r])
    moreover have "booted s" using trap_runs[OF t assms(1,2,3)] by blast
    ultimately show ?thesis using v c' r by (simp add: stack_links_def board_entry_def)
  qed
  ultimately show ?thesis by blast
qed

text \<open>The first tick after the start.\<close>

definition board_cpu :: "'s \<Rightarrow> 's cpu" where
  "board_cpu w = \<lparr>regs = (\<lambda>r. if r = SP then 0x8000 else if r = ZERO then 0 else 7), csrs = (\<lambda>k. if k = MCAUSE then 0x80000007 else 0x444),
     ram = (\<lambda>_. 0), sys = w\<rparr>"

theorem interrupts_invisible_witness:
  "\<exists>m c'. alt_start port_hw 0 (undefined :: i2c_config) (\<lambda>_ m. m) [] image = Some m
     \<and> trap_vector board_entry (code_of (handle_trap board_trap_config (\<lambda>_. 0x80) port_run port_run3 (\<lambda>_ _ _ _ w. (0, w)))) (board_cpu (world (bd m))) = Some c'
     \<and> trap (\<lambda>_. 0x80) port_run port_run3 (world (bd m)) (sys c') \<and> regs c' A0 = 7 \<and> csrs c' MEPC = 0x444"
proof -
  obtain m where m: "alt_start port_hw 0 (undefined :: i2c_config) (\<lambda>_ m. m) [] image = Some m" "booted (world (bd m))"
    "mstatus (world (bd m)) = 8" using started_console[OF port_running] by blast
  let ?w = "world (bd m)"
  let ?c = "board_cpu ?w"
  have c: "sys ?c = ?w" "regs ?c A0 = 7" "csrs ?c MEPC = 0x444" "regs ?c SP = 0x8000" "csrs ?c MCAUSE = NIOSV_MCAUSE_INTERRUPT_MASK OR of_nat 7"
    by (simp_all add: board_cpu_def NIOSV_MCAUSE_INTERRUPT_MASK_def)
  have b: "booted (sys ?c)" "mstatus (sys ?c) AND NIOSV_MSTATUS_MIE_MASK \<noteq> 0" "bit (0x80 AND mie (sys ?c)) 7"
    using m(2,3) by (simp_all add: c(1) NIOSV_MSTATUS_MIE_MASK_def booted_def)
  have r: "room board_entry UNIV 256 (regs ?c SP)"
    by (simp add: c(4) room_def board_entry_def frame_words_def stack_links_def)
  have h: "has_reg board_entry A0" by (simp add: has_reg_def)
  note t = interrupts_invisible[OF port_linked port_running b(1,2), of "\<lambda>_. 0x80", OF b(3) c(5) r compiled_code_of, of "\<lambda>_ _ _ _ w. (0, w)"]
  obtain c' where c': "trap_vector board_entry (code_of (handle_trap board_trap_config (\<lambda>_. 0x80) port_run port_run3 (\<lambda>_ _ _ _ w. (0, w)))) ?c = Some c'"
    using t by auto
  then have "trap (\<lambda>_. 0x80) port_run port_run3 ?w (sys c')" "regs c' A0 = 7" "csrs c' MEPC = 0x444"
    using t h c(2) unfolding c(1,3,4,5) by auto
  then show ?thesis using m(1) c' by blast
qed

section \<open>The alignment of the stack\<close>

text \<open>
  The calling convention wants the stack pointer at a multiple of 16 in a call. With an exception stack,
  \<open>handle_trap\<close> is called 12 above one, since one word has been pushed before the frame.
\<close>

lemma exc_stack_unaligned:
  assumes "exc_stack cfg = Some (pointer, limit)" "take_bit 4 pointer = 0" "num_gpr32 cfg" "\<not> flen32 cfg"
    and "regs c SP - 8 > pointer"
  shows "take_bit 4 (regs (save_registers cfg (enter_stack cfg c)) SP) = 12"
proof -
  let ?b = "pointer - 4 - of_nat (4 * frame_words cfg)"
  have "regs (enter_stack cfg c) SP = pointer - 4" using assms(1,5) by (simp add: enter_same entry_sp_def)
  moreover obtain m where "exec (sw_all (saved cfg)) (exec1 (Addi SP SP (- of_nat (4 * frame_words cfg))) (enter_stack cfg c))
      = (exec1 (Addi SP SP (- of_nat (4 * frame_words cfg))) (enter_stack cfg c))\<lparr>ram := m\<rparr>"
    using exec_sw_all[OF saved_ok, of cfg, OF frame_small] by blast
  ultimately have "regs (save_registers cfg (enter_stack cfg c)) SP = ?b" by (simp add: save_registers_def set_reg_def)
  also have "\<dots> = pointer - 68" using assms(3,4) by (simp add: frame_words_def)
  finally have r: "regs (save_registers cfg (enter_stack cfg c)) SP = pointer - 68" .
  have u: "unat (take_bit 4 z) = unat z mod 16" for z :: u32
    unfolding unsigned_take_bit_eq by (simp add: take_bit_eq_mod)
  have "pointer - 68 = pointer + 0xFFFFFFBC" by simp
  then have "unat (pointer - 68) mod 16 = (unat pointer + 4294967228) mod 16"
    by (simp only: unat_word_ariths(1)) (simp add: mod_mod_cancel)
  also have "\<dots> = (unat pointer mod 16 + 4294967228 mod 16) mod 16" by (simp only: mod_add_eq)
  also have "unat pointer mod 16 = 0" using u[of pointer] by (simp add: assms(2))
  finally have "unat (take_bit 4 (pointer - 68)) = 12" unfolding u by simp
  moreover have "unat (12 :: u32) = 12" by simp
  ultimately show ?thesis unfolding r by (simp only: word_unat_eq_iff)
qed

section \<open>Fatal ECC errors\<close>

text \<open>
  On a processor that corrects memory errors, the code of \<open>alt_ecc_exception_entry.S\<close> is linked before the trap vector's:
  it jumps to the registered handler, which is not expected to return, stops when there is none, or goes on to the
  code above. \<open>ecc_handler\<close> is the word at \<open>alt_ecc_exception_handler\<close>.
\<close>

datatype 's ecc_exit = Ecc_Handler u32 "'s cpu" | Ecc_Stop "'s cpu" | Ecc_Goes_On "'s cpu"

definition ecc_entry :: "u32 \<Rightarrow> 's cpu \<Rightarrow> 's ecc_exit" where
  "ecc_entry ecc_handler c =
     (let c1 = exec [Csrw ALT_ECC_INJECT ZERO, Csrw MSCRATCH T0, Csrr T0 MCAUSE, Addi T0 T0 (- 19)] c
      in if regs c1 T0 \<noteq> 0 then Ecc_Goes_On (exec [Csrr T0 MSCRATCH] c1)
         else (let c2 = exec [La T0 ecc_handler] c1
               in if regs c2 T0 \<noteq> 0 then Ecc_Handler (regs c2 T0) c2 else Ecc_Stop c2))"

text \<open>Every other trap goes on with the registers and the memory it came with; an ECC error never does.\<close>

lemma ecc_entry_cases:
  "csrs c MCAUSE \<noteq> NIOSV_ECC_EXCEPTION \<Longrightarrow>
     \<exists>k. ecc_entry h c = Ecc_Goes_On (c\<lparr>csrs := k\<rparr>) \<and> (\<forall>r. r \<noteq> MSCRATCH \<and> r \<noteq> ALT_ECC_INJECT \<longrightarrow> k r = csrs c r)"
  "csrs c MCAUSE = NIOSV_ECC_EXCEPTION \<Longrightarrow> h \<noteq> 0 \<Longrightarrow> \<exists>c'. ecc_entry h c = Ecc_Handler h c'"
  "csrs c MCAUSE = NIOSV_ECC_EXCEPTION \<Longrightarrow> \<exists>c'. ecc_entry 0 c = Ecc_Stop c'"
proof -
  show "\<exists>k. ecc_entry h c = Ecc_Goes_On (c\<lparr>csrs := k\<rparr>) \<and> (\<forall>r. r \<noteq> MSCRATCH \<and> r \<noteq> ALT_ECC_INJECT \<longrightarrow> k r = csrs c r)"
    if "csrs c MCAUSE \<noteq> NIOSV_ECC_EXCEPTION"
    using that
    by (intro exI[of _ "(csrs c)(ALT_ECC_INJECT := regs c ZERO, MSCRATCH := regs c T0)"])
       (simp add: ecc_entry_def set_reg_def NIOSV_ECC_EXCEPTION_def fun_upd_idem)
  show "csrs c MCAUSE = NIOSV_ECC_EXCEPTION \<Longrightarrow> h \<noteq> 0 \<Longrightarrow> \<exists>c'. ecc_entry h c = Ecc_Handler h c'"
    "csrs c MCAUSE = NIOSV_ECC_EXCEPTION \<Longrightarrow> \<exists>c'. ecc_entry 0 c = Ecc_Stop c'"
    by (simp_all add: ecc_entry_def set_reg_def NIOSV_ECC_EXCEPTION_def)
qed

end
