(* ===== verification/Crt0.thy ===== *)
theory Crt0
  imports Asm Loader
begin

text \<open>
  The code from reset to \<open>alt_main\<close> (\<open>HAL/src/crt0.S\<close>): the trap vector and the interrupts, the pointers, the
  clearing of \<open>.bss\<close>, \<open>alt_load\<close>, and the thread-local storage of the main thread, with the symbols of \<open>linker.x\<close>. The
  memory is one of words, as in \<open>Loader\<close>; the data cache has size 0 on this processor, and nothing is logged. The
  temporary registers are not kept. The call of \<open>alt_load\<close> uses the stack; what it leaves there is a parameter.
\<close>

section \<open>The loops\<close>

text \<open>The body comes before the test, so that at least one word is written.\<close>

partial_function (option) zero_loop :: "u32 \<Rightarrow> u32 \<Rightarrow> words \<Rightarrow> words option" where
  "zero_loop t1 t2 m = (if t1 + 4 < t2 then zero_loop (t1 + 4) t2 (m(t1 := 0)) else Some (m(t1 := 0)))"

partial_function (option) copy_loop :: "u32 \<Rightarrow> u32 \<Rightarrow> u32 \<Rightarrow> words \<Rightarrow> words option" where
  "copy_loop t0 t1 t2 m =
     (if t0 + 4 < t1 then copy_loop (t0 + 4) t1 (t2 + 4) (m(t2 := m t0)) else Some (m(t2 := m t0)))"

section \<open>The start\<close>

record crt0_config =
  csr_support :: bool
  sim_optimize :: bool
  call_alt_load :: bool

definition board_crt0 :: crt0_config where
  "board_crt0 = \<lparr>csr_support = True, sim_optimize = False, call_alt_load = True\<rparr>"

text \<open>The symbols of the linker.\<close>

record crt0_syms =
  sym_trap_vector :: u32
  sym_gp :: u32
  sym_stack :: u32
  sym_bss :: "u32 \<times> u32"
  sym_tbss :: "u32 \<times> u32"
  sym_tdata :: "u32 \<times> u32"
  sym_tdata_source :: u32
  sym_tls_base :: u32

record crt0_state =
  c_regs :: "reg \<Rightarrow> u32"
  c_csrs :: "csr \<Rightarrow> u32"
  c_mem :: words

definition crt0_csrs :: "crt0_config \<Rightarrow> crt0_syms \<Rightarrow> (csr \<Rightarrow> u32) \<Rightarrow> csr \<Rightarrow> u32" where
  "crt0_csrs cfg s k =
     (if csr_support cfg then k(MTVEC := sym_trap_vector s, MSTATUS := k MSTATUS AND NOT 0x88, MIE := 0, MIP := 0) else k)"

definition clear_bss :: "crt0_config \<Rightarrow> crt0_syms \<Rightarrow> words \<Rightarrow> words option" where
  "clear_bss cfg s m = (if sim_optimize cfg then Some m else zero_loop (fst (sym_bss s)) (snd (sym_bss s)) m)"

definition clear_tbss :: "crt0_config \<Rightarrow> crt0_syms \<Rightarrow> words \<Rightarrow> words option" where
  "clear_tbss cfg s m =
     (if sim_optimize cfg \<or> fst (sym_tbss s) \<ge> snd (sym_tbss s) then Some m else zero_loop (fst (sym_tbss s)) (snd (sym_tbss s)) m)"

definition copy_tdata :: "crt0_syms \<Rightarrow> words \<Rightarrow> words option" where
  "copy_tdata s m =
     (if fst (sym_tdata s) \<ge> snd (sym_tdata s) then Some m
      else copy_loop (fst (sym_tdata s)) (snd (sym_tdata s)) (sym_tdata_source s) m)"

text \<open>
  The frames of \<open>alt_load\<close> and of the functions it calls: how many words below the stack pointer they
  take, and what they hold, which the compiler decides.
\<close>

record frames =
  fr_depth :: nat
  fr_words :: words

definition push_frame :: "u32 \<Rightarrow> frames \<Rightarrow> words \<Rightarrow> words" where
  "push_frame sp fr m =
     (\<lambda>a. if \<exists>i<fr_depth fr. a = sp - 4 * of_nat (fr_depth fr) + 4 * of_nat i then fr_words fr a else m a)"

definition call_load :: "crt0_config \<Rightarrow> crt0_syms \<Rightarrow> load_syms \<Rightarrow> load_syms \<Rightarrow> load_syms \<Rightarrow> frames \<Rightarrow> words \<Rightarrow> words option" where
  "call_load cfg s rwdata exceptions rodata fr m =
     (if call_alt_load cfg
      then map_option (push_frame (sym_stack s) fr) (alt_load rwdata exceptions rodata (push_frame (sym_stack s) fr m))
      else Some m)"

text \<open>The state in which \<open>alt_main\<close> is called.\<close>

definition crt0_start ::
  "crt0_config \<Rightarrow> crt0_syms \<Rightarrow> load_syms \<Rightarrow> load_syms \<Rightarrow> load_syms \<Rightarrow> frames \<Rightarrow> crt0_state \<Rightarrow> crt0_state option" where
  "crt0_start cfg s rwdata exceptions rodata fr c =
     map_option (\<lambda>m. c\<lparr>c_csrs := crt0_csrs cfg s (c_csrs c),
         c_regs := (c_regs c)(GP := sym_gp s, SP := sym_stack s, TP := sym_tls_base s), c_mem := m\<rparr>)
       (Option.bind (clear_bss cfg s (c_mem c))
          (\<lambda>m1. Option.bind (call_load cfg s rwdata exceptions rodata fr m1)
             (\<lambda>m2. Option.bind (clear_tbss cfg s m2) (copy_tdata s))))"

section \<open>The areas of the linker\<close>

text \<open>
  The numbers that \<open>linker.x\<close> finds out: where the exceptions begin and the words of each section. The program
  is stored where it runs but for \<open>.rwdata\<close>, which is stored behind the place where it runs, and the
  thread-local data are part of it: \<open>.tdata\<close>, \<open>.tbss\<close>, the copy for the threads to come, and the other data, with
  \<open>.sdata\<close> among them. \<open>trap_vector\<close> is a place in the exceptions.
\<close>

record layout =
  exceptions_at :: nat
  exceptions_words :: nat
  text_words :: nat
  rodata_words :: nat
  tdata_words :: nat
  tbss_words :: nat
  data_words :: nat
  bss_words :: nat
  sdata_at :: nat
  trap_at :: nat

definition rodata_at :: "layout \<Rightarrow> nat" where
  "rodata_at l = exceptions_at l + 4 * (exceptions_words l + text_words l)"

definition rwdata_at :: "layout \<Rightarrow> nat" where
  "rwdata_at l = rodata_at l + 4 * rodata_words l"

definition tbss_at :: "layout \<Rightarrow> nat" where
  "tbss_at l = rwdata_at l + 4 * tdata_words l"

definition source_at :: "layout \<Rightarrow> nat" where
  "source_at l = tbss_at l + 4 * tbss_words l"

definition rwdata_words :: "layout \<Rightarrow> nat" where
  "rwdata_words l = tdata_words l + tbss_words l + tdata_words l + data_words l"

definition stored_at :: "layout \<Rightarrow> nat" where
  "stored_at l = rwdata_at l + 4 * rwdata_words l"

definition bss_at :: "layout \<Rightarrow> nat" where
  "bss_at l = stored_at l + 4 * rwdata_words l"

definition end_at :: "layout \<Rightarrow> nat" where
  "end_at l = bss_at l + 4 * bss_words l"

definition linker_syms :: "layout \<Rightarrow> crt0_syms" where
  "linker_syms l = \<lparr>sym_trap_vector = of_nat (trap_at l), sym_gp = of_nat (sdata_at l) + 0x800, sym_stack = 0x20000,
     sym_bss = (of_nat (bss_at l), of_nat (end_at l)), sym_tbss = (of_nat (tbss_at l), of_nat (source_at l)),
     sym_tdata = (of_nat (rwdata_at l), of_nat (tbss_at l)), sym_tdata_source = of_nat (source_at l),
     sym_tls_base = of_nat (rwdata_at l)\<rparr>"

definition rwdata_syms :: "layout \<Rightarrow> load_syms" where
  "rwdata_syms l = \<lparr>flash_start = of_nat (stored_at l), ram_start = of_nat (rwdata_at l), ram_end = of_nat (stored_at l)\<rparr>"

definition exceptions_syms :: "layout \<Rightarrow> load_syms" where
  "exceptions_syms l = \<lparr>flash_start = of_nat (exceptions_at l), ram_start = of_nat (exceptions_at l),
     ram_end = of_nat (exceptions_at l + 4 * exceptions_words l)\<rparr>"

definition rodata_syms :: "layout \<Rightarrow> load_syms" where
  "rodata_syms l = \<lparr>flash_start = of_nat (rodata_at l), ram_start = of_nat (rodata_at l), ram_end = of_nat (rwdata_at l)\<rparr>"

section \<open>The loops end\<close>

definition cleared :: "u32 \<Rightarrow> nat \<Rightarrow> words \<Rightarrow> words" where
  "cleared p n m = (\<lambda>a. if \<exists>i<n. a = p + 4 * of_nat i then 0 else m a)"

lemma next_word:
  fixes p :: u32
  assumes "unat p + 4 * Suc n < 2 ^ 32"
  shows "unat (p + 4) = unat p + 4" "unat (p + 4 * of_nat (Suc n)) = unat p + 4 * Suc n"
    "p + 4 * of_nat (Suc n) = p + 4 + 4 * of_nat n" "p + 4 < p + 4 * of_nat (Suc n) \<longleftrightarrow> n \<noteq> 0"
proof -
  show 1: "unat (p + 4) = unat p + 4" using assms by (simp add: unat_word_ariths)
  have "p + 4 * of_nat (Suc n) = p + of_nat (4 * Suc n)" by simp
  moreover have "unat (of_nat (4 * Suc n) :: u32) = 4 * Suc n" using assms by (intro unat_of_nat_32) simp
  ultimately show 2: "unat (p + 4 * of_nat (Suc n)) = unat p + 4 * Suc n"
    using assms by (simp only: unat_word_ariths(1)) simp
  show "p + 4 * of_nat (Suc n) = p + 4 + 4 * of_nat n" by simp
  show "p + 4 < p + 4 * of_nat (Suc n) \<longleftrightarrow> n \<noteq> 0" unfolding word_less_nat_alt 1 2 by auto
qed

lemma cleared_Suc: "cleared (p + 4) n (m(p := 0)) = cleared p (Suc n) m"
proof
  fix a
  have sh: "4 + 4 * of_nat i = (4 * of_nat (Suc i) :: u32)" for i by simp
  have "(\<exists>i<Suc n. a = p + 4 * of_nat i) \<longleftrightarrow> a = p \<or> (\<exists>i<n. a = p + 4 + 4 * of_nat i)"
    unfolding add.assoc sh by (auto simp: less_Suc_eq_0_disj simp del: of_nat_Suc)
  then have "cleared p (Suc n) m a = (if a = p \<or> (\<exists>i<n. a = p + 4 + 4 * of_nat i) then 0 else m a)"
    unfolding cleared_def by (rule arg_cong)
  also have "\<dots> = cleared (p + 4) n (m(p := 0)) a" unfolding cleared_def fun_upd_apply by argo
  finally show "cleared (p + 4) n (m(p := 0)) a = cleared p (Suc n) m a" ..
qed

lemma zero_loop_ok: "unat p + 4 * Suc n < 2 ^ 32 \<Longrightarrow> zero_loop p (p + 4 * of_nat (Suc n)) m = Some (cleared p (Suc n) m)"
proof (induction n arbitrary: p m)
  case 0
  have "cleared p (Suc 0) m = m(p := 0)" by (auto simp: cleared_def)
  then show ?case using next_word(4)[OF 0] by (subst zero_loop.simps) (simp del: of_nat_Suc)
next
  case (Suc n)
  note w = next_word[OF Suc.prems]
  have "zero_loop (p + 4) (p + 4 + 4 * of_nat (Suc n)) (m(p := 0)) = Some (cleared (p + 4) (Suc n) (m(p := 0)))"
    using Suc.prems w(1) by (intro Suc.IH) simp
  then show ?case using w(4) unfolding cleared_Suc w(3)[symmetric] by (subst zero_loop.simps) simp
qed

lemma copy_loop_load:
  "unat t0 + 4 * Suc n < 2 ^ 32 \<Longrightarrow> copy_loop t0 (t0 + 4 * of_nat (Suc n)) t2 m = load_words t0 t2 (t2 + 4 * of_nat (Suc n)) m"
proof (induction n arbitrary: t0 t2 m)
  case 0
  have "t2 \<noteq> t2 + 4" by simp
  then have "load_words t0 t2 (t2 + 4) m = Some (m(t2 := m t0))"
    by (subst load_words.simps) (subst load_words.simps, simp)
  then show ?case using next_word(4)[OF 0] by (subst copy_loop.simps) simp
next
  case (Suc n)
  note w = next_word[OF Suc.prems]
  have ne: "t2 \<noteq> t2 + 4 * of_nat (Suc (Suc n))"
    using of_nat4_inj[of "Suc (Suc n)"] Suc.prems by simp
  have "copy_loop (t0 + 4) (t0 + 4 + 4 * of_nat (Suc n)) (t2 + 4) (m(t2 := m t0))
      = load_words (t0 + 4) (t2 + 4) (t2 + 4 + 4 * of_nat (Suc n)) (m(t2 := m t0))"
    using Suc.prems w(1) by (intro Suc.IH) simp
  moreover have "t2 + 4 + 4 * of_nat (Suc n) = t2 + 4 * of_nat (Suc (Suc n))" by simp
  ultimately show ?case using w(4) ne unfolding w(3)[symmetric] by (subst copy_loop.simps, subst load_words.simps) (simp add: ac_simps)
qed

section \<open>The memory that \<open>alt_main\<close> finds\<close>

text \<open>An area of \<open>n\<close> words between two symbols, which does not reach the end of the address space.\<close>

definition area :: "u32 \<times> u32 \<Rightarrow> nat \<Rightarrow> bool" where
  "area s n \<longleftrightarrow> snd s = fst s + 4 * of_nat n \<and> unat (fst s) + 4 * n < 2 ^ 32"

lemma area_empty: "area s n \<Longrightarrow> fst s \<ge> snd s \<longleftrightarrow> n = 0"
proof -
  assume a: "area s n"
  have "unat (of_nat (4 * n) :: u32) = 4 * n" using a by (intro unat_of_nat_32) (simp add: area_def)
  moreover have "snd s = fst s + of_nat (4 * n)" using a by (simp add: area_def)
  ultimately have "unat (snd s) = unat (fst s) + 4 * n"
    using a by (simp only: unat_word_ariths(1)) (simp add: area_def)
  then show ?thesis by (simp add: word_le_nat_alt)
qed

lemma tbss_cleared:
  assumes "area (sym_tbss s) n" "\<not> sim_optimize cfg"
  shows "clear_tbss cfg s m = Some (cleared (fst (sym_tbss s)) n m)"
proof (cases n)
  case 0
  then show ?thesis using area_empty[OF assms(1)] by (simp add: clear_tbss_def cleared_def)
next
  case (Suc k)
  then show ?thesis
    using area_empty[OF assms(1)] zero_loop_ok[of "fst (sym_tbss s)" k m] assms
    by (simp add: clear_tbss_def area_def del: of_nat_Suc)
qed

lemma tdata_copied:
  assumes "area (sym_tdata s) n" "apart (fst (sym_tdata s)) (sym_tdata_source s) n"
  shows "copy_tdata s m = Some (loaded (fst (sym_tdata s)) (sym_tdata_source s) n m)"
proof (cases n)
  case 0
  then show ?thesis using area_empty[OF assms(1)] by (simp add: copy_tdata_def loaded_def)
next
  case (Suc k)
  have "n < 2 ^ 30" using assms(1) by (simp add: area_def)
  then show ?thesis
    using area_empty[OF assms(1)] copy_loop_load[of "fst (sym_tdata s)" k "sym_tdata_source s" m] assms load_words_ok[OF _ assms(2)] Suc
    by (simp add: copy_tdata_def area_def del: of_nat_Suc)
qed

lemma cleared_in: "i < n \<Longrightarrow> cleared p n m (p + 4 * of_nat i) = 0"
  by (auto simp: cleared_def)

lemma cleared_out: "\<forall>j<n. a \<noteq> p + 4 * of_nat j \<Longrightarrow> cleared p n m a = m a"
  by (auto simp: cleared_def)

text \<open>
  What the start needs of the symbols: areas of whole words, sections that can be loaded, \<open>.bss\<close> apart from the copy of the thread's data and
  from the sections, stored and loaded, the thread's data apart from \<open>.tbss\<close> and from their copy, and the frames apart from all
  of them.
\<close>

definition linked_ok :: "crt0_syms \<Rightarrow> (load_syms \<times> nat) list \<Rightarrow> nat \<Rightarrow> nat \<Rightarrow> nat \<Rightarrow> nat \<Rightarrow> bool" where
  "linked_ok s L nb nt nd d \<longleftrightarrow>
     nb \<noteq> 0 \<and> area (sym_bss s) nb \<and> area (sym_tbss s) nt \<and> area (sym_tdata s) nd
     \<and> apart (fst (sym_tdata s)) (sym_tdata_source s) nd \<and> (\<forall>x\<in>set L. section_ok x) \<and> sorted_wrt no_clash L
     \<and> clear_of (fst (sym_bss s)) nb (sym_tdata_source s) nd \<and> clear_of (fst (sym_tbss s)) nt (sym_tdata_source s) nd
     \<and> clear_of (fst (sym_bss s)) nb (sym_stack s - 4 * of_nat d) d
     \<and> (\<forall>(t, n)\<in>set L. clear_of (flash_start t) n (fst (sym_bss s)) nb \<and> clear_of (fst (sym_bss s)) nb (ram_start t) n
          \<and> clear_of (flash_start t) n (sym_stack s - 4 * of_nat d) d \<and> clear_of (ram_start t) n (sym_stack s - 4 * of_nat d) d)"

lemma clear_ofD: "clear_of p n q k \<Longrightarrow> i < n \<Longrightarrow> \<forall>j<k. p + 4 * of_nat i \<noteq> q + 4 * of_nat j"
  by (simp add: clear_of_def)

lemma bss_cleared:
  assumes "area (sym_bss s) n" "n \<noteq> 0" "\<not> sim_optimize cfg"
  shows "clear_bss cfg s m = Some (cleared (fst (sym_bss s)) n m)"
proof -
  obtain k where "n = Suc k" using assms(2) not0_implies_Suc by blast
  then show ?thesis
    using zero_loop_ok[of "fst (sym_bss s)" k m] assms by (simp add: clear_bss_def area_def del: of_nat_Suc)
qed

lemma frame_out: "\<forall>j<fr_depth fr. a \<noteq> sp - 4 * of_nat (fr_depth fr) + 4 * of_nat j \<Longrightarrow> push_frame sp fr m a = m a"
  by (auto simp: push_frame_def)

text \<open>The memory after \<open>alt_load\<close> has returned.\<close>

lemma call_load_places:
  assumes "linked_ok s L nb nt nd (fr_depth fr)" "L = [(rwdata, n1), (exceptions, n2), (rodata, n3)]"
  shows "\<exists>m'. call_load board_crt0 s rwdata exceptions rodata fr m = Some m'
    \<and> (\<forall>(t, n)\<in>set L. \<forall>i<n. m' (ram_start t + 4 * of_nat i) = m (flash_start t + 4 * of_nat i))
    \<and> (\<forall>a. (\<forall>(t, n)\<in>set L. \<forall>i<n. a \<noteq> ram_start t + 4 * of_nat i)
          \<and> (\<forall>i<fr_depth fr. a \<noteq> sym_stack s - 4 * of_nat (fr_depth fr) + 4 * of_nat i) \<longrightarrow> m' a = m a)"
proof -
  note ok = assms(1)[unfolded linked_ok_def]
  let ?p = "push_frame (sym_stack s) fr"
  obtain m2 where m2: "alt_load rwdata exceptions rodata (?p m) = Some m2"
    "\<forall>(t, n)\<in>set L. \<forall>i<n. m2 (ram_start t + 4 * of_nat i) = ?p m (flash_start t + 4 * of_nat i)"
    "\<forall>a. (\<forall>(t, n)\<in>set L. \<forall>i<n. a \<noteq> ram_start t + 4 * of_nat i) \<longrightarrow> m2 a = ?p m a"
    using alt_load_places_sections[OF _ _ assms(2), of "?p m"] ok by blast
  have "?p m2 (ram_start t + 4 * of_nat i) = m (flash_start t + 4 * of_nat i)" if x: "(t, n) \<in> set L" "i < n" for t n i
  proof -
    have k: "clear_of (flash_start t) n (sym_stack s - 4 * of_nat (fr_depth fr)) (fr_depth fr)"
      "clear_of (ram_start t) n (sym_stack s - 4 * of_nat (fr_depth fr)) (fr_depth fr)" using ok x(1) by auto
    have "?p m2 (ram_start t + 4 * of_nat i) = m2 (ram_start t + 4 * of_nat i)" by (rule frame_out[OF clear_ofD[OF k(2) x(2)]])
    also have "\<dots> = ?p m (flash_start t + 4 * of_nat i)" using m2(2) x by blast
    also have "\<dots> = m (flash_start t + 4 * of_nat i)" by (rule frame_out[OF clear_ofD[OF k(1) x(2)]])
    finally show ?thesis .
  qed
  then show ?thesis
    using m2(1,3) by (intro exI[of _ "?p m2"]) (auto simp: call_load_def board_crt0_def frame_out)
qed

lemma start_with_links:
  assumes "linked_ok s L nb nt nd (fr_depth fr)" "L = [(rwdata, n1), (exceptions, n2), (rodata, n3)]"
  shows "\<exists>m'. crt0_start board_crt0 s rwdata exceptions rodata fr c
      = Some (c\<lparr>c_csrs := crt0_csrs board_crt0 s (c_csrs c), c_regs := (c_regs c)(GP := sym_gp s, SP := sym_stack s, TP := sym_tls_base s), c_mem := m'\<rparr>)
    \<and> (\<forall>i<nb. m' (fst (sym_bss s) + 4 * of_nat i) = 0) \<and> (\<forall>i<nt. m' (fst (sym_tbss s) + 4 * of_nat i) = 0)
    \<and> (\<forall>(t, n)\<in>set L. \<forall>i<n. (\<forall>j<nt. ram_start t + 4 * of_nat i \<noteq> fst (sym_tbss s) + 4 * of_nat j)
          \<and> (\<forall>j<nd. ram_start t + 4 * of_nat i \<noteq> sym_tdata_source s + 4 * of_nat j)
          \<longrightarrow> m' (ram_start t + 4 * of_nat i) = c_mem c (flash_start t + 4 * of_nat i))
    \<and> (\<forall>i<nd. m' (sym_tdata_source s + 4 * of_nat i) = m' (fst (sym_tdata s) + 4 * of_nat i))
    \<and> (\<forall>a. (\<forall>i<nb. a \<noteq> fst (sym_bss s) + 4 * of_nat i) \<and> (\<forall>i<nt. a \<noteq> fst (sym_tbss s) + 4 * of_nat i)
          \<and> (\<forall>i<nd. a \<noteq> sym_tdata_source s + 4 * of_nat i) \<and> (\<forall>(t, n)\<in>set L. \<forall>i<n. a \<noteq> ram_start t + 4 * of_nat i)
          \<and> (\<forall>i<fr_depth fr. a \<noteq> sym_stack s - 4 * of_nat (fr_depth fr) + 4 * of_nat i)
          \<longrightarrow> m' a = c_mem c a)"
proof -
  note ok = assms(1)[unfolded linked_ok_def]
  let ?b = "fst (sym_bss s)" and ?t = "fst (sym_tbss s)" and ?d = "fst (sym_tdata s)" and ?g = "sym_tdata_source s"
  define m1 where "m1 = cleared ?b nb (c_mem c)"
  obtain m2 where m2: "call_load board_crt0 s rwdata exceptions rodata fr m1 = Some m2"
    "\<forall>(t, n)\<in>set L. \<forall>i<n. m2 (ram_start t + 4 * of_nat i) = m1 (flash_start t + 4 * of_nat i)"
    "\<forall>a. (\<forall>(t, n)\<in>set L. \<forall>i<n. a \<noteq> ram_start t + 4 * of_nat i)
      \<and> (\<forall>i<fr_depth fr. a \<noteq> sym_stack s - 4 * of_nat (fr_depth fr) + 4 * of_nat i) \<longrightarrow> m2 a = m1 a"
    using call_load_places[OF assms, of m1] by blast
  define m3 where "m3 = cleared ?t nt m2"
  define m4 where "m4 = loaded ?d ?g nd m3"
  have b: "\<not> sim_optimize board_crt0" by (simp add: board_crt0_def)
  have st: "clear_bss board_crt0 s (c_mem c) = Some m1" "clear_tbss board_crt0 s m2 = Some m3" "copy_tdata s m3 = Some m4"
    using ok b unfolding m1_def m3_def m4_def by (blast intro: bss_cleared tbss_cleared tdata_copied)+
  have "m4 (?b + 4 * of_nat i) = 0" if "i < nb" for i
  proof -
    have "m4 (?b + 4 * of_nat i) = m3 (?b + 4 * of_nat i)" unfolding m4_def using ok that by (intro loaded_out clear_ofD) auto
    also have "m3 (?b + 4 * of_nat i) = 0 \<or> m3 (?b + 4 * of_nat i) = m2 (?b + 4 * of_nat i)" by (auto simp: m3_def cleared_def)
    moreover have "m2 (?b + 4 * of_nat i) = m1 (?b + 4 * of_nat i)"
      using m2(3) ok that by (fastforce dest: clear_ofD)
    ultimately show ?thesis using cleared_in[OF that] by (auto simp: m1_def)
  qed
  moreover have "m4 (?t + 4 * of_nat i) = 0" if "i < nt" for i
    using ok that loaded_out[OF clear_ofD[of ?t nt ?g nd i], of ?d m3] cleared_in[OF that] by (simp add: m4_def m3_def)
  moreover have "m4 (ram_start t + 4 * of_nat i) = c_mem c (flash_start t + 4 * of_nat i)"
    if x: "(t, n) \<in> set L" "i < n" and o: "\<forall>j<nt. ram_start t + 4 * of_nat i \<noteq> ?t + 4 * of_nat j"
      "\<forall>j<nd. ram_start t + 4 * of_nat i \<noteq> ?g + 4 * of_nat j" for t n i
  proof -
    have k: "clear_of (flash_start t) n ?b nb" using ok x(1) by auto
    have "m4 (ram_start t + 4 * of_nat i) = m2 (ram_start t + 4 * of_nat i)"
      using loaded_out[OF o(2)] cleared_out[OF o(1)] by (simp add: m4_def m3_def)
    also have "\<dots> = m1 (flash_start t + 4 * of_nat i)" using m2(2) x by blast
    also have "\<dots> = c_mem c (flash_start t + 4 * of_nat i)" using cleared_out[OF clear_ofD[OF k x(2)]] by (simp add: m1_def)
    finally show ?thesis .
  qed
  moreover have "m4 (?g + 4 * of_nat i) = m4 (?d + 4 * of_nat i)" if "i < nd" for i
  proof -
    have "\<forall>j<nd. ?d + 4 * of_nat i \<noteq> ?g + 4 * of_nat j" using ok that by (simp add: apart_def)
    then show ?thesis using loaded_in[OF that] loaded_out by (simp add: m4_def)
  qed
  moreover have "m4 a = c_mem c a"
    if "(\<forall>i<nb. a \<noteq> ?b + 4 * of_nat i) \<and> (\<forall>i<nt. a \<noteq> ?t + 4 * of_nat i) \<and> (\<forall>i<nd. a \<noteq> ?g + 4 * of_nat i)
      \<and> (\<forall>(t, n)\<in>set L. \<forall>i<n. a \<noteq> ram_start t + 4 * of_nat i)
      \<and> (\<forall>i<fr_depth fr. a \<noteq> sym_stack s - 4 * of_nat (fr_depth fr) + 4 * of_nat i)" for a
    using that m2(3) by (simp add: m4_def m3_def m1_def loaded_out cleared_out)
  ultimately show ?thesis using m2(1) st by (intro exI[of _ m4]) (auto simp: crt0_start_def)
qed

text \<open>The \<open>i\<close>-th word from an address.\<close>

definition word_at :: "nat \<Rightarrow> nat \<Rightarrow> u32" where
  "word_at p i = of_nat (p + 4 * i)"

lemma word_at_eq: "of_nat p + 4 * of_nat i = word_at p i"
  by (simp add: word_at_def)

lemma word_at_inj: "p + 4 * i < 2 ^ 32 \<Longrightarrow> q + 4 * j < 2 ^ 32 \<Longrightarrow> word_at p i = word_at q j \<longleftrightarrow> p + 4 * i = q + 4 * j"
  unfolding word_at_def by (metis unat_of_nat_32)

lemma nat_clear:
  assumes "p + 4 * n \<le> q \<or> q + 4 * k \<le> p" "p + 4 * n < 2 ^ 32" "q + 4 * k < 2 ^ 32"
  shows "clear_of (of_nat p) n (of_nat q) k"
  using assms unfolding clear_of_def word_at_eq by (auto simp: word_at_inj)

lemma nat_apart: "p + 4 * n \<le> q \<or> q + 4 * n \<le> p \<Longrightarrow> p + 4 * n < 2 ^ 32 \<Longrightarrow> q + 4 * n < 2 ^ 32 \<Longrightarrow> apart (of_nat p) (of_nat q) n"
  using nat_clear[of p n q n] by (simp add: clear_of_def apart_def)

lemma nat_area: "p + 4 * n < 2 ^ 32 \<Longrightarrow> q = p + 4 * n \<Longrightarrow> area (of_nat p, of_nat q) n"
  by (simp add: area_def unat_of_nat_32)

lemmas layout_defs = rodata_at_def rwdata_at_def tbss_at_def source_at_def rwdata_words_def stored_at_def bss_at_def end_at_def

lemma stack_words: "4 * d \<le> 0x20000 \<Longrightarrow> (0x20000 :: u32) - 4 * of_nat d = of_nat (0x20000 - 4 * d)"
  by (simp add: of_nat_diff)

text \<open>The areas of \<open>linker.x\<close> are what the start needs, if the frames fit between the heap's start and the end of the memory.\<close>

definition loads :: "layout \<Rightarrow> (load_syms \<times> nat) list" where
  "loads l = [(rwdata_syms l, rwdata_words l), (exceptions_syms l, exceptions_words l), (rodata_syms l, rodata_words l)]"

lemma linker_linked:
  assumes "bss_words l \<noteq> 0" "end_at l + 4 * d \<le> 0x20000"
  shows "linked_ok (linker_syms l) (loads l) (bss_words l) (tbss_words l) (tdata_words l) d"
proof -
  define S where "S = 0x20000 - 4 * d"
  have sp: "sym_stack (linker_syms l) - 4 * of_nat d = of_nat S" using stack_words[of d] assms(2) by (simp add: linker_syms_def S_def)
  have b: "end_at l \<le> S" "S + 4 * d = 0x20000" using assms(2) by (auto simp: S_def)
  have o: "exceptions_at l + 4 * exceptions_words l \<le> rodata_at l" "rodata_at l + 4 * rodata_words l = rwdata_at l"
    "rwdata_at l + 4 * tdata_words l = tbss_at l" "tbss_at l + 4 * tbss_words l = source_at l"
    "source_at l + 4 * tdata_words l \<le> stored_at l" "rwdata_at l + 4 * rwdata_words l = stored_at l"
    "stored_at l + 4 * rwdata_words l = bss_at l" "bss_at l + 4 * bss_words l = end_at l"
    by (simp_all add: layout_defs)
  have "apart (of_nat (stored_at l)) (of_nat (rwdata_at l)) (rwdata_words l)"
    by (rule nat_apart) (use b o in auto)
  moreover have "of_nat (stored_at l) = (of_nat (rwdata_at l) + 4 * of_nat (rwdata_words l) :: u32)"
    "of_nat (rwdata_at l) = (of_nat (rodata_at l) + 4 * of_nat (rodata_words l) :: u32)"
    by (simp_all add: stored_at_def rwdata_at_def)
  ultimately have secs: "section_ok (rwdata_syms l, rwdata_words l)" "section_ok (exceptions_syms l, exceptions_words l)"
    "section_ok (rodata_syms l, rodata_words l)"
    using b o by (simp_all add: section_ok_def rwdata_syms_def exceptions_syms_def rodata_syms_def)
  have "\<forall>(t, n)\<in>set (loads l). clear_of (flash_start t) n (of_nat (bss_at l)) (bss_words l) \<and> clear_of (of_nat (bss_at l)) (bss_words l) (ram_start t) n
      \<and> clear_of (flash_start t) n (of_nat S) d \<and> clear_of (ram_start t) n (of_nat S) d"
    using b o by (simp add: loads_def rwdata_syms_def exceptions_syms_def rodata_syms_def nat_clear)
  moreover have "sorted_wrt no_clash (loads l)"
    using b o by (simp add: loads_def rwdata_syms_def exceptions_syms_def rodata_syms_def no_clash_def nat_clear)
  moreover have "area (of_nat (bss_at l), of_nat (end_at l)) (bss_words l)" "area (of_nat (tbss_at l), of_nat (source_at l)) (tbss_words l)"
    "area (of_nat (rwdata_at l), of_nat (tbss_at l)) (tdata_words l)"
    using b o by (simp_all add: nat_area)
  moreover have "apart (of_nat (rwdata_at l)) (of_nat (source_at l)) (tdata_words l)"
    "clear_of (of_nat (bss_at l)) (bss_words l) (of_nat (source_at l)) (tdata_words l)"
    "clear_of (of_nat (tbss_at l)) (tbss_words l) (of_nat (source_at l)) (tdata_words l)"
    "clear_of (of_nat (bss_at l)) (bss_words l) (of_nat S) d"
    using b o by (simp_all add: nat_apart nat_clear)
  ultimately show ?thesis
    unfolding linked_ok_def sp using assms(1) secs by (simp add: linker_syms_def loads_def)
qed

lemma layout_order:
  "exceptions_at l + 4 * exceptions_words l \<le> rodata_at l" "rodata_at l + 4 * rodata_words l = rwdata_at l"
  "rwdata_at l + 4 * tdata_words l = tbss_at l" "tbss_at l + 4 * tbss_words l = source_at l"
  "source_at l + 4 * (tdata_words l + data_words l) = stored_at l" "rwdata_at l + 4 * rwdata_words l = stored_at l"
  "stored_at l + 4 * rwdata_words l = bss_at l" "bss_at l + 4 * bss_words l = end_at l"
  by (simp_all add: layout_defs)

text \<open>The thread's areas are words of \<open>.rwdata\<close>.\<close>

lemma word_in_rwdata:
  "word_at (tbss_at l) j = word_at (rwdata_at l) (tdata_words l + j)"
  "word_at (source_at l) j = word_at (rwdata_at l) (tdata_words l + tbss_words l + j)"
  by (simp_all add: word_at_def layout_defs algebra_simps)

lemma unat_word_at: "p + 4 * i < 2 ^ 32 \<Longrightarrow> unat (word_at p i) = p + 4 * i"
  unfolding word_at_def by (rule unat_of_nat_32)

lemma start_with_linker:
  assumes "bss_words l \<noteq> 0" "end_at l + 4 * fr_depth fr \<le> 0x20000"
  shows "\<exists>m. crt0_start board_crt0 (linker_syms l) (rwdata_syms l) (exceptions_syms l) (rodata_syms l) fr c
      = Some (c\<lparr>c_csrs := crt0_csrs board_crt0 (linker_syms l) (c_csrs c),
          c_regs := (c_regs c)(GP := sym_gp (linker_syms l), SP := sym_stack (linker_syms l), TP := sym_tls_base (linker_syms l)), c_mem := m\<rparr>)
    \<and> (\<forall>i<bss_words l. m (word_at (bss_at l) i) = 0) \<and> (\<forall>i<tbss_words l. m (word_at (tbss_at l) i) = 0)
    \<and> (\<forall>i<rwdata_words l. i < tdata_words l \<or> tdata_words l + tbss_words l + tdata_words l \<le> i
          \<longrightarrow> m (word_at (rwdata_at l) i) = c_mem c (word_at (stored_at l) i))
    \<and> (\<forall>i<tdata_words l. m (word_at (source_at l) i) = m (word_at (rwdata_at l) i))
    \<and> (\<forall>a. (\<forall>i<bss_words l. a \<noteq> word_at (bss_at l) i) \<and> (\<forall>i<rwdata_words l. a \<noteq> word_at (rwdata_at l) i)
          \<and> (\<forall>i<fr_depth fr. a \<noteq> word_at (0x20000 - 4 * fr_depth fr) i) \<longrightarrow> m a = c_mem c a)"
proof -
  let ?d = "fr_depth fr" and ?s = "linker_syms l" and ?W = "word_at (rwdata_at l)"
  define S where "S = 0x20000 - 4 * ?d"
  have S: "(0x20000 :: u32) - 4 * of_nat ?d = of_nat S" using stack_words[of ?d] assms(2) by (simp add: S_def)
  have "rwdata_at l + 4 * rwdata_words l \<le> 0x20000" using assms(2) layout_order[of l] by linarith
  then have inj: "?W i = ?W j \<longleftrightarrow> i = j" if "i < rwdata_words l" "j < rwdata_words l" for i j
    using that by (simp add: word_at_inj)
  have w: "tdata_words l + tbss_words l + tdata_words l + data_words l = rwdata_words l" by (simp add: rwdata_words_def)
  have T: "\<not> (\<exists>j<tbss_words l. ?W i = word_at (tbss_at l) j)" "\<not> (\<exists>j<tdata_words l. ?W i = word_at (source_at l) j)"
    if "i < rwdata_words l" "i < tdata_words l \<or> tdata_words l + tbss_words l + tdata_words l \<le> i" for i
    using that w inj unfolding word_in_rwdata by auto
  have st: "sym_stack ?s = 0x20000" "fst (sym_bss ?s) = of_nat (bss_at l)" "fst (sym_tbss ?s) = of_nat (tbss_at l)"
    "fst (sym_tdata ?s) = of_nat (rwdata_at l)" "sym_tdata_source ?s = of_nat (source_at l)"
    by (simp_all add: linker_syms_def)
  obtain m where r: "crt0_start board_crt0 ?s (rwdata_syms l) (exceptions_syms l) (rodata_syms l) fr c
      = Some (c\<lparr>c_csrs := crt0_csrs board_crt0 ?s (c_csrs c), c_regs := (c_regs c)(GP := sym_gp ?s, SP := sym_stack ?s, TP := sym_tls_base ?s), c_mem := m\<rparr>)"
    and bss: "\<forall>i<bss_words l. m (word_at (bss_at l) i) = 0" and tbss: "\<forall>i<tbss_words l. m (word_at (tbss_at l) i) = 0"
    and ld: "\<forall>(t, n)\<in>set (loads l). \<forall>i<n. (\<forall>j<tbss_words l. ram_start t + 4 * of_nat i \<noteq> word_at (tbss_at l) j)
        \<and> (\<forall>j<tdata_words l. ram_start t + 4 * of_nat i \<noteq> word_at (source_at l) j)
        \<longrightarrow> m (ram_start t + 4 * of_nat i) = c_mem c (flash_start t + 4 * of_nat i)"
    and td: "\<forall>i<tdata_words l. m (word_at (source_at l) i) = m (?W i)"
    and un: "\<forall>a. (\<forall>i<bss_words l. a \<noteq> word_at (bss_at l) i) \<and> (\<forall>i<tbss_words l. a \<noteq> word_at (tbss_at l) i)
        \<and> (\<forall>i<tdata_words l. a \<noteq> word_at (source_at l) i) \<and> (\<forall>(t, n)\<in>set (loads l). \<forall>i<n. a \<noteq> ram_start t + 4 * of_nat i)
        \<and> (\<forall>i<?d. a \<noteq> word_at S i) \<longrightarrow> m a = c_mem c a"
    using start_with_links[OF linker_linked[OF assms] loads_def, of c] unfolding st S word_at_eq by blast
  have main: "m (?W i) = c_mem c (word_at (stored_at l) i)"
    if i: "i < rwdata_words l" "i < tdata_words l \<or> tdata_words l + tbss_words l + tdata_words l \<le> i" for i
  proof -
    have "\<forall>i<rwdata_words l. (\<forall>j<tbss_words l. ?W i \<noteq> word_at (tbss_at l) j) \<and> (\<forall>j<tdata_words l. ?W i \<noteq> word_at (source_at l) j)
      \<longrightarrow> m (?W i) = c_mem c (word_at (stored_at l) i)"
      using ld by (simp add: loads_def rwdata_syms_def word_at_eq)
    then show ?thesis using T[OF i] i(1) by blast
  qed
  have rest: "m a = c_mem c a" if o: "\<forall>i<bss_words l. a \<noteq> word_at (bss_at l) i" "\<forall>i<rwdata_words l. a \<noteq> ?W i" "\<forall>i<?d. a \<noteq> word_at S i" for a
  proof -
    have t: "\<forall>j<tbss_words l. a \<noteq> word_at (tbss_at l) j" "\<forall>j<tdata_words l. a \<noteq> word_at (source_at l) j"
      using o(2) w unfolding word_in_rwdata by auto
    have e: "\<forall>i<exceptions_words l. a = word_at (exceptions_at l) i \<longrightarrow> m a = c_mem c a"
      "\<forall>i<rodata_words l. a = word_at (rodata_at l) i \<longrightarrow> m a = c_mem c a"
      using ld t by (auto simp: loads_def exceptions_syms_def rodata_syms_def word_at_eq)
    show ?thesis
    proof (cases "(\<exists>i<exceptions_words l. a = word_at (exceptions_at l) i) \<or> (\<exists>i<rodata_words l. a = word_at (rodata_at l) i)")
      case True
      then show ?thesis using e by blast
    next
      case False
      then have "\<forall>(t, n)\<in>set (loads l). \<forall>i<n. a \<noteq> ram_start t + 4 * of_nat i"
        using o(2) by (simp add: loads_def exceptions_syms_def rodata_syms_def rwdata_syms_def word_at_eq)
      then show ?thesis using un o(1,3) t by blast
    qed
  qed
  show ?thesis using r bss tbss main td rest unfolding S_def by blast
qed

text \<open>
  C40: From reset to \<open>alt_main\<close>, with the areas as \<open>linker.x\<close> lays them out: the code ends, with the trap vector set and every interrupt
  off, the stack, global and thread pointers those of the linker, every word of \<open>.bss\<close> and \<open>.tbss\<close> zero, the thread's initial data
  loaded and copied for the threads to come, and the other data loaded from where they are stored. What is changed lies in
  \<open>.rwdata\<close>, \<open>.bss\<close> and, by the call of \<open>alt_load\<close>, in the stack; the code, the constants and the stored data stay.
\<close>

theorem start_prepares_memory:
  assumes "bss_words l \<noteq> 0" "end_at l + 4 * fr_depth fr \<le> 0x20000"
  shows "\<exists>c'. crt0_start board_crt0 (linker_syms l) (rwdata_syms l) (exceptions_syms l) (rodata_syms l) fr c = Some c'
    \<and> c_regs c' SP = 0x20000 \<and> c_regs c' GP = of_nat (sdata_at l) + 0x800 \<and> c_regs c' TP = of_nat (rwdata_at l)
    \<and> c_csrs c' MTVEC = of_nat (trap_at l) \<and> c_csrs c' MIE = 0 \<and> c_csrs c' MSTATUS AND NIOSV_MSTATUS_MIE_MASK = 0
    \<and> (\<forall>i<bss_words l. c_mem c' (word_at (bss_at l) i) = 0)
    \<and> (\<forall>i<tbss_words l. c_mem c' (word_at (tbss_at l) i) = 0)
    \<and> (\<forall>i<tdata_words l. c_mem c' (word_at (rwdata_at l) i) = c_mem c (word_at (stored_at l) i)
          \<and> c_mem c' (word_at (source_at l) i) = c_mem c (word_at (stored_at l) i))
    \<and> (\<forall>i<data_words l. c_mem c' (word_at (source_at l) (tdata_words l + i))
          = c_mem c (word_at (stored_at l) (tdata_words l + tbss_words l + tdata_words l + i)))
    \<and> (\<forall>a. unat a < rwdata_at l \<or> stored_at l \<le> unat a \<and> unat a < bss_at l
          \<or> end_at l \<le> unat a \<and> unat a < 0x20000 - 4 * fr_depth fr \<or> 0x20000 \<le> unat a \<longrightarrow> c_mem c' a = c_mem c a)"
proof -
  obtain m where r: "crt0_start board_crt0 (linker_syms l) (rwdata_syms l) (exceptions_syms l) (rodata_syms l) fr c
      = Some (c\<lparr>c_csrs := crt0_csrs board_crt0 (linker_syms l) (c_csrs c),
          c_regs := (c_regs c)(GP := sym_gp (linker_syms l), SP := sym_stack (linker_syms l), TP := sym_tls_base (linker_syms l)), c_mem := m\<rparr>)"
    and z: "\<forall>i<bss_words l. m (word_at (bss_at l) i) = 0" "\<forall>i<tbss_words l. m (word_at (tbss_at l) i) = 0"
    and ld: "\<forall>i<rwdata_words l. i < tdata_words l \<or> tdata_words l + tbss_words l + tdata_words l \<le> i
          \<longrightarrow> m (word_at (rwdata_at l) i) = c_mem c (word_at (stored_at l) i)"
    and td: "\<forall>i<tdata_words l. m (word_at (source_at l) i) = m (word_at (rwdata_at l) i)"
    and un: "\<forall>a. (\<forall>i<bss_words l. a \<noteq> word_at (bss_at l) i) \<and> (\<forall>i<rwdata_words l. a \<noteq> word_at (rwdata_at l) i)
          \<and> (\<forall>i<fr_depth fr. a \<noteq> word_at (0x20000 - 4 * fr_depth fr) i) \<longrightarrow> m a = c_mem c a"
    using start_with_linker[OF assms, of c] by blast
  have w: "tdata_words l + tbss_words l + tdata_words l + data_words l = rwdata_words l" by (simp add: rwdata_words_def)
  have "m (word_at (source_at l) (tdata_words l + i)) = c_mem c (word_at (stored_at l) (tdata_words l + tbss_words l + tdata_words l + i))"
    if "i < data_words l" for i
    using ld[rule_format, of "tdata_words l + tbss_words l + tdata_words l + i"] that w by (simp add: word_in_rwdata add.assoc)
  moreover have "m a = c_mem c a"
    if a: "unat a < rwdata_at l \<or> stored_at l \<le> unat a \<and> unat a < bss_at l
      \<or> end_at l \<le> unat a \<and> unat a < 0x20000 - 4 * fr_depth fr \<or> 0x20000 \<le> unat a" for a
  proof -
    note o = layout_order[of l]
    have "\<forall>i<bss_words l. a \<noteq> word_at (bss_at l) i" "\<forall>i<rwdata_words l. a \<noteq> word_at (rwdata_at l) i"
      "\<forall>i<fr_depth fr. a \<noteq> word_at (0x20000 - 4 * fr_depth fr) i"
      using a o assms(2) by (auto simp: unat_word_at)
    then show ?thesis using un by blast
  qed
  moreover have "m (word_at (rwdata_at l) i) = c_mem c (word_at (stored_at l) i)" if "i < tdata_words l" for i
    using ld that w by simp
  moreover have "crt0_csrs board_crt0 (linker_syms l) k MTVEC = of_nat (trap_at l)" "crt0_csrs board_crt0 (linker_syms l) k MIE = 0"
    "crt0_csrs board_crt0 (linker_syms l) k MSTATUS AND NIOSV_MSTATUS_MIE_MASK = 0" for k
    by (simp_all add: linker_syms_def crt0_csrs_def board_crt0_def NIOSV_MSTATUS_MIE_MASK_def and.assoc)
  ultimately show ?thesis
    using z td unfolding r by (simp add: linker_syms_def)
qed

text \<open>
  A program with one word of initial thread data, one of \<open>.tbss\<close>, two of other data and two of \<open>.bss\<close>: \<open>.rwdata\<close> runs at 0x400 and
  is stored at 0x414, \<open>.bss\<close> is at 0x428. The frames take 16 words.
\<close>

definition sample_layout :: layout where
  "sample_layout = \<lparr>exceptions_at = 0x20, exceptions_words = 0x48, text_words = 0xA0, rodata_words = 0x10,
     tdata_words = 1, tbss_words = 1, data_words = 2, bss_words = 2, sdata_at = 0x414, trap_at = 0x20\<rparr>"

theorem start_prepares_memory_witness:
  "\<exists>c'. crt0_start board_crt0 (linker_syms sample_layout) (rwdata_syms sample_layout) (exceptions_syms sample_layout)
      (rodata_syms sample_layout) \<lparr>fr_depth = 16, fr_words = (\<lambda>_. 7)\<rparr> \<lparr>c_regs = (\<lambda>_. 0), c_csrs = (\<lambda>_. 8), c_mem = (\<lambda>a. a)\<rparr> = Some c'
    \<and> c_mem c' 0x400 = 0x414 \<and> c_mem c' 0x404 = 0 \<and> c_mem c' 0x408 = 0x414 \<and> c_mem c' 0x40C = 0x420 \<and> c_mem c' 0x42C = 0
    \<and> c_mem c' 0x418 = 0x418 \<and> c_regs c' SP = 0x20000"
proof -
  let ?l = sample_layout
  have v: "rwdata_at ?l = 0x400" "tbss_at ?l = 0x404" "source_at ?l = 0x408" "stored_at ?l = 0x414" "bss_at ?l = 0x428" "end_at ?l = 0x430"
    "tdata_words ?l = 1" "tbss_words ?l = 1" "data_words ?l = 2" "bss_words ?l = 2"
    by (simp_all add: layout_defs sample_layout_def)
  let ?f = "\<lparr>fr_depth = 16, fr_words = (\<lambda>_. 7)\<rparr>" and ?c = "\<lparr>c_regs = (\<lambda>_. 0), c_csrs = (\<lambda>_. 8), c_mem = (\<lambda>a. a)\<rparr> :: crt0_state"
  have "bss_words ?l \<noteq> 0" "end_at ?l + 4 * fr_depth ?f \<le> 0x20000" by (simp_all add: v)
  from start_prepares_memory[OF this, of ?c] obtain c' where
    c': "crt0_start board_crt0 (linker_syms ?l) (rwdata_syms ?l) (exceptions_syms ?l) (rodata_syms ?l) ?f ?c = Some c'" "c_regs c' SP = 0x20000"
    and m: "\<forall>i<2. c_mem c' (word_at 0x428 i) = 0" "c_mem c' (word_at 0x404 0) = 0" "c_mem c' (word_at 0x400 0) = word_at 0x414 0"
      "c_mem c' (word_at 0x408 0) = word_at 0x414 0" "\<forall>i<2. c_mem c' (word_at 0x408 (1 + i)) = word_at 0x414 (Suc (Suc (Suc i)))"
      "\<forall>a. 0x414 \<le> unat a \<and> unat a < 0x428 \<longrightarrow> c_mem c' a = a"
    unfolding v by auto
  show ?thesis
    using c' m(1)[rule_format, of 1] m(2-4) m(5)[rule_format, of 0] m(6)[rule_format, of "0x418"] by (auto simp: word_at_def)
qed

text \<open>The loop of \<open>.bss\<close> does not ask whether there is anything to clear, as the one of \<open>.tbss\<close> does.\<close>

lemma empty_bss_clears_a_word:
  assumes "fst (sym_bss s) = snd (sym_bss s)" "unat (fst (sym_bss s)) + 4 < 2 ^ 32" "\<not> sim_optimize cfg"
  shows "clear_bss cfg s m = Some (m(fst (sym_bss s) := 0))"
proof -
  have "\<not> fst (sym_bss s) + 4 < fst (sym_bss s)"
    using assms(2) by (simp add: word_less_nat_alt unat_word_ariths)
  then show ?thesis using assms(1,3) by (simp add: clear_bss_def) (subst zero_loop.simps, simp)
qed

end
