(* ===== verification/McountEntry.thy ===== *)
theory McountEntry
  imports Asm
begin

text \<open>
  The registers in the profiler's entry (\<open>HAL/src/alt_mcount.S\<close>), which the compiler puts before every function:
  the call of \<open>__mcount_record\<close> for an arc that is seen for the first time. The search that leads there is in
  \<open>Profile\<close>.
\<close>

text \<open>The call of \<open>__mcount_record\<close> is the parameter \<open>call\<close>; \<open>jal\<close> leaves its return address in \<open>ra\<close>.\<close>

definition mcount_args :: "'s cpu \<Rightarrow> 's cpu" where
  "mcount_args c = exec ([Addi SP SP (- 20), Sw RA 0 SP, Sw A0 4 SP, Sw A1 8 SP, Sw A2 12 SP, Sw A3 16 SP]
     @ [Mv A1 A0, Mv A0 RA, Mv A2 T3, Mv A3 T2]) c"

definition mcount_return :: "'s cpu \<Rightarrow> 's cpu" where
  "mcount_return c = exec [Lw RA 0 SP, Lw A0 4 SP, Lw A1 8 SP, Lw A2 12 SP, Lw A3 16 SP, Addi SP SP 20] c"

definition mcount_new_arc :: "('s cpu \<Rightarrow> 's cpu option) \<Rightarrow> 's cpu \<Rightarrow> 's cpu option" where
  "mcount_new_arc call c = map_option mcount_return (call (mcount_args c))"

text \<open>What every compiled function keeps.\<close>

definition abi_call :: "u32 set \<Rightarrow> nat \<Rightarrow> ('s cpu \<Rightarrow> 's cpu option) \<Rightarrow> bool" where
  "abi_call stk depth call \<longleftrightarrow>
     (\<forall>c c'. call c = Some c' \<longrightarrow> (\<forall>r. callee_saved r \<longrightarrow> regs c' r = regs c r)
        \<and> (\<forall>x\<in>stk. x \<notin> span (regs c SP - of_nat depth) depth \<longrightarrow> ram c' x = ram c x))"

definition mcount_slots :: slots where
  "mcount_slots = zip [0..<5] [RA, A0, A1, A2, A3]"

lemma mcount_slots_ok: "slots_ok 5 mcount_slots"
  by (simp add: mcount_slots_def slots_ok_def upt_rec)

lemma mcount_args_frame:
  "\<exists>m. ram (mcount_args c) = m \<and> sys (mcount_args c) = sys c
    \<and> (\<forall>r. r \<notin> {SP, A0, A1, A2, A3} \<longrightarrow> regs (mcount_args c) r = regs c r) \<and> regs (mcount_args c) SP = regs c SP - 20
    \<and> regs (mcount_args c) A0 = regs c RA \<and> regs (mcount_args c) A1 = regs c A0
    \<and> (\<forall>(i, r)\<in>set mcount_slots. load_32 m (regs c SP - 20 + 4 * of_nat i) = regs c r)
    \<and> (\<forall>x. x \<notin> span (regs c SP - 20) 20 \<longrightarrow> m x = ram c x)"
proof -
  let ?c = "set_reg SP (regs c SP - 20) c"
  obtain m where m: "exec (sw_all mcount_slots) ?c = ?c\<lparr>ram := m\<rparr>"
    "\<forall>(i, r)\<in>set mcount_slots. load_32 m (regs ?c SP + 4 * of_nat i) = regs ?c r"
    "\<forall>x. x \<notin> span (regs ?c SP) (4 * 5) \<longrightarrow> m x = ram ?c x"
    using exec_sw_all[OF mcount_slots_ok, of ?c] by auto
  have s: "sw_all mcount_slots = [Sw RA 0 SP, Sw A0 4 SP, Sw A1 8 SP, Sw A2 12 SP, Sw A3 16 SP]"
    by (simp add: sw_all_def mcount_slots_def upt_rec)
  have "mcount_args c = exec [Mv A1 A0, Mv A0 RA, Mv A2 T3, Mv A3 T2] (exec (sw_all mcount_slots) ?c)"
    by (simp add: mcount_args_def s)
  then have a: "mcount_args c = exec [Mv A1 A0, Mv A0 RA, Mv A2 T3, Mv A3 T2] (?c\<lparr>ram := m\<rparr>)" by (simp only: m(1))
  have "SP \<notin> snd ` set mcount_slots" by (simp add: mcount_slots_def upt_rec)
  then have "\<forall>(i, r)\<in>set mcount_slots. load_32 m (regs c SP - 20 + 4 * of_nat i) = regs c r"
    using m(2) by (force simp: set_reg_def)
  then show ?thesis using m(3) by (intro exI[of _ m]) (simp add: a set_reg_def)
qed

text \<open>
  The return address, the stack pointer, the first four arguments and what functions keep are restored: so does
  the function that is profiled find them.
\<close>

lemma mcount_restores:
  assumes "abi_call stk depth call" "mcount_new_arc call c = Some c'" "depth + 20 < 2 ^ 32" "span (regs c SP - 20) 20 \<subseteq> stk"
    and "callee_saved r \<or> r \<in> {RA, A0, A1, A2, A3}"
  shows "regs c' r = regs c r"
proof -
  let ?s = "regs c SP - 20"
  obtain c1 where c1: "call (mcount_args c) = Some c1" "c' = mcount_return c1" using assms(2) by (auto simp: mcount_new_arc_def)
  obtain m where m: "ram (mcount_args c) = m" "\<forall>r. r \<notin> {SP, A0, A1, A2, A3} \<longrightarrow> regs (mcount_args c) r = regs c r"
    "regs (mcount_args c) SP = ?s" "\<forall>(i, r)\<in>set mcount_slots. load_32 m (?s + 4 * of_nat i) = regs c r"
    using mcount_args_frame[of c] by blast
  have k: "regs c1 r = regs (mcount_args c) r" if "callee_saved r" for r
    using assms(1) c1(1) that unfolding abi_call_def by blast
  have kr: "ram c1 x = m x" if "x \<in> stk" "x \<notin> span (?s - of_nat depth) depth" for x
    using assms(1) c1(1) that unfolding abi_call_def m(1)[symmetric] m(3)[symmetric] by blast
  have sp1: "regs c1 SP = ?s" using k[of SP] m(3) by (simp add: callee_saved_def)
  have ap: "span (?s - of_nat depth) depth \<inter> span ?s 20 = {}"
    using span_apart[of 0 depth depth 20 "depth + 20" "?s - of_nat depth"] assms(3) by simp
  obtain g where g: "exec (lw_all mcount_slots) c1 = c1\<lparr>regs := g\<rparr>"
    "\<forall>(i, r)\<in>set mcount_slots. g r = load_32 (ram c1) (?s + 4 * of_nat i)" "\<forall>r. r \<notin> snd ` set mcount_slots \<longrightarrow> g r = regs c1 r"
    using exec_lw_all[OF mcount_slots_ok, of c1] unfolding sp1 by blast
  have l: "lw_all mcount_slots = [Lw RA 0 SP, Lw A0 4 SP, Lw A1 8 SP, Lw A2 12 SP, Lw A3 16 SP]"
    by (simp add: lw_all_def mcount_slots_def upt_rec)
  have "c' = exec1 (Addi SP SP 20) (exec (lw_all mcount_slots) c1)" unfolding l c1(2) mcount_return_def exec_simps ..
  then have c': "c' = set_reg SP (g SP + 20) (c1\<lparr>regs := g\<rparr>)" unfolding g(1) by simp
  have sl: "snd ` set mcount_slots = {RA, A0, A1, A2, A3}" by (simp add: mcount_slots_def upt_rec)
  have gs: "g r = regs c r" if r: "r \<in> {RA, A0, A1, A2, A3}" for r
  proof -
    obtain i where i: "(i, r) \<in> set mcount_slots" using r unfolding sl[symmetric] by force
    then have "i < 5" using mcount_slots_ok by (auto simp: slots_ok_def list_all_iff)
    then have "span (?s + 4 * of_nat i) 4 \<subseteq> span ?s 20" using slot_inside[of i 5 ?s] by simp
    then have "load_32 (ram c1) (?s + 4 * of_nat i) = load_32 m (?s + 4 * of_nat i)"
      using kr ap assms(4) by (intro load_32_inside) blast
    then show ?thesis using bspec[OF g(2) i] bspec[OF m(4) i] by simp
  qed
  have "g SP = ?s" using g(3) sp1 by (simp add: sl)
  moreover have "g r = regs c r" if q: "callee_saved r" "r \<noteq> SP" for r
  proof -
    have n: "r \<notin> {RA, A0, A1, A2, A3}" using q(1) by (cases r) (simp_all add: callee_saved_def)
    then have "g r = regs c1 r" using g(3) unfolding sl by blast
    also have "\<dots> = regs (mcount_args c) r" by (rule k[OF q(1)])
    also have "\<dots> = regs c r" using m(2) n q(2) by blast
    finally show ?thesis .
  qed
  ultimately show ?thesis using assms(5) gs by (auto simp: c' set_reg_def)
qed

text \<open>
  The other registers that carry arguments are not saved: with a \<open>__mcount_record\<close> that uses \<open>a4\<close>, as the calling
  convention lets it, the function that is profiled loses its fifth argument.
\<close>

definition clobber :: "'s cpu \<Rightarrow> 's cpu option" where
  "clobber c = Some (set_reg A4 0 c)"

lemma mcount_loses_argument:
  assumes "regs c A4 \<noteq> 0"
  shows "abi_call stk depth clobber \<and> (\<exists>c'. mcount_new_arc clobber c = Some c' \<and> regs c' A4 \<noteq> regs c A4)"
proof -
  have "abi_call stk depth clobber" by (auto simp: abi_call_def clobber_def set_reg_def callee_saved_def)
  moreover have "regs (mcount_return (set_reg A4 0 (mcount_args c))) A4 = 0"
    by (simp add: mcount_return_def set_reg_def)
  ultimately show ?thesis using assms by (simp add: mcount_new_arc_def clobber_def)
qed

end
