(* ===== verification/Channels.thy ===== *)
theory Channels
  imports DevRegistry
begin

text \<open>
  The application's side of DMA channels and flash devices (\<open>HAL/inc/sys/alt_dma.h\<close>, \<open>alt_dma_dev.h\<close>, \<open>alt_flash.h\<close>,
  \<open>alt_flash_dev.h\<close>). No driver of the repository provides one: the functions of a device are a
  parameter, given for its address, and the calls are what the headers make of them.
\<close>

section \<open>DMA channels\<close>

record 's txchan_dev =
  tx_space :: "u32 \<Rightarrow> 's \<Rightarrow> int \<times> 's"
  tx_send :: "u32 \<Rightarrow> u32 \<Rightarrow> u32 \<Rightarrow> u32 \<Rightarrow> u32 \<Rightarrow> 's \<Rightarrow> int \<times> 's"
  tx_ioctl :: "u32 \<Rightarrow> int \<Rightarrow> u32 \<Rightarrow> 's \<Rightarrow> int \<times> 's"

record 's rxchan_dev =
  rx_depth :: u32
  rx_prepare :: "u32 \<Rightarrow> u32 \<Rightarrow> u32 \<Rightarrow> u32 \<Rightarrow> u32 \<Rightarrow> 's \<Rightarrow> int \<times> 's"
  rx_ioctl :: "u32 \<Rightarrow> int \<Rightarrow> u32 \<Rightarrow> 's \<Rightarrow> int \<times> 's"

definition alt_dma_txchan_close :: "u32 \<Rightarrow> int" where
  "alt_dma_txchan_close dma = 0"

definition alt_dma_txchan_send ::
  "(u32 \<Rightarrow> 's txchan_dev) \<Rightarrow> u32 \<Rightarrow> u32 \<Rightarrow> u32 \<Rightarrow> u32 \<Rightarrow> u32 \<Rightarrow> 's \<Rightarrow> int \<times> 's" where
  "alt_dma_txchan_send devs dma from0 len done0 handle s =
     (if dma \<noteq> 0 then tx_send (devs dma) dma from0 len done0 handle s else (- ENODEV, s))"

definition alt_dma_txchan_space :: "(u32 \<Rightarrow> 's txchan_dev) \<Rightarrow> u32 \<Rightarrow> 's \<Rightarrow> int \<times> 's" where
  "alt_dma_txchan_space devs dma s = (if dma \<noteq> 0 then tx_space (devs dma) dma s else (- ENODEV, s))"

definition alt_dma_txchan_ioctl :: "(u32 \<Rightarrow> 's txchan_dev) \<Rightarrow> u32 \<Rightarrow> int \<Rightarrow> u32 \<Rightarrow> 's \<Rightarrow> int \<times> 's" where
  "alt_dma_txchan_ioctl devs dma req arg s = (if dma \<noteq> 0 then tx_ioctl (devs dma) dma req arg s else (- ENODEV, s))"

definition alt_dma_rxchan_close :: "u32 \<Rightarrow> int" where
  "alt_dma_rxchan_close dma = 0"

definition alt_dma_rxchan_prepare ::
  "(u32 \<Rightarrow> 's rxchan_dev) \<Rightarrow> u32 \<Rightarrow> u32 \<Rightarrow> u32 \<Rightarrow> u32 \<Rightarrow> u32 \<Rightarrow> 's \<Rightarrow> int \<times> 's" where
  "alt_dma_rxchan_prepare devs dma data len done0 handle s =
     (if dma \<noteq> 0 then rx_prepare (devs dma) dma data len done0 handle s else (- ENODEV, s))"

definition alt_dma_rxchan_ioctl :: "(u32 \<Rightarrow> 's rxchan_dev) \<Rightarrow> u32 \<Rightarrow> int \<Rightarrow> u32 \<Rightarrow> 's \<Rightarrow> int \<times> 's" where
  "alt_dma_rxchan_ioctl devs dma req arg s = (if dma \<noteq> 0 then rx_ioctl (devs dma) dma req arg s else (- ENODEV, s))"

text \<open>This one does not look for \<open>NULL\<close>: what it reads then is not a channel's depth, \<open>None\<close>.\<close>

definition alt_dma_rxchan_depth :: "(u32 \<Rightarrow> 's rxchan_dev) \<Rightarrow> u32 \<Rightarrow> u32 option" where
  "alt_dma_rxchan_depth devs dma = (if dma \<noteq> 0 then Some (rx_depth (devs dma)) else None)"

text \<open>The generic requests; the names of the direction that is used alone are the old names of the other.\<close>

definition ALT_DMA_TX_STREAM_ON :: int where "ALT_DMA_TX_STREAM_ON = 0x1"

definition ALT_DMA_TX_STREAM_OFF :: int where "ALT_DMA_TX_STREAM_OFF = 0x2"

definition ALT_DMA_RX_STREAM_ON :: int where "ALT_DMA_RX_STREAM_ON = 0x3"

definition ALT_DMA_RX_STREAM_OFF :: int where "ALT_DMA_RX_STREAM_OFF = 0x4"

definition ALT_DMA_RX_ONLY_ON :: int where "ALT_DMA_RX_ONLY_ON = ALT_DMA_TX_STREAM_ON"

definition ALT_DMA_RX_ONLY_OFF :: int where "ALT_DMA_RX_ONLY_OFF = ALT_DMA_TX_STREAM_OFF"

definition ALT_DMA_TX_ONLY_ON :: int where "ALT_DMA_TX_ONLY_ON = ALT_DMA_RX_STREAM_ON"

definition ALT_DMA_TX_ONLY_OFF :: int where "ALT_DMA_TX_ONLY_OFF = ALT_DMA_RX_STREAM_OFF"

section \<open>Flash devices\<close>

record flash_region =
  fr_offset :: int
  fr_region_size :: int
  fr_number_of_blocks :: int
  fr_block_size :: int

text \<open>Offsets and lengths are C ints; the regions are those of \<open>region_info\<close>, at most eight.\<close>

record 's flash_dev =
  fl_write :: "u32 \<Rightarrow> int \<Rightarrow> u32 \<Rightarrow> int \<Rightarrow> 's \<Rightarrow> int \<times> 's"
  fl_read :: "u32 \<Rightarrow> int \<Rightarrow> u32 \<Rightarrow> int \<Rightarrow> 's \<Rightarrow> int \<times> 's"
  fl_get_info :: "u32 \<Rightarrow> 's \<Rightarrow> int \<times> flash_region list"
  fl_erase_block :: "u32 \<Rightarrow> int \<Rightarrow> 's \<Rightarrow> int \<times> 's"
  fl_write_block :: "u32 \<Rightarrow> int \<Rightarrow> int \<Rightarrow> u32 \<Rightarrow> int \<Rightarrow> 's \<Rightarrow> int \<times> 's"
  fl_lock :: "u32 \<Rightarrow> u32 \<Rightarrow> 's \<Rightarrow> int \<times> 's"

definition alt_lock_flash :: "(u32 \<Rightarrow> 's flash_dev) \<Rightarrow> u32 \<Rightarrow> u32 \<Rightarrow> 's \<Rightarrow> int \<times> 's" where
  "alt_lock_flash devs fd sectors_to_lock s = fl_lock (devs fd) fd sectors_to_lock s"

definition alt_write_flash :: "(u32 \<Rightarrow> 's flash_dev) \<Rightarrow> u32 \<Rightarrow> int \<Rightarrow> u32 \<Rightarrow> int \<Rightarrow> 's \<Rightarrow> int \<times> 's" where
  "alt_write_flash devs fd offset src_addr len s = fl_write (devs fd) fd offset src_addr len s"

definition alt_read_flash :: "(u32 \<Rightarrow> 's flash_dev) \<Rightarrow> u32 \<Rightarrow> int \<Rightarrow> u32 \<Rightarrow> int \<Rightarrow> 's \<Rightarrow> int \<times> 's" where
  "alt_read_flash devs fd offset dest_addr len s = fl_read (devs fd) fd offset dest_addr len s"

definition alt_get_flash_info :: "(u32 \<Rightarrow> 's flash_dev) \<Rightarrow> u32 \<Rightarrow> 's \<Rightarrow> int \<times> flash_region list" where
  "alt_get_flash_info devs fd s = fl_get_info (devs fd) fd s"

definition alt_erase_flash_block :: "(u32 \<Rightarrow> 's flash_dev) \<Rightarrow> u32 \<Rightarrow> int \<Rightarrow> int \<Rightarrow> 's \<Rightarrow> int \<times> 's" where
  "alt_erase_flash_block devs fd offset len s = fl_erase_block (devs fd) fd offset s"

definition alt_write_flash_block :: "(u32 \<Rightarrow> 's flash_dev) \<Rightarrow> u32 \<Rightarrow> int \<Rightarrow> int \<Rightarrow> u32 \<Rightarrow> int \<Rightarrow> 's \<Rightarrow> int \<times> 's" where
  "alt_write_flash_block devs fd block_offset data_offset data len s = fl_write_block (devs fd) fd block_offset data_offset data len s"

section \<open>Sending by name\<close>

lemma insert_all_links:
  assumes "named s ds" "0 \<notin> set ds"
  shows "fold (\<lambda>d s. snd (alt_dev_llist_insert d l s)) ds s = s\<lparr>links := fold (alt_llist_insert l) ds (links s)\<rparr>"
  using assms
proof (induction ds arbitrary: s)
  case (Cons d ds)
  then have "alt_dev_llist_insert d l s = (0, s\<lparr>links := alt_llist_insert l d (links s)\<rparr>)"
    by (auto simp: alt_dev_llist_insert_def)
  then show ?case using Cons.IH[of "s\<lparr>links := alt_llist_insert l d (links s)\<rparr>"] Cons.prems by simp
qed simp

text \<open>
  After any registrations of transmit channels, opening by name and sending on what was opened hands the
  request, with all of it unchanged, to the send function of the channel registered last under that name and to no
  other; if there is none, the open sets \<open>errno\<close> to \<open>ENODEV\<close>, and the send on the \<open>NULL\<close> it returned
  reports the same without calling a driver.
\<close>

theorem dma_send_by_name:
  assumes "ring_list (links s) ALT_DMA_TXCHAN_LIST xs" "named s (ds @ xs)" "0 \<notin> set ds"
    and "distinct (rev ds @ ALT_DMA_TXCHAN_LIST # xs)" "nul_free name" "length name \<le> 1000"
    and "s1 = fold (\<lambda>d s. snd (alt_dma_txchan_reg d s)) ds s" "0 \<notin> set xs"
  shows "\<exists>chan t. alt_dma_txchan_open name s1 = Some (chan, t)
    \<and> (case find (\<lambda>d. dev_names s d = Some name) (rev ds @ xs) of
         None \<Rightarrow> chan = 0 \<and> t = s1\<lparr>errno := ENODEV\<rparr> \<and> alt_dma_txchan_send devs chan from0 len done0 handle t = (- ENODEV, t)
       | Some d \<Rightarrow> chan = d \<and> t = s1
           \<and> alt_dma_txchan_send devs chan from0 len done0 handle t = tx_send (devs d) d from0 len done0 handle t)"
proof -
  let ?s = "s\<lparr>links := fold (alt_llist_insert ALT_DMA_TXCHAN_LIST) ds (links s)\<rparr>"
  let ?f = "find (\<lambda>d. dev_names s d = Some name) (rev ds @ xs)"
  have s1: "s1 = ?s"
    using insert_all_links[of s ds ALT_DMA_TXCHAN_LIST] assms(2,3,7) by (simp add: alt_dma_txchan_reg_def)
  have "ring_list (links ?s) ALT_DMA_TXCHAN_LIST (rev ds @ xs)" using ll.ins_all[OF assms(1,4)] by simp
  moreover have "named ?s (rev ds @ xs)" using assms(2) by (simp add: named_def)
  ultimately have f: "alt_find_dev name ALT_DMA_TXCHAN_LIST s1 = Some (case ?f of None \<Rightarrow> 0 | Some d \<Rightarrow> d)"
    using find_dev_ring[of ?s ALT_DMA_TXCHAN_LIST "rev ds @ xs" name] assms(5,6) unfolding s1
    by (simp add: MAX_STRING_LENGTH_def layout_defs)
  show ?thesis
  proof (cases ?f)
    case None
    then show ?thesis using f by (simp add: alt_dma_txchan_open_def alt_dma_txchan_send_def)
  next
    case (Some d)
    then have "d \<in> set (rev ds @ xs)" by (metis find_Some_iff nth_mem)
    then have "d \<noteq> 0" using assms(3,8) by auto
    then show ?thesis using f Some by (simp add: alt_dma_txchan_open_def alt_dma_txchan_send_def)
  qed
qed

text \<open>One channel, whose driver counts its requests in \<open>errno\<close>.\<close>

definition dma_boot :: hal_state where
  "dma_boot = \<lparr>links = ALT_LLIST_HEAD ALT_DMA_TXCHAN_LIST (\<lambda>d. ALT_LLIST_ENTRY),
     dev_names = (\<lambda>d. if d = 0x3000 then Some ''/dev/dma_0'' else None), errno = 0\<rparr>"

definition dma_dev :: "u32 \<Rightarrow> hal_state txchan_dev" where
  "dma_dev d = \<lparr>tx_space = (\<lambda>c s. (4, s)), tx_send = (\<lambda>c f n dn h s. (0, s\<lparr>errno := uint n\<rparr>)), tx_ioctl = (\<lambda>c r a s. (- ENOTTY, s))\<rparr>"

theorem dma_send_by_name_witness:
  "\<exists>chan t. alt_dma_txchan_open ''/dev/dma_0'' (snd (alt_dma_txchan_reg 0x3000 dma_boot)) = Some (chan, t)
    \<and> fst (alt_dma_txchan_send dma_dev chan 0x100 16 0 0 t) = 0"
proof -
  have l: "ring_list (links dma_boot) ALT_DMA_TXCHAN_LIST []"
    by (simp add: dma_boot_def ring_list_def ALT_LLIST_HEAD_def)
  have n: "named dma_boot ([0x3000] @ [])" by (simp add: dma_boot_def nul_free_def)
  have d: "distinct (rev [0x3000] @ ALT_DMA_TXCHAN_LIST # [])" "(0 :: u32) \<notin> set [0x3000]" "nul_free ''/dev/dma_0''"
    "length ''/dev/dma_0'' \<le> 1000" "(0 :: u32) \<notin> set []"
    by (simp_all add: layout_defs nul_free_def)
  have f: "find (\<lambda>d. dev_names dma_boot d = Some ''/dev/dma_0'') (rev [0x3000] @ []) = Some 0x3000"
    by (simp add: dma_boot_def)
  from dma_send_by_name[OF l n d(2,1,3,4) refl d(5)]
  obtain chan t where c: "alt_dma_txchan_open ''/dev/dma_0'' (snd (alt_dma_txchan_reg 0x3000 dma_boot)) = Some (chan, t)"
    "alt_dma_txchan_send dma_dev chan 0x100 16 0 0 t = tx_send (dma_dev 0x3000) 0x3000 0x100 16 0 0 t"
    unfolding f by auto
  then show ?thesis by (simp add: dma_dev_def)
qed

end
