(* ===== verification/FpgaMsg.thy ===== *)
theory FpgaMsg
  imports HalPrelude
begin

text \<open>
  Messages and exceptions of the FPGA interface library (\<open>HAL/src/intel_fpga_api_cmn_msg.c\<close>): two
  functions that can be replaced, and the default ones. \<open>vprintf\<close> of the C library is a parameter that
  gives the text and the result. A call that ends the program is \<open>Inl\<close> its exit code; every result has
  the text printed.
\<close>

section \<open>State and build options\<close>

datatype fpga_msg_type = FPGA_MSG_PRINTF_INFO | FPGA_MSG_PRINTF_WARNING | FPGA_MSG_PRINTF_ERROR | FPGA_MSG_PRINTF_DEBUG | FPGA_MSG_invalid

text \<open>\<open>INTEL_FPGA_MSG_PRINTF_ENABLE\<close> and its relatives, all defined as 1 by \<open>intel_fpga_api_cmn_msg.h\<close>.\<close>

record msg_config =
  msg_enable :: bool
  msg_info :: bool
  msg_warning :: bool
  msg_error :: bool
  msg_debug :: bool

definition board_msg_config :: msg_config where
  "board_msg_config = \<lparr>msg_enable = True, msg_info = True, msg_warning = True, msg_error = True, msg_debug = True\<rparr>"

type_synonym 'a vprintf = "string \<Rightarrow> 'a \<Rightarrow> string \<times> int"

type_synonym 'a msg_printf = "fpga_msg_type \<Rightarrow> string \<Rightarrow> 'a \<Rightarrow> (int + int) \<times> string"

type_synonym 'a exception_handler = "string \<Rightarrow> string \<Rightarrow> int \<Rightarrow> string \<Rightarrow> 'a \<Rightarrow> (int + unit) \<times> string"

record 'a msg_state =
  g_printf :: "'a msg_printf"
  g_exception_handler :: "'a exception_handler"
  g_common_show_dbg_msg :: int

section \<open>The default functions\<close>

text \<open>\<open>show\<close> prints a number in decimal, for the line of the exception.\<close>

definition default_exception_handler :: "(int \<Rightarrow> string) \<Rightarrow> 'a vprintf \<Rightarrow> 'a exception_handler" where
  "default_exception_handler dec vp func file lineno format args =
     (Inl 1, ''Exception occured in '' @ func @ ''() at line '' @ dec lineno @ '' in '' @ file @ '' due to ''
        @ fst (vp format args) @ ''\<newline>\<newline>Application is terminated.\<newline>'')"

definition labelled :: "bool \<Rightarrow> string \<Rightarrow> string \<times> int \<Rightarrow> (int + int) \<times> string" where
  "labelled enabled label r = (if enabled then (Inr (snd r), label @ fst r @ ''\<newline>'') else (Inr 0, []))"

definition fpga_throw_runtime_exception ::
  "'a msg_state \<Rightarrow> string \<Rightarrow> string \<Rightarrow> int \<Rightarrow> string \<Rightarrow> 'a \<Rightarrow> (int + unit) \<times> string" where
  "fpga_throw_runtime_exception s func file lineno format args = g_exception_handler s func file lineno format args"

text \<open>\<open>file\<close> is \<open>__FILE__\<close> and \<open>no\<close> the empty list of arguments.\<close>

definition default_printf :: "msg_config \<Rightarrow> 'a vprintf \<Rightarrow> string \<Rightarrow> 'a \<Rightarrow> 'a msg_state \<Rightarrow> 'a msg_printf" where
  "default_printf cfg vp file no s type format args =
     (if msg_enable cfg then
        (case type of
           FPGA_MSG_PRINTF_INFO \<Rightarrow> labelled (msg_info cfg) ''INFO: '' (vp format args)
         | FPGA_MSG_PRINTF_WARNING \<Rightarrow> labelled (msg_warning cfg) ''WARNING: '' (vp format args)
         | FPGA_MSG_PRINTF_ERROR \<Rightarrow> labelled (msg_error cfg) ''ERROR: '' (vp format args)
         | FPGA_MSG_PRINTF_DEBUG \<Rightarrow> labelled (msg_debug cfg \<and> g_common_show_dbg_msg s \<noteq> 0) ''DEBUG: '' (vp format args)
         | FPGA_MSG_invalid \<Rightarrow>
             (case fpga_throw_runtime_exception s ''s_common_fpga_platform_default_printf'' file 118
                     ''invalid message print type is specified.'' no of
                (Inl code, out) \<Rightarrow> (Inl code, out)
              | (Inr u, out) \<Rightarrow> (Inr 0, out)))
      else (Inr 0, []))"

section \<open>The interface\<close>

definition fpga_msg_printf :: "'a msg_state \<Rightarrow> 'a msg_printf" where
  "fpga_msg_printf s type format args = g_printf s type format args"

definition fpga_platform_register_printf :: "'a msg_printf \<Rightarrow> 'a msg_state \<Rightarrow> 'a msg_state" where
  "fpga_platform_register_printf f s = s\<lparr>g_printf := f\<rparr>"

definition fpga_platform_register_runtime_exception_handler :: "'a exception_handler \<Rightarrow> 'a msg_state \<Rightarrow> 'a msg_state" where
  "fpga_platform_register_runtime_exception_handler f s = s\<lparr>g_exception_handler := f\<rparr>"

text \<open>Every message is printed with its label, but for those of debugging, which must be asked for.\<close>

lemma board_messages:
  "default_printf board_msg_config vp file no s FPGA_MSG_PRINTF_ERROR format args
     = (Inr (snd (vp format args)), ''ERROR: '' @ fst (vp format args) @ ''\<newline>'')"
  "g_common_show_dbg_msg s = 0 \<Longrightarrow> default_printf board_msg_config vp file no s FPGA_MSG_PRINTF_DEBUG format args = (Inr 0, [])"
  by (simp_all add: default_printf_def labelled_def board_msg_config_def)

lemma default_exception_exits: "fst (default_exception_handler dec vp func file lineno format args) = Inl 1"
  by (simp add: default_exception_handler_def)

text \<open>With the default functions a message of no known type ends the program.\<close>

lemma invalid_type_exits:
  "g_exception_handler s = default_exception_handler dec vp
    \<Longrightarrow> fst (default_printf board_msg_config vp file no s FPGA_MSG_invalid format args) = Inl 1"
  by (simp add: default_printf_def board_msg_config_def fpga_throw_runtime_exception_def default_exception_handler_def)

end
