(* ===== verification/DflPrint.thy ===== *)
theory DflPrint
  imports DflProps FpgaMsg
begin

text \<open>
  Printing the table of interfaces (\<open>common_dfl_print_interface\<close> and \<open>common_dfl_print_all_interfaces\<close> of
  \<open>HAL/src/intel_fpga_api_cmn_dfl.c\<close>) as messages of the library (\<open>FpgaMsg\<close>).
\<close>

section \<open>Messages\<close>

text \<open>A message with its numbers. Sending several stops at one that ends the program.\<close>

type_synonym dfl_msg = "fpga_msg_type \<times> string \<times> u64 list"

fun say :: "u64 list msg_state \<Rightarrow> dfl_msg list \<Rightarrow> (int + unit) \<times> string" where
  "say s [] = (Inr (), [])"
| "say s ((type, format, args) # ms) =
     (case fpga_msg_printf s type format args of
        (Inl code, out) \<Rightarrow> (Inl code, out)
      | (Inr n, out) \<Rightarrow> (case say s ms of (r, out1) \<Rightarrow> (r, out @ out1)))"

definition info_msg :: "string \<Rightarrow> u64 list \<Rightarrow> dfl_msg" where
  "info_msg format args = (FPGA_MSG_PRINTF_INFO, format, args)"

text \<open>
  The messages of one parameter; \<open>None\<close> is a read behind its data, or of data that was never
  allocated.
\<close>

definition data_messages :: "fpga_param \<Rightarrow> dfl_msg list option" where
  "data_messages p =
     (let n = unat (fp_size p) div 8
      in if n = 0 then Some []
         else (case fp_data p of
                 None \<Rightarrow> None
               | Some ws \<Rightarrow>
                   if n \<le> length ws
                   then Some (map (\<lambda>j. info_msg ''      64-bit Param Data[%d]: 0x%016llX'' [of_nat j, ws ! j]) [0..<n])
                   else None))"

definition param_messages :: "nat \<Rightarrow> fpga_param \<Rightarrow> dfl_msg list option" where
  "param_messages i p =
     map_option (\<lambda>ms. [info_msg ''      ------ Parameter %d ------   '' [of_nat i],
         info_msg ''      Version: %d'' [ucast (fp_version p)], info_msg ''      Param ID: %d'' [ucast (fp_id p)],
         info_msg ''      Param Data Size: %d'' [ucast (fp_size p)]] @ ms) (data_messages p)"

fun params_messages :: "nat \<Rightarrow> fpga_param list \<Rightarrow> dfl_msg list option" where
  "params_messages i [] = Some []"
| "params_messages i (p # ps) =
     (case param_messages i p of
        None \<Rightarrow> None
      | Some ms \<Rightarrow> map_option ((@) ms) (params_messages (Suc i) ps))"

definition interface_messages :: "(u64 \<Rightarrow> u64) \<Rightarrow> u32 \<Rightarrow> fpga_info \<Rightarrow> dfl_msg list option" where
  "interface_messages decoder index r =
     map_option (\<lambda>ms. [info_msg ''   ---------- Interface %d ----------'' [ucast index],
         info_msg ''   Base Address: 0x%llX'' [decoder (ucast (base_address r))],
         info_msg ''   128-bit GUID: 0x%016llX%016llX'' [guid_h r, guid_l r],
         info_msg ''   Instance ID: %d'' [ucast (instance_id r)], info_msg ''   Group ID: %d'' [ucast (group_id r)]] @ ms)
       (params_messages 0 (parameters r))"

definition print_messages :: "(u64 \<Rightarrow> u64) \<Rightarrow> u32 \<Rightarrow> 'a fpga_state_scheme \<Rightarrow> dfl_msg list option" where
  "print_messages decoder index s =
     (if unat index < v_size s then interface_messages decoder index (v_at s (unat index))
      else Some [(FPGA_MSG_PRINTF_ERROR, ''Please enter a valid interface index, acceptable index < %d'', [of_nat (v_size s)])])"

definition common_dfl_print_interface ::
  "u64 list msg_state \<Rightarrow> u32 \<Rightarrow> (u64 \<Rightarrow> u64) \<Rightarrow> 'a fpga_state_scheme \<Rightarrow> ((int + unit) \<times> string) option" where
  "common_dfl_print_interface m index decoder s = map_option (say m) (print_messages decoder index s)"

fun print_from :: "u64 list msg_state \<Rightarrow> u32 list \<Rightarrow> (u64 \<Rightarrow> u64) \<Rightarrow> 'a fpga_state_scheme \<Rightarrow> ((int + unit) \<times> string) option" where
  "print_from m [] decoder s = Some (Inr (), [])"
| "print_from m (i # is) decoder s =
     (case common_dfl_print_interface m i decoder s of
        None \<Rightarrow> None
      | Some (Inl code, out) \<Rightarrow> Some (Inl code, out)
      | Some (Inr u, out) \<Rightarrow> map_option (\<lambda>(r, out1). (r, out @ out1)) (print_from m is decoder s))"

definition common_dfl_print_all_interfaces ::
  "u64 list msg_state \<Rightarrow> (u64 \<Rightarrow> u64) \<Rightarrow> 'a fpga_state_scheme \<Rightarrow> ((int + unit) \<times> string) option" where
  "common_dfl_print_all_interfaces m decoder s = print_from m (map of_nat [0..<v_size s]) decoder s"

section \<open>Printing what a scan found\<close>

text \<open>Every parameter has the data its size says.\<close>

definition data_there :: "fpga_param \<Rightarrow> bool" where
  "data_there p \<longleftrightarrow> unat (fp_size p) div 8 = 0 \<or> (\<exists>ws. fp_data p = Some ws \<and> length ws = unat (fp_size p) div 8)"

lemma params_messages_ok:
  assumes "\<forall>p \<in> set ps. data_there p"
  shows "\<exists>ms. params_messages i ps = Some ms
    \<and> length ms = 4 * length ps + sum_list (map (\<lambda>p. unat (fp_size p) div 8) ps)"
  using assms
proof (induction ps arbitrary: i)
  case (Cons p ps)
  obtain ms where ms: "params_messages (Suc i) ps = Some ms"
    "length ms = 4 * length ps + sum_list (map (\<lambda>p. unat (fp_size p) div 8) ps)" using Cons by fastforce
  have "\<exists>ds. data_messages p = Some ds \<and> length ds = unat (fp_size p) div 8"
    using Cons.prems by (auto simp: data_there_def data_messages_def Let_def)
  then obtain ds where "param_messages i p = Some ds" "length ds = 4 + unat (fp_size p) div 8"
    by (auto simp: param_messages_def)
  then show ?case using ms by simp
qed simp

lemma data_there_params:
  fixes l :: dfl_list
  shows True and "\<forall>q \<in> set (blocks_params rom bs p). data_there q"
  by (induction l and bs arbitrary: and p) (auto simp: data_there_def param_of_def param_words_def zero_param_def)

lemma data_there_infos:
  "\<forall>r \<in> set (list_infos right rom l par k). \<forall>q \<in> set (parameters r). data_there q"
  "\<forall>r \<in> set (blocks_infos right rom bs f c). \<forall>q \<in> set (parameters r). data_there q"
  by (induction l and bs arbitrary: par k and f c)
     (auto simp: feature_info_def feature_params_def data_there_params(2) Let_def)

text \<open>The function behind the messages lets the program go on.\<close>

definition goes_on :: "u64 list msg_state \<Rightarrow> bool" where
  "goes_on m \<longleftrightarrow> (\<forall>type format args. \<exists>n out. g_printf m type format args = (Inr n, out))"

lemma say_goes_on: "goes_on m \<Longrightarrow> \<exists>out. say m ms = (Inr (), out)"
proof (induction ms)
  case (Cons c ms)
  obtain type format args where c: "c = (type, format, args)" by (metis prod_cases3)
  obtain n out where "g_printf m type format args = (Inr n, out)" using Cons.prems unfolding goes_on_def by blast
  then show ?case using Cons c by (auto simp: fpga_msg_printf_def)
qed simp

lemma print_from_ok:
  assumes "goes_on m" "\<forall>i \<in> set is. \<exists>ms. print_messages decoder i s = Some ms"
  shows "print_from m is decoder s = Some (Inr (), concat (map (\<lambda>i. snd (the (common_dfl_print_interface m i decoder s))) is))"
  using assms(2)
proof (induction "is")
  case (Cons i "is")
  obtain ms where ms: "print_messages decoder i s = Some ms" using Cons.prems by auto
  obtain out where "say m ms = (Inr (), out)" using say_goes_on[OF assms(1)] by blast
  then have "common_dfl_print_interface m i decoder s = Some (Inr (), out)" using ms by (simp add: common_dfl_print_interface_def)
  then show ?case using Cons by simp
qed simp

text \<open>
  C39: After a scan of a feature tree, printing all interfaces ends and reads nothing that is not there: for every
  interface of the table the five lines of its header, and for every parameter its four lines and one for each 64-bit word of
  its data; the whole output is these, interface after interface.
\<close>

theorem dfl_print_after_scan:
  assumes "\<forall>n. al n" "list_at rom l" "list_deep l \<le> 7" "list_one l" "st_top s = 0" "st_size s = 0"
    and "length (list_infos True rom l (- 1) 0) < 2 ^ 32" "goes_on m"
  shows "\<exists>s'. common_dfl_scan_multi_interfaces al rom (dfl_first l) s = Some (Inr s')
    \<and> common_dfl_print_all_interfaces m decoder s'
        = Some (Inr (), concat (map (\<lambda>i. snd (the (common_dfl_print_interface m (of_nat i) decoder s'))) [0..<v_size s']))
    \<and> (\<forall>i < v_size s'. \<exists>ms. print_messages decoder (of_nat i) s' = Some ms
        \<and> length ms = 5 + (let ps = parameters (list_infos True rom l (- 1) 0 ! i)
                            in 4 * length ps + sum_list (map (\<lambda>p. unat (fp_size p) div 8) ps)))"
proof -
  let ?t = "list_infos True rom l (- 1) 0"
  obtain s' where s': "common_dfl_scan_multi_interfaces al rom (dfl_first l) s = Some (Inr s')"
    "v_size s' = length ?t" "\<forall>i < v_size s'. v_at s' i = ?t ! i"
    using scan_ok[OF assms(1-3,5,6)] right_infos(1)[OF assms(4)] by auto
  have one: "\<exists>ms. print_messages decoder (of_nat i) s' = Some ms
        \<and> length ms = 5 + (let ps = parameters (?t ! i) in 4 * length ps + sum_list (map (\<lambda>p. unat (fp_size p) div 8) ps))"
    if "i < v_size s'" for i
  proof -
    have "\<forall>q \<in> set (parameters (?t ! i)). data_there q" using data_there_infos(1) that s'(2) by (metis nth_mem)
    from params_messages_ok[OF this, of 0] have "\<exists>ms. params_messages 0 (parameters (?t ! i)) = Some ms
      \<and> length ms = 4 * length (parameters (?t ! i)) + sum_list (map (\<lambda>p. unat (fp_size p) div 8) (parameters (?t ! i)))" .
    moreover have "unat (of_nat i :: u32) = i" using that s'(2) assms(7) by (intro unat_of_nat_32) simp
    ultimately show ?thesis using that s'(3) by (auto simp: print_messages_def interface_messages_def Let_def)
  qed
  have "common_dfl_print_all_interfaces m decoder s'
        = Some (Inr (), concat (map (\<lambda>i. snd (the (common_dfl_print_interface m (of_nat i) decoder s'))) [0..<v_size s']))"
    unfolding common_dfl_print_all_interfaces_def
    by (subst print_from_ok[OF assms(8)]) (use one in \<open>fastforce simp: comp_def\<close>)+
  then show ?thesis using s'(1) one by blast
qed

definition quiet :: "u64 list msg_state" where
  "quiet = \<lparr>g_printf = (\<lambda>type format args. (Inr 0, format)), g_exception_handler = (\<lambda>f n l fmt args. (Inr (), [])), g_common_show_dbg_msg = 0\<rparr>"

theorem dfl_print_after_scan_witness:
  "\<exists>s' out. common_dfl_scan_multi_interfaces (\<lambda>_. True) two_rom 0x100 dfl_boot = Some (Inr s')
    \<and> common_dfl_print_all_interfaces quiet id s' = Some (Inr (), out)"
proof -
  have t: "list_deep two_tree \<le> 7" "list_one two_tree" "dfl_first two_tree = 0x100" "st_top dfl_boot = 0" "st_size dfl_boot = 0"
    "length (list_infos True two_rom two_tree (- 1) 0) < 2 ^ 32" "\<forall>n. (\<lambda>_. True) n"
    by (simp_all add: two_tree_def dfl_boot_def)
  have "goes_on quiet" by (simp add: goes_on_def quiet_def)
  from dfl_print_after_scan[OF t(7) two_tree_at t(1,2,4,5,6) this, unfolded t(3), of id] show ?thesis by blast
qed

end
