(* ===== verification/DflRead.thy ===== *)
theory DflRead
  imports BusAccess DflWalk
begin

text \<open>
  The reads of the device feature list walker (\<open>HAL/inc/sys/intel_fpga_api_cmn_dfl.h\<close>): a 64-bit access, or two of
  32 bits on a bridge that has no wider one. They give the memory \<open>rom\<close> that \<open>DflWalk\<close> walks over.
\<close>

text \<open>A 64-bit load, low byte first.\<close>

definition load_64 :: "bus_mem \<Rightarrow> u32 \<Rightarrow> u64" where
  "load_64 m a =
     ucast (m a) OR push_bit 8 (ucast (m (a + 1))) OR push_bit 16 (ucast (m (a + 2))) OR push_bit 24 (ucast (m (a + 3)))
     OR push_bit 32 (ucast (m (a + 4))) OR push_bit 40 (ucast (m (a + 5)))
     OR push_bit 48 (ucast (m (a + 6))) OR push_bit 56 (ucast (m (a + 7)))"

text \<open>\<open>None\<close> is the exception for an address that is not a multiple of 4.\<close>

definition common_dfl_read_32 :: "bus_mem \<Rightarrow> u32 \<Rightarrow> u32 \<Rightarrow> u32 option" where
  "common_dfl_read_32 m begin_address offset =
     (if (begin_address + offset) AND 0x3 \<noteq> 0 then None else Some (load_32 m (begin_address + offset)))"

text \<open>\<open>emul\<close> is \<open>FPGA_PLATFORM_FORCE_64BIT_MMIO_EMULATION_WITH_32BIT\<close>.\<close>

definition common_dfl_read_64 :: "bool \<Rightarrow> bus_mem \<Rightarrow> u32 \<Rightarrow> u32 \<Rightarrow> u64 option" where
  "common_dfl_read_64 emul m begin_address offset =
     (if \<not> emul then Some (load_64 m (begin_address + offset))
      else Option.bind (common_dfl_read_32 m begin_address offset)
             (\<lambda>data. map_option (\<lambda>hi. ucast data OR push_bit 32 (ucast hi)) (common_dfl_read_32 m begin_address (offset + 4))))"

lemma bit_load_64_split:
  assumes "r < 8" "k < 8"
  shows "bit (load_64 m a) (8 * k + r) \<longleftrightarrow> bit (m (a + of_nat k)) r"
proof -
  have "k = 0 \<or> k = 1 \<or> k = 2 \<or> k = 3 \<or> k = 4 \<or> k = 5 \<or> k = 6 \<or> k = 7" using assms(2) by linarith
  then show ?thesis using assms(1) by (elim disjE) (simp_all add: load_64_def bit_simps no_bit_8)
qed

lemma bit_load_64: "n < 64 \<Longrightarrow> bit (load_64 m a) n \<longleftrightarrow> bit (m (a + of_nat (n div 8))) (n mod 8)"
  using bit_load_64_split[of "n mod 8" "n div 8" m a] by (simp add: less_mult_imp_div_less)

lemma bit_upper: "bit (push_bit 32 (ucast (x :: u32)) :: u64) n \<longleftrightarrow> 32 \<le> n \<and> n < 64 \<and> bit x (n - 32)"
  by (auto simp: bit_simps)

lemma upper_index:
  assumes "\<not> n < 32"
  shows "(n - 32) mod 8 = n mod 8 \<and> 4 + (n - 32) div 8 = n div (8 :: nat)"
proof -
  obtain k where "n = k + 4 * 8" using assms le_Suc_ex[of 32 n] by (auto simp: add.commute)
  then show ?thesis by (simp only: mod_mult_self1 div_mult_self3) simp
qed

lemma load_64_halves: "ucast (load_32 m a) OR push_bit 32 (ucast (load_32 m (a + 4))) = load_64 m a"
proof (rule bit_word_eqI)
  fix n assume "n < LENGTH(64)"
  then have n: "n < 64" by simp
  show "bit (ucast (load_32 m a) OR push_bit 32 (ucast (load_32 m (a + 4))) :: u64) n \<longleftrightarrow> bit (load_64 m a) n"
  proof (cases "n < 32")
    case True
    then show ?thesis unfolding bit_or_iff bit_upper bit_load_64[OF n] by (simp add: bit_unsigned_iff bit_load_32)
  next
    case False
    have "bit (ucast (load_32 m a) :: u64) n = False"
      using False bit_imp_le_length[of "load_32 m a" n] by (auto simp: bit_unsigned_iff)
    moreover have "bit (load_32 m (a + 4)) (n - 32) \<longleftrightarrow> bit (m (a + 4 + of_nat ((n - 32) div 8))) ((n - 32) mod 8)"
      by (rule bit_load_32) (use n in simp)
    moreover have "a + 4 + of_nat ((n - 32) div 8) = a + of_nat (n div 8)"
      unfolding upper_index[OF False, THEN conjunct2, symmetric] by (simp only: of_nat_add add.assoc) simp
    ultimately show ?thesis
      using False n unfolding bit_or_iff bit_upper bit_load_64[OF n] by (simp only: upper_index[OF False]) simp
  qed
qed

text \<open>
  On an aligned address the emulation reads the same 64 bits as the wide access; on another it throws, where the
  wide access does not ask.
\<close>

lemma emulated_read:
  "common_dfl_read_64 True m b off =
     (if (b + off) AND 0x3 = 0 then common_dfl_read_64 False m b off else None)"
proof -
  have "(x + 4) AND 3 = x AND (3 :: u32)" for x
  proof -
    have m: "z AND (3::u32) = take_bit 2 z" for z by (simp add: take_bit_eq_mask mask_eq_exp_minus_1)
    have u: "unat (take_bit 2 z) = unat z mod 4" for z :: u32 unfolding unsigned_take_bit_eq by (simp add: take_bit_eq_mod)
    have "unat (x + 4) mod 4 = unat x mod 4" by (simp add: unat_word_ariths mod_mod_cancel)
    then have "unat (take_bit 2 (x + 4)) = unat (take_bit 2 x)" unfolding u .
    then show ?thesis unfolding m by (simp only: word_unat_eq_iff)
  qed
  note aligned = this[of "b + off", unfolded add.assoc]
  have "Option.bind (Some (load_32 m (b + off))) (\<lambda>data. map_option (\<lambda>hi. ucast data OR push_bit 32 (ucast hi)) (Some (load_32 m (b + (off + 4)))))
      = Some (load_64 m (b + off))"
    using load_64_halves[of m "b + off"] by (simp add: add.assoc)
  then show ?thesis unfolding common_dfl_read_64_def common_dfl_read_32_def aligned by simp
qed

text \<open>The memory that is walked, and that the two accesses agree on where lists are aligned.\<close>

definition rom_of :: "bool \<Rightarrow> bus_mem \<Rightarrow> rom" where
  "rom_of emul m = (\<lambda>a. case common_dfl_read_64 emul m a 0 of Some v \<Rightarrow> v | None \<Rightarrow> 0)"

lemma rom_of_emulated: "a AND 0x3 = 0 \<Longrightarrow> rom_of True m a = rom_of False m a"
  by (simp add: rom_of_def emulated_read)

end
