(* ===== verification/Processor.thy ===== *)
theory Processor
  imports TrapEntry
begin

text \<open>
  What the C headers know of the processor: the macros for its control registers (\<open>HAL/inc/intel_niosv.h\<close>), which
  the functions of \<open>IrqCtl\<close> are made of, the causes of exceptions (\<open>sys/alt_exceptions.h\<close>) and of ECC errors
  (\<open>sys/alt_ecc_error_inject.h\<close>), the stack (\<open>sys/alt_stack.h\<close>) and the end of the program (\<open>alt_exit.c\<close>,
  \<open>sys/alt_sim.h\<close>).
\<close>

section \<open>Control registers\<close>

type_synonym csr_file = "u32 \<Rightarrow> u32"

definition NIOSV_MSTATUS_CSR :: u32 where "NIOSV_MSTATUS_CSR = 0x300"

definition NIOSV_MIE_CSR :: u32 where "NIOSV_MIE_CSR = 0x304"

definition NIOSV_MTVEC_CSR :: u32 where "NIOSV_MTVEC_CSR = 0x305"

definition NIOSV_MIP_CSR :: u32 where "NIOSV_MIP_CSR = 0x344"

definition NIOSV_ECC_INJECT_CSR :: u32 where "NIOSV_ECC_INJECT_CSR = 0x7C0"

definition NIOSV_MHARTID_CSR :: u32 where "NIOSV_MHARTID_CSR = 0xF14"

definition NIOSV_READ_CSR :: "u32 \<Rightarrow> csr_file \<Rightarrow> u32" where
  "NIOSV_READ_CSR regNum c = c regNum"

definition NIOSV_WRITE_CSR :: "u32 \<Rightarrow> u32 \<Rightarrow> csr_file \<Rightarrow> csr_file" where
  "NIOSV_WRITE_CSR regNum src c = c(regNum := src)"

definition NIOSV_SWAP_CSR :: "u32 \<Rightarrow> u32 \<Rightarrow> csr_file \<Rightarrow> u32 \<times> csr_file" where
  "NIOSV_SWAP_CSR regNum src c = (c regNum, c(regNum := src))"

definition NIOSV_SET_CSR :: "u32 \<Rightarrow> u32 \<Rightarrow> csr_file \<Rightarrow> csr_file" where
  "NIOSV_SET_CSR regNum bitmask c = c(regNum := c regNum OR bitmask)"

definition NIOSV_READ_AND_SET_CSR :: "u32 \<Rightarrow> u32 \<Rightarrow> csr_file \<Rightarrow> u32 \<times> csr_file" where
  "NIOSV_READ_AND_SET_CSR regNum bitmask c = (c regNum, c(regNum := c regNum OR bitmask))"

definition NIOSV_CLR_CSR :: "u32 \<Rightarrow> u32 \<Rightarrow> csr_file \<Rightarrow> csr_file" where
  "NIOSV_CLR_CSR regNum bitmask c = c(regNum := c regNum AND NOT bitmask)"

definition NIOSV_READ_AND_CLR_CSR :: "u32 \<Rightarrow> u32 \<Rightarrow> csr_file \<Rightarrow> u32 \<times> csr_file" where
  "NIOSV_READ_AND_CLR_CSR regNum bitmask c = (c regNum, c(regNum := c regNum AND NOT bitmask))"

definition alt_niosv_read_mhartid :: "csr_file \<Rightarrow> int" where
  "alt_niosv_read_mhartid c = sint (NIOSV_READ_CSR NIOSV_MHARTID_CSR c)"

text \<open>The two registers of \<open>irq_state\<close>, and what the others hold.\<close>

definition csr_view :: "csr_file \<Rightarrow> 'a irq_state_scheme \<Rightarrow> csr_file" where
  "csr_view c w = c(NIOSV_MSTATUS_CSR := mstatus w, NIOSV_MIE_CSR := mie w)"

lemmas csr_defs = csr_view_def NIOSV_READ_CSR_def NIOSV_SET_CSR_def NIOSV_CLR_CSR_def NIOSV_READ_AND_CLR_CSR_def
  NIOSV_MSTATUS_CSR_def NIOSV_MIE_CSR_def NIOSV_MIP_CSR_def

text \<open>The functions on interrupts are the instructions that the macros stand for.\<close>

lemma masking_instructions:
  "NIOSV_READ_AND_CLR_CSR NIOSV_MSTATUS_CSR NIOSV_MSTATUS_MIE_MASK (csr_view c w) =
     (fst (alt_irq_disable_all w), csr_view c (snd (alt_irq_disable_all w)))"
  "NIOSV_SET_CSR NIOSV_MSTATUS_CSR (context0 AND NIOSV_MSTATUS_MIE_MASK) (csr_view c w) = csr_view c (alt_irq_enable_all context0 w)"
  "NIOSV_SET_CSR NIOSV_MSTATUS_CSR NIOSV_MSTATUS_MIE_MASK (csr_view c w) = csr_view c (alt_irq_cpu_enable_interrupts w)"
  "NIOSV_CLR_CSR NIOSV_MIE_CSR NIOSV_MIE_MASK (csr_view c w) = csr_view c (intel_niosv_irq_init w)"
  by (simp_all add: csr_defs alt_irq_disable_all_def alt_irq_enable_all_def alt_irq_cpu_enable_interrupts_def
      intel_niosv_irq_init_def Let_def fun_eq_iff)

lemma line_instructions:
  "0 \<le> ALT_REMAP_IRQ_NUM irq \<Longrightarrow>
     csr_view c (snd (alt_ic_irq_enable ic irq w)) = NIOSV_SET_CSR NIOSV_MIE_CSR (push_bit (nat (ALT_REMAP_IRQ_NUM irq)) 1) (csr_view c w)"
  "0 \<le> ALT_REMAP_IRQ_NUM irq \<Longrightarrow>
     csr_view c (snd (alt_ic_irq_disable ic irq w)) = NIOSV_CLR_CSR NIOSV_MIE_CSR (push_bit (nat (ALT_REMAP_IRQ_NUM irq)) 1) (csr_view c w)"
  "csr_view c (alt_niosv_enable_timer_interrupt w) = NIOSV_SET_CSR NIOSV_MIE_CSR (push_bit (unat NIOSV_TIMER_IRQ) 1) (csr_view c w)"
  "csr_view c (alt_niosv_disable_timer_interrupt w) = NIOSV_CLR_CSR NIOSV_MIE_CSR (push_bit (unat NIOSV_TIMER_IRQ) 1) (csr_view c w)"
  by (simp_all add: csr_defs alt_ic_irq_enable_def alt_ic_irq_disable_def alt_niosv_enable_timer_interrupt_def
      alt_niosv_disable_timer_interrupt_def Let_def fun_eq_iff)

lemma pending_instructions:
  "alt_irq_pending (c NIOSV_MIP_CSR) w =
     drop_bit 16 (NIOSV_READ_CSR NIOSV_MIP_CSR (csr_view c w) AND NIOSV_READ_CSR NIOSV_MIE_CSR (csr_view c w))"
  by (simp add: csr_defs alt_irq_pending_def)

section \<open>Causes\<close>

datatype alt_exception_cause =
    NIOSV_UNDEFINED_CAUSE | NIOSV_INSTRUCTION_ADDRESS_MISALIGNED | NIOSV_INSTRUCTION_ACCESS_FAULT
  | NIOSV_ILLEGAL_INSTRUCTION | NIOSV_BREAKPOINT | NIOSV_LOAD_ADDRESS_MISALIGNED | NIOSV_LOAD_ACCESS_FAULT
  | NIOSV_STORE_AMO_ADDRESS_MISALIGNED | NIOSV_STORE_AMO_ACCESS_FAULT | NIOSV_ENVIRONMENT_CALL_FROM_U_MODE
  | NIOSV_ENVIRONMENT_CALL_FROM_S_MODE | NIOSV_RESERVED_BIT_10 | NIOSV_ENVIRONMENT_CALL_FROM_M_MODE
  | NIOSV_INSTRUCTION_PAGE_FAULT | NIOSV_LOAD_PAGE_FAULT | NIOSV_RESERVED_BIT_14 | NIOSV_STORE_AMO_PAGE_FAULT

fun cause_value :: "alt_exception_cause \<Rightarrow> int" where
  "cause_value NIOSV_UNDEFINED_CAUSE = - 1"
| "cause_value NIOSV_INSTRUCTION_ADDRESS_MISALIGNED = 0"
| "cause_value NIOSV_INSTRUCTION_ACCESS_FAULT = 1"
| "cause_value NIOSV_ILLEGAL_INSTRUCTION = 2"
| "cause_value NIOSV_BREAKPOINT = 3"
| "cause_value NIOSV_LOAD_ADDRESS_MISALIGNED = 4"
| "cause_value NIOSV_LOAD_ACCESS_FAULT = 5"
| "cause_value NIOSV_STORE_AMO_ADDRESS_MISALIGNED = 6"
| "cause_value NIOSV_STORE_AMO_ACCESS_FAULT = 7"
| "cause_value NIOSV_ENVIRONMENT_CALL_FROM_U_MODE = 8"
| "cause_value NIOSV_ENVIRONMENT_CALL_FROM_S_MODE = 9"
| "cause_value NIOSV_RESERVED_BIT_10 = 10"
| "cause_value NIOSV_ENVIRONMENT_CALL_FROM_M_MODE = 11"
| "cause_value NIOSV_INSTRUCTION_PAGE_FAULT = 12"
| "cause_value NIOSV_LOAD_PAGE_FAULT = 13"
| "cause_value NIOSV_RESERVED_BIT_14 = 14"
| "cause_value NIOSV_STORE_AMO_PAGE_FAULT = 15"

datatype alt_exception_result = NIOSV_EXCEPTION_RETURN_REISSUE_INST | NIOSV_EXCEPTION_RETURN_SKIP_INST

definition NIOSV_NUM_SYNCH_EXCEPTIONS :: int where "NIOSV_NUM_SYNCH_EXCEPTIONS = 16"

text \<open>The causes the processor reports are the numbers below the bound that \<open>handle_trap\<close> compares with.\<close>

lemma cause_values: "cause_value ` UNIV = {- 1} \<union> {0..<NIOSV_NUM_SYNCH_EXCEPTIONS}"
proof -
  have "cause_value c \<in> {- 1} \<union> {0..<16}" for c by (cases c) simp_all
  moreover have "v \<in> range cause_value" if "v \<in> {- 1, 0, 1, 2, 3, 4, 5, 6, 7, 8, 9, 10, 11, 12, 13, 14, 15}" for v
    using that by (elim insertE emptyE) (metis cause_value.simps rangeI)+
  moreover have "v \<in> {- 1} \<union> {0..<16} \<longleftrightarrow> v \<in> {- 1, 0, 1, 2, 3, 4, 5, 6, 7, 8, 9, 10, 11, 12, 13, 14, 15}" for v :: int
    by (simp only: Un_iff insert_iff empty_iff atLeastLessThan_iff simp_thms) presburger
  ultimately show ?thesis unfolding NIOSV_NUM_SYNCH_EXCEPTIONS_def by blast
qed

datatype alt_ecc_error_type =
    NIOSV_GPR_ECC_UNCORRECTABLE_ERROR | NIOSV_FPR_ECC_UNCORRECTABLE_ERROR | NIOSV_VPR_ECC_UNCORRECTABLE_ERROR
  | NIOSV_CSR_ECC_UNCORRECTABLE_ERROR | NIOSV_INSTRUCTION_TCM1_CORRECTABLE_ERROR
  | NIOSV_INSTRUCTION_TCM1_UNCORRECTABLE_ERROR | NIOSV_INSTRUCTION_TCM2_CORRECTABLE_ERROR
  | NIOSV_INSTRUCTION_TCM2_UNCORRECTABLE_ERROR | NIOSV_DATA_TCM1_CORRECTABLE_ERROR
  | NIOSV_DATA_TCM1_UNCORRECTABLE_ERROR | NIOSV_DATA_TCM2_CORRECTABLE_ERROR | NIOSV_DATA_TCM2_UNCORRECTABLE_ERROR
  | NIOSV_INSTRUCTION_CACHE_TAG_RAM_UNCORRECTABLE_ERROR | NIOSV_INSTRUCTION_CACHE_DATA_RAM_UNCORRECTABLE_ERROR
  | NIOSV_INSTRUCTION_CACHE_LOAD_CORRECTABLE_ERROR | NIOSV_INSTRUCTION_CACHE_LOAD_UNCORRECTABLE_ERROR
  | NIOSV_DATA_CACHE_TAG_RAM_UNCORRECTABLE_ERROR | NIOSV_DATA_CACHE_DATA_RAM_UNCORRECTABLE_ERROR
  | NIOSV_DATA_CACHE_LOAD_CORRECTABLE_ERROR | NIOSV_DATA_CACHE_LOAD_UNCORRECTABLE_ERROR
  | NIOSV_DATA_CACHE_STORE_CORRECTABLE_ERROR | NIOSV_DATA_CACHE_STORE_UNCORRECTABLE_ERROR

fun ecc_value :: "alt_ecc_error_type \<Rightarrow> u32" where
  "ecc_value NIOSV_GPR_ECC_UNCORRECTABLE_ERROR = 1"
| "ecc_value NIOSV_FPR_ECC_UNCORRECTABLE_ERROR = 3"
| "ecc_value NIOSV_VPR_ECC_UNCORRECTABLE_ERROR = 5"
| "ecc_value NIOSV_CSR_ECC_UNCORRECTABLE_ERROR = 7"
| "ecc_value NIOSV_INSTRUCTION_TCM1_CORRECTABLE_ERROR = 16"
| "ecc_value NIOSV_INSTRUCTION_TCM1_UNCORRECTABLE_ERROR = 17"
| "ecc_value NIOSV_INSTRUCTION_TCM2_CORRECTABLE_ERROR = 18"
| "ecc_value NIOSV_INSTRUCTION_TCM2_UNCORRECTABLE_ERROR = 19"
| "ecc_value NIOSV_DATA_TCM1_CORRECTABLE_ERROR = 24"
| "ecc_value NIOSV_DATA_TCM1_UNCORRECTABLE_ERROR = 25"
| "ecc_value NIOSV_DATA_TCM2_CORRECTABLE_ERROR = 26"
| "ecc_value NIOSV_DATA_TCM2_UNCORRECTABLE_ERROR = 27"
| "ecc_value NIOSV_INSTRUCTION_CACHE_TAG_RAM_UNCORRECTABLE_ERROR = 33"
| "ecc_value NIOSV_INSTRUCTION_CACHE_DATA_RAM_UNCORRECTABLE_ERROR = 35"
| "ecc_value NIOSV_INSTRUCTION_CACHE_LOAD_CORRECTABLE_ERROR = 36"
| "ecc_value NIOSV_INSTRUCTION_CACHE_LOAD_UNCORRECTABLE_ERROR = 37"
| "ecc_value NIOSV_DATA_CACHE_TAG_RAM_UNCORRECTABLE_ERROR = 41"
| "ecc_value NIOSV_DATA_CACHE_DATA_RAM_UNCORRECTABLE_ERROR = 43"
| "ecc_value NIOSV_DATA_CACHE_LOAD_CORRECTABLE_ERROR = 44"
| "ecc_value NIOSV_DATA_CACHE_LOAD_UNCORRECTABLE_ERROR = 45"
| "ecc_value NIOSV_DATA_CACHE_STORE_CORRECTABLE_ERROR = 46"
| "ecc_value NIOSV_DATA_CACHE_STORE_UNCORRECTABLE_ERROR = 47"

definition alt_ecc_error_inject :: "alt_ecc_error_type \<Rightarrow> csr_file \<Rightarrow> csr_file" where
  "alt_ecc_error_inject error_type c = NIOSV_WRITE_CSR NIOSV_ECC_INJECT_CSR (ecc_value error_type) c"

text \<open>No type is the value 0, which ends an injection: a call can start one and only the trap entry ends it.\<close>

lemma inject_starts: "alt_ecc_error_inject e c NIOSV_ECC_INJECT_CSR \<noteq> 0"
  by (cases e) (simp_all add: alt_ecc_error_inject_def NIOSV_WRITE_CSR_def)

section \<open>The stack\<close>

text \<open>\<open>alt_stack_limit_value\<close> is a variable of the program; the stack pointer is the register.\<close>

definition alt_stack_limit :: "u32 \<Rightarrow> u32" where
  "alt_stack_limit alt_stack_limit_value = alt_stack_limit_value"

definition alt_set_stack_limit :: "u32 \<Rightarrow> u32 \<Rightarrow> u32" where
  "alt_set_stack_limit limit alt_stack_limit_value = limit"

definition alt_stack_pointer :: "'s cpu \<Rightarrow> u32" where
  "alt_stack_pointer c = regs c SP"

definition alt_exception_stack_pointer :: "u32 \<Rightarrow> 's cpu \<Rightarrow> u32" where
  "alt_exception_stack_pointer pointer c = load_32 (ram c) (pointer - 4)"

text \<open>
  While a trap is handled that came from the normal stack, the function gives the value after the two registers were
  pushed, 8 less than the stack pointer of the interrupted program.
\<close>

lemma exception_stack_pointer_off_by_8:
  assumes "exc_stack cfg = Some (pointer, limit)" "alt_stack_pointer c - 8 > pointer \<or> alt_stack_pointer c - 8 < limit"
    and "span (pointer - 4) 4 \<inter> (span (alt_stack_pointer c - 8) 4 \<union> span (alt_stack_pointer c - 4) 4) = {}"
  shows "alt_exception_stack_pointer pointer (enter_stack cfg c) = alt_stack_pointer c - 8"
proof -
  have e: "entry_sp cfg (regs c SP) = pointer - 4" using assms(1,2) by (auto simp: entry_sp_def alt_stack_pointer_def)
  show ?thesis
    using enter_links(5)[OF assms(1), of c] assms(3) unfolding e by (simp add: alt_exception_stack_pointer_def alt_stack_pointer_def)
qed

section \<open>The end of the program\<close>

text \<open>What a debugger or a simulator sees, and the messages, each with a carriage return and a newline, when start messages are on. \<open>stub\<close> is \<open>ALT_CPU_HAS_DEBUG_STUB\<close> with \<open>ALT_BREAK_ON_EXIT\<close> or \<open>ALT_PROVIDE_GMON\<close>.\<close>

datatype exit_event = Log string | ALT_SIM_FAIL | ALT_SIM_PASS | Delay u32 | Ebreak u32 u32

definition alt_sim_halt :: "bool \<Rightarrow> u32 \<Rightarrow> u32 \<Rightarrow> exit_event list" where
  "alt_sim_halt stub cpu_freq exit_code =
     (if exit_code \<noteq> 0 then [ALT_SIM_FAIL] else [ALT_SIM_PASS])
     @ (if stub then [Delay (cpu_freq div 100), Ebreak exit_code (push_bit 2 1)] else [])"

text \<open>\<open>while (1);\<close> never returns.\<close>

partial_function (option) spin_forever :: "'s \<Rightarrow> 's option" where
  "spin_forever s = spin_forever s"

definition ALT_EXIT :: "bool \<Rightarrow> u32 \<Rightarrow> u32 \<Rightarrow> exit_event list \<times> unit option" where
  "ALT_EXIT stub cpu_freq exit_code =
     ([Log ''[alt_exit.c] Entering _exit() function.'', Log ''[alt_exit.c] Exit code from main was %d.'',
       Log ''[alt_exit.c] Calling ALT_OS_STOP().'', Log ''[alt_exit.c] Calling ALT_SIM_HALT().'']
        @ alt_sim_halt stub cpu_freq exit_code @ [Log ''[alt_exit.c] Spinning forever.''],
      spin_forever ())"

text \<open>The program never leaves \<open>_exit\<close>, and a simulator is told of a success exactly when the exit code is 0.\<close>

lemma spin_forever_None: "spin_forever s = None"
proof -
  have "spin_forever s = Some y \<Longrightarrow> False" for s y
    by (rule spin_forever.raw_induct[where P = "\<lambda>_ _. False"]) auto
  then show ?thesis by (cases "spin_forever s") auto
qed

lemma exit_ends: "snd (ALT_EXIT stub f code) = None"
  and exit_tells: "ALT_SIM_PASS \<in> set (fst (ALT_EXIT stub f code)) \<longleftrightarrow> code = 0"
  and exit_tells_one: "ALT_SIM_FAIL \<in> set (fst (ALT_EXIT stub f code)) \<longleftrightarrow> code \<noteq> 0"
  by (auto simp: ALT_EXIT_def alt_sim_halt_def spin_forever_None)

end
