(* ===== verification/Spec2Isabelle.thy ===== *)
theory Spec2Isabelle
  imports I2cIrq TimeOfDay DflProps LogProps LogFlags ProfileProps Loader App Process Vic BusyLoops TrapEntry Crt0 McountEntry BusAccess Channels DflPrint DflRead Processor
begin

text \<open>
  Verification of the software of a Nios V/m system on an FPGA: the blinking application under
  \<open>src/soft/app\<close> and the board support package under \<open>src/soft/bsp\<close> it runs on, which holds the
  hardware abstraction layer (\<open>HAL\<close>) and the drivers of the I2C master and the JTAG UART.

  \<^bold>\<open>The program.\<close> From reset, \<open>crt0.S\<close> sets the pointers and the trap vector and clears \<open>.bss\<close>, \<open>alt_load.c\<close> places the
  sections of the image, \<open>alt_main.c\<close> switches the interrupts on, \<open>alt_sys_init.c\<close>
  initialises the I2C master, the JTAG UART and the system clock, the standard streams are opened on the
  UART, and \<open>main\<close> is called. A trap enters at \<open>machine_trap.S\<close>, which saves the registers and calls \<open>handle_trap\<close>; that
  goes through the handler table to the drivers;
  the timer's interrupt ticks the clock and runs the alarms, one of which is the UART's host detection.
  System calls go from a table of file descriptors through the device's functions to the drivers.

  \<^bold>\<open>Common conventions.\<close> \<open>HalPrelude\<close> has the machine words, the error numbers and the generic lemmas. \<open>Mmio\<close>
  models \<open>io.h\<close>: a register access appends an event to a history, and a read is answered by a
  parameter of type \<open>hw\<close>, an arbitrary function of the history, so that every theorem holds for every behaviour of the
  device that its premises allow. Pointers are 32-bit words, 0 is \<open>NULL\<close>. C integers keep their width; sums that
  can wrap are written on words. A loop that need not end is a \<open>partial_function\<close> whose value \<open>None\<close>
  is the loop that runs for ever; no fuel is used but in the timeout counters the code has itself. Code
  outside a component (handlers, callbacks, constructors) is a parameter \<open>run\<close>. Addresses of data and code are the
  linker's choice and are fixed to distinct values where a theory needs them.

  \<^bold>\<open>Theories.\<close> States are records that extend each other as the code's globals do: \<open>io_state\<close> (history),
  \<open>irq_state\<close> (control registers and handler table), \<open>clock_state\<close>, \<open>jtag_world\<close> and \<open>i2c_world\<close> (the drivers),
  \<open>hal_state\<close>, \<open>fd_state\<close> and \<open>board\<close> (registries, descriptors, and the UART's world), \<open>machine\<close> (all of it).

  \<^item> \<open>IrqCtl\<close>: \<open>alt_irq.h\<close>, \<open>intel_niosv.h\<close>, \<open>alt_iic.c\<close>, \<open>alt_iic_isr_register.c\<close>, \<open>alt_irq_handler.c\<close> and the
    exception registration; masks, the handler table, dispatch and the trap handler. The locale of the
    interrupt lock is interpreted on \<open>alt_irq_disable_all\<close> and \<open>alt_irq_enable_all\<close>. \<open>Vic\<close>: the vectored mode.
  \<^item> \<open>I2cCore\<close> (registers, configuration, timing), \<open>I2cXfer\<close> (polled transfers and their timeouts),
    \<open>I2cBus\<close> (what a write puts on the bus), \<open>I2cRecv\<close> (what a read delivers), \<open>I2cIrq\<close> (transfers by
    interrupt, retries): \<open>altera_avalon_i2c.c\<close> and its headers.
  \<^item> \<open>RingBuffer\<close> (a queue in an array, as a locale of queues and its interpretation), \<open>JtagUart\<close> (registers,
    interrupt handler, host alarm), \<open>JtagQueues\<close> (the handler refines queues), \<open>JtagThread\<close> (read, write and close
    as functions, with interrupts while they wait), \<open>JtagWake\<close> (when the device interrupts), \<open>JtagSteps\<close>, \<open>JtagStepsRead\<close>
    (write and read as threads of single accesses, with interrupts between any two), \<open>JtagRuns\<close> (the functions are
    runs of the threads): \<open>altera_avalon_jtag_uart_*.c\<close>.
  \<^item> \<open>Llist\<close> (\<open>alt_llist.h\<close>), \<open>DevRegistry\<close> (registration and search by name), \<open>FileDesc\<close> (the table), \<open>FileTable\<close>
    (the system calls over an arbitrary driver, a locale), \<open>BoardFiles\<close> (its interpretation on the null device and the
    UART), \<open>Process\<close> (signals and the calls that report an error), \<open>Direct\<close> (the calls and character functions of builds
    with direct drivers or semihosting), \<open>Channels\<close> (the calls on DMA channels and flash devices over arbitrary drivers).
  \<^item> \<open>Clock\<close>, \<open>ClockProps\<close>: \<open>mtimer.c\<close>, \<open>alt_tick.c\<close>, \<open>alt_alarm_start.c\<close>, \<open>alt_busy_sleep.c\<close>; \<open>BusyLoops\<close>: the other forms
    of the busy wait; \<open>TimeOfDay\<close>: \<open>alt_gettod.c\<close>, \<open>alt_settod.c\<close>, \<open>alt_times.c\<close>.
  \<^item> \<open>Loader\<close> (\<open>alt_load.c\<close>, \<open>alt_tls.c\<close>, cache flushes), \<open>Boot\<close>, \<open>BootProps\<close> (\<open>alt_sys_init.c\<close>, \<open>alt_main.c\<close> and the
    drivers' initialisation), \<open>App\<close> (\<open>app/main.c\<close>, as single steps), \<open>Traps\<close> (what a trap does on the started board),
    \<open>StartTrace\<close> (which registers the start has accessed), \<open>Console\<close> (read
    and write from the system call to the bus), \<open>AddressMap\<close>, \<open>Mapped\<close> (every access against the slaves of \<open>system.h\<close>).
  \<^item> \<open>Asm\<close> (registers, instructions, the contract of a called function), \<open>TrapEntry\<close> (\<open>machine_trap.S\<close>), \<open>Crt0\<close> (\<open>crt0.S\<close>, \<open>linker.x\<close>,
    \<open>alt_ecc_exception_entry.S\<close>), \<open>McountEntry\<close> (\<open>alt_mcount.S\<close>), \<open>Processor\<close> (the macros on control registers, of which
    the functions of \<open>IrqCtl\<close> are shown to be made, the causes, the stack, \<open>alt_exit.c\<close>).
  \<^item> \<open>FpgaIntf\<close>, \<open>FpgaMsg\<close>, \<open>BusAccess\<close>, \<open>DflWalk\<close>, \<open>DflRead\<close>, \<open>DflProps\<close>, \<open>DflPrint\<close>: the FPGA interface library
    \<open>intel_fpga_*.c\<close>, that is the table of interfaces, its messages, accesses of all widths to a memory of bytes, and
    the walk over a list of device features in memory with the printing of what it found.
  \<^item> \<open>Printf\<close> (\<open>alt_printf.c\<close>), \<open>LogPrintf\<close>, \<open>LogFlags\<close>, \<open>LogProps\<close> (\<open>alt_log_printf.c\<close>), \<open>Heap\<close> (\<open>alt_sbrk.c\<close>),
    \<open>Profile\<close>, \<open>ProfileProps\<close> (\<open>alt_gmon.c\<close>, \<open>alt_mcount.S\<close>).

  \<^bold>\<open>What is shown.\<close> For the drivers: a polled write puts exactly its bytes on the bus and a polled read delivers
  exactly those received; the interrupt handlers advance a transfer by what they have read and stored and ask for the next interrupt, and behave as
  queues; write and read of the UART keep every byte and its order with interrupts at any point, and never wait for an
  interrupt that is off. For the processor: the code at the trap vector keeps every register and the stack of the
  interrupted code, so that an interrupt is one step of the relation under which the drivers are proved. For the system calls: exclusive use of a device,
  an invariant of the descriptor table over all calls, and delivery of a write to the UART's queue. For the clock: reading
  the time ends and is consistent, alarms are called back on time and only then (stated on a log that the
  callbacks write), the wall clock follows the ticks. For the start: from
  the image, with a running timer, the board reaches \<open>main\<close> with everything in place, and the application
  blinks for ever, step by step; on that board the console's bytes reach the bus, whatever traps are taken, and every access falls
  into a slave of the design. For the rest: the feature walk builds the table of the tree in memory; both printing functions
  and the logging one equal a reference rendering of their format; sbrk hands out disjoint aligned
  blocks, on which the profiler builds the exact call graph; from reset the memory is what the layout of \<open>linker.x\<close> wants, but for the
  stack; an access of any width to a memory is its bytes, and an exception where it is not aligned; vectored and direct dispatch agree;
  the busy loops keep their time; the calls of a build with direct drivers are compared with those on descriptors, the same and different ones. Lemmas named after an operation give its result on every branch;
  those with \<open>_refines\<close>, \<open>_ok\<close> or \<open>_run\<close> in the name relate it to its specification.

  \<^bold>\<open>Faults of the code\<close> are theorems too: at boot the UART loses its host detection because it is
  initialised before the clock; an eighth level of features overflows the parent stack; a callback that stops the
  next alarm makes the tick loop for ever; the combined I2C transfer loses a timeout; a requested bus speed near the
  limits overflows a register field; the search for locks misses the highest descriptor; a sample in the
  last bytes of the text counts in memory behind the histogram; \<open>alt_putchar\<close> on a direct driver never reports a failure.
  Lemmas show that the exception stack leaves \<open>handle_trap\<close> with a misaligned stack pointer, that a
  profiled function can lose its fifth to eighth argument, that an empty \<open>.bss\<close> clears a word behind it, and that
  \<open>alt_exception_stack_pointer\<close> is 8 off.

  \<^bold>\<open>Bounds.\<close> Buffers of the UART have the 2048 bytes and lists of parameters the sizes of the source. The
  walk of features is proved for trees whose depth stays below the depth at which the stack overflows, and the loader
  for sections below 4 GiB that do not overlap; both are premises with witnesses.

  \<^bold>\<open>Not modelled.\<close> What a C function does with the registers and its stack is a parameter, which keeps to the
  calling convention; so is what \<open>alt_load\<close>, called from \<open>crt0.S\<close>, leaves in the stack. Loads and stores relative to the stack pointer
  are taken to be aligned. The C library, and the parts of the HAL that are one call of it or empty (\<open>alt_malloc_lock.c\<close>,
  \<open>alt_env_lock.c\<close>, \<open>alt_uncached_malloc.c\<close> and so on); an operating system, which this build has not, so that the
  semaphores are empty macros; caches, which have size 0 on this processor; headers of pure declarations
  (\<open>alt_syscall.h\<close>, \<open>termios.h\<close>); the compiler identification that CMake generates; and the hardware, in VHDL, of which
  only the registers appear, as an arbitrary device. The model of the start takes no interrupts, although the processor would from the moment a
  driver has registered its handler. The I2C transfers
  are proved for the driver alone, since nothing on the board calls it.
\<close>

end
